(* ===== verification/Papa_Prelude.thy ===== *)
theory Papa_Prelude
  imports Main "HOL-Library.Word" "HOL-Library.AList"
begin

text \<open>
  Shared ground of the development: the machine integer types, the ways a C++
  operation of the program can fail, the sequencing of fallible operations, and the
  list and word lemmas that several components use.
\<close>

unbundle bit_operations_syntax

section \<open>Machine integers\<close>

text \<open>\<open>i64\<close> is a 64-bit pattern read with \<open>sint\<close> where the code compares or subtracts.\<close>

type_synonym u8 = "8 word"
type_synonym u16 = "16 word"
type_synonym u32 = "32 word"
type_synonym u64 = "64 word"
type_synonym i64 = "64 word"

section \<open>Failures\<close>

text \<open>
  \<open>error_kind\<close> is the enumeration of exceptions.h.  \<open>Papa_Error\<close> is a
  \<open>PapaError\<close> carried by an \<open>Expected\<close>, \<open>Invariant_Error\<close> a thrown
  \<open>PapaInvariantError\<close>; \<open>Null_Deref\<close> is a dereference of a null
  \<open>unique_ptr\<close> and \<open>Signed_Overflow\<close> an overflow of signed arithmetic, which the
  language leaves undefined.
\<close>

datatype error_kind =
    kOk | kIoError | kNotPe | kBadPe | kOutOfBounds | kDisassemblyFailed
  | kInvalidRule | kCycle | kYamlParseError | kFlirtBadCompressedStream
  | kFlirtBadMagic | kFlirtUnsupportedVersion | kFlirtTruncated | kFlirtBadNode
  | kFlirtTooDeep

datatype failure =
    Papa_Error error_kind string
  | Invariant_Error string
  | Null_Deref
  | Signed_Overflow

type_synonym 'a expected = "failure + 'a"

definition sbind :: "'e + 'a \<Rightarrow> ('a \<Rightarrow> 'e + 'b) \<Rightarrow> 'e + 'b" where
  "sbind m k = (case m of Inl e \<Rightarrow> Inl e | Inr x \<Rightarrow> k x)"

lemma sbind_Inl [simp]: "sbind (Inl e) k = Inl e"
  by (simp add: sbind_def)

lemma sbind_Inr [simp]: "sbind (Inr x) k = k x"
  by (simp add: sbind_def)

lemma sbind_eq_Inr [simp]: "sbind m k = Inr y \<longleftrightarrow> (\<exists>x. m = Inr x \<and> k x = Inr y)"
  by (cases m) auto

lemma sbind_eq_Inl: "sbind m k = Inl e \<longleftrightarrow> m = Inl e \<or> (\<exists>x. m = Inr x \<and> k x = Inl e)"
  by (cases m) auto

lemma sbind_cong [fundef_cong]:
  "m = m' \<Longrightarrow> (\<And>x. m' = Inr x \<Longrightarrow> k x = k' x) \<Longrightarrow> sbind m k = sbind m' k'"
  by (cases m') auto

section \<open>Lists\<close>

lemma take_Suc_cons_drop: "i < length xs \<Longrightarrow> drop i xs = xs ! i # drop (Suc i) xs"
  by (simp add: Cons_nth_drop_Suc)

text \<open>\<open>has_infix n h\<close> is \<open>h.find(n) != npos\<close> of the standard strings.\<close>

fun has_infix :: "'a list \<Rightarrow> 'a list \<Rightarrow> bool" where
  "has_infix n [] = (n = [])"
| "has_infix n (x # xs) = (take (length n) (x # xs) = n \<or> has_infix n xs)"

lemma has_infix_iff: "has_infix n h \<longleftrightarrow> (\<exists>a b. h = a @ n @ b)"
proof (induction h)
  case (Cons x xs)
  have "(\<exists>a b. x # xs = a @ n @ b) \<longleftrightarrow>
      (\<exists>b. x # xs = n @ b) \<or> (\<exists>a b. xs = a @ n @ b)"
    by (metis append_Cons append_Nil list.exhaust list.inject)
  moreover have "(\<exists>b. x # xs = n @ b) \<longleftrightarrow> take (length n) (x # xs) = n"
    by (metis append_eq_conv_conj)
  ultimately show ?case using Cons by simp
qed simp

lemma has_infix_Nil [simp]: "has_infix [] h"
  by (cases h) auto

lemma has_infix_append [intro]: "has_infix n h \<Longrightarrow> has_infix n (a @ h)"
  unfolding has_infix_iff by (metis append.assoc)

section \<open>Decimal numbers\<close>

text \<open>\<open>std::to_string\<close> and \<open>std::to_chars\<close> of an unsigned integer.\<close>

fun to_decimal :: "nat \<Rightarrow> string" where
  "to_decimal n =
     (if n < 10 then [char_of (48 + n)] else to_decimal (n div 10) @ [char_of (48 + n mod 10)])"

declare to_decimal.simps [simp del]

section \<open>Words\<close>

lemma unat_plus_lt: "unat a + unat b < 2 ^ LENGTH('a) \<Longrightarrow> unat (a + b) = unat a + unat b"
  for a b :: "'a::len word"
  by (simp add: unat_word_ariths)

lemma word_of_nat_unat_add:
  "unat a + n < 2 ^ LENGTH('a) \<Longrightarrow> unat (a + of_nat n) = unat a + n"
  for a :: "'a::len word"
  by (simp add: unat_word_ariths unat_of_nat)

end
