(* ===== verification/Regex_Prefilter.thy ===== *)
theory Regex_Prefilter
  imports Papa_Prelude
begin

text \<open>
  The literal prefilter of src/util/regex_prefilter.cpp: from the text of an ECMAScript
  pattern it computes a literal that every match must contain, so that a string lacking
  the literal is rejected without running the regular expression.  Indices into the
  pattern are natural numbers and \<open>npos\<close> is \<^const>\<open>None\<close>.
\<close>

section \<open>Character classes\<close>

definition is_digit :: "char \<Rightarrow> bool" where
  "is_digit c \<longleftrightarrow> (of_char c :: nat) \<ge> 48 \<and> (of_char c :: nat) \<le> 57"

definition is_alnum :: "char \<Rightarrow> bool" where
  "is_alnum c \<longleftrightarrow> is_digit c
     \<or> ((of_char c :: nat) \<ge> 97 \<and> (of_char c :: nat) \<le> 122)
     \<or> ((of_char c :: nat) \<ge> 65 \<and> (of_char c :: nat) \<le> 90)"

definition fold_char :: "char \<Rightarrow> char" where
  "fold_char c = (if (of_char c :: nat) \<ge> 65 \<and> (of_char c :: nat) \<le> 90
     then char_of ((of_char c :: nat) - 65 + 97) else c)"

definition printable_char :: "char \<Rightarrow> bool" where
  "printable_char c \<longleftrightarrow> (of_char c :: nat) \<ge> 32 \<and> (of_char c :: nat) \<le> 126"

section \<open>Delimiting classes and groups\<close>

function class_end_loop :: "string \<Rightarrow> nat \<Rightarrow> nat option" where
  "class_end_loop p k =
     (if k \<ge> length p then None
      else if p ! k = CHR 0x5C then class_end_loop p (k + 2)
      else if p ! k = CHR ''['' \<and> k + 1 < length p \<and> p ! (k + 1) \<in> set '':.='' then None
      else if p ! k = CHR '']'' then Some (k + 1)
      else class_end_loop p (k + 1))"
  by pat_completeness auto
termination by (relation "measure (\<lambda>(p, k). length p - k)") auto

definition class_end :: "string \<Rightarrow> nat \<Rightarrow> nat option" where
  "class_end p i =
     (let k = (if i + 1 < length p \<and> p ! (i + 1) = CHR ''^'' then i + 2 else i + 1)
      in if k < length p \<and> p ! k = CHR '']'' then None else class_end_loop p k)"

declare class_end_loop.simps [simp del]

lemma class_end_loop_gt: "class_end_loop p k = Some e \<Longrightarrow> k < e"
proof (induction p k rule: class_end_loop.induct)
  case (1 p k)
  then show ?case
    by (simp add: class_end_loop.simps [of p k] split: if_splits)
qed

lemma class_end_gt: "class_end p i = Some e \<Longrightarrow> i < e"
  by (auto simp: class_end_def Let_def split: if_splits dest!: class_end_loop_gt)

function skip_loop :: "string \<Rightarrow> nat \<Rightarrow> nat \<Rightarrow> nat option" where
  "skip_loop p k depth =
     (if k \<ge> length p then None
      else if p ! k = CHR 0x5C then skip_loop p (k + 2) depth
      else if p ! k = CHR ''['' then
        (case class_end p k of None \<Rightarrow> None | Some e \<Rightarrow> skip_loop p e depth)
      else if p ! k = CHR ''('' then skip_loop p (k + 1) (depth + 1)
      else if p ! k = CHR '')'' then
        (if depth - 1 = 0 then Some (k + 1) else skip_loop p (k + 1) (depth - 1))
      else skip_loop p (k + 1) depth)"
  by pat_completeness auto
termination
  by (relation "measure (\<lambda>(p, k, d). length p - k)") (auto dest!: class_end_gt)

text \<open>\<open>i\<close> is the index of the opening bracket, so the depth is positive in the loop.\<close>

definition skip_bracketed :: "string \<Rightarrow> nat \<Rightarrow> nat option" where
  "skip_bracketed p i = (if p ! i = CHR ''['' then class_end p i else skip_loop p i 0)"

declare skip_loop.simps [simp del]

lemma skip_loop_gt: "skip_loop p k d = Some e \<Longrightarrow> k < e"
proof (induction p k d rule: skip_loop.induct)
  case (1 p k d)
  then show ?case
    by (simp add: skip_loop.simps [of p k d] split: if_splits option.splits)
      (fastforce dest: class_end_gt Suc_lessD)+
qed

lemma skip_bracketed_gt: "skip_bracketed p i = Some e \<Longrightarrow> i < e"
  by (auto simp: skip_bracketed_def split: if_splits dest: skip_loop_gt class_end_gt)

section \<open>Quantifiers\<close>

record quantifier =
  q_end :: nat
  q_optional :: bool

text \<open>\<open>index_of c xs\<close> is the first position of \<open>c\<close>, or \<open>length xs\<close> when there is none.\<close>

definition index_of :: "char \<Rightarrow> string \<Rightarrow> nat" where
  "index_of c xs = length (takeWhile (\<lambda>d. d \<noteq> c) xs)"

text \<open>A trailing \<open>?\<close> makes a quantifier lazy and is skipped.\<close>

definition skip_lazy :: "string \<Rightarrow> quantifier \<Rightarrow> quantifier" where
  "skip_lazy p q = (if q_end q < length p \<and> p ! q_end q = CHR ''?''
     then q\<lparr>q_end := q_end q + 1\<rparr> else q)"

definition brace_quantifier :: "string \<Rightarrow> nat \<Rightarrow> quantifier option" where
  "brace_quantifier p i =
     (let close = i + index_of (CHR ''}'') (drop i p);
          body = drop (i + 1) (take close p);
          min_len = min (index_of (CHR '','') body) (length body)
      in if close \<ge> length p then None
         else if min_len = 0 \<or> \<not> list_all (\<lambda>c. c \<in> set ''0123456789,'') body then None
         else Some \<lparr>q_end = close + 1,
                    q_optional = list_all (\<lambda>c. c = CHR ''0'') (take min_len body)\<rparr>)"

definition parse_quantifier :: "string \<Rightarrow> nat \<Rightarrow> quantifier option" where
  "parse_quantifier p i =
     (if i \<ge> length p then Some \<lparr>q_end = i, q_optional = False\<rparr>
      else if p ! i = CHR ''*'' \<or> p ! i = CHR ''?'' then
        Some (skip_lazy p \<lparr>q_end = i + 1, q_optional = True\<rparr>)
      else if p ! i = CHR ''+'' then Some (skip_lazy p \<lparr>q_end = i + 1, q_optional = False\<rparr>)
      else if p ! i = CHR ''{'' then map_option (skip_lazy p) (brace_quantifier p i)
      else Some \<lparr>q_end = i, q_optional = False\<rparr>)"

lemma skip_lazy_ge: "q_end q \<le> q_end (skip_lazy p q)"
  by (simp add: skip_lazy_def)

lemma brace_quantifier_ge: "brace_quantifier p i = Some q \<Longrightarrow> i \<le> q_end q"
  unfolding brace_quantifier_def Let_def by (drule sym) (simp split: if_split_asm)

lemma parse_quantifier_ge:
  assumes "parse_quantifier p i = Some q"
  shows "i \<le> q_end q"
proof -
  have "Suc i \<le> q_end (skip_lazy p \<lparr>q_end = Suc i, q_optional = b\<rparr>)" for b
    using skip_lazy_ge [of "\<lparr>q_end = Suc i, q_optional = b\<rparr>" p] by simp
  then have lazy: "i \<le> q_end (skip_lazy p \<lparr>q_end = Suc i, q_optional = b\<rparr>)" for b
    using Suc_leD by blast
  have brace: "i \<le> q_end (skip_lazy p r)" if "brace_quantifier p i = Some r" for r
    using brace_quantifier_ge [OF that] skip_lazy_ge [of r p] by simp
  show ?thesis
    using assms lazy brace unfolding parse_quantifier_def
    by (simp split: if_split_asm) auto
qed

section \<open>The required literal\<close>

text \<open>
  One turn of the scanner reads one atom.  \<open>Inr (lit, next)\<close> is the atom's literal
  character, if it has one, and the index past it; \<open>Inl ()\<close> is the early return of an
  empty result.
\<close>

definition scan_atom :: "string \<Rightarrow> nat \<Rightarrow> unit + (char option \<times> nat)" where
  "scan_atom p i =
     (let c = p ! i in
      if c = CHR ''('' \<or> c = CHR ''['' then
        (case skip_bracketed p i of None \<Rightarrow> Inl () | Some n \<Rightarrow> Inr (None, n))
      else if c = CHR 0x5C then
        (if i + 1 \<ge> length p then Inl ()
         else let e = p ! (i + 1) in
           if \<not> is_alnum e then Inr (Some e, i + 2)
           else if e \<notin> set ''dDwWsSbB'' then Inl () else Inr (None, i + 2))
      else if c \<in> set ''|)]}*+?{'' then Inl ()
      else if c \<noteq> CHR ''.'' \<and> c \<noteq> CHR ''^'' \<and> c \<noteq> CHR ''$'' then Inr (Some c, i + 1)
      else Inr (None, i + 1))"

lemma scan_atom_gt: "scan_atom p i = Inr (l, n) \<Longrightarrow> i < n"
  by (auto simp: scan_atom_def Let_def split: if_splits option.splits dest: skip_bracketed_gt)

definition flush :: "string \<Rightarrow> string \<Rightarrow> string" where
  "flush best run = (if length run > length best then run else best)"

definition is_printable_literal :: "char option \<Rightarrow> bool" where
  "is_printable_literal l = (case l of None \<Rightarrow> False | Some c \<Rightarrow> printable_char c)"

function required_loop :: "string \<Rightarrow> bool \<Rightarrow> nat \<Rightarrow> string \<Rightarrow> string \<Rightarrow> string" where
  "required_loop p icase i best run =
     (if i \<ge> length p then flush best run
      else case scan_atom p i of Inl _ \<Rightarrow> []
      | Inr (lit, next) \<Rightarrow>
        (case parse_quantifier p next of None \<Rightarrow> []
         | Some q \<Rightarrow>
           let printable = is_printable_literal lit;
               run' = (if printable \<and> \<not> q_optional q
                       then run @ [if icase then fold_char (the lit) else the lit] else run)
           in if \<not> printable \<or> q_end q \<noteq> next
              then required_loop p icase (q_end q) (flush best run') []
              else required_loop p icase (q_end q) best run'))"
  by pat_completeness auto
termination
  by (relation "measure (\<lambda>(p, ic, i, b, r). length p - i)")
    (auto dest!: scan_atom_gt parse_quantifier_ge)

declare required_loop.simps [simp del]

definition required_literal :: "string \<Rightarrow> bool \<Rightarrow> string" where
  "required_literal pattern icase = required_loop pattern icase 0 [] []"

definition contains_literal :: "string \<Rightarrow> string \<Rightarrow> bool \<Rightarrow> bool" where
  "contains_literal haystack literal icase =
     (if literal = [] then True
      else if \<not> icase then has_infix literal haystack
      else has_infix (map fold_char literal) (map fold_char haystack))"

section \<open>The scanned pattern as a sequence of atoms\<close>

text \<open>
  What the scanner recognises of a pattern: a sequence of atoms, each a literal matched
  once, a literal repeated at least once, or anything else.  \<^const>\<open>None\<close> is a pattern the
  scanner gives up on.
\<close>

datatype atom = Once char | Many char | Other

definition atom_of :: "char option \<Rightarrow> nat \<Rightarrow> quantifier \<Rightarrow> atom" where
  "atom_of l next q =
     (case l of None \<Rightarrow> Other
      | Some c \<Rightarrow> if q_end q = next then Once c else if q_optional q then Other else Many c)"

function scan_atoms :: "string \<Rightarrow> nat \<Rightarrow> atom list option" where
  "scan_atoms p i =
     (if i \<ge> length p then Some []
      else case scan_atom p i of Inl _ \<Rightarrow> None
      | Inr (l, next) \<Rightarrow>
        (case parse_quantifier p next of None \<Rightarrow> None
         | Some q \<Rightarrow> map_option (\<lambda>as. atom_of l next q # as) (scan_atoms p (q_end q))))"
  by pat_completeness auto
termination
  by (relation "measure (\<lambda>(p, i). length p - i)")
    (auto dest!: scan_atom_gt parse_quantifier_ge)

declare scan_atoms.simps [simp del]

definition char_fold :: "bool \<Rightarrow> char \<Rightarrow> char" where
  "char_fold icase = (if icase then fold_char else id)"

text \<open>\<open>atom_lang\<close> over-approximates what an ECMAScript engine lets the atom consume.\<close>

fun atom_lang :: "bool \<Rightarrow> atom \<Rightarrow> string \<Rightarrow> bool" where
  "atom_lang ic (Once c) u = (length u = 1 \<and> char_fold ic (hd u) = char_fold ic c)"
| "atom_lang ic (Many c) u = (u \<noteq> [] \<and> list_all (\<lambda>d. char_fold ic d = char_fold ic c) u)"
| "atom_lang ic Other u = True"

fun in_lang :: "bool \<Rightarrow> atom list \<Rightarrow> string \<Rightarrow> bool" where
  "in_lang ic [] s = (s = [])"
| "in_lang ic (a # as) s =
     list_ex (\<lambda>n. atom_lang ic a (take n s) \<and> in_lang ic as (drop n s)) [0..<Suc (length s)]"

definition pattern_match :: "string \<Rightarrow> bool \<Rightarrow> string \<Rightarrow> bool" where
  "pattern_match p ic m = (case scan_atoms p 0 of None \<Rightarrow> True | Some as \<Rightarrow> in_lang ic as m)"

fun literal_of :: "bool \<Rightarrow> atom list \<Rightarrow> string \<Rightarrow> string \<Rightarrow> string" where
  "literal_of ic [] best run = flush best run"
| "literal_of ic (Once c # as) best run =
     (if printable_char c then literal_of ic as best (run @ [char_fold ic c])
      else literal_of ic as (flush best run) [])"
| "literal_of ic (Many c # as) best run =
     (if printable_char c then literal_of ic as (flush best (run @ [char_fold ic c])) []
      else literal_of ic as (flush best run) [])"
| "literal_of ic (Other # as) best run = literal_of ic as (flush best run) []"

lemma skip_lazy_optional [simp]: "q_optional (skip_lazy p q) = q_optional q"
  by (simp add: skip_lazy_def)

lemma no_quantifier_not_optional:
  assumes "parse_quantifier p i = Some q" and "q_end q = i"
  shows "\<not> q_optional q"
proof -
  have "i < q_end (skip_lazy p r)" if "i < q_end r" for r
    using skip_lazy_ge [of r p] that by simp
  then have lazy: "q_end (skip_lazy p r) \<noteq> i" if "i < q_end r" for r
    using that by (metis less_irrefl)
  have brace: "i < q_end r" if "brace_quantifier p i = Some r" for r
    using that unfolding brace_quantifier_def Let_def by (drule_tac sym) (simp split: if_split_asm)
  have "q_end (skip_lazy p \<lparr>q_end = Suc i, q_optional = b\<rparr>) \<noteq> i" for b
    by (rule lazy) simp
  then show ?thesis
    using assms lazy [OF brace] unfolding parse_quantifier_def
    by (auto split: if_split_asm) (metis quantifier.select_convs(2))+
qed

text \<open>The loop of the code, read over the atoms.\<close>

lemma required_loop_atoms:
  "required_loop p ic i best run =
     (case scan_atoms p i of None \<Rightarrow> [] | Some as \<Rightarrow> literal_of ic as best run)"
proof (induction p ic i best run rule: required_loop.induct)
  case (1 p ic i best run)
  show ?case
  proof (cases "i \<ge> length p")
    case True
    then show ?thesis
      by (simp add: required_loop.simps [of p ic i] scan_atoms.simps [of p i])
  next
    case i: False
    show ?thesis
    proof (cases "scan_atom p i")
      case (Inl u)
      with i show ?thesis
        by (simp add: required_loop.simps [of p ic i] scan_atoms.simps [of p i])
    next
      case (Inr r)
      obtain l n where r: "r = (l, n)" by (cases r)
      show ?thesis
      proof (cases "parse_quantifier p n")
        case None
        with i Inr r show ?thesis
          by (simp add: required_loop.simps [of p ic i] scan_atoms.simps [of p i])
      next
        case (Some q)
        note IH = "1.IH" [OF i Inr r [symmetric] Some refl refl]
        note opt = no_quantifier_not_optional [OF Some]
        show ?thesis
          using i Inr r Some IH opt
          by (auto simp: required_loop.simps [of p ic i] scan_atoms.simps [of p i] atom_of_def
              is_printable_literal_def char_fold_def Let_def split: option.splits)
      qed
    qed
  qed
qed

section \<open>Soundness of the prefilter\<close>

lemma fold_char_idem [simp]: "fold_char (fold_char c) = fold_char c"
  by (simp add: fold_char_def)

lemma char_fold_idem [simp]: "char_fold ic (char_fold ic c) = char_fold ic c"
  by (simp add: char_fold_def)

lemma has_infix_flush:
  "has_infix (map f best) h \<Longrightarrow> has_infix (map f run) h \<Longrightarrow> has_infix (map f (flush best run)) h"
  by (simp add: flush_def)

lemma in_lang_Cons:
  "in_lang ic (a # as) s \<longleftrightarrow> (\<exists>u v. s = u @ v \<and> atom_lang ic a u \<and> in_lang ic as v)"
proof
  assume "in_lang ic (a # as) s"
  then obtain n where "atom_lang ic a (take n s)" "in_lang ic as (drop n s)"
    by (auto simp: list_ex_iff simp del: upt_Suc)
  then show "\<exists>u v. s = u @ v \<and> atom_lang ic a u \<and> in_lang ic as v"
    by (metis append_take_drop_id)
next
  assume "\<exists>u v. s = u @ v \<and> atom_lang ic a u \<and> in_lang ic as v"
  then obtain u v where "s = u @ v" "atom_lang ic a u" "in_lang ic as v" by blast
  then show "in_lang ic (a # as) s"
    by (auto simp: list_ex_iff simp del: upt_Suc intro!: bexI [of _ "length u"])
qed

declare in_lang.simps(2) [simp del]

text \<open>The current run sits in the text directly before the part still to be matched.\<close>

lemma literal_of_sound:
  assumes "in_lang ic as m" and "map f r = map f run"
    and "has_infix (map f best) (map f (pre @ r @ m @ post))" and f: "f = char_fold ic"
  shows "has_infix (map f (literal_of ic as best run)) (map f (pre @ r @ m @ post))"
  using assms(1,2,3)
proof (induction as arbitrary: pre r m best run)
  case Nil
  have "has_infix (map f run) (map f (pre @ r @ m @ post))"
    unfolding has_infix_iff using Nil.prems(2) by auto
  with Nil show ?case by (simp add: has_infix_flush)
next
  case (Cons a as)
  then obtain u v where m: "m = u @ v" and u: "atom_lang ic a u" and v: "in_lang ic as v"
    by (auto simp: in_lang_Cons)
  have run: "has_infix (map f run) (map f (pre @ r @ m @ post))"
    unfolding has_infix_iff using Cons.prems(2) by auto
  have skip: "has_infix (map f (literal_of ic as b [])) (map f (pre @ r @ m @ post))"
    if "has_infix (map f b) (map f (pre @ r @ m @ post))" for b
    using Cons.IH [OF v, of "[]" "[]" b "pre @ r @ u"] that m by simp
  have drop_run: "has_infix (map f (literal_of ic as (flush best run) []))
      (map f (pre @ r @ m @ post))"
    by (rule skip) (use Cons.prems(3) run in \<open>simp add: has_infix_flush\<close>)
  show ?case
  proof (cases a)
    case (Once c)
    then obtain d where d: "u = [d]" "f d = f c" using u f by (cases u) auto
    have "has_infix (map f (literal_of ic as best (run @ [char_fold ic c])))
        (map f (pre @ (r @ [d]) @ v @ post))"
      by (rule Cons.IH [OF v]) (use Cons.prems d m f in auto)
    with Once drop_run d m show ?thesis by simp
  next
    case (Many c)
    then obtain d u' where d: "u = d # u'" "f d = f c" using u f by (cases u) auto
    have "has_infix (map f (run @ [char_fold ic c])) (map f (pre @ r @ m @ post))"
      unfolding has_infix_iff using Cons.prems(2) d m f by force
    with Cons.prems(3) have "has_infix (map f (flush best (run @ [char_fold ic c])))
        (map f (pre @ r @ m @ post))"
      by (simp only: has_infix_flush)
    with Many drop_run skip show ?thesis by simp
  next
    case Other
    with drop_run show ?thesis by simp
  qed
qed

text \<open>
  the prefilter never rejects a string the pattern can match: whatever part of the
  text the pattern's atoms match, the text contains the required literal.
\<close>

theorem required_literal_sound:
  assumes "pattern_match p ic m"
  shows "contains_literal (pre @ m @ post) (required_literal p ic) ic"
proof (cases "scan_atoms p 0")
  case None
  then show ?thesis
    by (simp add: required_literal_def required_loop_atoms contains_literal_def)
next
  case (Some as)
  with assms have "in_lang ic as m" by (simp add: pattern_match_def)
  from literal_of_sound [OF this, of "char_fold ic" "[]" "[]" "[]" pre post]
  have "has_infix (map (char_fold ic) (literal_of ic as [] []))
      (map (char_fold ic) (pre @ m @ post))" by simp
  with Some show ?thesis
    by (auto simp: required_literal_def required_loop_atoms contains_literal_def char_fold_def)
qed

lemma required_literal_sound_witness:
  "contains_literal ''a cMd.ExE b'' (required_literal ''cm+d[.]exe?'' True) True"
proof -
  have "pattern_match ''cm+d[.]exe?'' True ''cMd.ExE''" by code_simp
  from required_literal_sound [OF this, of "''a ''" "'' b''"] show ?thesis by simp
qed

end
