(* ===== verification/Features.thy ===== *)
theory Features
  imports Regex_Prefilter
begin

text \<open>
  Addresses, features and feature sets: src/features/address.cpp, feature.cpp, common.cpp,
  insn.cpp, basic_block.cpp and the hash mixing of util/hashing.h.  A feature is modelled
  by its class and payload; the description, which equality ignores, is left out.  A
  \<open>double\<close> is its bit pattern, compared by the IEEE rules.  The hash functions of the
  standard library are a parameter, as is its regular expression engine: \<open>rx pattern icase\<close>
  is \<^const>\<open>None\<close> for a pattern that does not compile and else the search predicate.
\<close>

section \<open>Hash mixing\<close>

definition kGoldenRatio64 :: u64 where "kGoldenRatio64 = 0x9E3779B97F4A7C15"
definition kFnv64OffsetBasis :: u64 where "kFnv64OffsetBasis = 0xCBF29CE484222325"
definition kFnv64Prime :: u64 where "kFnv64Prime = 0x100000001B3"

definition hash_combine :: "u64 \<Rightarrow> u64 \<Rightarrow> u64" where
  "hash_combine seed val =
     seed XOR (val + kGoldenRatio64 + push_bit 6 seed + drop_bit 2 seed)"

definition fnv1a64 :: "u8 list \<Rightarrow> u64" where
  "fnv1a64 data = foldl (\<lambda>h b. (h XOR ucast b) * kFnv64Prime) kFnv64OffsetBasis data"

definition hash_double_bits :: "u64 \<Rightarrow> u64" where
  "hash_double_bits bits = bits"

section \<open>Addresses\<close>

datatype address =
    NoAddress
  | AbsoluteVirtualAddress u64
  | RelativeVirtualAddress u64
  | FileOffsetAddress u64
  | DnTokenAddress u64
  | DnTokenOffsetAddress u64 u64

fun tag_of :: "address \<Rightarrow> u64" where
  "tag_of NoAddress = 0"
| "tag_of (AbsoluteVirtualAddress v) = 1"
| "tag_of (RelativeVirtualAddress v) = 2"
| "tag_of (FileOffsetAddress v) = 3"
| "tag_of (DnTokenAddress t) = 4"
| "tag_of (DnTokenOffsetAddress t off) = 5"

fun address_payload :: "address \<Rightarrow> u64" where
  "address_payload NoAddress = 0"
| "address_payload (AbsoluteVirtualAddress v) = v"
| "address_payload (RelativeVirtualAddress v) = v"
| "address_payload (FileOffsetAddress v) = v"
| "address_payload (DnTokenAddress t) = t"
| "address_payload (DnTokenOffsetAddress t off) = t XOR (off * kGoldenRatio64)"

definition linearize :: "address \<Rightarrow> u64" where
  "linearize a = push_bit 56 (tag_of a) XOR address_payload a"

section \<open>Features\<close>

datatype feature_tag =
    kString | kSubstring | kRegex | kBytes | kNumber | kOffset | kMnemonic | kApi
  | kImport | kExport | kSection | kFunctionName | kClass | kNamespace | kProperty
  | kCharacteristic | kMatchedRule | kOs | kArch | kFormat | kOperandNumber
  | kOperandOffset | kBasicBlock

datatype number_value = Num_U64 u64 | Num_I64 i64 | Num_Double u64

datatype access = Access_None | Access_Read | Access_Write

datatype feature =
    FString string | FSubstring string | FRegex string | FBytes "u8 list"
  | FNumber number_value | FOffset i64 | FMnemonic string | FApi string
  | FImport string | FExport string | FSection string | FFunctionName string
  | FClass string | FNamespace string | FProperty string access
  | FCharacteristic string | FMatchedRule string | FOs string | FArch string
  | FFormat string | FOperandNumber nat number_value | FOperandOffset nat i64
  | FBasicBlock

fun tag :: "feature \<Rightarrow> feature_tag" where
  "tag (FString _) = kString" | "tag (FSubstring _) = kSubstring"
| "tag (FRegex _) = kRegex" | "tag (FBytes _) = kBytes"
| "tag (FNumber _) = kNumber" | "tag (FOffset _) = kOffset"
| "tag (FMnemonic _) = kMnemonic" | "tag (FApi _) = kApi"
| "tag (FImport _) = kImport" | "tag (FExport _) = kExport"
| "tag (FSection _) = kSection" | "tag (FFunctionName _) = kFunctionName"
| "tag (FClass _) = kClass" | "tag (FNamespace _) = kNamespace"
| "tag (FProperty _ _) = kProperty" | "tag (FCharacteristic _) = kCharacteristic"
| "tag (FMatchedRule _) = kMatchedRule" | "tag (FOs _) = kOs"
| "tag (FArch _) = kArch" | "tag (FFormat _) = kFormat"
| "tag (FOperandNumber _ _) = kOperandNumber"
| "tag (FOperandOffset _ _) = kOperandOffset" | "tag FBasicBlock = kBasicBlock"

text \<open>The payload of a \<open>ValueFeature\<close>; the other classes carry no single string.\<close>

fun value_of :: "feature \<Rightarrow> string option" where
  "value_of (FString s) = Some s" | "value_of (FSubstring s) = Some s"
| "value_of (FRegex s) = Some s" | "value_of (FMnemonic s) = Some s"
| "value_of (FApi s) = Some s" | "value_of (FImport s) = Some s"
| "value_of (FExport s) = Some s" | "value_of (FSection s) = Some s"
| "value_of (FFunctionName s) = Some s" | "value_of (FClass s) = Some s"
| "value_of (FNamespace s) = Some s" | "value_of (FCharacteristic s) = Some s"
| "value_of (FMatchedRule s) = Some s" | "value_of (FOs s) = Some s"
| "value_of (FArch s) = Some s" | "value_of (FFormat s) = Some s"
| "value_of _ = None"

definition double_is_nan :: "u64 \<Rightarrow> bool" where
  "double_is_nan b \<longleftrightarrow>
     b AND 0x7FF0000000000000 = 0x7FF0000000000000 \<and> b AND 0x000FFFFFFFFFFFFF \<noteq> 0"

definition double_is_zero :: "u64 \<Rightarrow> bool" where
  "double_is_zero b \<longleftrightarrow> b = 0 \<or> b = 0x8000000000000000"

definition double_eq :: "u64 \<Rightarrow> u64 \<Rightarrow> bool" where
  "double_eq a b \<longleftrightarrow>
     \<not> double_is_nan a \<and> \<not> double_is_nan b \<and> (a = b \<or> double_is_zero a \<and> double_is_zero b)"

fun number_eq :: "number_value \<Rightarrow> number_value \<Rightarrow> bool" where
  "number_eq (Num_U64 a) (Num_U64 b) = (a = b)"
| "number_eq (Num_I64 a) (Num_I64 b) = (a = b)"
| "number_eq (Num_Double a) (Num_Double b) = double_eq a b"
| "number_eq _ _ = False"

definition feature_equals :: "feature \<Rightarrow> feature \<Rightarrow> bool" where
  "feature_equals f g =
     (case f of
        FBytes v \<Rightarrow> (case g of FBytes w \<Rightarrow> v = w | _ \<Rightarrow> False)
      | FNumber v \<Rightarrow> (case g of FNumber w \<Rightarrow> number_eq v w | _ \<Rightarrow> False)
      | FOffset v \<Rightarrow> (case g of FOffset w \<Rightarrow> v = w | _ \<Rightarrow> False)
      | FProperty v a \<Rightarrow> (case g of FProperty w b \<Rightarrow> a = b \<and> v = w | _ \<Rightarrow> False)
      | FOperandNumber i v \<Rightarrow>
          (case g of FOperandNumber j w \<Rightarrow> i = j \<and> number_eq v w | _ \<Rightarrow> False)
      | FOperandOffset i v \<Rightarrow> (case g of FOperandOffset j w \<Rightarrow> i = j \<and> v = w | _ \<Rightarrow> False)
      | FBasicBlock \<Rightarrow> tag g = kBasicBlock
      | _ \<Rightarrow> tag g = tag f \<and> value_of f = value_of g)"

section \<open>Feature hashes\<close>

record std_hash =
  hash_string :: "string \<Rightarrow> u64"
  hash_u64 :: "u64 \<Rightarrow> u64"
  hash_i64 :: "i64 \<Rightarrow> u64"
  hash_size :: "nat \<Rightarrow> u64"

fun tag_index :: "feature_tag \<Rightarrow> u64" where
  "tag_index kString = 0" | "tag_index kSubstring = 1" | "tag_index kRegex = 2"
| "tag_index kBytes = 3" | "tag_index kNumber = 4" | "tag_index kOffset = 5"
| "tag_index kMnemonic = 6" | "tag_index kApi = 7" | "tag_index kImport = 8"
| "tag_index kExport = 9" | "tag_index kSection = 10" | "tag_index kFunctionName = 11"
| "tag_index kClass = 12" | "tag_index kNamespace = 13" | "tag_index kProperty = 14"
| "tag_index kCharacteristic = 15" | "tag_index kMatchedRule = 16" | "tag_index kOs = 17"
| "tag_index kArch = 18" | "tag_index kFormat = 19" | "tag_index kOperandNumber = 20"
| "tag_index kOperandOffset = 21" | "tag_index kBasicBlock = 22"

definition mix_tag :: "feature_tag \<Rightarrow> u64 \<Rightarrow> u64" where
  "mix_tag t h = hash_combine (tag_index t) h"

fun hash_number_value :: "std_hash \<Rightarrow> number_value \<Rightarrow> u64" where
  "hash_number_value H (Num_U64 x) = hash_combine (hash_u64 H x) 0"
| "hash_number_value H (Num_I64 x) = hash_combine (hash_i64 H x) 1"
| "hash_number_value H (Num_Double x) = hash_combine (hash_double_bits x) 2"

fun access_index :: "access \<Rightarrow> u64" where
  "access_index Access_None = 0"
| "access_index Access_Read = 1"
| "access_index Access_Write = 2"

definition feature_hash :: "std_hash \<Rightarrow> feature \<Rightarrow> u64" where
  "feature_hash H f =
     (case f of
        FBytes v \<Rightarrow> mix_tag kBytes (fnv1a64 v)
      | FNumber v \<Rightarrow> mix_tag kNumber (hash_number_value H v)
      | FOffset v \<Rightarrow> mix_tag kOffset (hash_i64 H v)
      | FProperty v a \<Rightarrow> mix_tag kProperty (hash_combine (hash_string H v) (access_index a))
      | FOperandNumber i v \<Rightarrow>
          mix_tag kOperandNumber (hash_combine (hash_size H i) (hash_number_value H v))
      | FOperandOffset i v \<Rightarrow>
          mix_tag kOperandOffset (hash_combine (hash_size H i) (hash_i64 H v))
      | FBasicBlock \<Rightarrow> tag_index kBasicBlock * kGoldenRatio64
      | _ \<Rightarrow> mix_tag (tag f) (hash_string H (case value_of f of None \<Rightarrow> [] | Some s \<Rightarrow> s)))"

text \<open>Does the payload hold a \<open>double\<close>?\<close>

fun number_is_double :: "number_value \<Rightarrow> bool" where
  "number_is_double (Num_Double _) = True"
| "number_is_double _ = False"

fun has_double :: "feature \<Rightarrow> bool" where
  "has_double (FNumber v) = number_is_double v"
| "has_double (FOperandNumber _ v) = number_is_double v"
| "has_double _ = False"

lemma double_eq_sym: "double_eq a b \<longleftrightarrow> double_eq b a"
  by (auto simp: double_eq_def)

lemma double_eq_trans: "double_eq a b \<Longrightarrow> double_eq b c \<Longrightarrow> double_eq a c"
  by (auto simp: double_eq_def)

lemma number_eq_sym: "number_eq v w \<longleftrightarrow> number_eq w v"
  by (cases v; cases w) (auto simp: double_eq_sym)

lemma number_eq_trans: "number_eq u v \<Longrightarrow> number_eq v w \<Longrightarrow> number_eq u w"
  by (cases u; cases v; cases w) (auto dest: double_eq_trans)

lemma number_eq_exact: "\<not> number_is_double v \<Longrightarrow> number_eq v w \<longleftrightarrow> v = w"
  by (cases v; cases w) auto

text \<open>Equality class by class, so that no proof looks at every pair of constructors.\<close>

lemma feature_equals_value_iff:
  "value_of f = Some s \<Longrightarrow> feature_equals f g \<longleftrightarrow> tag g = tag f \<and> value_of g = Some s"
  by (cases f) (auto simp: feature_equals_def)

lemma feature_equals_payload_iff [simp]:
  "feature_equals (FBytes v) g \<longleftrightarrow> g = FBytes v"
  "feature_equals (FNumber n) g \<longleftrightarrow> (\<exists>m. g = FNumber m \<and> number_eq n m)"
  "feature_equals (FOffset d) g \<longleftrightarrow> g = FOffset d"
  "feature_equals (FProperty s a) g \<longleftrightarrow> g = FProperty s a"
  "feature_equals (FOperandNumber i n) g \<longleftrightarrow> (\<exists>m. g = FOperandNumber i m \<and> number_eq n m)"
  "feature_equals (FOperandOffset i d) g \<longleftrightarrow> g = FOperandOffset i d"
  "feature_equals FBasicBlock g \<longleftrightarrow> g = FBasicBlock"
  by (cases g; auto simp: feature_equals_def)+

lemma value_feature_eqI:
  "value_of f = Some s \<Longrightarrow> f =
     (case tag f of kString \<Rightarrow> FString s | kSubstring \<Rightarrow> FSubstring s | kRegex \<Rightarrow> FRegex s
      | kMnemonic \<Rightarrow> FMnemonic s | kApi \<Rightarrow> FApi s | kImport \<Rightarrow> FImport s
      | kExport \<Rightarrow> FExport s | kSection \<Rightarrow> FSection s | kFunctionName \<Rightarrow> FFunctionName s
      | kClass \<Rightarrow> FClass s | kNamespace \<Rightarrow> FNamespace s
      | kCharacteristic \<Rightarrow> FCharacteristic s | kMatchedRule \<Rightarrow> FMatchedRule s
      | kOs \<Rightarrow> FOs s | kArch \<Rightarrow> FArch s | kFormat \<Rightarrow> FFormat s | _ \<Rightarrow> f)"
  by (cases f) simp_all

lemma value_feature_inj:
  "value_of f = Some s \<Longrightarrow> value_of g = Some s \<Longrightarrow> tag g = tag f \<Longrightarrow> g = f"
  using value_feature_eqI [of f s] value_feature_eqI [of g s] by (cases f) simp_all

lemma feature_equals_value_exact: "value_of f = Some s \<Longrightarrow> feature_equals f g \<longleftrightarrow> g = f"
  using feature_equals_value_iff value_feature_inj by blast

lemma feature_cases:
  obtains (val) s where "value_of f = Some s"
  | (bytes) v where "f = FBytes v"
  | (num) n where "f = FNumber n"
  | (off) d where "f = FOffset d"
  | (property) s a where "f = FProperty s a"
  | (onum) i n where "f = FOperandNumber i n"
  | (ooff) i d where "f = FOperandOffset i d"
  | (bb) "f = FBasicBlock"
  by (cases f) auto

lemma has_double_value: "value_of f = Some s \<Longrightarrow> \<not> has_double f"
  by (cases f) auto

lemma feature_equals_exact: "\<not> has_double f \<Longrightarrow> feature_equals f g \<longleftrightarrow> g = f"
  by (cases f rule: feature_cases)
    (simp_all add: feature_equals_value_exact, (metis number_eq_exact)+)

lemma feature_equals_sym: "feature_equals f g \<Longrightarrow> feature_equals g f"
  by (cases f rule: feature_cases)
    (auto simp: feature_equals_value_exact number_eq_sym)

lemma feature_equals_trans: "feature_equals f g \<Longrightarrow> feature_equals g h \<Longrightarrow> feature_equals f h"
  by (cases f rule: feature_cases)
    (auto simp: feature_equals_value_exact, (metis number_eq_trans)+)

lemma feature_equals_tag: "feature_equals f g \<Longrightarrow> tag g = tag f"
  by (cases f rule: feature_cases) (auto simp: feature_equals_value_exact)

lemma feature_equals_value: "feature_equals f g \<Longrightarrow> value_of g = value_of f"
  by (cases f rule: feature_cases) (auto simp: feature_equals_value_exact)

text \<open>Two features whose payloads are floating-point zeros of opposite sign.\<close>

fun number_opposite_zeros :: "number_value \<Rightarrow> number_value \<Rightarrow> bool" where
  "number_opposite_zeros (Num_Double a) (Num_Double b) =
     (double_is_zero a \<and> double_is_zero b \<and> a \<noteq> b)"
| "number_opposite_zeros _ _ = False"

definition opposite_zeros :: "feature \<Rightarrow> feature \<Rightarrow> bool" where
  "opposite_zeros f g =
     (case f of FNumber v \<Rightarrow> (case g of FNumber w \<Rightarrow> number_opposite_zeros v w | _ \<Rightarrow> False)
      | FOperandNumber i v \<Rightarrow>
          (case g of FOperandNumber j w \<Rightarrow> number_opposite_zeros v w | _ \<Rightarrow> False)
      | _ \<Rightarrow> False)"

lemma opposite_zeros_value [simp]: "value_of f = Some s \<Longrightarrow> \<not> opposite_zeros f g"
  by (cases f) (auto simp: opposite_zeros_def)

lemma opposite_zeros_simps [simp]:
  "opposite_zeros (FNumber v) (FNumber w) = number_opposite_zeros v w"
  "opposite_zeros (FOperandNumber i v) (FOperandNumber j w) = number_opposite_zeros v w"
  "\<not> opposite_zeros (FBytes b) g" "\<not> opposite_zeros (FOffset d) g"
  "\<not> opposite_zeros (FProperty s a) g" "\<not> opposite_zeros (FOperandOffset k d) g"
  "\<not> opposite_zeros FBasicBlock g"
  by (simp_all add: opposite_zeros_def)

lemma hash_combine_inj [simp]: "hash_combine s v = hash_combine s w \<longleftrightarrow> v = w"
proof
  assume "hash_combine s v = hash_combine s w"
  then have "s XOR hash_combine s v = s XOR hash_combine s w" by simp
  then show "v = w" by (simp add: hash_combine_def flip: xor.assoc)
qed simp

lemma hash_combine_inj_left_double:
  "hash_combine a 2 = hash_combine b 2 \<longleftrightarrow> a = b"
  if "double_is_zero a" "double_is_zero b"
  using that by (auto simp: double_is_zero_def hash_combine_def kGoldenRatio64_def)

lemma number_eq_hash:
  "number_eq v w \<Longrightarrow>
     hash_number_value H v = hash_number_value H w \<longleftrightarrow> \<not> number_opposite_zeros v w"
  by (cases v; cases w)
    (auto simp: double_eq_def hash_double_bits_def hash_combine_inj_left_double)

text \<open>
  Features that compare equal hash equal, which an unordered container requires of
  its keys, exactly when they are not floating-point zeros of opposite sign; this holds
  whatever the standard library's hash functions are.
\<close>

theorem feature_hash_congruence:
  assumes "feature_equals f g"
  shows "feature_hash H f = feature_hash H g \<longleftrightarrow> \<not> opposite_zeros f g"
  using assms
  by (cases f rule: feature_cases)
    (auto simp: feature_equals_value_exact feature_hash_def mix_tag_def number_eq_hash)

lemma feature_hash_congruence_witness:
  "feature_hash \<lparr>hash_string = of_nat \<circ> length, hash_u64 = id, hash_i64 = id, hash_size = of_nat\<rparr>
       (FNumber (Num_Double 0)) \<noteq>
   feature_hash \<lparr>hash_string = of_nat \<circ> length, hash_u64 = id, hash_i64 = id, hash_size = of_nat\<rparr>
       (FNumber (Num_Double 0x8000000000000000))"
proof -
  have "feature_equals (FNumber (Num_Double 0)) (FNumber (Num_Double 0x8000000000000000))"
    by (simp add: double_eq_def double_is_nan_def double_is_zero_def)
  from feature_hash_congruence [OF this] show ?thesis
    by (simp add: opposite_zeros_def double_is_zero_def)
qed

section \<open>Feature sets\<close>

text \<open>
  The map from features to locations, in insertion order, with the two snapshot indices.
  A lookup returns the entry whose key is equal to the feature.
\<close>

record feature_set =
  fs_entries :: "(feature \<times> address set) list"
  fs_strings :: "feature list"
  fs_bytes :: "feature list"

definition empty_set :: feature_set where
  "empty_set = \<lparr>fs_entries = [], fs_strings = [], fs_bytes = []\<rparr>"

fun entry_find :: "(feature \<times> address set) list \<Rightarrow> feature \<Rightarrow> address set option" where
  "entry_find [] f = None"
| "entry_find ((g, A) # es) f = (if feature_equals g f then Some A else entry_find es f)"

definition fs_find :: "feature_set \<Rightarrow> feature \<Rightarrow> address set option" where
  "fs_find fs f = entry_find (fs_entries fs) f"

fun entry_insert ::
  "(feature \<times> address set) list \<Rightarrow> feature \<Rightarrow> address set \<Rightarrow> (feature \<times> address set) list" where
  "entry_insert [] f A = [(f, A)]"
| "entry_insert ((g, B) # es) f A =
     (if feature_equals g f then (g, B \<union> A) # es else (g, B) # entry_insert es f A)"

text \<open>\<open>try_emplace\<close>, insertion of the locations, and the indices when the key was new.\<close>

definition fs_insert :: "feature_set \<Rightarrow> feature \<Rightarrow> address set \<Rightarrow> feature_set" where
  "fs_insert fs f A =
     (let inserted = (fs_find fs f = None);
          fs' = fs\<lparr>fs_entries := entry_insert (fs_entries fs) f A\<rparr>
      in if inserted \<and> tag f = kString then fs'\<lparr>fs_strings := fs_strings fs @ [f]\<rparr>
         else if inserted \<and> tag f = kBytes then fs'\<lparr>fs_bytes := fs_bytes fs @ [f]\<rparr>
         else fs')"

definition fs_add :: "feature_set \<Rightarrow> feature option \<Rightarrow> address \<Rightarrow> feature_set" where
  "fs_add fs f a = (case f of None \<Rightarrow> fs | Some f \<Rightarrow> fs_insert fs f {a})"

fun fs_add_all :: "feature_set \<Rightarrow> (feature option \<times> address) list \<Rightarrow> feature_set" where
  "fs_add_all fs [] = fs"
| "fs_add_all fs ((f, a) # batch) = fs_add_all (fs_add fs f a) batch"

fun merge_entries :: "feature_set \<Rightarrow> (feature \<times> address set) list \<Rightarrow> feature_set" where
  "merge_entries fs [] = fs"
| "merge_entries fs ((f, A) # es) = merge_entries (fs_insert fs f A) es"

definition fs_merge_in :: "feature_set \<Rightarrow> feature_set \<Rightarrow> feature_set" where
  "fs_merge_in fs other = merge_entries fs (fs_entries other)"

text \<open>The keys of the map, and the invariant that ties the indices to them.\<close>

definition fs_keys :: "feature_set \<Rightarrow> feature list" where
  "fs_keys fs = map fst (fs_entries fs)"

definition fs_wf :: "feature_set \<Rightarrow> bool" where
  "fs_wf fs \<longleftrightarrow>
     fs_strings fs = filter (\<lambda>f. tag f = kString) (fs_keys fs) \<and>
     fs_bytes fs = filter (\<lambda>f. tag f = kBytes) (fs_keys fs) \<and>
     sorted_wrt (\<lambda>f g. \<not> feature_equals f g) (fs_keys fs)"

definition fs_has :: "feature_set \<Rightarrow> feature \<Rightarrow> bool" where
  "fs_has fs f \<longleftrightarrow> fs_find fs f \<noteq> None"

lemma entry_find_None: "entry_find es f = None \<longleftrightarrow> (\<forall>g\<in>set (map fst es). \<not> feature_equals g f)"
  by (induction es) (auto split: if_splits)

lemma fs_has_iff: "fs_has fs f \<longleftrightarrow> (\<exists>g\<in>set (fs_keys fs). feature_equals g f)"
  using entry_find_None [of "fs_entries fs" f]
  by (auto simp: fs_has_def fs_find_def fs_keys_def)

lemma keys_entry_insert:
  "map fst (entry_insert es f A) =
     (if entry_find es f = None then map fst es @ [f] else map fst es)"
  by (induction es) (auto split: if_splits)

lemma keys_fs_insert [simp]:
  "fs_keys (fs_insert fs f A) = (if fs_has fs f then fs_keys fs else fs_keys fs @ [f])"
  by (auto simp: fs_insert_def Let_def fs_keys_def keys_entry_insert fs_has_def fs_find_def)

lemma fs_wf_empty: "fs_wf empty_set"
  by (simp add: fs_wf_def empty_set_def fs_keys_def)

lemma fs_wf_insert:
  assumes "fs_wf fs"
  shows "fs_wf (fs_insert fs f A)"
proof (cases "fs_has fs f")
  case True
  then have "fs_strings (fs_insert fs f A) = fs_strings fs"
    and "fs_bytes (fs_insert fs f A) = fs_bytes fs"
    by (auto simp: fs_insert_def fs_has_def)
  with assms True show ?thesis by (simp add: fs_wf_def)
next
  case False
  then have "\<forall>g\<in>set (fs_keys fs). \<not> feature_equals g f" by (simp add: fs_has_iff)
  moreover have "fs_strings (fs_insert fs f A) =
      fs_strings fs @ (if tag f = kString then [f] else [])"
    and "fs_bytes (fs_insert fs f A) = fs_bytes fs @ (if tag f = kBytes then [f] else [])"
    using False by (auto simp: fs_insert_def fs_has_def Let_def)
  ultimately show ?thesis
    using assms False by (simp add: fs_wf_def sorted_wrt_append)
qed

lemma fs_wf_add: "fs_wf fs \<Longrightarrow> fs_wf (fs_add fs f a)"
  by (simp add: fs_add_def fs_wf_insert split: option.split)

lemma fs_wf_add_all: "fs_wf fs \<Longrightarrow> fs_wf (fs_add_all fs batch)"
  by (induction fs batch rule: fs_add_all.induct) (simp_all add: fs_wf_add)

lemma fs_wf_merge_entries: "fs_wf fs \<Longrightarrow> fs_wf (merge_entries fs es)"
  by (induction fs es rule: merge_entries.induct) (simp_all add: fs_wf_insert)

text \<open>
  Every way of filling a feature set keeps the string and byte indices equal to the
  map's string and byte keys, each once and in insertion order.
\<close>

theorem feature_set_indices:
  assumes "fs_wf fs"
  shows "fs_wf (fs_add fs f a) \<and> fs_wf (fs_add_all fs batch) \<and> fs_wf (fs_merge_in fs other)"
  using assms by (simp add: fs_wf_add fs_wf_add_all fs_wf_merge_entries fs_merge_in_def)

lemma feature_set_indices_witness:
  "fs_wf (fs_add empty_set (Some (FString ''ab'')) NoAddress)"
  using feature_set_indices [OF fs_wf_empty] by blast

lemma entry_find_insert:
  "entry_find (entry_insert es f A) g =
     (if feature_equals f g \<and> feature_equals f f
      then Some (case entry_find es f of None \<Rightarrow> A | Some B \<Rightarrow> B \<union> A)
      else entry_find (entry_insert es f A) g)"
proof (induction es)
  case Nil
  then show ?case by simp
next
  case (Cons e es)
  obtain h B where e: "e = (h, B)" by (cases e)
  have "feature_equals h g" if "feature_equals h f" "feature_equals f g"
    using that by (rule feature_equals_trans)
  moreover have "feature_equals h f" if "feature_equals h g" "feature_equals f g"
    using that feature_equals_sym feature_equals_trans by blast
  ultimately show ?case using Cons e by auto
qed

text \<open>
  Inserting a feature makes exactly its own class of equal features hold the new
  address, in addition to those it held.
\<close>

lemma fs_find_insert_same:
  assumes "feature_equals f g"
  shows "fs_find (fs_insert fs f A) g =
    Some (case fs_find fs f of None \<Rightarrow> A | Some B \<Rightarrow> B \<union> A)"
proof -
  have "feature_equals f f"
    using assms feature_equals_sym feature_equals_trans by blast
  moreover have "fs_entries (fs_insert fs f A) = entry_insert (fs_entries fs) f A"
    by (simp add: fs_insert_def Let_def)
  ultimately show ?thesis
    using assms entry_find_insert [of "fs_entries fs" f A g] by (simp add: fs_find_def)
qed

lemma entry_find_insert_other:
  assumes "\<not> feature_equals f g"
  shows "entry_find (entry_insert es f A) g = entry_find es g"
proof (induction es)
  case (Cons e es)
  obtain h B where e: "e = (h, B)" by (cases e)
  have "\<not> feature_equals h g" if "feature_equals h f"
    using that assms feature_equals_sym feature_equals_trans by blast
  with Cons e show ?case by auto
qed (simp add: assms)

lemma fs_find_insert_other:
  "\<not> feature_equals f g \<Longrightarrow> fs_find (fs_insert fs f A) g = fs_find fs g"
  by (simp add: fs_find_def fs_insert_def Let_def entry_find_insert_other)

end
