(* ===== verification/Feature_Eval.thy ===== *)
theory Feature_Eval
  imports Features
begin

text \<open>
  How a feature of a rule is looked for in a feature set (src/features/common.cpp and
  \<open>Feature::evaluate\<close> of feature.cpp).  \<open>feature_eval\<close> gives the two fields of the
  \<open>Result\<close> a feature fills, success and locations; \<open>feature_matches\<close> is the boolean form
  used by the probe pass.  \<open>rx\<close> is the regular expression engine.
\<close>

type_synonym regex_engine = "string \<Rightarrow> bool \<Rightarrow> (string \<Rightarrow> bool) option"

section \<open>Regular expression literals\<close>

definition parse_regex_literal :: "string \<Rightarrow> string \<times> bool" where
  "parse_regex_literal lit =
     (if length lit \<ge> 2 \<and> hd lit = CHR ''/'' then
        if length lit \<ge> 3 \<and> last lit = CHR ''i'' \<and> lit ! (length lit - 2) = CHR ''/''
        then (take (length lit - 3) (drop 1 lit), True)
        else if last lit = CHR ''/'' then (take (length lit - 2) (drop 1 lit), False)
        else (lit, False)
      else (lit, False))"

text \<open>
  A pattern written between slashes, with or without the \<open>i\<close> flag, is recovered
  exactly, whatever the pattern holds.
\<close>

theorem parse_regex_literal_roundtrip:
  "parse_regex_literal (''/'' @ p @ ''/'') = (p, False) \<and>
   parse_regex_literal (''/'' @ p @ ''/i'') = (p, True)"
  by (auto simp: parse_regex_literal_def nth_append)

section \<open>Scans and lookups\<close>

definition found_locations :: "feature_set \<Rightarrow> feature \<Rightarrow> address set" where
  "found_locations fs f = (case fs_find fs f of None \<Rightarrow> {} | Some A \<Rightarrow> A)"

text \<open>The loop of every scanning evaluator over an index of the set.\<close>

fun scan_index ::
  "(feature \<Rightarrow> bool) \<Rightarrow> feature_set \<Rightarrow> bool \<Rightarrow> feature list \<Rightarrow> bool \<times> address set" where
  "scan_index hit fs sc [] = (False, {})"
| "scan_index hit fs sc (f # rest) =
     (if hit f then
        if sc then (True, found_locations fs f)
        else (True, found_locations fs f \<union> snd (scan_index hit fs sc rest))
      else scan_index hit fs sc rest)"

definition substring_hit :: "string \<Rightarrow> feature \<Rightarrow> bool" where
  "substring_hit v f = (case f of FString s \<Rightarrow> has_infix v s | _ \<Rightarrow> False)"

definition regex_hit :: "string \<Rightarrow> string \<Rightarrow> bool \<Rightarrow> (string \<Rightarrow> bool) \<Rightarrow> feature \<Rightarrow> bool" where
  "regex_hit required pat icase search f =
     (case f of FString s \<Rightarrow> contains_literal s required icase \<and> search s | _ \<Rightarrow> False)"

definition bytes_hit :: "u8 list \<Rightarrow> feature \<Rightarrow> bool" where
  "bytes_hit v f =
     (case f of FBytes cand \<Rightarrow> length cand \<ge> length v \<and> take (length v) cand = v | _ \<Rightarrow> False)"

definition default_eval :: "feature_set \<Rightarrow> feature \<Rightarrow> bool \<times> address set" where
  "default_eval fs f = (case fs_find fs f of None \<Rightarrow> (False, {}) | Some A \<Rightarrow> (True, A))"

definition substring_eval :: "feature_set \<Rightarrow> bool \<Rightarrow> string \<Rightarrow> bool \<times> address set" where
  "substring_eval fs sc v = scan_index (substring_hit v) fs sc (fs_strings fs)"

definition substring_matches :: "feature_set \<Rightarrow> string \<Rightarrow> bool" where
  "substring_matches fs v = list_ex (substring_hit v) (fs_strings fs)"

definition regex_eval ::
  "regex_engine \<Rightarrow> feature_set \<Rightarrow> bool \<Rightarrow> string \<Rightarrow> bool \<times> address set" where
  "regex_eval rx fs sc lit =
     (let (pat, icase) = parse_regex_literal lit in
      case rx pat icase of None \<Rightarrow> (False, {})
      | Some search \<Rightarrow>
          scan_index (regex_hit (required_literal pat icase) pat icase search) fs sc
            (fs_strings fs))"

definition regex_matches :: "regex_engine \<Rightarrow> feature_set \<Rightarrow> string \<Rightarrow> bool" where
  "regex_matches rx fs lit =
     (let (pat, icase) = parse_regex_literal lit in
      case rx pat icase of None \<Rightarrow> False
      | Some search \<Rightarrow>
          list_ex (regex_hit (required_literal pat icase) pat icase search) (fs_strings fs))"

definition bytes_eval :: "feature_set \<Rightarrow> bool \<Rightarrow> u8 list \<Rightarrow> bool \<times> address set" where
  "bytes_eval fs sc v = scan_index (bytes_hit v) fs sc (fs_bytes fs)"

definition bytes_matches :: "feature_set \<Rightarrow> u8 list \<Rightarrow> bool" where
  "bytes_matches fs v = list_ex (bytes_hit v) (fs_bytes fs)"

definition kAnyWildcard :: string where "kAnyWildcard = ''any''"

fun os_scan :: "bool \<Rightarrow> (feature \<times> address set) list \<Rightarrow> bool \<times> address set" where
  "os_scan sc [] = (False, {})"
| "os_scan sc ((f, locs) # es) =
     (if tag f \<noteq> kOs then os_scan sc es
      else if sc then (True, locs)
      else (True, locs \<union> snd (os_scan sc es)))"

definition os_eval :: "feature_set \<Rightarrow> bool \<Rightarrow> string \<Rightarrow> bool \<times> address set" where
  "os_eval fs sc v =
     (let r = default_eval fs (FOs v) in
      if fst r then r
      else if v \<noteq> kAnyWildcard then default_eval fs (FOs kAnyWildcard)
      else os_scan sc (fs_entries fs))"

definition os_matches :: "feature_set \<Rightarrow> string \<Rightarrow> bool" where
  "os_matches fs v =
     (if fs_has fs (FOs v) then True
      else if v \<noteq> kAnyWildcard then fs_has fs (FOs kAnyWildcard)
      else list_ex (\<lambda>e. tag (fst e) = kOs) (fs_entries fs))"

text \<open>Virtual dispatch on the class of the rule's feature.\<close>

definition feature_eval ::
  "regex_engine \<Rightarrow> feature_set \<Rightarrow> bool \<Rightarrow> feature \<Rightarrow> bool \<times> address set" where
  "feature_eval rx fs sc f =
     (case f of FSubstring v \<Rightarrow> substring_eval fs sc v
      | FRegex lit \<Rightarrow> regex_eval rx fs sc lit
      | FBytes v \<Rightarrow> bytes_eval fs sc v
      | FOs v \<Rightarrow> os_eval fs sc v
      | _ \<Rightarrow> default_eval fs f)"

definition feature_matches :: "regex_engine \<Rightarrow> feature_set \<Rightarrow> feature \<Rightarrow> bool" where
  "feature_matches rx fs f =
     (case f of FSubstring v \<Rightarrow> substring_matches fs v
      | FRegex lit \<Rightarrow> regex_matches rx fs lit
      | FBytes v \<Rightarrow> bytes_matches fs v
      | FOs v \<Rightarrow> os_matches fs v
      | _ \<Rightarrow> fs_has fs f)"

section \<open>The boolean form and the full form agree\<close>

lemma scan_index_success: "fst (scan_index hit fs sc xs) = list_ex hit xs"
  by (induction hit fs sc xs rule: scan_index.induct) auto

lemma scan_index_locations:
  "snd (scan_index hit fs False xs) = (\<Union>f\<in>{f\<in>set xs. hit f}. found_locations fs f)"
  by (induction xs) auto

lemma os_scan_success: "fst (os_scan sc es) = list_ex (\<lambda>e. tag (fst e) = kOs) es"
  by (induction sc es rule: os_scan.induct) auto

lemma default_eval_success: "fst (default_eval fs f) = fs_has fs f"
  by (simp add: default_eval_def fs_has_def split: option.split)

lemma feature_eval_success: "fst (feature_eval rx fs sc f) = feature_matches rx fs f"
proof (cases f)
  case (FOs v)
  then show ?thesis
    by (auto simp: feature_eval_def feature_matches_def os_eval_def os_matches_def
        default_eval_success os_scan_success Let_def)
qed (auto simp: feature_eval_def feature_matches_def substring_eval_def substring_matches_def
    bytes_eval_def bytes_matches_def regex_eval_def regex_matches_def Let_def
    default_eval_success scan_index_success split: prod.split option.split)

section \<open>The indices give what a scan of the whole set would\<close>

text \<open>
  The reference semantics of a scanning feature: the union over every entry of the set
  that satisfies the test.
\<close>

definition full_scan :: "(feature \<Rightarrow> bool) \<Rightarrow> feature_set \<Rightarrow> bool \<times> address set" where
  "full_scan hit fs =
     (list_ex hit (fs_keys fs), \<Union>f\<in>{f\<in>set (fs_keys fs). hit f}. found_locations fs f)"

lemma scan_index_full:
  assumes "xs = filter p (fs_keys fs)" and "\<And>f. hit f \<Longrightarrow> p f"
  shows "scan_index hit fs False xs = full_scan hit fs"
proof -
  have "{f \<in> set xs. hit f} = {f \<in> set (fs_keys fs). hit f}"
    using assms by auto
  moreover have "list_ex hit xs = list_ex hit (fs_keys fs)"
    using assms by (auto simp: list_ex_iff)
  ultimately show ?thesis
    by (simp add: full_scan_def prod_eq_iff scan_index_success scan_index_locations)
qed

lemma substring_hit_tag: "substring_hit v f \<Longrightarrow> tag f = kString"
  by (cases f) (auto simp: substring_hit_def)

lemma bytes_hit_tag: "bytes_hit v f \<Longrightarrow> tag f = kBytes"
  by (cases f) (auto simp: bytes_hit_def)

text \<open>
  On a well-formed set, evaluating a substring or a bytes feature over its index
  finds exactly the entries, and reports exactly the locations, that a scan of the whole
  set would.
\<close>

theorem scanning_features_full_scan:
  assumes "fs_wf fs"
  shows "feature_eval rx fs False (FSubstring v) = full_scan (substring_hit v) fs \<and>
    feature_eval rx fs False (FBytes b) = full_scan (bytes_hit b) fs"
proof
  show "feature_eval rx fs False (FSubstring v) = full_scan (substring_hit v) fs"
    using assms scan_index_full [of "fs_strings fs" "\<lambda>f. tag f = kString" fs "substring_hit v"]
    by (simp add: feature_eval_def substring_eval_def fs_wf_def substring_hit_tag)
  show "feature_eval rx fs False (FBytes b) = full_scan (bytes_hit b) fs"
    using assms scan_index_full [of "fs_bytes fs" "\<lambda>f. tag f = kBytes" fs "bytes_hit b"]
    by (simp add: feature_eval_def bytes_eval_def fs_wf_def bytes_hit_tag)
qed

lemma scanning_features_full_scan_witness:
  "feature_eval (\<lambda>_ _. None) (fs_add empty_set (Some (FString ''abc'')) (AbsoluteVirtualAddress 16))
     False (FSubstring ''bc'') = (True, {AbsoluteVirtualAddress 16})"
proof -
  have "fs_wf (fs_add empty_set (Some (FString ''abc'')) (AbsoluteVirtualAddress 16))"
    by (rule fs_wf_add [OF fs_wf_empty])
  note scanning_features_full_scan [OF this, of "\<lambda>_ _. None" "''bc''" "[]", THEN conjunct1]
  moreover have "full_scan (substring_hit ''bc'')
      (fs_add empty_set (Some (FString ''abc'')) (AbsoluteVirtualAddress 16)) =
      (True, {AbsoluteVirtualAddress 16})"
    by (auto simp: full_scan_def fs_add_def fs_insert_def empty_set_def fs_keys_def fs_find_def
        substring_hit_def found_locations_def feature_equals_value_exact)
  ultimately show ?thesis by simp
qed

end
