(* ===== verification/Engine.thy ===== *)
theory Engine
  imports Feature_Eval
begin

text \<open>
  The rule engine of src/engine.cpp: statement trees, their full evaluation (a result
  tree), their boolean evaluation (the probe pass), and the match loop over an ordered
  list of rules.  A child slot is an option, \<^const>\<open>None\<close> for a null pointer.  Evaluating a
  \<open>Subscope\<close> throws, so evaluation returns a failure or a result.
\<close>

section \<open>Statements and results\<close>

datatype rule_scope =
    kFile | kFunction | kBasicBlockScope | kInstruction | kGlobal | kProcess
  | kThread | kCall | kSpanOfCalls

datatype statement =
    SAnd "statement option list"
  | SOr "statement option list"
  | SNot statement
  | SSome nat "statement option list"
  | SRange feature nat nat
  | SSubscope rule_scope statement
  | SFeature feature

datatype statement_kind =
  kAnd | kOr | kNot | kSome | kOptional | kRange | kSubscope | kFeature

fun kind :: "statement \<Rightarrow> statement_kind" where
  "kind (SAnd _) = kAnd"
| "kind (SOr _) = kOr"
| "kind (SNot _) = kNot"
| "kind (SSome n _) = (if n = 0 then kOptional else kSome)"
| "kind (SRange _ _ _) = kRange"
| "kind (SSubscope _ _) = kSubscope"
| "kind (SFeature _) = kFeature"

fun stmt_children :: "statement \<Rightarrow> statement option list" where
  "stmt_children (SAnd cs) = cs"
| "stmt_children (SOr cs) = cs"
| "stmt_children (SNot c) = [Some c]"
| "stmt_children (SSome _ cs) = cs"
| "stmt_children _ = []"

datatype node = Statement_Node statement | Feature_Node feature

datatype result =
  Result (res_success: bool) (res_node: node) (res_children: "result list")
    (res_locations: "address set")

section \<open>Full evaluation\<close>

definition success_locations :: "result list \<Rightarrow> address set" where
  "success_locations rs = (\<Union>r\<in>{r\<in>set rs. res_success r}. res_locations r)"

definition range_eval :: "feature_set \<Rightarrow> feature \<Rightarrow> nat \<Rightarrow> nat \<Rightarrow> bool \<times> address set" where
  "range_eval fs f lo hi =
     (let cnt = (case fs_find fs f of None \<Rightarrow> 0 | Some A \<Rightarrow> card A) in
      if lo = 0 \<and> cnt = 0 then (True, {})
      else if cnt \<ge> lo \<and> cnt \<le> hi then (True, found_locations fs f) else (False, {}))"

text \<open>
  The loops of \<open>And\<close>, \<open>Or\<close> and \<open>Some\<close> return the verdict or count with the results of
  the children they visited; \<open>sc\<close> is the short-circuit flag.
\<close>

fun evaluate :: "regex_engine \<Rightarrow> feature_set \<Rightarrow> bool \<Rightarrow> statement \<Rightarrow> result expected"
  and and_loop ::
    "regex_engine \<Rightarrow> feature_set \<Rightarrow> bool \<Rightarrow> statement option list \<Rightarrow> (bool \<times> result list) expected"
  and or_loop ::
    "regex_engine \<Rightarrow> feature_set \<Rightarrow> bool \<Rightarrow> statement option list \<Rightarrow> (bool \<times> result list) expected"
  and some_loop ::
    "regex_engine \<Rightarrow> feature_set \<Rightarrow> bool \<Rightarrow> nat \<Rightarrow> nat \<Rightarrow> statement option list
       \<Rightarrow> (nat \<times> result list) expected"
where
  "evaluate rx fs sc (SAnd cs) =
     sbind (and_loop rx fs sc cs) (\<lambda>(ok, rs).
       Inr (Result ok (Statement_Node (SAnd cs)) rs
              (if ok then \<Union>r\<in>set rs. res_locations r else {})))"
| "evaluate rx fs sc (SOr cs) =
     sbind (or_loop rx fs sc cs) (\<lambda>(ok, rs).
       Inr (Result ok (Statement_Node (SOr cs)) rs (success_locations rs)))"
| "evaluate rx fs sc (SNot c) =
     sbind (evaluate rx fs False c) (\<lambda>cr.
       Inr (Result (\<not> res_success cr) (Statement_Node (SNot c)) [cr] {}))"
| "evaluate rx fs sc (SSome n cs) =
     sbind (some_loop rx fs sc n 0 cs) (\<lambda>(ok_count, rs).
       Inr (Result (n = 0 \<or> ok_count \<ge> n) (Statement_Node (SSome n cs)) rs
              (success_locations rs)))"
| "evaluate rx fs sc (SRange f lo hi) =
     (let (ok, locs) = range_eval fs f lo hi
      in Inr (Result ok (Statement_Node (SRange f lo hi)) [] locs))"
| "evaluate rx fs sc (SSubscope s inner) =
     Inl (Invariant_Error ''Subscope statement reached evaluate before extraction'')"
| "evaluate rx fs sc (SFeature f) =
     (let (ok, locs) = feature_eval rx fs sc f
      in Inr (Result ok (Feature_Node f) [] locs))"
| "and_loop rx fs sc [] = Inr (True, [])"
| "and_loop rx fs sc (None # cs) =
     (if sc then Inr (False, [])
      else sbind (and_loop rx fs sc cs) (\<lambda>(ok, rs). Inr (False, rs)))"
| "and_loop rx fs sc (Some c # cs) =
     sbind (evaluate rx fs sc c) (\<lambda>cr.
       if \<not> res_success cr \<and> sc then Inr (False, [cr])
       else sbind (and_loop rx fs sc cs) (\<lambda>(ok, rs). Inr (res_success cr \<and> ok, cr # rs)))"
| "or_loop rx fs sc [] = Inr (False, [])"
| "or_loop rx fs sc (None # cs) = or_loop rx fs sc cs"
| "or_loop rx fs sc (Some c # cs) =
     sbind (evaluate rx fs sc c) (\<lambda>cr.
       if res_success cr \<and> sc then Inr (True, [cr])
       else sbind (or_loop rx fs sc cs) (\<lambda>(ok, rs). Inr (res_success cr \<or> ok, cr # rs)))"
| "some_loop rx fs sc n k [] = Inr (k, [])"
| "some_loop rx fs sc n k (None # cs) = some_loop rx fs sc n k cs"
| "some_loop rx fs sc n k (Some c # cs) =
     sbind (evaluate rx fs sc c) (\<lambda>cr.
       let k' = (if res_success cr then k + 1 else k) in
       if sc \<and> n > 0 \<and> k' \<ge> n then Inr (k', [cr])
       else sbind (some_loop rx fs sc n k' cs) (\<lambda>(m, rs). Inr (m, cr # rs)))"

section \<open>Boolean evaluation\<close>

text \<open>
  \<open>Subscope\<close> has no boolean form of its own: the default calls \<open>evaluate\<close>, which throws.
\<close>

fun evaluate_quick :: "regex_engine \<Rightarrow> feature_set \<Rightarrow> statement \<Rightarrow> bool expected"
  and and_quick :: "regex_engine \<Rightarrow> feature_set \<Rightarrow> statement option list \<Rightarrow> bool expected"
  and or_quick :: "regex_engine \<Rightarrow> feature_set \<Rightarrow> statement option list \<Rightarrow> bool expected"
  and some_quick ::
    "regex_engine \<Rightarrow> feature_set \<Rightarrow> nat \<Rightarrow> nat \<Rightarrow> statement option list \<Rightarrow> bool expected"
where
  "evaluate_quick rx fs (SAnd cs) = and_quick rx fs cs"
| "evaluate_quick rx fs (SOr cs) = or_quick rx fs cs"
| "evaluate_quick rx fs (SNot c) = sbind (evaluate_quick rx fs c) (\<lambda>b. Inr (\<not> b))"
| "evaluate_quick rx fs (SSome n cs) = (if n = 0 then Inr True else some_quick rx fs n 0 cs)"
| "evaluate_quick rx fs (SRange f lo hi) =
     (let cnt = (case fs_find fs f of None \<Rightarrow> 0 | Some A \<Rightarrow> card A) in
      Inr (if lo = 0 \<and> cnt = 0 then True else cnt \<ge> lo \<and> cnt \<le> hi))"
| "evaluate_quick rx fs (SSubscope s inner) =
     Inl (Invariant_Error ''Subscope statement reached evaluate before extraction'')"
| "evaluate_quick rx fs (SFeature f) = Inr (feature_matches rx fs f)"
| "and_quick rx fs [] = Inr True"
| "and_quick rx fs (None # cs) = Inr False"
| "and_quick rx fs (Some c # cs) =
     sbind (evaluate_quick rx fs c) (\<lambda>b. if \<not> b then Inr False else and_quick rx fs cs)"
| "or_quick rx fs [] = Inr False"
| "or_quick rx fs (None # cs) = or_quick rx fs cs"
| "or_quick rx fs (Some c # cs) =
     sbind (evaluate_quick rx fs c) (\<lambda>b. if b then Inr True else or_quick rx fs cs)"
| "some_quick rx fs n k [] = Inr False"
| "some_quick rx fs n k (None # cs) = some_quick rx fs n k cs"
| "some_quick rx fs n k (Some c # cs) =
     sbind (evaluate_quick rx fs c) (\<lambda>b.
       if b then if k + 1 \<ge> n then Inr True else some_quick rx fs n (k + 1) cs
       else some_quick rx fs n k cs)"

section \<open>Reference semantics\<close>

text \<open>
  What a statement means, as a plain boolean function: conjunction, disjunction, negation
  and counting over the children, a null child counting as false.
\<close>

definition child_holds :: "(statement \<Rightarrow> bool) \<Rightarrow> statement option \<Rightarrow> bool" where
  "child_holds P c = (case c of None \<Rightarrow> False | Some s \<Rightarrow> P s)"

definition range_holds :: "feature_set \<Rightarrow> feature \<Rightarrow> nat \<Rightarrow> nat \<Rightarrow> bool" where
  "range_holds fs f lo hi =
     (let cnt = (case fs_find fs f of None \<Rightarrow> 0 | Some A \<Rightarrow> card A)
      in lo = 0 \<and> cnt = 0 \<or> lo \<le> cnt \<and> cnt \<le> hi)"

lemma child_holds_cong [fundef_cong]:
  "c = d \<Longrightarrow> (\<And>s. d = Some s \<Longrightarrow> P s = Q s) \<Longrightarrow> child_holds P c = child_holds Q d"
  by (cases d) (auto simp: child_holds_def)

lemma size_child: "Some s \<in> set cs \<Longrightarrow> size s < Suc (size_list (size_option size) cs)"
  by (induction cs) auto

function holds :: "regex_engine \<Rightarrow> feature_set \<Rightarrow> statement \<Rightarrow> bool" where
  "holds rx fs (SAnd cs) = list_all (child_holds (holds rx fs)) cs"
| "holds rx fs (SOr cs) = list_ex (child_holds (holds rx fs)) cs"
| "holds rx fs (SNot c) = (\<not> holds rx fs c)"
| "holds rx fs (SSome n cs) = (n \<le> length (filter (child_holds (holds rx fs)) cs))"
| "holds rx fs (SRange f lo hi) = range_holds fs f lo hi"
| "holds rx fs (SSubscope s inner) = False"
| "holds rx fs (SFeature f) = feature_matches rx fs f"
  by pat_completeness auto
termination
  by (relation "measure (\<lambda>(rx, fs, s). size s)") (auto dest: size_child)

fun no_subscope :: "statement \<Rightarrow> bool" where
  "no_subscope (SAnd cs) = list_all (\<lambda>c. case c of None \<Rightarrow> True | Some s \<Rightarrow> no_subscope s) cs"
| "no_subscope (SOr cs) = list_all (\<lambda>c. case c of None \<Rightarrow> True | Some s \<Rightarrow> no_subscope s) cs"
| "no_subscope (SNot c) = no_subscope c"
| "no_subscope (SSome n cs) = list_all (\<lambda>c. case c of None \<Rightarrow> True | Some s \<Rightarrow> no_subscope s) cs"
| "no_subscope (SSubscope s inner) = False"
| "no_subscope _ = True"

section \<open>Evaluation against the reference\<close>

definition holding :: "regex_engine \<Rightarrow> feature_set \<Rightarrow> statement option list \<Rightarrow> nat" where
  "holding rx fs cs = length (filter (child_holds (holds rx fs)) cs)"

lemma holding_simps [simp]:
  "holding rx fs [] = 0"
  "holding rx fs (None # cs) = holding rx fs cs"
  "holding rx fs (Some c # cs) = (if holds rx fs c then Suc (holding rx fs cs) else holding rx fs cs)"
  by (simp_all add: holding_def child_holds_def)

lemma child_holds_simps [simp]:
  "child_holds P None = False" "child_holds P (Some s) = P s"
  by (simp_all add: child_holds_def)

lemma range_eval_success: "fst (range_eval fs f lo hi) = range_holds fs f lo hi"
  by (auto simp: range_eval_def range_holds_def Let_def)

lemma holds_some: "holds rx fs (SSome n cs) \<longleftrightarrow> n \<le> holding rx fs cs"
  by (simp add: holding_def)

declare holds.simps(4) [simp del]

lemma evaluate_holds:
  "evaluate rx fs sc s = Inr r \<Longrightarrow> res_success r = holds rx fs s"
  "and_loop rx fs sc cs = Inr p \<Longrightarrow> fst p = list_all (child_holds (holds rx fs)) cs"
  "or_loop rx fs sc cs = Inr p \<Longrightarrow> fst p = list_ex (child_holds (holds rx fs)) cs"
  "some_loop rx fs sc n k cs = Inr q \<Longrightarrow> n \<le> fst q \<longleftrightarrow> n \<le> k + holding rx fs cs"
proof (induction rx fs sc s and rx fs sc cs and rx fs sc cs and rx fs sc n k cs
    arbitrary: r and p and p and q
    rule: evaluate_and_loop_or_loop_some_loop.induct)
  case (5 rx fs sc f lo hi)
  then show ?case
    using range_eval_success [of fs f lo hi] by (auto split: prod.splits)
next
  case (7 rx fs sc f)
  then show ?case
    using feature_eval_success [of rx fs sc f] by (auto split: prod.splits)
next
  case (16 rx fs sc n k c cs)
  then show ?case
    by (fastforce simp: Let_def split: if_split_asm prod.splits)
qed (fastforce simp: holds_some split: if_split_asm prod.splits)+

lemma evaluate_quick_holds:
  "evaluate_quick rx fs s = Inr b \<Longrightarrow> b = holds rx fs s"
  "and_quick rx fs cs = Inr b \<Longrightarrow> b = list_all (child_holds (holds rx fs)) cs"
  "or_quick rx fs cs = Inr b \<Longrightarrow> b = list_ex (child_holds (holds rx fs)) cs"
  "some_quick rx fs n k cs = Inr b \<Longrightarrow> k < n \<Longrightarrow> b \<longleftrightarrow> n \<le> k + holding rx fs cs"
proof (induction rx fs s and rx fs cs and rx fs cs and rx fs n k cs arbitrary: b and b and b and b
    rule: evaluate_quick_and_quick_or_quick_some_quick.induct)
  case (5 rx fs f lo hi)
  then show ?case by (auto simp: range_holds_def Let_def split: if_split_asm)
next
  case (16 rx fs n k c cs)
  then show ?case by (fastforce split: if_split_asm)
qed (fastforce simp: holds_some split: if_split_asm)+

lemma quick_value:
  "evaluate rx fs sc c = Inr cr \<Longrightarrow> \<exists>b. evaluate_quick rx fs c = Inr b \<Longrightarrow>
     evaluate_quick rx fs c = Inr (res_success cr)"
  using evaluate_quick_holds(1) evaluate_holds(1) by fastforce

lemma evaluate_quick_defined:
  "evaluate rx fs sc s = Inr r \<Longrightarrow> \<exists>b. evaluate_quick rx fs s = Inr b"
  "and_loop rx fs sc cs = Inr p \<Longrightarrow> \<exists>b. and_quick rx fs cs = Inr b"
  "or_loop rx fs sc cs = Inr p \<Longrightarrow> \<exists>b. or_quick rx fs cs = Inr b"
  "some_loop rx fs sc n k cs = Inr q \<Longrightarrow> k < n \<Longrightarrow> \<exists>b. some_quick rx fs n k cs = Inr b"
proof (induction rx fs sc s and rx fs sc cs and rx fs sc cs and rx fs sc n k cs
    arbitrary: r and p and p and q
    rule: evaluate_and_loop_or_loop_some_loop.induct)
  case (10 rx fs sc c cs)
  from "10.prems" obtain cr where cr: "evaluate rx fs sc c = Inr cr" by auto
  note q = quick_value [OF cr "10.IH"(1) [OF cr]]
  show ?case
  proof (cases "res_success cr")
    case True
    with "10.prems" cr obtain p' where "and_loop rx fs sc cs = Inr p'" by auto
    with "10.IH"(2) [OF cr] True q show ?thesis by auto
  qed (simp add: q, blast?)
next
  case (13 rx fs sc c cs)
  from "13.prems" obtain cr where cr: "evaluate rx fs sc c = Inr cr" by auto
  note q = quick_value [OF cr "13.IH"(1) [OF cr]]
  show ?case
  proof (cases "res_success cr")
    case False
    with "13.prems" cr obtain p' where "or_loop rx fs sc cs = Inr p'" by auto
    with "13.IH"(2) [OF cr] False q show ?thesis by auto
  qed (simp add: q, blast?)
next
  case (16 rx fs sc n k c cs)
  from "16.prems" obtain cr where cr: "evaluate rx fs sc c = Inr cr" by (auto simp: Let_def)
  note q = quick_value [OF cr "16.IH"(1) [OF cr]]
  let ?k = "if res_success cr then k + 1 else k"
  show ?case
  proof (cases "n \<le> ?k")
    case True
    with "16.prems"(2) have "res_success cr" by (simp split: if_split_asm)
    with True q show ?thesis by (simp, blast)
  next
    case False
    with "16.prems" cr obtain p' where p': "some_loop rx fs sc n ?k cs = Inr p'"
      by (auto simp: Let_def split: if_split_asm)
    from False have "\<not> (sc \<and> 0 < n \<and> n \<le> ?k)" by simp
    from "16.IH"(2) [OF cr refl this p'] False q show ?thesis
      by (simp split: if_split_asm)
  qed
qed (auto simp: Let_def)

lemma quick_agrees_with_evaluate':
  assumes "evaluate rx fs sc s = Inr r"
  shows "evaluate_quick rx fs s = Inr (holds rx fs s) \<and> res_success r = holds rx fs s"
  using evaluate_quick_defined(1) [OF assms] evaluate_quick_holds(1) evaluate_holds(1) [OF assms]
  by auto

text \<open>
  C2: the probe pass is exact.  Whenever the full evaluation of a statement returns a
  result, with or without short-circuiting, the boolean evaluation returns the verdict of
  that result, and both are the statement's meaning.
\<close>

theorem quick_agrees_with_evaluate:
  assumes "evaluate rx fs sc s = Inr r"
  shows "evaluate_quick rx fs s = Inr (res_success r) \<and> res_success r = holds rx fs s"
  using quick_agrees_with_evaluate' [OF assms] by simp

lemma quick_agrees_with_evaluate_witness:
  "evaluate_quick (\<lambda>_ _. None) empty_set
     (SOr [Some (SFeature (FApi ''a'')), None, Some (SNot (SFeature (FApi ''b'')))]) = Inr True"
proof -
  have "evaluate (\<lambda>_ _. None) empty_set True
     (SOr [Some (SFeature (FApi ''a'')), None, Some (SNot (SFeature (FApi ''b'')))]) =
     Inr (Result True (Statement_Node
       (SOr [Some (SFeature (FApi ''a'')), None, Some (SNot (SFeature (FApi ''b'')))]))
       [Result False (Feature_Node (FApi ''a'')) [] {},
        Result True (Statement_Node (SNot (SFeature (FApi ''b''))))
          [Result False (Feature_Node (FApi ''b'')) [] {}] {}] {})"
    by (auto simp: feature_eval_def default_eval_def fs_find_def empty_set_def success_locations_def)
  from quick_agrees_with_evaluate [OF this] show ?thesis by simp
qed

lemma evaluate_total:
  "no_subscope s \<Longrightarrow> \<exists>r. evaluate rx fs sc s = Inr r"
  "list_all (\<lambda>c. case c of None \<Rightarrow> True | Some s \<Rightarrow> no_subscope s) cs \<Longrightarrow>
     \<exists>p. and_loop rx fs sc cs = Inr p"
  "list_all (\<lambda>c. case c of None \<Rightarrow> True | Some s \<Rightarrow> no_subscope s) cs \<Longrightarrow>
     \<exists>p. or_loop rx fs sc cs = Inr p"
  "list_all (\<lambda>c. case c of None \<Rightarrow> True | Some s \<Rightarrow> no_subscope s) cs \<Longrightarrow>
     \<exists>q. some_loop rx fs sc n k cs = Inr q"
proof (induction rx fs sc s and rx fs sc cs and rx fs sc cs and rx fs sc n k cs
    rule: evaluate_and_loop_or_loop_some_loop.induct)
  case (5 rx fs sc f lo hi)
  then show ?case by (cases "range_eval fs f lo hi") simp
next
  case (7 rx fs sc f)
  then show ?case by (cases "feature_eval rx fs sc f") simp
qed (fastforce simp: Let_def split: prod.splits)+

text \<open>
  A tree without subscope nodes never fails to evaluate, in either mode, and both
  modes give the same verdict.
\<close>

theorem evaluate_no_subscope_total:
  assumes "no_subscope s"
  shows "\<exists>r r'. evaluate rx fs True s = Inr r \<and> evaluate rx fs False s = Inr r' \<and>
    res_success r = res_success r'"
  using evaluate_total(1) [OF assms] evaluate_holds(1) by metis

lemma evaluate_no_subscope_total_witness:
  "\<exists>r r'. evaluate (\<lambda>_ _. None) empty_set True (SSome 2 [None, Some (SFeature FBasicBlock)]) = Inr r
     \<and> evaluate (\<lambda>_ _. None) empty_set False (SSome 2 [None, Some (SFeature FBasicBlock)]) = Inr r'
     \<and> res_success r = res_success r'"
  by (rule evaluate_no_subscope_total) simp

end
