(* ===== verification/Rules.thy ===== *)
theory Rules
  imports Engine
begin

text \<open>
  Rules (src/rules/rule.cpp, scope.cpp), the injection of match features and the match
  loop of src/engine.cpp.
\<close>

section \<open>Rules and their namespaces\<close>

fun scope_to_string :: "rule_scope \<Rightarrow> string" where
  "scope_to_string kFile = ''file''"
| "scope_to_string kFunction = ''function''"
| "scope_to_string kBasicBlockScope = ''basic block''"
| "scope_to_string kInstruction = ''instruction''"
| "scope_to_string kGlobal = ''global''"
| "scope_to_string kProcess = ''process''"
| "scope_to_string kThread = ''thread''"
| "scope_to_string kCall = ''call''"
| "scope_to_string kSpanOfCalls = ''span of calls''"

record scopes =
  static_scope :: "rule_scope option"
  dynamic_scope :: "rule_scope option"

record rule_meta =
  meta_name :: string
  meta_scopes :: scopes
  meta_namespace :: "string option"
  meta_authors :: "string list"
  meta_att_and_ck :: "string list"
  meta_mbc :: "string list"
  meta_examples :: "string list"
  meta_references :: "string list"
  meta_description :: "string option"
  meta_lib :: bool
  meta_is_subscope_rule :: bool
  meta_parent :: "string option"
  meta_source_path :: string

record rule =
  rule_meta :: rule_meta
  rule_statement :: statement
  rule_definition :: string

abbreviation rule_name :: "rule \<Rightarrow> string" where
  "rule_name r \<equiv> meta_name (rule_meta r)"

definition kDefaultStaticScope :: rule_scope where "kDefaultStaticScope = kFunction"

definition rule_scope_of :: "rule \<Rightarrow> rule_scope" where
  "rule_scope_of r =
     (case static_scope (meta_scopes (rule_meta r)) of None \<Rightarrow> kDefaultStaticScope | Some s \<Rightarrow> s)"

text \<open>\<open>ns_parent\<close> is the text before the last slash; the loop stops when there is none.\<close>

definition ns_parent :: "string \<Rightarrow> string" where
  "ns_parent s = rev (tl (dropWhile (\<lambda>c. c \<noteq> CHR ''/'') (rev s)))"

lemma length_ns_parent: "s \<noteq> [] \<Longrightarrow> length (ns_parent s) < length s"
proof -
  assume "s \<noteq> []"
  moreover have "length (dropWhile (\<lambda>c. c \<noteq> CHR ''/'') (rev s)) \<le> length s"
    by (metis length_dropWhile_le length_rev)
  ultimately show ?thesis by (cases s) (auto simp: ns_parent_def)
qed

function ns_walk :: "string \<Rightarrow> string list" where
  "ns_walk cur =
     (if cur = [] then []
      else cur # (if CHR ''/'' \<notin> set cur then [] else ns_walk (ns_parent cur)))"
  by pat_completeness auto
termination by (relation "measure length") (auto simp: length_ns_parent)

declare ns_walk.simps [simp del]

definition namespace_hierarchy :: "rule \<Rightarrow> string list" where
  "namespace_hierarchy r =
     (case meta_namespace (rule_meta r) of None \<Rightarrow> [] | Some ns \<Rightarrow> ns_walk ns)"

lemma ns_parent_split: "CHR ''/'' \<in> set s \<Longrightarrow> \<exists>t. s = ns_parent s @ CHR ''/'' # t \<and> CHR ''/'' \<notin> set t"
proof -
  assume "CHR ''/'' \<in> set s"
  then obtain t u where s: "s = t @ CHR ''/'' # u" "CHR ''/'' \<notin> set u"
    by (metis split_list_last)
  moreover have "dropWhile (\<lambda>c. c \<noteq> CHR ''/'') (rev u @ CHR ''/'' # rev t) = CHR ''/'' # rev t"
    using s(2) by (subst dropWhile_append2) auto
  ultimately show ?thesis by (auto simp: ns_parent_def)
qed

lemma append_slash_cases:
  "a @ c # t = p @ c # q \<Longrightarrow> c \<notin> set t \<Longrightarrow> p = a \<or> (\<exists>r. a = p @ c # r)"
proof (induction p arbitrary: a)
  case Nil
  then show ?case by (cases a) auto
next
  case (Cons y p)
  then show ?case by (cases a) auto
qed

lemma ns_walk_spec:
  "set (ns_walk ns) = {p. p \<noteq> [] \<and> (p = ns \<or> (\<exists>q. ns = p @ CHR ''/'' # q))} \<and>
   sorted_wrt (\<lambda>a b. length b < length a) (ns_walk ns)"
proof (induction ns rule: ns_walk.induct)
  case (1 ns)
  show ?case
  proof (cases "ns \<noteq> [] \<and> CHR ''/'' \<in> set ns")
    case False
    then show ?thesis by (auto simp: ns_walk.simps [of ns])
  next
    case True
    obtain p0 t where p0: "ns_parent ns = p0" and t: "ns = p0 @ CHR ''/'' # t" "CHR ''/'' \<notin> set t"
      using ns_parent_split True by metis
    have IH: "set (ns_walk p0) = {p. p \<noteq> [] \<and> (p = p0 \<or> (\<exists>q. p0 = p @ CHR ''/'' # q))}"
      "sorted_wrt (\<lambda>a b. length b < length a) (ns_walk p0)"
      using "1.IH" True unfolding p0 by simp_all
    have walk: "ns_walk ns = ns # ns_walk p0"
      using True p0 by (simp add: ns_walk.simps [of ns])
    have pre: "(\<exists>q. ns = p @ CHR ''/'' # q) \<longleftrightarrow> p = p0 \<or> (\<exists>q. p0 = p @ CHR ''/'' # q)" for p
      using append_slash_cases [of p0 "CHR ''/''" t p] t by (metis append.assoc append_Cons)
    have "length p0 < length ns" using t(1) by simp
    moreover have "length b \<le> length p0" if "b \<in> set (ns_walk p0)" for b
      using that unfolding IH(1) by auto
    ultimately have len: "\<forall>b\<in>set (ns_walk p0). length b < length ns" by fastforce
    show ?thesis
      unfolding walk using len IH(2) True by (simp add: IH(1) pre) blast
  qed
qed

lemma sorted_length_distinct: "sorted_wrt (\<lambda>a b. length b < length a) xs \<Longrightarrow> distinct xs"
  by (induction xs) auto

lemma namespace_hierarchy_distinct: "distinct (namespace_hierarchy r)"
  using ns_walk_spec sorted_length_distinct
  by (auto simp: namespace_hierarchy_def split: option.splits)

text \<open>
  The namespace hierarchy of a rule is exactly its namespace and the nonempty prefixes
  of it that end before a slash, from the most specific to the most general, and it is
  empty for a rule without a namespace.
\<close>

theorem namespace_hierarchy_prefixes:
  "set (namespace_hierarchy r) =
     {p. \<exists>ns. meta_namespace (rule_meta r) = Some ns \<and> p \<noteq> [] \<and>
        (p = ns \<or> (\<exists>q. ns = p @ CHR ''/'' # q))} \<and>
   sorted_wrt (\<lambda>a b. length b < length a) (namespace_hierarchy r)"
  using ns_walk_spec by (cases "meta_namespace (rule_meta r)") (auto simp: namespace_hierarchy_def)

section \<open>Injecting match features\<close>

fun add_at_all :: "feature_set \<Rightarrow> feature \<Rightarrow> address list \<Rightarrow> feature_set" where
  "add_at_all fs f [] = fs"
| "add_at_all fs f (a # as) = add_at_all (fs_add fs (Some f) a) f as"

fun emit_names :: "feature_set \<Rightarrow> string list \<Rightarrow> address list \<Rightarrow> feature_set" where
  "emit_names fs [] addrs = fs"
| "emit_names fs (n # ns) addrs = emit_names (add_at_all fs (FMatchedRule n) addrs) ns addrs"

definition index_rule_matches :: "feature_set \<Rightarrow> rule \<Rightarrow> address list \<Rightarrow> feature_set" where
  "index_rule_matches fs r addrs =
     (if addrs = [] then fs else emit_names fs (rule_name r # namespace_hierarchy r) addrs)"

definition feature_match_ref :: "feature \<Rightarrow> string list" where
  "feature_match_ref f = (case f of FMatchedRule n \<Rightarrow> [n] | _ \<Rightarrow> [])"

fun collect_match_refs :: "statement \<Rightarrow> string list"
  and collect_children :: "statement option list \<Rightarrow> string list"
where
  "collect_match_refs (SFeature f) = feature_match_ref f"
| "collect_match_refs (SRange f lo hi) = feature_match_ref f"
| "collect_match_refs (SAnd cs) = collect_children cs"
| "collect_match_refs (SOr cs) = collect_children cs"
| "collect_match_refs (SNot c) = collect_match_refs c"
| "collect_match_refs (SSome n cs) = collect_children cs"
| "collect_match_refs (SSubscope s inner) = []"
| "collect_children [] = []"
| "collect_children (None # cs) = collect_children cs"
| "collect_children (Some c # cs) = collect_match_refs c @ collect_children cs"

section \<open>The match loop\<close>

type_synonym match_results = "string \<Rightarrow> (address \<times> result) list"

definition no_results :: match_results where "no_results = (\<lambda>_. [])"

definition add_result :: "match_results \<Rightarrow> string \<Rightarrow> address \<Rightarrow> result \<Rightarrow> match_results" where
  "add_result out n a r = out(n := out n @ [(a, r)])"

fun match_loop ::
  "regex_engine \<Rightarrow> rule option list \<Rightarrow> feature_set \<Rightarrow> address \<Rightarrow> match_results
     \<Rightarrow> (feature_set \<times> match_results) expected" where
  "match_loop rx [] fs a out = Inr (fs, out)"
| "match_loop rx (None # rs) fs a out = match_loop rx rs fs a out"
| "match_loop rx (Some r # rs) fs a out =
     sbind (evaluate_quick rx fs (rule_statement r)) (\<lambda>b.
       if \<not> b then match_loop rx rs fs a out
       else sbind (evaluate rx fs False (rule_statement r)) (\<lambda>full.
         match_loop rx rs (index_rule_matches fs r [a]) a (add_result out (rule_name r) a full)))"

definition engine_match ::
  "regex_engine \<Rightarrow> rule option list \<Rightarrow> feature_set \<Rightarrow> address
     \<Rightarrow> (feature_set \<times> match_results) expected" where
  "engine_match rx rules_topo fs a = match_loop rx rules_topo fs a no_results"

end
