(* ===== verification/Feature_Index.thy ===== *)
theory Feature_Index
  imports Rules
begin

text \<open>
  The rule index of src/rules/feature_index.cpp: for each rule of a scope, a set of
  features of which at least one must be present for the rule to match.  Rules are
  selected for evaluation by the features of the set, and the main result is that the
  selection never changes what the match loop returns.
\<close>

section \<open>Selectivity scores\<close>

fun indexable :: "feature_tag \<Rightarrow> bool" where
  "indexable kSubstring = False"
| "indexable kRegex = False"
| "indexable kBytes = False"
| "indexable kOs = False"
| "indexable kArch = False"
| "indexable kMatchedRule = False"
| "indexable _ = True"

definition common_number :: "u64 \<Rightarrow> bool" where
  "common_number x \<longleftrightarrow> x \<le> 0x8000 \<or> (x \<ge> 0xFFFFFF00 \<and> x \<le> 0xFFFFFFFF)
     \<or> x \<ge> 0xFFFFFFFFFFFFFF00"

fun number_score :: "number_value \<Rightarrow> int" where
  "number_score (Num_U64 x) = (if common_number x then 3 else 7)"
| "number_score (Num_I64 i) =
     (if sint i < 0 then if sint i \<ge> - 0x8000 then 3 else 7
      else if common_number i then 3 else 7)"
| "number_score (Num_Double d) = 7"

definition score :: "feature \<Rightarrow> int" where
  "score f =
     (case f of FString _ \<Rightarrow> 9 | FApi _ \<Rightarrow> 8 | FExport _ \<Rightarrow> 7
      | FNumber v \<Rightarrow> number_score v | FOperandNumber _ v \<Rightarrow> number_score v
      | FClass _ \<Rightarrow> 5 | FNamespace _ \<Rightarrow> 5 | FProperty _ _ \<Rightarrow> 5 | FImport _ \<Rightarrow> 5
      | FSection _ \<Rightarrow> 5 | FFunctionName _ \<Rightarrow> 5
      | FCharacteristic _ \<Rightarrow> 4 | FOffset _ \<Rightarrow> 4 | FOperandOffset _ _ \<Rightarrow> 4
      | FMnemonic _ \<Rightarrow> 2 | FBasicBlock \<Rightarrow> 1 | _ \<Rightarrow> 0)"

section \<open>What a statement cannot match without\<close>

record need_set =
  need_score :: int
  need_feats :: "feature list"

definition no_need :: need_set where
  "no_need = \<lparr>need_score = 0, need_feats = []\<rparr>"

text \<open>Insertion into, and merging of, a set keyed by feature equality.\<close>

definition feats_insert :: "feature list \<Rightarrow> feature \<Rightarrow> feature list" where
  "feats_insert fs f = (if list_ex (\<lambda>g. feature_equals g f) fs then fs else fs @ [f])"

definition feats_merge :: "feature list \<Rightarrow> feature list \<Rightarrow> feature list" where
  "feats_merge fs gs = foldl feats_insert fs gs"

definition leaf_need :: "feature \<Rightarrow> need_set" where
  "leaf_need f =
     (if \<not> indexable (tag f) then no_need
      else \<lparr>need_score = score f, need_feats = [f]\<rparr>)"

definition better_need :: "need_set \<Rightarrow> need_set \<Rightarrow> bool" where
  "better_need best n \<longleftrightarrow>
     need_feats best = [] \<or> need_score n > need_score best \<or>
     (need_score n = need_score best \<and> length (need_feats n) < length (need_feats best))"

definition kIntMax :: int where "kIntMax = 2147483647"

fun need :: "statement \<Rightarrow> need_set"
  and need_and :: "need_set \<Rightarrow> statement option list \<Rightarrow> need_set"
  and need_any :: "need_set \<Rightarrow> statement option list \<Rightarrow> need_set option"
where
  "need (SFeature f) = leaf_need f"
| "need (SRange f lo hi) = (if lo = 0 then no_need else leaf_need f)"
| "need (SAnd cs) = need_and no_need cs"
| "need (SOr cs) =
     (case need_any \<lparr>need_score = kIntMax, need_feats = []\<rparr> cs of None \<Rightarrow> no_need
      | Some n \<Rightarrow> if need_feats n = [] then no_need else n)"
| "need (SSome k cs) =
     (if k = 0 then no_need
      else case need_any \<lparr>need_score = kIntMax, need_feats = []\<rparr> cs of None \<Rightarrow> no_need
      | Some n \<Rightarrow> if need_feats n = [] then no_need else n)"
| "need (SNot c) = no_need"
| "need (SSubscope s inner) = no_need"
| "need_and best [] = best"
| "need_and best (None # cs) = need_and best cs"
| "need_and best (Some c # cs) =
     (let n = need c in
      if need_feats n = [] then need_and best cs
      else need_and (if better_need best n then n else best) cs)"
| "need_any any [] = Some any"
| "need_any any (None # cs) = None"
| "need_any any (Some c # cs) =
     (let n = need c in
      if need_feats n = [] then None
      else need_any \<lparr>need_score = min (need_score any) (need_score n),
                     need_feats = feats_merge (need_feats any) (need_feats n)\<rparr> cs)"

section \<open>Building the index and selecting rules\<close>

record feature_index =
  ix_order :: "rule list"
  ix_always :: "bool list"
  ix_by_feature :: "(feature \<times> nat list) list"

fun posting_find :: "(feature \<times> nat list) list \<Rightarrow> feature \<Rightarrow> nat list" where
  "posting_find [] f = []"
| "posting_find ((g, is) # ps) f = (if feature_equals g f then is else posting_find ps f)"

fun posting_push :: "(feature \<times> nat list) list \<Rightarrow> feature \<Rightarrow> nat \<Rightarrow> (feature \<times> nat list) list" where
  "posting_push [] f i = [(f, [i])]"
| "posting_push ((g, is) # ps) f i =
     (if feature_equals g f then (g, is @ [i]) # ps else (g, is) # posting_push ps f i)"

definition posting_push_all ::
  "(feature \<times> nat list) list \<Rightarrow> feature list \<Rightarrow> nat \<Rightarrow> (feature \<times> nat list) list" where
  "posting_push_all ps fs i = foldl (\<lambda>ps f. posting_push ps f i) ps fs"

fun build_loop :: "rule list \<Rightarrow> nat \<Rightarrow> feature_index \<Rightarrow> feature_index" where
  "build_loop [] i ix = ix"
| "build_loop (r # rs) i ix =
     (let n = need (rule_statement r) in
      if need_feats n = [] then build_loop rs (i + 1) ix
      else build_loop rs (i + 1)
        (ix\<lparr>ix_always := (ix_always ix)[i := False],
            ix_by_feature := posting_push_all (ix_by_feature ix) (need_feats n) i\<rparr>))"

definition build_index :: "rule list \<Rightarrow> feature_index" where
  "build_index rules =
     build_loop rules 0
       \<lparr>ix_order = rules, ix_always = replicate (length rules) True, ix_by_feature = []\<rparr>"

definition mark_hits :: "bool list \<Rightarrow> nat list \<Rightarrow> bool list" where
  "mark_hits hit is = foldl (\<lambda>h i. h[i := True]) hit is"

definition select_hits :: "feature_index \<Rightarrow> feature_set \<Rightarrow> bool list" where
  "select_hits ix fs =
     foldl (\<lambda>h f. mark_hits h (posting_find (ix_by_feature ix) f))
       (replicate (length (ix_order ix)) False) (fs_keys fs)"

definition select_rules :: "feature_index \<Rightarrow> feature_set \<Rightarrow> rule list" where
  "select_rules ix fs =
     (let hit = select_hits ix fs in
      map (\<lambda>i. ix_order ix ! i)
        (filter (\<lambda>i. ix_always ix ! i \<or> hit ! i) [0..<length (ix_order ix)]))"

section \<open>Needed features are needed\<close>

lemma feature_matches_indexable: "indexable (tag f) \<Longrightarrow> feature_matches rx fs f = fs_has fs f"
  by (cases f) (auto simp: feature_matches_def)

definition need_ok :: "feature_set \<Rightarrow> need_set \<Rightarrow> bool" where
  "need_ok fs n \<longleftrightarrow> (\<exists>f\<in>set (need_feats n). indexable (tag f) \<and> fs_has fs f)"

lemma set_feats_insert: "set fs \<subseteq> set (feats_insert fs f)"
  by (auto simp: feats_insert_def)

lemma feats_merge_left: "set fs \<subseteq> set (feats_merge fs gs)"
  unfolding feats_merge_def
  by (induction gs arbitrary: fs) (use set_feats_insert in fastforce)+

lemma feats_insert_equal: "feature_equals f h \<Longrightarrow> \<exists>g\<in>set (feats_insert fs f). feature_equals g h"
  by (auto simp: feats_insert_def list_ex_iff intro: feature_equals_trans)

lemma feats_merge_right:
  "f \<in> set gs \<Longrightarrow> feature_equals f h \<Longrightarrow> \<exists>g\<in>set (feats_merge fs gs). feature_equals g h"
proof (induction gs arbitrary: fs)
  case (Cons x gs)
  show ?case
  proof (cases "f = x")
    case True
    then obtain g where g: "g \<in> set (feats_insert fs x)" "feature_equals g h"
      using feats_insert_equal Cons.prems(2) by blast
    have "set (feats_insert fs x) \<subseteq> set (feats_merge fs (x # gs))"
      using feats_merge_left [of "feats_insert fs x" gs] by (simp add: feats_merge_def)
    with g show ?thesis by blast
  next
    case False
    with Cons show ?thesis by (simp add: feats_merge_def)
  qed
qed simp

lemma fs_has_equal: "feature_equals f g \<Longrightarrow> fs_has fs f \<Longrightarrow> fs_has fs g"
  by (auto simp: fs_has_iff intro: feature_equals_trans)

lemma need_ok_merge_left: "need_ok fs \<lparr>need_score = a, need_feats = fa\<rparr> \<Longrightarrow>
    need_ok fs \<lparr>need_score = b, need_feats = feats_merge fa fb\<rparr>"
  using feats_merge_left by (fastforce simp: need_ok_def)

lemma need_ok_merge_right:
  assumes "need_ok fs n"
  shows "need_ok fs \<lparr>need_score = b, need_feats = feats_merge fa (need_feats n)\<rparr>"
proof -
  from assms obtain f g where f: "f \<in> set (need_feats n)" "indexable (tag f)"
    and g: "g \<in> set (fs_keys fs)" "feature_equals g f"
    by (auto simp: need_ok_def fs_has_iff)
  obtain h where h: "h \<in> set (feats_merge fa (need_feats n))" "feature_equals h g"
    using feats_merge_right [OF f(1) feature_equals_sym [OF g(2)]] by blast
  have "tag h = tag f"
    using feature_equals_tag [OF h(2)] feature_equals_tag [OF g(2)] by simp
  moreover have "fs_has fs h"
    unfolding fs_has_iff using g(1) feature_equals_sym [OF h(2)] by blast
  ultimately show ?thesis using h(1) f(2) by (auto simp: need_ok_def intro!: bexI [of _ h])
qed

lemma leaf_need_ok:
  "need_feats (leaf_need f) \<noteq> [] \<Longrightarrow> fs_has fs f \<or> feature_matches rx fs f \<Longrightarrow>
     need_ok fs (leaf_need f)"
  by (auto simp: leaf_need_def need_ok_def no_need_def feature_matches_indexable split: if_split_asm)

lemma range_holds_has: "range_holds fs f lo hi \<Longrightarrow> 0 < lo \<Longrightarrow> fs_has fs f"
  by (auto simp: range_holds_def fs_has_def Let_def split: option.splits)

lemma no_need_feats [simp]: "need_feats no_need = []"
  by (simp add: no_need_def)

lemma need_sound:
  "holds rx fs s \<Longrightarrow> need_feats (need s) \<noteq> [] \<Longrightarrow> need_ok fs (need s)"
  "list_all (child_holds (holds rx fs)) cs \<Longrightarrow> need_feats best = [] \<or> need_ok fs best \<Longrightarrow>
     need_feats (need_and best cs) = [] \<or> need_ok fs (need_and best cs)"
  "need_any any cs = Some n \<Longrightarrow> need_ok fs any \<or> list_ex (child_holds (holds rx fs)) cs \<Longrightarrow>
     need_ok fs n"
proof (induction s and best cs and any cs arbitrary: and and n
    rule: need_need_and_need_any.induct)
  case (1 f)
  then show ?case using leaf_need_ok [of f fs rx] by simp
next
  case (2 f lo hi)
  then show ?case using leaf_need_ok [of f fs rx] by (auto dest: range_holds_has split: if_split_asm)
next
  case (5 k cs)
  then have "0 < holding rx fs cs" by (simp add: holds_some split: if_split_asm)
  then have "list_ex (child_holds (holds rx fs)) cs"
    by (auto simp: holding_def list_ex_iff filter_empty_conv)
  with 5 show ?case by (auto split: option.splits if_split_asm)
next
  case (13 any c cs)
  define any' where "any' = \<lparr>need_score = min (need_score any) (need_score (need c)),
      need_feats = feats_merge (need_feats any) (need_feats (need c))\<rparr>"
  from "13.prems"(1) have ne: "need_feats (need c) \<noteq> []" and n: "need_any any' cs = Some n"
    by (auto simp: Let_def any'_def split: if_split_asm)
  have "need_ok fs any' \<or> list_ex (child_holds (holds rx fs)) cs"
  proof (cases "list_ex (child_holds (holds rx fs)) cs")
    case False
    with "13.prems"(2) have "need_ok fs any \<or> holds rx fs c" by auto
    moreover have "need_ok fs any' " if "need_ok fs any"
      using that need_ok_merge_left [of fs "need_score any" "need_feats any"]
      by (simp add: any'_def need_ok_def)
    moreover have "need_ok fs any'" if "holds rx fs c"
      unfolding any'_def by (rule need_ok_merge_right) (use that "13.IH"(1) ne in blast)
    ultimately show ?thesis by blast
  qed simp
  with n "13.IH"(2) [OF refl ne] show ?case by (simp add: any'_def)
qed (auto simp: Let_def split: option.splits if_split_asm)

section \<open>The index lists every rule under its needed features\<close>

lemma posting_find_push:
  "posting_find (posting_push ps f i) g =
     (if feature_equals f g then posting_find ps g @ [i] else posting_find ps g)"
proof (induction ps)
  case (Cons p ps)
  obtain h js where p: "p = (h, js)" by (cases p)
  have "feature_equals h g" if "feature_equals h f" "feature_equals f g"
    using that by (rule feature_equals_trans)
  moreover have "feature_equals h f" if "feature_equals h g" "feature_equals f g"
    using that feature_equals_sym feature_equals_trans by blast
  moreover have "feature_equals f g" if "feature_equals h f" "feature_equals h g"
    using that feature_equals_sym feature_equals_trans by blast
  ultimately show ?case using Cons p by auto
qed simp

lemma posting_find_push_all:
  "set (posting_find (posting_push_all ps fs i) g) =
     set (posting_find ps g) \<union> (if list_ex (\<lambda>f. feature_equals f g) fs then {i} else {})"
  unfolding posting_push_all_def
  by (induction fs arbitrary: ps) (auto simp: posting_find_push)

definition lists_rule :: "feature_index \<Rightarrow> nat \<Rightarrow> statement \<Rightarrow> bool" where
  "lists_rule ix i s \<longleftrightarrow> ix_always ix ! i \<or>
     (need_feats (need s) \<noteq> [] \<and>
      (\<forall>f\<in>set (need_feats (need s)). \<forall>g. feature_equals f g \<longrightarrow>
         i \<in> set (posting_find (ix_by_feature ix) g)))"

lemma build_loop_frame:
  "ix_order (build_loop rs k ix) = ix_order ix \<and>
   length (ix_always (build_loop rs k ix)) = length (ix_always ix) \<and>
   (\<forall>j<k. ix_always (build_loop rs k ix) ! j = ix_always ix ! j) \<and>
   (\<forall>g. set (posting_find (ix_by_feature ix) g) \<subseteq>
        set (posting_find (ix_by_feature (build_loop rs k ix)) g))"
proof (induction rs k ix rule: build_loop.induct)
  case (2 r rs i ix)
  let ?n = "need (rule_statement r)"
  let ?ix = "ix\<lparr>ix_always := (ix_always ix)[i := False],
      ix_by_feature := posting_push_all (ix_by_feature ix) (need_feats ?n) i\<rparr>"
  show ?case
  proof (cases "need_feats ?n = []")
    case True
    with "2.IH"(1) [OF refl True] show ?thesis by simp
  next
    case False
    have "set (posting_find (ix_by_feature ix) g) \<subseteq> set (posting_find (ix_by_feature ?ix) g)" for g
      by (simp add: posting_find_push_all)
    with "2.IH"(2) [OF refl False] False show ?thesis
      by (simp add: Let_def) blast
  qed
qed simp

lemma lists_rule_mono:
  assumes "lists_rule ix i s" and "ix_always ix' ! i = ix_always ix ! i"
    and "\<And>g. set (posting_find (ix_by_feature ix) g) \<subseteq> set (posting_find (ix_by_feature ix') g)"
  shows "lists_rule ix' i s"
  using assms unfolding lists_rule_def by blast

lemma build_loop_lists:
  assumes "length (ix_always ix) = k + length rs" and "\<forall>j\<ge>k. j < k + length rs \<longrightarrow> ix_always ix ! j"
    and "j < length rs"
  shows "lists_rule (build_loop rs k ix) (k + j) (rule_statement (rs ! j))"
  using assms
proof (induction rs k ix arbitrary: j rule: build_loop.induct)
  case (2 r rs k ix)
  define n where "n = need (rule_statement r)"
  define ix' where "ix' = (if need_feats n = [] then ix
    else ix\<lparr>ix_always := (ix_always ix)[k := False],
            ix_by_feature := posting_push_all (ix_by_feature ix) (need_feats n) k\<rparr>)"
  have step: "build_loop (r # rs) k ix = build_loop rs (k + 1) ix'"
    by (simp add: ix'_def n_def Let_def)
  have pre: "length (ix_always ix') = k + 1 + length rs"
    "\<forall>j\<ge>k + 1. j < k + 1 + length rs \<longrightarrow> ix_always ix' ! j"
    using "2.prems" by (auto simp: ix'_def)
  show ?case
  proof (cases j)
    case 0
    have "lists_rule ix' k (rule_statement r)"
      using "2.prems"(2) by (auto simp: lists_rule_def ix'_def n_def posting_find_push_all list_ex_iff)
    then have "lists_rule (build_loop rs (k + 1) ix') k (rule_statement r)"
      by (rule lists_rule_mono) (use build_loop_frame [of rs "k + 1" ix'] in auto)
    with 0 step show ?thesis by simp
  next
    case (Suc j')
    then have "lists_rule (build_loop rs (k + 1) ix') (k + 1 + j') (rule_statement (rs ! j'))"
      using "2.IH" "2.prems"(3) pre by (cases "need_feats n = []") (auto simp: ix'_def n_def)
    with Suc step show ?thesis by simp
  qed
qed simp

lemma build_index_lists:
  "i < length rules \<Longrightarrow> lists_rule (build_index rules) i (rule_statement (rules ! i))"
  using build_loop_lists [of "\<lparr>ix_order = rules, ix_always = replicate (length rules) True,
      ix_by_feature = []\<rparr>" 0 rules i]
  by (simp add: build_index_def)

lemma build_index_order [simp]: "ix_order (build_index rules) = rules"
  using build_loop_frame [of rules 0 "\<lparr>ix_order = rules,
      ix_always = replicate (length rules) True, ix_by_feature = []\<rparr>"]
  by (simp add: build_index_def)

lemma mark_hits_length [simp]: "length (mark_hits h is) = length h"
  unfolding mark_hits_def by (induction "is" arbitrary: h) auto

lemma set_true_nth: "i < length h \<Longrightarrow> h[a := True] ! i \<longleftrightarrow> h ! i \<or> i = a"
  by (cases "a = i") auto

lemma mark_hits_nth: "i < length h \<Longrightarrow> mark_hits h is ! i \<longleftrightarrow> h ! i \<or> i \<in> set is"
  unfolding mark_hits_def by (induction "is" arbitrary: h) (auto simp: set_true_nth)

lemma fold_mark_hits:
  "i < length h \<Longrightarrow>
     foldl (\<lambda>h f. mark_hits h (P f)) h fs ! i \<longleftrightarrow> h ! i \<or> (\<exists>f\<in>set fs. i \<in> set (P f))"
  by (induction fs arbitrary: h) (auto simp: mark_hits_nth)

lemma select_hits_nth:
  "i < length (ix_order ix) \<Longrightarrow> select_hits ix fs ! i \<longleftrightarrow>
     (\<exists>f\<in>set (fs_keys fs). i \<in> set (posting_find (ix_by_feature ix) f))"
  by (simp add: select_hits_def fold_mark_hits)

definition selected :: "feature_index \<Rightarrow> feature_set \<Rightarrow> nat \<Rightarrow> bool" where
  "selected ix fs i \<longleftrightarrow> ix_always ix ! i \<or> select_hits ix fs ! i"

lemma not_selected:
  assumes "i < length rules" and "\<not> selected (build_index rules) fs i"
  shows "need_feats (need (rule_statement (rules ! i))) \<noteq> [] \<and>
    \<not> need_ok fs (need (rule_statement (rules ! i)))"
proof -
  note lists = build_index_lists [OF assms(1)]
  have miss: "\<forall>f\<in>set (fs_keys fs). i \<notin> set (posting_find (ix_by_feature (build_index rules)) f)"
    using assms select_hits_nth [of i "build_index rules" fs] by (simp add: selected_def)
  show ?thesis
    using lists assms(2) miss feature_equals_sym
    unfolding lists_rule_def selected_def need_ok_def fs_has_iff by blast
qed

section \<open>Selection does not change the matches\<close>

definition same_indexable :: "feature_set \<Rightarrow> feature_set \<Rightarrow> bool" where
  "same_indexable fs fs' \<longleftrightarrow> (\<forall>f. indexable (tag f) \<longrightarrow> fs_has fs f = fs_has fs' f)"

lemma fs_has_insert:
  "fs_has (fs_insert fs f A) g \<longleftrightarrow> fs_has fs g \<or> feature_equals f g"
proof (cases "feature_equals f g")
  case True
  then show ?thesis by (simp add: fs_has_def fs_find_insert_same)
next
  case False
  then show ?thesis by (simp add: fs_has_def fs_find_insert_other)
qed

lemma fs_has_add_at_all:
  "fs_has (add_at_all fs f as) g \<longleftrightarrow> fs_has fs g \<or> as \<noteq> [] \<and> feature_equals f g"
  by (induction fs f as rule: add_at_all.induct) (auto simp: fs_add_def fs_has_insert)

lemma fs_has_emit_names:
  "fs_has (emit_names fs ns as) g \<longleftrightarrow>
     fs_has fs g \<or> as \<noteq> [] \<and> (\<exists>n\<in>set ns. g = FMatchedRule n)"
  by (induction fs ns as rule: emit_names.induct)
    (auto simp: fs_has_add_at_all feature_equals_value_exact)

lemma fs_has_index_rule_matches:
  "fs_has (index_rule_matches fs r as) g \<longleftrightarrow>
     fs_has fs g \<or>
     as \<noteq> [] \<and> (\<exists>n\<in>insert (rule_name r) (set (namespace_hierarchy r)). g = FMatchedRule n)"
  by (auto simp: index_rule_matches_def fs_has_emit_names fs_has_add_at_all
      feature_equals_value_exact)

lemma same_indexable_matches:
  "same_indexable fs fs' \<Longrightarrow> same_indexable (index_rule_matches fs r as) fs'"
  by (auto simp: same_indexable_def fs_has_index_rule_matches)

lemma need_ok_same: "same_indexable fs fs' \<Longrightarrow> need_ok fs n = need_ok fs' n"
  by (auto simp: same_indexable_def need_ok_def)

lemma match_loop_filter:
  assumes "same_indexable fs fs0"
    and "\<forall>i\<in>set is. no_subscope (rule_statement (rs ! i))"
    and "\<forall>i\<in>set is. \<not> S i \<longrightarrow> need_feats (need (rule_statement (rs ! i))) \<noteq> [] \<and>
           \<not> need_ok fs0 (need (rule_statement (rs ! i)))"
  shows "match_loop rx (map (\<lambda>i. Some (rs ! i)) (filter S is)) fs a out =
    match_loop rx (map (\<lambda>i. Some (rs ! i)) is) fs a out"
  using assms
proof (induction "is" arbitrary: fs out)
  case (Cons i js)
  let ?s = "rule_statement (rs ! i)"
  obtain r where r: "evaluate rx fs False ?s = Inr r"
    using evaluate_total(1) Cons.prems(2) by fastforce
  note q = quick_agrees_with_evaluate' [OF r]
  have IH: "match_loop rx (map (\<lambda>i. Some (rs ! i)) (filter S js)) fs' a out' =
      match_loop rx (map (\<lambda>i. Some (rs ! i)) js) fs' a out'"
    if "same_indexable fs' fs0" for fs' out'
    using Cons.IH [OF that] Cons.prems by simp
  show ?case
  proof (cases "S i")
    case True
    have "same_indexable (index_rule_matches fs (rs ! i) [a]) fs0"
      using Cons.prems(1) by (rule same_indexable_matches)
    with True Cons.prems(1) r q show ?thesis by (simp add: IH)
  next
    case False
    with Cons.prems have "\<not> need_ok fs (need ?s)" "need_feats (need ?s) \<noteq> []"
      using need_ok_same by auto
    then have "\<not> holds rx fs ?s" using need_sound(1) by blast
    with False q IH [OF Cons.prems(1)] show ?thesis by simp
  qed
qed simp

text \<open>
  Evaluating only the rules the index selects gives exactly what evaluating every rule of
  the scope gives, even though matches add features while the loop runs.
\<close>

lemma select_rules_complete:
  assumes "\<forall>r\<in>set rules. no_subscope (rule_statement r)"
  shows "engine_match rx (map Some (select_rules (build_index rules) fs)) fs a =
    engine_match rx (map Some rules) fs a"
proof -
  define sel where "sel = selected (build_index rules) fs"
  have "engine_match rx (map Some (select_rules (build_index rules) fs)) fs a =
      match_loop rx (map (\<lambda>i. Some (rules ! i)) (filter sel [0..<length rules])) fs a no_results"
    by (simp add: engine_match_def select_rules_def sel_def selected_def [abs_def] Let_def comp_def)
  also have "\<dots> = match_loop rx (map (\<lambda>i. Some (rules ! i)) [0..<length rules]) fs a no_results"
  proof (rule match_loop_filter)
    show "same_indexable fs fs" by (simp add: same_indexable_def)
    show "\<forall>i\<in>set [0..<length rules]. no_subscope (rule_statement (rules ! i))"
      using assms by simp
    show "\<forall>i\<in>set [0..<length rules]. \<not> sel i \<longrightarrow>
        need_feats (need (rule_statement (rules ! i))) \<noteq> [] \<and>
        \<not> need_ok fs (need (rule_statement (rules ! i)))"
      unfolding sel_def using not_selected by auto
  qed
  also have "map (\<lambda>i. Some (rules ! i)) [0..<length rules] = map Some rules"
    by (metis (no_types, lifting) map_eq_conv map_map map_nth comp_apply)
  finally show ?thesis by (simp add: engine_match_def)
qed

end
