(* ===== verification/Optimizer.thy ===== *)
theory Optimizer
  imports Rules "HOL-Library.Multiset"
begin

text \<open>
  The optimizer of src/rules/optimizer.cpp: the children of a rule's root statement are
  stably sorted by an estimate of their evaluation cost.  The comparator dereferences
  both children, so a null child among several makes the sort fail.
\<close>

section \<open>Costs\<close>

fun feature_cost :: "feature \<Rightarrow> nat" where
  "feature_cost (FOs _) = 0"
| "feature_cost (FArch _) = 0"
| "feature_cost (FFormat _) = 0"
| "feature_cost (FSubstring _) = 2"
| "feature_cost (FRegex _) = 2"
| "feature_cost (FBytes _) = 2"
| "feature_cost _ = 1"

fun node_cost :: "statement \<Rightarrow> nat"
  and children_cost :: "statement option list \<Rightarrow> nat"
where
  "node_cost (SFeature f) = feature_cost f"
| "node_cost (SRange f lo hi) = 1 + feature_cost f"
| "node_cost (SAnd cs) = 1 + children_cost cs"
| "node_cost (SOr cs) = 1 + children_cost cs"
| "node_cost (SNot c) = 1 + node_cost c"
| "node_cost (SSome n cs) = 1 + children_cost cs"
| "node_cost (SSubscope s inner) = 1"
| "children_cost [] = 0"
| "children_cost (None # cs) = children_cost cs"
| "children_cost (Some c # cs) = node_cost c + children_cost cs"

section \<open>Reordering\<close>

definition child_cost :: "statement option \<Rightarrow> nat" where
  "child_cost c = (case c of None \<Rightarrow> 0 | Some s \<Rightarrow> node_cost s)"

definition sort_children :: "statement option list \<Rightarrow> statement option list expected" where
  "sort_children cs =
     (if length cs \<ge> 2 \<and> None \<in> set cs then Inl Null_Deref else Inr (sort_key child_cost cs))"

fun optimize :: "statement \<Rightarrow> statement expected" where
  "optimize (SAnd cs) = sbind (sort_children cs) (\<lambda>cs. Inr (SAnd cs))"
| "optimize (SOr cs) = sbind (sort_children cs) (\<lambda>cs. Inr (SOr cs))"
| "optimize (SSome n cs) = sbind (sort_children cs) (\<lambda>cs. Inr (SSome n cs))"
| "optimize (SNot c) = sbind (optimize c) (\<lambda>c. Inr (SNot c))"
| "optimize s = Inr s"

section \<open>The outcome of a rule is unchanged\<close>

lemma sort_children_perm: "sort_children cs = Inr cs' \<Longrightarrow> mset cs' = mset cs"
  by (auto simp: sort_children_def split: if_split_asm)

lemma sort_children_cases:
  assumes "sort_children cs = Inr cs'"
  shows "set cs' = set cs \<and> length (filter P cs') = length (filter P cs)"
proof -
  have "mset cs' = mset cs" using assms by (rule sort_children_perm)
  then show ?thesis by (metis mset_filter mset_eq_setD size_mset)
qed

lemma optimize_holds: "optimize s = Inr s' \<Longrightarrow> holds rx fs s' = holds rx fs s"
proof (induction s arbitrary: s' rule: optimize.induct)
  case (3 n cs)
  then obtain cs' where "sort_children cs = Inr cs'" "s' = SSome n cs'" by auto
  then show ?case
    using sort_children_cases [of cs cs' "child_holds (holds rx fs)"] by (simp add: holds.simps(4))
qed (auto simp: list_all_iff list_ex_iff dest!: sort_children_cases)

lemma optimize_no_subscope: "optimize s = Inr s' \<Longrightarrow> no_subscope s' = no_subscope s"
  by (induction s arbitrary: s' rule: optimize.induct)
    (auto simp: list_all_iff dest!: sort_children_cases)

lemma set_collect_children:
  "set (collect_children cs) = (\<Union>c\<in>{c. Some c \<in> set cs}. set (collect_match_refs c))"
  by (induction cs rule: list.induct) (auto split: option.split, (case_tac x1; force)+)

lemma optimize_match_refs:
  "optimize s = Inr s' \<Longrightarrow> set (collect_match_refs s') = set (collect_match_refs s)"
  by (induction s arbitrary: s' rule: optimize.induct)
    (auto simp: set_collect_children dest!: sort_children_cases)

text \<open>
  C4: reordering a rule's children keeps its outcome on every feature set, its freedom
  from subscope nodes and the rules it refers to.
\<close>

theorem optimize_preserves_meaning:
  assumes "optimize s = Inr s'"
  shows "holds rx fs s' = holds rx fs s \<and> no_subscope s' = no_subscope s \<and>
    set (collect_match_refs s') = set (collect_match_refs s)"
  using assms by (simp add: optimize_holds optimize_no_subscope optimize_match_refs)

lemma optimize_preserves_meaning_witness:
  "holds (\<lambda>_ _. None) empty_set
     (SAnd [Some (SFeature (FOs ''any'')), Some (SFeature (FApi ''x'')), Some (SFeature (FRegex ''a''))]) =
   holds (\<lambda>_ _. None) empty_set
     (SAnd [Some (SFeature (FRegex ''a'')), Some (SFeature (FApi ''x'')), Some (SFeature (FOs ''any''))])"
proof -
  have "optimize (SAnd [Some (SFeature (FRegex ''a'')), Some (SFeature (FApi ''x'')),
      Some (SFeature (FOs ''any''))]) =
    Inr (SAnd [Some (SFeature (FOs ''any'')), Some (SFeature (FApi ''x'')),
      Some (SFeature (FRegex ''a''))])"
    by (simp add: sort_children_def child_cost_def)
  from optimize_preserves_meaning [OF this] show ?thesis by blast
qed

end
