(* ===== verification/Kahn.thy ===== *)
theory Kahn
  imports Papa_Prelude
begin

text \<open>
  The ordering loop inside \<open>RuleSet::topologically_sort\<close> (src/rules/ruleset.cpp): Kahn's
  algorithm with a queue that always yields the least ready node.  The nodes are
  identified by a key of a linear order, rule names in the program.  The queue is a
  sorted list; \<open>fuel\<close> bounds the number of pops and the number of nodes is always enough
  (\<open>kahn_terminates\<close>).
\<close>

fun release :: "'a::linorder list \<Rightarrow> ('a \<Rightarrow> nat) \<Rightarrow> 'a list \<Rightarrow> ('a \<Rightarrow> nat) \<times> 'a list" where
  "release [] deg ready = (deg, ready)"
| "release (s # ss) deg ready =
     (let deg' = deg(s := deg s - 1)
      in release ss deg' (if deg' s = 0 then insort s ready else ready))"

fun kahn_loop ::
  "nat \<Rightarrow> ('a::linorder \<Rightarrow> 'a list) \<Rightarrow> ('a \<Rightarrow> nat) \<Rightarrow> 'a list \<Rightarrow> 'a list \<Rightarrow> 'a list option" where
  "kahn_loop fuel succ deg [] emitted = Some emitted"
| "kahn_loop 0 succ deg (r # ready) emitted = None"
| "kahn_loop (Suc fuel) succ deg (r # ready) emitted =
     (let (deg', ready') = release (succ r) deg ready
      in kahn_loop fuel succ deg' ready' (emitted @ [r]))"

text \<open>A group of nodes with their predecessor lists, and the two tables built from it.\<close>

definition succ_of :: "'a list \<Rightarrow> ('a \<Rightarrow> 'a list) \<Rightarrow> 'a \<Rightarrow> 'a list" where
  "succ_of nodes deps p = filter (\<lambda>x. p \<in> set (deps x)) nodes"

definition indegree_of :: "('a \<Rightarrow> 'a list) \<Rightarrow> 'a \<Rightarrow> nat" where
  "indegree_of deps x = length (deps x)"

definition kahn :: "'a::linorder list \<Rightarrow> ('a \<Rightarrow> 'a list) \<Rightarrow> 'a list option" where
  "kahn nodes deps =
     kahn_loop (length nodes) (succ_of nodes deps) (indegree_of deps)
       (foldl (\<lambda>q x. if indegree_of deps x = 0 then insort x q else q) [] nodes) []"

definition dep_edges :: "'a list \<Rightarrow> ('a \<Rightarrow> 'a list) \<Rightarrow> ('a \<times> 'a) set" where
  "dep_edges nodes deps = {(p, x). x \<in> set nodes \<and> p \<in> set (deps x)}"

definition graph_ok :: "'a list \<Rightarrow> ('a \<Rightarrow> 'a list) \<Rightarrow> bool" where
  "graph_ok nodes deps \<longleftrightarrow>
     distinct nodes \<and> (\<forall>x\<in>set nodes. distinct (deps x) \<and> set (deps x) \<subseteq> set nodes)"

section \<open>The loop invariant\<close>

text \<open>Every node of the list comes after all its predecessors.\<close>

definition deps_before :: "('a \<Rightarrow> 'a list) \<Rightarrow> 'a list \<Rightarrow> bool" where
  "deps_before deps xs \<longleftrightarrow> (\<forall>i<length xs. set (deps (xs ! i)) \<subseteq> set (take i xs))"

definition kahn_inv ::
  "'a list \<Rightarrow> ('a \<Rightarrow> 'a list) \<Rightarrow> ('a \<Rightarrow> nat) \<Rightarrow> 'a list \<Rightarrow> 'a list \<Rightarrow> bool" where
  "kahn_inv nodes deps deg ready emitted \<longleftrightarrow>
     distinct (emitted @ ready) \<and> set emitted \<union> set ready \<subseteq> set nodes \<and>
     (\<forall>x\<in>set nodes. deg x = card (set (deps x) - set emitted)) \<and>
     (\<forall>x\<in>set nodes. deg x = 0 \<longleftrightarrow> x \<in> set emitted \<union> set ready) \<and>
     deps_before deps emitted"

lemma release_spec:
  assumes "distinct ss" and "\<forall>s\<in>set ss. deg s > 0" and "release ss deg ready = (deg', ready')"
    and "distinct ready" and "set ss \<inter> set ready = {}"
  shows "(\<forall>x. deg' x = (if x \<in> set ss then deg x - 1 else deg x)) \<and> distinct ready' \<and>
    set ready' = set ready \<union> {x\<in>set ss. deg x = 1}"
  using assms
proof (induction ss deg ready rule: release.induct)
  case (2 s ss deg ready)
  let ?deg = "deg(s := deg s - 1)"
  let ?ready = "if ?deg s = 0 then insort s ready else ready"
  have s: "s \<notin> set ss" "distinct ss" using "2.prems"(1) by auto
  have "release ss ?deg ?ready = (deg', ready')"
    using "2.prems"(3) by (simp add: Let_def)
  moreover have "\<forall>t\<in>set ss. ?deg t > 0" using "2.prems"(2) s by auto
  moreover have "distinct ?ready" using "2.prems"(4,5) by (auto simp: distinct_insort)
  moreover have "set ss \<inter> set ?ready = {}" using "2.prems"(5) s by (auto simp: set_insort_key)
  ultimately have IH: "(\<forall>x. deg' x = (if x \<in> set ss then ?deg x - 1 else ?deg x)) \<and>
      distinct ready' \<and> set ready' = set ?ready \<union> {x\<in>set ss. ?deg x = 1}"
    using "2.IH" [OF refl] s(2) by blast
  moreover have "{x\<in>set ss. ?deg x = 1} = {x\<in>set ss. deg x = 1}" using s by auto
  moreover have "deg s - 1 = 0 \<longleftrightarrow> deg s = 1" using "2.prems"(2) by auto
  ultimately show ?case using s by (auto simp: set_insort_key)
qed auto

lemma deps_before_snoc:
  "deps_before deps xs \<Longrightarrow> set (deps x) \<subseteq> set xs \<Longrightarrow> deps_before deps (xs @ [x])"
  by (auto simp: deps_before_def nth_append less_Suc_eq)

lemma kahn_inv_step:
  assumes ok: "graph_ok nodes deps" and inv: "kahn_inv nodes deps deg (r # ready) emitted"
    and rel: "release (succ_of nodes deps r) deg ready = (deg', ready')"
  shows "kahn_inv nodes deps deg' ready' (emitted @ [r])"
proof -
  let ?ss = "succ_of nodes deps r"
  have r: "r \<in> set nodes" and fin: "r \<notin> set emitted" "r \<notin> set ready" "distinct ready"
    using inv by (auto simp: kahn_inv_def)
  have zeros: "deg x = 0 \<longleftrightarrow> x \<in> set emitted \<union> set (r # ready)" if "x \<in> set nodes" for x
    using inv that unfolding kahn_inv_def by blast
  have r0: "deg r = 0" using zeros [OF r] by simp
  have ss: "distinct ?ss" "set ?ss = {x\<in>set nodes. r \<in> set (deps x)}"
    using ok by (auto simp: succ_of_def graph_ok_def)
  have deg: "deg x = card (set (deps x) - set emitted)" if "x \<in> set nodes" for x
    using inv that by (auto simp: kahn_inv_def)
  have pos: "deg s > 0" if "s \<in> set ?ss" for s
  proof -
    have "r \<in> set (deps s) - set emitted" using that ss fin by auto
    then show ?thesis using deg [of s] that ss by (auto simp: card_gt_0_iff)
  qed
  have "set ?ss \<inter> set ready = {}"
    using zeros pos ss by fastforce
  from release_spec [OF ss(1) _ rel fin(3) this] pos
  have deg': "\<And>x. deg' x = (if x \<in> set ?ss then deg x - 1 else deg x)"
    and rd: "distinct ready'" "set ready' = set ready \<union> {x\<in>set ?ss. deg x = 1}"
    by blast+
  have card': "deg' x = card (set (deps x) - set (emitted @ [r]))" if x: "x \<in> set nodes" for x
  proof (cases "r \<in> set (deps x)")
    case True
    have "set (deps x) - set (emitted @ [r]) = (set (deps x) - set emitted) - {r}" by auto
    with True fin x show ?thesis by (simp add: deg' ss deg)
  next
    case False
    then have "set (deps x) - set (emitted @ [r]) = set (deps x) - set emitted" by auto
    with False x show ?thesis by (simp add: deg' ss deg)
  qed
  have zero: "deg' x = 0 \<longleftrightarrow> x \<in> set (emitted @ [r]) \<union> set ready'" if x: "x \<in> set nodes" for x
  proof -
    note old = zeros [OF x]
    show ?thesis
    proof (cases "x \<in> set ?ss")
      case True
      with pos [OF True] old show ?thesis by (auto simp: deg' rd)
    next
      case False
      with old show ?thesis by (auto simp: deg' rd)
    qed
  qed
  have "set (deps r) - set emitted = {}"
    using deg [OF r] r0 by simp
  then have sub: "set (deps r) \<subseteq> set emitted" by blast
  have "deps_before deps (emitted @ [r])"
    by (rule deps_before_snoc) (use inv sub in \<open>simp_all add: kahn_inv_def\<close>)
  moreover have "distinct ((emitted @ [r]) @ ready')"
  proof -
    have "set ?ss \<inter> set emitted = {}" and "r \<notin> set ?ss"
      using zeros pos ss r0 by fastforce+
    then show ?thesis using inv rd fin by (auto simp: kahn_inv_def)
  qed
  moreover have "set (emitted @ [r]) \<union> set ready' \<subseteq> set nodes"
    using inv ss rd by (auto simp: kahn_inv_def)
  ultimately show ?thesis using card' zero by (simp add: kahn_inv_def)
qed

lemma kahn_loop_result:
  assumes "graph_ok nodes deps" and "kahn_inv nodes deps deg ready emitted"
    and "length nodes \<le> length emitted + fuel"
  shows "\<exists>out deg'. kahn_loop fuel (succ_of nodes deps) deg ready emitted = Some out \<and>
    kahn_inv nodes deps deg' [] out"
  using assms(2,3)
proof (induction fuel "succ_of nodes deps" deg ready emitted rule: kahn_loop.induct)
  case (1 fuel deg emitted)
  then show ?case by auto
next
  case (2 deg r ready emitted)
  then have "distinct (emitted @ r # ready)" "set (emitted @ r # ready) \<subseteq> set nodes"
    by (auto simp: kahn_inv_def)
  then have "length (emitted @ r # ready) \<le> length nodes"
    by (metis card_length card_mono distinct_card finite_set le_trans)
  with 2 show ?case by simp
next
  case (3 fuel deg r ready emitted)
  obtain deg' ready' where rel: "release (succ_of nodes deps r) deg ready = (deg', ready')"
    by fastforce
  note inv = kahn_inv_step [OF assms(1) "3.prems"(1) rel]
  show ?case using "3.hyps" [OF rel [symmetric] refl inv] "3.prems"(2) rel by simp
qed

lemma initial_ready:
  "distinct nodes \<Longrightarrow> distinct q \<Longrightarrow> set q \<inter> set nodes = {} \<Longrightarrow>
   distinct (foldl (\<lambda>q x. if P x then insort x q else q) q nodes) \<and>
   set (foldl (\<lambda>q x. if P x then insort x q else q) q nodes) = set q \<union> {x\<in>set nodes. P x}"
  by (induction nodes arbitrary: q) (auto simp: set_insort_key distinct_insort)

lemma kahn_inv_init:
  assumes "graph_ok nodes deps"
  shows "kahn_inv nodes deps (indegree_of deps)
    (foldl (\<lambda>q x. if indegree_of deps x = 0 then insort x q else q) [] nodes) []"
  using assms initial_ready [of nodes "[]" "\<lambda>x. indegree_of deps x = 0"]
  by (auto simp: kahn_inv_def graph_ok_def deps_before_def indegree_of_def distinct_card)

lemma kahn_terminates:
  assumes "graph_ok nodes deps"
  obtains out deg' where "kahn nodes deps = Some out" "kahn_inv nodes deps deg' [] out"
  using kahn_loop_result [OF assms kahn_inv_init [OF assms], of "length nodes"] that
  by (auto simp: kahn_def)

section \<open>Correctness and completeness\<close>

lemma deps_before_acyclic:
  assumes "deps_before deps xs" and "distinct xs" and "set nodes \<subseteq> set xs"
  shows "acyclic (dep_edges nodes deps)"
proof -
  define pos where "pos x = (THE i. i < length xs \<and> xs ! i = x)" for x
  have pos: "pos (xs ! i) = i" if "i < length xs" for i
    unfolding pos_def using that assms(2) by (auto simp: nth_eq_iff_index_eq)
  have "(p, x) \<in> measure pos" if "(p, x) \<in> dep_edges nodes deps" for p x
  proof -
    from that assms(3) obtain i where i: "i < length xs" "xs ! i = x"
      by (auto simp: dep_edges_def in_set_conv_nth subset_iff)
    with that assms(1) have "p \<in> set (take i xs)"
      by (auto simp: dep_edges_def deps_before_def)
    then obtain j where "j < i" "xs ! j = p" using i(1) by (auto simp: in_set_conv_nth)
    with i pos [of i] pos [of j] show ?thesis by auto
  qed
  then have "dep_edges nodes deps \<subseteq> measure pos" by auto
  then show ?thesis by (meson wf_measure wf_subset wf_acyclic)
qed

lemma kahn_complete_iff_acyclic:
  assumes ok: "graph_ok nodes deps" and out: "kahn nodes deps = Some out"
  shows "length out = length nodes \<longleftrightarrow> acyclic (dep_edges nodes deps)"
proof -
  obtain deg' where inv: "kahn_inv nodes deps deg' [] out"
    using kahn_terminates [OF ok] out by auto
  have d: "distinct nodes" "distinct out" "set out \<subseteq> set nodes" "deps_before deps out"
    using ok inv by (auto simp: graph_ok_def kahn_inv_def)
  have full: "length out = length nodes \<longleftrightarrow> set nodes \<subseteq> set out"
    using d by (metis card_subset_eq distinct_card finite_set order_refl subset_antisym)
  show ?thesis
  proof
    assume "length out = length nodes"
    then show "acyclic (dep_edges nodes deps)"
      using full d deps_before_acyclic by blast
  next
    assume acyc: "acyclic (dep_edges nodes deps)"
    have "dep_edges nodes deps \<subseteq> set nodes \<times> set nodes"
      using ok by (auto simp: dep_edges_def graph_ok_def)
    then have "finite (dep_edges nodes deps)" by (rule finite_subset) simp
    with acyc have wf: "wf (dep_edges nodes deps)" by (simp add: finite_acyclic_wf)
    show "length out = length nodes"
    proof (rule ccontr)
      assume "length out \<noteq> length nodes"
      then have ne: "set nodes - set out \<noteq> {}" using full by auto
      then obtain x where x: "x \<in> set nodes - set out"
        and min: "\<And>p. (p, x) \<in> dep_edges nodes deps \<Longrightarrow> p \<notin> set nodes - set out"
        using wf by (metis wfE_min ex_in_conv)
      have "deg' x \<noteq> 0" using inv x by (auto simp: kahn_inv_def)
      then have "set (deps x) - set out \<noteq> {}" using inv x by (auto simp: kahn_inv_def)
      then obtain p where "p \<in> set (deps x)" "p \<notin> set out" by blast
      then show False using min [of p] x ok by (auto simp: dep_edges_def graph_ok_def)
    qed
  qed
qed

lemma kahn_order:
  assumes "graph_ok nodes deps" and "kahn nodes deps = Some out" and "length out = length nodes"
  shows "distinct out \<and> set out = set nodes \<and> deps_before deps out"
proof -
  obtain deg' where inv: "kahn_inv nodes deps deg' [] out"
    using kahn_terminates [OF assms(1)] assms(2) by auto
  then have "distinct out" "set out \<subseteq> set nodes" "deps_before deps out" "distinct nodes"
    using assms(1) by (auto simp: kahn_inv_def graph_ok_def)
  moreover from this have "set out = set nodes"
    using assms(3) by (metis card_subset_eq distinct_card finite_set)
  ultimately show ?thesis by blast
qed

end
