(* ===== verification/Ruleset.thy ===== *)
theory Ruleset
  imports Feature_Index Optimizer Kahn "HOL-Library.List_Lexorder" "HOL-Library.Char_ord"
begin

text \<open>
  The construction of a rule set (src/rules/ruleset.cpp): subscope extraction, indexing
  by name and namespace, validation of references, the topological order per scope, and
  the match entry point that uses the feature index.  Rule pointers are identified by the
  rule's name, which \<open>index_rules\<close> makes unique; a vector slot of the input may be null.
  Strings are ordered as \<open>std::string\<close> orders them, by unsigned character.
\<close>

section \<open>Subscope extraction\<close>

definition subscope_meta :: "string \<Rightarrow> rule_scope \<Rightarrow> string \<Rightarrow> rule_meta" where
  "subscope_meta syn scope parent =
     \<lparr>meta_name = syn,
      meta_scopes = \<lparr>static_scope = Some scope, dynamic_scope = None\<rparr>,
      meta_namespace = None, meta_authors = [], meta_att_and_ck = [], meta_mbc = [],
      meta_examples = [], meta_references = [], meta_description = None,
      meta_lib = True, meta_is_subscope_rule = True, meta_parent = Some parent,
      meta_source_path = []\<rparr>"

fun extract_subscopes ::
  "string \<Rightarrow> statement \<Rightarrow> nat \<Rightarrow> rule list \<Rightarrow> statement \<times> nat \<times> rule list"
  and extract_children ::
  "string \<Rightarrow> statement option list \<Rightarrow> nat \<Rightarrow> rule list \<Rightarrow> statement option list \<times> nat \<times> rule list"
where
  "extract_subscopes parent (SSubscope scope inner) counter spawned =
     (let syn = parent @ ''/'' @ to_decimal counter;
          (inner', c', spawned') = extract_subscopes syn inner 0 spawned
      in (SFeature (FMatchedRule syn), counter + 1,
          spawned' @ [\<lparr>rule_meta = subscope_meta syn scope parent,
                       rule_statement = inner', rule_definition = []\<rparr>]))"
| "extract_subscopes parent (SAnd cs) counter spawned =
     (let (cs', r) = extract_children parent cs counter spawned in (SAnd cs', r))"
| "extract_subscopes parent (SOr cs) counter spawned =
     (let (cs', r) = extract_children parent cs counter spawned in (SOr cs', r))"
| "extract_subscopes parent (SNot c) counter spawned =
     (let (c', r) = extract_subscopes parent c counter spawned in (SNot c', r))"
| "extract_subscopes parent (SSome n cs) counter spawned =
     (let (cs', r) = extract_children parent cs counter spawned in (SSome n cs', r))"
| "extract_subscopes parent (SRange f lo hi) counter spawned = (SRange f lo hi, counter, spawned)"
| "extract_subscopes parent (SFeature f) counter spawned = (SFeature f, counter, spawned)"
| "extract_children parent [] counter spawned = ([], counter, spawned)"
| "extract_children parent (None # cs) counter spawned =
     (let (cs', r) = extract_children parent cs counter spawned in (None # cs', r))"
| "extract_children parent (Some c # cs) counter spawned =
     (let (c', counter', spawned') = extract_subscopes parent c counter spawned;
          (cs', r) = extract_children parent cs counter' spawned'
      in (Some c' # cs', r))"

fun extract_rules ::
  "rule option list \<Rightarrow> rule list \<Rightarrow> rule option list \<times> rule list" where
  "extract_rules [] spawned = ([], spawned)"
| "extract_rules (None # rs) spawned =
     (let (rs', sp) = extract_rules rs spawned in (None # rs', sp))"
| "extract_rules (Some r # rs) spawned =
     (let (s, c, sp) = extract_subscopes (rule_name r) (rule_statement r) 0 spawned;
          (rs', sp') = extract_rules rs sp
      in (Some (r\<lparr>rule_statement := s\<rparr>) # rs', sp'))"

definition extract_subscope_rules :: "rule option list \<Rightarrow> rule option list" where
  "extract_subscope_rules rs = (let (rs', sp) = extract_rules rs [] in rs' @ map Some sp)"

section \<open>The rule set and its indexes\<close>

text \<open>The rules of a vector of slots, without the null ones.\<close>

definition present :: "rule option list \<Rightarrow> rule list" where
  "present rs = List.map_filter id rs"

lemma present_simps [simp]:
  "present [] = []" "present (None # rs) = present rs" "present (Some r # rs) = r # present rs"
  by (simp_all add: present_def List.map_filter_def)

lemma set_present: "set (present rs) = {r. Some r \<in> set rs}"
  by (force simp: present_def List.map_filter_def)

record ruleset =
  rs_rules :: "rule option list"
  rs_by_name :: "string \<Rightarrow> rule option"
  rs_by_namespace :: "string \<Rightarrow> rule list"
  rs_by_scope_topo :: "rule_scope \<Rightarrow> rule list option"
  rs_index_by_scope :: "rule_scope \<Rightarrow> feature_index option"

definition rs_find :: "ruleset \<Rightarrow> string \<Rightarrow> rule option" where
  "rs_find rs n = rs_by_name rs n"

definition rules_by_scope :: "ruleset \<Rightarrow> rule_scope \<Rightarrow> rule list" where
  "rules_by_scope rs s = (case rs_by_scope_topo rs s of None \<Rightarrow> [] | Some l \<Rightarrow> l)"

definition rules_in_namespace :: "ruleset \<Rightarrow> string \<Rightarrow> rule list" where
  "rules_in_namespace rs ns = rs_by_namespace rs ns"

definition register_namespaces ::
  "rule \<Rightarrow> (string \<Rightarrow> rule list) \<Rightarrow> (string \<Rightarrow> rule list)" where
  "register_namespaces r m = foldl (\<lambda>m ns. m(ns := m ns @ [r])) m (namespace_hierarchy r)"

fun index_loop ::
  "rule option list \<Rightarrow> (string \<Rightarrow> rule option) \<Rightarrow> (string \<Rightarrow> rule list)
     \<Rightarrow> ((string \<Rightarrow> rule option) \<times> (string \<Rightarrow> rule list)) expected" where
  "index_loop [] by_name by_ns = Inr (by_name, by_ns)"
| "index_loop (None # rs) by_name by_ns = index_loop rs by_name by_ns"
| "index_loop (Some r # rs) by_name by_ns =
     (if rule_name r = [] then
        Inl (Papa_Error kInvalidRule ''encountered rule with empty name'')
      else if by_name (rule_name r) \<noteq> None then
        Inl (Papa_Error kInvalidRule (''duplicate rule name: '' @ rule_name r))
      else index_loop rs (by_name(rule_name r := Some r)) (register_namespaces r by_ns))"

definition index_rules :: "ruleset \<Rightarrow> ruleset expected" where
  "index_rules rs =
     sbind (index_loop (rs_rules rs) (\<lambda>_. None) (\<lambda>_. [])) (\<lambda>(by_name, by_ns).
       Inr (rs\<lparr>rs_by_name := by_name, rs_by_namespace := by_ns\<rparr>))"

definition ref_resolves :: "ruleset \<Rightarrow> string \<Rightarrow> bool" where
  "ref_resolves rs ref \<longleftrightarrow> rs_by_name rs ref \<noteq> None \<or> rs_by_namespace rs ref \<noteq> []"

definition keeps_rule :: "ruleset \<Rightarrow> rule \<Rightarrow> bool" where
  "keeps_rule rs r = list_all (ref_resolves rs) (collect_match_refs (rule_statement r))"

definition validate_dependencies :: "ruleset \<Rightarrow> ruleset expected" where
  "validate_dependencies rs =
     index_rules (rs\<lparr>rs_rules :=
       filter (\<lambda>r. case r of None \<Rightarrow> False | Some r \<Rightarrow> keeps_rule rs r) (rs_rules rs)\<rparr>)"

section \<open>Topological order\<close>

definition resolve_ref :: "ruleset \<Rightarrow> string \<Rightarrow> string list" where
  "resolve_ref rs ref =
     (case rs_by_name rs ref of Some r \<Rightarrow> [rule_name r]
      | None \<Rightarrow> map (\<lambda>r. rule_name r) (rs_by_namespace rs ref))"

definition scope_group :: "ruleset \<Rightarrow> rule_scope \<Rightarrow> rule list" where
  "scope_group rs s =
     sort_key (\<lambda>r. rule_name r)
       (filter (\<lambda>r. rule_scope_of r = s) (present (rs_rules rs)))"

text \<open>The distinct rules of the grp that a rule refers to, itself excluded.\<close>

definition rule_deps :: "ruleset \<Rightarrow> rule list \<Rightarrow> rule \<Rightarrow> string list" where
  "rule_deps rs grp r =
     remdups (filter (\<lambda>d. d \<noteq> rule_name r \<and> d \<in> set (map (\<lambda>r. rule_name r) grp))
       (concat (map (resolve_ref rs) (collect_match_refs (rule_statement r)))))"

definition rule_named :: "rule list \<Rightarrow> string \<Rightarrow> rule option" where
  "rule_named grp n = find (\<lambda>r. rule_name r = n) grp"

definition name_deps :: "ruleset \<Rightarrow> rule list \<Rightarrow> string \<Rightarrow> string list" where
  "name_deps rs grp n =
     (case rule_named grp n of None \<Rightarrow> [] | Some r \<Rightarrow> rule_deps rs grp r)"

definition sort_scope :: "ruleset \<Rightarrow> rule_scope \<Rightarrow> rule list expected" where
  "sort_scope rs s =
     (let grp = scope_group rs s;
          names = map (\<lambda>r. rule_name r) grp
      in case kahn names (name_deps rs grp) of
           None \<Rightarrow> Inl (Papa_Error kCycle ''out of fuel'')
         | Some order \<Rightarrow>
             if length order \<noteq> length grp
             then Inl (Papa_Error kCycle (''dependency cycle in scope: '' @ scope_to_string s))
             else Inr (List.map_filter (rule_named grp) order))"

definition all_scopes :: "rule_scope list" where
  "all_scopes = [kFile, kFunction, kBasicBlockScope, kInstruction, kGlobal, kProcess,
     kThread, kCall, kSpanOfCalls]"

text \<open>Only scopes that have a rule get an entry; the others are not in the grouping.\<close>

fun sort_scopes ::
  "ruleset \<Rightarrow> rule_scope list \<Rightarrow> (rule_scope \<Rightarrow> rule list option)
     \<Rightarrow> (rule_scope \<Rightarrow> rule list option) expected" where
  "sort_scopes rs [] m = Inr m"
| "sort_scopes rs (s # ss) m =
     (if scope_group rs s = [] then sort_scopes rs ss m
      else sbind (sort_scope rs s) (\<lambda>order. sort_scopes rs ss (m(s := Some order))))"

definition topologically_sort :: "ruleset \<Rightarrow> ruleset expected" where
  "topologically_sort rs =
     sbind (sort_scopes rs all_scopes (\<lambda>_. None)) (\<lambda>m. Inr (rs\<lparr>rs_by_scope_topo := m\<rparr>))"

section \<open>Construction and matching\<close>

fun optimize_rules :: "rule option list \<Rightarrow> rule option list expected" where
  "optimize_rules [] = Inr []"
| "optimize_rules (None # rs) = sbind (optimize_rules rs) (\<lambda>rs'. Inr (None # rs'))"
| "optimize_rules (Some r # rs) =
     sbind (optimize (rule_statement r)) (\<lambda>s.
       sbind (optimize_rules rs) (\<lambda>rs'. Inr (Some (r\<lparr>rule_statement := s\<rparr>) # rs')))"

definition unsorted_ruleset :: "rule option list \<Rightarrow> ruleset" where
  "unsorted_ruleset rs = \<lparr>rs_rules = rs, rs_by_name = (\<lambda>_. None), rs_by_namespace = (\<lambda>_. []),
     rs_by_scope_topo = (\<lambda>_. None), rs_index_by_scope = (\<lambda>_. None)\<rparr>"

definition from_rules :: "rule option list \<Rightarrow> ruleset expected" where
  "from_rules rules =
     sbind (optimize_rules (extract_subscope_rules rules)) (\<lambda>opt.
     sbind (index_rules (unsorted_ruleset opt)) (\<lambda>rs1.
     sbind (validate_dependencies rs1) (\<lambda>rs2.
     sbind (topologically_sort rs2) (\<lambda>rs3.
       Inr (rs3\<lparr>rs_index_by_scope :=
         (\<lambda>s. map_option build_index (rs_by_scope_topo rs3 s))\<rparr>)))))"

definition ruleset_match ::
  "regex_engine \<Rightarrow> ruleset \<Rightarrow> rule_scope \<Rightarrow> feature_set \<Rightarrow> address
     \<Rightarrow> (feature_set \<times> match_results) expected" where
  "ruleset_match rx rs scope fs a =
     (case rs_index_by_scope rs scope of
        None \<Rightarrow> engine_match rx (map Some (rules_by_scope rs scope)) fs a
      | Some ix \<Rightarrow> engine_match rx (map Some (select_rules ix fs)) fs a)"

section \<open>Extraction leaves no subscope\<close>

lemma extract_no_subscope:
  "extract_subscopes p s c sp = (s', c', sp') \<Longrightarrow>
     no_subscope s' \<and> (\<forall>r\<in>set sp'. r \<in> set sp \<or> no_subscope (rule_statement r))"
  "extract_children p cs c sp = (cs', c', sp') \<Longrightarrow>
     list_all (\<lambda>c. case c of None \<Rightarrow> True | Some s \<Rightarrow> no_subscope s) cs' \<and>
     (\<forall>r\<in>set sp'. r \<in> set sp \<or> no_subscope (rule_statement r))"
proof (induction p s c sp and p cs c sp arbitrary: s' c' sp' and cs' c' sp'
    rule: extract_subscopes_extract_children.induct)
  case (1 parent scope inner counter spawned)
  then show ?case by (fastforce simp: Let_def split: prod.splits)
next
  case (10 parent c cs counter spawned)
  then show ?case by (fastforce simp: Let_def split: prod.splits)
qed (fastforce simp: Let_def split: prod.splits)+

lemma extract_rules_no_subscope:
  "extract_rules rs sp = (rs', sp') \<Longrightarrow> \<forall>r\<in>set sp. no_subscope (rule_statement r) \<Longrightarrow>
     (\<forall>r. Some r \<in> set rs' \<longrightarrow> no_subscope (rule_statement r)) \<and>
     (\<forall>r\<in>set sp'. no_subscope (rule_statement r))"
proof (induction rs sp arbitrary: rs' sp' rule: extract_rules.induct)
  case (3 r rs sp)
  obtain s c sp1 where e: "extract_subscopes (rule_name r) (rule_statement r) 0 sp = (s, c, sp1)"
    by (metis prod_cases3)
  obtain rs1 sp2 where rest: "extract_rules rs sp1 = (rs1, sp2)" by fastforce
  have "no_subscope s" and "\<forall>r\<in>set sp1. no_subscope (rule_statement r)"
    using extract_no_subscope(1) [OF e] "3.prems"(2) by auto
  with "3.IH" [OF e [symmetric] refl refl rest] "3.prems"(1) e rest show ?case
    by auto
qed (auto simp: Let_def split: prod.splits)

lemma extract_subscope_rules_no_subscope:
  "Some r \<in> set (extract_subscope_rules rs) \<Longrightarrow> no_subscope (rule_statement r)"
  using extract_rules_no_subscope [of rs "[]"]
  by (cases "extract_rules rs []") (auto simp: extract_subscope_rules_def)

lemma optimize_rules_no_subscope:
  "optimize_rules rs = Inr rs' \<Longrightarrow> \<forall>r. Some r \<in> set rs \<longrightarrow> no_subscope (rule_statement r) \<Longrightarrow>
     Some r \<in> set rs' \<Longrightarrow> no_subscope (rule_statement r)"
  by (induction rs arbitrary: rs' rule: optimize_rules.induct)
    (auto simp: optimize_no_subscope)

section \<open>The indexes\<close>

lemma register_namespaces_apply:
  "register_namespaces r m ns = m ns @ (if ns \<in> set (namespace_hierarchy r) then [r] else [])"
proof -
  have "foldl (\<lambda>m ns. m(ns := m ns @ [r])) m nss ns =
      m ns @ (if ns \<in> set nss then [r] else [])" if "distinct nss" for nss m
    using that by (induction nss arbitrary: m) auto
  then show ?thesis
    by (simp add: register_namespaces_def namespace_hierarchy_distinct)
qed

lemma index_loop_result:
  "index_loop rs m ns = Inr (m', ns') \<Longrightarrow>
     (\<forall>r\<in>set (present rs). rule_name r \<noteq> [] \<and> m (rule_name r) = None) \<and>
     distinct (map (\<lambda>r. rule_name r) (present rs)) \<and>
     (\<forall>n. m' n = (case find (\<lambda>r. rule_name r = n) (present rs) of None \<Rightarrow> m n | Some r \<Rightarrow> Some r)) \<and>
     (\<forall>x. ns' x = ns x @ filter (\<lambda>r. x \<in> set (namespace_hierarchy r)) (present rs))"
proof (induction rs m ns rule: index_loop.induct)
  case (3 r rs m ns)
  then have new: "rule_name r \<noteq> []" "m (rule_name r) = None"
    and rest: "index_loop rs (m(rule_name r := Some r)) (register_namespaces r ns) = Inr (m', ns')"
    by (auto split: if_split_asm)
  have IH: "\<forall>q\<in>set (present rs). rule_name q \<noteq> [] \<and> (m(rule_name r := Some r)) (rule_name q) = None"
    "distinct (map (\<lambda>r. rule_name r) (present rs))"
    "\<forall>n. m' n = (case find (\<lambda>r. rule_name r = n) (present rs) of
        None \<Rightarrow> (m(rule_name r := Some r)) n | Some q \<Rightarrow> Some q)"
    "\<forall>x. ns' x = register_namespaces r ns x @
        filter (\<lambda>r. x \<in> set (namespace_hierarchy r)) (present rs)"
    using "3.IH" new rest by blast+
  have other: "rule_name q \<noteq> rule_name r \<and> m (rule_name q) = None" if "q \<in> set (present rs)" for q
    using IH(1) that by (auto split: if_split_asm)
  then have "find (\<lambda>q. rule_name q = rule_name r) (present rs) = None"
    by (metis (mono_tags, lifting) find_None_iff)
  then have "m' n = (case find (\<lambda>r. rule_name r = n) (r # present rs) of
      None \<Rightarrow> m n | Some q \<Rightarrow> Some q)" for n
    using IH(3) by (cases "rule_name r = n") (auto split: option.splits)
  moreover have "ns' x = ns x @ filter (\<lambda>r. x \<in> set (namespace_hierarchy r)) (r # present rs)" for x
    using IH(4) by (simp add: register_namespaces_apply)
  moreover have "distinct (map (\<lambda>r. rule_name r) (r # present rs))"
    using IH(2) other by simp (metis (no_types, lifting) imageE)
  ultimately show ?case
    using IH(1) new other by simp
qed auto

lemma find_distinct:
  "distinct (map f xs) \<Longrightarrow> find (\<lambda>x. f x = n) xs = Some x \<longleftrightarrow> x \<in> set xs \<and> f x = n"
  by (induction xs) auto

text \<open>What \<open>index_rules\<close> guarantees about the two lookup tables.\<close>

definition indexed :: "ruleset \<Rightarrow> bool" where
  "indexed rs \<longleftrightarrow>
     (\<forall>r\<in>set (present (rs_rules rs)). rule_name r \<noteq> []) \<and>
     distinct (map (\<lambda>r. rule_name r) (present (rs_rules rs))) \<and>
     (\<forall>n r. rs_by_name rs n = Some r \<longleftrightarrow> r \<in> set (present (rs_rules rs)) \<and> rule_name r = n) \<and>
     (\<forall>x. rs_by_namespace rs x =
        filter (\<lambda>r. x \<in> set (namespace_hierarchy r)) (present (rs_rules rs)))"

lemma index_rules_indexed:
  assumes "index_rules rs = Inr rs'"
  shows "indexed rs' \<and> rs_rules rs' = rs_rules rs"
proof -
  from assms obtain m ns where l: "index_loop (rs_rules rs) (\<lambda>_. None) (\<lambda>_. []) = Inr (m, ns)"
    and rs': "rs' = rs\<lparr>rs_by_name := m, rs_by_namespace := ns\<rparr>"
    by (auto simp: index_rules_def)
  note res = index_loop_result [OF l]
  have "m n = find (\<lambda>r. rule_name r = n) (present (rs_rules rs))" for n
    using res by (auto split: option.splits)
  then show ?thesis
    using res by (simp add: indexed_def rs' find_distinct)
qed

section \<open>The topological order\<close>

text \<open>
  \<open>refers rs r d\<close>: rule \<open>r\<close> has a match reference that resolves to rule \<open>d\<close>, by name first,
  else by namespace.
\<close>

definition refers :: "ruleset \<Rightarrow> rule \<Rightarrow> rule \<Rightarrow> bool" where
  "refers rs r d \<longleftrightarrow> (\<exists>ref\<in>set (collect_match_refs (rule_statement r)).
     case rs_by_name rs ref of Some q \<Rightarrow> q = d | None \<Rightarrow> d \<in> set (rs_by_namespace rs ref))"

lemma rule_name_inj:
  "indexed rs \<Longrightarrow> Some r \<in> set (rs_rules rs) \<Longrightarrow> Some d \<in> set (rs_rules rs) \<Longrightarrow>
     rule_name r = rule_name d \<Longrightarrow> r = d"
  unfolding indexed_def by (metis option.inject set_present mem_Collect_eq)

lemma set_scope_group:
  "set (scope_group rs s) = {r. Some r \<in> set (rs_rules rs) \<and> rule_scope_of r = s}"
  by (auto simp: scope_group_def set_present)

lemma distinct_scope_group:
  assumes "indexed rs"
  shows "distinct (map (\<lambda>r. rule_name r) (scope_group rs s))"
proof -
  have "distinct (map (\<lambda>r. rule_name r) (filter (\<lambda>r. rule_scope_of r = s) (present (rs_rules rs))))"
    using assms by (simp add: indexed_def distinct_map_filter)
  moreover have "mset (map (\<lambda>r. rule_name r) (scope_group rs s)) =
      mset (map (\<lambda>r. rule_name r) (filter (\<lambda>r. rule_scope_of r = s) (present (rs_rules rs))))"
    by (simp add: scope_group_def)
  ultimately show ?thesis by (metis mset_eq_imp_distinct_iff)
qed

lemma rule_named_iff:
  assumes "indexed rs"
  shows "rule_named (scope_group rs s) n = Some r \<longleftrightarrow> r \<in> set (scope_group rs s) \<and> rule_name r = n"
  unfolding rule_named_def by (rule find_distinct) (rule distinct_scope_group [OF assms])

lemma scope_graph_ok:
  assumes "indexed rs"
  shows "graph_ok (map (\<lambda>r. rule_name r) (scope_group rs s)) (name_deps rs (scope_group rs s))"
  using distinct_scope_group [OF assms]
  by (auto simp: graph_ok_def name_deps_def rule_deps_def split: option.splits)

lemma refers_dep:
  assumes "indexed rs" and "r \<in> set (scope_group rs s)" and "d \<in> set (scope_group rs s)" and "r \<noteq> d"
  shows "rule_name d \<in> set (name_deps rs (scope_group rs s) (rule_name r)) \<longleftrightarrow> refers rs r d"
proof -
  have named: "rule_named (scope_group rs s) (rule_name r) = Some r"
    using assms by (simp add: rule_named_iff)
  have in_rules: "Some r \<in> set (rs_rules rs)" "Some d \<in> set (rs_rules rs)"
    using assms by (auto simp: set_scope_group)
  have ne: "rule_name d \<noteq> rule_name r"
    using rule_name_inj [OF assms(1) in_rules] assms(4) by auto
  have "rule_name d \<in> set (resolve_ref rs ref) \<longleftrightarrow>
      (case rs_by_name rs ref of Some q \<Rightarrow> q = d | None \<Rightarrow> d \<in> set (rs_by_namespace rs ref))" for ref
  proof (cases "rs_by_name rs ref")
    case None
    have "q = d" if "q \<in> set (rs_by_namespace rs ref)" "rule_name q = rule_name d" for q
      using that assms(1) rule_name_inj [OF assms(1) _ in_rules(2)] by (auto simp: indexed_def set_present)
    with None show ?thesis by (auto simp: resolve_ref_def image_iff)
  next
    case (Some q)
    then have "Some q \<in> set (rs_rules rs)" using assms(1) by (auto simp: indexed_def set_present)
    with Some show ?thesis using rule_name_inj [OF assms(1) _ in_rules(2)]
      by (auto simp: resolve_ref_def)
  qed
  with ne assms(3) named show ?thesis
    by (auto simp: name_deps_def rule_deps_def refers_def)
qed

text \<open>The edges from a rule to the rules of its scope that refer to it.\<close>

definition scope_edges :: "ruleset \<Rightarrow> rule_scope \<Rightarrow> (rule \<times> rule) set" where
  "scope_edges rs s = {(d, r). d \<in> set (scope_group rs s) \<and> r \<in> set (scope_group rs s) \<and>
     d \<noteq> r \<and> refers rs r d}"

lemma acyclic_image:
  assumes "finite R" and "R \<subseteq> S \<times> S" and "inj_on f S"
  shows "acyclic (map_prod f f ` R) \<longleftrightarrow> acyclic R"
proof
  assume "acyclic (map_prod f f ` R)"
  then have "wf (inv_image (map_prod f f ` R) f)"
    using assms(1) by (simp add: finite_acyclic_wf wf_inv_image)
  moreover have "R \<subseteq> inv_image (map_prod f f ` R) f" by (auto simp: map_prod_def)
  ultimately show "acyclic R" by (meson wf_acyclic wf_subset)
next
  assume "acyclic R"
  then have "wf (inv_image R (the_inv_into S f))"
    using assms(1) by (simp add: finite_acyclic_wf wf_inv_image)
  moreover have "map_prod f f ` R \<subseteq> inv_image R (the_inv_into S f)"
    using assms(2,3) by (auto simp: the_inv_into_f_f)
  ultimately show "acyclic (map_prod f f ` R)" by (meson wf_acyclic wf_subset)
qed

lemma scope_edges_names:
  assumes "indexed rs"
  shows "dep_edges (map (\<lambda>r. rule_name r) (scope_group rs s)) (name_deps rs (scope_group rs s)) =
    map_prod (\<lambda>r. rule_name r) (\<lambda>r. rule_name r) ` scope_edges rs s"
proof -
  note ok = scope_graph_ok [OF assms, of s]
  have self: "n \<notin> set (name_deps rs (scope_group rs s) n)" for n
  proof (cases "rule_named (scope_group rs s) n")
    case (Some q)
    then have "rule_name q = n" using rule_named_iff [OF assms] by blast
    with Some show ?thesis by (simp add: name_deps_def rule_deps_def)
  qed (simp add: name_deps_def)
  have "(p, x) \<in> dep_edges (map (\<lambda>r. rule_name r) (scope_group rs s)) (name_deps rs (scope_group rs s))
      \<longleftrightarrow> (\<exists>d r. (d, r) \<in> scope_edges rs s \<and> p = rule_name d \<and> x = rule_name r)" (is "?L \<longleftrightarrow> ?R") for p x
  proof
    assume ?L
    then obtain r d where rd: "r \<in> set (scope_group rs s)" "x = rule_name r"
        "d \<in> set (scope_group rs s)" "p = rule_name d" "p \<in> set (name_deps rs (scope_group rs s) x)"
      using ok unfolding dep_edges_def graph_ok_def by (fastforce dest: subsetD)
    moreover from rd self have "r \<noteq> d" by auto
    ultimately show ?R using refers_dep [OF assms, of r s d] by (auto simp: scope_edges_def)
  next
    assume ?R
    then show ?L using refers_dep [OF assms] by (auto simp: scope_edges_def dep_edges_def)
  qed
  then show ?thesis unfolding map_prod_def by (auto simp: image_def split_def) (metis fst_conv snd_conv)+
qed

lemma sort_scope_kahn:
  assumes "indexed rs"
  obtains out where
    "kahn (map (\<lambda>r. rule_name r) (scope_group rs s)) (name_deps rs (scope_group rs s)) = Some out"
    "length out = length (scope_group rs s) \<longleftrightarrow> acyclic (scope_edges rs s)"
proof -
  let ?g = "scope_group rs s"
  note ok = scope_graph_ok [OF assms, of s]
  obtain out where out: "kahn (map (\<lambda>r. rule_name r) ?g) (name_deps rs ?g) = Some out"
    using kahn_terminates [OF ok] by metis
  have "inj_on (\<lambda>r. rule_name r) (set ?g)"
    using distinct_scope_group [OF assms, of s] by (simp add: distinct_map)
  moreover have "scope_edges rs s \<subseteq> set ?g \<times> set ?g" by (auto simp: scope_edges_def)
  moreover from this have "finite (scope_edges rs s)" by (rule finite_subset) simp
  ultimately have "acyclic (map_prod (\<lambda>r. rule_name r) (\<lambda>r. rule_name r) ` scope_edges rs s)
      \<longleftrightarrow> acyclic (scope_edges rs s)" using acyclic_image by blast
  with kahn_complete_iff_acyclic [OF ok out] scope_edges_names [OF assms, of s] out that
  show ?thesis by auto
qed

lemma sort_scope_fails_iff:
  assumes "indexed rs"
  shows "(\<exists>e. sort_scope rs s = Inl e) \<longleftrightarrow> \<not> acyclic (scope_edges rs s)"
  by (rule sort_scope_kahn [OF assms, of s]) (auto simp: sort_scope_def Let_def)

lemma inj_on_mem: "inj_on f S \<Longrightarrow> A \<subseteq> S \<Longrightarrow> x \<in> S \<Longrightarrow> f x \<in> f ` A \<longleftrightarrow> x \<in> A"
  by (rule inj_on_image_mem_iff)

lemma map_filter_names:
  "\<forall>n\<in>set xs. \<exists>r\<in>G. g n = Some r \<and> f r = n \<Longrightarrow>
     map f (List.map_filter g xs) = xs \<and> set (List.map_filter g xs) \<subseteq> G"
  by (induction xs) (auto simp: List.map_filter_def)

lemma sort_scope_order:
  assumes idx: "indexed rs" and l: "sort_scope rs s = Inr l"
  shows "distinct l \<and> set l = set (scope_group rs s) \<and>
    (\<forall>i<length l. \<forall>d\<in>set l. refers rs (l ! i) d \<and> d \<noteq> l ! i \<longrightarrow> d \<in> set (take i l))"
proof -
  define g where "g = scope_group rs s"
  define f where "f = (\<lambda>r. rule_name r)"
  obtain out where out: "kahn (map f g) (name_deps rs g) = Some out"
    using sort_scope_kahn [OF idx, of s] unfolding g_def f_def by metis
  with l have len: "length out = length (map f g)" and l': "l = List.map_filter (rule_named g) out"
    by (simp_all add: sort_scope_def Let_def g_def [symmetric] f_def [symmetric] split: if_split_asm)
  have inj: "inj_on f (set g)" and dg: "distinct (map f g)"
    using distinct_scope_group [OF idx, of s] by (simp_all add: distinct_map f_def g_def)
  have ok: "graph_ok (map f g) (name_deps rs g)"
    using scope_graph_ok [OF idx, of s] by (simp add: f_def g_def)
  from kahn_order [OF ok out len]
  have ord: "distinct out" "set out = f ` set g" "deps_before (name_deps rs g) out" by auto
  have "\<forall>n\<in>set out. \<exists>r\<in>set g. rule_named g n = Some r \<and> f r = n"
    using ord(2) by (auto simp: rule_named_iff [OF idx] g_def f_def)
  from map_filter_names [OF this] have names: "map f l = out" and sub: "set l \<subseteq> set g"
    by (simp_all add: l')
  have dl: "distinct l" using ord(1) names by (metis distinct_map)
  have "f ` set l = f ` set g" using names ord(2) by (metis list.set_map)
  then have sl: "set l = set g" using inj sub by (simp add: inj_on_image_eq_iff)
  have "d \<in> set (take i l)" if i: "i < length l" and d: "d \<in> set l" "refers rs (l ! i) d" "d \<noteq> l ! i" for i d
  proof -
    have li: "l ! i \<in> set g" using i sl nth_mem by blast
    then have "f d \<in> set (name_deps rs g (f (l ! i)))"
      using refers_dep [OF idx, of "l ! i" s d] d sl by (simp add: g_def f_def)
    then have "f d \<in> set (take i (map f l))"
      using ord(3) i names by (metis (no_types, lifting) deps_before_def length_map nth_map subsetD)
    then have "f d \<in> f ` set (take i l)" by (simp add: take_map)
    moreover have "set (take i l) \<subseteq> set g" using sub by (meson in_set_takeD subset_iff)
    ultimately show ?thesis using inj_on_mem [OF inj] d(1) sub by blast
  qed
  with dl sl show ?thesis by (auto simp: g_def)
qed

section \<open>The finished rule set\<close>

lemma sort_scopes_result:
  "sort_scopes rs ss m = Inr m' \<Longrightarrow>
     if s \<in> set ss \<and> scope_group rs s \<noteq> [] then \<exists>l. sort_scope rs s = Inr l \<and> m' s = Some l
     else m' s = m s"
  by (induction rs ss m rule: sort_scopes.induct) (auto split: if_split_asm)

lemma in_all_scopes [simp]: "s \<in> set all_scopes"
  by (cases s) (simp_all add: all_scopes_def)

lemma refers_topo [simp]:
  "refers (rs\<lparr>rs_by_scope_topo := m\<rparr>) = refers rs" "refers (rs\<lparr>rs_index_by_scope := x\<rparr>) = refers rs"
  by (simp_all add: refers_def fun_eq_iff cong: option.case_cong)

lemma indexed_topo [simp]:
  "indexed (rs\<lparr>rs_by_scope_topo := m\<rparr>) = indexed rs" "indexed (rs\<lparr>rs_index_by_scope := x\<rparr>) = indexed rs"
  by (simp_all add: indexed_def)

lemma from_rules_stages:
  assumes "from_rules rules = Inr rs"
  obtains rs2 m where "indexed rs2"
    "\<And>r. Some r \<in> set (rs_rules rs2) \<Longrightarrow> no_subscope (rule_statement r)"
    "sort_scopes rs2 all_scopes (\<lambda>_. None) = Inr m"
    "rs = rs2\<lparr>rs_by_scope_topo := m, rs_index_by_scope := (\<lambda>s. map_option build_index (m s))\<rparr>"
proof -
  from assms obtain opt rs1 rs2 m where opt: "optimize_rules (extract_subscope_rules rules) = Inr opt"
    and rs1: "index_rules (unsorted_ruleset opt) = Inr rs1"
    and rs2: "validate_dependencies rs1 = Inr rs2"
    and m: "sort_scopes rs2 all_scopes (\<lambda>_. None) = Inr m"
    and rs: "rs = rs2\<lparr>rs_by_scope_topo := m, rs_index_by_scope := (\<lambda>s. map_option build_index (m s))\<rparr>"
    by (auto simp: from_rules_def topologically_sort_def)
  have "indexed rs2" using rs2 index_rules_indexed by (auto simp: validate_dependencies_def)
  moreover have "set (rs_rules rs2) \<subseteq> set opt"
    using index_rules_indexed [OF rs1] rs2 index_rules_indexed
    by (fastforce simp: validate_dependencies_def unsorted_ruleset_def)
  then have "no_subscope (rule_statement r)" if "Some r \<in> set (rs_rules rs2)" for r
    using optimize_rules_no_subscope [OF opt] extract_subscope_rules_no_subscope that by blast
  ultimately show ?thesis using m rs that by blast
qed

lemma from_rules_indexed:
  assumes "from_rules rules = Inr rs"
  shows "indexed rs" "\<forall>r\<in>set (present (rs_rules rs)). no_subscope (rule_statement r)"
proof -
  from from_rules_stages [OF assms] obtain rs2 m where "indexed rs2"
    "\<And>r. Some r \<in> set (rs_rules rs2) \<Longrightarrow> no_subscope (rule_statement r)"
    "rs = rs2\<lparr>rs_by_scope_topo := m, rs_index_by_scope := (\<lambda>s. map_option build_index (m s))\<rparr>"
    by metis
  then show "indexed rs" "\<forall>r\<in>set (present (rs_rules rs)). no_subscope (rule_statement r)"
    by (auto simp: set_present)
qed

text \<open>
  C6: in a rule set built by \<open>from_rules\<close> no rule contains a subscope statement, no rule has
  an empty name, names are unique, \<open>find\<close> returns exactly the rule of that name, and a
  namespace lists, in load order, exactly the rules whose namespace hierarchy contains it.
\<close>

theorem from_rules_tables:
  assumes "from_rules rules = Inr rs"
  shows "(\<forall>r\<in>set (present (rs_rules rs)). no_subscope (rule_statement r) \<and> rule_name r \<noteq> []) \<and>
    distinct (map (\<lambda>r. rule_name r) (present (rs_rules rs))) \<and>
    (\<forall>n r. rs_find rs n = Some r \<longleftrightarrow> r \<in> set (present (rs_rules rs)) \<and> rule_name r = n) \<and>
    (\<forall>ns. rules_in_namespace rs ns =
      filter (\<lambda>r. ns \<in> set (namespace_hierarchy r)) (present (rs_rules rs)))"
  using from_rules_indexed [OF assms]
  by (simp add: indexed_def rs_find_def rules_in_namespace_def)

lemma rules_by_scope_order:
  assumes "from_rules rules = Inr rs"
  shows "distinct (rules_by_scope rs s) \<and>
    set (rules_by_scope rs s) = {r\<in>set (present (rs_rules rs)). rule_scope_of r = s} \<and>
    (\<forall>i<length (rules_by_scope rs s). \<forall>d\<in>set (rules_by_scope rs s).
       refers rs (rules_by_scope rs s ! i) d \<and> d \<noteq> rules_by_scope rs s ! i \<longrightarrow>
       d \<in> set (take i (rules_by_scope rs s)))"
proof -
  from from_rules_stages [OF assms] obtain rs2 m where idx: "indexed rs2"
    and m: "sort_scopes rs2 all_scopes (\<lambda>_. None) = Inr m"
    and rs: "rs = rs2\<lparr>rs_by_scope_topo := m, rs_index_by_scope := (\<lambda>s. map_option build_index (m s))\<rparr>"
    by metis
  show ?thesis
  proof (cases "scope_group rs2 s = []")
    case True
    then have "m s = None" using sort_scopes_result [OF m, of s] by simp
    moreover have "{r. Some r \<in> set (rs_rules rs2) \<and> rule_scope_of r = s} = {}"
      using True set_scope_group [of rs2 s] by simp
    ultimately show ?thesis by (simp add: rules_by_scope_def rs set_present)
  next
    case False
    then obtain l where "sort_scope rs2 s = Inr l" "m s = Some l"
      using sort_scopes_result [OF m, of s] by auto
    with sort_scope_order [OF idx this(1)] show ?thesis
      by (simp add: rules_by_scope_def rs set_scope_group set_present)
  qed
qed

text \<open>
  C3: \<open>rules_by_scope\<close> of a built rule set lists exactly the rules of the scope, each once,
  and every rule after all the rules of the scope its match references resolve to (a
  reference of a rule to itself aside), so that one pass in this order sees every match
  feature a rule depends on.
\<close>

theorem from_rules_topological:
  assumes "from_rules rules = Inr rs"
  shows "distinct (rules_by_scope rs s) \<and>
    set (rules_by_scope rs s) = {r\<in>set (present (rs_rules rs)). rule_scope_of r = s} \<and>
    (\<forall>i<length (rules_by_scope rs s). \<forall>d\<in>set (rules_by_scope rs s).
       refers rs (rules_by_scope rs s ! i) d \<and> d \<noteq> rules_by_scope rs s ! i \<longrightarrow>
       d \<in> set (take i (rules_by_scope rs s)))"
  using assms by (rule rules_by_scope_order)

text \<open>
  C5: sorting a scope of an indexed rule set fails exactly when the references among the
  rules of that scope form a cycle.
\<close>

theorem sort_scope_cycle:
  assumes "index_rules rs0 = Inr rs"
  shows "(\<exists>e. sort_scope rs s = Inl e) \<longleftrightarrow> \<not> acyclic (scope_edges rs s)"
  using sort_scope_fails_iff index_rules_indexed [OF assms] by blast

lemma ruleset_match_engine:
  assumes "from_rules rules = Inr rs"
  shows "ruleset_match rx rs s fs a = engine_match rx (map Some (rules_by_scope rs s)) fs a"
proof -
  from from_rules_stages [OF assms] obtain rs2 m where idx: "indexed rs2"
    and ns: "\<And>r. Some r \<in> set (rs_rules rs2) \<Longrightarrow> no_subscope (rule_statement r)"
    and m: "sort_scopes rs2 all_scopes (\<lambda>_. None) = Inr m"
    and rs: "rs = rs2\<lparr>rs_by_scope_topo := m, rs_index_by_scope := (\<lambda>s. map_option build_index (m s))\<rparr>"
    by metis
  show ?thesis
  proof (cases "m s")
    case (Some l)
    then have "sort_scope rs2 s = Inr l"
      using sort_scopes_result [OF m, of s] by (auto split: if_split_asm)
    then have "\<forall>r\<in>set l. no_subscope (rule_statement r)"
      using sort_scope_order [OF idx] ns by (simp add: set_scope_group)
    with Some show ?thesis
      by (simp add: ruleset_match_def rules_by_scope_def rs select_rules_complete)
  qed (simp add: ruleset_match_def rules_by_scope_def rs)
qed

text \<open>
  C1: matching a scope of a built rule set through the feature index gives exactly the
  feature set and the match results of evaluating every rule of the scope in order.
\<close>

theorem ruleset_match_complete:
  assumes "from_rules rules = Inr rs"
  shows "ruleset_match rx rs s fs a = engine_match rx (map Some (rules_by_scope rs s)) fs a"
  using assms by (rule ruleset_match_engine)

section \<open>Sample rules\<close>

text \<open>
  Rule \<open>c\<close> holds a subscope whose body refers to rule \<open>a\<close>; \<open>a\<close> refers to \<open>b\<close>; and \<open>b\<close> refers
  to a rule that does not exist.
\<close>

definition sample_meta :: "string \<Rightarrow> string option \<Rightarrow> rule_meta" where
  "sample_meta n ns =
     \<lparr>meta_name = n, meta_scopes = \<lparr>static_scope = Some kFile, dynamic_scope = None\<rparr>,
      meta_namespace = ns, meta_authors = [], meta_att_and_ck = [], meta_mbc = [],
      meta_examples = [], meta_references = [], meta_description = None, meta_lib = False,
      meta_is_subscope_rule = False, meta_parent = None, meta_source_path = []\<rparr>"

definition sample_rule :: "string \<Rightarrow> string option \<Rightarrow> statement \<Rightarrow> rule" where
  "sample_rule n ns s =
     \<lparr>rule_meta = sample_meta n ns, rule_statement = s, rule_definition = []\<rparr>"

definition sample_refs :: "(string \<times> string) list \<Rightarrow> rule option list" where
  "sample_refs ps = map (\<lambda>(n, ref). Some (sample_rule n (Some ''n/m'') (SFeature (FMatchedRule ref)))) ps"

definition sample_rules :: "rule option list" where
  "sample_rules = sample_refs [(''a'', ''b''), (''b'', ''gone''), (''d'', ''a'')] @
     [None, Some (sample_rule ''c'' None (SOr [Some (SSubscope kFile (SFeature (FMatchedRule ''a'')))]))]"

lemma isl_False: "isl x = False \<Longrightarrow> \<exists>y. x = Inr y"
  by (cases x) auto

lemma sample_built: "\<exists>rs. from_rules sample_rules = Inr rs"
  by (rule isl_False) code_simp

lemma from_rules_tables_witness:
  "\<exists>rs. from_rules sample_rules = Inr rs \<and>
     (\<forall>n r. rs_find rs n = Some r \<longleftrightarrow> r \<in> set (present (rs_rules rs)) \<and> rule_name r = n)"
  using from_rules_tables [of sample_rules] sample_built by blast

lemma from_rules_topological_witness:
  "\<exists>rs. from_rules sample_rules = Inr rs \<and> distinct (rules_by_scope rs kFile) \<and>
     set (rules_by_scope rs kFile) = {r\<in>set (present (rs_rules rs)). rule_scope_of r = kFile}"
  using from_rules_topological [of sample_rules] sample_built by blast

lemma ruleset_match_complete_witness:
  "\<exists>rs. from_rules sample_rules = Inr rs \<and>
     ruleset_match (\<lambda>p ic. None) rs kFile empty_set NoAddress =
       engine_match (\<lambda>p ic. None) (map Some (rules_by_scope rs kFile)) empty_set NoAddress"
  using ruleset_match_complete [of sample_rules] sample_built by blast

lemma sort_scope_cycle_witness:
  "\<exists>rs. index_rules (unsorted_ruleset (sample_refs [(''a'', ''b''), (''b'', ''a'')])) = Inr rs \<and>
     \<not> acyclic (scope_edges rs kFile)"
proof -
  let ?x = "sbind (index_rules (unsorted_ruleset (sample_refs [(''a'', ''b''), (''b'', ''a'')])))
    (\<lambda>rs. Inr (isl (sort_scope rs kFile))) :: bool expected"
  have "?x = Inr True" by code_simp
  then obtain rs where "index_rules (unsorted_ruleset (sample_refs [(''a'', ''b''), (''b'', ''a'')])) = Inr rs"
    and "isl (sort_scope rs kFile)" by auto
  with sort_scope_cycle [of _ rs kFile] show ?thesis by (auto simp: isl_def)
qed

text \<open>
  One pass of \<open>validate_dependencies\<close> does not establish that every reference resolves:
  a rule whose reference named a rule dropped in the same pass stays in the built set with
  a reference that is neither a rule name nor a namespace of it.
\<close>

theorem dangling_reference_survives:
  "\<exists>rules rs r ref. from_rules rules = Inr rs \<and> Some r \<in> set (rs_rules rs) \<and>
     ref \<in> set (collect_match_refs (rule_statement r)) \<and>
     rs_find rs ref = None \<and> rules_in_namespace rs ref = []"
proof -
  let ?dangling = "\<lambda>rs. list_ex (\<lambda>r. list_ex (\<lambda>ref. Option.is_none (rs_find rs ref) \<and>
      rules_in_namespace rs ref = []) (collect_match_refs (rule_statement r))) (present (rs_rules rs))"
  have "sbind (from_rules sample_rules) (\<lambda>rs. Inr (?dangling rs)) = (Inr True :: bool expected)"
    by code_simp
  then obtain rs where "from_rules sample_rules = Inr rs" and "?dangling rs" by auto
  then show ?thesis by (fastforce simp: list_ex_iff set_present Option.is_none_def)
qed

end
