(* ===== verification/Digests.thy ===== *)
theory Digests
  imports Papa_Prelude
begin

text \<open>
  The streaming digests of src/util/hash.cpp.  The three hasher classes differ in their
  word state, compression function and the byte order of the length; their \<open>update\<close>,
  padding and reset code is the same text, modelled once over the compression function
  and instantiated three times.  The 64-byte buffer keeps the bytes of earlier blocks
  behind \<open>h_len\<close>, as the array of the class does.
\<close>

section \<open>Byte order\<close>

definition rotr32 :: "u32 \<Rightarrow> nat \<Rightarrow> u32" where "rotr32 x n = word_rotr n x"

definition rotl32 :: "u32 \<Rightarrow> nat \<Rightarrow> u32" where "rotl32 x n = word_rotl n x"

definition load_be32 :: "u8 list \<Rightarrow> nat \<Rightarrow> u32" where
  "load_be32 b p =
     push_bit 24 (ucast (b ! p)) OR push_bit 16 (ucast (b ! (p + 1))) OR
     push_bit 8 (ucast (b ! (p + 2))) OR push_bit 0 (ucast (b ! (p + 3)))"

definition load_le32 :: "u8 list \<Rightarrow> nat \<Rightarrow> u32" where
  "load_le32 b p =
     push_bit 0 (ucast (b ! p)) OR push_bit 8 (ucast (b ! (p + 1))) OR
     push_bit 16 (ucast (b ! (p + 2))) OR push_bit 24 (ucast (b ! (p + 3)))"

text \<open>The stores return the bytes in the order of their addresses.\<close>

definition byte_at :: "'a::len word \<Rightarrow> nat \<Rightarrow> u8" where
  "byte_at v k = ucast (drop_bit k v AND 0xFF)"

definition store_be32 :: "u32 \<Rightarrow> u8 list" where
  "store_be32 v = map (byte_at v) [24, 16, 8, 0]"

definition store_le32 :: "u32 \<Rightarrow> u8 list" where
  "store_le32 v = map (byte_at v) [0, 8, 16, 24]"

definition store_be64 :: "u64 \<Rightarrow> u8 list" where
  "store_be64 v = map (byte_at v) [56, 48, 40, 32, 24, 16, 8, 0]"

definition store_le64 :: "u64 \<Rightarrow> u8 list" where
  "store_le64 v = map (\<lambda>i. byte_at v (8 * i)) [0..<8]"

section \<open>The hasher state and its operations\<close>

record hasher =
  h_state :: "u32 list"
  h_buffer :: "u8 list"
  h_len :: nat
  h_total :: u64

definition hasher_new :: "u32 list \<Rightarrow> hasher" where
  "hasher_new iv = \<lparr>h_state = iv, h_buffer = replicate 64 0, h_len = 0, h_total = 0\<rparr>"

definition hasher_reset :: "u32 list \<Rightarrow> hasher \<Rightarrow> hasher" where
  "hasher_reset iv h = h\<lparr>h_state := iv, h_len := 0, h_total := 0\<rparr>"

text \<open>\<open>memcpy\<close> of \<open>xs\<close> to offset \<open>p\<close> of a buffer.\<close>

definition mem_copy :: "'a list \<Rightarrow> nat \<Rightarrow> 'a list \<Rightarrow> 'a list" where
  "mem_copy buf p xs = take p buf @ xs @ drop (p + length xs) buf"

definition process_block :: "(u32 list \<Rightarrow> u8 list \<Rightarrow> u32 list) \<Rightarrow> hasher \<Rightarrow> hasher" where
  "process_block cmp h = h\<lparr>h_state := cmp (h_state h) (h_buffer h)\<rparr>"

definition fill_partial ::
  "(u32 list \<Rightarrow> u8 list \<Rightarrow> u32 list) \<Rightarrow> hasher \<Rightarrow> u8 list \<Rightarrow> hasher \<times> nat" where
  "fill_partial cmp h data =
     (if h_len h > 0 then
        let need = 64 - h_len h;
            n = (if length data < need then length data else need);
            h1 = h\<lparr>h_buffer := mem_copy (h_buffer h) (h_len h) (take n data), h_len := h_len h + n\<rparr>
        in (if h_len h1 = 64 then (process_block cmp h1)\<lparr>h_len := 0\<rparr> else h1, n)
      else (h, 0))"

function full_blocks ::
  "(u32 list \<Rightarrow> u8 list \<Rightarrow> u32 list) \<Rightarrow> hasher \<Rightarrow> u8 list \<Rightarrow> nat \<Rightarrow> hasher \<times> nat" where
  "full_blocks cmp h data i =
     (if i + 64 \<le> length data
      then full_blocks cmp
             (process_block cmp (h\<lparr>h_buffer := mem_copy (h_buffer h) 0 (take 64 (drop i data))\<rparr>))
             data (i + 64)
      else (h, i))"
  by pat_completeness auto
termination by (relation "measure (\<lambda>(_, _, data, i). length data - i)") auto

declare full_blocks.simps [simp del]

definition hasher_update ::
  "(u32 list \<Rightarrow> u8 list \<Rightarrow> u32 list) \<Rightarrow> hasher \<Rightarrow> u8 list \<Rightarrow> hasher" where
  "hasher_update cmp h data =
     (let h0 = h\<lparr>h_total := h_total h + of_nat (length data) * 8\<rparr>;
          (h1, i) = fill_partial cmp h0 data;
          (h2, j) = full_blocks cmp h1 data i
      in if j < length data
         then h2\<lparr>h_buffer := mem_copy (h_buffer h2) 0 (drop j data), h_len := length data - j\<rparr>
         else h2)"

function zero_until :: "nat \<Rightarrow> hasher \<Rightarrow> hasher" where
  "zero_until n h =
     (if h_len h < n
      then zero_until n (h\<lparr>h_buffer := (h_buffer h)[h_len h := 0], h_len := h_len h + 1\<rparr>)
      else h)"
  by pat_completeness auto
termination by (relation "measure (\<lambda>(n, h). n - h_len h)") auto

declare zero_until.simps [simp del]

definition store_length :: "bool \<Rightarrow> u64 \<Rightarrow> u8 list" where
  "store_length be bits = (if be then store_be64 bits else store_le64 bits)"

definition pad_and_finalize ::
  "(u32 list \<Rightarrow> u8 list \<Rightarrow> u32 list) \<Rightarrow> bool \<Rightarrow> hasher \<Rightarrow> hasher" where
  "pad_and_finalize cmp be h =
     (let h1 = h\<lparr>h_buffer := (h_buffer h)[h_len h := 0x80], h_len := h_len h + 1\<rparr>;
          h2 = (if h_len h1 > 56 then (process_block cmp (zero_until 64 h1))\<lparr>h_len := 0\<rparr> else h1);
          h3 = zero_until 56 h2
      in process_block cmp
           (h3\<lparr>h_buffer := mem_copy (h_buffer h3) 56 (store_length be (h_total h3))\<rparr>))"

definition hasher_finalize ::
  "(u32 list \<Rightarrow> u8 list \<Rightarrow> u32 list) \<Rightarrow> bool \<Rightarrow> u32 list \<Rightarrow> hasher \<Rightarrow> u8 list \<times> hasher" where
  "hasher_finalize cmp be iv h =
     (let h' = pad_and_finalize cmp be h
      in (concat (map (if be then store_be32 else store_le32) (h_state h')), hasher_reset iv h'))"

section \<open>SHA-256\<close>

definition kSha256K :: "u32 list" where
  "kSha256K =
    [0x428A2F98, 0x71374491, 0xB5C0FBCF, 0xE9B5DBA5,
     0x3956C25B, 0x59F111F1, 0x923F82A4, 0xAB1C5ED5,
     0xD807AA98, 0x12835B01, 0x243185BE, 0x550C7DC3,
     0x72BE5D74, 0x80DEB1FE, 0x9BDC06A7, 0xC19BF174,
     0xE49B69C1, 0xEFBE4786, 0x0FC19DC6, 0x240CA1CC,
     0x2DE92C6F, 0x4A7484AA, 0x5CB0A9DC, 0x76F988DA,
     0x983E5152, 0xA831C66D, 0xB00327C8, 0xBF597FC7,
     0xC6E00BF3, 0xD5A79147, 0x06CA6351, 0x14292967,
     0x27B70A85, 0x2E1B2138, 0x4D2C6DFC, 0x53380D13,
     0x650A7354, 0x766A0ABB, 0x81C2C92E, 0x92722C85,
     0xA2BFE8A1, 0xA81A664B, 0xC24B8B70, 0xC76C51A3,
     0xD192E819, 0xD6990624, 0xF40E3585, 0x106AA070,
     0x19A4C116, 0x1E376C08, 0x2748774C, 0x34B0BCB5,
     0x391C0CB3, 0x4ED8AA4A, 0x5B9CCA4F, 0x682E6FF3,
     0x748F82EE, 0x78A5636F, 0x84C87814, 0x8CC70208,
     0x90BEFFFA, 0xA4506CEB, 0xBEF9A3F7, 0xC67178F2]"

definition kSha256IV :: "u32 list" where
  "kSha256IV =
    [0x6A09E667, 0xBB67AE85, 0x3C6EF372, 0xA54FF53A,
     0x510E527F, 0x9B05688C, 0x1F83D9AB, 0x5BE0CD19]"

fun sha256_schedule :: "nat \<Rightarrow> u32 list \<Rightarrow> u32 list" where
  "sha256_schedule 0 w = w"
| "sha256_schedule (Suc n) w =
     (let t = length w;
          s0 = rotr32 (w ! (t - 15)) 7 XOR rotr32 (w ! (t - 15)) 18 XOR drop_bit 3 (w ! (t - 15));
          s1 = rotr32 (w ! (t - 2)) 17 XOR rotr32 (w ! (t - 2)) 19 XOR drop_bit 10 (w ! (t - 2))
      in sha256_schedule n (w @ [w ! (t - 16) + s0 + w ! (t - 7) + s1]))"

fun sha256_rounds :: "(u32 \<times> u32) list \<Rightarrow> u32 list \<Rightarrow> u32 list" where
  "sha256_rounds ((k, w) # kws) [a, b, c, d, e, f, g, h] =
     (let S1 = rotr32 e 6 XOR rotr32 e 11 XOR rotr32 e 25;
          ch = (e AND f) XOR (NOT e AND g);
          T1 = h + S1 + ch + k + w;
          S0 = rotr32 a 2 XOR rotr32 a 13 XOR rotr32 a 22;
          mj = (a AND b) XOR (a AND c) XOR (b AND c);
          T2 = S0 + mj
      in sha256_rounds kws [T1 + T2, a, b, c, d + T1, e, f, g])"
| "sha256_rounds _ s = s"

definition sha256_compress :: "u32 list \<Rightarrow> u8 list \<Rightarrow> u32 list" where
  "sha256_compress st buf =
     (let w = sha256_schedule 48 (map (\<lambda>t. load_be32 buf (t * 4)) [0..<16])
      in map2 (+) st (sha256_rounds (zip kSha256K w) st))"

definition sha256_new :: hasher where "sha256_new = hasher_new kSha256IV"

definition sha256_reset :: "hasher \<Rightarrow> hasher" where "sha256_reset = hasher_reset kSha256IV"

definition sha256_update :: "hasher \<Rightarrow> u8 list \<Rightarrow> hasher" where
  "sha256_update = hasher_update sha256_compress"

definition sha256_finalize :: "hasher \<Rightarrow> u8 list \<times> hasher" where
  "sha256_finalize = hasher_finalize sha256_compress True kSha256IV"

definition sha256 :: "u8 list \<Rightarrow> u8 list" where
  "sha256 data = fst (sha256_finalize (sha256_update sha256_new data))"

section \<open>SHA-1\<close>

definition kSha1IV :: "u32 list" where
  "kSha1IV =
    [0x67452301, 0xEFCDAB89, 0x98BADCFE, 0x10325476,
     0xC3D2E1F0]"

fun sha1_schedule :: "nat \<Rightarrow> u32 list \<Rightarrow> u32 list" where
  "sha1_schedule 0 w = w"
| "sha1_schedule (Suc n) w =
     (let t = length w
      in sha1_schedule n
           (w @ [rotl32 (w ! (t - 3) XOR w ! (t - 8) XOR w ! (t - 14) XOR w ! (t - 16)) 1]))"

definition sha1_fk :: "nat \<Rightarrow> u32 \<Rightarrow> u32 \<Rightarrow> u32 \<Rightarrow> u32 \<times> u32" where
  "sha1_fk t b c d =
     (if t < 20 then ((b AND c) OR (NOT b AND d), 0x5A827999)
      else if t < 40 then (b XOR c XOR d, 0x6ED9EBA1)
      else if t < 60 then ((b AND c) OR (b AND d) OR (c AND d), 0x8F1BBCDC)
      else (b XOR c XOR d, 0xCA62C1D6))"

fun sha1_rounds :: "nat \<Rightarrow> u32 list \<Rightarrow> u32 list \<Rightarrow> u32 list" where
  "sha1_rounds t (w # ws) [a, b, c, d, e] =
     (let (f, k) = sha1_fk t b c d
      in sha1_rounds (t + 1) ws [rotl32 a 5 + f + e + k + w, a, rotl32 b 30, c, d])"
| "sha1_rounds t _ s = s"

definition sha1_compress :: "u32 list \<Rightarrow> u8 list \<Rightarrow> u32 list" where
  "sha1_compress st buf =
     (let w = sha1_schedule 64 (map (\<lambda>t. load_be32 buf (t * 4)) [0..<16])
      in map2 (+) st (sha1_rounds 0 w st))"

definition sha1_new :: hasher where "sha1_new = hasher_new kSha1IV"

definition sha1_reset :: "hasher \<Rightarrow> hasher" where "sha1_reset = hasher_reset kSha1IV"

definition sha1_update :: "hasher \<Rightarrow> u8 list \<Rightarrow> hasher" where
  "sha1_update = hasher_update sha1_compress"

definition sha1_finalize :: "hasher \<Rightarrow> u8 list \<times> hasher" where
  "sha1_finalize = hasher_finalize sha1_compress True kSha1IV"

definition sha1 :: "u8 list \<Rightarrow> u8 list" where
  "sha1 data = fst (sha1_finalize (sha1_update sha1_new data))"

section \<open>MD5\<close>

definition kMd5K :: "u32 list" where
  "kMd5K =
    [0xD76AA478, 0xE8C7B756, 0x242070DB, 0xC1BDCEEE,
     0xF57C0FAF, 0x4787C62A, 0xA8304613, 0xFD469501,
     0x698098D8, 0x8B44F7AF, 0xFFFF5BB1, 0x895CD7BE,
     0x6B901122, 0xFD987193, 0xA679438E, 0x49B40821,
     0xF61E2562, 0xC040B340, 0x265E5A51, 0xE9B6C7AA,
     0xD62F105D, 0x02441453, 0xD8A1E681, 0xE7D3FBC8,
     0x21E1CDE6, 0xC33707D6, 0xF4D50D87, 0x455A14ED,
     0xA9E3E905, 0xFCEFA3F8, 0x676F02D9, 0x8D2A4C8A,
     0xFFFA3942, 0x8771F681, 0x6D9D6122, 0xFDE5380C,
     0xA4BEEA44, 0x4BDECFA9, 0xF6BB4B60, 0xBEBFBC70,
     0x289B7EC6, 0xEAA127FA, 0xD4EF3085, 0x04881D05,
     0xD9D4D039, 0xE6DB99E5, 0x1FA27CF8, 0xC4AC5665,
     0xF4292244, 0x432AFF97, 0xAB9423A7, 0xFC93A039,
     0x655B59C3, 0x8F0CCC92, 0xFFEFF47D, 0x85845DD1,
     0x6FA87E4F, 0xFE2CE6E0, 0xA3014314, 0x4E0811A1,
     0xF7537E82, 0xBD3AF235, 0x2AD7D2BB, 0xEB86D391]"

definition kMd5R :: "nat list" where
  "kMd5R =
    [7, 12, 17, 22, 7, 12, 17, 22, 7, 12, 17, 22, 7, 12, 17, 22,
     5, 9, 14, 20, 5, 9, 14, 20, 5, 9, 14, 20, 5, 9, 14, 20,
     4, 11, 16, 23, 4, 11, 16, 23, 4, 11, 16, 23, 4, 11, 16, 23,
     6, 10, 15, 21, 6, 10, 15, 21, 6, 10, 15, 21, 6, 10, 15, 21]"

definition kMd5IV :: "u32 list" where
  "kMd5IV =
    [0x67452301, 0xEFCDAB89, 0x98BADCFE, 0x10325476]"

definition md5_fg :: "nat \<Rightarrow> u32 \<Rightarrow> u32 \<Rightarrow> u32 \<Rightarrow> u32 \<times> nat" where
  "md5_fg i b c d =
     (if i < 16 then ((b AND c) OR (NOT b AND d), i)
      else if i < 32 then ((d AND b) OR (NOT d AND c), (5 * i + 1) mod 16)
      else if i < 48 then (b XOR c XOR d, (3 * i + 5) mod 16)
      else (c XOR (b OR NOT d), (7 * i) mod 16))"

fun md5_rounds :: "nat \<Rightarrow> u32 list \<Rightarrow> (u32 \<times> nat) list \<Rightarrow> u32 list \<Rightarrow> u32 list" where
  "md5_rounds i m ((k, r) # krs) [a, b, c, d] =
     (let (f, g) = md5_fg i b c d
      in md5_rounds (i + 1) m krs [d, b + rotl32 (a + f + k + m ! g) r, b, c])"
| "md5_rounds i m _ s = s"

definition md5_compress :: "u32 list \<Rightarrow> u8 list \<Rightarrow> u32 list" where
  "md5_compress st buf =
     (let m = map (\<lambda>t. load_le32 buf (t * 4)) [0..<16]
      in map2 (+) st (md5_rounds 0 m (zip kMd5K kMd5R) st))"

definition md5_new :: hasher where "md5_new = hasher_new kMd5IV"

definition md5_reset :: "hasher \<Rightarrow> hasher" where "md5_reset = hasher_reset kMd5IV"

definition md5_update :: "hasher \<Rightarrow> u8 list \<Rightarrow> hasher" where
  "md5_update = hasher_update md5_compress"

definition md5_finalize :: "hasher \<Rightarrow> u8 list \<times> hasher" where
  "md5_finalize = hasher_finalize md5_compress False kMd5IV"

definition md5 :: "u8 list \<Rightarrow> u8 list" where
  "md5 data = fst (md5_finalize (md5_update md5_new data))"

section \<open>Hexadecimal form\<close>

definition kHex :: string where "kHex = ''0123456789abcdef''"

definition hex_digest :: "u8 list \<Rightarrow> string" where
  "hex_digest digest =
     concat (map (\<lambda>v. [kHex ! unat (drop_bit 4 v AND 0xF), kHex ! unat (v AND 0xF)]) digest)"

section \<open>One-shot specification\<close>

text \<open>
  \<open>run_blocks\<close> folds the compression function over the full blocks of a message and
  \<open>padded\<close> is the padding of RFC 6234, RFC 3174 and RFC 1321.
\<close>

function run_blocks :: "(u32 list \<Rightarrow> u8 list \<Rightarrow> u32 list) \<Rightarrow> u32 list \<Rightarrow> u8 list \<Rightarrow> u32 list" where
  "run_blocks cmp st m =
     (if length m < 64 then st else run_blocks cmp (cmp st (take 64 m)) (drop 64 m))"
  by pat_completeness auto
termination by (relation "measure (\<lambda>(_, _, m). length m)") auto

declare run_blocks.simps [simp del]

definition padded :: "bool \<Rightarrow> u8 list \<Rightarrow> u8 list" where
  "padded be m =
     m @ [0x80] @ replicate ((119 - length m mod 64) mod 64) 0 @
     store_length be (of_nat (length m) * 8)"

definition digest_spec ::
  "(u32 list \<Rightarrow> u8 list \<Rightarrow> u32 list) \<Rightarrow> bool \<Rightarrow> u32 list \<Rightarrow> u8 list \<Rightarrow> u8 list" where
  "digest_spec cmp be iv m =
     concat (map (if be then store_be32 else store_le32) (run_blocks cmp iv (padded be m)))"

lemma length_store_length [simp]: "length (store_length be n) = 8"
  by (simp add: store_length_def store_be64_def store_le64_def)

lemma run_blocks_short: "length m < 64 \<Longrightarrow> run_blocks cmp st m = st"
  by (simp add: run_blocks.simps)

lemma run_blocks_append:
  "length a mod 64 = 0 \<Longrightarrow> run_blocks cmp st (a @ b) = run_blocks cmp (run_blocks cmp st a) b"
proof (induction cmp st a rule: run_blocks.induct)
  case (1 cmp st m)
  show ?case
  proof (cases "length m < 64")
    case True
    with "1.prems" show ?thesis by (simp add: run_blocks_short)
  next
    case False
    with "1.prems" have "length (drop 64 m) mod 64 = 0" by (simp add: mod_if [of "length m"])
    with False "1.IH" show ?thesis
      by (subst (1 2) run_blocks.simps) simp
  qed
qed

lemma run_blocks_one: "length b = 64 \<Longrightarrow> run_blocks cmp st b = cmp st b"
  by (subst run_blocks.simps) (simp add: run_blocks_short)

lemma run_blocks_cons: "length b = 64 \<Longrightarrow> run_blocks cmp st (b @ m) = run_blocks cmp (cmp st b) m"
  by (simp add: run_blocks_append run_blocks_one)

text \<open>The message absorbed so far: its full blocks are in the state, the rest in the buffer.\<close>

definition full_part :: "u8 list \<Rightarrow> u8 list" where
  "full_part m = take (length m - length m mod 64) m"

definition rest_part :: "u8 list \<Rightarrow> u8 list" where
  "rest_part m = drop (length m - length m mod 64) m"

definition absorbed ::
  "(u32 list \<Rightarrow> u8 list \<Rightarrow> u32 list) \<Rightarrow> u32 list \<Rightarrow> hasher \<Rightarrow> u8 list \<Rightarrow> bool" where
  "absorbed cmp iv h m \<longleftrightarrow>
     length (h_buffer h) = 64 \<and> h_len h = length m mod 64 \<and>
     take (h_len h) (h_buffer h) = rest_part m \<and>
     h_state h = run_blocks cmp iv (full_part m) \<and>
     h_total h = of_nat (length m) * 8"

lemma length_full_part: "length (full_part m) mod 64 = 0"
  by (simp add: full_part_def minus_mod_eq_mult_div)

lemma length_rest_part: "length (rest_part m) = length m mod 64"
  by (simp add: rest_part_def)

lemma full_rest: "full_part m @ rest_part m = m"
  by (simp add: full_part_def rest_part_def)

lemma parts_unique:
  assumes "m = a @ b" and "length a mod 64 = 0" and "length b < 64"
  shows "full_part m = a \<and> rest_part m = b"
proof -
  have "length m mod 64 = length b"
    using assms by (simp add: mod_add_eq [symmetric])
  then show ?thesis using assms(1) by (simp add: full_part_def rest_part_def)
qed

lemma length_mem_copy: "p + length xs \<le> length b \<Longrightarrow> length (mem_copy b p xs) = length b"
  by (simp add: mem_copy_def)

lemma full_blocks_result:
  "full_blocks cmp h data i = (h', j) \<Longrightarrow> length (h_buffer h) = 64 \<Longrightarrow> i \<le> length data \<Longrightarrow>
     length (h_buffer h') = 64 \<and> h_len h' = h_len h \<and> h_total h' = h_total h \<and>
     j \<le> length data \<and> i \<le> j \<and> length data - j < 64 \<and> (j - i) mod 64 = 0 \<and>
     h_state h' = run_blocks cmp (h_state h) (take (j - i) (drop i data))"
proof (induction cmp h data i rule: full_blocks.induct)
  case (1 cmp h data i)
  show ?case
  proof (cases "i + 64 \<le> length data")
    case True
    let ?h = "process_block cmp (h\<lparr>h_buffer := mem_copy (h_buffer h) 0 (take 64 (drop i data))\<rparr>)"
    have step: "full_blocks cmp ?h data (i + 64) = (h', j)"
      using "1.prems"(1) True by (simp add: full_blocks.simps [of cmp h])
    have buf: "h_buffer ?h = take 64 (drop i data)"
      using True "1.prems"(2) by (simp add: process_block_def mem_copy_def)
    have IH: "length (h_buffer h') = 64 \<and> h_len h' = h_len h \<and> h_total h' = h_total h \<and>
      j \<le> length data \<and> i + 64 \<le> j \<and> length data - j < 64 \<and> (j - (i + 64)) mod 64 = 0 \<and>
      h_state h' = run_blocks cmp (cmp (h_state h) (take 64 (drop i data)))
        (take (j - (i + 64)) (drop (i + 64) data))"
      using "1.IH" [OF True step] buf True "1.prems"(2) by (simp add: process_block_def mem_copy_def)
    then obtain k where j: "j = i + 64 + k" by (metis le_Suc_ex)
    have l64: "length (take 64 (drop i data)) = 64" using True by simp
    have "take (j - i) (drop i data) = take 64 (drop i data) @ take k (drop (i + 64) data)"
      using take_add [of 64 k "drop i data"] by (simp add: j add.commute)
    then have "run_blocks cmp (h_state h) (take (j - i) (drop i data)) = h_state h'"
      using IH by (simp add: j run_blocks_cons [OF l64])
    with IH show ?thesis by (simp add: j)
  next
    case False
    with "1.prems" show ?thesis by (auto simp: full_blocks.simps [of cmp h] run_blocks_short)
  qed
qed

lemma fill_partial_result:
  assumes fp: "fill_partial cmp h data = (h', i)" and len: "length (h_buffer h) = 64" "h_len h < 64"
    and r: "take (h_len h) (h_buffer h) = r"
  shows "length (h_buffer h') = 64 \<and> i \<le> length data \<and> h_total h' = h_total h \<and>
    (h_len h' = 0 \<and> h_state h' = run_blocks cmp (h_state h) (r @ take i data) \<and>
       (length r + i) mod 64 = 0 \<or>
     i = length data \<and> h_len h' = h_len h + i \<and> h_len h' < 64 \<and> h_state h' = h_state h \<and>
       take (h_len h') (h_buffer h') = r @ data)"
proof (cases "h_len h > 0")
  case False
  with fp r show ?thesis using len by (auto simp: fill_partial_def run_blocks_short)
next
  case True
  define n where "n = (if length data < 64 - h_len h then length data else 64 - h_len h)"
  define buf where "buf = mem_copy (h_buffer h) (h_len h) (take n data)"
  have n: "n \<le> length data" "h_len h + n \<le> 64" "h_len h + n \<noteq> 64 \<Longrightarrow> n = length data"
    using len by (auto simp: n_def)
  have lbuf: "length buf = 64" using len n by (simp add: buf_def length_mem_copy)
  have buf: "take (h_len h + n) buf = r @ take n data"
    using len n r by (auto simp: buf_def mem_copy_def)
  define P where "P = (if h_len h + n = 64
      then (process_block cmp (h\<lparr>h_buffer := buf, h_len := h_len h + n\<rparr>))\<lparr>h_len := 0\<rparr>
      else h\<lparr>h_buffer := buf, h_len := h_len h + n\<rparr>)"
  have "fill_partial cmp h data = (P, n)"
    unfolding fill_partial_def Let_def n_def buf_def P_def using True by simp
  with fp have hP: "h' = P" and i: "i = n"
    by simp_all
  show ?thesis
  proof (cases "h_len h + n = 64")
    case full: True
    then have "buf = r @ take n data" using buf lbuf by simp
    moreover from this have "cmp (h_state h) buf = run_blocks cmp (h_state h) (r @ take n data)"
      using lbuf by (metis run_blocks_one)
    moreover have "length r + n = 64" using full r len by auto
    ultimately show ?thesis using n(1) lbuf full by (simp add: hP P_def i process_block_def)
  next
    case False
    with n have nd: "n = length data" by blast
    have "h_len h + n < 64" using False n(2) by simp
    then show ?thesis using buf lbuf False by (simp add: hP P_def i nd)
  qed
qed

lemma absorbed_update:
  assumes "absorbed cmp iv h m"
  shows "absorbed cmp iv (hasher_update cmp h data) (m @ data)"
proof -
  define h0 where "h0 = h\<lparr>h_total := h_total h + of_nat (length data) * 8\<rparr>"
  have h0: "length (h_buffer h0) = 64" "h_len h0 = length (rest_part m)" "h_len h0 < 64"
    "take (h_len h0) (h_buffer h0) = rest_part m" "h_state h0 = run_blocks cmp iv (full_part m)"
    using assms unfolding h0_def absorbed_def by (auto simp: length_rest_part)
  have total: "h_total h0 = of_nat (length (m @ data)) * 8"
    using assms by (simp add: h0_def absorbed_def algebra_simps)
  obtain h1 i where fp: "fill_partial cmp h0 data = (h1, i)" by fastforce
  obtain h2 j where fb: "full_blocks cmp h1 data i = (h2, j)" by fastforce
  have upd: "hasher_update cmp h data = (if j < length data
      then h2\<lparr>h_buffer := mem_copy (h_buffer h2) 0 (drop j data), h_len := length data - j\<rparr> else h2)"
    using fp fb by (simp add: hasher_update_def h0_def Let_def)
  note p = fill_partial_result [OF fp h0(1,3,4)]
  note b = full_blocks_result [OF fb]
  from p consider
    (full) "h_len h1 = 0" "h_state h1 = run_blocks cmp (h_state h0) (rest_part m @ take i data)"
      "(length (rest_part m) + i) mod 64 = 0"
  | (part) "i = length data" "h_len h1 = h_len h0 + i" "h_len h1 < 64" "h_state h1 = h_state h0"
      "take (h_len h1) (h_buffer h1) = rest_part m @ data"
    by argo
  then show ?thesis
  proof cases
    case part
    then have "h2 = h1" "j = i" using fb by (simp_all add: full_blocks.simps [of cmp h1])
    moreover have "full_part (m @ data) = full_part m \<and> rest_part (m @ data) = rest_part m @ data"
      by (rule parts_unique) (use part h0 full_rest [of m] length_full_part in \<open>simp_all flip: append_assoc\<close>)
    moreover have "length (m @ data) mod 64 = length (rest_part (m @ data))"
      by (simp only: length_rest_part)
    ultimately show ?thesis using part p h0 total upd by (simp add: absorbed_def)
  next
    case full
    have b': "length (h_buffer h2) = 64" "h_len h2 = 0" "h_total h2 = h_total h0" "j \<le> length data"
        "i \<le> j" "length data - j < 64" "(j - i) mod 64 = 0"
        "h_state h2 = run_blocks cmp (h_state h1) (take (j - i) (drop i data))"
      using b p full by auto
    define a where "a = full_part m @ (rest_part m @ take i data) @ take (j - i) (drop i data)"
    have "take i data @ take (j - i) (drop i data) = take j data"
      using take_add [of i "j - i" data] b'(5) by simp
    then have md: "m @ data = a @ drop j data"
      using full_rest [of m] by (metis a_def append.assoc append_take_drop_id)
    have il: "length (take i data) = i" "length (take (j - i) (drop i data)) = j - i"
      using b'(4,5) by simp_all
    have al: "length (rest_part m @ take i data) mod 64 = 0" "length (take (j - i) (drop i data)) mod 64 = 0"
      using full(3) il by simp_all (use b'(7) il in simp)
    have "length a mod 64 = 0"
      using al length_full_part [of m] unfolding a_def by (metis add_0 length_append mod_add_eq mod_0)
    then have parts: "full_part (m @ data) = a" "rest_part (m @ data) = drop j data"
      using parts_unique [OF md] b'(6) by auto
    have st: "h_state h2 = run_blocks cmp iv a"
      by (simp only: a_def b'(8) full(2) h0(5) run_blocks_append [OF length_full_part]
          run_blocks_append [OF al(1)])
    have "length (m @ data) mod 64 = length data - j"
      using length_rest_part [of "m @ data"] parts by simp
    then show ?thesis using upd b' st parts total
      by (auto simp: absorbed_def mem_copy_def)
  qed
qed

lemma zero_until_result:
  "h_len h \<le> n \<Longrightarrow> n \<le> length (h_buffer h) \<Longrightarrow>
     zero_until n h = h\<lparr>h_buffer := take (h_len h) (h_buffer h) @ replicate (n - h_len h) 0 @
       drop n (h_buffer h), h_len := n\<rparr>"
proof (induction n h rule: zero_until.induct)
  case (1 n h)
  show ?case
  proof (cases "h_len h < n")
    case False
    with "1.prems" show ?thesis by (simp add: zero_until.simps [of n h])
  next
    case True
    define h' where "h' = h\<lparr>h_buffer := (h_buffer h)[h_len h := 0], h_len := h_len h + 1\<rparr>"
    have "zero_until n h = zero_until n h'"
      using True by (simp add: zero_until.simps [of n h] h'_def)
    also have "\<dots> = h'\<lparr>h_buffer := take (h_len h') (h_buffer h') @ replicate (n - h_len h') 0 @
       drop n (h_buffer h'), h_len := n\<rparr>"
      using "1.IH" [OF True] True "1.prems" by (simp add: h'_def)
    also have "take (h_len h') (h_buffer h') = take (h_len h) (h_buffer h) @ [0]"
      using True "1.prems"(2) by (simp add: h'_def take_Suc_conv_app_nth)
    also have "(take (h_len h) (h_buffer h) @ [0]) @ replicate (n - h_len h') 0 @ drop n (h_buffer h') =
        take (h_len h) (h_buffer h) @ replicate (n - h_len h) 0 @ drop n (h_buffer h)"
    proof -
      have "n - h_len h = Suc (n - h_len h')" using True by (simp add: h'_def)
      then show ?thesis using True by (simp add: h'_def)
    qed
    finally show ?thesis by (simp add: h'_def)
  qed
qed

lemma pad_blocks:
  assumes len: "length m mod 64 = length r" and m: "m = f @ r" and f: "length f mod 64 = 0"
  shows "length r < 56 \<Longrightarrow> padded be m =
      f @ (r @ [0x80] @ replicate (55 - length r) 0 @ store_length be (of_nat (length m) * 8))"
    and "\<not> length r < 56 \<Longrightarrow> padded be m = f @ (r @ [0x80] @ replicate (63 - length r) 0) @
      (replicate 56 0 @ store_length be (of_nat (length m) * 8))"
proof -
  assume "length r < 56"
  then have "(119 - length m mod 64) mod 64 = 55 - length r"
    using len by (simp add: mod_if [of "119 - length r"])
  then show "padded be m =
      f @ (r @ [0x80] @ replicate (55 - length r) 0 @ store_length be (of_nat (length m) * 8))"
    by (simp add: padded_def m)
next
  assume "\<not> length r < 56"
  moreover have "length r < 64" using len by (metis mod_less_divisor zero_less_numeral)
  ultimately have "(119 - length m mod 64) mod 64 = (63 - length r) + 56"
    using len by simp
  then show "padded be m = f @ (r @ [0x80] @ replicate (63 - length r) 0) @
      (replicate 56 0 @ store_length be (of_nat (length m) * 8))"
    by (simp add: padded_def m replicate_add)
qed

lemma mem_copy_tail: "length buf = 64 \<Longrightarrow> length xs = 8 \<Longrightarrow> mem_copy buf 56 xs = take 56 buf @ xs"
  by (simp add: mem_copy_def)

lemma pad_and_finalize_state:
  assumes "absorbed cmp iv h m"
  shows "h_state (pad_and_finalize cmp be h) = run_blocks cmp iv (padded be m) \<and>
    length (h_buffer (pad_and_finalize cmp be h)) = 64"
proof -
  define r where "r = rest_part m"
  define f where "f = full_part m"
  define L where "L = store_length be (h_total h)"
  have h: "length (h_buffer h) = 64" "h_len h = length r" "take (length r) (h_buffer h) = r"
    "h_state h = run_blocks cmp iv f" "h_total h = of_nat (length m) * 8" "length r < 64"
    using assms unfolding absorbed_def r_def f_def by (auto simp: length_rest_part)
  have parts: "length m mod 64 = length r" "m = f @ r" "length f mod 64 = 0"
    by (simp_all add: r_def f_def length_rest_part full_rest length_full_part)
  note pads = pad_blocks [OF parts, of be, folded h(5), folded L_def]
  define b1 where "b1 = (h_buffer h)[length r := 0x80]"
  have b1: "length b1 = 64" "take (Suc (length r)) b1 = r @ [0x80]"
    using h by (simp_all add: b1_def take_Suc_conv_app_nth)
  have lenL: "length L = 8" by (simp add: L_def)
  show ?thesis
  proof (cases "length r < 56")
    case True
    have t: "take (56 - length r) (0x80 # replicate (55 - length r) 0 @ xs) =
        0x80 # replicate (55 - length r) (0 :: u8)" for xs
      using True by (simp add: take_Cons')
    have "h_state (pad_and_finalize cmp be h) = cmp (h_state h) (r @ [0x80] @ replicate (55 - length r) 0 @ L)"
      "length (h_buffer (pad_and_finalize cmp be h)) = 64"
      using True h(1,2) b1 lenL t
      by (simp_all add: pad_and_finalize_def Let_def b1_def [symmetric] zero_until_result mem_copy_tail
          L_def process_block_def)
    then show ?thesis
      using True pads(1) parts(3) lenL h(4) by (simp add: run_blocks_append run_blocks_one)
  next
    case False
    define st where "st = cmp (h_state h) (r @ [0x80] @ replicate (63 - length r) 0)"
    have "h_state (pad_and_finalize cmp be h) = cmp st (replicate 56 0 @ L)"
      "length (h_buffer (pad_and_finalize cmp be h)) = 64"
      using False h(1,2,6) b1 lenL
      by (simp_all add: pad_and_finalize_def Let_def b1_def [symmetric] zero_until_result mem_copy_tail
          L_def process_block_def st_def)
    moreover have "run_blocks cmp s (padded be m) = run_blocks cmp (run_blocks cmp
        (run_blocks cmp s f) (r @ [0x80] @ replicate (63 - length r) 0)) (replicate 56 0 @ L)" for s
      unfolding pads(2) [OF False]
      by (subst run_blocks_append, rule parts(3), subst run_blocks_append) (use h(6) in simp_all)
    ultimately show ?thesis
      using h(4,6) lenL by (simp add: run_blocks_one st_def)
  qed
qed

section \<open>The contract of an incremental digest\<close>

text \<open>
  What the callers of a hasher rely on: after any number of updates the digest is that of
  the concatenation, and a finalized hasher starts afresh.
\<close>

locale streaming_digest =
  fixes new :: 'h
    and upd :: "'h \<Rightarrow> 'b list \<Rightarrow> 'h"
    and fin :: "'h \<Rightarrow> 'd \<times> 'h"
    and rst :: "'h \<Rightarrow> 'h"
    and has :: "'h \<Rightarrow> 'b list \<Rightarrow> bool"
    and spec :: "'b list \<Rightarrow> 'd"
  assumes new_has: "has new []"
    and upd_has: "has h m \<Longrightarrow> has (upd h d) (m @ d)"
    and fin_spec: "has h m \<Longrightarrow> fst (fin h) = spec m"
    and fin_has: "has h m \<Longrightarrow> has (snd (fin h)) []"
    and rst_has: "has h m \<Longrightarrow> has (rst h) []"
begin

lemma updates_have: "has h m \<Longrightarrow> has (foldl upd h ds) (m @ concat ds)"
proof (induction ds arbitrary: h m)
  case (Cons d ds)
  from Cons.IH [OF upd_has [OF Cons.prems, of d]] show ?case by simp
qed simp

lemma digest_chunks: "fst (fin (foldl upd new ds)) = spec (concat ds)"
  using fin_spec [OF updates_have [OF new_has, of ds]] by simp

lemma digest_reuse: "has h m \<Longrightarrow> fst (fin (foldl upd (snd (fin h)) ds)) = spec (concat ds)"
  using fin_spec [OF updates_have [OF fin_has, of h m ds]] by simp

lemma digest_after_finalize:
  "fst (fin (foldl upd (snd (fin (foldl upd new ds))) es)) = spec (concat es)"
  by (rule digest_reuse [OF updates_have [OF new_has]])

lemma digest_after_reset: "fst (fin (foldl upd (rst (foldl upd new ds)) es)) = spec (concat es)"
  using fin_spec [OF updates_have [OF rst_has [OF updates_have [OF new_has, of ds]], of es]] by simp

end

lemma absorbed_empty:
  "length (h_buffer h) = 64 \<Longrightarrow> h_len h = 0 \<Longrightarrow> h_total h = 0 \<Longrightarrow> h_state h = iv \<Longrightarrow>
     absorbed cmp iv h []"
  by (simp add: absorbed_def full_part_def rest_part_def run_blocks_short)

lemma hasher_streaming:
  "streaming_digest (hasher_new iv) (hasher_update cmp) (hasher_finalize cmp be iv)
     (hasher_reset iv) (absorbed cmp iv) (digest_spec cmp be iv)"
proof
  show "absorbed cmp iv (hasher_new iv) []"
    by (rule absorbed_empty) (simp_all add: hasher_new_def)
  show "absorbed cmp iv (hasher_update cmp h d) (m @ d)" if "absorbed cmp iv h m" for h m d
    using that by (rule absorbed_update)
  show "fst (hasher_finalize cmp be iv h) = digest_spec cmp be iv m" if "absorbed cmp iv h m" for h m
    using pad_and_finalize_state [OF that, of be]
    by (simp add: hasher_finalize_def digest_spec_def Let_def)
  show "absorbed cmp iv (snd (hasher_finalize cmp be iv h)) []" if "absorbed cmp iv h m" for h m
    using pad_and_finalize_state [OF that, of be]
    by (intro absorbed_empty) (simp_all add: hasher_finalize_def hasher_reset_def Let_def)
  show "absorbed cmp iv (hasher_reset iv h) []" if "absorbed cmp iv h m" for h m
    using that by (intro absorbed_empty) (simp_all add: hasher_reset_def absorbed_def)
qed

interpretation sha256h: streaming_digest sha256_new sha256_update sha256_finalize sha256_reset
  "absorbed sha256_compress kSha256IV" "digest_spec sha256_compress True kSha256IV"
  unfolding sha256_new_def sha256_update_def sha256_finalize_def sha256_reset_def
  by (rule hasher_streaming)

interpretation sha1h: streaming_digest sha1_new sha1_update sha1_finalize sha1_reset
  "absorbed sha1_compress kSha1IV" "digest_spec sha1_compress True kSha1IV"
  unfolding sha1_new_def sha1_update_def sha1_finalize_def sha1_reset_def
  by (rule hasher_streaming)

interpretation md5h: streaming_digest md5_new md5_update md5_finalize md5_reset
  "absorbed md5_compress kMd5IV" "digest_spec md5_compress False kMd5IV"
  unfolding md5_new_def md5_update_def md5_finalize_def md5_reset_def
  by (rule hasher_streaming)

lemma one_shot_spec:
  "sha256 data = digest_spec sha256_compress True kSha256IV data"
  "sha1 data = digest_spec sha1_compress True kSha1IV data"
  "md5 data = digest_spec md5_compress False kMd5IV data"
  using sha256h.digest_chunks [of "[data]"] sha1h.digest_chunks [of "[data]"]
    md5h.digest_chunks [of "[data]"]
  by (simp_all add: sha256_def sha1_def md5_def)

lemma length_padded: "length (padded be m) mod 64 = 0"
proof -
  note p = pad_blocks [OF length_rest_part [symmetric] full_rest [symmetric] length_full_part,
      where be = be]
  have l: "length (rest_part m) < 64" by (simp add: length_rest_part)
  show ?thesis
  proof (cases "length (rest_part m) < 56")
    case True
    then have "length (padded be m) = length (full_part m) + 64" by (simp add: p(1))
    then show ?thesis using length_full_part [of m] by simp
  next
    case False
    then have "length (padded be m) = length (full_part m) + 128" using l by (simp add: p(2))
    moreover have "(x + 128) mod 64 = x mod 64" for x :: nat by (simp add: mod_add_right_eq [symmetric, of _ 128])
    ultimately show ?thesis using length_full_part [of m] by simp
  qed
qed

text \<open>
  C8: however a message is cut into updates, each of the three hashers returns the one-shot
  digest of the concatenation, and so does a hasher that was finalized or reset in between.
\<close>

theorem digests_of_chunks:
  "fst (sha256_finalize (foldl sha256_update sha256_new ds)) = sha256 (concat ds) \<and>
   fst (sha1_finalize (foldl sha1_update sha1_new ds)) = sha1 (concat ds) \<and>
   fst (md5_finalize (foldl md5_update md5_new ds)) = md5 (concat ds) \<and>
   fst (sha256_finalize (foldl sha256_update
     (snd (sha256_finalize (foldl sha256_update sha256_new ds))) es)) = sha256 (concat es) \<and>
   fst (sha1_finalize (foldl sha1_update
     (snd (sha1_finalize (foldl sha1_update sha1_new ds))) es)) = sha1 (concat es) \<and>
   fst (md5_finalize (foldl md5_update
     (snd (md5_finalize (foldl md5_update md5_new ds))) es)) = md5 (concat es) \<and>
   fst (sha256_finalize (foldl sha256_update
     (sha256_reset (foldl sha256_update sha256_new ds)) es)) = sha256 (concat es)"
  by (simp only: one_shot_spec sha256h.digest_chunks sha1h.digest_chunks md5h.digest_chunks
      sha256h.digest_after_finalize sha1h.digest_after_finalize md5h.digest_after_finalize
      sha256h.digest_after_reset)

text \<open>
  Each one-shot digest is the initial words folded, block by block, over the message
  followed by 0x80, the least number of zeros that leaves room for the length, and the bit
  length in the byte order of the algorithm; the padded message is a whole number of blocks.
\<close>

theorem digest_padding:
  "sha256 data = digest_spec sha256_compress True kSha256IV data \<and>
   sha1 data = digest_spec sha1_compress True kSha1IV data \<and>
   md5 data = digest_spec md5_compress False kMd5IV data \<and>
   length (padded be data) mod 64 = 0"
  by (simp only: one_shot_spec length_padded)

section \<open>Hexadecimal form is faithful\<close>

definition hex_value :: "char \<Rightarrow> u8" where
  "hex_value c = of_nat (length (takeWhile (\<lambda>d. d \<noteq> c) kHex))"

fun from_hex :: "string \<Rightarrow> u8 list" where
  "from_hex (a # b # cs) = (push_bit 4 (hex_value a) OR hex_value b) # from_hex cs"
| "from_hex _ = []"

lemma hex_value_nibble: "n < 16 \<Longrightarrow> hex_value (kHex ! n) = of_nat n"
proof -
  assume "n < 16"
  then have "n \<in> set [0..<16]" by simp
  moreover have "\<forall>n\<in>set [0..<16]. hex_value (kHex ! n) = of_nat n" by code_simp
  ultimately show ?thesis by blast
qed

lemma nibbles: "push_bit 4 (drop_bit 4 v AND 0xF) OR (v AND 0xF) = (v :: u8)"
proof -
  have m: "0xF = (mask 4 :: u8)" by (simp add: mask_eq_exp_minus_1)
  show ?thesis unfolding m by (rule bit_word_eqI) (auto simp: bit_simps)
qed

lemma word_unat_inverse: "of_nat (unat v) = (v :: u8)"
  by simp

lemma unat_nibble: "unat (v AND 0xF :: u8) < 16"
proof -
  have "v AND 0xF \<le> 0xF" by (rule word_and_le1)
  then show ?thesis by (simp add: word_le_nat_alt)
qed

text \<open>
  The hexadecimal form of a digest has two lowercase digits for each byte and reading
  it back gives the bytes.
\<close>

theorem hex_digest_roundtrip:
  "from_hex (hex_digest d) = d \<and> length (hex_digest d) = 2 * length d \<and>
   set (hex_digest d) \<subseteq> set kHex"
proof (induction d)
  case Nil
  show ?case by (simp add: hex_digest_def)
next
  case (Cons v d)
  have "kHex ! unat (v AND 0xF) \<in> set kHex" for v :: u8
    using unat_nibble [of v] by (intro nth_mem) (simp add: kHex_def)
  moreover have "hex_digest (v # d) =
      kHex ! unat (drop_bit 4 v AND 0xF) # kHex ! unat (v AND 0xF) # hex_digest d"
    by (simp add: hex_digest_def)
  moreover have "push_bit 4 (hex_value (kHex ! unat (drop_bit 4 v AND 0xF))) OR
      hex_value (kHex ! unat (v AND 0xF)) = v"
    by (simp only: hex_value_nibble [OF unat_nibble] word_unat_inverse nibbles)
  ultimately show ?case using Cons by auto
qed

end
