(* ===== verification/Json_Writer.thy ===== *)
theory Json_Writer
  imports Papa_Prelude
begin

text \<open>
  The streaming JSON writer (src/util/json_writer.cpp).  A writer holds the output so far,
  the stack of open containers (its head is the back of the vector) and two flags; each
  operation returns the new writer or the invariant error it throws.  Every throw comes
  before the first character the failing operation would put out.  The text of a finite
  double is what \<open>std::to_chars\<close> returns for its bits, the parameter \<open>fmt\<close>.
\<close>

section \<open>The writer\<close>

datatype json_context = kRoot | kObject | kArray

record writer =
  jw_out :: string
  jw_pretty :: bool
  jw_stack :: "json_context list"
  jw_need_comma :: bool
  jw_awaiting :: bool
  jw_depth :: int

definition writer_new :: "bool \<Rightarrow> writer" where
  "writer_new pretty = \<lparr>jw_out = [], jw_pretty = pretty, jw_stack = [kRoot],
     jw_need_comma = False, jw_awaiting = False, jw_depth = 0\<rparr>"

definition put :: "string \<Rightarrow> writer \<Rightarrow> writer" where
  "put s w = w\<lparr>jw_out := jw_out w @ s\<rparr>"

definition invariant_violation :: "string \<Rightarrow> 'a expected" where
  "invariant_violation msg = Inl (Invariant_Error (''json::Writer: '' @ msg))"

definition kIndentSpaces :: int where "kIndentSpaces = 2"

definition newline_and_indent :: "writer \<Rightarrow> writer" where
  "newline_and_indent w =
     (if \<not> jw_pretty w then w
      else put (CHR 0x0A # replicate (nat (jw_depth w * kIndentSpaces)) (CHR '' '')) w)"

definition emit_separator_for_value :: "writer \<Rightarrow> writer" where
  "emit_separator_for_value w =
     (if jw_awaiting w then w\<lparr>jw_awaiting := False\<rparr>
      else if jw_need_comma w then newline_and_indent (put '','' w)
      else if hd (jw_stack w) \<noteq> kRoot then newline_and_indent w
      else w)"

definition start_value :: "writer \<Rightarrow> writer expected" where
  "start_value w =
     (if hd (jw_stack w) = kObject \<and> \<not> jw_awaiting w
      then invariant_violation ''expected key before value inside object''
      else Inr (emit_separator_for_value w))"

definition begin_object :: "writer \<Rightarrow> writer expected" where
  "begin_object w = sbind (start_value w) (\<lambda>w.
     Inr ((put ''{'' w)\<lparr>jw_stack := kObject # jw_stack w, jw_depth := jw_depth w + 1,
       jw_need_comma := False\<rparr>))"

definition end_object :: "writer \<Rightarrow> writer expected" where
  "end_object w =
     (if length (jw_stack w) < 2 \<or> hd (jw_stack w) \<noteq> kObject
      then invariant_violation ''end_object without matching begin_object''
      else if jw_awaiting w then invariant_violation ''end_object after key with no value''
      else
        let w1 = w\<lparr>jw_depth := jw_depth w - 1\<rparr>;
            w2 = (if jw_need_comma w1 \<and> jw_pretty w1 then newline_and_indent w1 else w1)
        in Inr ((put ''}'' w2)\<lparr>jw_stack := tl (jw_stack w2), jw_need_comma := True\<rparr>))"

definition begin_array :: "writer \<Rightarrow> writer expected" where
  "begin_array w = sbind (start_value w) (\<lambda>w.
     Inr ((put ''['' w)\<lparr>jw_stack := kArray # jw_stack w, jw_depth := jw_depth w + 1,
       jw_need_comma := False\<rparr>))"

definition end_array :: "writer \<Rightarrow> writer expected" where
  "end_array w =
     (if length (jw_stack w) < 2 \<or> hd (jw_stack w) \<noteq> kArray
      then invariant_violation ''end_array without matching begin_array''
      else
        let w1 = w\<lparr>jw_depth := jw_depth w - 1\<rparr>;
            w2 = (if jw_need_comma w1 \<and> jw_pretty w1 then newline_and_indent w1 else w1)
        in Inr ((put '']'' w2)\<lparr>jw_stack := tl (jw_stack w2), jw_need_comma := True\<rparr>))"

definition kHexDigits :: string where "kHexDigits = ''0123456789abcdef''"

definition escape_char :: "char \<Rightarrow> string" where
  "escape_char c =
     (if c = CHR 0x22 then [CHR 0x5C, CHR 0x22]
      else if c = CHR 0x5C then [CHR 0x5C, CHR 0x5C]
      else if c = CHR 0x08 then [CHR 0x5C, CHR ''b'']
      else if c = CHR 0x0C then [CHR 0x5C, CHR ''f'']
      else if c = CHR 0x0A then [CHR 0x5C, CHR ''n'']
      else if c = CHR 0x0D then [CHR 0x5C, CHR ''r'']
      else if c = CHR 0x09 then [CHR 0x5C, CHR ''t'']
      else let u = of_char c :: nat in
        if u < 0x20
        then [CHR 0x5C, CHR ''u'', CHR ''0'', CHR ''0'',
              kHexDigits ! (u div 16), kHexDigits ! (u mod 16)]
        else [c])"

definition escaped_string :: "string \<Rightarrow> string" where
  "escaped_string s = [CHR 0x22] @ concat (map escape_char s) @ [CHR 0x22]"

definition emit_escaped_string :: "string \<Rightarrow> writer \<Rightarrow> writer" where
  "emit_escaped_string s w = put (escaped_string s) w"

definition write_key :: "string \<Rightarrow> writer \<Rightarrow> writer expected" where
  "write_key k w =
     (if hd (jw_stack w) \<noteq> kObject then invariant_violation ''key emitted outside an object''
      else if jw_awaiting w
      then invariant_violation ''two consecutive keys without an intervening value''
      else
        let w1 = (if jw_need_comma w then newline_and_indent (put '','' w) else newline_and_indent w);
            w2 = put '':'' (emit_escaped_string k w1);
            w3 = (if jw_pretty w2 then put '' '' w2 else w2)
        in Inr (w3\<lparr>jw_awaiting := True\<rparr>))"

definition write_scalar :: "string \<Rightarrow> writer \<Rightarrow> writer expected" where
  "write_scalar txt w = sbind (start_value w) (\<lambda>w. Inr ((put txt w)\<lparr>jw_need_comma := True\<rparr>))"

definition value_string :: "string \<Rightarrow> writer \<Rightarrow> writer expected" where
  "value_string s w = sbind (start_value w) (\<lambda>w.
     Inr ((emit_escaped_string s w)\<lparr>jw_need_comma := True\<rparr>))"

definition int_text :: "i64 \<Rightarrow> string" where
  "int_text v = (if sint v < 0 then ''-'' @ to_decimal (nat (- sint v)) else to_decimal (nat (sint v)))"

definition value_int :: "i64 \<Rightarrow> writer \<Rightarrow> writer expected" where
  "value_int v = write_scalar (int_text v)"

definition value_uint :: "u64 \<Rightarrow> writer \<Rightarrow> writer expected" where
  "value_uint v = write_scalar (to_decimal (unat v))"

definition double_is_finite :: "u64 \<Rightarrow> bool" where
  "double_is_finite bits \<longleftrightarrow> drop_bit 52 bits AND 0x7FF \<noteq> 0x7FF"

definition double_text :: "(u64 \<Rightarrow> string) \<Rightarrow> u64 \<Rightarrow> string" where
  "double_text fmt bits = (if \<not> double_is_finite bits then ''null'' else fmt bits)"

definition value_double :: "(u64 \<Rightarrow> string) \<Rightarrow> u64 \<Rightarrow> writer \<Rightarrow> writer expected" where
  "value_double fmt v = write_scalar (double_text fmt v)"

definition value_bool :: "bool \<Rightarrow> writer \<Rightarrow> writer expected" where
  "value_bool v = write_scalar (if v then ''true'' else ''false'')"

definition value_null :: "writer \<Rightarrow> writer expected" where
  "value_null = write_scalar ''null''"

section \<open>Call sequences\<close>

datatype call =
    Begin_Object | End_Object | Begin_Array | End_Array | Key string
  | Value_String string | Value_Int i64 | Value_Uint u64 | Value_Double u64
  | Value_Bool bool | Value_Null

fun do_call :: "(u64 \<Rightarrow> string) \<Rightarrow> call \<Rightarrow> writer \<Rightarrow> writer expected" where
  "do_call fmt Begin_Object = begin_object"
| "do_call fmt End_Object = end_object"
| "do_call fmt Begin_Array = begin_array"
| "do_call fmt End_Array = end_array"
| "do_call fmt (Key k) = write_key k"
| "do_call fmt (Value_String s) = value_string s"
| "do_call fmt (Value_Int v) = value_int v"
| "do_call fmt (Value_Uint v) = value_uint v"
| "do_call fmt (Value_Double v) = value_double fmt v"
| "do_call fmt (Value_Bool v) = value_bool v"
| "do_call fmt Value_Null = value_null"

fun run_calls :: "(u64 \<Rightarrow> string) \<Rightarrow> call list \<Rightarrow> writer \<Rightarrow> writer expected" where
  "run_calls fmt [] w = Inr w"
| "run_calls fmt (c # cs) w = sbind (do_call fmt c w) (run_calls fmt cs)"

lemma run_calls_append: "run_calls fmt (a @ b) w = sbind (run_calls fmt a w) (run_calls fmt b)"
proof (induction a arbitrary: w)
  case (Cons c a)
  then show ?case by (cases "do_call fmt c w") auto
qed simp

section \<open>Accepted sequences spell documents\<close>

text \<open>
  A document, the calls that write it, and its text at nesting depth \<open>d\<close>.  \<open>spelled cs st aw\<close>
  says that the calls \<open>cs\<close> are whole documents up to the containers of \<open>st\<close>, which are open,
  and that a key waits for its value when \<open>aw\<close>.
\<close>

datatype json =
    JNull | JBool bool | JInt i64 | JUint u64 | JDouble u64 | JString string
  | JArray "json list" | JObject "(string \<times> json) list"

fun calls_of :: "json \<Rightarrow> call list" where
  "calls_of JNull = [Value_Null]"
| "calls_of (JBool b) = [Value_Bool b]"
| "calls_of (JInt v) = [Value_Int v]"
| "calls_of (JUint v) = [Value_Uint v]"
| "calls_of (JDouble v) = [Value_Double v]"
| "calls_of (JString s) = [Value_String s]"
| "calls_of (JArray vs) = Begin_Array # concat (map calls_of vs) @ [End_Array]"
| "calls_of (JObject ms) =
     Begin_Object # concat (map (\<lambda>(k, v). Key k # calls_of v) ms) @ [End_Object]"

definition member_calls :: "(string \<times> json) list \<Rightarrow> call list" where
  "member_calls ms = concat (map (\<lambda>(k, v). Key k # calls_of v) ms)"

inductive spelled :: "call list \<Rightarrow> json_context list \<Rightarrow> bool \<Rightarrow> bool" where
  root: "spelled (concat (map calls_of vs)) [kRoot] False"
| in_array: "spelled cs st aw \<Longrightarrow> hd st = kObject \<longrightarrow> aw \<Longrightarrow>
    spelled (cs @ Begin_Array # concat (map calls_of vs)) (kArray # st) False"
| in_object: "spelled cs st aw \<Longrightarrow> hd st = kObject \<longrightarrow> aw \<Longrightarrow>
    spelled (cs @ Begin_Object # member_calls ms) (kObject # st) False"
| after_key: "spelled cs st aw \<Longrightarrow> hd st = kObject \<longrightarrow> aw \<Longrightarrow>
    spelled (cs @ Begin_Object # member_calls ms @ [Key k]) (kObject # st) True"

inductive_cases spelled_arrayE: "spelled cs (kArray # st) aw"
inductive_cases spelled_objectE: "spelled cs (kObject # st) aw"
inductive_cases spelled_rootE: "spelled cs [kRoot] aw"

lemma member_calls_snoc: "member_calls (ms @ [(k, v)]) = member_calls ms @ Key k # calls_of v"
  by (simp add: member_calls_def)

lemma spelled_stack: "spelled cs st aw \<Longrightarrow> st \<noteq> [] \<and> (st = [kRoot] \<or> hd st \<noteq> kRoot)"
  by (induction rule: spelled.induct) auto

lemma spelled_value:
  assumes "spelled cs st aw" and "hd st = kObject \<longrightarrow> aw"
  shows "spelled (cs @ calls_of v) st False"
  using assms
proof (cases rule: spelled.cases)
  case (root vs)
  with spelled.root [of "vs @ [v]"] show ?thesis by simp
next
  case (in_array cs' st' aw' vs)
  with spelled.in_array [of cs' st' aw' "vs @ [v]"] show ?thesis by simp
next
  case (in_object cs' st' aw' ms)
  with assms(2) show ?thesis by simp
next
  case (after_key cs' st' aw' ms k)
  with spelled.in_object [of cs' st' aw' "ms @ [(k, v)]"] show ?thesis
    by (simp add: member_calls_snoc)
qed

lemma spelled_end_array: "spelled cs (kArray # st) aw \<Longrightarrow> spelled (cs @ [End_Array]) st False"
proof (erule spelled_arrayE)
  fix cs' aw' vs
  assume "cs = cs' @ Begin_Array # concat (map calls_of vs)" "spelled cs' st aw'" "hd st = kObject \<longrightarrow> aw'"
  with spelled_value [of cs' st aw' "JArray vs"] show ?thesis by simp
qed

lemma spelled_end_object: "spelled cs (kObject # st) False \<Longrightarrow> spelled (cs @ [End_Object]) st False"
proof (erule spelled_objectE)
  fix cs' aw' ms
  assume "cs = cs' @ Begin_Object # member_calls ms" "spelled cs' st aw'" "hd st = kObject \<longrightarrow> aw'"
  with spelled_value [of cs' st aw' "JObject ms"] show ?thesis by (simp add: member_calls_def)
qed simp

lemma spelled_key: "spelled cs (kObject # st) False \<Longrightarrow> spelled (cs @ [Key k]) (kObject # st) True"
proof (erule spelled_objectE)
  fix cs' aw' ms
  assume "cs = cs' @ Begin_Object # member_calls ms" "spelled cs' st aw'" "hd st = kObject \<longrightarrow> aw'"
  with spelled.after_key [of cs' st aw' ms k] show ?thesis by simp
qed simp

lemma put_fields [simp]:
  "jw_stack (put s w) = jw_stack w" "jw_awaiting (put s w) = jw_awaiting w"
  "jw_out (put s w) = jw_out w @ s" "jw_pretty (put s w) = jw_pretty w"
  "jw_depth (put s w) = jw_depth w" "jw_need_comma (put s w) = jw_need_comma w"
  by (simp_all add: put_def)

lemma newline_fields [simp]:
  "jw_stack (newline_and_indent w) = jw_stack w"
  "jw_awaiting (newline_and_indent w) = jw_awaiting w"
  "jw_pretty (newline_and_indent w) = jw_pretty w"
  "jw_depth (newline_and_indent w) = jw_depth w"
  "jw_need_comma (newline_and_indent w) = jw_need_comma w"
  by (simp_all add: newline_and_indent_def)

lemma separator_fields [simp]:
  "jw_stack (emit_separator_for_value w) = jw_stack w"
  "\<not> jw_awaiting (emit_separator_for_value w)"
  "jw_pretty (emit_separator_for_value w) = jw_pretty w"
  "jw_depth (emit_separator_for_value w) = jw_depth w"
  by (simp_all add: emit_separator_for_value_def)

text \<open>Documents that are a single call, and their text.\<close>

fun scalar_of :: "call \<Rightarrow> json option" where
  "scalar_of (Value_String s) = Some (JString s)"
| "scalar_of (Value_Int v) = Some (JInt v)"
| "scalar_of (Value_Uint v) = Some (JUint v)"
| "scalar_of (Value_Double v) = Some (JDouble v)"
| "scalar_of (Value_Bool b) = Some (JBool b)"
| "scalar_of Value_Null = Some JNull"
| "scalar_of _ = None"

fun json_scalar :: "(u64 \<Rightarrow> string) \<Rightarrow> call \<Rightarrow> string" where
  "json_scalar fmt (Value_String s) = escaped_string s"
| "json_scalar fmt (Value_Int v) = int_text v"
| "json_scalar fmt (Value_Uint v) = to_decimal (unat v)"
| "json_scalar fmt (Value_Double v) = double_text fmt v"
| "json_scalar fmt (Value_Bool b) = (if b then ''true'' else ''false'')"
| "json_scalar fmt _ = ''null''"

lemma scalar_call:
  "scalar_of c = Some v \<Longrightarrow> do_call fmt c = write_scalar (json_scalar fmt c) \<and> calls_of v = [c]"
  by (cases c) (auto simp: value_int_def value_uint_def value_double_def value_bool_def
      value_null_def value_string_def write_scalar_def emit_escaped_string_def fun_eq_iff)

lemma start_value_ok:
  "start_value w = Inr w1 \<longleftrightarrow>
     (hd (jw_stack w) = kObject \<longrightarrow> jw_awaiting w) \<and> w1 = emit_separator_for_value w"
  by (auto simp: start_value_def invariant_violation_def)

lemma container_top: "length st < 2 \<or> hd st \<noteq> c \<or> (\<exists>st'. st = c # st' \<and> st' \<noteq> [])"
  by (cases st rule: list.exhaust; cases "tl st") auto

lemma spelled_call:
  assumes sp: "spelled cs (jw_stack w) (jw_awaiting w)" and ok: "do_call fmt c w = Inr w'"
  shows "spelled (cs @ [c]) (jw_stack w') (jw_awaiting w')"
proof (cases "scalar_of c")
  case (Some v)
  from scalar_call [OF Some, of fmt] ok obtain w1 where "start_value w = Inr w1"
      "jw_stack w' = jw_stack w1" "jw_awaiting w' = jw_awaiting w1" "calls_of v = [c]"
    by (auto simp: write_scalar_def)
  then show ?thesis
    using spelled_value [OF sp, of v] by (auto simp: start_value_ok)
next
  case None
  show ?thesis
  proof (cases c)
    case Begin_Object
    with ok spelled.in_object [OF sp, of "[]"] show ?thesis
      by (auto simp: begin_object_def start_value_ok member_calls_def)
  next
    case Begin_Array
    with ok spelled.in_array [OF sp, of "[]"] show ?thesis
      by (auto simp: begin_array_def start_value_ok)
  next
    case End_Object
    with ok container_top [of "jw_stack w" kObject] obtain st where
      st: "jw_stack w = kObject # st" "\<not> jw_awaiting w"
      by (auto simp: end_object_def invariant_violation_def split: if_split_asm)
    with ok End_Object have "jw_stack w' = st \<and> \<not> jw_awaiting w'"
      by (auto simp: end_object_def invariant_violation_def Let_def split: if_split_asm)
    with st sp spelled_end_object [of cs st] End_Object show ?thesis by simp
  next
    case End_Array
    with ok container_top [of "jw_stack w" kArray] obtain st where st: "jw_stack w = kArray # st"
      by (auto simp: end_array_def invariant_violation_def split: if_split_asm)
    with sp have "\<not> jw_awaiting w" by (auto elim: spelled_arrayE)
    with st ok End_Array have "jw_stack w' = st \<and> \<not> jw_awaiting w'"
      by (auto simp: end_array_def invariant_violation_def Let_def split: if_split_asm)
    with st sp spelled_end_array [of cs st] End_Array show ?thesis by simp
  next
    case (Key k)
    with ok have *: "hd (jw_stack w) = kObject" "\<not> jw_awaiting w"
        "jw_stack w' = jw_stack w" "jw_awaiting w'"
      by (auto simp: write_key_def invariant_violation_def emit_escaped_string_def Let_def
          split: if_split_asm)
    then obtain st where "jw_stack w = kObject # st"
      using spelled_stack [OF sp] by (cases "jw_stack w") auto
    with * sp spelled_key [of cs st k] Key show ?thesis by simp
  qed (use None in simp_all)
qed

lemma spelled_run:
  "run_calls fmt ds w = Inr w' \<Longrightarrow> spelled cs (jw_stack w) (jw_awaiting w) \<Longrightarrow>
     spelled (cs @ ds) (jw_stack w') (jw_awaiting w')"
proof (induction ds arbitrary: cs w)
  case (Cons d ds)
  then obtain w1 where "do_call fmt d w = Inr w1" "run_calls fmt ds w1 = Inr w'" by auto
  with Cons.IH [of w1 "cs @ [d]"] spelled_call [OF Cons.prems(2)] show ?case by simp
qed simp

lemma accepted_spelled:
  assumes "run_calls fmt cs (writer_new p) = Inr w" and "jw_stack w = [kRoot]"
  shows "\<exists>vs. cs = concat (map calls_of vs)"
proof -
  have "spelled ([] @ cs) (jw_stack w) (jw_awaiting w)"
    using assms(1) by (rule spelled_run) (use spelled.root [of "[]"] in \<open>simp add: writer_new_def\<close>)
  with assms(2) show ?thesis by (auto elim: spelled_rootE)
qed

section \<open>The text of a document\<close>

definition line_break :: "bool \<Rightarrow> nat \<Rightarrow> string" where
  "line_break p d = (if p then CHR 0x0A # replicate (2 * d) (CHR '' '') else [])"

text \<open>The items of a container, \<open>nc\<close> when one precedes them.\<close>

fun items_text :: "bool \<Rightarrow> nat \<Rightarrow> bool \<Rightarrow> string list \<Rightarrow> string" where
  "items_text p d nc [] = []"
| "items_text p d nc (t # ts) =
     (if nc then '','' else []) @ line_break p d @ t @ items_text p d True ts"

definition closing :: "bool \<Rightarrow> nat \<Rightarrow> 'a list \<Rightarrow> string" where
  "closing p d xs = (if xs = [] then [] else line_break p d)"

fun json_text :: "(u64 \<Rightarrow> string) \<Rightarrow> bool \<Rightarrow> nat \<Rightarrow> json \<Rightarrow> string" where
  "json_text fmt p d (JArray vs) =
     ''['' @ items_text p (d + 1) False (map (json_text fmt p (d + 1)) vs) @ closing p d vs @ '']''"
| "json_text fmt p d (JObject ms) =
     ''{'' @ items_text p (d + 1) False
       (map (\<lambda>(k, v). escaped_string k @ '':'' @ (if p then '' '' else []) @ json_text fmt p (d + 1) v) ms)
     @ closing p d ms @ ''}''"
| "json_text fmt p d v = json_scalar fmt (hd (calls_of v))"

text \<open>Documents written one after the other at the root.\<close>

fun docs_text :: "(u64 \<Rightarrow> string) \<Rightarrow> bool \<Rightarrow> json list \<Rightarrow> string" where
  "docs_text fmt p [] = []"
| "docs_text fmt p (v # vs) = json_text fmt p 0 v @ items_text p 0 True (map (json_text fmt p 0) vs)"

lemma newline_put: "jw_pretty w = p \<Longrightarrow> jw_depth w = int d \<Longrightarrow> newline_and_indent w = put (line_break p d) w"
  by (simp add: newline_and_indent_def line_break_def put_def kIndentSpaces_def nat_mult_distrib mult.commute)

lemma put_put [simp]: "put b (put a w) = put (a @ b) w"
  by (simp add: put_def)

lemma put_Nil [simp]: "put [] w = w"
  by (simp add: put_def)

lemma scalar_run:
  "start_value w = Inr w1 \<Longrightarrow> scalar_of c = Some v \<Longrightarrow>
     run_calls fmt [c] w = Inr ((put (json_scalar fmt c) w1)\<lparr>jw_need_comma := True\<rparr>)"
  by (simp add: scalar_call write_scalar_def)

text \<open>The writer after it has put out the text \<open>t\<close> of a value.\<close>

definition wrote :: "string \<Rightarrow> writer \<Rightarrow> writer" where
  "wrote t w = (put t w)\<lparr>jw_need_comma := True\<rparr>"

lemma wrote_fields [simp]:
  "jw_stack (wrote s w) = jw_stack w" "jw_awaiting (wrote s w) = jw_awaiting w"
  "jw_out (wrote s w) = jw_out w @ s" "jw_pretty (wrote s w) = jw_pretty w"
  "jw_depth (wrote s w) = jw_depth w" "jw_need_comma (wrote s w)"
  by (simp_all add: wrote_def)

definition separator :: "bool \<Rightarrow> nat \<Rightarrow> bool \<Rightarrow> string" where
  "separator p d nc = (if nc then '','' else []) @ line_break p d"

lemma separator_item:
  "\<not> jw_awaiting w \<Longrightarrow> jw_need_comma w \<or> hd (jw_stack w) \<noteq> kRoot \<Longrightarrow> jw_pretty w = p \<Longrightarrow>
     jw_depth w = int d \<Longrightarrow> emit_separator_for_value w = put (separator p d (jw_need_comma w)) w"
  by (auto simp: emit_separator_for_value_def separator_def newline_put)

lemma put_wrote [simp]: "put t (wrote s w) = wrote (s @ t) w" "wrote t (put s w) = wrote (s @ t) w"
    "wrote t (wrote s w) = wrote (s @ t) w"
  by (simp_all add: wrote_def put_def)

lemma elements_run:
  assumes v: "\<And>v w w1. v \<in> set vs \<Longrightarrow> start_value w = Inr w1 \<Longrightarrow> jw_depth w = int d \<Longrightarrow> jw_pretty w = p \<Longrightarrow>
      jw_stack w \<noteq> [] \<Longrightarrow> run_calls fmt (calls_of v) w = Inr (wrote (txt v) w1)"
    and "\<not> jw_awaiting w" "hd (jw_stack w) \<noteq> kObject" "jw_stack w \<noteq> []" "jw_need_comma w \<or> hd (jw_stack w) \<noteq> kRoot"
    and "jw_pretty w = p" "jw_depth w = int d"
  shows "run_calls fmt (concat (map calls_of vs)) w = Inr (if vs = [] then w
      else wrote (items_text p d (jw_need_comma w) (map txt vs)) w)"
  using assms
proof (induction vs arbitrary: w)
  case (Cons x vs)
  have "start_value w = Inr (put (separator p d (jw_need_comma w)) w)"
    using Cons.prems by (simp add: start_value_ok separator_item)
  with Cons.prems have x: "run_calls fmt (calls_of x) w =
      Inr (wrote (separator p d (jw_need_comma w) @ txt x) w)"
    by simp
  have "run_calls fmt (concat (map calls_of vs)) (wrote (separator p d (jw_need_comma w) @ txt x) w) =
      Inr (if vs = [] then wrote (separator p d (jw_need_comma w) @ txt x) w
        else wrote (items_text p d True (map txt vs)) (wrote (separator p d (jw_need_comma w) @ txt x) w))"
    using Cons.IH [of "wrote (separator p d (jw_need_comma w) @ txt x) w"] Cons.prems by simp
  with x show ?case by (auto simp: run_calls_append separator_def)
qed simp

lemma key_run:
  "hd (jw_stack w) = kObject \<Longrightarrow> \<not> jw_awaiting w \<Longrightarrow> jw_pretty w = p \<Longrightarrow> jw_depth w = int d \<Longrightarrow>
     write_key k w = Inr ((put (separator p d (jw_need_comma w) @ escaped_string k @ '':'' @
       (if p then '' '' else [])) w)\<lparr>jw_awaiting := True\<rparr>)"
  by (auto simp: write_key_def Let_def newline_put emit_escaped_string_def separator_def)

lemma awaiting_value:
  "jw_stack w \<noteq> [] \<Longrightarrow> start_value (w\<lparr>jw_awaiting := True\<rparr>) = Inr (w\<lparr>jw_awaiting := False\<rparr>)"
  by (simp add: start_value_def emit_separator_for_value_def)

definition member_text :: "(json \<Rightarrow> string) \<Rightarrow> bool \<Rightarrow> string \<times> json \<Rightarrow> string" where
  "member_text txt p = (\<lambda>(k, v). escaped_string k @ '':'' @ (if p then '' '' else []) @ txt v)"

lemma members_run:
  assumes v: "\<And>k v w w1. (k, v) \<in> set ms \<Longrightarrow> start_value w = Inr w1 \<Longrightarrow> jw_depth w = int d \<Longrightarrow>
      jw_pretty w = p \<Longrightarrow> jw_stack w \<noteq> [] \<Longrightarrow>
      run_calls fmt (calls_of v) w = Inr (wrote (txt v) w1)"
    and "\<not> jw_awaiting w" "hd (jw_stack w) = kObject" "jw_stack w \<noteq> []"
    and "jw_pretty w = p" "jw_depth w = int d"
  shows "run_calls fmt (member_calls ms) w = Inr (if ms = [] then w
      else wrote (items_text p d (jw_need_comma w) (map (member_text txt p) ms)) w)"
  using assms
proof (induction ms arbitrary: w)
  case (Cons m ms)
  obtain k x where m: "m = (k, x)" by fastforce
  have rest: "run_calls fmt (calls_of v) w = Inr (wrote (txt v) w1)"
    if "(k, v) \<in> set ms" "start_value w = Inr w1" "jw_depth w = int d" "jw_pretty w = p"
      "jw_stack w \<noteq> []" for k v w w1
    using Cons.prems(1) [of k v w w1] that by simp
  define w1 where "w1 = put (separator p d (jw_need_comma w) @ escaped_string k @ '':'' @
       (if p then '' '' else [])) w"
  have k: "write_key k w = Inr (w1\<lparr>jw_awaiting := True\<rparr>)"
    unfolding w1_def using Cons.prems by (intro key_run) auto
  have w1: "w1\<lparr>jw_awaiting := False\<rparr> = w1" "jw_stack w1 \<noteq> []"
    using Cons.prems by (simp_all add: w1_def put_def)
  have "run_calls fmt (calls_of x) (w1\<lparr>jw_awaiting := True\<rparr>) = Inr (wrote (txt x) w1)"
    using Cons.prems(1) [of k x "w1\<lparr>jw_awaiting := True\<rparr>" w1] awaiting_value [OF w1(2)] Cons.prems(4,5,6) w1
    by (simp add: m) (simp add: w1_def)
  moreover have w1': "wrote (txt x) w1 = wrote (separator p d (jw_need_comma w) @ member_text txt p m) w"
    by (simp add: w1_def m member_text_def)
  moreover have "member_calls (m # ms) = Key k # calls_of x @ member_calls ms"
    by (simp add: member_calls_def m)
  ultimately have step: "run_calls fmt (member_calls (m # ms)) w =
      run_calls fmt (member_calls ms) (wrote (separator p d (jw_need_comma w) @ member_text txt p m) w)"
    using k by (simp add: run_calls_append)
  define w2 where "w2 = wrote (separator p d (jw_need_comma w) @ member_text txt p m) w"
  have f: "\<not> jw_awaiting w2" "hd (jw_stack w2) = kObject" "jw_stack w2 \<noteq> []" "jw_pretty w2 = p"
      "jw_depth w2 = int d" "jw_need_comma w2"
    unfolding w2_def using Cons.prems(2-) by simp_all
  have "run_calls fmt (member_calls ms) w2 = Inr (if ms = [] then w2
      else wrote (items_text p d (jw_need_comma w2) (map (member_text txt p) ms)) w2)"
    using rest f(1-5) by (rule Cons.IH)
  then show ?case unfolding step w2_def [symmetric] using f(6) by (simp add: w2_def separator_def)
qed (simp add: member_calls_def)

lemma json_run:
  "start_value w = Inr w1 \<Longrightarrow> jw_depth w = int d \<Longrightarrow> jw_pretty w = p \<Longrightarrow> jw_stack w \<noteq> [] \<Longrightarrow>
     run_calls fmt (calls_of v) w = Inr (wrote (json_text fmt p d v) w1)"
proof (induction v arbitrary: w w1 d rule: calls_of.induct)
  case (7 vs)
  define w2 where "w2 = (put ''['' w1)\<lparr>jw_stack := kArray # jw_stack w1, jw_depth := jw_depth w1 + 1,
      jw_need_comma := False\<rparr>"
  have w1: "jw_depth w1 = int d" "jw_pretty w1 = p" "\<not> jw_awaiting w1" "jw_stack w1 \<noteq> []"
    using "7.prems" by (auto simp: start_value_ok)
  have b: "begin_array w = Inr w2"
    using "7.prems"(1) by (simp add: begin_array_def w2_def)
  have "run_calls fmt (concat (map calls_of vs)) w2 = Inr (if vs = [] then w2
      else wrote (items_text p (d + 1) (jw_need_comma w2) (map (json_text fmt p (d + 1)) vs)) w2)"
    by (rule elements_run) (use "7.IH" w1 in \<open>simp_all add: w2_def\<close>)
  then show ?case
    using b w1 by (auto simp: run_calls_append end_array_def newline_put Let_def closing_def w2_def
        wrote_def put_def line_break_def)
next
  case (8 ms)
  define w2 where "w2 = (put ''{'' w1)\<lparr>jw_stack := kObject # jw_stack w1, jw_depth := jw_depth w1 + 1,
      jw_need_comma := False\<rparr>"
  have w1: "jw_depth w1 = int d" "jw_pretty w1 = p" "\<not> jw_awaiting w1" "jw_stack w1 \<noteq> []"
    using "8.prems" by (auto simp: start_value_ok)
  have b: "begin_object w = Inr w2"
    using "8.prems"(1) by (simp add: begin_object_def w2_def)
  have "run_calls fmt (member_calls ms) w2 = Inr (if ms = [] then w2
      else wrote (items_text p (d + 1) (jw_need_comma w2)
        (map (member_text (json_text fmt p (d + 1)) p) ms)) w2)"
    by (rule members_run) (use "8.IH" w1 in \<open>auto simp: w2_def\<close>)
  then show ?case
    using b w1 by (auto simp: run_calls_append end_object_def newline_put Let_def closing_def w2_def
        wrote_def put_def line_break_def member_text_def member_calls_def)
qed (simp_all add: write_scalar_def value_int_def value_uint_def value_double_def value_bool_def
      value_null_def value_string_def emit_escaped_string_def wrote_def)

lemma docs_run:
  "run_calls fmt (concat (map calls_of vs)) (writer_new p) =
     Inr (if vs = [] then writer_new p else wrote (docs_text fmt p vs) (writer_new p))"
proof (cases vs)
  case (Cons v us)
  have "start_value (writer_new p) = Inr (writer_new p)"
    by (simp add: start_value_def emit_separator_for_value_def writer_new_def)
  then have v: "run_calls fmt (calls_of v) (writer_new p) =
      Inr (wrote (json_text fmt p 0 v) (writer_new p))"
    by (rule json_run) (simp_all add: writer_new_def)
  have "run_calls fmt (concat (map calls_of us)) (wrote (json_text fmt p 0 v) (writer_new p)) =
      Inr (if us = [] then wrote (json_text fmt p 0 v) (writer_new p)
      else wrote (items_text p 0 (jw_need_comma (wrote (json_text fmt p 0 v) (writer_new p)))
        (map (json_text fmt p 0) us)) (wrote (json_text fmt p 0 v) (writer_new p)))"
    by (rule elements_run) (use json_run in \<open>simp_all add: writer_new_def\<close>)
  with v Cons show ?thesis by (auto simp: run_calls_append)
qed simp

text \<open>
  C7: a sequence of writer calls is accepted and leaves every container closed exactly when
  it spells a list of documents, and then the output is their text: members and elements in
  order, a comma before every item but the first of its container and, when pretty, each
  item on a line of its own indented by two spaces per level.
\<close>

theorem writer_accepts_documents:
  "(\<exists>w. run_calls fmt cs (writer_new p) = Inr w \<and> jw_stack w = [kRoot] \<and> jw_out w = t) \<longleftrightarrow>
   (\<exists>vs. cs = concat (map calls_of vs) \<and> t = docs_text fmt p vs)"
proof
  assume "\<exists>w. run_calls fmt cs (writer_new p) = Inr w \<and> jw_stack w = [kRoot] \<and> jw_out w = t"
  then obtain w where w: "run_calls fmt cs (writer_new p) = Inr w" "jw_stack w = [kRoot]" "jw_out w = t"
    by blast
  from accepted_spelled [OF w(1,2)] obtain vs where "cs = concat (map calls_of vs)" by blast
  moreover from this w docs_run [of fmt vs p] have "t = docs_text fmt p vs"
    by (auto simp: writer_new_def split: if_split_asm)
  ultimately show "\<exists>vs. cs = concat (map calls_of vs) \<and> t = docs_text fmt p vs" by blast
next
  assume "\<exists>vs. cs = concat (map calls_of vs) \<and> t = docs_text fmt p vs"
  then obtain vs where "cs = concat (map calls_of vs)" "t = docs_text fmt p vs" by blast
  then show "\<exists>w. run_calls fmt cs (writer_new p) = Inr w \<and> jw_stack w = [kRoot] \<and> jw_out w = t"
    using docs_run [of fmt vs p] by (auto simp: writer_new_def)
qed

text \<open>
  The writer does not stop at the first document: a second value at root level is
  accepted and put out after a comma, which is not a JSON text.
\<close>

theorem second_root_value_accepted:
  "\<exists>w. run_calls fmt [Value_Null, Value_Bool True] (writer_new False) = Inr w \<and>
     jw_stack w = [kRoot] \<and> jw_out w = ''null,true''"
proof -
  have "run_calls fmt (concat (map calls_of [JNull, JBool True])) (writer_new False) =
      Inr (wrote ''null,true'' (writer_new False))"
    unfolding docs_run by (simp add: line_break_def)
  moreover have "concat (map calls_of [JNull, JBool True]) = [Value_Null, Value_Bool True]" by simp
  moreover have "jw_stack (wrote t (writer_new False)) = [kRoot] \<and> jw_out (wrote t (writer_new False)) = t" for t
    by (simp add: writer_new_def)
  ultimately show ?thesis by metis
qed

section \<open>Escaping\<close>

definition hex_nibble :: "char \<Rightarrow> nat" where
  "hex_nibble c = length (takeWhile (\<lambda>d. d \<noteq> c) kHexDigits)"

text \<open>A reader of string contents for the escapes the writer uses; it stops at the quote.\<close>

definition short_escape :: "char \<Rightarrow> char option" where
  "short_escape c = map_of [(CHR 0x22, CHR 0x22), (CHR 0x5C, CHR 0x5C), (CHR ''b'', CHR 0x08),
     (CHR ''f'', CHR 0x0C), (CHR ''n'', CHR 0x0A), (CHR ''r'', CHR 0x0D), (CHR ''t'', CHR 0x09)] c"

fun read_string :: "string \<Rightarrow> (string \<times> string) option" where
  "read_string [] = None"
| "read_string (c # cs) =
     (if c = CHR 0x22 then Some ([], cs)
      else if c \<noteq> CHR 0x5C then
        (if (of_char c :: nat) < 0x20 then None
         else map_option (apfst ((#) c)) (read_string cs))
      else case cs of
          [] \<Rightarrow> None
        | e # ds \<Rightarrow>
           (case short_escape e of
              Some d \<Rightarrow> map_option (apfst ((#) d)) (read_string ds)
            | None \<Rightarrow>
               (case ds of
                  a # b # h # l # es \<Rightarrow>
                    if e = CHR ''u'' \<and> a = CHR ''0'' \<and> b = CHR ''0''
                    then map_option (apfst ((#) (char_of (16 * hex_nibble h + hex_nibble l)))) (read_string es)
                    else None
                | _ \<Rightarrow> None)))"

declare read_string.simps [simp del]

lemma read_quote: "read_string (CHR 0x22 # cs) = Some ([], cs)"
  by (simp add: read_string.simps)

lemma read_plain:
  "c \<noteq> CHR 0x22 \<Longrightarrow> c \<noteq> CHR 0x5C \<Longrightarrow> \<not> (of_char c :: nat) < 32 \<Longrightarrow>
     read_string (c # cs) = map_option (apfst ((#) c)) (read_string cs)"
  by (subst read_string.simps) simp

lemma read_short:
  "short_escape e = Some d \<Longrightarrow>
     read_string (CHR 0x5C # e # ds) = map_option (apfst ((#) d)) (read_string ds)"
  by (subst read_string.simps) simp

lemma read_hex:
  "read_string (CHR 0x5C # CHR ''u'' # CHR ''0'' # CHR ''0'' # h # l # es) =
     map_option (apfst ((#) (char_of (16 * hex_nibble h + hex_nibble l)))) (read_string es)"
  by (subst read_string.simps) (simp add: short_escape_def)

lemma hex_nibble_nth: "n < 16 \<Longrightarrow> hex_nibble (kHexDigits ! n) = n"
proof -
  assume "n < 16"
  then have "n \<in> set [0..<16]" by simp
  moreover have "\<forall>n\<in>set [0..<16]. hex_nibble (kHexDigits ! n) = n" by code_simp
  ultimately show ?thesis by blast
qed

lemma read_escape: "read_string (escape_char c @ rest) = map_option (apfst ((#) c)) (read_string rest)"
proof -
  let ?special = "{CHR 0x22, CHR 0x5C, CHR 0x08, CHR 0x0C, CHR 0x0A, CHR 0x0D, CHR 0x09}"
  consider "c \<in> ?special" | "c \<notin> ?special" "(of_char c :: nat) < 32"
    | "c \<notin> ?special" "\<not> (of_char c :: nat) < 32" by blast
  then show ?thesis
  proof cases
    case 1
    then have "\<exists>e. escape_char c = [CHR 0x5C, e] \<and> short_escape e = Some c"
      by (auto simp: escape_char_def short_escape_def)
    then show ?thesis by (auto simp: read_short)
  next
    case 2
    then have "escape_char c = [CHR 0x5C, CHR ''u'', CHR ''0'', CHR ''0'',
        kHexDigits ! (of_char c div 16), kHexDigits ! (of_char c mod 16)]"
      by (simp add: escape_char_def Let_def)
    moreover have "(of_char c :: nat) div 16 < 16" "(of_char c :: nat) mod 16 < 16"
      using 2(2) by simp_all
    ultimately show ?thesis by (simp add: read_hex hex_nibble_nth)
  next
    case 3
    then have "escape_char c = [c]" by (simp add: escape_char_def)
    with 3 show ?thesis by (simp add: read_plain)
  qed
qed

lemma read_body: "read_string (concat (map escape_char s) @ CHR 0x22 # rest) = Some (s, rest)"
  by (induction s) (simp_all add: read_quote read_escape)

lemma escape_printable: "c' \<in> set (escape_char c) \<Longrightarrow> 0x20 \<le> (of_char c' :: nat)"
proof -
  have "\<forall>d\<in>set kHexDigits. 0x20 \<le> (of_char d :: nat)" by (simp add: kHexDigits_def)
  moreover have "(of_char c :: nat) < 32 \<Longrightarrow> kHexDigits ! (of_char c div 16) \<in> set kHexDigits \<and>
      kHexDigits ! (of_char c mod 16) \<in> set kHexDigits"
    by (intro conjI nth_mem) (simp_all add: kHexDigits_def)
  ultimately show "c' \<in> set (escape_char c) \<Longrightarrow> 0x20 \<le> (of_char c' :: nat)"
    by (auto simp: escape_char_def Let_def split: if_split_asm)
qed

text \<open>
  The quoted form of a string has no control character, is read back to exactly the
  string and ends where it was put out to end, whatever follows it.
\<close>

theorem escaped_string_roundtrip:
  "read_string (tl (escaped_string s) @ rest) = Some (s, rest) \<and> hd (escaped_string s) = CHR 0x22 \<and>
   list_all (\<lambda>c. 0x20 \<le> (of_char c :: nat)) (escaped_string s)"
  using read_body [of s rest] escape_printable by (auto simp: escaped_string_def list_all_iff)

end
