(* ===== verification/Byte_Cursor.thy ===== *)
theory Byte_Cursor
  imports Papa_Prelude
begin

text \<open>
  The bounds-checked reader of byte_cursor.h.  A read that returns false leaves the cursor
  unchanged and is \<^const>\<open>None\<close>; a successful one is the value with the advanced cursor.
\<close>

section \<open>Reads\<close>

record cursor =
  cur_buf :: "u8 list"
  cur_pos :: nat

definition cursor_at :: "u8 list \<Rightarrow> cursor" where
  "cursor_at buf = \<lparr>cur_buf = buf, cur_pos = 0\<rparr>"

definition remaining :: "cursor \<Rightarrow> nat \<Rightarrow> bool" where
  "remaining c n \<longleftrightarrow> cur_pos c + n \<le> length (cur_buf c)"

definition peek :: "cursor \<Rightarrow> nat \<Rightarrow> u8" where
  "peek c i = cur_buf c ! (cur_pos c + i)"

definition advance :: "cursor \<Rightarrow> nat \<Rightarrow> cursor" where
  "advance c n = c\<lparr>cur_pos := cur_pos c + n\<rparr>"

definition read_u8 :: "cursor \<Rightarrow> (u8 \<times> cursor) option" where
  "read_u8 c = (if \<not> remaining c 1 then None else Some (peek c 0, advance c 1))"

definition read_u16_le :: "cursor \<Rightarrow> (u16 \<times> cursor) option" where
  "read_u16_le c =
     (if \<not> remaining c 2 then None
      else Some (ucast (peek c 0) OR push_bit 8 (ucast (peek c 1)), advance c 2))"

definition read_u32_le :: "cursor \<Rightarrow> (u32 \<times> cursor) option" where
  "read_u32_le c =
     (if \<not> remaining c 4 then None
      else Some (foldl (\<lambda>v i. v OR push_bit (8 * i) (ucast (peek c i))) 0 [0..<4], advance c 4))"

definition read_vle16 :: "cursor \<Rightarrow> (u16 \<times> cursor) option" where
  "read_vle16 c =
     (if \<not> remaining c 1 then None
      else let b0 = peek c 0 in
        if b0 AND 0x80 = 0 then Some (ucast b0, advance c 1)
        else if \<not> remaining c 2 then None
        else Some (push_bit 8 (ucast (b0 AND 0x7F)) OR ucast (peek c 1), advance c 2))"

definition read_vle32 :: "cursor \<Rightarrow> (u32 \<times> cursor) option" where
  "read_vle32 c =
     (if \<not> remaining c 1 then None
      else let b0 = peek c 0 in
        if b0 AND 0x80 \<noteq> 0x80 then Some (ucast b0, advance c 1)
        else if b0 AND 0xC0 \<noteq> 0xC0 then
          if \<not> remaining c 2 then None
          else Some (push_bit 8 (ucast (b0 AND 0x7F)) OR ucast (peek c 1), advance c 2)
        else if b0 AND 0xE0 \<noteq> 0xE0 then
          if \<not> remaining c 4 then None
          else Some (push_bit 24 (ucast (b0 AND 0x3F)) OR push_bit 16 (ucast (peek c 1)) OR
                     push_bit 8 (ucast (peek c 2)) OR ucast (peek c 3), advance c 4)
        else if \<not> remaining c 5 then None
        else Some (push_bit 24 (ucast (peek c 1)) OR push_bit 16 (ucast (peek c 2)) OR
                   push_bit 8 (ucast (peek c 3)) OR ucast (peek c 4), advance c 5))"

definition read_bytes :: "cursor \<Rightarrow> nat \<Rightarrow> (u8 list \<times> cursor) option" where
  "read_bytes c n =
     (if \<not> remaining c n then None else Some (take n (drop (cur_pos c) (cur_buf c)), advance c n))"

section \<open>Progress\<close>

text \<open>
  \<open>moved c c'\<close>: the cursor went strictly forward in the same buffer, inside it.
\<close>

definition cursor_ok :: "cursor \<Rightarrow> bool" where
  "cursor_ok c \<longleftrightarrow> cur_pos c \<le> length (cur_buf c)"

definition left :: "cursor \<Rightarrow> nat" where
  "left c = length (cur_buf c) - cur_pos c"

definition moved :: "cursor \<Rightarrow> cursor \<Rightarrow> bool" where
  "moved c c' \<longleftrightarrow> cur_buf c' = cur_buf c \<and> cur_pos c < cur_pos c' \<and> cur_pos c' \<le> length (cur_buf c)"

named_theorems cursor_moves

lemma moved_left: "moved c c' \<Longrightarrow> left c' < left c"
  by (auto simp: moved_def left_def)

lemma moved_trans: "moved c c' \<Longrightarrow> moved c' c'' \<Longrightarrow> moved c c''"
  by (auto simp: moved_def)

lemma moved_ok: "moved c c' \<Longrightarrow> cursor_ok c'"
  by (simp add: moved_def cursor_ok_def)

lemma moved_advance: "remaining c n \<Longrightarrow> 0 < n \<Longrightarrow> moved c (advance c n)"
  by (simp add: moved_def remaining_def advance_def)

lemma read_u8_moved [cursor_moves]: "read_u8 c = Some (x, c') \<Longrightarrow> moved c c'"
  by (auto simp: read_u8_def moved_advance split: if_split_asm)

lemma read_u16_le_moved [cursor_moves]: "read_u16_le c = Some (x, c') \<Longrightarrow> moved c c'"
  by (auto simp: read_u16_le_def moved_advance split: if_split_asm)

lemma read_u32_le_moved [cursor_moves]: "read_u32_le c = Some (x, c') \<Longrightarrow> moved c c'"
  by (auto simp: read_u32_le_def moved_advance split: if_split_asm)

lemma read_vle16_moved [cursor_moves]: "read_vle16 c = Some (x, c') \<Longrightarrow> moved c c'"
  by (auto simp: read_vle16_def moved_advance Let_def split: if_split_asm)

lemma read_vle32_moved [cursor_moves]: "read_vle32 c = Some (x, c') \<Longrightarrow> moved c c'"
  by (auto simp: read_vle32_def moved_advance Let_def split: if_split_asm)

lemma read_bytes_result:
  "read_bytes c n = Some (bs, c') \<Longrightarrow> length bs = n \<and> c' = advance c n \<and> remaining c n"
  by (auto simp: read_bytes_def remaining_def split: if_split_asm)

section \<open>Variable-length integers\<close>

text \<open>The FLAIR encodings, shortest form.\<close>

definition encode_vle16 :: "u16 \<Rightarrow> u8 list" where
  "encode_vle16 v = (if v < 0x80 then [ucast v] else [ucast (drop_bit 8 v) OR 0x80, ucast v])"

definition encode_vle32 :: "u32 \<Rightarrow> u8 list" where
  "encode_vle32 v =
     (if v < 0x80 then [ucast v]
      else if v < 0x4000 then [ucast (drop_bit 8 v) OR 0x80, ucast v]
      else if v < 0x20000000 then
        [ucast (drop_bit 24 v) OR 0xC0, ucast (drop_bit 16 v), ucast (drop_bit 8 v), ucast v]
      else [0xE0, ucast (drop_bit 24 v), ucast (drop_bit 16 v), ucast (drop_bit 8 v), ucast v])"

text \<open>The lead byte tests, as tests of single bits.\<close>

lemma below_8: "n < 8 \<Longrightarrow> n \<in> {0, 1, 2, 3, 4, 5, 6, 7 :: nat}"
  unfolding insert_iff empty_iff by arith

lemma below_32: "n < 32 \<Longrightarrow> n \<in> {0, 1, 2, 3, 4, 5, 6, 7} \<union> {8, 9, 10, 11, 12, 13, 14, 15} \<union>
    {16, 17, 18, 19, 20, 21, 22, 23} \<union> {24, 25, 26, 27, 28, 29, 30, 31 :: nat}"
  unfolding Un_iff insert_iff empty_iff by arith

lemma bit_lead:
  "bit (0x80 :: u8) n \<longleftrightarrow> n = 7"
  "bit (0xC0 :: u8) n \<longleftrightarrow> n = 6 \<or> n = 7"
  "bit (0xE0 :: u8) n \<longleftrightarrow> n = 5 \<or> n = 6 \<or> n = 7"
  by (cases "n < 8"; (drule below_8, elim insertE emptyE, simp_all)?; auto dest: bit_imp_le_length)+

lemma lead_tests:
  "(b AND 0x80 = 0) = (\<not> bit b 7)" "(b AND 0x80 = 0x80) = bit b 7"
  "(b AND 0xC0 = 0xC0) = (bit b 7 \<and> bit b 6)"
  "(b AND 0xE0 = 0xE0) = (bit b 7 \<and> bit b 6 \<and> bit b 5)" for b :: u8
  by (auto simp: bit_eq_iff [where 'a = u8] bit_and_iff bit_lead simp del: bit_numeral_word_iff)
    ((drule spec [where x = 7], force) | (drule spec [where x = 6], force) |
     (drule spec [where x = 5], force))+

lemma mask_lead: "0x7F = (mask 7 :: u8)" "0x3F = (mask 6 :: u8)"
  by (simp_all add: mask_eq_exp_minus_1)

lemma bit_small: "unat v < 2 ^ k \<Longrightarrow> k \<le> n \<Longrightarrow> \<not> bit v n" for v :: "'a::len word"
proof -
  assume v: "unat v < 2 ^ k" and n: "k \<le> n"
  have "(2::nat) ^ k \<le> 2 ^ n" using n by simp
  with v have "unat v < 2 ^ n" by linarith
  then have "unat v div 2 ^ n = 0" by simp
  then have "\<not> bit (unat v) n" by (simp add: bit_iff_odd)
  then show ?thesis by (simp add: bit_unsigned_iff)
qed

lemma peek_at: "drop (cur_pos c) (cur_buf c) = bs @ rest \<Longrightarrow> i < length bs \<Longrightarrow> peek c i = bs ! i"
proof -
  assume d: "drop (cur_pos c) (cur_buf c) = bs @ rest" and i: "i < length bs"
  then have "cur_pos c + i < length (cur_buf c)"
    by (metis add.commute length_append length_drop less_diff_conv trans_less_add1)
  then have "peek c i = drop (cur_pos c) (cur_buf c) ! i" by (simp add: peek_def)
  with d i show ?thesis by (simp add: nth_append)
qed

lemma remaining_at: "drop (cur_pos c) (cur_buf c) = bs @ rest \<Longrightarrow> bs \<noteq> [] \<Longrightarrow> n \<le> length bs \<Longrightarrow> remaining c n"
  by (drule arg_cong [of _ _ length], cases bs) (auto simp: remaining_def)

text \<open>Two words that agree on each of the 32 positions are equal.\<close>

lemma word32_eqI: "(\<And>n. n < 32 \<Longrightarrow> bit a n = bit b n) \<Longrightarrow> a = b" for a b :: u32
  by (rule bit_word_eqI) simp

lemma vle32_two:
  assumes "v < 0x4000" shows "push_bit 8 (ucast ((ucast (drop_bit 8 v) OR 0x80) AND 0x7F :: u8)) OR
    ucast (ucast v :: u8) = (v :: u32)"
proof (rule word32_eqI)
  have small: "\<not> bit v n" if "14 \<le> n" for n
    using bit_small [of v 14 n] assms that by (simp add: word_less_nat_alt)
  fix n :: nat assume "n < 32"
  then show "bit (push_bit 8 (ucast ((ucast (drop_bit 8 v) OR 0x80) AND 0x7F :: u8)) OR
      ucast (ucast v :: u8) :: u32) n = bit v n"
    by (elim below_32 [THEN UnE] UnE insertE emptyE; simp add: bit_simps small)
qed

lemma vle32_four:
  assumes "v < 0x20000000"
  shows "push_bit 24 (ucast ((ucast (drop_bit 24 v) OR 0xC0) AND 0x3F :: u8)) OR
    push_bit 16 (ucast (ucast (drop_bit 16 v) :: u8)) OR push_bit 8 (ucast (ucast (drop_bit 8 v) :: u8)) OR
    ucast (ucast v :: u8) = (v :: u32)"
proof (rule word32_eqI)
  have small: "\<not> bit v n" if "29 \<le> n" for n
    using bit_small [of v 29 n] assms that by (simp add: word_less_nat_alt)
  fix n :: nat assume "n < 32"
  then show "bit (push_bit 24 (ucast ((ucast (drop_bit 24 v) OR 0xC0) AND 0x3F :: u8)) OR
      push_bit 16 (ucast (ucast (drop_bit 16 v) :: u8)) OR push_bit 8 (ucast (ucast (drop_bit 8 v) :: u8)) OR
      ucast (ucast v :: u8) :: u32) n = bit v n"
    by (elim below_32 [THEN UnE] UnE insertE emptyE; simp add: bit_simps small)
qed

lemma vle32_five:
  "push_bit 24 (ucast (ucast (drop_bit 24 v) :: u8)) OR
    push_bit 16 (ucast (ucast (drop_bit 16 v) :: u8)) OR push_bit 8 (ucast (ucast (drop_bit 8 v) :: u8)) OR
    ucast (ucast v :: u8) = (v :: u32)"
proof (rule word32_eqI)
  fix n :: nat assume "n < 32"
  then show "bit (push_bit 24 (ucast (ucast (drop_bit 24 v) :: u8)) OR
    push_bit 16 (ucast (ucast (drop_bit 16 v) :: u8)) OR push_bit 8 (ucast (ucast (drop_bit 8 v) :: u8)) OR
    ucast (ucast v :: u8) :: u32) n = bit v n"
    by (elim below_32 [THEN UnE] UnE insertE emptyE; simp add: bit_simps)
qed

lemma vle16_two:
  assumes "v < 0x8000" shows "push_bit 8 (ucast ((ucast (drop_bit 8 v) OR 0x80) AND 0x7F :: u8)) OR
    ucast (ucast v :: u8) = (v :: u16)"
proof (rule bit_word_eqI)
  have small: "\<not> bit v n" if "15 \<le> n" for n
    using bit_small [of v 15 n] assms that by (simp add: word_less_nat_alt)
  fix n :: nat assume "n < LENGTH(16)"
  then have "n < 32" by simp
  then show "bit (push_bit 8 (ucast ((ucast (drop_bit 8 v) OR 0x80) AND 0x7F :: u8)) OR
      ucast (ucast v :: u8) :: u16) n = bit v n"
    by (elim below_32 [THEN UnE] UnE insertE emptyE; simp add: bit_simps small)
qed

lemma ucast_u8_small: "v < 0x80 \<Longrightarrow> ucast (ucast v :: u8) = v \<and> \<not> bit (ucast v :: u8) 7" for v :: u32
proof -
  assume "v < 0x80"
  then have small: "\<not> bit v n" if "7 \<le> n" for n
    using bit_small [of v 7 n] that by (simp add: word_less_nat_alt)
  have "n < 8" if "bit v n" for n
    using small [of n] that by (cases "n < 7") auto
  then show ?thesis by (auto intro!: bit_word_eqI simp: bit_simps small)
qed

lemma ucast_u8_small16: "v < 0x80 \<Longrightarrow> ucast (ucast v :: u8) = v \<and> \<not> bit (ucast v :: u8) 7" for v :: u16
proof -
  assume "v < 0x80"
  then have small: "\<not> bit v n" if "7 \<le> n" for n
    using bit_small [of v 7 n] that by (simp add: word_less_nat_alt)
  have "n < 8" if "bit v n" for n
    using small [of n] that by (cases "n < 7") auto
  then show ?thesis by (auto intro!: bit_word_eqI simp: bit_simps small)
qed

lemma read_vle16_encode:
  assumes d: "drop (cur_pos c) (cur_buf c) = encode_vle16 v @ rest" and v: "v < 0x8000"
  shows "read_vle16 c = Some (v, advance c (length (encode_vle16 v)))"
proof (cases "v < 0x80")
  case True
  then have e: "encode_vle16 v = [ucast v]" by (simp add: encode_vle16_def)
  note pk = peek_at [OF d, unfolded e] and rm = remaining_at [OF d, unfolded e]
  show ?thesis using ucast_u8_small16 [OF True] pk [of 0] rm [of 1]
    by (simp add: read_vle16_def e lead_tests)
next
  case False
  then have e: "encode_vle16 v = [ucast (drop_bit 8 v) OR 0x80, ucast v]" by (simp add: encode_vle16_def)
  note pk = peek_at [OF d, unfolded e] and rm = remaining_at [OF d, unfolded e]
  show ?thesis using vle16_two [OF v] pk [of 0] pk [of 1] rm [of 1] rm [of 2]
    by (simp add: read_vle16_def e lead_tests bit_simps numeral_2_eq_2)
qed

lemma read_vle32_encode:
  assumes d: "drop (cur_pos c) (cur_buf c) = encode_vle32 v @ rest"
  shows "read_vle32 c = Some (v, advance c (length (encode_vle32 v)))"
proof -
  have four: "Suc (Suc (Suc (Suc 0))) = 4" by simp
  have hi: "\<not> bit v n" if "unat v < 2 ^ k" "k \<le> n" for k n
    using bit_small that by blast
  consider "v < 0x80" | "\<not> v < 0x80" "v < 0x4000" | "\<not> v < 0x80" "\<not> v < 0x4000" "v < 0x20000000"
    | "\<not> v < 0x80" "\<not> v < 0x4000" "\<not> v < 0x20000000" by blast
  then show ?thesis
  proof cases
    case 1
    then have e: "encode_vle32 v = [ucast v]" by (simp add: encode_vle32_def)
    note pk = peek_at [OF d, unfolded e] and rm = remaining_at [OF d, unfolded e]
    show ?thesis using ucast_u8_small [OF 1] pk [of 0] rm [of 1]
      by (simp add: read_vle32_def e lead_tests)
  next
    case 2
    then have e: "encode_vle32 v = [ucast (drop_bit 8 v) OR 0x80, ucast v]" by (simp add: encode_vle32_def)
    note pk = peek_at [OF d, unfolded e] and rm = remaining_at [OF d, unfolded e]
    have "\<not> bit v 14" using hi [of 14 14] 2(2) by (simp add: word_less_nat_alt)
    then show ?thesis using vle32_two [OF 2(2)] pk [of 0] pk [of 1] rm [of 1] rm [of 2]
      by (simp add: read_vle32_def e lead_tests bit_simps numeral_2_eq_2)
  next
    case 3
    then have e: "encode_vle32 v = [ucast (drop_bit 24 v) OR 0xC0, ucast (drop_bit 16 v),
        ucast (drop_bit 8 v), ucast v]" by (simp add: encode_vle32_def)
    note pk = peek_at [OF d, unfolded e] and rm = remaining_at [OF d, unfolded e]
    have "\<not> bit v 29" using hi [of 29 29] 3(3) by (simp add: word_less_nat_alt)
    then show ?thesis
      using vle32_four [OF 3(3)] pk [of 0] pk [of 1] pk [of 2] pk [of 3] rm [of 1] rm [of 4]
      by (simp add: read_vle32_def e lead_tests bit_simps four)
  next
    case 4
    then have e: "encode_vle32 v = [0xE0, ucast (drop_bit 24 v), ucast (drop_bit 16 v),
        ucast (drop_bit 8 v), ucast v]" by (simp add: encode_vle32_def)
    note pk = peek_at [OF d, unfolded e] and rm = remaining_at [OF d, unfolded e]
    show ?thesis
      using vle32_five [of v] pk [of 0] pk [of 1] pk [of 2] pk [of 3] pk [of 4] rm [of 1] rm [of 5]
      by (simp add: read_vle32_def e lead_tests bit_simps four)
  qed
qed

text \<open>
  Whatever follows it in the buffer, the encoding of a value is read back as that
  value, and the cursor stands right after it; 16-bit values below 0x8000 and all 32-bit
  values have an encoding.
\<close>

theorem vle_roundtrip:
  assumes "drop (cur_pos c) (cur_buf c) = encode_vle32 v @ rest"
    and "drop (cur_pos d) (cur_buf d) = encode_vle16 w @ rest'" and "w < 0x8000"
  shows "read_vle32 c = Some (v, advance c (length (encode_vle32 v))) \<and>
    read_vle16 d = Some (w, advance d (length (encode_vle16 w)))"
  using read_vle32_encode [OF assms(1)] read_vle16_encode [OF assms(2,3)] by simp

lemma vle_roundtrip_witness:
  "read_vle32 \<lparr>cur_buf = [7, 0xC1, 0, 0, 2, 9], cur_pos = 1\<rparr> =
     Some (0x1000002, \<lparr>cur_buf = [7, 0xC1, 0, 0, 2, 9], cur_pos = 5\<rparr>) \<and>
   read_vle16 (cursor_at [0x81, 4]) = Some (0x104, \<lparr>cur_buf = [0x81, 4], cur_pos = 2\<rparr>)"
  using vle_roundtrip [where c = "\<lparr>cur_buf = [7, 0xC1, 0, 0, 2, 9], cur_pos = 1\<rparr>"
      and v = "0x1000002" and rest = "[9]" and d = "cursor_at [0x81, 4]" and w = "0x104" and rest' = "[]"]
  by (simp add: encode_vle32_def encode_vle16_def cursor_at_def advance_def)

end
