(* ===== verification/Flirt_Tree.thy ===== *)
theory Flirt_Tree
  imports Papa_Prelude
begin

text \<open>
  FLIRT signatures in memory and their matcher (flirt_crc16.cpp, flirt_tree.cpp,
  flirt_matcher.cpp, flirt.cpp under src/features/extractors/papa_native/flirt).  A child
  slot is an option because the vector holds pointers; the matcher skips null ones.
\<close>

section \<open>Data\<close>

definition kMaxPatternLength :: nat where "kMaxPatternLength = 32"

definition kCrc16Polynomial :: u16 where "kCrc16Polynomial = 0x8408"

record flirt_pattern =
  pat_bytes :: "u8 list"
  pat_wildcard :: "bool list"
  pat_length :: nat

datatype flirt_name_type = kPublic | kLocal

record flirt_name =
  fn_offset :: i64
  fn_name :: string
  fn_type :: flirt_name_type

record flirt_tail_byte =
  tb_offset :: u32
  tb_value :: u8

record flirt_reference =
  fr_offset :: u32
  fr_name :: string

record flirt_module =
  fm_tail_crc16 :: u16
  fm_tail_length :: u16
  fm_function_size :: u32
  fm_names :: "flirt_name list"
  fm_tail_bytes :: "flirt_tail_byte list"
  fm_references :: "flirt_reference list"

datatype flirt_node =
  Flirt_Node (nd_pattern: flirt_pattern) (nd_children: "flirt_node option list")
    (nd_modules: "flirt_module list")

section \<open>CRC16\<close>

fun crc16_bits :: "nat \<Rightarrow> u16 \<Rightarrow> u16" where
  "crc16_bits 0 crc = crc"
| "crc16_bits (Suc n) crc =
     (let lsb = (crc AND 1 \<noteq> 0);
          crc' = drop_bit 1 crc
      in crc16_bits n (if lsb then crc' XOR kCrc16Polynomial else crc'))"

fun crc16_bytes :: "u16 \<Rightarrow> u8 list \<Rightarrow> u16" where
  "crc16_bytes crc [] = crc"
| "crc16_bytes crc (b # bs) = crc16_bytes (crc16_bits 8 (crc XOR ucast b)) bs"

definition flirt_crc16 :: "u8 list \<Rightarrow> u16" where
  "flirt_crc16 bs =
     (let inverted = NOT (crc16_bytes 0xFFFF bs)
      in push_bit 8 inverted OR drop_bit 8 inverted)"

section \<open>Patterns and modules\<close>

definition pattern_matches :: "flirt_pattern \<Rightarrow> u8 list \<Rightarrow> bool" where
  "pattern_matches p buf \<longleftrightarrow> \<not> length buf < pat_length p \<and>
     list_all (\<lambda>i. pat_wildcard p ! i \<or> buf ! i = pat_bytes p ! i) [0..<pat_length p]"

definition module_verifies :: "flirt_module \<Rightarrow> u8 list \<Rightarrow> bool" where
  "module_verifies m bytes \<longleftrightarrow>
     (let tail_length = unat (fm_tail_length m);
          needed = kMaxPatternLength + tail_length
      in \<not> length bytes < needed \<and>
         flirt_crc16 (take tail_length (drop kMaxPatternLength bytes)) = fm_tail_crc16 m \<and>
         list_all (\<lambda>tb. let pos = kMaxPatternLength + tail_length + unat (tb_offset tb)
                        in \<not> pos \<ge> length bytes \<and> bytes ! pos = tb_value tb) (fm_tail_bytes m))"

section \<open>Matching\<close>

fun collect_matching :: "flirt_node \<Rightarrow> u8 list \<Rightarrow> flirt_module list"
  and collect_children :: "flirt_node option list \<Rightarrow> u8 list \<Rightarrow> flirt_module list"
where
  "collect_matching (Flirt_Node p cs ms) bytes =
     (if \<not> pattern_matches p bytes then []
      else filter (\<lambda>m. module_verifies m bytes) ms @ collect_children cs bytes)"
| "collect_children [] bytes = []"
| "collect_children (None # cs) bytes = collect_children cs bytes"
| "collect_children (Some c # cs) bytes = collect_matching c bytes @ collect_children cs bytes"

fun node_matches :: "flirt_node \<Rightarrow> u8 list \<Rightarrow> bool"
  and children_match :: "flirt_node option list \<Rightarrow> u8 list \<Rightarrow> bool"
where
  "node_matches (Flirt_Node p cs ms) bytes =
     (if \<not> pattern_matches p bytes then False
      else if list_ex (\<lambda>m. module_verifies m bytes) ms then True
      else children_match cs bytes)"
| "children_match [] bytes = False"
| "children_match (None # cs) bytes = children_match cs bytes"
| "children_match (Some c # cs) bytes = (node_matches c bytes \<or> children_match cs bytes)"

definition match_flirt :: "flirt_node option \<Rightarrow> u8 list \<Rightarrow> bool" where
  "match_flirt root bytes = (case root of None \<Rightarrow> False | Some n \<Rightarrow> node_matches n bytes)"

definition match_flirt_modules :: "flirt_node option \<Rightarrow> u8 list \<Rightarrow> flirt_module list" where
  "match_flirt_modules root bytes =
     (case root of None \<Rightarrow> [] | Some n \<Rightarrow> collect_matching n bytes)"

fun count_modules :: "flirt_node \<Rightarrow> nat"
  and count_children :: "flirt_node option list \<Rightarrow> nat" where
  "count_modules (Flirt_Node p cs ms) = length ms + count_children cs"
| "count_children [] = 0"
| "count_children (None # cs) = count_children cs"
| "count_children (Some c # cs) = count_modules c + count_children cs"

text \<open>\<open>FlirtSignatureSet::classify\<close> over the roots of its trees.\<close>

definition signature_set_classify :: "flirt_node option list \<Rightarrow> u8 list \<Rightarrow> bool" where
  "signature_set_classify trees bytes = list_ex (\<lambda>t. match_flirt t bytes) trees"

section \<open>Reference semantics\<close>

text \<open>
  Every module of a tree with the pattern of the node that carries it, in the order of the
  depth-first walk, and the shape the reader gives to a tree: the pattern of a child agrees
  with that of its parent on the parent's length.
\<close>

fun tree_modules :: "flirt_node \<Rightarrow> (flirt_pattern \<times> flirt_module) list"
  and forest_modules :: "flirt_node option list \<Rightarrow> (flirt_pattern \<times> flirt_module) list"
where
  "tree_modules (Flirt_Node p cs ms) = map (Pair p) ms @ forest_modules cs"
| "forest_modules [] = []"
| "forest_modules (None # cs) = forest_modules cs"
| "forest_modules (Some c # cs) = tree_modules c @ forest_modules cs"

definition pattern_extends :: "flirt_pattern \<Rightarrow> flirt_pattern \<Rightarrow> bool" where
  "pattern_extends p q \<longleftrightarrow> pat_length p \<le> pat_length q \<and>
     (\<forall>i<pat_length p. pat_wildcard q ! i = pat_wildcard p ! i \<and> pat_bytes q ! i = pat_bytes p ! i)"

definition pattern_wf :: "flirt_pattern \<Rightarrow> bool" where
  "pattern_wf p \<longleftrightarrow> pat_length p \<le> kMaxPatternLength \<and>
     length (pat_bytes p) = kMaxPatternLength \<and> length (pat_wildcard p) = kMaxPatternLength"

fun tree_ok :: "flirt_pattern \<Rightarrow> flirt_node \<Rightarrow> bool"
  and forest_ok :: "flirt_pattern \<Rightarrow> flirt_node option list \<Rightarrow> bool"
where
  "tree_ok pfx (Flirt_Node p cs ms) \<longleftrightarrow>
     pattern_wf p \<and> pattern_extends pfx p \<and> (cs = [] \<or> ms = []) \<and> forest_ok p cs"
| "forest_ok pfx [] \<longleftrightarrow> True"
| "forest_ok pfx (None # cs) \<longleftrightarrow> False"
| "forest_ok pfx (Some c # cs) \<longleftrightarrow> tree_ok pfx c \<and> forest_ok pfx cs"

lemma pattern_matches_iff:
  "pattern_matches p buf \<longleftrightarrow> pat_length p \<le> length buf \<and>
     (\<forall>i<pat_length p. pat_wildcard p ! i \<or> buf ! i = pat_bytes p ! i)"
  by (auto simp: pattern_matches_def list_all_iff)

lemma pattern_extends_matches:
  "pattern_extends p q \<Longrightarrow> pattern_matches q buf \<Longrightarrow> pattern_matches p buf"
  unfolding pattern_extends_def pattern_matches_iff by (metis (full_types) less_le_trans order_trans)

lemma pattern_extends_trans: "pattern_extends p q \<Longrightarrow> pattern_extends q r \<Longrightarrow> pattern_extends p r"
  by (auto simp: pattern_extends_def)

lemma modules_extend:
  "tree_ok pfx t \<Longrightarrow> (q, m) \<in> set (tree_modules t) \<Longrightarrow> pattern_extends pfx q"
  "forest_ok pfx cs \<Longrightarrow> (q, m) \<in> set (forest_modules cs) \<Longrightarrow> pattern_extends pfx q"
  by (induction pfx t and pfx cs rule: tree_ok_forest_ok.induct)
    (auto intro: pattern_extends_trans)

abbreviation module_hits :: "u8 list \<Rightarrow> flirt_pattern \<times> flirt_module \<Rightarrow> bool" where
  "module_hits bytes \<equiv> (\<lambda>(p, m). pattern_matches p bytes \<and> module_verifies m bytes)"

lemma collect_spec:
  "tree_ok pfx t \<Longrightarrow> collect_matching t bytes = map snd (filter (module_hits bytes) (tree_modules t))"
  "forest_ok pfx cs \<Longrightarrow> collect_children cs bytes = map snd (filter (module_hits bytes) (forest_modules cs))"
proof (induction pfx t and pfx cs rule: tree_ok_forest_ok.induct)
  case (1 pfx p cs ms)
  show ?case
  proof (cases "pattern_matches p bytes")
    case True
    with 1 show ?thesis by (simp add: filter_map comp_def)
  next
    case False
    have "\<not> pattern_matches q bytes" if "(q, m) \<in> set (forest_modules cs)" for q m
      using modules_extend(2) [OF _ that] "1.prems" False pattern_extends_matches by auto
    then have "filter (module_hits bytes) (forest_modules cs) = []"
      by (auto simp: filter_empty_conv)
    with False show ?thesis by (simp add: filter_map comp_def)
  qed
qed simp_all

lemma node_matches_collect:
  "node_matches t bytes \<longleftrightarrow> collect_matching t bytes \<noteq> []"
  "children_match cs bytes \<longleftrightarrow> collect_children cs bytes \<noteq> []"
  by (induction t bytes and cs bytes rule: node_matches_children_match.induct)
    (auto simp: list_ex_iff filter_empty_conv)

lemma count_modules_length:
  "count_modules t = length (tree_modules t)"
  "count_children cs = length (forest_modules cs)"
  by (induction t and cs rule: count_modules_count_children.induct) simp_all

lemma crc16_check: "flirt_crc16 [0x31, 0x32, 0x33, 0x34, 0x35, 0x36, 0x37, 0x38, 0x39] = 0x6E90"
  by code_simp

end
