(* ===== verification/Flirt_Reader.thy ===== *)
theory Flirt_Reader
  imports Byte_Cursor Flirt_Tree
begin

text \<open>
  The parser of IDASGN signature files (flirt_reader.cpp, flirt_decompress.cpp).  The
  inflate routine of the third-party library is the parameter \<open>tinfl\<close>: the chunks it would
  hand to its callback and whether it would then report success.  The library documents
  that it reports failure once the callback refuses a chunk.
\<close>

section \<open>Format\<close>

definition kIdasgnMagic :: "u8 list" where
  "kIdasgnMagic = [0x49, 0x44, 0x41, 0x53, 0x47, 0x4E]"

definition kMinSupportedVersion :: u8 where "kMinSupportedVersion = 8"

definition kMaxSupportedVersion :: u8 where "kMaxSupportedVersion = 10"

definition kMaxTreeDepth :: nat where "kMaxTreeDepth = 64"

definition kMaxDecompressedSize :: nat where "kMaxDecompressedSize = 64 * 2 ^ 20"

definition is_supported_version :: "u8 \<Rightarrow> bool" where
  "is_supported_version v \<longleftrightarrow> v \<ge> kMinSupportedVersion \<and> v \<le> kMaxSupportedVersion"

datatype flirt_arch = kAny | kX86 | kX64 | kOther

record flirt_header =
  hd_version :: u8
  hd_arch :: flirt_arch
  hd_file_types :: u32
  hd_os_types :: u16
  hd_app_types :: u16
  hd_features :: u16
  hd_old_n_functions :: u16
  hd_pattern_crc16 :: u16
  hd_ctype :: "u8 list"
  hd_library_name_len :: u8
  hd_ctypes_crc16 :: u16
  hd_n_functions :: u32
  hd_pattern_size :: u16
  hd_unknown_v10 :: u16
  hd_library_name :: string

definition is_compressed :: "flirt_header \<Rightarrow> bool" where
  "is_compressed h \<longleftrightarrow> hd_features h AND 0x0010 \<noteq> 0"

definition header_size_for_version :: "u8 \<Rightarrow> nat" where
  "header_size_for_version v =
     (if v \<ge> 10 then 45 else if v \<ge> 9 then 41 else if v \<ge> 8 then 37 else 0)"

section \<open>The header\<close>

definition truncated :: "string \<Rightarrow> 'a option \<Rightarrow> 'a expected" where
  "truncated what m = (case m of None \<Rightarrow> Inl (Papa_Error kFlirtTruncated what) | Some x \<Rightarrow> Inr x)"

lemma truncated_Inr [simp]: "truncated what m = Inr x \<longleftrightarrow> m = Some x"
  by (cases m) (auto simp: truncated_def)

definition byte_char :: "u8 \<Rightarrow> char" where "byte_char b = char_of (unat b)"

definition arch_of :: "u8 \<Rightarrow> flirt_arch" where
  "arch_of b = (if b = 0 then kAny else if b = 1 then kX86 else if b = 2 then kX64 else kOther)"

definition read_n_functions :: "u8 \<Rightarrow> cursor \<Rightarrow> (u32 \<times> cursor) expected" where
  "read_n_functions v c = (if v \<ge> 9 then truncated ''n_functions'' (read_u32_le c) else Inr (0, c))"

definition read_v10_fields :: "u8 \<Rightarrow> cursor \<Rightarrow> (u16 \<times> u16 \<times> cursor) expected" where
  "read_v10_fields v c =
     (if v \<ge> 10 then
        sbind (truncated ''v10 fields'' (read_u16_le c)) (\<lambda>(size, c).
        sbind (truncated ''v10 fields'' (read_u16_le c)) (\<lambda>(unknown, c). Inr (size, unknown, c)))
      else Inr (0, 0, c))"

definition read_library_name :: "u8 \<Rightarrow> cursor \<Rightarrow> (string \<times> cursor) expected" where
  "read_library_name len c =
     (if len > 0 then
        sbind (truncated ''library_name body'' (read_bytes c (unat len))) (\<lambda>(bs, c).
          Inr (map byte_char bs, c))
      else Inr ([], c))"

text \<open>The parsed header with the cursor that read it, which the code drops.\<close>

definition parse_header_at :: "cursor \<Rightarrow> (flirt_header \<times> cursor) expected" where
  "parse_header_at c =
     sbind (truncated ''header magic'' (read_bytes c (length kIdasgnMagic))) (\<lambda>(magic, c).
     if magic \<noteq> kIdasgnMagic
     then Inl (Papa_Error kFlirtBadMagic ''first 6 bytes are not IDASGN'')
     else sbind (truncated ''version'' (read_u8 c)) (\<lambda>(version, c).
     if \<not> is_supported_version version
     then Inl (Papa_Error kFlirtUnsupportedVersion
       (''version '' @ to_decimal (unat version) @ '' is outside [8, 10]''))
     else sbind (truncated ''arch'' (read_u8 c)) (\<lambda>(arch, c).
     sbind (truncated ''header body'' (read_u32_le c)) (\<lambda>(file_types, c).
     sbind (truncated ''header body'' (read_u16_le c)) (\<lambda>(os_types, c).
     sbind (truncated ''header body'' (read_u16_le c)) (\<lambda>(app_types, c).
     sbind (truncated ''header body'' (read_u16_le c)) (\<lambda>(features, c).
     sbind (truncated ''header body'' (read_u16_le c)) (\<lambda>(old_n, c).
     sbind (truncated ''header body'' (read_u16_le c)) (\<lambda>(pattern_crc, c).
     sbind (truncated ''ctype'' (read_bytes c 12)) (\<lambda>(ctype, c).
     sbind (truncated ''ln_len/ctypes_crc16'' (read_u8 c)) (\<lambda>(name_len, c).
     sbind (truncated ''ln_len/ctypes_crc16'' (read_u16_le c)) (\<lambda>(ctypes_crc, c).
     sbind (read_n_functions version c) (\<lambda>(n_functions, c).
     sbind (read_v10_fields version c) (\<lambda>(pattern_size, unknown, c).
     sbind (read_library_name name_len c) (\<lambda>(name, c).
     Inr (\<lparr>hd_version = version, hd_arch = arch_of arch, hd_file_types = file_types,
           hd_os_types = os_types, hd_app_types = app_types, hd_features = features,
           hd_old_n_functions = old_n, hd_pattern_crc16 = pattern_crc, hd_ctype = ctype,
           hd_library_name_len = name_len, hd_ctypes_crc16 = ctypes_crc,
           hd_n_functions = n_functions, hd_pattern_size = pattern_size,
           hd_unknown_v10 = unknown, hd_library_name = name\<rparr>, c))))))))))))))))"

definition parse_header :: "u8 list \<Rightarrow> flirt_header expected" where
  "parse_header data = sbind (parse_header_at (cursor_at data)) (\<lambda>(h, c). Inr h)"

section \<open>Modules\<close>

definition kMorePublicNames :: u8 where "kMorePublicNames = 0x01"
definition kTailBytes :: u8 where "kTailBytes = 0x02"
definition kReferencedFunctions :: u8 where "kReferencedFunctions = 0x04"
definition kMoreModulesWithSameCrc :: u8 where "kMoreModulesWithSameCrc = 0x08"
definition kMoreModules :: u8 where "kMoreModules = 0x10"
definition kNameTextFloor :: u8 where "kNameTextFloor = 0x20"
definition kNameLocal :: u8 where "kNameLocal = 0x02"
definition kNameNegativeOffset :: u8 where "kNameNegativeOffset = 0x10"

definition has_flag :: "u8 \<Rightarrow> u8 \<Rightarrow> bool" where
  "has_flag flags b \<longleftrightarrow> flags AND b \<noteq> 0"

definition read_word :: "u8 \<Rightarrow> cursor \<Rightarrow> (u32 \<times> cursor) option" where
  "read_word version c =
     (if version < 9
      then (case read_vle16 c of None \<Rightarrow> None | Some (v, c') \<Rightarrow> Some (ucast v, c'))
      else read_vle32 c)"

definition read_variant_mask :: "nat \<Rightarrow> cursor \<Rightarrow> (u64 \<times> cursor) option" where
  "read_variant_mask len c =
     (if len = 0 then Some (0, c)
      else if len < 0x10
      then (case read_vle16 c of None \<Rightarrow> None | Some (v, c') \<Rightarrow> Some (ucast v, c'))
      else (case read_vle32 c of None \<Rightarrow> None | Some (v, c') \<Rightarrow> Some (ucast v, c')))"

lemma read_word_moved [cursor_moves]: "read_word v c = Some (x, c') \<Longrightarrow> moved c c'"
  by (auto simp: read_word_def intro: cursor_moves split: if_split_asm option.splits)

text \<open>The characters of a name up to the control byte that ends it.\<close>

function name_chars :: "u8 \<Rightarrow> string \<Rightarrow> cursor \<Rightarrow> (string \<times> u8 \<times> cursor) expected" where
  "name_chars pk name c =
     (if pk \<ge> kNameTextFloor then
        sbind (truncated ''name body'' (read_u8 c)) (\<lambda>(nxt, c').
          name_chars nxt (name @ [byte_char pk]) c')
      else Inr (name, pk, c))"
  by pat_completeness auto
termination
  by (relation "measure (\<lambda>(_, _, c). left c)") (auto dest: read_u8_moved moved_left)

declare name_chars.simps [simp del]

text \<open>\<open>stays c c'\<close>: the same buffer, not further back.\<close>

definition stays :: "cursor \<Rightarrow> cursor \<Rightarrow> bool" where
  "stays c c' \<longleftrightarrow> c' = c \<or> moved c c'"

lemma moved_stays: "moved c c' \<Longrightarrow> stays c' c'' \<Longrightarrow> moved c c''"
  by (auto simp: stays_def intro: moved_trans)

lemma stays_moved: "stays c c' \<Longrightarrow> moved c' c'' \<Longrightarrow> moved c c''"
  by (auto simp: stays_def intro: moved_trans)

lemma stays_refl [simp]: "stays c c"
  by (simp add: stays_def)

lemma stays_trans: "stays c c' \<Longrightarrow> stays c' c'' \<Longrightarrow> stays c c''"
  by (auto simp: stays_def intro: moved_trans)

lemma moved_imp_stays: "moved c c' \<Longrightarrow> stays c c'"
  by (simp add: stays_def)

lemma name_chars_stays: "name_chars pk name c = Inr (r, q, c') \<Longrightarrow> stays c c'"
proof (induction pk name c rule: name_chars.induct)
  case (1 pk name c)
  show ?case
  proof (cases "pk \<ge> kNameTextFloor")
    case True
    with "1.prems" obtain nxt c1 where r: "read_u8 c = Some (nxt, c1)"
        "name_chars nxt (name @ [byte_char pk]) c1 = Inr (r, q, c')"
      by (auto simp: name_chars.simps [of pk])
    with "1.IH" [OF True, of "(nxt, c1)"] have "stays c1 c'" by simp
    then show ?thesis using read_u8_moved [OF r(1)] by (auto intro: moved_imp_stays moved_stays)
  next
    case False
    with "1.prems" show ?thesis by (simp add: name_chars.simps [of pk])
  qed
qed

text \<open>The optional flag byte before a name, and the first byte after it.\<close>

definition name_lead :: "cursor \<Rightarrow> (u8 \<times> u8 \<times> cursor) expected" where
  "name_lead c =
     sbind (truncated ''name lead'' (read_u8 c)) (\<lambda>(pk, c).
       if pk < kNameTextFloor then
         sbind (truncated ''name first char'' (read_u8 c)) (\<lambda>(pk', c). Inr (pk, pk', c))
       else Inr (0, pk, c))"

lemma name_lead_moved: "name_lead c = Inr (f, r, c') \<Longrightarrow> moved c c'"
  by (auto simp: name_lead_def split: if_split_asm intro: moved_trans cursor_moves)

definition name_offset :: "u8 \<Rightarrow> i64 \<Rightarrow> u32 \<Rightarrow> i64" where
  "name_offset name_flags base rel =
     (if has_flag name_flags kNameNegativeOffset then base - ucast rel else base + ucast rel)"

function parse_module_names ::
  "u8 \<Rightarrow> i64 \<Rightarrow> flirt_name list \<Rightarrow> cursor \<Rightarrow> (u8 \<times> flirt_name list \<times> cursor) expected" where
  "parse_module_names version base out c =
     sbind (truncated ''name offset'' (read_word version c)) (\<lambda>(rel, c1).
     sbind (name_lead c1) (\<lambda>(name_flags, pk, c2).
     sbind (name_chars pk [] c2) (\<lambda>(name, flags, c3).
       let offset = name_offset name_flags base rel;
           entry = \<lparr>fn_offset = offset, fn_name = name,
                    fn_type = (if has_flag name_flags kNameLocal then kLocal else kPublic)\<rparr>
       in if \<not> has_flag flags kMorePublicNames then Inr (flags, out @ [entry], c3)
          else parse_module_names version offset (out @ [entry]) c3)))"
  by pat_completeness auto
termination
  by (relation "measure (\<lambda>(_, _, _, c). left c)")
    (auto dest!: read_word_moved name_lead_moved name_chars_stays,
      metis moved_trans moved_stays moved_left)

declare parse_module_names.simps [simp del]

definition read_count :: "u8 \<Rightarrow> string \<Rightarrow> cursor \<Rightarrow> (u32 \<times> cursor) expected" where
  "read_count version what c =
     (if version \<ge> 8 then truncated what (read_word version c) else Inr (1, c))"

fun tail_bytes_loop ::
  "u8 \<Rightarrow> nat \<Rightarrow> flirt_tail_byte list \<Rightarrow> cursor \<Rightarrow> (flirt_tail_byte list \<times> cursor) expected" where
  "tail_bytes_loop version 0 out c = Inr (out, c)"
| "tail_bytes_loop version (Suc n) out c =
     sbind (truncated ''tail byte'' (read_word version c)) (\<lambda>(offset, c).
     sbind (truncated ''tail byte'' (read_u8 c)) (\<lambda>(v, c).
       tail_bytes_loop version n (out @ [\<lparr>tb_offset = offset, tb_value = v\<rparr>]) c))"

definition parse_tail_bytes :: "u8 \<Rightarrow> cursor \<Rightarrow> (flirt_tail_byte list \<times> cursor) expected" where
  "parse_tail_bytes version c =
     sbind (read_count version ''tail count'' c) (\<lambda>(n, c). tail_bytes_loop version (unat n) [] c)"

fun read_chars :: "nat \<Rightarrow> string \<Rightarrow> cursor \<Rightarrow> (string \<times> cursor) expected" where
  "read_chars 0 name c = Inr (name, c)"
| "read_chars (Suc n) name c =
     sbind (truncated ''ref name'' (read_u8 c)) (\<lambda>(ch, c). read_chars n (name @ [byte_char ch]) c)"

definition read_name_length :: "cursor \<Rightarrow> (nat \<times> cursor) expected" where
  "read_name_length c =
     sbind (truncated ''ref size'' (read_u8 c)) (\<lambda>(size, c).
       if size = 0 then
         sbind (truncated ''ref size ext'' (read_vle16 c)) (\<lambda>(real, c). Inr (unat real, c))
       else Inr (unat size, c))"

fun references_loop ::
  "u8 \<Rightarrow> nat \<Rightarrow> flirt_reference list \<Rightarrow> cursor \<Rightarrow> (flirt_reference list \<times> cursor) expected" where
  "references_loop version 0 out c = Inr (out, c)"
| "references_loop version (Suc n) out c =
     sbind (truncated ''ref offset'' (read_word version c)) (\<lambda>(offset, c).
     sbind (read_name_length c) (\<lambda>(len, c).
     sbind (read_chars len [] c) (\<lambda>(name, c).
       references_loop version n (out @ [\<lparr>fr_offset = offset, fr_name = name\<rparr>]) c)))"

definition parse_referenced_functions ::
  "u8 \<Rightarrow> cursor \<Rightarrow> (flirt_reference list \<times> cursor) expected" where
  "parse_referenced_functions version c =
     sbind (read_count version ''ref count'' c) (\<lambda>(n, c). references_loop version (unat n) [] c)"

lemma parse_module_names_moved:
  "parse_module_names version base out c = Inr (f, ns, c') \<Longrightarrow> moved c c'"
proof (induction version base out c rule: parse_module_names.induct)
  case (1 version base out c)
  from "1.prems" obtain rel c1 nf pk c2 name flags c3 where r: "read_word version c = Some (rel, c1)"
      "name_lead c1 = Inr (nf, pk, c2)" "name_chars pk [] c2 = Inr (name, flags, c3)"
    by (subst (asm) parse_module_names.simps) fastforce
  have m: "moved c c3"
    using r by (metis read_word_moved name_lead_moved name_chars_stays moved_trans moved_stays)
  show ?case
  proof (cases "has_flag flags kMorePublicNames")
    case False
    with "1.prems" r m show ?thesis by (subst (asm) parse_module_names.simps) (simp add: Let_def)
  next
    case True
    with "1.prems" r have "parse_module_names version (name_offset nf base rel)
        (out @ [\<lparr>fn_offset = name_offset nf base rel, fn_name = name,
          fn_type = (if has_flag nf kNameLocal then kLocal else kPublic)\<rparr>]) c3 = Inr (f, ns, c')"
      by (subst (asm) parse_module_names.simps) (simp add: Let_def)
    with "1.IH" [OF truncated_Inr [THEN iffD2, OF r(1)] refl r(2) refl refl r(3) refl refl refl refl] True
    have "moved c3 c'" by simp
    with m show ?thesis by (rule moved_trans)
  qed
qed

lemma read_count_stays: "read_count v what c = Inr (n, c') \<Longrightarrow> stays c c'"
  by (auto simp: read_count_def split: if_split_asm intro: moved_imp_stays cursor_moves)

lemma tail_bytes_loop_stays: "tail_bytes_loop v n out c = Inr (r, c') \<Longrightarrow> stays c c'"
proof (induction n arbitrary: out c)
  case (Suc n)
  then obtain o1 c1 b c2 where "read_word v c = Some (o1, c1)" "read_u8 c1 = Some (b, c2)"
      "tail_bytes_loop v n (out @ [\<lparr>tb_offset = o1, tb_value = b\<rparr>]) c2 = Inr (r, c')" by auto
  with Suc.IH have "moved c c1" "moved c1 c2" "stays c2 c'"
    by (auto intro: cursor_moves)
  then show ?case by (meson moved_imp_stays stays_trans)
qed simp

lemma parse_tail_bytes_stays: "parse_tail_bytes v c = Inr (r, c') \<Longrightarrow> stays c c'"
  by (auto simp: parse_tail_bytes_def dest!: read_count_stays tail_bytes_loop_stays intro: stays_trans)

lemma read_chars_stays: "read_chars n name c = Inr (r, c') \<Longrightarrow> stays c c'"
proof (induction n arbitrary: name c)
  case (Suc n)
  then obtain ch c1 where "read_u8 c = Some (ch, c1)" "read_chars n (name @ [byte_char ch]) c1 = Inr (r, c')"
    by auto
  with Suc.IH have "moved c c1" "stays c1 c'" by (auto intro: cursor_moves)
  then show ?case by (meson moved_imp_stays stays_trans)
qed simp

lemma read_name_length_moved: "read_name_length c = Inr (n, c') \<Longrightarrow> moved c c'"
  by (auto simp: read_name_length_def split: if_split_asm intro: moved_trans cursor_moves)

lemma references_loop_stays: "references_loop v n out c = Inr (r, c') \<Longrightarrow> stays c c'"
proof (induction n arbitrary: out c)
  case (Suc n)
  then obtain o1 c1 len c2 name c3 where "read_word v c = Some (o1, c1)"
      "read_name_length c1 = Inr (len, c2)" "read_chars len [] c2 = Inr (name, c3)"
      "references_loop v n (out @ [\<lparr>fr_offset = o1, fr_name = name\<rparr>]) c3 = Inr (r, c')" by auto
  with Suc.IH have "moved c c1" "moved c1 c2" "stays c2 c3" "stays c3 c'"
    by (auto intro: cursor_moves read_name_length_moved read_chars_stays)
  then show ?case by (meson moved_imp_stays stays_trans)
qed simp

lemma parse_referenced_functions_stays: "parse_referenced_functions v c = Inr (r, c') \<Longrightarrow> stays c c'"
  by (auto simp: parse_referenced_functions_def dest!: read_count_stays references_loop_stays intro: stays_trans)

section \<open>Leaf modules and nodes\<close>

definition optional_tail_bytes :: "u8 \<Rightarrow> u8 \<Rightarrow> cursor \<Rightarrow> (flirt_tail_byte list \<times> cursor) expected" where
  "optional_tail_bytes flags version c =
     (if has_flag flags kTailBytes then parse_tail_bytes version c else Inr ([], c))"

definition optional_references :: "u8 \<Rightarrow> u8 \<Rightarrow> cursor \<Rightarrow> (flirt_reference list \<times> cursor) expected" where
  "optional_references flags version c =
     (if has_flag flags kReferencedFunctions then parse_referenced_functions version c else Inr ([], c))"

lemma optional_stays:
  "optional_tail_bytes flags version c = Inr (tb, c') \<Longrightarrow> stays c c'"
  "optional_references flags version c = Inr (rf, c') \<Longrightarrow> stays c c'"
  by (auto simp: optional_tail_bytes_def optional_references_def split: if_split_asm
      intro: parse_tail_bytes_stays parse_referenced_functions_stays)

text \<open>The modules that share one CRC, then the groups of a leaf.\<close>

function same_crc_modules ::
  "u8 \<Rightarrow> u16 \<Rightarrow> u8 \<Rightarrow> flirt_module list \<Rightarrow> cursor \<Rightarrow> (u8 \<times> flirt_module list \<times> cursor) expected" where
  "same_crc_modules version crc16 crc_len out c =
     sbind (truncated ''function size'' (read_word version c)) (\<lambda>(function_size, c1).
     sbind (parse_module_names version 0 [] c1) (\<lambda>(flags, names, c2).
     sbind (optional_tail_bytes flags version c2) (\<lambda>(tail, c3).
     sbind (optional_references flags version c3) (\<lambda>(refs, c4).
       let m = \<lparr>fm_tail_crc16 = crc16, fm_tail_length = ucast crc_len,
                fm_function_size = function_size, fm_names = names, fm_tail_bytes = tail,
                fm_references = refs\<rparr>
       in if \<not> has_flag flags kMoreModulesWithSameCrc then Inr (flags, out @ [m], c4)
          else same_crc_modules version crc16 crc_len (out @ [m]) c4))))"
  by pat_completeness auto
termination
  by (relation "measure (\<lambda>(_, _, _, _, c). left c)")
    (auto dest!: read_word_moved parse_module_names_moved optional_stays,
      metis moved_trans moved_stays stays_trans moved_left)

declare same_crc_modules.simps [simp del]

lemma same_crc_modules_moved:
  "same_crc_modules version crc16 crc_len out c = Inr (f, ms, c') \<Longrightarrow> moved c c'"
proof (induction version crc16 crc_len out c rule: same_crc_modules.induct)
  case (1 version crc16 crc_len out c)
  from "1.prems" obtain fsz c1 flags names c2 tail c3 refs c4 where
      r: "read_word version c = Some (fsz, c1)" "parse_module_names version 0 [] c1 = Inr (flags, names, c2)"
        "optional_tail_bytes flags version c2 = Inr (tail, c3)"
        "optional_references flags version c3 = Inr (refs, c4)"
    by (subst (asm) same_crc_modules.simps) fastforce
  have m: "moved c c4"
    using r by (metis read_word_moved parse_module_names_moved optional_stays moved_trans moved_stays)
  define md where "md = \<lparr>fm_tail_crc16 = crc16, fm_tail_length = ucast crc_len,
      fm_function_size = fsz, fm_names = names, fm_tail_bytes = tail, fm_references = refs\<rparr>"
  show ?case
  proof (cases "has_flag flags kMoreModulesWithSameCrc")
    case False
    with "1.prems" r m show ?thesis by (subst (asm) same_crc_modules.simps) (simp add: Let_def)
  next
    case True
    with "1.prems" r have "same_crc_modules version crc16 crc_len (out @ [md]) c4 = Inr (f, ms, c')"
      by (subst (asm) same_crc_modules.simps) (simp add: Let_def md_def)
    with "1.IH" [OF truncated_Inr [THEN iffD2, OF r(1)] refl r(2) refl refl r(3) refl r(4) refl refl] True
    have "moved c4 c'" by (simp add: md_def)
    with m show ?thesis by (rule moved_trans)
  qed
qed

function parse_leaf_modules ::
  "u8 \<Rightarrow> flirt_module list \<Rightarrow> cursor \<Rightarrow> (flirt_module list \<times> cursor) expected" where
  "parse_leaf_modules version out c =
     sbind (truncated ''crc length'' (read_u8 c)) (\<lambda>(crc_len, c1).
     sbind (truncated ''crc16'' (read_u8 c1)) (\<lambda>(crc_hi, c2).
     sbind (truncated ''crc16'' (read_u8 c2)) (\<lambda>(crc_lo, c3).
     sbind (same_crc_modules version (push_bit 8 (ucast crc_hi) OR ucast crc_lo) crc_len out c3)
       (\<lambda>(flags, out', c4).
         if \<not> has_flag flags kMoreModules then Inr (out', c4)
         else parse_leaf_modules version out' c4))))"
  by pat_completeness auto
termination
  by (relation "measure (\<lambda>(_, _, c). left c)")
    (auto dest!: read_u8_moved same_crc_modules_moved, metis moved_trans moved_left)

declare parse_leaf_modules.simps [simp del]

definition read_pattern_length :: "u8 \<Rightarrow> cursor \<Rightarrow> (nat \<times> cursor) option" where
  "read_pattern_length version c =
     (if version < 10
      then (case read_u8 c of None \<Rightarrow> None | Some (b, c') \<Rightarrow> Some (unat b, c'))
      else (case read_vle16 c of None \<Rightarrow> None | Some (v, c') \<Rightarrow> Some (unat v, c')))"

definition literal_count :: "u64 \<Rightarrow> nat \<Rightarrow> nat" where
  "literal_count vm len = length (filter (\<lambda>b. \<not> bit vm b) [0..<len])"

definition read_literals :: "nat \<Rightarrow> cursor \<Rightarrow> (u8 list \<times> cursor) option" where
  "read_literals n c = (if n > 0 then read_bytes c n else Some ([], c))"

text \<open>The loop that extends the prefix by a segment; \<open>k\<close> is the next literal.\<close>

fun fill_segment ::
  "u64 \<Rightarrow> nat \<Rightarrow> nat \<Rightarrow> u8 list \<Rightarrow> nat list \<Rightarrow> nat \<Rightarrow> flirt_pattern \<Rightarrow> flirt_pattern" where
  "fill_segment vm len prefix_len lits [] k pat = pat"
| "fill_segment vm len prefix_len lits (p # ps) k pat =
     (if bit vm (len - 1 - p)
      then fill_segment vm len prefix_len lits ps k
             (pat\<lparr>pat_wildcard := (pat_wildcard pat)[prefix_len + p := True]\<rparr>)
      else fill_segment vm len prefix_len lits ps (k + 1)
             (pat\<lparr>pat_bytes := (pat_bytes pat)[prefix_len + p := lits ! k]\<rparr>))"

definition parse_segment :: "u8 \<Rightarrow> flirt_pattern \<Rightarrow> cursor \<Rightarrow> (flirt_pattern \<times> cursor) expected" where
  "parse_segment version pfx c =
     sbind (truncated ''pattern length'' (read_pattern_length version c)) (\<lambda>(len, c).
     let prefix_len = pat_length pfx in
     if prefix_len + len > kMaxPatternLength
     then Inl (Papa_Error kFlirtBadNode ''pattern exceeds max length'')
     else sbind (truncated ''variant mask'' (read_variant_mask len c)) (\<lambda>(vm, c).
     sbind (truncated ''pattern bytes'' (read_literals (literal_count vm len) c)) (\<lambda>(lits, c).
       Inr ((fill_segment vm len prefix_len lits [0..<len] 0 pfx)\<lparr>pat_length := prefix_len + len\<rparr>, c))))"

text \<open>
  \<open>levels\<close> is the number of further depths allowed, \<open>kMaxTreeDepth + 1 - depth\<close>.
\<close>

fun parse_node :: "u8 \<Rightarrow> nat \<Rightarrow> flirt_pattern \<Rightarrow> cursor \<Rightarrow> (flirt_node \<times> cursor) expected"
  and parse_children ::
    "u8 \<Rightarrow> nat \<Rightarrow> flirt_pattern \<Rightarrow> nat \<Rightarrow> cursor \<Rightarrow> (flirt_node option list \<times> cursor) expected"
where
  "parse_node version 0 pfx c = Inl (Papa_Error kFlirtTooDeep ''tree depth'')"
| "parse_node version (Suc levels) pfx c =
     sbind (truncated ''child count'' (read_vle16 c)) (\<lambda>(n, c1).
       if n = 0
       then sbind (parse_leaf_modules version [] c1) (\<lambda>(ms, c2). Inr (Flirt_Node pfx [] ms, c2))
       else sbind (parse_children version levels pfx (unat n) c1) (\<lambda>(cs, c2).
              Inr (Flirt_Node pfx cs [], c2)))"
| "parse_children version levels pfx 0 c = Inr ([], c)"
| "parse_children version levels pfx (Suc n) c =
     sbind (parse_segment version pfx c) (\<lambda>(pat, c1).
     sbind (parse_node version levels pat c1) (\<lambda>(child, c2).
     sbind (parse_children version levels pfx n c2) (\<lambda>(cs, c3). Inr (Some child # cs, c3))))"

section \<open>The file\<close>

fun inflate_sink :: "u8 list \<Rightarrow> u8 list list \<Rightarrow> u8 list \<times> bool" where
  "inflate_sink out [] = (out, False)"
| "inflate_sink out (chunk # chunks) =
     (if length out + length chunk > kMaxDecompressedSize then (out, True)
      else inflate_sink (out @ chunk) chunks)"

definition decompress_inflate ::
  "(u8 list \<Rightarrow> u8 list list \<times> bool) \<Rightarrow> u8 list \<Rightarrow> u8 list expected" where
  "decompress_inflate tinfl compressed =
     (if compressed = [] then Inl (Papa_Error kFlirtBadCompressedStream ''empty input'')
      else let (chunks, done_ok) = tinfl compressed; (out, overflowed) = inflate_sink [] chunks in
        if overflowed
        then Inl (Papa_Error kFlirtBadCompressedStream ''output exceeded size cap'')
        else if \<not> done_ok then Inl (Papa_Error kFlirtBadCompressedStream ''inflate failed'')
        else Inr out)"

definition empty_pattern :: flirt_pattern where
  "empty_pattern = \<lparr>pat_bytes = replicate kMaxPatternLength 0,
     pat_wildcard = replicate kMaxPatternLength False, pat_length = 0\<rparr>"

definition sig_body ::
  "(u8 list \<Rightarrow> u8 list list \<times> bool) \<Rightarrow> flirt_header \<Rightarrow> u8 list \<Rightarrow> u8 list expected" where
  "sig_body tinfl hdr body_span =
     (if is_compressed hdr then decompress_inflate tinfl body_span else Inr body_span)"

definition parse_sig_buffer ::
  "(u8 list \<Rightarrow> u8 list list \<times> bool) \<Rightarrow> u8 list \<Rightarrow> (flirt_header \<times> flirt_node) expected" where
  "parse_sig_buffer tinfl sig =
     sbind (parse_header sig) (\<lambda>hdr.
     let body_offset = header_size_for_version (hd_version hdr) + unat (hd_library_name_len hdr) in
     if body_offset > length sig then Inl (Papa_Error kFlirtTruncated ''body offset'')
     else sbind (sig_body tinfl hdr (drop body_offset sig)) (\<lambda>body.
     sbind (parse_node (hd_version hdr) (kMaxTreeDepth + 1) empty_pattern (cursor_at body))
       (\<lambda>(root, c). Inr (hdr, root))))"

definition sample_sig :: "u8 list" where
  "sample_sig = [0x49, 0x44, 0x41, 0x53, 0x47, 0x4E, 8, 1, 0, 0, 0, 0, 0, 0, 0, 0, 0, 0, 0, 0, 0, 0,
     0, 0, 0, 0, 0, 0, 0, 0, 0, 0, 0, 0, 1, 0, 0, 0x78,
     1, 2, 1, 0x55, 0, 0, 0, 0, 16, 0, 0x6D, 0]"

lemma sample_sig_parses: "isl (parse_sig_buffer (\<lambda>_. ([], False)) sample_sig) = False"
  by code_simp

section \<open>Parsed trees are well-formed\<close>

lemma fill_segment_keeps:
  "\<forall>p\<in>set ps. prefix_len + p < kMaxPatternLength \<Longrightarrow> length (pat_bytes pat) = kMaxPatternLength \<Longrightarrow>
     length (pat_wildcard pat) = kMaxPatternLength \<Longrightarrow>
     (let q = fill_segment vm len prefix_len lits ps k pat in
       length (pat_bytes q) = kMaxPatternLength \<and> length (pat_wildcard q) = kMaxPatternLength \<and>
       (\<forall>i<prefix_len. pat_bytes q ! i = pat_bytes pat ! i \<and> pat_wildcard q ! i = pat_wildcard pat ! i))"
  by (induction vm len prefix_len lits ps k pat rule: fill_segment.induct) (auto simp: Let_def)

lemma parse_segment_ok:
  assumes "parse_segment version pfx c = Inr (pat, c')" and "pattern_wf pfx"
  shows "pattern_wf pat \<and> pattern_extends pfx pat"
proof -
  from assms obtain len vm lits where le: "pat_length pfx + len \<le> kMaxPatternLength"
    and pat: "pat = (fill_segment vm len (pat_length pfx) lits [0..<len] 0 pfx)\<lparr>pat_length := pat_length pfx + len\<rparr>"
    by (auto simp: parse_segment_def Let_def not_less split: if_split_asm)
  have "\<forall>p\<in>set [0..<len]. pat_length pfx + p < kMaxPatternLength" using le by auto
  from fill_segment_keeps [OF this, of pfx vm len lits 0] assms(2) le show ?thesis
    by (auto simp: pat pattern_wf_def pattern_extends_def Let_def)
qed

fun node_height :: "flirt_node \<Rightarrow> nat"
  and forest_height :: "flirt_node option list \<Rightarrow> nat" where
  "node_height (Flirt_Node p cs ms) = Suc (forest_height cs)"
| "forest_height [] = 0"
| "forest_height (None # cs) = forest_height cs"
| "forest_height (Some c # cs) = max (node_height c) (forest_height cs)"

lemma pattern_extends_refl [simp]: "pattern_extends p p"
  by (simp add: pattern_extends_def)

lemma tree_ok_pattern: "tree_ok p t \<Longrightarrow> nd_pattern t = q \<Longrightarrow> tree_ok q t"
  by (cases t) auto

lemma parse_node_ok:
  "parse_node version levels pfx c = Inr (t, c') \<Longrightarrow> pattern_wf pfx \<Longrightarrow>
     tree_ok pfx t \<and> node_height t \<le> levels \<and> nd_pattern t = pfx"
  "parse_children version levels pfx n c = Inr (cs, c') \<Longrightarrow> pattern_wf pfx \<Longrightarrow>
     forest_ok pfx cs \<and> forest_height cs \<le> levels \<and> length cs = n"
proof (induction version levels pfx c and version levels pfx n c arbitrary: t c' and cs c'
    rule: parse_node_parse_children.induct)
  case (2 version levels pfx c)
  from "2.prems"(1) obtain n c1 where n: "read_vle16 c = Some (n, c1)" by auto
  show ?case
  proof (cases "n = 0")
    case True
    with "2.prems" n show ?thesis by auto
  next
    case False
    with "2.prems"(1) n obtain cs c2 where cs: "parse_children version levels pfx (unat n) c1 = Inr (cs, c2)"
      and t: "t = Flirt_Node pfx cs []" by auto
    have "forest_ok pfx cs \<and> forest_height cs \<le> levels"
      using "2.IH" [OF truncated_Inr [THEN iffD2, OF n] refl False cs "2.prems"(2)] by simp
    then show ?thesis using "2.prems"(2) by (simp add: t)
  qed
next
  case (4 version levels pfx n c)
  from "4.prems"(1) obtain pat c1 child c2 ds where s: "parse_segment version pfx c = Inr (pat, c1)"
      "parse_node version levels pat c1 = Inr (child, c2)"
      "parse_children version levels pfx n c2 = Inr (ds, c')" "cs = Some child # ds"
    by auto
  note seg = parse_segment_ok [OF s(1) "4.prems"(2)]
  have child: "tree_ok pat child \<and> node_height child \<le> levels \<and> nd_pattern child = pat"
    using "4.IH"(1) [OF s(1) refl s(2)] seg by simp
  have "tree_ok pfx child"
    using child seg by (cases child) auto
  moreover have "forest_ok pfx ds \<and> forest_height ds \<le> levels \<and> length ds = n"
    using "4.IH"(2) [OF s(1) refl s(2) refl s(3)] "4.prems"(2) by simp
  ultimately show ?case using child by (simp add: s(4))
qed simp_all

lemma empty_pattern_wf: "pattern_wf empty_pattern"
  by (simp add: pattern_wf_def empty_pattern_def)

lemma parse_sig_tree:
  "parse_sig_buffer tinfl sig = Inr (h, root) \<Longrightarrow>
     tree_ok empty_pattern root \<and> node_height root \<le> kMaxTreeDepth + 1 \<and> nd_pattern root = empty_pattern"
  using parse_node_ok(1) empty_pattern_wf
  by (auto simp: parse_sig_buffer_def Let_def simp del: parse_node.simps split: if_split_asm)

section \<open>The header is where the body begins\<close>

lemma read_advances:
  "read_u8 c = Some (x, c') \<Longrightarrow> c' = advance c 1 \<and> remaining c 1"
  "read_u16_le c = Some (y, c') \<Longrightarrow> c' = advance c 2 \<and> remaining c 2"
  "read_u32_le c = Some (z, c') \<Longrightarrow> c' = advance c 4 \<and> remaining c 4"
  by (auto simp: read_u8_def read_u16_le_def read_u32_le_def split: if_split_asm)

lemma advance_advance [simp]: "advance (advance c m) n = advance c (m + n)"
  by (simp add: advance_def)

lemma remaining_advance [simp]: "remaining (advance c m) n = remaining c (m + n)"
  by (simp add: advance_def remaining_def add.assoc)

lemma read_n_functions_advances:
  "read_n_functions v c = Inr (n, c') \<Longrightarrow> remaining c 0 \<Longrightarrow>
     c' = advance c (if v \<ge> 9 then 4 else 0) \<and> remaining c (if v \<ge> 9 then 4 else 0)"
  by (auto simp: read_n_functions_def advance_def dest!: read_advances split: if_split_asm)

lemma read_v10_fields_advances:
  "read_v10_fields v c = Inr (a, b, c') \<Longrightarrow> remaining c 0 \<Longrightarrow>
     c' = advance c (if v \<ge> 10 then 4 else 0) \<and> remaining c (if v \<ge> 10 then 4 else 0)"
  by (auto simp: read_v10_fields_def advance_def dest!: read_advances split: if_split_asm)
    (simp add: remaining_def)

lemma read_library_name_advances:
  "read_library_name n c = Inr (s, c') \<Longrightarrow> remaining c 0 \<Longrightarrow>
     c' = advance c (unat n) \<and> remaining c (unat n) \<and> length s = unat n"
  by (cases "n = 0")
    (auto simp: read_library_name_def advance_def word_gt_0 dest!: read_bytes_result split: if_split_asm)

lemma header_size_cases:
  "is_supported_version v \<Longrightarrow> header_size_for_version v =
     37 + (if v \<ge> 9 then 4 else 0) + (if v \<ge> 10 then 4 else 0)"
  by (auto simp: header_size_for_version_def is_supported_version_def kMinSupportedVersion_def
      word_le_nat_alt)

lemma parse_header_at_end:
  assumes "parse_header_at c = Inr (h, c')"
  shows "is_supported_version (hd_version h) \<and> length (hd_library_name h) = unat (hd_library_name_len h) \<and>
    (let n = header_size_for_version (hd_version h) + unat (hd_library_name_len h)
     in c' = advance c n \<and> remaining c n)"
proof -
  from assms obtain v c1 f len p unk nm c2 c3 c4 where
      c1: "c1 = advance c 37" "remaining c 37" and v: "is_supported_version v"
    and r: "read_n_functions v c1 = Inr (f, c2)" "read_v10_fields v c2 = Inr (p, unk, c3)"
      "read_library_name len c3 = Inr (nm, c4)"
    and h: "c' = c4" "hd_version h = v" "hd_library_name_len h = len" "hd_library_name h = nm"
    by (auto simp: parse_header_at_def kIdasgnMagic_def split: if_split_asm
        dest!: read_advances read_bytes_result)
  note r1 = read_n_functions_advances [OF r(1)]
  note r2 = read_v10_fields_advances [OF r(2)]
  note r3 = read_library_name_advances [OF r(3)]
  have z: "remaining c1 0" using c1 by simp
  have c2: "c2 = advance c (37 + (if v \<ge> 9 then 4 else 0))" "remaining c (37 + (if v \<ge> 9 then 4 else 0))"
    using r1 z c1 by auto
  then have "remaining c2 0" by simp
  with r2 c2 have c3: "c3 = advance c (header_size_for_version v)" "remaining c (header_size_for_version v)"
    unfolding header_size_cases [OF v] by auto
  then have "remaining c3 0" by simp
  with r3 c3 have "c4 = advance c (header_size_for_version v + unat len)"
      "remaining c (header_size_for_version v + unat len)" "length nm = unat len"
    by auto
  with v h show ?thesis by (simp add: Let_def)
qed

text \<open>
  When the header parses, its version is one of 8, 9 and 10 and the reader has consumed
  exactly the bytes that \<open>header_size_for_version\<close> and the library name length announce, so
  the body starts where the header ends and lies in the file.
\<close>

theorem header_ends_at_body:
  assumes "parse_header_at (cursor_at sig) = Inr (h, c)"
  shows "hd_version h \<in> {8, 9, 10} \<and>
    cur_pos c = header_size_for_version (hd_version h) + unat (hd_library_name_len h) \<and>
    cur_pos c \<le> length sig \<and> length (hd_library_name h) = unat (hd_library_name_len h)"
proof -
  note e = parse_header_at_end [OF assms]
  have "unat (hd_version h) \<in> {8, 9, 10}"
    using e by (auto simp: is_supported_version_def kMinSupportedVersion_def
        kMaxSupportedVersion_def word_le_nat_alt)
  then have "hd_version h \<in> {8, 9, 10}" by (auto simp: word_unat_eq_iff)
  then show ?thesis using e by (auto simp: Let_def remaining_def cursor_at_def advance_def)
qed

lemma header_ends_at_body_witness:
  "\<exists>h c. parse_header_at (cursor_at sample_sig) = Inr (h, c) \<and> cur_pos c \<le> length sample_sig \<and>
     cur_pos c = header_size_for_version (hd_version h) + unat (hd_library_name_len h)"
proof -
  have "isl (parse_header_at (cursor_at sample_sig)) = False" by code_simp
  then obtain h c where "parse_header_at (cursor_at sample_sig) = Inr (h, c)"
    by (cases "parse_header_at (cursor_at sample_sig)") auto
  from this header_ends_at_body [OF this] show ?thesis by blast
qed

text \<open>
  C9: every tree the parser returns is well-formed, whatever the bytes: no pattern is longer
  than 32 bytes, the pattern of a node repeats its parent's, a node with children has no
  modules, no child is missing, and the nesting stays within the depth cap.
\<close>

theorem parsed_tree_ok:
  assumes "parse_sig_buffer tinfl sig = Inr (h, root)"
  shows "tree_ok empty_pattern root \<and> node_height root \<le> 65"
  using parse_sig_tree [OF assms] by (simp add: kMaxTreeDepth_def)

lemma sample_sig_tree: "\<exists>h root. parse_sig_buffer (\<lambda>_. ([], False)) sample_sig = Inr (h, root)"
  using sample_sig_parses by (cases "parse_sig_buffer (\<lambda>_. ([], False)) sample_sig") auto

lemma parsed_tree_ok_witness:
  "\<exists>h root. parse_sig_buffer (\<lambda>_. ([], False)) sample_sig = Inr (h, root) \<and>
     tree_ok empty_pattern root \<and> node_height root \<le> 65"
  using parsed_tree_ok sample_sig_tree by blast

text \<open>
  C10: on a parsed tree, cutting off the subtree of a node whose pattern fails loses no match.
  The matcher returns exactly the modules whose accumulated pattern matches the function
  bytes and whose tail CRC and tail bytes verify, in file order, and the yes-or-no matcher
  says whether there is one.
\<close>

theorem matcher_prunes_nothing:
  assumes "parse_sig_buffer tinfl sig = Inr (h, root)"
  shows "match_flirt_modules (Some root) bytes = map snd (filter (module_hits bytes) (tree_modules root)) \<and>
    (match_flirt (Some root) bytes \<longleftrightarrow> (\<exists>pm\<in>set (tree_modules root). module_hits bytes pm))"
proof -
  have "collect_matching root bytes = map snd (filter (module_hits bytes) (tree_modules root))"
    using parse_sig_tree [OF assms] by (intro collect_spec(1)) blast
  then show ?thesis
    by (auto simp: match_flirt_modules_def match_flirt_def node_matches_collect filter_empty_conv)
qed

lemma matcher_prunes_nothing_witness:
  "\<exists>h root. parse_sig_buffer (\<lambda>_. ([], False)) sample_sig = Inr (h, root) \<and>
     (match_flirt (Some root) [] \<longleftrightarrow> (\<exists>pm\<in>set (tree_modules root). module_hits [] pm))"
  using matcher_prunes_nothing sample_sig_tree by blast

lemma inflate_sink_result:
  "length out \<le> kMaxDecompressedSize \<Longrightarrow> inflate_sink out chunks = (r, over) \<Longrightarrow>
     length r \<le> kMaxDecompressedSize \<and>
     (over \<longleftrightarrow> length (out @ concat chunks) > kMaxDecompressedSize) \<and>
     (\<not> over \<longrightarrow> r = out @ concat chunks)"
  by (induction out chunks rule: inflate_sink.induct) (auto split: if_split_asm)

text \<open>
  Whatever the inflate routine delivers, the decompressed body is at most 64 MiB; it is
  the concatenation of the chunks when they fit and the routine reports success, and an error
  otherwise.
\<close>

theorem decompress_capped:
  "case decompress_inflate tinfl compressed of
     Inr out \<Rightarrow> length out \<le> kMaxDecompressedSize \<and> out = concat (fst (tinfl compressed)) \<and>
       snd (tinfl compressed) \<and> compressed \<noteq> []
   | Inl e \<Rightarrow> \<not> (compressed \<noteq> [] \<and> snd (tinfl compressed) \<and>
       length (concat (fst (tinfl compressed))) \<le> kMaxDecompressedSize)"
proof -
  obtain chunks ok where t: "tinfl compressed = (chunks, ok)" by fastforce
  obtain r over where r: "inflate_sink [] chunks = (r, over)" by fastforce
  from inflate_sink_result [OF _ r] show ?thesis
    by (auto simp: decompress_inflate_def t r)
qed

end
