(* ===== verification/Flirt_Classifier.thy ===== *)
theory Flirt_Classifier
  imports Flirt_Tree
begin

text \<open>
  The reference-validating classifier (flirt_classifier.cpp).  The analyzed program is a
  record of functions, the view \<open>FunctionContext\<close> gives; \<open>on_match\<close> and \<open>library_lookup\<close> share
  a state \<open>'w\<close> of the caller, because the analyzer that supplies them records names in the one
  and reads them in the other.  \<open>levels\<close> is \<open>kMaxClassifyDepth - depth\<close>.
\<close>

section \<open>The classifier\<close>

definition kMatchWindow :: nat where "kMatchWindow = 0x200"

definition kMaxClassifyDepth :: nat where "kMaxClassifyDepth = 64"

record flirt_xref =
  fx_target :: u64
  fx_is_code :: bool

record 'w classifier =
  cl_matcher :: "u8 list \<Rightarrow> flirt_module option list"
  cl_code_at :: "u64 \<Rightarrow> nat \<Rightarrow> u8 list"
  cl_xref_from :: "u64 \<Rightarrow> flirt_xref option"
  cl_is_function_entry :: "u64 \<Rightarrow> bool"
  cl_on_match :: "u64 \<Rightarrow> flirt_module \<Rightarrow> 'w \<Rightarrow> 'w"
  cl_library_lookup :: "('w \<Rightarrow> u64 \<Rightarrow> string option) option"

type_synonym cache = "u64 \<Rightarrow> string option option"

definition match_name :: "flirt_module \<Rightarrow> string option" where
  "match_name m = map_option fn_name (find (\<lambda>n. fn_offset n = 0) (fm_names m))"

text \<open>The names a winner assigns at its other offsets, in order.\<close>

fun name_siblings :: "u64 \<Rightarrow> flirt_name list \<Rightarrow> cache \<Rightarrow> cache" where
  "name_siblings va [] ca = ca"
| "name_siblings va (n # ns) ca =
     (if fn_offset n \<noteq> 0 then name_siblings va ns (ca(va + fn_offset n := Some (Some (fn_name n))))
      else name_siblings va ns ca)"

text \<open>
  What the loop over the candidates ends with: the first name and its module, if any, or an
  early return because two candidates disagree.
\<close>

datatype verdict = Ambiguous | Winner "(string \<times> flirt_module) option"

function (sequential) classify_at :: "'w classifier \<Rightarrow> nat \<Rightarrow> u64 \<Rightarrow> cache \<times> 'w \<Rightarrow> string option \<times> cache \<times> 'w"
  and candidates :: "'w classifier \<Rightarrow> nat \<Rightarrow> u64 \<Rightarrow> flirt_module option list
      \<Rightarrow> (string \<times> flirt_module) option \<Rightarrow> cache \<times> 'w \<Rightarrow> verdict \<times> cache \<times> 'w"
  and references_satisfied ::
    "'w classifier \<Rightarrow> nat \<Rightarrow> u64 \<Rightarrow> flirt_reference list \<Rightarrow> cache \<times> 'w \<Rightarrow> bool \<times> cache \<times> 'w"
where
  "classify_at cl levels va (ca, w) =
     (case ca va of
        Some r \<Rightarrow> (r, ca, w)
      | None \<Rightarrow>
          (case levels of
             0 \<Rightarrow> (None, ca, w)
           | Suc l \<Rightarrow>
               if \<not> cl_is_function_entry cl va then (None, ca, w)
               else
                 let ca1 = ca(va := Some None);
                     bytes = cl_code_at cl va kMatchWindow
                 in if bytes = [] then (None, ca1, w)
                    else (case candidates cl l va (cl_matcher cl bytes) None (ca1, w) of
                        (Ambiguous, ca2, w2) \<Rightarrow> (None, ca2, w2)
                      | (Winner None, ca2, w2) \<Rightarrow> (None, ca2(va := Some None), w2)
                      | (Winner (Some (name, m)), ca2, w2) \<Rightarrow>
                          (Some name, (name_siblings va (fm_names m) ca2)(va := Some (Some name)),
                           cl_on_match cl va m w2))))"
| "candidates cl l va [] res st = (Winner res, st)"
| "candidates cl l va (None # ms) res st = candidates cl l va ms res st"
| "candidates cl l va (Some m # ms) res st =
     (case references_satisfied cl l va (fm_references m) st of
        (False, st') \<Rightarrow> candidates cl l va ms res st'
      | (True, st') \<Rightarrow>
          (case match_name m of
             None \<Rightarrow> candidates cl l va ms res st'
           | Some name \<Rightarrow>
               (case res of
                  None \<Rightarrow> candidates cl l va ms (Some (name, m)) st'
                | Some (name', m') \<Rightarrow>
                    if name' \<noteq> name then (Ambiguous, st') else candidates cl l va ms res st')))"
| "references_satisfied cl l va [] st = (True, st)"
| "references_satisfied cl l va (ref # refs) st =
     (case cl_xref_from cl (va + ucast (fr_offset ref)) of
        None \<Rightarrow> (False, st)
      | Some x \<Rightarrow>
          if fr_name ref = ''.'' then
            (if fx_is_code x then (False, st) else references_satisfied cl l va refs st)
          else if \<not> fx_is_code x then (False, st)
          else
            (case classify_at cl l (fx_target x) st of
               (found, ca', w') \<Rightarrow>
                 let target_name = (case cl_library_lookup cl of None \<Rightarrow> found
                                    | Some lookup \<Rightarrow> lookup w' (fx_target x))
                 in if target_name = Some (fr_name ref)
                    then references_satisfied cl l va refs (ca', w')
                    else (False, ca', w')))"
  by pat_completeness auto
termination
  by (relation "inv_image (less_than <*lex*> less_than) (\<lambda>x. case x of
      Inl (cl, l, _) \<Rightarrow> (3 * l, 0)
    | Inr (Inl (cl, l, va, ms, _)) \<Rightarrow> (3 * l + 2, length ms)
    | Inr (Inr (cl, l, va, rs, _)) \<Rightarrow> (3 * l + 1, length rs))") auto

declare classify_at.simps [simp del]

definition classify :: "'w classifier \<Rightarrow> u64 \<Rightarrow> cache \<times> 'w \<Rightarrow> string option \<times> cache \<times> 'w" where
  "classify cl va st = classify_at cl kMaxClassifyDepth va st"

section \<open>What a classification does to the cache\<close>

definition cache_grows :: "cache \<times> 'w \<Rightarrow> cache \<times> 'w \<Rightarrow> bool" where
  "cache_grows st st' \<longleftrightarrow> dom (fst st) \<subseteq> dom (fst st')"

lemma grows_refl [simp]: "cache_grows st st"
  by (simp add: cache_grows_def)

lemma grows_trans: "cache_grows a b \<Longrightarrow> cache_grows b c \<Longrightarrow> cache_grows a c"
  by (auto simp: cache_grows_def)

lemma name_siblings_defined: "ca x \<noteq> None \<Longrightarrow> name_siblings va ns ca x \<noteq> None"
  by (induction va ns ca rule: name_siblings.induct) auto

lemma siblings_grow:
  "cache_grows (ca, w) ((name_siblings va ns ca)(x := Some y), w')"
  using name_siblings_defined [of ca _ va ns] by (auto simp: cache_grows_def)

lemma classify_grows:
  "classify_at cl l va st = (r, st') \<Longrightarrow> cache_grows st st'"
  "candidates cl l va ms res st = (v, st') \<Longrightarrow> cache_grows st st'"
  "references_satisfied cl l va refs st = (b, st') \<Longrightarrow> cache_grows st st'"
proof (induction cl l va st and cl l va ms res st and cl l va refs st
    arbitrary: r st' and v st' and b st'
    rule: classify_at_candidates_references_satisfied.induct)
  case (1 cl levels va ca w)
  show ?case
  proof (cases "ca va = None \<and> levels \<noteq> 0 \<and> cl_is_function_entry cl va \<and> cl_code_at cl va kMatchWindow \<noteq> []")
    case False
    with "1.prems" show ?thesis
      by (auto simp: classify_at.simps Let_def cache_grows_def split: option.splits nat.splits if_split_asm)
  next
    case True
    then obtain l where l: "levels = Suc l" by (cases levels) auto
    obtain v ca2 w2 where c: "candidates cl l va (cl_matcher cl (cl_code_at cl va kMatchWindow)) None
        (ca(va := Some None), w) = (v, ca2, w2)" by (metis prod_cases3)
    have g: "cache_grows (ca(va := Some None), w) (ca2, w2)"
      using "1.IH" [OF _ l _ refl refl _ c] True by simp
    then have "cache_grows (ca, w) (ca2, w2)" by (auto simp: cache_grows_def)
    moreover have "cache_grows (ca2, w2) st'"
    proof (cases v)
      case Ambiguous
      with "1.prems" True l c show ?thesis by (simp add: classify_at.simps Let_def)
    next
      case (Winner res)
      show ?thesis
      proof (cases res)
        case None
        with "1.prems" True l c Winner have "st' = (ca2(va := Some None), w2)"
          by (simp add: classify_at.simps Let_def)
        then show ?thesis by (auto simp: cache_grows_def)
      next
        case (Some nm)
        with "1.prems" True l c Winner have "fst st' =
            (name_siblings va (fm_names (snd nm)) ca2)(va := Some (Some (fst nm)))"
          by (cases nm) (auto simp: classify_at.simps Let_def)
        with siblings_grow [of ca2 w2 va "fm_names (snd nm)" va "Some (fst nm)"] show ?thesis
          by (simp add: cache_grows_def)
      qed
    qed
    ultimately show ?thesis by (rule grows_trans)
  qed
next
  case (4 cl l va m ms res st)
  obtain b st1 where rs: "references_satisfied cl l va (fm_references m) st = (b, st1)"
    by (metis surj_pair)
  have g: "cache_grows st st1" using "4.IH"(1) [OF rs] .
  show ?case
  proof (cases b)
    case False
    with "4.prems" rs have "candidates cl l va ms res st1 = (v, st')" by simp
    from "4.IH"(5) [OF rs [symmetric] _ this] False g show ?thesis by (auto intro: grows_trans)
  next
    case b: True
    show ?thesis
    proof (cases "match_name m")
      case None
      with "4.prems" rs b have "candidates cl l va ms res st1 = (v, st')" by simp
      from "4.IH"(2) [OF rs [symmetric] _ None this] b g show ?thesis by (auto intro: grows_trans)
    next
      case name: (Some name)
      show ?thesis
      proof (cases res)
        case None
        with "4.prems" rs b name have "candidates cl l va ms (Some (name, m)) st1 = (v, st')" by simp
        from "4.IH"(3) [OF rs [symmetric] _ name None this] b g show ?thesis
          by (auto intro: grows_trans)
      next
        case (Some w)
        obtain name' m' where w: "w = (name', m')" by (cases w)
        show ?thesis
        proof (cases "name' = name")
          case True
          with "4.prems" rs b name Some w have "candidates cl l va ms res st1 = (v, st')" by simp
          from "4.IH"(4) [OF rs [symmetric] _ name Some [unfolded w] refl _ this] b True g
          show ?thesis by (auto intro: grows_trans)
        next
          case False
          with "4.prems" rs b name Some w g show ?thesis by simp
        qed
      qed
    qed
  qed
next
  case (6 cl l va ref refs st)
  show ?case
  proof (cases "cl_xref_from cl (va + ucast (fr_offset ref))")
    case None
    with "6.prems" show ?thesis by simp
  next
    case x: (Some x)
    obtain found ca1 w1 where c: "classify_at cl l (fx_target x) st = (found, ca1, w1)"
      by (metis prod_cases3)
    let ?n = "case cl_library_lookup cl of None \<Rightarrow> found | Some lookup \<Rightarrow> lookup w1 (fx_target x)"
    consider "fr_name ref = ''.''" "fx_is_code x" | "fr_name ref = ''.''" "\<not> fx_is_code x"
      | "fr_name ref \<noteq> ''.''" "\<not> fx_is_code x" | "fr_name ref \<noteq> ''.''" "fx_is_code x" by blast
    then show ?thesis
    proof cases
      case 1
      with "6.prems" x show ?thesis by simp
    next
      case 2
      with "6.prems" x have "references_satisfied cl l va refs st = (b, st')" by simp
      with "6.IH"(1) x 2 show ?thesis by simp
    next
      case 3
      with "6.prems" x show ?thesis by simp
    next
      case 4
      then have g: "cache_grows st (ca1, w1)" using "6.IH"(2) [OF x _ _ c] by simp
      show ?thesis
      proof (cases "?n = Some (fr_name ref)")
        case True
        with "6.prems" x c 4 have "references_satisfied cl l va refs (ca1, w1) = (b, st')" by simp
        with "6.IH"(3) [OF x] 4 c True have "cache_grows (ca1, w1) st'" by simp
        with g show ?thesis by (rule grows_trans)
      next
        case False
        with "6.prems" x c 4 have "st' = (ca1, w1)" by simp
        with g show ?thesis by simp
      qed
    qed
  qed
qed simp_all


section \<open>What a name means\<close>

text \<open>A reference is backed by the program: the right kind of cross reference leaves its site.\<close>

definition reference_backed :: "'w classifier \<Rightarrow> u64 \<Rightarrow> flirt_reference \<Rightarrow> bool" where
  "reference_backed cl va ref =
     (case cl_xref_from cl (va + ucast (fr_offset ref)) of
        None \<Rightarrow> False
      | Some x \<Rightarrow> fx_is_code x \<longleftrightarrow> fr_name ref \<noteq> ''.'')"

lemma satisfied_backed:
  "references_satisfied cl l va refs st = (True, st') \<Longrightarrow> list_all (reference_backed cl va) refs"
proof (induction refs arbitrary: st)
  case (Cons ref refs)
  from Cons.prems show ?case
    by (auto simp: reference_backed_def Let_def dest!: Cons.IH
        split: option.splits if_split_asm prod.splits)
qed simp

text \<open>A candidate that may win: it has a name at its entry and its references are backed.\<close>

definition eligible :: "'w classifier \<Rightarrow> u64 \<Rightarrow> string \<times> flirt_module \<Rightarrow> bool" where
  "eligible cl va nm \<longleftrightarrow>
     match_name (snd nm) = Some (fst nm) \<and> list_all (reference_backed cl va) (fm_references (snd nm))"

lemma candidates_winner:
  "candidates cl l va ms res st = (Winner (Some nm), st') \<Longrightarrow>
   res = Some nm \<or> Some (snd nm) \<in> set ms \<and> eligible cl va nm"
proof (induction ms arbitrary: res st)
  case (Cons mo ms)
  show ?case
  proof (cases mo)
    case None
    with Cons.prems Cons.IH show ?thesis by auto
  next
    case (Some m)
    obtain b st1 where rs: "references_satisfied cl l va (fm_references m) st = (b, st1)"
      by (metis surj_pair)
    have ok: "b \<Longrightarrow> match_name m = Some name \<Longrightarrow> eligible cl va (name, m)" for name
      using satisfied_backed [of cl l va "fm_references m" st st1] rs
      by (cases b) (simp_all add: eligible_def)
    from Cons.prems Some rs ok show ?thesis
      by (cases b) (auto split: option.splits if_split_asm dest!: Cons.IH)
  qed
qed simp

text \<open>The other survivors of a winning run agree: a second name ends it as ambiguous.\<close>

lemma candidates_keep_name:
  "candidates cl l va ms (Some (name, m)) st = (Winner r, st') \<Longrightarrow> r = Some (name, m)"
proof (induction ms arbitrary: st)
  case (Cons mo ms)
  then show ?case
    by (cases mo) (auto split: option.splits if_split_asm prod.splits bool.splits)
qed simp

lemmas classify_at_cases = classify_at.simps
lemmas classify_defs = classify_def kMaxClassifyDepth_def

lemma classify_at_some:
  assumes "classify_at cl levels va (ca, w) = (Some name, ca', w')" and "ca va = None"
  shows "\<exists>l m ca2 w2. levels = Suc l \<and> cl_is_function_entry cl va
    \<and> cl_code_at cl va kMatchWindow \<noteq> []
    \<and> candidates cl l va (cl_matcher cl (cl_code_at cl va kMatchWindow)) None
        (ca(va := Some None), w) = (Winner (Some (name, m)), ca2, w2)
    \<and> ca' = (name_siblings va (fm_names m) ca2)(va := Some (Some name))
    \<and> w' = cl_on_match cl va m w2"
  using assms
  by (auto simp: classify_at.simps Let_def
      split: nat.splits if_split_asm prod.splits verdict.splits option.splits)

lemma classify_at_caches_name:
  assumes "classify_at cl levels va (ca, w) = (Some name, ca', w')"
  shows "ca' va = Some (Some name)"
proof (cases "ca va")
  case None
  from classify_at_some [OF assms None] show ?thesis by auto
next
  case (Some r)
  with assms show ?thesis by (simp add: classify_at.simps)
qed

text \<open>The names that candidates without references propose, and the loop over them.\<close>

definition proposed_names :: "flirt_module option list \<Rightarrow> string list" where
  "proposed_names ms = List.map_filter (\<lambda>mo. Option.bind mo match_name) ms"

lemma proposed_names_simps [simp]:
  "proposed_names [] = []"
  "proposed_names (None # ms) = proposed_names ms"
  "proposed_names (Some m # ms) =
     (case match_name m of None \<Rightarrow> proposed_names ms | Some n \<Rightarrow> n # proposed_names ms)"
  by (auto simp: proposed_names_def map_filter_simps split: option.splits)

definition reference_free :: "flirt_module option list \<Rightarrow> bool" where
  "reference_free ms \<longleftrightarrow> (\<forall>m. Some m \<in> set ms \<longrightarrow> fm_references m = [])"

lemma reference_free_simps [simp]:
  "reference_free []" "reference_free (None # ms) = reference_free ms"
  "reference_free (Some m # ms) \<longleftrightarrow> fm_references m = [] \<and> reference_free ms"
  by (auto simp: reference_free_def)

lemma candidates_after_first:
  "reference_free ms \<Longrightarrow> candidates cl l va ms (Some (name, m)) st =
     (if list_all (\<lambda>n. n = name) (proposed_names ms) then Winner (Some (name, m)) else Ambiguous, st)"
proof (induction ms)
  case (Cons mo ms)
  then show ?case by (cases mo) (auto split: option.splits)
qed simp

lemma candidates_reference_free:
  "reference_free ms \<Longrightarrow> \<exists>v. candidates cl l va ms None st = (v, st) \<and>
     (case proposed_names ms of
        [] \<Rightarrow> v = Winner None
      | name # names \<Rightarrow> if list_all (\<lambda>n. n = name) names then \<exists>m. v = Winner (Some (name, m))
                        else v = Ambiguous)"
proof (induction ms)
  case (Cons mo ms)
  show ?case
  proof (cases mo)
    case None
    with Cons show ?thesis by simp
  next
    case (Some m)
    with Cons show ?thesis
      by (cases "match_name m") (auto simp: candidates_after_first)
  qed
qed simp

section \<open>Properties\<close>

text \<open>
  C33: a name the classifier gives to an address it had not seen is justified by the program:
  the address is a function entry with readable code, a module the matcher returned for that
  code carries the name at offset 0, and every reference of that module leaves from its site as
  a data reference when the signature says \<open>.\<close> and as a code reference otherwise.
\<close>

theorem classified_name_justified:
  assumes "classify cl va (ca, w) = (Some name, ca', w')" and "ca va = None"
  shows "cl_is_function_entry cl va \<and>
    (\<exists>m. Some m \<in> set (cl_matcher cl (cl_code_at cl va kMatchWindow))
      \<and> cl_code_at cl va kMatchWindow \<noteq> []
      \<and> match_name m = Some name
      \<and> (\<forall>ref \<in> set (fm_references m). \<exists>x.
           cl_xref_from cl (va + ucast (fr_offset ref)) = Some x
           \<and> (fx_is_code x \<longleftrightarrow> fr_name ref \<noteq> ''.'')))"
proof -
  from classify_at_some [OF assms(1) [unfolded classify_def] assms(2)]
  obtain l m ca2 w2 where entry: "cl_is_function_entry cl va"
    and code: "cl_code_at cl va kMatchWindow \<noteq> []"
    and win: "candidates cl l va (cl_matcher cl (cl_code_at cl va kMatchWindow)) None
        (ca(va := Some None), w) = (Winner (Some (name, m)), ca2, w2)" by blast
  from candidates_winner [OF win]
  have "Some m \<in> set (cl_matcher cl (cl_code_at cl va kMatchWindow))" and "eligible cl va (name, m)"
    by simp_all
  then show ?thesis using entry code
    by (intro conjI exI [of _ m])
      (auto simp: eligible_def list_all_iff reference_backed_def split: option.splits)
qed


text \<open>
  A name, once given, is remembered: the cache holds it, so asking again returns the same
  name and neither reads the program nor changes the cache or the caller's state.
\<close>

theorem classified_name_remembered:
  assumes "classify cl va (ca, w) = (Some name, ca', w')"
  shows "ca' va = Some (Some name) \<and> classify cl va (ca', w') = (Some name, ca', w')"
  using classify_at_caches_name [OF assms [unfolded classify_def]]
  by (simp add: classify_def classify_at.simps)

text \<open>
  For a function the cache does not know whose candidates carry no references, the verdict
  is the common name: the classifier returns a name exactly when some candidate has a name at
  offset 0 and all candidates that have one agree on it, and the cache then holds that name.
\<close>

theorem unanimous_name_wins:
  assumes "ca va = None" and "cl_is_function_entry cl va"
    and "cl_code_at cl va kMatchWindow \<noteq> []"
    and "reference_free (cl_matcher cl (cl_code_at cl va kMatchWindow))"
  shows "fst (classify cl va (ca, w)) =
    (case proposed_names (cl_matcher cl (cl_code_at cl va kMatchWindow)) of
       [] \<Rightarrow> None
     | name # names \<Rightarrow> if list_all (\<lambda>n. n = name) names then Some name else None)"
proof -
  from candidates_reference_free [OF assms(4), of cl 63 va "(ca(va := Some None), w)"]
  obtain v where c: "candidates cl 63 va (cl_matcher cl (cl_code_at cl va kMatchWindow)) None
        (ca(va := Some None), w) = (v, ca(va := Some None), w)"
    and v: "case proposed_names (cl_matcher cl (cl_code_at cl va kMatchWindow)) of
        [] \<Rightarrow> v = Winner None
      | name # names \<Rightarrow> if list_all (\<lambda>n. n = name) names then \<exists>m. v = Winner (Some (name, m))
                        else v = Ambiguous" by blast
  have levels: "kMaxClassifyDepth = Suc 63" by (simp add: kMaxClassifyDepth_def)
  show ?thesis
    using v by (auto simp: classify_def levels classify_at.simps Let_def assms(1-3) c split: list.splits)
qed

text \<open>
  The cache only ever gains addresses: whatever a classification visits, no address the
  cache had an answer for (a name or a negative) loses its entry.
\<close>

theorem classification_never_forgets:
  "dom ca \<subseteq> dom (fst (snd (classify cl va (ca, w))))"
proof -
  obtain r st' where "classify cl va (ca, w) = (r, st')" by (metis surj_pair)
  then show ?thesis
    using classify_grows(1) [of cl kMaxClassifyDepth va "(ca, w)" r st']
    by (simp add: classify_def cache_grows_def)
qed

section \<open>A concrete program\<close>

text \<open>
  Two functions: \<open>alpha\<close> at 16 calls \<open>beta\<close> at 32.  The matcher's answer is chosen by the first
  byte of the code; \<open>on_match\<close> counts the matches.
\<close>

definition demo_beta :: flirt_module where
  "demo_beta = \<lparr>fm_tail_crc16 = 0, fm_tail_length = 0, fm_function_size = 8,
     fm_names = [\<lparr>fn_offset = 0, fn_name = ''beta'', fn_type = kPublic\<rparr>],
     fm_tail_bytes = [], fm_references = []\<rparr>"

definition demo_alpha :: flirt_module where
  "demo_alpha = \<lparr>fm_tail_crc16 = 0, fm_tail_length = 0, fm_function_size = 8,
     fm_names = [\<lparr>fn_offset = 0, fn_name = ''alpha'', fn_type = kPublic\<rparr>],
     fm_tail_bytes = [], fm_references = [\<lparr>fr_offset = 1, fr_name = ''beta''\<rparr>]\<rparr>"

definition demo_classifier :: "nat classifier" where
  "demo_classifier = \<lparr>
     cl_matcher = (\<lambda>bytes. if hd bytes = 1 then [Some demo_alpha, None] else [Some demo_beta]),
     cl_code_at = (\<lambda>va n. if va = 16 then [1] else if va = 32 then [2] else []),
     cl_xref_from = (\<lambda>va. if va = 17 then Some \<lparr>fx_target = 32, fx_is_code = True\<rparr> else None),
     cl_is_function_entry = (\<lambda>va. va = 16 \<or> va = 32),
     cl_on_match = (\<lambda>_ _ n. Suc n),
     cl_library_lookup = None\<rparr>"

lemmas demo_defs = demo_classifier_def demo_alpha_def demo_beta_def match_name_def

lemma demo_levels: "kMaxClassifyDepth = Suc (Suc 62)"
  by (simp add: kMaxClassifyDepth_def)

lemma demo_alpha_named:
  "classify demo_classifier 16 (\<lambda>_. None, 0) =
     (Some ''alpha'', ((\<lambda>_. None)(16 := Some (Some ''alpha''), 32 := Some (Some ''beta''))), 2)"
  by (simp add: classify_def demo_levels classify_at.simps demo_defs Let_def fun_eq_iff)

theorem classified_name_justified_witness:
  "\<exists>m. Some m \<in> set (cl_matcher demo_classifier (cl_code_at demo_classifier 16 kMatchWindow))
     \<and> match_name m = Some ''alpha'' \<and> fm_references m \<noteq> []"
  using classified_name_justified [OF demo_alpha_named] by (auto simp: demo_defs)

theorem classified_name_remembered_witness:
  "fst (classify demo_classifier 16 (snd (classify demo_classifier 16 (\<lambda>_. None, 0)))) = Some ''alpha''"
  using classified_name_remembered [OF demo_alpha_named] by (simp add: demo_alpha_named)

theorem unanimous_name_wins_witness:
  "fst (classify demo_classifier 32 (\<lambda>_. None, 0)) = Some ''beta''"
  using unanimous_name_wins [of "\<lambda>_. None" 32 demo_classifier 0]
  by (simp add: demo_defs)

end
