(* ===== verification/Emu_Bits.thy ===== *)
theory Emu_Bits
  imports Papa_Prelude
begin

text \<open>
  The integer helpers of the instruction emulator: bits.h and the wide arithmetic of
  intel_emulator.cpp (\<open>umul_hi\<close>, \<open>smul_hi\<close>, \<open>udiv128\<close>).  Sizes are counted in bytes.
  An operation the language leaves undefined (a shift count of 64 or more, a signed result
  that does not fit) is \<^const>\<open>None\<close>.
\<close>

section \<open>Operations that may be undefined\<close>

definition shl64 :: "u64 \<Rightarrow> u64 \<Rightarrow> u64 option" where
  "shl64 v n = (if n < 64 then Some (push_bit (unat n) v) else None)"

definition shr64 :: "u64 \<Rightarrow> u64 \<Rightarrow> u64 option" where
  "shr64 v n = (if n < 64 then Some (drop_bit (unat n) v) else None)"

definition fits_i64 :: "int \<Rightarrow> bool" where
  "fits_i64 x \<longleftrightarrow> - (2 ^ 63) \<le> x \<and> x < 2 ^ 63"

definition checked_i64 :: "int \<Rightarrow> i64 option" where
  "checked_i64 x = (if fits_i64 x then Some (word_of_int x) else None)"

lemma checked_i64_Some [simp]: "fits_i64 x \<Longrightarrow> checked_i64 x = Some (word_of_int x)"
  by (simp add: checked_i64_def)

lemma checked_i64_eq_Some: "checked_i64 x = Some w \<longleftrightarrow> fits_i64 x \<and> w = word_of_int x"
  by (auto simp: checked_i64_def)

lemma sint_checked: "checked_i64 x = Some w \<Longrightarrow> sint w = x"
  by (auto simp: checked_i64_def fits_i64_def sint_sbintrunc' signed_take_bit_int_eq_self_iff
      split: if_split_asm)

section \<open>bits.h\<close>

definition u_max :: "nat \<Rightarrow> u64" where
  "u_max sz = (if sz = 0 then 0
     else if sz \<ge> 8 then 0xFFFFFFFFFFFFFFFF
     else push_bit (8 * sz) 1 - 1)"

definition sign_bit :: "nat \<Rightarrow> u64" where
  "sign_bit sz = (if sz = 0 then 0
     else if sz \<ge> 8 then 0x8000000000000000
     else push_bit (8 * sz - 1) 1)"

definition s_max :: "nat \<Rightarrow> u64" where
  "s_max sz = u_max sz XOR sign_bit sz"

definition unsigned_of :: "u64 \<Rightarrow> nat \<Rightarrow> u64" where
  "unsigned_of v sz = v AND u_max sz"

definition signed_of :: "u64 \<Rightarrow> nat \<Rightarrow> i64" where
  "signed_of v sz =
     (let x = unsigned_of v sz in
      if x AND sign_bit sz \<noteq> 0 then x - u_max sz - 1 else x)"

definition sign_extend :: "u64 \<Rightarrow> nat \<Rightarrow> nat \<Rightarrow> u64 option" where
  "sign_extend v cursize newsize =
     (let x = unsigned_of v cursize in
      if cursize < newsize \<and> x AND sign_bit cursize \<noteq> 0
      then map_option (\<lambda>h. x OR h) (shl64 (u_max (newsize - cursize)) (of_nat (8 * cursize)))
      else Some x)"

definition is_signed :: "u64 \<Rightarrow> nat \<Rightarrow> bool" where
  "is_signed v sz \<longleftrightarrow> unsigned_of v sz AND sign_bit sz \<noteq> 0"

definition is_unsigned_carry :: "i64 \<Rightarrow> nat \<Rightarrow> bool" where
  "is_unsigned_carry v sz \<longleftrightarrow> sint v > sint (u_max sz) \<or> sint v < 0"

definition is_signed_overflow :: "i64 \<Rightarrow> nat \<Rightarrow> bool" where
  "is_signed_overflow v sz \<longleftrightarrow> sint v > sint (s_max sz) \<or> sint v < - sint (s_max sz)"

definition is_signed_carry :: "i64 \<Rightarrow> nat \<Rightarrow> i64 \<Rightarrow> bool" where
  "is_signed_carry v sz src \<longleftrightarrow>
     sint v > sint (s_max sz) \<and> sint (s_max sz) > sint src \<or>
     sint v < - sint (s_max sz) \<and> - sint (s_max sz) < - sint src"

definition is_aux_carry :: "u64 \<Rightarrow> u64 \<Rightarrow> bool" where
  "is_aux_carry src dst \<longleftrightarrow> (dst AND 0xF) + (src AND 0xF) > 15"

definition is_aux_carry_sub :: "u64 \<Rightarrow> u64 \<Rightarrow> bool" where
  "is_aux_carry_sub src dst \<longleftrightarrow> src AND 0xF > dst AND 0xF"

text \<open>The loop that clears the lowest set bit; each round makes the byte smaller.\<close>

lemma and_pred_less: "b \<noteq> 0 \<Longrightarrow> b AND (b - 1) < (b :: 'a::len word)"
proof -
  assume b: "b \<noteq> 0"
  have "b AND (b - 1) \<le> b - 1" by (simp add: word_and_le1)
  also have "b - 1 < b" using b by (simp add: word_less_nat_alt unat_minus_one unat_gt_0)
  finally show ?thesis .
qed

function parity_loop :: "u8 \<Rightarrow> bool \<Rightarrow> bool" where
  "parity_loop b parity = (if b = 0 then parity else parity_loop (b AND (b - 1)) (\<not> parity))"
  by pat_completeness auto
termination
  by (relation "measure (\<lambda>(b, _). unat b)") (auto simp flip: word_less_nat_alt intro: and_pred_less)

declare parity_loop.simps [simp del]

definition is_parity_byte :: "u64 \<Rightarrow> bool" where
  "is_parity_byte v = parity_loop (ucast (v AND 0xFF)) True"

definition bits_msb :: "u64 \<Rightarrow> nat \<Rightarrow> bool" where
  "bits_msb v sz \<longleftrightarrow> v AND sign_bit sz \<noteq> 0"

definition bits_lsb :: "u64 \<Rightarrow> bool" where
  "bits_lsb v \<longleftrightarrow> v AND 1 \<noteq> 0"

text \<open>\<open>byteswap_loop n i ret\<close> runs \<open>n\<close> rounds from index \<open>i\<close>.\<close>

fun byteswap_loop :: "nat \<Rightarrow> nat \<Rightarrow> u64 \<Rightarrow> u64 \<Rightarrow> u64 option" where
  "byteswap_loop 0 i v ret = Some ret"
| "byteswap_loop (Suc n) i v ret =
     (case shr64 v (of_nat (8 * i)) of
        None \<Rightarrow> None
      | Some b \<Rightarrow> byteswap_loop n (Suc i) v (push_bit 8 ret OR (b AND 0xFF)))"

definition byteswap :: "u64 \<Rightarrow> nat \<Rightarrow> u64 option" where
  "byteswap v sz = byteswap_loop sz 0 v 0"

section \<open>Wide arithmetic\<close>

definition umul_hi :: "u64 \<Rightarrow> u64 \<Rightarrow> u64" where
  "umul_hi a b =
     (let a_lo = a AND 0xFFFFFFFF; a_hi = drop_bit 32 a;
          b_lo = b AND 0xFFFFFFFF; b_hi = drop_bit 32 b;
          ll = a_lo * b_lo; lh = a_lo * b_hi; hl = a_hi * b_lo; hh = a_hi * b_hi;
          cross = drop_bit 32 ll + (lh AND 0xFFFFFFFF) + (hl AND 0xFFFFFFFF)
      in hh + drop_bit 32 lh + drop_bit 32 hl + drop_bit 32 cross)"

definition smul_hi :: "u64 \<Rightarrow> u64 \<Rightarrow> u64" where
  "smul_hi a b =
     (let hi = umul_hi a b;
          hi = (if drop_bit 63 a \<noteq> 0 then hi - b else hi)
      in if drop_bit 63 b \<noteq> 0 then hi - a else hi)"

record div128 =
  quot :: u64
  rem :: u64

text \<open>\<open>udiv128_loop n\<close> runs the rounds \<open>i = n - 1\<close> down to \<open>0\<close>.\<close>

fun udiv128_loop :: "nat \<Rightarrow> u64 \<Rightarrow> u64 \<Rightarrow> u64 \<Rightarrow> u64 \<Rightarrow> u64 \<Rightarrow> div128" where
  "udiv128_loop 0 hi lo d rm qt = \<lparr>quot = qt, rem = rm\<rparr>"
| "udiv128_loop (Suc i) hi lo d rm qt =
     (let b = (if i \<ge> 64 then drop_bit (i - 64) hi AND 1 else drop_bit i lo AND 1);
          rem_top = drop_bit 63 rm;
          rm' = push_bit 1 rm OR b;
          qt' = push_bit 1 qt
      in if rem_top \<noteq> 0 \<or> rm' \<ge> d then udiv128_loop i hi lo d (rm' - d) (qt' OR 1)
         else udiv128_loop i hi lo d rm' qt')"

definition udiv128 :: "u64 \<Rightarrow> u64 \<Rightarrow> u64 \<Rightarrow> div128" where
  "udiv128 hi lo d = udiv128_loop 128 hi lo d 0 0"


section \<open>The helpers as arithmetic\<close>

lemma u_max_mask: "n \<le> 8 \<Longrightarrow> u_max n = mask (8 * n)"
  by (cases "n = 8") (auto simp: u_max_def mask_eq_exp_minus_1 push_bit_eq_mult)

lemma unsigned_of_take_bit: "n \<le> 8 \<Longrightarrow> unsigned_of v n = take_bit (8 * n) v"
  by (simp add: unsigned_of_def u_max_mask take_bit_eq_mask)

lemma uint_unsigned_of: "n \<le> 8 \<Longrightarrow> uint (unsigned_of v n) = uint v mod 2 ^ (8 * n)"
  by (simp only: unsigned_of_take_bit unsigned_take_bit_eq) (simp add: take_bit_eq_mod)

lemma unat_unsigned_of: "n \<le> 8 \<Longrightarrow> unat (unsigned_of v n) = unat v mod 2 ^ (8 * n)"
  by (simp only: unsigned_of_take_bit unsigned_take_bit_eq) (simp add: take_bit_eq_mod)

lemma sign_bit_exp: "0 < n \<Longrightarrow> n \<le> 8 \<Longrightarrow> sign_bit n = push_bit (8 * n - 1) 1"
  by (cases "n = 8") (auto simp: sign_bit_def push_bit_eq_mult)

lemma and_sign_bit:
  "0 < n \<Longrightarrow> n \<le> 8 \<Longrightarrow> (x AND sign_bit n \<noteq> 0) = bit x (8 * n - 1)"
  by (simp add: sign_bit_exp push_bit_eq_mult and_exp_eq_0_iff_not_bit)

lemma is_signed_bit: "0 < n \<Longrightarrow> n \<le> 8 \<Longrightarrow> is_signed v n = bit v (8 * n - 1)"
  by (simp add: is_signed_def and_sign_bit unsigned_of_take_bit bit_take_bit_iff)

lemma bit_unsigned_of: "n \<le> 8 \<Longrightarrow> bit (unsigned_of v n) i = (i < 8 * n \<and> bit v i)"
  by (simp add: unsigned_of_take_bit bit_take_bit_iff)

text \<open>\<open>signed_of\<close> reads the low bytes as a two's complement number.\<close>

lemma sint_signed_of:
  assumes n: "0 < n" "n \<le> 8"
  shows "sint (signed_of v n) = signed_take_bit (8 * n - 1) (uint v)"
proof -
  let ?k = "8 * n - 1"
  have u: "uint (unsigned_of v n) = take_bit (8 * n) (uint v)"
    using n by (simp add: uint_unsigned_of take_bit_eq_mod)
  have lt64: "8 * n - Suc 0 < 64" using n by linarith
  have b: "unsigned_of v n AND sign_bit n \<noteq> 0 \<longleftrightarrow> bit (uint v) ?k"
    using n lt64 by (simp add: and_sign_bit bit_unsigned_of bit_uint_iff)
  have k: "Suc ?k = 8 * n" using n by simp
  have lo: "0 \<le> take_bit (8 * n) (uint v)" "take_bit (8 * n) (uint v) < 2 ^ (8 * n)" by simp_all
  have range: "- (2 ^ ?k) \<le> signed_take_bit ?k (uint v)" "signed_take_bit ?k (uint v) < 2 ^ ?k"
    by (simp_all add: signed_take_bit_int_greater_eq_minus_exp signed_take_bit_int_less_exp)
  have big: "(2::int) ^ ?k \<le> 2 ^ 63" using n by (intro power_increasing) auto
  have w: "signed_of v n = word_of_int (signed_take_bit ?k (uint v))"
  proof (cases "bit (uint v) ?k")
    case True
    have "u_max n + 1 = word_of_int (2 ^ (8 * n))"
      using n by (simp add: u_max_mask mask_eq_exp_minus_1)
    then have "signed_of v n = unsigned_of v n - word_of_int (2 ^ (8 * n))"
      using True b by (simp add: signed_of_def Let_def algebra_simps)
    also have "\<dots> = word_of_int (uint (unsigned_of v n) - 2 ^ (8 * n))" by simp
    also have "uint (unsigned_of v n) - 2 ^ (8 * n) = signed_take_bit ?k (uint v)"
      using True k u by (simp add: signed_take_bit_eq_take_bit_minus)
    finally show ?thesis .
  next
    case False
    then have "signed_of v n = word_of_int (uint (unsigned_of v n))"
      using b by (simp add: signed_of_def Let_def)
    also have "uint (unsigned_of v n) = signed_take_bit ?k (uint v)"
      using False k u by (simp add: signed_take_bit_eq_take_bit_minus)
    finally show ?thesis .
  qed
  show ?thesis
    unfolding w sint_sbintrunc'
  proof (rule signed_take_bit_int_eq_self)
    have L: "LENGTH(64) - 1 = 63" by simp
    show "- (2 ^ (LENGTH(64) - 1)) \<le> signed_take_bit ?k (uint v)" unfolding L using range big by linarith
    show "signed_take_bit ?k (uint v) < 2 ^ (LENGTH(64) - 1)" unfolding L using range big by linarith
  qed
qed


lemma take_bit_mod_nat: "take_bit n (a::nat) = a mod 2 ^ n"
  by (simp add: take_bit_eq_mod)

lemma unat_and_low32: "unat (a AND 0xFFFFFFFF) = unat a mod 2 ^ 32" for a :: u64
proof -
  have "0xFFFFFFFF = (mask 32 :: u64)" by (simp add: mask_eq_exp_minus_1)
  then have "a AND 0xFFFFFFFF = take_bit 32 a" by (simp add: take_bit_eq_mask)
  then show ?thesis by (simp only: unsigned_take_bit_eq) (simp add: take_bit_eq_mod)
qed

lemma unat64: "unat a < 2 ^ 64" for a :: u64
  using unsigned_less [of a] by simp

lemma unat_drop: "unat (drop_bit n a) = unat a div 2 ^ n" for a :: u64
  by (simp only: unsigned_drop_bit_eq) (simp add: drop_bit_eq_div take_bit_nat_eq_self [OF unat64])

text \<open>Schoolbook multiplication on 32-bit halves.\<close>

lemma schoolbook_high:
  fixes a0 a1 b0 b1 M :: nat
  assumes M: "M > 0"
  shows "(a1 * M + a0) * (b1 * M + b0) div (M * M) =
    a1 * b1 + a0 * b1 div M + a1 * b0 div M + (a0 * b0 div M + a0 * b1 mod M + a1 * b0 mod M) div M"
proof -
  let ?c = "a0 * b0 div M + a0 * b1 mod M + a1 * b0 mod M"
  obtain p q r where e: "a0 * b1 = a0 * b1 div M * M + p" "a1 * b0 = a1 * b0 div M * M + q"
      "a0 * b0 = a0 * b0 div M * M + r"
    and pqr: "p = a0 * b1 mod M" "q = a1 * b0 mod M" "r = a0 * b0 mod M"
    by (metis div_mult_mod_eq)
  have "(a1 * M + a0) * (b1 * M + b0) = a1 * b1 * (M * M) + (a0 * b1) * M + (a1 * b0) * M + a0 * b0"
    by (simp add: algebra_simps)
  also have "\<dots> = a1 * b1 * (M * M) + (a0 * b1 div M * M + p) * M + (a1 * b0 div M * M + q) * M
      + (a0 * b0 div M * M + r)"
    using e by simp
  also have "\<dots> = (a1 * b1 + a0 * b1 div M + a1 * b0 div M) * (M * M) +
      ((a0 * b0 div M + p + q) * M + r)"
    by (simp add: algebra_simps)
  also have "\<dots> = (a1 * b1 + a0 * b1 div M + a1 * b0 div M) * (M * M) + (?c * M + a0 * b0 mod M)"
    by (simp only: pqr)
  finally have e: "(a1 * M + a0) * (b1 * M + b0) =
      (a1 * b1 + a0 * b1 div M + a1 * b0 div M) * (M * M) + (?c * M + a0 * b0 mod M)" .
  have "(?c * M + a0 * b0 mod M) div (M * M) = ?c div M"
    using M by (simp add: div_mult2_eq)
  then show ?thesis unfolding e using M by simp
qed

lemma unat_mult_small: "unat a * unat b < 2 ^ 64 \<Longrightarrow> unat (a * b) = unat a * unat b" for a b :: u64
  by (simp add: unat_word_ariths)

lemma unat_add_small: "unat a + unat b < 2 ^ 64 \<Longrightarrow> unat (a + b) = unat a + unat b" for a b :: u64
  by (simp add: unat_word_ariths)

lemma half_product: "a < 2 ^ 32 \<Longrightarrow> b < 2 ^ 32 \<Longrightarrow> a * b < (2 ^ 64 :: nat)"
proof -
  assume "a < 2 ^ 32" and "b < 2 ^ 32"
  then have "a * b < 2 ^ 32 * (2 ^ 32 :: nat)" by (intro mult_strict_mono) auto
  then show ?thesis by simp
qed

lemma unat_umul_hi: "unat (umul_hi a b) = unat a * unat b div 2 ^ 64"
proof -
  define a0 a1 b0 b1 :: nat where "a0 = unat a mod 2 ^ 32" and "a1 = unat a div 2 ^ 32"
    and "b0 = unat b mod 2 ^ 32" and "b1 = unat b div 2 ^ 32"
  note d = a0_def a1_def b0_def b1_def
  have lt: "a0 < 2 ^ 32" "a1 < 2 ^ 32" "b0 < 2 ^ 32" "b1 < 2 ^ 32"
    using unat64 [of a] unat64 [of b] by (auto simp: d div_less_iff_less_mult)
  let ?al = "a AND 0xFFFFFFFF" and ?ah = "drop_bit 32 a"
  let ?bl = "b AND 0xFFFFFFFF" and ?bh = "drop_bit 32 b"
  have h: "unat ?al = a0" "unat ?ah = a1" "unat ?bl = b0" "unat ?bh = b1"
    by (simp_all add: d unat_and_low32 unat_drop)
  have p: "unat (?al * ?bl) = a0 * b0" "unat (?al * ?bh) = a0 * b1"
    "unat (?ah * ?bl) = a1 * b0" "unat (?ah * ?bh) = a1 * b1"
    using half_product lt by (simp_all only: unat_mult_small h)
  let ?ll = "a0 * b0" and ?lh = "a0 * b1" and ?hl = "a1 * b0" and ?hh = "a1 * b1"
  let ?c = "?ll div 2 ^ 32 + ?lh mod 2 ^ 32 + ?hl mod 2 ^ 32"
  have top: "unat a * unat b div 2 ^ 64 = ?hh + ?lh div 2 ^ 32 + ?hl div 2 ^ 32 + ?c div 2 ^ 32"
  proof -
    have "unat a = a1 * 2 ^ 32 + a0" "unat b = b1 * 2 ^ 32 + b0" by (simp_all add: d)
    moreover have "(2::nat) ^ 64 = 2 ^ 32 * 2 ^ 32" by simp
    moreover have "(0::nat) < 2 ^ 32" by simp
    ultimately show ?thesis by (simp only: schoolbook_high)
  qed
  have le: "unat a * unat b div 2 ^ 64 < 2 ^ 64"
  proof -
    have "unat a * unat b < 2 ^ 64 * 2 ^ 64"
      using unat64 [of a] unat64 [of b] by (intro mult_strict_mono) auto
    then show ?thesis by (simp add: div_less_iff_less_mult)
  qed
  have cross: "unat (drop_bit 32 (?al * ?bl) + ((?al * ?bh) AND 0xFFFFFFFF) + ((?ah * ?bl) AND 0xFFFFFFFF)) = ?c"
  proof -
    have "?ll div 2 ^ 32 < 2 ^ 32" using half_product [OF lt(1,3)] by (auto simp: div_less_iff_less_mult)
    moreover have "?lh mod 2 ^ 32 < 2 ^ 32" "?hl mod 2 ^ 32 < 2 ^ 32" by simp_all
    ultimately show ?thesis
      by (simp add: unat_add_small unat_drop unat_and_low32 p)
  qed
  show ?thesis
    unfolding top using le [unfolded top] 
    by (simp add: umul_hi_def Let_def unat_add_small unat_drop p cross)
qed


text \<open>Two's complement products: the correction terms of \<open>smul_hi\<close>.\<close>

lemma sint_top: "sint a = uint a - (if drop_bit 63 a \<noteq> 0 then 2 ^ 64 else 0)" for a :: u64
proof -
  have u: "0 \<le> uint a" "uint a < 2 ^ 64" using unsigned_less [of a, where 'a = int] by simp_all
  have "drop_bit 63 a = 0 \<longleftrightarrow> unat (drop_bit 63 a) = 0" by (simp add: unsigned_eq_0_iff)
  also have "\<dots> \<longleftrightarrow> unat a < 2 ^ 63" unfolding unat_drop by (subst div_eq_0_iff) simp
  also have "\<dots> \<longleftrightarrow> int (unat a) < 2 ^ 63"
    using of_nat_less_iff [of "unat a" "2 ^ 63", where 'a = int] by simp
  also have "\<dots> \<longleftrightarrow> uint a < 2 ^ 63" by (simp only: uint_nat)
  finally have d: "drop_bit 63 a = 0 \<longleftrightarrow> uint a < 2 ^ 63" .
  have "sint a = (uint a + 2 ^ 63) mod 2 ^ 64 - 2 ^ 63"
    using int_word_sint [of "uint a", where 'a = 64] by simp
  also have "\<dots> = uint a - (if 2 ^ 63 \<le> uint a then 2 ^ 64 else 0)"
  proof (cases "2 ^ 63 \<le> uint a")
    case True
    have "(uint a + 2 ^ 63) mod 2 ^ 64 = ((uint a - 2 ^ 63) + 2 ^ 64) mod 2 ^ 64"
      by (simp add: add.commute)
    also have "\<dots> = (uint a - 2 ^ 63) mod 2 ^ 64" by (rule mod_add_self2)
    also have "\<dots> = uint a - 2 ^ 63" using u True by (intro mod_pos_pos_trivial) simp_all
    finally show ?thesis using True by simp
  next
    case False
    then have "(uint a + 2 ^ 63) mod 2 ^ 64 = uint a + 2 ^ 63"
      using u by (intro mod_pos_pos_trivial) simp_all
    with False show ?thesis by simp
  qed
  finally show ?thesis using d by (auto simp: not_less)
qed

lemma uint_umul_hi: "uint (umul_hi a b) = uint a * uint b div 2 ^ 64"
  by (simp only: uint_nat unat_umul_hi zdiv_int of_nat_mult of_nat_power of_nat_numeral)

lemma sint_smul_hi: "sint (smul_hi a b) = sint a * sint b div 2 ^ 64"
proof -
  let ?sa = "drop_bit 63 a \<noteq> 0" and ?sb = "drop_bit 63 b \<noteq> 0"
  let ?k = "- (if ?sa then uint b else 0) - (if ?sb then uint a else 0) + (if ?sa \<and> ?sb then 2 ^ 64 else 0)"
  have "sint a * sint b = uint a * uint b + ?k * 2 ^ 64"
    by (simp add: sint_top algebra_simps)
  then have d: "sint a * sint b div 2 ^ 64 = uint a * uint b div 2 ^ 64 + ?k" by simp
  have "smul_hi a b = umul_hi a b - (if ?sa then b else 0) - (if ?sb then a else 0)"
    by (simp add: smul_hi_def Let_def)
  also have "\<dots> = word_of_int (uint (umul_hi a b) + ?k)" by simp
  also have "uint (umul_hi a b) + ?k = sint a * sint b div 2 ^ 64"
    by (simp only: d uint_umul_hi)
  finally have w: "smul_hi a b = word_of_int (sint a * sint b div 2 ^ 64)" .
  have r: "- (2 ^ 63) \<le> sint x" "sint x < 2 ^ 63" for x :: u64
    using sint_greater_eq [of x] sint_less [of x] by simp_all
  have "\<bar>sint a * sint b\<bar> \<le> 2 ^ 63 * 2 ^ 63"
    unfolding abs_mult using r [of a] r [of b] by (intro mult_mono) auto
  then have m: "- (2 ^ 63) * 2 ^ 64 \<le> sint a * sint b" "sint a * sint b \<le> (2 ^ 63 - 1) * 2 ^ 64"
    by (simp_all add: abs_le_iff)
  have "- (2 ^ 63) \<le> sint a * sint b div 2 ^ 64" "sint a * sint b div 2 ^ 64 < 2 ^ 63"
    using zdiv_mono1 [OF m(1), of "2 ^ 64"] zdiv_mono1 [OF m(2), of "2 ^ 64"] by simp_all
  then show ?thesis unfolding w sint_sbintrunc'
    by (intro signed_take_bit_int_eq_self) simp_all
qed

section \<open>Long division\<close>

lemma shift_in: "push_bit 1 x OR of_bool c = of_nat (2 * unat x + of_bool c)" for x :: u64
  by (cases c) (simp_all add: push_bit_eq_mult or_one_eq)

lemma and_1_bit: "drop_bit k x AND 1 = of_bool (bit x k)" for x :: u64
  by (simp add: and_one_eq bit_iff_odd_drop_bit mod2_eq_if)

definition dividend :: "u64 \<Rightarrow> u64 \<Rightarrow> nat" where
  "dividend hi lo = unat hi * 2 ^ 64 + unat lo"

lemma odd_unat_div: "odd (unat x div 2 ^ k) = bit x k" for x :: u64
proof -
  have "odd (unat x div 2 ^ k) = bit (unat x) k" by (simp only: bit_iff_odd)
  then show ?thesis by (simp add: bit_unsigned_iff)
qed

lemma dividend_bit:
  "odd (dividend hi lo div 2 ^ i) = (if i \<ge> 64 then bit hi (i - 64) else bit lo i)"
proof (cases "i \<ge> 64")
  case True
  then have "(2::nat) ^ i = 2 ^ 64 * 2 ^ (i - 64)" by (metis le_add_diff_inverse power_add)
  then have "dividend hi lo div 2 ^ i = (unat hi * 2 ^ 64 + unat lo) div 2 ^ 64 div 2 ^ (i - 64)"
    by (simp only: dividend_def div_mult2_eq)
  also have "(unat hi * 2 ^ 64 + unat lo) div 2 ^ 64 = unat hi"
    using unat64 [of lo] by simp
  finally show ?thesis using True by (simp add: odd_unat_div)
next
  case False
  then have "(2::nat) ^ 64 = 2 ^ (64 - i) * 2 ^ i" by (simp flip: power_add)
  then have "dividend hi lo = unat hi * 2 ^ (64 - i) * 2 ^ i + unat lo"
    by (simp only: dividend_def mult.assoc)
  then have "dividend hi lo div 2 ^ i = unat hi * 2 ^ (64 - i) + unat lo div 2 ^ i" by simp
  moreover have "even ((2::nat) ^ (64 - i))" using False by simp
  ultimately show ?thesis using False by (simp add: odd_unat_div)
qed

text \<open>One round: the remainder doubles, takes in the next bit and gives up the divisor.\<close>

lemma udiv_round:
  fixes rm d :: u64
  assumes d: "d \<noteq> 0" and r: "unat rm < unat d" and x: "x = 2 * unat rm + of_bool c"
    and rm': "rm' = push_bit 1 rm OR of_bool c"
  shows "(drop_bit 63 rm \<noteq> 0 \<or> rm' \<ge> d) = (unat d \<le> x)"
    and "unat d \<le> x \<Longrightarrow> unat (rm' - d) = x - unat d"
    and "x < unat d \<Longrightarrow> unat rm' = x"
proof -
  have w: "rm' = of_nat x" by (simp only: rm' shift_in x)
  have u: "unat rm' = x mod 2 ^ 64" unfolding w by (simp add: unat_of_nat)
  have top: "drop_bit 63 rm \<noteq> 0 \<longleftrightarrow> 2 ^ 63 \<le> unat rm"
  proof -
    have "drop_bit 63 rm = 0 \<longleftrightarrow> unat (drop_bit 63 rm) = 0" by (simp add: unsigned_eq_0_iff)
    also have "\<dots> \<longleftrightarrow> unat rm < 2 ^ 63" unfolding unat_drop by (subst div_eq_0_iff) simp
    finally show ?thesis by (simp add: not_less)
  qed
  have xd: "x < 2 * unat d" using r x by (cases c) auto
  have "d \<le> rm' \<longleftrightarrow> unat d \<le> x mod 2 ^ 64" by (simp add: word_le_nat_alt u)
  then show "(drop_bit 63 rm \<noteq> 0 \<or> rm' \<ge> d) = (unat d \<le> x)"
  proof (cases "2 ^ 63 \<le> unat rm")
    case True
    then have "unat d \<le> x" using x unat64 [of d] by (cases c) auto
    with True top show ?thesis by simp
  next
    case False
    then have "x < 2 ^ 64" using x by (cases c) auto
    with False top \<open>d \<le> rm' \<longleftrightarrow> _\<close> show ?thesis by simp
  qed
  show "unat (rm' - d) = x - unat d" if "unat d \<le> x"
  proof -
    have "rm' - d = of_nat (x - unat d)" using that by (simp add: w of_nat_diff)
    moreover have "x - unat d < 2 ^ 64" using xd unat64 [of d] by linarith
    ultimately show ?thesis by (simp add: unat_of_nat)
  qed
  show "unat rm' = x" if "x < unat d" using that u unat64 [of d] by simp
qed

lemma udiv128_loop_correct:
  assumes "d \<noteq> 0" and "unat rm = dividend hi lo div 2 ^ n mod unat d"
    and "unat qt = dividend hi lo div 2 ^ n div unat d mod 2 ^ 64"
  shows "unat (rem (udiv128_loop n hi lo d rm qt)) = dividend hi lo mod unat d \<and>
    unat (quot (udiv128_loop n hi lo d rm qt)) = dividend hi lo div unat d mod 2 ^ 64"
  using assms(2,3)
proof (induction n arbitrary: rm qt)
  case 0
  then show ?case by simp
next
  case (Suc i)
  let ?N = "dividend hi lo" and ?d = "unat d"
  let ?c = "odd (?N div 2 ^ i)"
  define x where "x = 2 * unat rm + of_bool ?c"
  have d: "?d > 0" using assms(1) by (simp add: unat_gt_0)
  have b: "(if i \<ge> 64 then drop_bit (i - 64) hi AND 1 else drop_bit i lo AND 1) = of_bool ?c"
    by (simp add: dividend_bit and_1_bit)
  have T: "?N div 2 ^ i = 2 * (?N div 2 ^ Suc i) + of_bool ?c"
  proof -
    have "?N div 2 ^ Suc i = ?N div 2 ^ i div 2" by (simp only: power_Suc2 div_mult2_eq)
    then show ?thesis by (cases ?c) simp_all
  qed
  have full: "?N div 2 ^ i = 2 * (?N div 2 ^ Suc i div ?d) * ?d + x"
  proof -
    have "?N div 2 ^ i = 2 * (?N div 2 ^ Suc i div ?d * ?d + ?N div 2 ^ Suc i mod ?d) + of_bool ?c"
      using T by (simp only: div_mult_mod_eq)
    then show ?thesis by (simp only: x_def Suc.prems(1) distrib_left mult.assoc add.assoc)
  qed
  have lt: "unat rm < ?d" using Suc.prems(1) d by simp
  have x2: "x < 2 * ?d" using lt by (auto simp: x_def)
  note round = udiv_round [OF assms(1) lt x_def refl]
  have q2: "unat (push_bit 1 qt) = 2 * (?N div 2 ^ Suc i div ?d) mod 2 ^ 64"
    using Suc.prems(2) by (simp add: push_bit_eq_mult unat_word_ariths mod_mult_right_eq mult.commute)
  show ?case
  proof (cases "?d \<le> x")
    case True
    have "x div ?d = 1" "x mod ?d = x - ?d"
      using x2 True d by (simp_all add: le_div_geq le_mod_geq less_diff_conv2)
    then have dm: "?N div 2 ^ i div ?d = 2 * (?N div 2 ^ Suc i div ?d) + 1" "?N div 2 ^ i mod ?d = x - ?d"
      using full d by simp_all
    have "push_bit 1 qt OR 1 = push_bit 1 qt + 1" by (simp add: or_one_eq push_bit_eq_mult)
    then have "unat (push_bit 1 qt OR 1) = (2 * (?N div 2 ^ Suc i div ?d) + 1) mod 2 ^ 64"
      using q2 by (simp add: unat_word_ariths mod_Suc_eq)
    with Suc.IH [OF _ this [folded dm(1)]] round(1,2) True dm(2) b show ?thesis
      by (simp add: Let_def)
  next
    case False
    then have dm: "?N div 2 ^ i div ?d = 2 * (?N div 2 ^ Suc i div ?d)" "?N div 2 ^ i mod ?d = x"
      using full by simp_all
    with Suc.IH [OF _ q2 [folded dm(1)]] round(1,3) False b show ?thesis by (simp add: Let_def)
  qed
qed

lemma udiv128_divides:
  assumes "d \<noteq> 0"
  shows "unat (rem (udiv128 hi lo d)) = dividend hi lo mod unat d"
    "unat (quot (udiv128 hi lo d)) = dividend hi lo div unat d mod 2 ^ 64"
proof -
  have "dividend hi lo < 2 ^ 128"
    using unat64 [of hi] unat64 [of lo] by (simp add: dividend_def)
  then have z: "dividend hi lo div 2 ^ 128 = 0" by (rule div_less)
  show "unat (rem (udiv128 hi lo d)) = dividend hi lo mod unat d"
    "unat (quot (udiv128 hi lo d)) = dividend hi lo div unat d mod 2 ^ 64"
    using udiv128_loop_correct [OF assms, of 0 hi lo 128 0] unfolding z udiv128_def by simp_all
qed


section \<open>Flags\<close>

lemma sizes_upto_8: "n \<le> 8 \<Longrightarrow> n \<in> {0, 1, 2, 3, 4, 5, 6, 7, 8 :: nat}"
  unfolding insert_iff empty_iff by arith

lemma sint_u_max: "n < 8 \<Longrightarrow> sint (u_max n) = 2 ^ (8 * n) - 1"
  using sizes_upto_8 [of n] by (auto simp: u_max_def)

lemma sint_u_max_8: "8 \<le> n \<Longrightarrow> sint (u_max n) = -1"
  by (simp add: u_max_def)

lemma sint_s_max: "0 < n \<Longrightarrow> n \<le> 8 \<Longrightarrow> sint (s_max n) = 2 ^ (8 * n - 1) - 1"
  using sizes_upto_8 [of n] by (auto simp: s_max_def u_max_def sign_bit_def)

text \<open>At eight bytes the maximum reads as \<open>-1\<close>, so every value counts as a carry.\<close>

lemma unsigned_carry_8: "8 \<le> n \<Longrightarrow> is_unsigned_carry v n"
  by (auto simp: is_unsigned_carry_def sint_u_max_8)

lemma unsigned_carry_narrow:
  "n < 8 \<Longrightarrow> is_unsigned_carry v n = (sint v \<notin> {0 ..< 2 ^ (8 * n)})"
  by (auto simp: is_unsigned_carry_def sint_u_max)

lemma signed_overflow_range:
  "0 < n \<Longrightarrow> n \<le> 8 \<Longrightarrow>
     is_signed_overflow v n = (sint v \<notin> {- (2 ^ (8 * n - 1)) <..< 2 ^ (8 * n - 1)})"
  by (auto simp: is_signed_overflow_def sint_s_max)

text \<open>The number of binary ones, and the effect of clearing the lowest one.\<close>

fun ones :: "nat \<Rightarrow> nat" where
  "ones n = (if n = 0 then 0 else n mod 2 + ones (n div 2))"

declare ones.simps [simp del]

lemma ones_0 [simp]: "ones 0 = 0"
  by (simp add: ones.simps)

lemma ones_double [simp]: "ones (2 * n) = ones n"
  by (cases "n = 0") (simp_all add: ones.simps [of "2 * n"])

lemma ones_clear_lowest: "0 < n \<Longrightarrow> Suc (ones (n AND (n - 1))) = ones n"
proof (induction n rule: less_induct)
  case (less n)
  show ?case
  proof (cases "odd n")
    case True
    then have p: "n - 1 = 2 * (n div 2)" "(n - 1) div 2 = n div 2" by presburger+
    then have "n AND (n - 1) = 2 * (n div 2)"
      using True p by (subst and_rec) simp
    then have "ones (n AND (n - 1)) = ones (n div 2)" by simp
    with True less.prems show ?thesis by (simp add: ones.simps [of n] mod2_eq_if)
  next
    case False
    then have h: "0 < n div 2" "n div 2 < n" using less.prems by presburger+
    from False have "(n - 1) div 2 = n div 2 - 1" by presburger
    then have "n AND (n - 1) = 2 * (n div 2 AND (n div 2 - 1))"
      using False by (subst and_rec) simp
    with less.IH [OF h(2,1)] False less.prems show ?thesis
      by (simp add: ones.simps [of n] mod2_eq_if)
  qed
qed

lemma parity_loop_ones: "parity_loop b p = (p = even (ones (unat b)))"
proof (induction b p rule: parity_loop.induct)
  case (1 b p)
  show ?case
  proof (cases "b = 0")
    case True
    then show ?thesis by (simp add: parity_loop.simps)
  next
    case False
    then have u: "0 < unat b" by (simp add: unat_gt_0)
    have "unat (b AND (b - 1)) = unat b AND (unat b - 1)"
      using False by (simp add: unsigned_and_eq unat_minus_one)
    then show ?thesis
      using 1 [OF False] ones_clear_lowest [OF u] False
      by (simp add: parity_loop.simps [of b p]) (metis even_Suc)
  qed
qed

lemma parity_byte: "is_parity_byte v = even (ones (unat v mod 256))"
proof -
  have m: "0xFF = (mask 8 :: u64)" by (simp add: mask_eq_exp_minus_1)
  have "ucast (v AND 0xFF) = (ucast v :: u8)" by (simp add: m bit_eq_iff bit_simps)
  moreover have "unat (ucast v :: u8) = unat v mod 256"
    by (simp add: unsigned_ucast_eq take_bit_eq_mod)
  ultimately show ?thesis by (simp add: is_parity_byte_def parity_loop_ones)
qed

section \<open>Widening\<close>

lemma shl64_small: "n < 64 \<Longrightarrow> shl64 v (of_nat n) = Some (push_bit n v)"
  by (simp add: shl64_def word_less_nat_alt unat_of_nat)

lemma bit_signed_of:
  "0 < n \<Longrightarrow> n \<le> 8 \<Longrightarrow> bit (sint (signed_of v n)) i = bit v (min i (8 * n - 1))"
  by (simp add: sint_signed_of bit_signed_take_bit_iff bit_uint_iff)
    (auto simp: min.commute dest: bit_imp_le_length)

lemma sign_extend_value:
  assumes "0 < m" "m \<le> n" "n \<le> 8"
  shows "\<exists>x. sign_extend v m n = Some x \<and> unsigned_of x n = x \<and> signed_of x n = signed_of v m"
proof (cases "m = n")
  case True
  then show ?thesis using assms
    by (auto simp: sign_extend_def Let_def signed_of_def unsigned_of_take_bit)
next
  case False
  let ?x = "unsigned_of v m OR (if bit v (8 * m - 1) then push_bit (8 * m) (u_max (n - m)) else 0)"
  have "shl64 (u_max (n - m)) (of_nat (8 * m)) = Some (push_bit (8 * m) (u_max (n - m)))"
    using assms False by (intro shl64_small) simp
  then have e: "sign_extend v m n = Some ?x"
    using assms False by (auto simp: sign_extend_def Let_def and_sign_bit bit_unsigned_of)
  have b: "bit ?x i = (if i < 8 * m then bit v i else i < 8 * n \<and> bit v (8 * m - 1))" if "i < 64" for i
    using assms that False
    by (auto simp: bit_unsigned_of u_max_mask bit_simps)
  have "unsigned_of ?x n = ?x"
  proof (rule bit_word_eqI)
    fix i assume "i < LENGTH(64)"
    then show "bit (unsigned_of ?x n) i = bit ?x i"
      using assms b [of i] by (auto simp: bit_unsigned_of)
  qed
  moreover have "sint (signed_of ?x n) = sint (signed_of v m)"
  proof (rule bit_eqI)
    fix i
    have l: "min i (8 * n - 1) < 64" using assms by linarith
    show "bit (sint (signed_of ?x n)) i = bit (sint (signed_of v m)) i"
    proof (cases "i < 8 * m")
      case True
      then have "min i (8 * n - 1) = i" "min i (8 * m - 1) = i" using assms by linarith+
      then show ?thesis using assms b [OF l] True by (simp add: bit_signed_of)
    next
      case False
      then have "\<not> min i (8 * n - 1) < 8 * m" "min i (8 * m - 1) = 8 * m - 1" "min i (8 * n - 1) < 8 * n"
        using assms \<open>m \<noteq> n\<close> by linarith+
      then show ?thesis using assms b [OF l] by (simp only: bit_signed_of if_False simp_thms)
    qed
  qed
  ultimately show ?thesis using e signed_word_eqI by blast
qed


section \<open>Properties\<close>

text \<open>
  C39: the 128-by-64-bit long division is division: the remainder is exact for every nonzero
  divisor, the quotient is exact modulo \<open>2 ^ 64\<close>, and it is the true quotient whenever that
  fits (the high half is below the divisor).
\<close>

theorem udiv128_correct:
  assumes "d \<noteq> 0"
  shows "unat (rem (udiv128 hi lo d)) = (unat hi * 2 ^ 64 + unat lo) mod unat d \<and>
    unat (quot (udiv128 hi lo d)) = (unat hi * 2 ^ 64 + unat lo) div unat d mod 2 ^ 64 \<and>
    (hi < d \<longrightarrow> unat (quot (udiv128 hi lo d)) = (unat hi * 2 ^ 64 + unat lo) div unat d)"
proof -
  have "(unat hi * 2 ^ 64 + unat lo) div unat d < 2 ^ 64" if "hi < d"
  proof -
    have "unat hi * 2 ^ 64 + unat lo < Suc (unat hi) * 2 ^ 64" using unat64 [of lo] by simp
    also have "\<dots> \<le> unat d * 2 ^ 64"
      using that by (intro mult_le_mono1) (simp add: word_less_nat_alt)
    finally show ?thesis using assms by (simp add: div_less_iff_less_mult mult.commute unat_gt_0)
  qed
  then show ?thesis
    using udiv128_divides [OF assms, of hi lo] by (simp add: dividend_def)
qed

theorem udiv128_correct_witness:
  "unat (quot (udiv128 1 0 3)) = 2 ^ 64 div 3 \<and> unat (rem (udiv128 1 0 3)) = 2 ^ 64 mod 3"
  using udiv128_correct [of 3 1 0] by simp

text \<open>
  The high halves of the 64-bit products are right: with the wrapped product as the low
  half, \<open>umul_hi\<close> gives the full unsigned product and \<open>smul_hi\<close> the full signed one.
\<close>

theorem wide_products:
  "uint (umul_hi a b) * 2 ^ 64 + uint (a * b) = uint a * uint b \<and>
   sint (smul_hi a b) * 2 ^ 64 + uint (a * b) = sint a * sint b"
proof -
  have u: "uint (a * b) = uint a * uint b mod 2 ^ 64" by (simp add: uint_word_ariths)
  have "uint (a * b) = uint (word_of_int (sint a * sint b) :: u64)" by simp
  also have "\<dots> = sint a * sint b mod 2 ^ 64" by (subst uint_word_of_int) simp
  finally have v: "uint (a * b) = sint a * sint b mod 2 ^ 64" .
  have "uint a * uint b div 2 ^ 64 * 2 ^ 64 + uint (a * b) = uint a * uint b"
    unfolding u by (rule div_mult_mod_eq)
  moreover have "sint a * sint b div 2 ^ 64 * 2 ^ 64 + uint (a * b) = sint a * sint b"
    unfolding v by (rule div_mult_mod_eq)
  ultimately show ?thesis by (simp only: uint_umul_hi sint_smul_hi)
qed

text \<open>
  Widening keeps the value: for operand sizes from one to eight bytes \<open>sign_extend\<close> is
  defined, its result fits the new size, and reads as the same signed number.
\<close>

theorem sign_extend_keeps_value:
  assumes "0 < m" and "m \<le> n" and "n \<le> 8"
  shows "\<exists>x. sign_extend v m n = Some x \<and> unsigned_of x n = x \<and>
    sint (signed_of x n) = signed_take_bit (8 * m - 1) (uint v)"
  using sign_extend_value [OF assms, of v] sint_signed_of [of m v] assms by auto

theorem sign_extend_keeps_value_witness:
  "\<exists>x. sign_extend 0x80 1 4 = Some x \<and> sint (signed_of x 4) = -128"
  using sign_extend_keeps_value [of 1 4 "0x80"] by (auto simp: signed_take_bit_eq_take_bit_minus)

end
