(* ===== verification/Emu_Registers.thy ===== *)
theory Emu_Registers
  imports Emu_Bits
begin

text \<open>
  The register file of the emulator (registers.h, registers.cpp).  A register index is either
  a slot or a lane of one, encoded as \<open>(offset << 24) | (width << 16) | slot\<close>; arrays of the
  code are lists of fixed length, and reads past them go through the guards of the code.
\<close>

section \<open>The register file\<close>

type_synonym xmm = "u8 list"

definition kXmmCount :: u32 where "kXmmCount = 16"
definition kXmmBytes :: nat where "kXmmBytes = 16"

definition kRegEax :: u32 where "kRegEax = 0"
definition kRegEcx :: u32 where "kRegEcx = 1"
definition kRegEdx :: u32 where "kRegEdx = 2"
definition kRegEbx :: u32 where "kRegEbx = 3"
definition kRegEsp :: u32 where "kRegEsp = 4"
definition kRegEbp :: u32 where "kRegEbp = 5"
definition kRegEsi :: u32 where "kRegEsi = 6"
definition kRegEdi :: u32 where "kRegEdi = 7"
definition kRegEip :: u32 where "kRegEip = 8"
definition kRegEflags :: u32 where "kRegEflags = 9"
definition kRegRax :: u32 where "kRegRax = kRegEax"
definition kRegRcx :: u32 where "kRegRcx = kRegEcx"
definition kRegRdx :: u32 where "kRegRdx = kRegEdx"
definition kRegRbx :: u32 where "kRegRbx = kRegEbx"
definition kRegRsp :: u32 where "kRegRsp = kRegEsp"
definition kRegRbp :: u32 where "kRegRbp = kRegEbp"
definition kRegRsi :: u32 where "kRegRsi = kRegEsi"
definition kRegRdi :: u32 where "kRegRdi = kRegEdi"
definition kRegR8 :: u32 where "kRegR8 = 8"
definition kRegR9 :: u32 where "kRegR9 = 9"
definition kRegR10 :: u32 where "kRegR10 = 10"
definition kRegR11 :: u32 where "kRegR11 = 11"
definition kRegR12 :: u32 where "kRegR12 = 12"
definition kRegR13 :: u32 where "kRegR13 = 13"
definition kRegR14 :: u32 where "kRegR14 = 14"
definition kRegR15 :: u32 where "kRegR15 = 15"
definition kRegRip :: u32 where "kRegRip = 16"
definition kRegEflags64 :: u32 where "kRegEflags64 = 17"
definition kRegSlots :: u32 where "kRegSlots = 18"

definition make_meta_reg :: "u32 \<Rightarrow> u32 \<Rightarrow> u32 \<Rightarrow> u32" where
  "make_meta_reg lane_offset width_bits real_index =
     push_bit 24 lane_offset OR push_bit 16 width_bits OR real_index"

definition kRegAx :: u32 where "kRegAx = make_meta_reg 0 16 kRegEax"
definition kRegCx :: u32 where "kRegCx = make_meta_reg 0 16 kRegEcx"
definition kRegDx :: u32 where "kRegDx = make_meta_reg 0 16 kRegEdx"
definition kRegBx :: u32 where "kRegBx = make_meta_reg 0 16 kRegEbx"
definition kRegSp :: u32 where "kRegSp = make_meta_reg 0 16 kRegEsp"
definition kRegBp :: u32 where "kRegBp = make_meta_reg 0 16 kRegEbp"
definition kRegSi :: u32 where "kRegSi = make_meta_reg 0 16 kRegEsi"
definition kRegDi :: u32 where "kRegDi = make_meta_reg 0 16 kRegEdi"
definition kRegAl :: u32 where "kRegAl = make_meta_reg 0 8 kRegEax"
definition kRegCl :: u32 where "kRegCl = make_meta_reg 0 8 kRegEcx"
definition kRegDl :: u32 where "kRegDl = make_meta_reg 0 8 kRegEdx"
definition kRegBl :: u32 where "kRegBl = make_meta_reg 0 8 kRegEbx"
definition kRegAh :: u32 where "kRegAh = make_meta_reg 8 8 kRegEax"
definition kRegCh :: u32 where "kRegCh = make_meta_reg 8 8 kRegEcx"
definition kRegDh :: u32 where "kRegDh = make_meta_reg 8 8 kRegEdx"
definition kRegBh :: u32 where "kRegBh = make_meta_reg 8 8 kRegEbx"

definition kEflagsCf :: u32 where "kEflagsCf = 0x1"
definition kEflagsPf :: u32 where "kEflagsPf = 0x4"
definition kEflagsAf :: u32 where "kEflagsAf = 0x10"
definition kEflagsZf :: u32 where "kEflagsZf = 0x40"
definition kEflagsSf :: u32 where "kEflagsSf = 0x80"
definition kEflagsTf :: u32 where "kEflagsTf = 0x100"
definition kEflagsIf :: u32 where "kEflagsIf = 0x200"
definition kEflagsDf :: u32 where "kEflagsDf = 0x400"
definition kEflagsOf :: u32 where "kEflagsOf = 0x800"

record register_file =
  rf_vals :: "u64 list"
  rf_taint :: "bool list"
  rf_xmm :: "xmm list"
  rf_real_mask :: u64
  rf_eflags_index :: u32
  rf_low32_zx :: bool

record register_snapshot =
  rs_vals :: "u64 list"
  rs_taint :: "bool list"
  rs_xmm :: "xmm list"

definition zero_xmm :: xmm where "zero_xmm = replicate 16 0"

definition width_mask :: "u32 \<Rightarrow> u64" where
  "width_mask width_bits =
     (if width_bits \<ge> 64 then 0xFFFFFFFFFFFFFFFF else push_bit (unat width_bits) 1 - 1)"

definition kRMetaLow32 :: u32 where "kRMetaLow32 = 0x00200000"

definition register_file_new :: "bool \<Rightarrow> register_file" where
  "register_file_new is_64bit =
     \<lparr>rf_vals = replicate 18 0, rf_taint = replicate 18 False, rf_xmm = replicate 16 zero_xmm,
      rf_real_mask = (if is_64bit then 0xFFFFFFFFFFFFFFFF else 0xFFFFFFFF),
      rf_eflags_index = (if is_64bit then kRegEflags64 else kRegEflags),
      rf_low32_zx = is_64bit\<rparr>"

text \<open>
  A lane whose offset is 64 or more would shift by more than the width of the word; such an
  index has no name in registers.h.  \<open>lane_offset\<close> and \<open>lane_width\<close> read the fields.
\<close>

definition lane_slot :: "u32 \<Rightarrow> u32" where "lane_slot i = i AND 0xFFFF"
definition lane_offset :: "u32 \<Rightarrow> u32" where "lane_offset i = drop_bit 24 i AND 0xFF"
definition lane_width :: "u32 \<Rightarrow> u32" where "lane_width i = drop_bit 16 i AND 0xFF"

definition get_register :: "register_file \<Rightarrow> u32 \<Rightarrow> u64 option" where
  "get_register rf i =
     (let ridx = lane_slot i in
      if ridx \<ge> kRegSlots then Some 0
      else let v = rf_vals rf ! unat ridx in
        if ridx \<noteq> i then
          (case (if lane_offset i \<noteq> 0 then shr64 v (ucast (lane_offset i)) else Some v) of
             None \<Rightarrow> None
           | Some v \<Rightarrow> Some (v AND width_mask (lane_width i)))
        else Some v)"

definition set_register :: "register_file \<Rightarrow> u32 \<Rightarrow> u64 \<Rightarrow> register_file option" where
  "set_register rf i0 v =
     (let i = (if rf_low32_zx rf \<and> i0 AND 0xFFFF0000 = kRMetaLow32 then i0 AND 0xFFFF else i0);
          ridx = lane_slot i
      in if ridx \<ge> kRegSlots then Some rf
         else if ridx \<noteq> i then
           (case (shl64 (width_mask (lane_width i)) (ucast (lane_offset i)),
                  shl64 v (ucast (lane_offset i))) of
              (Some lane_mask, Some shifted) \<Rightarrow>
                Some (rf\<lparr>rf_vals := (rf_vals rf)[unat ridx :=
                  ((rf_vals rf ! unat ridx AND NOT lane_mask) OR (shifted AND lane_mask))
                    AND rf_real_mask rf]\<rparr>)
            | _ \<Rightarrow> None)
         else Some (rf\<lparr>rf_vals := (rf_vals rf)[unat ridx := v AND rf_real_mask rf]\<rparr>))"

definition get_flag :: "register_file \<Rightarrow> u32 \<Rightarrow> bool" where
  "get_flag rf which \<longleftrightarrow> rf_vals rf ! unat (rf_eflags_index rf) AND ucast which \<noteq> 0"

definition set_flag :: "register_file \<Rightarrow> u32 \<Rightarrow> bool \<Rightarrow> register_file" where
  "set_flag rf which state =
     (let k = unat (rf_eflags_index rf); v = rf_vals rf ! k in
      if state then rf\<lparr>rf_vals := (rf_vals rf)[k := v OR ucast which]\<rparr>
      else rf\<lparr>rf_vals := (rf_vals rf)[k := v AND NOT (ucast which)]\<rparr>)"

definition get_xmm :: "register_file \<Rightarrow> u32 \<Rightarrow> xmm" where
  "get_xmm rf i = (if i \<ge> kXmmCount then zero_xmm else rf_xmm rf ! unat i)"

definition set_xmm :: "register_file \<Rightarrow> u32 \<Rightarrow> xmm \<Rightarrow> register_file" where
  "set_xmm rf i v = (if i < kXmmCount then rf\<lparr>rf_xmm := (rf_xmm rf)[unat i := v]\<rparr> else rf)"

definition is_tainted :: "register_file \<Rightarrow> u32 \<Rightarrow> bool" where
  "is_tainted rf i \<longleftrightarrow> lane_slot i < kRegSlots \<and> rf_taint rf ! unat (lane_slot i)"

definition set_taint :: "register_file \<Rightarrow> u32 \<Rightarrow> bool \<Rightarrow> register_file" where
  "set_taint rf i tainted =
     (if lane_slot i < kRegSlots then rf\<lparr>rf_taint := (rf_taint rf)[unat (lane_slot i) := tainted]\<rparr>
      else rf)"

definition rf_snapshot :: "register_file \<Rightarrow> register_snapshot" where
  "rf_snapshot rf = \<lparr>rs_vals = rf_vals rf, rs_taint = rf_taint rf, rs_xmm = rf_xmm rf\<rparr>"

definition rf_restore :: "register_file \<Rightarrow> register_snapshot \<Rightarrow> register_file" where
  "rf_restore rf snap = rf\<lparr>rf_vals := rs_vals snap, rf_taint := rs_taint snap, rf_xmm := rs_xmm snap\<rparr>"


section \<open>Lanes, bit by bit\<close>

text \<open>The bits of its slot that an index selects.\<close>

definition lane_at :: "u32 \<Rightarrow> nat" where "lane_at i = unat (lane_offset i)"

definition lane_bits :: "u32 \<Rightarrow> nat" where
  "lane_bits i = (if lane_slot i = i then 64 else unat (lane_width i))"

definition target_index :: "register_file \<Rightarrow> u32 \<Rightarrow> u32" where
  "target_index rf i =
     (if rf_low32_zx rf \<and> i AND 0xFFFF0000 = kRMetaLow32 then i AND 0xFFFF else i)"

abbreviation slot_of :: "u32 \<Rightarrow> nat" where "slot_of i \<equiv> unat (lane_slot i)"

definition covers :: "u32 \<Rightarrow> nat \<Rightarrow> bool" where
  "covers i k \<longleftrightarrow> lane_at i \<le> k \<and> k < lane_at i + lane_bits i"

lemma low16: "i AND 0xFFFF = take_bit 16 i" for i :: u32
  by (simp add: take_bit_eq_mask mask_eq_exp_minus_1)

lemma low8: "i AND 0xFF = take_bit 8 i" for i :: u32
  by (simp add: take_bit_eq_mask mask_eq_exp_minus_1)

lemma whole_slot_offset: "lane_slot i = i \<Longrightarrow> lane_offset i = 0"
proof -
  assume "lane_slot i = i"
  then have "take_bit 16 i = i" by (simp add: lane_slot_def low16)
  then have "\<not> bit i n" if "n \<ge> 16" for n
    using that by (metis bit_take_bit_iff not_less)
  then show ?thesis by (intro bit_word_eqI) (simp add: lane_offset_def low8 bit_simps)
qed

lemma lane_slot_idem [simp]: "lane_slot (lane_slot i) = lane_slot i"
  by (simp add: lane_slot_def low16)

lemma lane_offset_bound: "lane_at i < 256"
proof -
  have "lane_at i = take_bit 8 (unat (drop_bit 24 i))"
    unfolding lane_at_def lane_offset_def low8 by (rule unsigned_take_bit_eq)
  also have "\<dots> < 2 ^ 8" by (rule take_bit_nat_less_exp)
  finally show ?thesis by simp
qed

lemma bit_width_mask: "bit (width_mask w) k = (k < 64 \<and> k < unat w)"
proof (cases "w \<ge> 64")
  case True
  then have "width_mask w = mask 64" by (simp add: width_mask_def mask_eq_exp_minus_1)
  moreover have "64 \<le> unat w" using True by (simp add: word_le_nat_alt)
  ultimately show ?thesis by (simp only: bit_mask_iff) auto
next
  case False
  then have "width_mask w = mask (unat w)"
    by (simp add: width_mask_def mask_eq_exp_minus_1 push_bit_eq_mult)
  with False show ?thesis by (auto simp: bit_mask_iff word_le_nat_alt)
qed

lemma ucast_offset: "ucast (lane_offset i) < (64 :: u64) \<longleftrightarrow> lane_at i < 64"
  "unat (ucast (lane_offset i) :: u64) = lane_at i"
proof -
  have u: "unat (ucast (lane_offset i) :: u64) = lane_at i"
    using lane_offset_bound [of i]
    by (simp add: unsigned_ucast_eq lane_at_def take_bit_nat_eq_self)
  show "unat (ucast (lane_offset i) :: u64) = lane_at i" by (rule u)
  show "ucast (lane_offset i) < (64 :: u64) \<longleftrightarrow> lane_at i < 64" by (simp add: word_less_nat_alt u)
qed

lemma get_register_bits:
  assumes "lane_slot i < kRegSlots" and "lane_at i < 64"
  shows "\<exists>w. get_register rf i = Some w \<and>
    (\<forall>k. bit w k = (k < lane_bits i \<and> bit (rf_vals rf ! slot_of i) (k + lane_at i)))"
proof (cases "lane_slot i = i")
  case True
  then show ?thesis
    using assms whole_slot_offset [of i]
    by (auto simp: get_register_def Let_def lane_bits_def lane_at_def dest: bit_imp_le_length)
next
  case False
  let ?v = "rf_vals rf ! slot_of i"
  have "(if lane_offset i \<noteq> 0 then shr64 ?v (ucast (lane_offset i)) else Some ?v)
      = Some (drop_bit (lane_at i) ?v)"
    using assms(2) by (simp add: shr64_def ucast_offset) (simp add: lane_at_def)
  then have "get_register rf i = Some (drop_bit (lane_at i) ?v AND width_mask (lane_width i))"
    using False assms(1) by (simp add: get_register_def Let_def not_le)
  then show ?thesis using False
    by (auto simp: bit_simps bit_width_mask lane_bits_def add.commute dest: bit_imp_le_length)
qed

lemma set_register_bits:
  fixes rf i0
  defines "i \<equiv> target_index rf i0"
  assumes "lane_slot i < kRegSlots" and "lane_at i < 64"
  shows "\<exists>x. set_register rf i0 v = Some (rf\<lparr>rf_vals := (rf_vals rf)[slot_of i := x]\<rparr>) \<and>
    (\<forall>k. bit x k = (bit (rf_real_mask rf) k \<and>
       (if covers i k then bit v (k - lane_at i) else bit (rf_vals rf ! slot_of i) k)))"
proof (cases "lane_slot i = i")
  case True
  then have "set_register rf i0 v = Some (rf\<lparr>rf_vals := (rf_vals rf)[slot_of i := v AND rf_real_mask rf]\<rparr>)"
    using assms(2) by (simp add: set_register_def i_def [symmetric, unfolded target_index_def] Let_def not_le)
  moreover have "bit (v AND rf_real_mask rf) k = (bit (rf_real_mask rf) k \<and>
       (if covers i k then bit v (k - lane_at i) else bit (rf_vals rf ! slot_of i) k))" for k
    using True whole_slot_offset [of i]
    by (auto simp: covers_def lane_bits_def lane_at_def bit_simps dest: bit_imp_le_length)
  ultimately show ?thesis by blast
next
  case False
  let ?m = "push_bit (lane_at i) (width_mask (lane_width i))"
  let ?x = "((rf_vals rf ! slot_of i AND NOT ?m) OR (push_bit (lane_at i) v AND ?m)) AND rf_real_mask rf"
  have "set_register rf i0 v = Some (rf\<lparr>rf_vals := (rf_vals rf)[slot_of i := ?x]\<rparr>)"
    using assms(2,3) False
    by (simp add: set_register_def i_def [symmetric, unfolded target_index_def] Let_def
        shl64_def ucast_offset not_le)
  moreover have "bit ?x k = (bit (rf_real_mask rf) k \<and>
       (if covers i k then bit v (k - lane_at i) else bit (rf_vals rf ! slot_of i) k))" for k
    using False by (auto simp: covers_def lane_bits_def bit_simps bit_width_mask dest: bit_imp_le_length)
  ultimately show ?thesis by blast
qed

section \<open>The invariant of the register file\<close>

named_theorems rf_keeps \<open>operations that keep the register file well-formed\<close>

definition rf_ok :: "register_file \<Rightarrow> bool" where
  "rf_ok rf \<longleftrightarrow> length (rf_vals rf) = 18 \<and> length (rf_taint rf) = 18 \<and> length (rf_xmm rf) = 16 \<and>
     list_all (\<lambda>v. v AND rf_real_mask rf = v) (rf_vals rf) \<and>
     list_all (\<lambda>x. length x = 16) (rf_xmm rf) \<and>
     (if rf_low32_zx rf then rf_real_mask rf = mask 64 \<and> rf_eflags_index rf = kRegEflags64
      else rf_real_mask rf = mask 32 \<and> rf_eflags_index rf = kRegEflags)"

text \<open>What no operation changes: the architecture.\<close>

definition same_arch :: "register_file \<Rightarrow> register_file \<Rightarrow> bool" where
  "same_arch rf rf' \<longleftrightarrow> rf_real_mask rf' = rf_real_mask rf \<and>
     rf_eflags_index rf' = rf_eflags_index rf \<and> rf_low32_zx rf' = rf_low32_zx rf"

lemma rf_new_ok [rf_keeps]: "rf_ok (register_file_new is_64bit)"
  by (simp add: rf_ok_def register_file_new_def zero_xmm_def list_all_iff mask_eq_exp_minus_1)

lemma list_all_update: "list_all P xs \<Longrightarrow> P x \<Longrightarrow> list_all P (xs[i := x])"
  by (auto simp: list_all_iff dest!: subsetD [OF set_update_subset_insert])

lemma set_vals_ok:
  "rf_ok rf \<Longrightarrow> x AND rf_real_mask rf = x \<Longrightarrow> rf_ok (rf\<lparr>rf_vals := (rf_vals rf)[k := x]\<rparr>)"
  by (auto simp: rf_ok_def list_all_update)

lemma set_register_ok [rf_keeps]: "rf_ok rf \<Longrightarrow> set_register rf i v = Some rf' \<Longrightarrow> rf_ok rf'"
  by (auto simp: set_register_def Let_def intro!: set_vals_ok split: if_split_asm option.splits
      simp: bit_eq_iff bit_simps)

lemma mask_absorb: "bit v k \<Longrightarrow> v AND m = v \<Longrightarrow> bit m k"
  by (metis bit_and_iff)

lemma set_flag_ok [rf_keeps]: "rf_ok rf \<Longrightarrow> rf_ok (set_flag rf which state)"
proof -
  assume ok: "rf_ok rf"
  let ?k = "unat (rf_eflags_index rf)"
  have "?k < 18" using ok by (auto simp: rf_ok_def kRegEflags_def kRegEflags64_def split: if_split_asm)
  then have v: "rf_vals rf ! ?k AND rf_real_mask rf = rf_vals rf ! ?k"
    using ok by (auto simp: rf_ok_def list_all_length)
  have m: "bit (rf_real_mask rf) n" if "n < 32" for n
    using ok that by (auto simp: rf_ok_def bit_mask_iff split: if_split_asm)
  have w: "ucast which AND rf_real_mask rf = ucast which"
    using m by (auto simp: bit_eq_iff bit_simps dest: bit_imp_le_length)
  show ?thesis unfolding set_flag_def Let_def
    using ok v w
    by (auto intro!: set_vals_ok simp: bit_eq_iff bit_simps)
qed

lemma set_xmm_ok [rf_keeps]: "rf_ok rf \<Longrightarrow> length x = 16 \<Longrightarrow> rf_ok (set_xmm rf i x)"
  by (auto simp: rf_ok_def set_xmm_def list_all_update)

lemma set_taint_ok [rf_keeps]: "rf_ok rf \<Longrightarrow> rf_ok (set_taint rf i t)"
  by (auto simp: rf_ok_def set_taint_def)

lemma same_arch_refl [simp]: "same_arch rf rf"
  by (simp add: same_arch_def)

lemma same_arch_trans: "same_arch a b \<Longrightarrow> same_arch b c \<Longrightarrow> same_arch a c"
  by (simp add: same_arch_def)

lemma set_register_arch: "set_register rf i v = Some rf' \<Longrightarrow> same_arch rf rf'"
  by (auto simp: set_register_def same_arch_def Let_def split: if_split_asm option.splits)

lemma set_flag_arch [simp]: "same_arch rf (set_flag rf which state)"
  by (simp add: same_arch_def set_flag_def Let_def)

lemma set_xmm_arch [simp]: "same_arch rf (set_xmm rf i x)"
  by (simp add: same_arch_def set_xmm_def)

lemma set_taint_arch [simp]: "same_arch rf (set_taint rf i t)"
  by (simp add: same_arch_def set_taint_def)


section \<open>Flags\<close>

lemma flags_slot: "rf_ok rf \<Longrightarrow> unat (rf_eflags_index rf) < length (rf_vals rf)"
  by (auto simp: rf_ok_def kRegEflags_def kRegEflags64_def split: if_split_asm)

lemma ucast_and_zero: "f AND g = 0 \<Longrightarrow> ucast f AND (ucast g :: u64) = 0" for f g :: u32
  by (metis unsigned_0 unsigned_and_eq)

lemma ucast_nonzero: "f \<noteq> 0 \<Longrightarrow> (ucast f :: u64) \<noteq> 0" for f :: u32
proof
  assume "f \<noteq> 0" and z: "(ucast f :: u64) = 0"
  have "f = 0"
  proof (rule bit_word_eqI)
    fix n assume "n < LENGTH(32)"
    then have "bit f n = bit (ucast f :: u64) n" by (simp add: bit_ucast_iff)
    then show "bit f n = bit (0 :: u32) n" by (simp add: z)
  qed
  with \<open>f \<noteq> 0\<close> show False by simp
qed

lemma get_set_flag_same:
  "rf_ok rf \<Longrightarrow> f \<noteq> 0 \<Longrightarrow> get_flag (set_flag rf f b) f = b"
  using ucast_nonzero [of f] flags_slot [of rf]
  by (auto simp: get_flag_def set_flag_def Let_def bit_eq_iff bit_simps)

lemma get_set_flag_other:
  "rf_ok rf \<Longrightarrow> f AND g = 0 \<Longrightarrow> get_flag (set_flag rf f b) g = get_flag rf g"
proof -
  assume ok: "rf_ok rf" and fg: "f AND g = 0"
  have "(x OR ucast f) AND ucast g = x AND ucast g" "(x AND NOT (ucast f)) AND ucast g = x AND ucast g" for x :: u64
    using ucast_and_zero [OF fg] by (auto simp: bit_eq_iff bit_simps)
  then show ?thesis using flags_slot [OF ok] by (simp add: get_flag_def set_flag_def Let_def)
qed

lemmas flag_masks = kEflagsCf_def kEflagsPf_def kEflagsAf_def kEflagsZf_def kEflagsSf_def kEflagsOf_def

lemmas flag_reads = get_set_flag_same get_set_flag_other

section \<open>Snapshots\<close>

text \<open>
  The contract between the emulator's work queue and the state it rolls back: restoring a
  snapshot on a state that differs only in its variable part gives the state it was taken of.
\<close>

locale restorable =
  fixes snap :: "'s \<Rightarrow> 'p" and restore :: "'s \<Rightarrow> 'p \<Rightarrow> 's" and same :: "'s \<Rightarrow> 's \<Rightarrow> bool"
  assumes restore_snap: "same s t \<Longrightarrow> restore t (snap s) = s"
    and same_self: "same s s"
    and same_step: "same s t \<Longrightarrow> same t u \<Longrightarrow> same s u"
begin

lemma rollback:
  "list_all (\<lambda>f. \<forall>s t. f s = Some t \<longrightarrow> same s t) fs \<Longrightarrow>
   foldl (\<lambda>s f. Option.bind s f) (Some s) fs = Some t \<Longrightarrow> restore t (snap s) = s"
proof -
  have "foldl (\<lambda>s f. Option.bind s f) None gs = None" for gs :: "('s \<Rightarrow> 's option) list"
    by (induction gs) auto
  then have "list_all (\<lambda>f. \<forall>s t. f s = Some t \<longrightarrow> same s t) fs \<Longrightarrow>
    foldl (\<lambda>s f. Option.bind s f) (Some s) fs = Some t \<Longrightarrow> same s t" for s
  proof (induction fs arbitrary: s)
    case (Cons f fs)
    then obtain u where "f s = Some u" "foldl (\<lambda>s f. Option.bind s f) (Some u) fs = Some t"
      by (cases "f s") auto
    with Cons have "same s u" "same u t" by auto
    then show ?case by (rule same_step)
  qed (simp add: same_self)
  then show "list_all (\<lambda>f. \<forall>s t. f s = Some t \<longrightarrow> same s t) fs \<Longrightarrow>
    foldl (\<lambda>s f. Option.bind s f) (Some s) fs = Some t \<Longrightarrow> restore t (snap s) = s"
    by (simp add: restore_snap)
qed

end

interpretation regs: restorable rf_snapshot rf_restore same_arch
proof
  show "same_arch s t \<Longrightarrow> rf_restore t (rf_snapshot s) = s" for s t
    by (cases s, cases t) (simp add: rf_restore_def rf_snapshot_def same_arch_def)
qed (auto intro: same_arch_trans)

section \<open>Properties\<close>

lemma low32_lane:
  assumes "i AND 0xFFFF0000 = kRMetaLow32"
  shows "lane_offset i = 0" and "lane_width i = 32"
proof -
  have m: "0xFF = (mask 8 :: u32)" "0xFFFF0000 = (push_bit 16 (mask 16) :: u32)"
    by (simp_all add: mask_eq_exp_minus_1)
  have "lane_offset i = drop_bit 24 (i AND 0xFFFF0000) AND 0xFF"
    by (rule bit_word_eqI) (auto simp: lane_offset_def m bit_simps)
  then show "lane_offset i = 0" by (simp add: assms kRMetaLow32_def)
  have "lane_width i = drop_bit 16 (i AND 0xFFFF0000) AND 0xFF"
    by (rule bit_word_eqI) (auto simp: lane_width_def m bit_simps)
  then show "lane_width i = 32" by (simp add: assms kRMetaLow32_def)
qed

lemma real_mask_bits:
  "rf_ok rf \<Longrightarrow> bit (rf_real_mask rf) k = (k < (if rf_low32_zx rf then 64 else 32))"
  by (auto simp: rf_ok_def bit_mask_iff split: if_split_asm)

definition zx_lane :: "register_file \<Rightarrow> u32 \<Rightarrow> bool" where
  "zx_lane rf i \<longleftrightarrow> rf_low32_zx rf \<and> i AND 0xFFFF0000 = kRMetaLow32"

lemma zx_not_slot: "zx_lane rf i \<Longrightarrow> lane_slot i \<noteq> i"
proof
  assume z: "zx_lane rf i" and "lane_slot i = i"
  then have "bit i 21 = bit (take_bit 16 i) 21" by (simp add: lane_slot_def low16)
  then have "\<not> bit i 21" by (simp add: bit_take_bit_iff)
  moreover have "bit (i AND 0xFFFF0000) 21" using z by (simp add: zx_lane_def kRMetaLow32_def)
  ultimately show False by (simp add: bit_and_iff)
qed

lemma target_slot: "target_index rf i = (if zx_lane rf i then lane_slot i else i)"
  by (simp add: target_index_def zx_lane_def lane_slot_def)

text \<open>The bits of the slot after a write, in terms of the index as given.\<close>

lemma written_slot:
  assumes "lane_slot i < kRegSlots" and "lane_at i < 64"
  shows "\<exists>x. set_register rf i v = Some (rf\<lparr>rf_vals := (rf_vals rf)[slot_of i := x]\<rparr>) \<and>
    (\<forall>k. bit x k = (bit (rf_real_mask rf) k \<and>
       (if zx_lane rf i then bit v k else if covers i k then bit v (k - lane_at i)
        else bit (rf_vals rf ! slot_of i) k)))"
proof (cases "zx_lane rf i")
  case True
  have o: "lane_at (lane_slot i) = 0"
    using whole_slot_offset [of "lane_slot i"] by (simp add: lane_at_def)
  have c: "covers (lane_slot i) k = (k < 64)" for k
    by (simp add: covers_def o lane_bits_def)
  have t: "target_index rf i = lane_slot i" using True by (simp add: target_slot)
  have "\<exists>x. set_register rf i v = Some (rf\<lparr>rf_vals := (rf_vals rf)[slot_of i := x]\<rparr>) \<and>
    (\<forall>k. bit x k = (bit (rf_real_mask rf) k \<and>
       (if k < 64 then bit v k else bit (rf_vals rf ! slot_of i) k)))"
    using set_register_bits [of rf i v, unfolded t lane_slot_idem c o diff_zero] assms(1) by (meson zero_less_numeral)
  then obtain x where x: "set_register rf i v = Some (rf\<lparr>rf_vals := (rf_vals rf)[slot_of i := x]\<rparr>)"
    and b: "\<And>k. bit x k = (bit (rf_real_mask rf) k \<and>
       (if k < 64 then bit v k else bit (rf_vals rf ! slot_of i) k))" by blast
  have "bit x k = (bit (rf_real_mask rf) k \<and> bit v k)" for k
    using b [of k] bit_imp_le_length [of "rf_real_mask rf" k] by (cases "k < 64") auto
  with x True show ?thesis by (intro exI [of _ x]) simp
next
  case False
  then have t: "target_index rf i = i" by (simp add: target_slot)
  show ?thesis using set_register_bits [of rf i v, unfolded t] assms False by simp
qed

text \<open>What a read of the same index sees in that slot.\<close>

lemma read_back:
  assumes ok: "rf_ok rf" and at: "lane_at i < 64" and slot: "lane_slot i < kRegSlots"
    and fits: "lane_slot i = i \<or> lane_at i + lane_bits i \<le> (if rf_low32_zx rf then 64 else 32)"
    and x: "\<And>k. bit x k = (bit (rf_real_mask rf) k \<and>
       (if zx_lane rf i then bit v k else if covers i k then bit v (k - lane_at i) else bit old k))"
    and rf': "rf_vals rf' ! slot_of i = x"
  shows "get_register rf' i =
      Some (v AND (if lane_slot i = i then rf_real_mask rf else width_mask (lane_width i)))"
proof -
  obtain w where w: "get_register rf' i = Some w"
    and wb: "\<And>k. bit w k = (k < lane_bits i \<and> bit x (k + lane_at i))"
    using get_register_bits [OF slot at, of rf'] rf' by auto
  note mb = real_mask_bits [OF ok]
  have "w = v AND (if lane_slot i = i then rf_real_mask rf else width_mask (lane_width i))"
  proof (rule bit_word_eqI)
    fix k assume k: "k < LENGTH(64)"
    consider "zx_lane rf i" | "\<not> zx_lane rf i" "lane_slot i = i" | "\<not> zx_lane rf i" "lane_slot i \<noteq> i"
      by blast
    then show "bit w k = bit (v AND (if lane_slot i = i then rf_real_mask rf
        else width_mask (lane_width i))) k"
    proof cases
      case 1
      then have "lane_at i = 0" "lane_width i = 32" "bit (rf_real_mask rf) k"
        using low32_lane [of i] k by (simp_all add: zx_lane_def lane_at_def mb)
      then show ?thesis
        using zx_not_slot [OF 1] 1 k by (auto simp: wb x lane_bits_def bit_and_iff bit_width_mask)
    next
      case 2
      then show ?thesis
        using whole_slot_offset [OF 2(2)] k
        by (auto simp: wb x lane_bits_def lane_at_def covers_def bit_and_iff)
    next
      case 3
      then have "k < lane_bits i \<Longrightarrow> bit (rf_real_mask rf) (k + lane_at i)"
        using fits unfolding mb by (auto split: if_split_asm)
      then show ?thesis
        using 3 k by (auto simp: wb x covers_def lane_bits_def bit_and_iff bit_width_mask)
    qed
  qed
  with w show ?thesis by simp
qed

lemma slot_in_mask:
  assumes "rf_ok rf" and "s < length (rf_vals rf)" and "bit (rf_vals rf ! s) k"
  shows "bit (rf_real_mask rf) k"
proof -
  have "rf_vals rf ! s AND rf_real_mask rf = rf_vals rf ! s"
    using assms(1,2) by (simp add: rf_ok_def list_all_length)
  with assms(3) show ?thesis by (rule mask_absorb)
qed

text \<open>
  C38: writing a register or a lane of one: the write is defined and a read of the same index
  gives the value cut to the width of the target; the other bits of the slot keep their value,
  except that a 32-bit lane of the amd64 file hands the whole slot to the value, upper half
  included; every other slot, the taint bits and the vector registers are untouched.  The index
  must name a slot and lie within the register.
\<close>

theorem lane_write:
  assumes ok: "rf_ok rf" and slot: "lane_slot i < kRegSlots"
    and fits: "lane_slot i = i \<or> lane_at i + lane_bits i \<le> (if rf_low32_zx rf then 64 else 32) \<and> 0 < lane_bits i"
  shows "\<exists>rf'. set_register rf i v = Some rf' \<and> rf_ok rf' \<and>
    get_register rf' i =
      Some (v AND (if lane_slot i = i then rf_real_mask rf else width_mask (lane_width i))) \<and>
    (\<forall>k < 64. \<not> covers i k \<longrightarrow> bit (rf_vals rf' ! slot_of i) k =
       (if zx_lane rf i then bit v k
        else bit (rf_vals rf ! slot_of i) k)) \<and>
    (\<forall>s. s \<noteq> slot_of i \<longrightarrow> rf_vals rf' ! s = rf_vals rf ! s) \<and>
    rf_taint rf' = rf_taint rf \<and> rf_xmm rf' = rf_xmm rf"
proof -
  have at: "lane_at i < 64"
    using fits whole_slot_offset [of i] zx_not_slot [of rf i] lane_offset_bound [of i]
    by (cases "lane_slot i = i") (simp add: lane_at_def, simp split: if_split_asm)
  obtain x where x: "set_register rf i v = Some (rf\<lparr>rf_vals := (rf_vals rf)[slot_of i := x]\<rparr>)"
    and b: "\<And>k. bit x k = (bit (rf_real_mask rf) k \<and>
       (if zx_lane rf i then bit v k else if covers i k then bit v (k - lane_at i)
        else bit (rf_vals rf ! slot_of i) k))"
    using written_slot [OF slot at, of rf v] by blast
  let ?rf = "rf\<lparr>rf_vals := (rf_vals rf)[slot_of i := x]\<rparr>"
  have len: "slot_of i < length (rf_vals rf)"
    using ok slot by (simp add: rf_ok_def kRegSlots_def word_less_nat_alt)
  then have new: "rf_vals ?rf ! slot_of i = x" by simp
  note read = read_back [OF ok at slot _ b new]
  have old: "bit (rf_vals rf ! slot_of i) k \<Longrightarrow> bit (rf_real_mask rf) k" for k
    using slot_in_mask [OF ok len] .
  have out: "bit x k = (if zx_lane rf i then bit v k else bit (rf_vals rf ! slot_of i) k)"
    if "k < 64" "\<not> covers i k" for k
  proof (cases "zx_lane rf i")
    case True
    then have "bit (rf_real_mask rf) k" using that(1) by (simp add: real_mask_bits [OF ok] zx_lane_def)
    with True show ?thesis by (simp add: b)
  next
    case False
    with that(2) old [of k] show ?thesis unfolding b by auto
  qed
  show ?thesis
  proof (intro exI [of _ ?rf] conjI)
    show "set_register rf i v = Some ?rf" by (rule x)
    show "rf_ok ?rf" by (rule set_register_ok [OF ok x])
    show "get_register ?rf i = Some (v AND (if lane_slot i = i then rf_real_mask rf
        else width_mask (lane_width i)))"
      using fits by (intro read) blast
    show "\<forall>k < 64. \<not> covers i k \<longrightarrow> bit (rf_vals ?rf ! slot_of i) k =
        (if zx_lane rf i then bit v k else bit (rf_vals rf ! slot_of i) k)"
      unfolding new using out by blast
  qed simp_all
qed

theorem lane_write_witness:
  "\<exists>rf'. set_register (register_file_new True) kRegAh 0x1234 = Some rf' \<and>
     get_register rf' kRegAh = Some 0x34 \<and> rf_vals rf' ! 3 = 0"
proof -
  have i: "kRegAh = 0x8080000" by (simp add: kRegAh_def make_meta_reg_def kRegEax_def)
  have l: "lane_slot kRegAh = 0" "lane_offset kRegAh = 8" "lane_width kRegAh = 8"
    by (simp_all add: i lane_slot_def lane_offset_def lane_width_def)
  then show ?thesis
    using lane_write [OF rf_new_ok [of True], of kRegAh "0x1234"]
    by (auto simp: kRegSlots_def lane_at_def lane_bits_def register_file_new_def width_mask_def i)
qed

end
