(* ===== verification/Emu_Memory.thy ===== *)
theory Emu_Memory
  imports Emu_Registers
begin

text \<open>
  The sandboxed address space of the emulator (memory.h, memory.cpp) and the registry of taint
  values (taints.h, taints.cpp).  A hash map of the code is an association list whose keys are
  distinct, so that its length is the size the code compares with the cap.
\<close>

section \<open>The address space\<close>

definition kMemExec :: u32 where "kMemExec = 0x1"
definition kMemWrite :: u32 where "kMemWrite = 0x2"
definition kMemRead :: u32 where "kMemRead = 0x4"
definition kTaintByte :: u8 where "kTaintByte = 0x61"
definition kStackBase :: u64 where "kStackBase = 0xBFB00000"
definition kStackSize :: u64 where "kStackSize = 0x8000"
definition kStackTop :: u64 where "kStackTop = kStackBase + kStackSize"
definition kStackFill :: u8 where "kStackFill = 0xFE"
definition kStackBase64 :: u64 where "kStackBase64 = 0xFFFFFFFFBFB00000"
definition kStackTop64 :: u64 where "kStackTop64 = kStackBase64 + kStackSize"
definition kDefaultOverlayCap :: nat where "kDefaultOverlayCap = 2 ^ 20"

record memory_map =
  mm_base :: u64
  mm_size :: u64
  mm_perms :: u32
  mm_bytes :: "u8 list"
  mm_is_fill :: bool

record memory =
  me_maps :: "memory_map list"
  me_overlay :: "(u64 \<times> u8) list"
  me_overlay_cap :: nat

definition memory_new :: "nat \<Rightarrow> memory" where
  "memory_new overlay_cap = \<lparr>me_maps = [], me_overlay = [], me_overlay_cap = overlay_cap\<rparr>"

definition add_map :: "memory \<Rightarrow> u64 \<Rightarrow> u32 \<Rightarrow> u8 list \<Rightarrow> memory" where
  "add_map me base perms bytes =
     me\<lparr>me_maps := me_maps me @ [\<lparr>mm_base = base, mm_size = of_nat (length bytes),
       mm_perms = perms, mm_bytes = bytes, mm_is_fill = False\<rparr>]\<rparr>"

text \<open>The rotation moves the map just appended to the front.\<close>

definition init_stack :: "memory \<Rightarrow> u64 \<Rightarrow> memory" where
  "init_stack me base =
     (let maps = me_maps me @ [\<lparr>mm_base = base, mm_size = kStackSize,
        mm_perms = kMemRead OR kMemWrite, mm_bytes = [], mm_is_fill = True\<rparr>]
      in me\<lparr>me_maps := last maps # butlast maps\<rparr>)"

definition find_map :: "memory \<Rightarrow> u64 \<Rightarrow> memory_map option" where
  "find_map me va = find (\<lambda>m. va \<ge> mm_base m \<and> va < mm_base m + mm_size m) (me_maps me)"

definition probe :: "memory \<Rightarrow> u64 \<Rightarrow> nat \<Rightarrow> u32 \<Rightarrow> bool" where
  "probe me va n perm =
     (case find_map me va of
        None \<Rightarrow> False
      | Some m \<Rightarrow>
          if va + of_nat n > mm_base m + mm_size m then False
          else mm_perms m AND perm = perm)"

definition is_valid_pointer :: "memory \<Rightarrow> u64 \<Rightarrow> bool" where
  "is_valid_pointer me va \<longleftrightarrow> find_map me va \<noteq> None"

definition backing_byte :: "memory_map \<Rightarrow> u64 \<Rightarrow> u8" where
  "backing_byte m va =
     (if mm_is_fill m then kStackFill
      else let ofs = unat (va - mm_base m) in
        if ofs < length (mm_bytes m) then mm_bytes m ! ofs else kStackFill)"

definition byte_at_map :: "memory \<Rightarrow> memory_map \<Rightarrow> u64 \<Rightarrow> u8" where
  "byte_at_map me m addr =
     (case map_of (me_overlay me) addr of Some b \<Rightarrow> b | None \<Rightarrow> backing_byte m addr)"

definition mem_read_bytes :: "memory \<Rightarrow> u64 \<Rightarrow> nat \<Rightarrow> u8 list" where
  "mem_read_bytes me va n =
     (if n = 0 then []
      else if \<not> probe me va n kMemRead then replicate n kTaintByte
      else case find_map me va of
             None \<Rightarrow> []
           | Some m \<Rightarrow> map (\<lambda>i. byte_at_map me m (va + of_nat i)) [0..<n])"

definition read_code :: "memory \<Rightarrow> u64 \<Rightarrow> nat \<Rightarrow> u8 list" where
  "read_code me va max_len =
     (case find_map me va of
        None \<Rightarrow> []
      | Some m \<Rightarrow>
          if mm_perms m AND kMemRead = 0 then []
          else map (\<lambda>i. byte_at_map me m (va + of_nat i))
                 [0..<min max_len (unat (mm_base m + mm_size m - va))])"

fun le_value :: "nat \<Rightarrow> u8 list \<Rightarrow> u64" where
  "le_value i [] = 0"
| "le_value i (b # bs) = push_bit (8 * i) (ucast b) OR le_value (Suc i) bs"

definition read_value :: "memory \<Rightarrow> u64 \<Rightarrow> nat \<Rightarrow> u64" where
  "read_value me va n = le_value 0 (take 8 (mem_read_bytes me va n))"

fun write_loop :: "u64 \<Rightarrow> u8 list \<Rightarrow> nat \<Rightarrow> (u64 \<times> u8) list \<Rightarrow> (u64 \<times> u8) list" where
  "write_loop addr [] cap ov = ov"
| "write_loop addr (b # bs) cap ov =
     (if map_of ov addr \<noteq> None then write_loop (addr + 1) bs cap (AList.update addr b ov)
      else if length ov \<ge> cap then ov
      else write_loop (addr + 1) bs cap (AList.update addr b ov))"

definition mem_write :: "memory \<Rightarrow> u64 \<Rightarrow> u8 list \<Rightarrow> memory" where
  "mem_write me va bytes =
     (if bytes = [] then me
      else if \<not> probe me va (length bytes) kMemWrite then me
      else me\<lparr>me_overlay := write_loop va bytes (me_overlay_cap me) (me_overlay me)\<rparr>)"

text \<open>
  The bytes go through an array of eight; a span of more than eight bytes over it would run
  past its end, which is undefined.
\<close>

definition le_bytes :: "u64 \<Rightarrow> nat \<Rightarrow> u8 list" where
  "le_bytes v n = map (\<lambda>i. ucast (drop_bit (8 * i) v AND 0xFF)) [0..<n]"

definition write_value :: "memory \<Rightarrow> u64 \<Rightarrow> u64 \<Rightarrow> nat \<Rightarrow> memory option" where
  "write_value me va v n = (if n > 8 then None else Some (mem_write me va (le_bytes v n)))"

definition mem_snapshot :: "memory \<Rightarrow> (u64 \<times> u8) list" where
  "mem_snapshot me = me_overlay me"

definition mem_restore :: "memory \<Rightarrow> (u64 \<times> u8) list \<Rightarrow> memory" where
  "mem_restore me snap = me\<lparr>me_overlay := snap\<rparr>"

section \<open>Taint values\<close>

definition kTaintMask :: u64 where "kTaintMask = 0xFFFFE000"

datatype taint_type =
    kUninitReg | kFuncStack | kApiCall | kImport | kDynLib | kDynFunc | kOtherTaint

record taint_info =
  ti_va :: u64
  ti_type :: taint_type
  ti_info :: u64

record taint_registry =
  tr_counter :: u64
  tr_taints :: "u64 \<rightharpoonup> taint_info"

definition taint_registry_new :: taint_registry where
  "taint_registry_new = \<lparr>tr_counter = 0x4156000F, tr_taints = (\<lambda>_. None)\<rparr>"

definition taint_allocate :: "taint_registry \<Rightarrow> taint_type \<Rightarrow> u64 \<Rightarrow> u64 \<times> taint_registry" where
  "taint_allocate tr ty info =
     (let va = tr_counter tr + 0x1000 in
      (va, tr\<lparr>tr_counter := tr_counter tr + 0x2000,
              tr_taints := (tr_taints tr)(va AND kTaintMask \<mapsto> \<lparr>ti_va = va, ti_type = ty, ti_info = info\<rparr>)\<rparr>))"

definition taint_lookup :: "taint_registry \<Rightarrow> u64 \<Rightarrow> taint_info option" where
  "taint_lookup tr va = tr_taints tr (va AND kTaintMask)"

section \<open>The overlay\<close>

definition same_space :: "memory \<Rightarrow> memory \<Rightarrow> bool" where
  "same_space me me' \<longleftrightarrow> me_maps me' = me_maps me \<and> me_overlay_cap me' = me_overlay_cap me"

lemma same_space_refl [simp]: "same_space me me"
  by (simp add: same_space_def)

lemma same_space_trans: "same_space a b \<Longrightarrow> same_space b c \<Longrightarrow> same_space a c"
  by (simp add: same_space_def)

lemma mem_write_space [simp]: "same_space me (mem_write me va bs)"
  by (simp add: same_space_def mem_write_def)

lemma write_value_space: "write_value me va v n = Some me' \<Longrightarrow> same_space me me'"
  by (auto simp: write_value_def split: if_split_asm)

interpretation mems: restorable mem_snapshot mem_restore same_space
proof
  show "same_space s t \<Longrightarrow> mem_restore t (mem_snapshot s) = s" for s t
    by (cases s, cases t) (simp add: mem_restore_def mem_snapshot_def same_space_def)
qed (auto intro: same_space_trans)

lemma find_map_space: "same_space me me' \<Longrightarrow> find_map me' va = find_map me va"
  by (simp add: find_map_def same_space_def)

lemma probe_space: "same_space me me' \<Longrightarrow> probe me' va n perm = probe me va n perm"
  by (simp add: probe_def find_map_space)

definition mem_ok :: "memory \<Rightarrow> bool" where
  "mem_ok me \<longleftrightarrow> distinct (map fst (me_overlay me)) \<and> length (me_overlay me) \<le> me_overlay_cap me"

lemma update_known_length: "map_of ov a \<noteq> None \<Longrightarrow> length (AList.update a b ov) = length ov"
  by (induction ov) auto

lemma update_new_length: "map_of ov a = None \<Longrightarrow> length (AList.update a b ov) = Suc (length ov)"
  by (induction ov) auto

lemma write_loop_ok:
  "distinct (map fst ov) \<Longrightarrow> length ov \<le> cap \<Longrightarrow>
     distinct (map fst (write_loop a bs cap ov)) \<and> length (write_loop a bs cap ov) \<le> cap"
proof (induction a bs cap ov rule: write_loop.induct)
  case (2 addr b bs cap ov)
  then show ?case
    by (cases "map_of ov addr = None")
      (auto simp: distinct_update update_known_length update_new_length)
qed simp

lemma mem_write_ok: "mem_ok me \<Longrightarrow> mem_ok (mem_write me va bs)"
  by (auto simp: mem_ok_def mem_write_def write_loop_ok)

lemma write_value_ok: "mem_ok me \<Longrightarrow> write_value me va v n = Some me' \<Longrightarrow> mem_ok me'"
  by (auto simp: write_value_def mem_write_ok split: if_split_asm)

text \<open>With room left in the overlay, the loop stores every byte and touches nothing else.\<close>

lemma write_loop_stores:
  "length ov + length bs \<le> cap \<Longrightarrow> length bs < 2 ^ 64 \<Longrightarrow>
   map_of (write_loop a bs cap ov) x =
     (if unat (x - a) < length bs then Some (bs ! unat (x - a)) else map_of ov x)"
proof (induction a bs cap ov arbitrary: x rule: write_loop.induct)
  case (2 a b bs cap ov)
  let ?ov = "AList.update a b ov"
  have len: "length ?ov + length bs \<le> cap"
    using "2.prems" by (cases "map_of ov a = None") (auto simp: update_known_length update_new_length)
  have "map_of (write_loop a (b # bs) cap ov) x = map_of (write_loop (a + 1) bs cap ?ov) x"
    using "2.prems" by simp
  also have "\<dots> = (if unat (x - (a + 1)) < length bs then Some (bs ! unat (x - (a + 1)))
      else map_of ?ov x)"
    using "2.IH" "2.prems" len by (cases "map_of ov a = None") auto
  also have "\<dots> = (if unat (x - a) < length (b # bs) then Some ((b # bs) ! unat (x - a)) else map_of ov x)"
  proof (cases "x = a")
    case True
    have "\<not> unat (- 1 :: u64) < length bs" using "2.prems" by (simp add: unsigned_minus_1_eq_mask mask_eq_exp_minus_1)
    with True show ?thesis by (simp add: update_conv)
  next
    case False
    then have "x - a \<noteq> 0" by simp
    then have "unat (x - (a + 1)) = unat (x - a) - 1" "0 < unat (x - a)"
      by (metis diff_diff_eq unat_minus_one) (simp add: unat_gt_0 False)
    with False show ?thesis by (auto simp: update_conv)
  qed
  finally show ?case .
qed simp

section \<open>Little-endian values\<close>

lemma byte_of: "ucast (drop_bit (8 * i) v AND 0xFF) = (ucast (drop_bit (8 * i) v) :: u8)" for v :: u64
proof -
  have "x AND 0xFF = take_bit 8 x" for x :: u64
    by (simp add: take_bit_eq_mask mask_eq_exp_minus_1)
  then show ?thesis by (intro bit_word_eqI) (simp add: bit_simps)
qed

lemma block8: "k div 8 = i \<longleftrightarrow> 8 * i \<le> k \<and> k < 8 * i + 8" for k i :: nat
proof
  assume "k div 8 = i"
  then show "8 * i \<le> k \<and> k < 8 * i + 8"
    using div_mult_mod_eq [of k 8] mod_less_divisor [of 8 k] by linarith
next
  assume "8 * i \<le> k \<and> k < 8 * i + 8"
  then show "k div 8 = i" by (intro div_nat_eqI) simp_all
qed
lemma block8_mod: "k div 8 = i \<Longrightarrow> k - 8 * i = k mod 8" for k i :: nat
  by (simp add: modulo_nat_def)
lemma bit_byte_at:
  "bit (push_bit (8 * i) (ucast b :: u64)) k \<longleftrightarrow> k < 64 \<and> k div 8 = i \<and> bit b (k mod 8)" for b :: u8
proof (cases "k div 8 = i")
  case True
  then have "8 * i \<le> k" "k - 8 * i = k mod 8" using block8 block8_mod by blast+
  moreover have "k mod 8 < 8" by simp
  ultimately show ?thesis using True by (auto simp only: bit_push_bit_iff bit_ucast_iff possible_bit_word) auto
next
  case False
  have "\<not> bit (ucast b :: u64) (k - 8 * i)" if "8 * i \<le> k"
  proof -
    have "\<not> k - 8 * i < 8" using False that block8 [of k i] by linarith
    then show ?thesis using bit_imp_le_length [of b "k - 8 * i"] by (auto simp: bit_ucast_iff)
  qed
  with False show ?thesis by (auto simp only: bit_push_bit_iff)
qed

lemma bit_le_value:
  "bit (le_value i bs) k = (k < 64 \<and> i \<le> k div 8 \<and> k div 8 < i + length bs \<and>
     bit (bs ! (k div 8 - i)) (k mod 8))"
proof (induction i bs rule: le_value.induct)
  case (2 i b bs)
  have s: "Suc i \<le> k div 8 \<Longrightarrow> k div 8 - i = Suc (k div 8 - Suc i)" by simp
  consider "k div 8 < i" | "k div 8 = i" | "Suc i \<le> k div 8" by linarith
  then show ?case
    by cases (simp_all add: bit_or_iff bit_byte_at 2 s del: div_less_iff_less_mult)
qed simp

lemma le_value_bytes: "n \<le> 8 \<Longrightarrow> le_value 0 (le_bytes v n) = take_bit (8 * n) v"
proof (rule bit_word_eqI)
  fix k assume n: "n \<le> 8" and k: "k < LENGTH(64)"
  have lt: "k div 8 < n \<longleftrightarrow> k < 8 * n" using block8 [of k "k div 8"] by linarith
  have "bit (le_bytes v n ! (k div 8)) (k mod 8) = bit v k" if "k div 8 < n"
  proof -
    have "le_bytes v n ! (k div 8) = ucast (drop_bit (8 * (k div 8)) v)"
      using that by (simp add: le_bytes_def byte_of)
    then show ?thesis by (simp add: bit_ucast_iff bit_drop_bit_eq)
  qed
  then show "bit (le_value 0 (le_bytes v n)) k = bit (take_bit (8 * n) v) k"
    using k lt by (auto simp: bit_le_value bit_take_bit_iff le_bytes_def)
qed


section \<open>Reading what was written\<close>

abbreviation kMemReadWrite :: u32 where "kMemReadWrite \<equiv> kMemRead OR kMemWrite"

lemma perm_parts: "p AND (a OR b) = a OR b \<Longrightarrow> p AND a = a \<and> p AND b = b" for p :: u32
  by (auto simp: bit_eq_iff bit_simps)

lemma probe_parts: "probe me va n kMemReadWrite \<Longrightarrow> probe me va n kMemRead \<and> probe me va n kMemWrite"
  by (auto simp: probe_def dest: perm_parts split: option.splits if_split_asm)

lemma probe_map: "probe me va n perm \<Longrightarrow> \<exists>m. find_map me va = Some m"
  by (auto simp: probe_def split: option.splits)

text \<open>Room for \<open>n\<close> bytes at an address: one map with both permissions, and an overlay not full.\<close>

definition has_room :: "memory \<Rightarrow> u64 \<Rightarrow> nat \<Rightarrow> bool" where
  "has_room me va n \<longleftrightarrow> 0 < n \<and> n < 2 ^ 64 \<and> probe me va n kMemReadWrite \<and>
     length (me_overlay me) + n \<le> me_overlay_cap me"

lemma unat_offset: "i < n \<Longrightarrow> n < 2 ^ 64 \<Longrightarrow> unat (va + of_nat i - va :: u64) = i"
  by (simp add: unat_of_nat)

lemma written_overlay:
  "has_room me va (length bs) \<Longrightarrow> map_of (me_overlay (mem_write me va bs)) x =
     (if unat (x - va) < length bs then Some (bs ! unat (x - va)) else map_of (me_overlay me) x)"
  using probe_parts [of me va "length bs"] write_loop_stores [of "me_overlay me" bs "me_overlay_cap me" va x]
  by (auto simp: has_room_def mem_write_def)

lemma read_written:
  assumes room: "has_room me va (length bs)"
  shows "mem_read_bytes (mem_write me va bs) va (length bs) = bs"
proof -
  let ?me = "mem_write me va bs"
  from room have pr: "probe me va (length bs) kMemRead" and n: "0 < length bs" "length bs < 2 ^ 64"
    using probe_parts [of me va "length bs"] by (auto simp: has_room_def)
  have pr': "probe ?me va (length bs) kMemRead"
    using pr by (simp add: probe_space [of me ?me])
  then obtain m where m: "find_map ?me va = Some m" using probe_map by blast
  have "byte_at_map ?me m (va + of_nat i) = bs ! i" if "i < length bs" for i
    using written_overlay [OF room, of "va + of_nat i"] unat_offset [OF that n(2), of va] that
    by (simp add: byte_at_map_def)
  then have "map (\<lambda>i. byte_at_map ?me m (va + of_nat i)) [0..<length bs] = bs"
    by (intro nth_equalityI) simp_all
  then show ?thesis using n pr' m by (simp add: mem_read_bytes_def)
qed

lemma read_elsewhere:
  assumes room: "has_room me va (length bs)"
    and apart: "\<And>i. i < k \<Longrightarrow> length bs \<le> unat (a + of_nat i - va)"
  shows "mem_read_bytes (mem_write me va bs) a k = mem_read_bytes me a k"
proof -
  let ?me = "mem_write me va bs"
  have f: "find_map ?me a = find_map me a" "probe ?me a k kMemRead = probe me a k kMemRead"
    by (simp_all add: find_map_space [of me ?me] probe_space [of me ?me])
  have "byte_at_map ?me m (a + of_nat i) = byte_at_map me m (a + of_nat i)" if "i < k" for i m
    using written_overlay [OF room, of "a + of_nat i"] apart [OF that] by (simp add: byte_at_map_def)
  then show ?thesis by (auto simp: mem_read_bytes_def f split: option.splits)
qed

lemma length_le_bytes [simp]: "length (le_bytes v n) = n"
  by (simp add: le_bytes_def)

lemma value_written:
  assumes "has_room me va n" and "n \<le> 8"
  shows "\<exists>me'. write_value me va v n = Some me' \<and> read_value me' va n = take_bit (8 * n) v"
  using assms read_written [of me va "le_bytes v n"]
  by (simp add: write_value_def read_value_def le_value_bytes)

section \<open>Probing\<close>

definition in_map :: "memory_map \<Rightarrow> u64 \<Rightarrow> bool" where
  "in_map m va \<longleftrightarrow> mm_base m \<le> va \<and> va < mm_base m + mm_size m"

lemma find_map_in: "find_map me va = Some m \<Longrightarrow> m \<in> set (me_maps me) \<and> in_map m va"
  by (auto simp: find_map_def in_map_def find_Some_iff)

lemma probe_in_map:
  assumes "probe me va n perm" and no_wrap: "unat va + n < 2 ^ 64" and "i < n"
  shows "\<exists>m. find_map me va = Some m \<and> in_map m (va + of_nat i) \<and> mm_perms m AND perm = perm"
proof -
  obtain m where m: "find_map me va = Some m" and p: "mm_perms m AND perm = perm"
    and e: "va + of_nat n \<le> mm_base m + mm_size m"
    using assms(1) by (auto simp: probe_def split: option.splits if_split_asm)
  have u: "unat (va + of_nat k) = unat va + k" if "k \<le> n" for k
    using no_wrap that by (simp add: unat_word_ariths unat_of_nat)
  have "mm_base m \<le> va" using find_map_in [OF m] by (simp add: in_map_def)
  then have "mm_base m \<le> va + of_nat i" using u [of i] assms(3) by (simp add: word_le_nat_alt)
  moreover have "va + of_nat i < va + of_nat n" using u [of i] u [of n] assms(3) by (simp add: word_less_nat_alt)
  ultimately show ?thesis using m p e by (auto simp: in_map_def)
qed

section \<open>Properties\<close>

text \<open>
  a write that fits is read back: when the range lies in a readable and writable map and
  the overlay has room, reading the range gives the bytes written, and reading any range that
  shares no address with it gives what it gave before.
\<close>

theorem write_then_read:
  assumes "has_room me va (length bs)"
    and "\<forall>i<k. length bs \<le> unat (a + of_nat i - va)"
  shows "mem_read_bytes (mem_write me va bs) va (length bs) = bs \<and>
    mem_read_bytes (mem_write me va bs) a k = mem_read_bytes me a k"
  using read_written [OF assms(1)] read_elsewhere [OF assms(1)] assms(2) by blast

definition small_memory :: memory where
  "small_memory = init_stack (add_map (memory_new 64) 0x1000 kMemRead [1, 2, 3, 4]) kStackBase"

lemmas small_memory_defs = small_memory_def init_stack_def add_map_def memory_new_def

lemma small_memory_room: "has_room small_memory 0xBFB00010 8"
  by (simp add: has_room_def small_memory_defs probe_def find_map_def kStackBase_def kStackSize_def
      kMemRead_def kMemWrite_def)

theorem write_then_read_witness:
  "mem_read_bytes (mem_write small_memory 0xBFB00010 [7, 8, 9, 10, 11, 12, 13, 14]) 0x1000 4 = [1, 2, 3, 4]"
proof -
  have k: "{..<4} = {0, 1, 2, 3 :: nat}" by auto
  have "\<forall>i\<in>{..<4}. length [7 :: u8, 8, 9, 10, 11, 12, 13, 14] \<le> unat (0x1000 + of_nat i - 0xBFB00010 :: u64)"
    unfolding k by simp
  then have a: "\<forall>i<4. length [7 :: u8, 8, 9, 10, 11, 12, 13, 14] \<le> unat (0x1000 + of_nat i - 0xBFB00010 :: u64)"
    by simp
  have r: "has_room small_memory 0xBFB00010 (length [7 :: u8, 8, 9, 10, 11, 12, 13, 14])"
  proof -
    have "length [7 :: u8, 8, 9, 10, 11, 12, 13, 14] = 8" by simp
    with small_memory_room show ?thesis by (simp only:)
  qed
  have "mem_read_bytes small_memory 0x1000 4 = [1, 2, 3, 4]" by code_simp
  with write_then_read [OF r a] show ?thesis by simp
qed

text \<open>
  A number of up to eight bytes written to a place with room is read back modulo its width.
\<close>

theorem value_roundtrip:
  assumes "has_room me va n" and "n \<le> 8"
  shows "\<exists>me'. write_value me va v n = Some me' \<and> same_space me me' \<and>
    read_value me' va n = v AND u_max n"
proof -
  obtain me' where "write_value me va v n = Some me'" and "read_value me' va n = take_bit (8 * n) v"
    using value_written [OF assms] by blast
  with assms(2) show ?thesis
    using write_value_space by (auto simp: u_max_mask take_bit_eq_mask)
qed

theorem value_roundtrip_witness:
  "\<exists>me. write_value small_memory 0xBFB00010 0x123456789 8 = Some me \<and> read_value me 0xBFB00010 8 = 0x123456789"
  using value_roundtrip [OF small_memory_room, of "0x123456789"] by (auto simp: u_max_def)

text \<open>
  Whatever is written, in whatever order, the overlay stays within its cap with one entry
  per address, the maps are never altered, and restoring the snapshot taken before gives the
  memory as it was.
\<close>

theorem writes_bounded:
  assumes "mem_ok me"
  shows "mem_ok (fold (\<lambda>(va, bs) me. mem_write me va bs) ws me) \<and>
    me_maps (fold (\<lambda>(va, bs) me. mem_write me va bs) ws me) = me_maps me \<and>
    mem_restore (fold (\<lambda>(va, bs) me. mem_write me va bs) ws me) (mem_snapshot me) = me"
proof -
  have "mem_ok me \<Longrightarrow> mem_ok (fold (\<lambda>(va, bs) me. mem_write me va bs) ws me) \<and>
    same_space me (fold (\<lambda>(va, bs) me. mem_write me va bs) ws me)" for me
    by (induction ws arbitrary: me)
      (auto intro: mem_write_ok same_space_trans [OF mem_write_space])
  with assms show ?thesis
    using mems.restore_snap by (auto simp: same_space_def)
qed


theorem writes_bounded_witness:
  "mem_restore (mem_write small_memory 0xBFB00010 [7]) (mem_snapshot small_memory) = small_memory"
  using writes_bounded [of small_memory "[(0xBFB00010, [7])]"]
  by (simp add: mem_ok_def small_memory_defs)

section \<open>Taint values are recovered\<close>

text \<open>The page of a taint value: the bits the mask keeps.\<close>

definition taint_page :: "u64 \<Rightarrow> nat" where
  "taint_page va = unat va div 2 ^ 13 mod 2 ^ 19"

lemma masked_page: "a AND kTaintMask = push_bit 13 (of_nat (taint_page a))"
proof -
  have m: "kTaintMask = push_bit 13 (mask 19)"
    by (simp add: kTaintMask_def mask_eq_exp_minus_1)
  have u: "unat (take_bit 19 (drop_bit 13 a)) = taint_page a"
    by (simp only: taint_page_def unsigned_take_bit_eq unat_drop) (simp only: take_bit_eq_mod)
  have "of_nat (taint_page a) = take_bit 19 (drop_bit 13 a)"
    unfolding u [symmetric] of_nat_unat by simp
  then show ?thesis by (auto simp: m bit_eq_iff bit_simps)
qed


lemma masked_eq: "a AND kTaintMask = b AND kTaintMask \<longleftrightarrow> taint_page a = taint_page b"
proof
  assume e: "a AND kTaintMask = b AND kTaintMask"
  have p: "unat (push_bit 13 (of_nat (taint_page x)) :: u64) = taint_page x * 2 ^ 13" for x
  proof -
    have "taint_page x < 2 ^ 19" by (simp add: taint_page_def)
    then show ?thesis by (simp add: push_bit_eq_mult unat_word_ariths unat_of_nat)
  qed
  from e have "taint_page a * 2 ^ 13 = taint_page b * 2 ^ 13"
    unfolding masked_page p [symmetric] by simp
  then show "taint_page a = taint_page b" by simp
qed (simp add: masked_page)

lemma div_step: "0 < m \<Longrightarrow> (x + m) mod (m * n) div m = Suc (x div m) mod n" for m n x :: nat
  by (simp add: mod_mult2_eq div_add_self2)

lemma mod_shift_ne: "p < n \<Longrightarrow> 0 < s \<Longrightarrow> s < n \<Longrightarrow> (p + s) mod n \<noteq> p" for p s n :: nat
  by (cases "p + s < n") (auto simp: le_mod_geq not_less)

lemma page_step: "taint_page (x + 0x2000) = Suc (taint_page x) mod 2 ^ 19"
proof -
  have "unat (x + 0x2000) div 2 ^ 13 = Suc (unat x div 2 ^ 13) mod 2 ^ 51"
  proof -
    have "unat (x + 0x2000) = (unat x + 2 ^ 13) mod (2 ^ 51 * 2 ^ 13)"
      by (simp add: unat_word_ariths)
    then have "unat (x + 0x2000) div 2 ^ 13 = (unat x + 2 ^ 13) mod (2 ^ 13 * 2 ^ 51) div 2 ^ 13"
      by (simp only: mult.commute)
    then show ?thesis using div_step [of "2 ^ 13" "unat x" "2 ^ 51"] by (simp only:) simp
  qed
  then have "taint_page (x + 0x2000) = Suc (unat x div 2 ^ 13) mod 2 ^ 51 mod 2 ^ 19"
    by (simp only: taint_page_def)
  also have "\<dots> = Suc (unat x div 2 ^ 13) mod 2 ^ 19"
    by (rule mod_mod_cancel) (simp add: le_imp_power_dvd)
  finally show ?thesis by (simp add: taint_page_def mod_Suc_eq)
qed

fun allocate_all :: "taint_registry \<Rightarrow> (taint_type \<times> u64) list \<Rightarrow> u64 list \<times> taint_registry" where
  "allocate_all tr [] = ([], tr)"
| "allocate_all tr ((ty, info) # qs) =
     (case taint_allocate tr ty info of (va, tr1) \<Rightarrow>
        case allocate_all tr1 qs of (vas, tr2) \<Rightarrow> (va # vas, tr2))"

lemma lookup_other:
  "\<forall>k<length qs. taint_page va \<noteq> (taint_page (tr_counter tr + 0x1000) + k) mod 2 ^ 19 \<Longrightarrow>
   taint_lookup (snd (allocate_all tr qs)) va = taint_lookup tr va"
proof (induction tr qs rule: allocate_all.induct)
  case (2 tr ty info qs)
  let ?tr = "snd (taint_allocate tr ty info)"
  have c: "tr_counter ?tr + 0x1000 = tr_counter tr + 0x1000 + 0x2000"
    by (simp add: taint_allocate_def Let_def)
  have p: "(taint_page (tr_counter ?tr + 0x1000) + k) mod 2 ^ 19
      = (taint_page (tr_counter tr + 0x1000) + Suc k) mod 2 ^ 19" for k
    unfolding c page_step by (simp add: mod_simps)
  have "taint_page va \<noteq> taint_page (tr_counter tr + 0x1000)"
    using "2.prems" [rule_format, of 0] by (simp add: taint_page_def)
  then have "taint_lookup ?tr va = taint_lookup tr va"
    by (simp add: taint_lookup_def taint_allocate_def Let_def masked_eq)
  moreover have "taint_lookup (snd (allocate_all ?tr qs)) va = taint_lookup ?tr va"
  proof (intro "2.IH" [OF prod.collapse] allI impI)
    fix k assume "k < length qs"
    then show "taint_page va \<noteq> (taint_page (tr_counter ?tr + 0x1000) + k) mod 2 ^ 19"
      unfolding p using "2.prems" [rule_format, of "Suc k"] by simp
  qed
  ultimately show ?case by (simp add: case_prod_beta)
qed simp

lemma allocated_recovered:
  "length qs \<le> 2 ^ 19 \<Longrightarrow> k < length qs \<Longrightarrow>
   taint_lookup (snd (allocate_all tr qs)) (fst (allocate_all tr qs) ! k) =
     Some \<lparr>ti_va = fst (allocate_all tr qs) ! k, ti_type = fst (qs ! k), ti_info = snd (qs ! k)\<rparr>"
proof (induction tr qs arbitrary: k rule: allocate_all.induct)
  case (2 tr ty info qs)
  let ?va = "fst (taint_allocate tr ty info)" and ?tr = "snd (taint_allocate tr ty info)"
  show ?case
  proof (cases k)
    case 0
    have va: "?va = tr_counter tr + 0x1000" and c: "tr_counter ?tr + 0x1000 = ?va + 0x2000"
      by (simp_all add: taint_allocate_def Let_def)
    have "taint_page ?va \<noteq> (taint_page (tr_counter ?tr + 0x1000) + j) mod 2 ^ 19" if "j < length qs" for j
    proof
      assume "taint_page ?va = (taint_page (tr_counter ?tr + 0x1000) + j) mod 2 ^ 19"
      then have e: "taint_page ?va = (taint_page ?va + Suc j) mod 2 ^ 19"
        unfolding c page_step by (simp add: mod_simps)
      have "taint_page ?va < 2 ^ 19" by (simp add: taint_page_def)
      moreover have "Suc j < 2 ^ 19" using that "2.prems"(1) by simp
      ultimately show False using e mod_shift_ne [of "taint_page ?va" "2 ^ 19" "Suc j"] by simp
    qed
    then have "taint_lookup (snd (allocate_all ?tr qs)) ?va = taint_lookup ?tr ?va"
      by (intro lookup_other) blast
    also have "\<dots> = Some \<lparr>ti_va = ?va, ti_type = ty, ti_info = info\<rparr>"
      by (simp add: taint_lookup_def taint_allocate_def Let_def)
    finally show ?thesis using 0 by (simp add: case_prod_beta)
  next
    case (Suc j)
    then show ?thesis
      using "2.IH" [OF prod.collapse, of j] "2.prems" by (simp add: case_prod_beta)
  qed
qed simp

text \<open>
  A taint value leads back to its record: as long as no more than \<open>2 ^ 19\<close> values are
  drawn from a registry, looking up any of them gives the kind and datum it was drawn with,
  so no later allocation takes the place of an earlier one.
\<close>

theorem taints_recovered:
  assumes "allocate_all tr qs = (vas, tr')" and "length qs \<le> 2 ^ 19" and "k < length qs"
  shows "taint_lookup tr' (vas ! k) =
    Some \<lparr>ti_va = vas ! k, ti_type = fst (qs ! k), ti_info = snd (qs ! k)\<rparr>"
  using allocated_recovered [OF assms(2,3), of tr] by (simp add: assms(1))

theorem taints_recovered_witness:
  "taint_lookup (snd (allocate_all taint_registry_new [(kUninitReg, 3), (kApiCall, 9)])) 0x4156100F =
     Some \<lparr>ti_va = 0x4156100F, ti_type = kUninitReg, ti_info = 3\<rparr>"
  using taints_recovered [where tr = taint_registry_new and qs = "[(kUninitReg, 3), (kApiCall, 9)]"
      and k = 0, OF surjective_pairing]
  by (simp add: taint_allocate_def taint_registry_new_def Let_def)

end
