(* ===== verification/Emu_Operands.thy ===== *)
theory Emu_Operands
  imports Emu_Memory "HOL-Library.Monad_Syntax"
begin

text \<open>
  The operand layer of the emulator (intel_emulator.h, the first half of intel_emulator.cpp)
  over the decoded instructions of disassembler.h: register names, addresses and values of
  operands, the stack, and the successors of an instruction.  The decoder itself is Zydis, a
  third-party library; its register and mnemonic enumerations appear as far as the code names
  their members.  \<^const>\<open>None\<close> is undefined behaviour of the language.
\<close>

section \<open>Decoded instructions\<close>

text \<open>
  The enumerations, by families: \<open>ZR_32 RAX\<close> is \<open>ZYDIS_REGISTER_EAX\<close>, \<open>ZR_8H RBX\<close> is
  \<open>ZYDIS_REGISTER_BH\<close>, \<open>ZM_J CC_Z\<close> is \<open>ZYDIS_MNEMONIC_JZ\<close>.  A member the code never names is
  one of the \<open>OTHER\<close> constructors.  Names that Isabelle reserves or that read as logic are
  changed: \<open>LAND\<close>, \<open>LOR\<close>, \<open>LXOR\<close>, \<open>LNOT\<close> for AND, OR, XOR, NOT, and \<open>INTR\<close> for INT.
\<close>

datatype gpr =
    RAX | RCX | RDX | RBX | RSP | RBP | RSI | RDI | R8 | R9 | R10 | R11 | R12 | R13 | R14 | R15

datatype zydis_register =
    ZR_NONE | ZR_64 gpr | ZR_32 gpr | ZR_16 gpr | ZR_8 gpr | ZR_8H gpr | ZR_RIP | ZR_EIP
  | ZR_XMM nat | ZR_OTHER nat

datatype condition_code =
    CC_B | CC_NB | CC_BE | CC_NBE | CC_Z | CC_NZ | CC_L | CC_NL
  | CC_LE | CC_NLE | CC_O | CC_NO | CC_S | CC_NS | CC_P | CC_NP

datatype data_mnemonic =
    MOV | MOVZX | MOVSX | MOVSXD | LEA | PUSH | POP | XCHG | XADD | CMPXCHG
  | CDQ | CWD | CBW | CWDE | CDQE | CQO | NOP

datatype arith_mnemonic =
    ADD | ADC | SUB | SBB | CMP | INC | DEC | NEG | LAND | TEST | LOR | LXOR | LNOT
  | MUL | IMUL | DIV | IDIV

datatype shift_mnemonic = SHL | SHR | SAR | ROL | ROR | BT | BTS | BTR | BTC

datatype flow_mnemonic =
    CALL | JMP | RET | LEAVE | JCXZ | JECXZ | HLT | INTR | INT1 | INT3 | UD0 | UD1 | UD2 | IN | OUT

datatype simd_mnemonic =
    MOVUPS | MOVUPD | MOVAPS | MOVAPD | MOVDQU | MOVDQA | LDDQU | MOVQ | MOVD | MOVSS | MOVSD
  | XORPS | XORPD | PXOR | PSRLDQ | PSLLDQ

datatype zydis_mnemonic =
    ZM_Data data_mnemonic | ZM_Arith arith_mnemonic | ZM_Shift shift_mnemonic
  | ZM_Flow flow_mnemonic | ZM_Simd simd_mnemonic
  | ZM_J condition_code | ZM_SET condition_code | ZM_CMOV condition_code | ZM_OTHER nat

datatype operand_kind =
    kImm | kImmMem | kPcRel | kRipRel | kReg | kRegMem | kSib | kUnknown

record decoded_operand =
  do_kind :: operand_kind
  do_base_reg :: zydis_register
  do_index_reg :: zydis_register
  do_scale :: u8
  do_disp :: i64
  do_imm :: u64
  do_width_bytes :: nat
  do_sib_encoded :: bool

record decoded_insn =
  di_va :: u64
  di_length :: nat
  di_zyd_mnem :: zydis_mnemonic
  di_mnemonic_str :: string
  di_operands :: "decoded_operand list"
  di_operand_count :: nat
  di_has_prefix_fs :: bool
  di_has_prefix_gs :: bool
  di_is_call :: bool
  di_is_jump :: bool
  di_is_conditional :: bool
  di_is_return :: bool
  di_branch_target :: "u64 option"
  di_is_fallthrough :: bool

definition default_operand :: decoded_operand where
  "default_operand = \<lparr>do_kind = kUnknown, do_base_reg = ZR_NONE, do_index_reg = ZR_NONE,
     do_scale = 0, do_disp = 0, do_imm = 0, do_width_bytes = 0,
     do_sib_encoded = False\<rparr>"

text \<open>The array of operands has five elements, the unused ones as they were initialised.\<close>

definition operand :: "decoded_insn \<Rightarrow> nat \<Rightarrow> decoded_operand" where
  "operand insn k = (if k < length (di_operands insn) then di_operands insn ! k else default_operand)"

abbreviation width_of :: "decoded_insn \<Rightarrow> nat \<Rightarrow> nat" where
  "width_of insn k \<equiv> do_width_bytes (operand insn k)"

definition next_va :: "decoded_insn \<Rightarrow> u64" where
  "next_va insn = di_va insn + of_nat (di_length insn)"

section \<open>Registers by name\<close>

definition gpr_slot :: "gpr \<Rightarrow> u32" where
  "gpr_slot g = (case g of
       RAX \<Rightarrow> kRegRax | RCX \<Rightarrow> kRegRcx | RDX \<Rightarrow> kRegRdx | RBX \<Rightarrow> kRegRbx
     | RSP \<Rightarrow> kRegRsp | RBP \<Rightarrow> kRegRbp | RSI \<Rightarrow> kRegRsi | RDI \<Rightarrow> kRegRdi
     | R8 \<Rightarrow> kRegR8 | R9 \<Rightarrow> kRegR9 | R10 \<Rightarrow> kRegR10 | R11 \<Rightarrow> kRegR11
     | R12 \<Rightarrow> kRegR12 | R13 \<Rightarrow> kRegR13 | R14 \<Rightarrow> kRegR14 | R15 \<Rightarrow> kRegR15)"

definition has_high_byte :: "gpr \<Rightarrow> bool" where
  "has_high_byte g \<longleftrightarrow> g = RAX \<or> g = RCX \<or> g = RDX \<or> g = RBX"

definition in_i386 :: "gpr \<Rightarrow> bool" where
  "in_i386 g \<longleftrightarrow> has_high_byte g \<or> g = RSP \<or> g = RBP \<or> g = RSI \<or> g = RDI"

definition reg_index_amd64 :: "zydis_register \<Rightarrow> u32 option" where
  "reg_index_amd64 reg =
     (case reg of
        ZR_64 g \<Rightarrow> Some (gpr_slot g)
      | ZR_RIP \<Rightarrow> Some kRegRip
      | ZR_32 g \<Rightarrow> Some (make_meta_reg 0 32 (gpr_slot g))
      | ZR_EIP \<Rightarrow> Some (make_meta_reg 0 32 kRegRip)
      | ZR_16 g \<Rightarrow> Some (make_meta_reg 0 16 (gpr_slot g))
      | ZR_8 g \<Rightarrow> Some (make_meta_reg 0 8 (gpr_slot g))
      | ZR_8H g \<Rightarrow> if has_high_byte g then Some (make_meta_reg 8 8 (gpr_slot g)) else None
      | _ \<Rightarrow> None)"

definition reg_index_i386 :: "zydis_register \<Rightarrow> u32 option" where
  "reg_index_i386 reg =
     (case reg of
        ZR_32 g \<Rightarrow> if in_i386 g then Some (gpr_slot g) else None
      | ZR_EIP \<Rightarrow> Some kRegEip
      | ZR_16 g \<Rightarrow> if in_i386 g then Some (make_meta_reg 0 16 (gpr_slot g)) else None
      | ZR_8 g \<Rightarrow> if has_high_byte g then Some (make_meta_reg 0 8 (gpr_slot g)) else None
      | ZR_8H g \<Rightarrow> if has_high_byte g then Some (make_meta_reg 8 8 (gpr_slot g)) else None
      | _ \<Rightarrow> None)"

definition reg_index_from_zydis :: "zydis_register \<Rightarrow> bool \<Rightarrow> u32 option" where
  "reg_index_from_zydis reg is_64bit = (if is_64bit then reg_index_amd64 reg else reg_index_i386 reg)"

section \<open>The emulator\<close>

record emulator =
  em_regs :: register_file
  em_mem :: memory
  em_is_64bit :: bool

definition emulator_new :: "bool \<Rightarrow> emulator" where
  "emulator_new is_64bit = \<lparr>em_regs = register_file_new is_64bit,
     em_mem = memory_new kDefaultOverlayCap, em_is_64bit = is_64bit\<rparr>"

definition pc_index :: "emulator \<Rightarrow> u32" where
  "pc_index em = (if em_is_64bit em then kRegRip else kRegEip)"

definition ptr_size :: "emulator \<Rightarrow> nat" where
  "ptr_size em = (if em_is_64bit em then 8 else 4)"

definition addr_mask :: "emulator \<Rightarrow> u64" where
  "addr_mask em = (if em_is_64bit em then 0xFFFFFFFFFFFFFFFF else 0xFFFFFFFF)"

definition set_reg :: "emulator \<Rightarrow> u32 \<Rightarrow> u64 \<Rightarrow> emulator option" where
  "set_reg em i v = map_option (\<lambda>rf. em\<lparr>em_regs := rf\<rparr>) (set_register (em_regs em) i v)"

abbreviation get_reg :: "emulator \<Rightarrow> u32 \<Rightarrow> u64 option" where
  "get_reg em i \<equiv> get_register (em_regs em) i"

definition put_flag :: "u32 \<Rightarrow> bool \<Rightarrow> emulator \<Rightarrow> emulator" where
  "put_flag f b em = em\<lparr>em_regs := set_flag (em_regs em) f b\<rparr>"

definition program_counter :: "emulator \<Rightarrow> u64 option" where
  "program_counter em = get_reg em (pc_index em)"

definition set_program_counter :: "emulator \<Rightarrow> u64 \<Rightarrow> emulator option" where
  "set_program_counter em va = set_reg em (pc_index em) va"

definition register_value :: "emulator \<Rightarrow> zydis_register \<Rightarrow> u64 option" where
  "register_value em reg =
     (case reg_index_from_zydis reg (em_is_64bit em) of
        None \<Rightarrow> Some 0
      | Some i \<Rightarrow> get_reg em i)"

section \<open>Operands\<close>

definition get_oper_addr :: "emulator \<Rightarrow> decoded_insn \<Rightarrow> nat \<Rightarrow> u64 option" where
  "get_oper_addr em insn k =
     (let opr = operand insn k in
      case do_kind opr of
        kRegMem \<Rightarrow> do {
          b \<leftarrow> register_value em (do_base_reg opr);
          Some ((b + do_disp opr) AND addr_mask em)
        }
      | kImmMem \<Rightarrow> Some (do_imm opr AND addr_mask em)
      | kSib \<Rightarrow> do {
          b \<leftarrow> (if do_base_reg opr \<noteq> ZR_NONE then register_value em (do_base_reg opr) else Some 0);
          x \<leftarrow> (if do_index_reg opr \<noteq> ZR_NONE then register_value em (do_index_reg opr) else Some 0);
          Some ((b + x * ucast (do_scale opr) + do_disp opr) AND addr_mask em)
        }
      | kRipRel \<Rightarrow> Some ((next_va insn + do_disp opr) AND addr_mask em)
      | _ \<Rightarrow> Some 0)"

definition get_oper_value :: "emulator \<Rightarrow> decoded_insn \<Rightarrow> nat \<Rightarrow> u64 option" where
  "get_oper_value em insn k =
     (let opr = operand insn k;
          mem_value = do {
            a \<leftarrow> get_oper_addr em insn k;
            Some (read_value (em_mem em) a (do_width_bytes opr))
          } in
      case do_kind opr of
        kReg \<Rightarrow> register_value em (do_base_reg opr)
      | kImm \<Rightarrow> Some (do_imm opr)
      | kPcRel \<Rightarrow>
          (case di_branch_target insn of
             Some t \<Rightarrow> Some t
           | None \<Rightarrow> Some ((next_va insn + do_imm opr) AND addr_mask em))
      | kRegMem \<Rightarrow> mem_value
      | kImmMem \<Rightarrow> mem_value
      | kSib \<Rightarrow> mem_value
      | kRipRel \<Rightarrow> mem_value
      | _ \<Rightarrow> Some 0)"

definition set_oper_value :: "emulator \<Rightarrow> decoded_insn \<Rightarrow> nat \<Rightarrow> u64 \<Rightarrow> emulator option" where
  "set_oper_value em insn k v =
     (let opr = operand insn k;
          mem_store = do {
            a \<leftarrow> get_oper_addr em insn k;
            me \<leftarrow> write_value (em_mem em) a v (do_width_bytes opr);
            Some (em\<lparr>em_mem := me\<rparr>)
          } in
      case do_kind opr of
        kReg \<Rightarrow>
          (case reg_index_from_zydis (do_base_reg opr) (em_is_64bit em) of
             None \<Rightarrow> Some em
           | Some i \<Rightarrow> set_reg em i v)
      | kRegMem \<Rightarrow> mem_store
      | kImmMem \<Rightarrow> mem_store
      | kSib \<Rightarrow> mem_store
      | kRipRel \<Rightarrow> mem_store
      | _ \<Rightarrow> Some em)"

section \<open>Vector operands\<close>

fun xmm_index :: "zydis_register \<Rightarrow> u32 option" where
  "xmm_index (ZR_XMM n) = (if n \<le> 15 then Some (of_nat n) else None)"
| "xmm_index _ = None"

text \<open>\<open>gpr_bytes n i v\<close> are the bytes \<open>i, i + 1, \<dots>\<close> of a value, \<open>n\<close> of them.\<close>

fun gpr_bytes :: "nat \<Rightarrow> nat \<Rightarrow> u64 \<Rightarrow> u8 list option" where
  "gpr_bytes 0 i v = Some []"
| "gpr_bytes (Suc n) i v = do {
     b \<leftarrow> shr64 v (of_nat (8 * i));
     bs \<leftarrow> gpr_bytes n (Suc i) v;
     Some (ucast (b AND 0xFF) # bs)
   }"

definition pad16 :: "u8 list \<Rightarrow> xmm" where
  "pad16 bs = take 16 bs @ replicate (16 - length bs) 0"

definition read_simd_oper :: "emulator \<Rightarrow> decoded_insn \<Rightarrow> nat \<Rightarrow> nat \<Rightarrow> xmm option" where
  "read_simd_oper em insn k width =
     (let opr = operand insn k in
      if do_kind opr = kReg then
        (case xmm_index (do_base_reg opr) of
           Some x \<Rightarrow> Some (get_xmm (em_regs em) x)
         | None \<Rightarrow> do {
             v \<leftarrow> register_value em (do_base_reg opr);
             bs \<leftarrow> gpr_bytes (min width 16) 0 v;
             Some (pad16 bs)
           })
      else do {
        a \<leftarrow> get_oper_addr em insn k;
        Some (pad16 (mem_read_bytes (em_mem em) a width))
      })"

definition write_simd_oper ::
    "emulator \<Rightarrow> decoded_insn \<Rightarrow> nat \<Rightarrow> xmm \<Rightarrow> nat \<Rightarrow> emulator option" where
  "write_simd_oper em insn k value width =
     (let opr = operand insn k in
      if do_kind opr = kReg then
        (case xmm_index (do_base_reg opr) of
           Some x \<Rightarrow> Some (em\<lparr>em_regs := set_xmm (em_regs em) x (pad16 (take width value))\<rparr>)
         | None \<Rightarrow>
             (case reg_index_from_zydis (do_base_reg opr) (em_is_64bit em) of
                Some i \<Rightarrow> set_reg em i (le_value 0 (take (min width 8) value))
              | None \<Rightarrow> Some em))
      else do {
        a \<leftarrow> get_oper_addr em insn k;
        Some (em\<lparr>em_mem := mem_write (em_mem em) a
          (take width value @ replicate (width - length value) 0)\<rparr>)
      })"

section \<open>The stack\<close>

definition do_push :: "emulator \<Rightarrow> u64 \<Rightarrow> nat \<Rightarrow> emulator option" where
  "do_push em value n = do {
     esp \<leftarrow> get_reg em kRegEsp;
     me \<leftarrow> write_value (em_mem em) (esp - of_nat n) value n;
     set_reg (em\<lparr>em_mem := me\<rparr>) kRegEsp (esp - of_nat n)
   }"

definition do_pop :: "emulator \<Rightarrow> nat \<Rightarrow> (u64 \<times> emulator) option" where
  "do_pop em n = do {
     esp \<leftarrow> get_reg em kRegEsp;
     em' \<leftarrow> set_reg em kRegEsp (esp + of_nat n);
     Some (read_value (em_mem em) esp n, em')
   }"

section \<open>Conditions\<close>

definition condition_holds :: "emulator \<Rightarrow> condition_code \<Rightarrow> bool" where
  "condition_holds em cc =
     (let cf = get_flag (em_regs em) kEflagsCf; zf = get_flag (em_regs em) kEflagsZf;
          sf = get_flag (em_regs em) kEflagsSf; ovf = get_flag (em_regs em) kEflagsOf;
          pf = get_flag (em_regs em) kEflagsPf in
      case cc of
        CC_B \<Rightarrow> cf | CC_NB \<Rightarrow> \<not> cf | CC_BE \<Rightarrow> cf \<or> zf | CC_NBE \<Rightarrow> \<not> cf \<and> \<not> zf
      | CC_Z \<Rightarrow> zf | CC_NZ \<Rightarrow> \<not> zf
      | CC_L \<Rightarrow> sf \<noteq> ovf | CC_NL \<Rightarrow> sf = ovf | CC_LE \<Rightarrow> sf \<noteq> ovf \<or> zf | CC_NLE \<Rightarrow> \<not> zf \<and> sf = ovf
      | CC_O \<Rightarrow> ovf | CC_NO \<Rightarrow> \<not> ovf | CC_S \<Rightarrow> sf | CC_NS \<Rightarrow> \<not> sf | CC_P \<Rightarrow> pf | CC_NP \<Rightarrow> \<not> pf)"

definition condition_met :: "emulator \<Rightarrow> zydis_mnemonic \<Rightarrow> bool option" where
  "condition_met em mnem =
     (case mnem of
        ZM_J cc \<Rightarrow> Some (condition_holds em cc)
      | ZM_SET cc \<Rightarrow> Some (condition_holds em cc)
      | ZM_CMOV cc \<Rightarrow> Some (condition_holds em cc)
      | ZM_Flow JCXZ \<Rightarrow> map_option (\<lambda>v. v = 0) (get_reg em kRegCx)
      | ZM_Flow JECXZ \<Rightarrow> map_option (\<lambda>v. v = 0) (get_reg em kRegEcx)
      | _ \<Rightarrow> Some False)"

section \<open>Successors\<close>

definition kBrProc :: u32 where "kBrProc = 0x1"
definition kBrCond :: u32 where "kBrCond = 0x2"
definition kBrDeref :: u32 where "kBrDeref = 0x4"
definition kBrTable :: u32 where "kBrTable = 0x8"
definition kBrFall :: u32 where "kBrFall = 0x10"
definition kMaxJumpTableEntries :: nat where "kMaxJumpTableEntries = 4096"

record branch =
  br_va :: u64
  br_flags :: u32

definition is_deref_kind :: "operand_kind \<Rightarrow> bool" where
  "is_deref_kind kind \<longleftrightarrow> kind = kRegMem \<or> kind = kImmMem \<or> kind = kSib \<or> kind = kRipRel"

text \<open>\<open>left\<close> counts down from \<open>kMaxJumpTableEntries\<close>; it is \<open>kMaxJumpTableEntries - walked\<close>.\<close>

fun walk_table :: "nat \<Rightarrow> memory \<Rightarrow> nat \<Rightarrow> u64 \<Rightarrow> branch list" where
  "walk_table 0 me width base = []"
| "walk_table (Suc left) me width base =
     (let dest = read_value me base width in
      if is_valid_pointer me dest
      then \<lparr>br_va = dest, br_flags = kBrCond\<rparr> # walk_table left me width (base + of_nat width)
      else [])"

definition table_base :: "emulator \<Rightarrow> decoded_operand \<Rightarrow> u64 option" where
  "table_base em op0 = do {
     b \<leftarrow> (if do_base_reg op0 \<noteq> ZR_NONE then register_value em (do_base_reg op0) else Some 0);
     Some ((do_disp op0 + b) AND addr_mask em)
   }"

definition target_branch :: "emulator \<Rightarrow> decoded_insn \<Rightarrow> u32 \<Rightarrow> branch option" where
  "target_branch em insn flags =
     (if is_deref_kind (do_kind (operand insn 0)) then do {
        tova \<leftarrow> get_oper_addr em insn 0;
        Some \<lparr>br_va = tova, br_flags = flags OR kBrDeref\<rparr>
      } else do {
        tova \<leftarrow> get_oper_value em insn 0;
        Some \<lparr>br_va = tova, br_flags = flags\<rparr>
      })"

definition get_branches :: "emulator \<Rightarrow> decoded_insn \<Rightarrow> branch list option" where
  "get_branches em insn =
     (if di_zyd_mnem insn = ZM_Flow HLT then Some []
      else
        let cond = (di_is_jump insn \<and> di_is_conditional insn);
            flags = (if cond then kBrCond else 0);
            ret = (if di_is_fallthrough insn
                   then [\<lparr>br_va = next_va insn, br_flags = flags OR kBrFall\<rparr>] else []) in
        if di_operand_count insn = 0 then Some ret
        else if di_is_call insn then do {
          t \<leftarrow> target_branch em insn (flags OR kBrProc);
          Some (ret @ [t])
        }
        else if di_is_jump insn \<and> \<not> di_is_conditional insn \<and>
                do_kind (operand insn 0) = kSib \<and> do_scale (operand insn 0) = 4 then do {
          base \<leftarrow> table_base em (operand insn 0);
          Some (ret @ walk_table kMaxJumpTableEntries (em_mem em) (width_of insn 0) base)
        }
        else if cond \<or> di_is_jump insn \<and> \<not> di_is_conditional insn then do {
          t \<leftarrow> target_branch em insn flags;
          Some (ret @ [t])
        }
        else Some ret)"

end
