(* ===== verification/Emu_Intel.thy ===== *)
theory Emu_Intel
  imports Emu_Operands
begin

text \<open>
  The instruction handlers of the emulator and their dispatch (intel_emulator.cpp).  A handler
  takes the emulator with the program counter already set to the instruction and gives the
  emulator after it; \<open>width_of insn 0\<close> is the variable \<open>dsize\<close> of the code wherever the
  instruction has an operand.  \<^const>\<open>None\<close> is undefined behaviour of the language: a signed
  result out of range, a shift by 64 or more, a division by zero, a span past its array.
\<close>

section \<open>Results\<close>

datatype exec_result =
    kContinue | kUnsupported | kBreakpoint | kBadOpcode | kDivideByZero | kOutInstruction

type_synonym outcome = "(exec_result \<times> u64 option \<times> emulator) option"

definition stepped :: "emulator option \<Rightarrow> outcome" where
  "stepped r = map_option (\<lambda>em. (kContinue, None, em)) r"

definition dsize_of :: "decoded_insn \<Rightarrow> nat" where
  "dsize_of insn = (if di_operand_count insn > 0 then width_of insn 0 else 4)"

section \<open>Arithmetic cores\<close>

definition int_sub_base :: "emulator \<Rightarrow> u64 \<Rightarrow> u64 \<Rightarrow> nat \<Rightarrow> nat \<Rightarrow> (u64 \<times> emulator) option" where
  "int_sub_base em src dst ssize dsize =
     (let usrc = unsigned_of src ssize; udst = unsigned_of dst dsize;
          ssrc = signed_of src ssize; sdst = signed_of dst dsize in do {
        ures \<leftarrow> checked_i64 (sint udst - sint usrc);
        sres \<leftarrow> checked_i64 (sint sdst - sint ssrc);
        Some (ures,
          put_flag kEflagsPf (is_parity_byte ures)
          (put_flag kEflagsZf (sres = 0)
          (put_flag kEflagsSf (is_signed ures dsize)
          (put_flag kEflagsCf (is_unsigned_carry ures dsize)
          (put_flag kEflagsAf (is_aux_carry_sub usrc udst)
          (put_flag kEflagsOf (is_signed_overflow sres dsize) em))))))
      })"

text \<open>The source operand, widened to the size of the destination when the sizes differ.\<close>

definition widened_src :: "emulator \<Rightarrow> decoded_insn \<Rightarrow> u64 option" where
  "widened_src em insn = do {
     src \<leftarrow> get_oper_value em insn 1;
     if width_of insn 0 \<noteq> width_of insn 1
     then sign_extend src (width_of insn 1) (width_of insn 0) else Some src
   }"

definition integer_subtraction :: "emulator \<Rightarrow> decoded_insn \<Rightarrow> (u64 \<times> emulator) option" where
  "integer_subtraction em insn = do {
     dst \<leftarrow> get_oper_value em insn 0;
     src \<leftarrow> widened_src em insn;
     int_sub_base em src dst (width_of insn 0) (width_of insn 0)
   }"

definition logical_and :: "emulator \<Rightarrow> decoded_insn \<Rightarrow> (u64 \<times> emulator) option" where
  "logical_and em insn = do {
     dst \<leftarrow> get_oper_value em insn 0;
     src \<leftarrow> widened_src em insn;
     let dsize = width_of insn 0; res = unsigned_of src dsize AND unsigned_of dst dsize in
     Some (res,
       put_flag kEflagsPf (is_parity_byte res)
       (put_flag kEflagsZf (res = 0)
       (put_flag kEflagsSf (is_signed res dsize)
       (put_flag kEflagsCf False
       (put_flag kEflagsOf False
       (put_flag kEflagsAf False em))))))
   }"

definition op_add :: "bool \<Rightarrow> emulator \<Rightarrow> decoded_insn \<Rightarrow> nat \<Rightarrow> emulator option" where
  "op_add carry_in em insn dsize = do {
     dst \<leftarrow> get_oper_value em insn 0;
     src0 \<leftarrow> get_oper_value em insn 1;
     let ssize0 = width_of insn 1;
     src \<leftarrow> (if dsize > ssize0 then sign_extend src0 ssize0 dsize else Some src0);
     let ssize = (if dsize > ssize0 then dsize else ssize0);
     let cf = (if carry_in \<and> get_flag (em_regs em) kEflagsCf then 1 else 0 :: u64);
     let ures = unsigned_of dst dsize + unsigned_of src ssize + cf;
     sum \<leftarrow> checked_i64 (sint (signed_of dst dsize) + sint (signed_of src ssize));
     sres \<leftarrow> checked_i64 (sint sum + sint cf);
     set_oper_value
       (put_flag kEflagsOf (is_signed_overflow sres dsize)
       (put_flag kEflagsSf (is_signed ures dsize)
       (put_flag kEflagsZf (ures = 0)
       (put_flag kEflagsAf (is_aux_carry src dst)
       (put_flag kEflagsPf (is_parity_byte ures)
       (put_flag kEflagsCf (is_unsigned_carry ures dsize) em)))))) insn 0 ures
   }"

definition op_sbb :: "emulator \<Rightarrow> decoded_insn \<Rightarrow> nat \<Rightarrow> emulator option" where
  "op_sbb em insn dsize = do {
     dst \<leftarrow> get_oper_value em insn 0;
     src \<leftarrow> widened_src em insn;
     let src = src + (if get_flag (em_regs em) kEflagsCf then 1 else 0);
     (res, em) \<leftarrow> int_sub_base em src dst dsize dsize;
     set_oper_value em insn 0 res
   }"

definition op_inc :: "emulator \<Rightarrow> decoded_insn \<Rightarrow> nat \<Rightarrow> emulator option" where
  "op_inc em insn dsize = do {
     v \<leftarrow> get_oper_value em insn 0;
     sval \<leftarrow> checked_i64 (sint (signed_of v dsize) + 1);
     em \<leftarrow> set_oper_value em insn 0 sval;
     Some
       (put_flag kEflagsPf (is_parity_byte sval)
       (put_flag kEflagsAf (sval AND 0xF = 0)
       (put_flag kEflagsZf (sval = 0)
       (put_flag kEflagsSf (is_signed sval dsize)
       (put_flag kEflagsOf (is_signed_overflow sval dsize) em)))))
   }"

definition op_dec :: "emulator \<Rightarrow> decoded_insn \<Rightarrow> nat \<Rightarrow> emulator option" where
  "op_dec em insn dsize = do {
     v \<leftarrow> get_oper_value em insn 0;
     res \<leftarrow> checked_i64 (sint v - 1);
     em \<leftarrow> set_oper_value em insn 0 res;
     Some
       (put_flag kEflagsPf (is_parity_byte res)
       (put_flag kEflagsAf (is_aux_carry_sub 1 (unsigned_of v dsize))
       (put_flag kEflagsZf (res = 0)
       (put_flag kEflagsSf (is_signed res dsize)
       (put_flag kEflagsOf False em)))))
   }"

definition op_neg :: "emulator \<Rightarrow> decoded_insn \<Rightarrow> nat \<Rightarrow> emulator option" where
  "op_neg em insn dsize = do {
     val \<leftarrow> get_oper_value em insn 0;
     res \<leftarrow> checked_i64 (0 - sint val);
     em \<leftarrow> set_oper_value em insn 0 res;
     Some
       (put_flag kEflagsPf (is_parity_byte res)
       (put_flag kEflagsAf (is_aux_carry val res)
       (put_flag kEflagsSf (is_signed res dsize)
       (put_flag kEflagsZf (res = 0)
       (put_flag kEflagsCf (val \<noteq> 0) em)))))
   }"

definition op_or :: "emulator \<Rightarrow> decoded_insn \<Rightarrow> nat \<Rightarrow> emulator option" where
  "op_or em insn dsize = do {
     dst \<leftarrow> get_oper_value em insn 0;
     src \<leftarrow> widened_src em insn;
     let res = dst OR src;
     em \<leftarrow> set_oper_value em insn 0 res;
     Some
       (put_flag kEflagsPf (is_parity_byte res)
       (put_flag kEflagsZf (res = 0)
       (put_flag kEflagsSf (is_signed res dsize)
       (put_flag kEflagsCf False
       (put_flag kEflagsOf False em)))))
   }"

definition op_xor :: "emulator \<Rightarrow> decoded_insn \<Rightarrow> nat \<Rightarrow> emulator option" where
  "op_xor em insn dsize = do {
     dst \<leftarrow> get_oper_value em insn 0;
     src \<leftarrow> get_oper_value em insn 1;
     let res = src XOR dst;
     em \<leftarrow> set_oper_value em insn 0 res;
     Some
       (put_flag kEflagsAf False
       (put_flag kEflagsPf (is_parity_byte res)
       (put_flag kEflagsZf (res = 0)
       (put_flag kEflagsSf (is_signed res dsize)
       (put_flag kEflagsOf False
       (put_flag kEflagsCf False em))))))
   }"

section \<open>Shifts, rotations and bit tests\<close>

definition shift_count :: "emulator \<Rightarrow> decoded_insn \<Rightarrow> nat \<Rightarrow> u64 option" where
  "shift_count em insn dsize = do {
     n \<leftarrow> get_oper_value em insn 1;
     Some (n AND (if dsize = 8 then 0x3F else 0x1F))
   }"

definition op_shl :: "emulator \<Rightarrow> decoded_insn \<Rightarrow> nat \<Rightarrow> emulator option" where
  "op_shl em insn dsize = do {
     dst \<leftarrow> get_oper_value em insn 0;
     src \<leftarrow> shift_count em insn dsize;
     if src = 0 then Some em
     else do {
       shifted \<leftarrow> shl64 dst src;
       last \<leftarrow> shr64 dst (of_nat (8 * dsize) - src);
       let cf = last AND 1; res = unsigned_of shifted dsize in
       set_oper_value
         (put_flag kEflagsAf False
         (put_flag kEflagsOf (src = 1 \<and> (if bits_msb res dsize then 1 else 0) \<noteq> cf)
         (put_flag kEflagsPf (is_parity_byte res)
         (put_flag kEflagsZf (res = 0)
         (put_flag kEflagsSf (is_signed res dsize)
         (put_flag kEflagsCf (cf \<noteq> 0) em)))))) insn 0 res
     }
   }"

definition op_shr :: "emulator \<Rightarrow> decoded_insn \<Rightarrow> nat \<Rightarrow> emulator option" where
  "op_shr em insn dsize = do {
     dst \<leftarrow> get_oper_value em insn 0;
     src \<leftarrow> shift_count em insn dsize;
     if src = 0 then Some em
     else do {
       shifted \<leftarrow> shr64 dst src;
       last \<leftarrow> shr64 dst (src - 1);
       let cf = last AND 1; res = unsigned_of shifted dsize in
       set_oper_value
         (put_flag kEflagsOf (src = 1 \<and> bits_msb dst dsize)
         (put_flag kEflagsPf (is_parity_byte res)
         (put_flag kEflagsZf (res = 0)
         (put_flag kEflagsSf (is_signed res dsize)
         (put_flag kEflagsCf (cf \<noteq> 0) em))))) insn 0 res
     }
   }"

definition op_sar :: "emulator \<Rightarrow> decoded_insn \<Rightarrow> nat \<Rightarrow> emulator option" where
  "op_sar em insn dsize = do {
     dst \<leftarrow> get_oper_value em insn 0;
     src \<leftarrow> shift_count em insn dsize;
     if src = 0 then Some em
     else do {
       shifted \<leftarrow> shr64 dst src;
       filled \<leftarrow> (if bits_msb dst dsize then do {
           let x = of_nat (8 * dsize) - src;
           top \<leftarrow> shr64 (u_max dsize) x;
           top \<leftarrow> shl64 top x;
           Some (shifted OR top)
         } else Some shifted);
       last \<leftarrow> shr64 dst (src - 1);
       let cf = last AND 1; res = unsigned_of filled dsize in
       set_oper_value
         (put_flag kEflagsAf False
         (put_flag kEflagsOf False
         (put_flag kEflagsPf (is_parity_byte res)
         (put_flag kEflagsZf (res = 0)
         (put_flag kEflagsSf (is_signed res dsize)
         (put_flag kEflagsCf (cf \<noteq> 0) em)))))) insn 0 res
     }
   }"

text \<open>The number of places a rotation turns by; an operand without width divides by zero.\<close>

definition rotate_count :: "emulator \<Rightarrow> decoded_insn \<Rightarrow> nat \<Rightarrow> u64 option" where
  "rotate_count em insn dsize = do {
     n \<leftarrow> shift_count em insn dsize;
     if dsize = 0 then None else Some (n mod of_nat (8 * dsize))
   }"

definition op_rol :: "emulator \<Rightarrow> decoded_insn \<Rightarrow> nat \<Rightarrow> emulator option" where
  "op_rol em insn dsize = do {
     v \<leftarrow> get_oper_value em insn 0;
     let dst = unsigned_of v dsize;
     cnt \<leftarrow> rotate_count em insn dsize;
     if cnt = 0 then Some em
     else do {
       hi \<leftarrow> shl64 dst cnt;
       lo \<leftarrow> shr64 dst (of_nat (8 * dsize) - cnt);
       let res = unsigned_of (hi OR lo) dsize;
       em \<leftarrow> set_oper_value em insn 0 res;
       Some (put_flag kEflagsCf (res AND 1 \<noteq> 0) em)
     }
   }"

definition op_ror :: "emulator \<Rightarrow> decoded_insn \<Rightarrow> nat \<Rightarrow> emulator option" where
  "op_ror em insn dsize = do {
     v \<leftarrow> get_oper_value em insn 0;
     let dst = unsigned_of v dsize;
     cnt \<leftarrow> rotate_count em insn dsize;
     if cnt = 0 then Some em
     else do {
       lo \<leftarrow> shr64 dst cnt;
       hi \<leftarrow> shl64 dst (of_nat (8 * dsize) - cnt);
       let res = unsigned_of (lo OR hi) dsize;
       em \<leftarrow> set_oper_value em insn 0 res;
       top \<leftarrow> shr64 res (of_nat (8 * dsize) - 1);
       Some (put_flag kEflagsCf (top \<noteq> 0) em)
     }
   }"

definition op_bit_test :: "shift_mnemonic \<Rightarrow> emulator \<Rightarrow> decoded_insn \<Rightarrow> nat \<Rightarrow> emulator option" where
  "op_bit_test mn em insn dsize = do {
     dst \<leftarrow> get_oper_value em insn 0;
     n \<leftarrow> get_oper_value em insn 1;
     m \<leftarrow> (if dsize = 0 then None else shl64 1 (n mod of_nat (8 * dsize)));
     let em = put_flag kEflagsCf (dst AND m \<noteq> 0) em;
     if mn = BTS then set_oper_value em insn 0 (dst OR m)
     else if mn = BTR then set_oper_value em insn 0 (dst AND NOT m)
     else if mn = BTC then set_oper_value em insn 0 (dst XOR m)
     else Some em
   }"


section \<open>Multiplication and division\<close>

definition gp_lane :: "u32 \<Rightarrow> nat \<Rightarrow> bool \<Rightarrow> u32" where
  "gp_lane base n is_64bit =
     (if n = 1 then make_meta_reg 0 8 base
      else if n = 2 then make_meta_reg 0 16 base
      else if n = 4 \<and> is_64bit then make_meta_reg 0 32 base
      else base)"

abbreviation lane_for :: "emulator \<Rightarrow> u32 \<Rightarrow> nat \<Rightarrow> u32" where
  "lane_for em base n \<equiv> gp_lane base n (em_is_64bit em)"

definition set_pair :: "emulator \<Rightarrow> u32 \<Rightarrow> u64 \<Rightarrow> u32 \<Rightarrow> u64 \<Rightarrow> emulator option" where
  "set_pair em i v j w = do { em \<leftarrow> set_reg em i v; set_reg em j w }"

definition put_carry :: "bool \<Rightarrow> emulator \<Rightarrow> emulator" where
  "put_carry b em = put_flag kEflagsOf b (put_flag kEflagsCf b em)"

definition op_mul :: "emulator \<Rightarrow> decoded_insn \<Rightarrow> nat \<Rightarrow> emulator option" where
  "op_mul em insn dsize = do {
     val \<leftarrow> get_oper_value em insn 0;
     a \<leftarrow> get_reg em (lane_for em kRegEax dsize);
     let lo = a * val;
     if dsize = 8 then do {
       let hi = umul_hi a val;
       em \<leftarrow> set_pair em kRegRax lo kRegRdx hi;
       Some (put_carry (hi \<noteq> 0) em)
     }
     else do {
       hi \<leftarrow> shr64 lo (of_nat (8 * dsize));
       em \<leftarrow> (if dsize = 1 then set_reg em kRegAx lo
              else set_pair em (lane_for em kRegEax dsize) (lo AND u_max dsize)
                     (lane_for em kRegEdx dsize) (hi AND u_max dsize));
       Some (put_carry (hi \<noteq> 0) em)
     }
   }"

definition imul_flags :: "u64 \<Rightarrow> emulator \<Rightarrow> emulator" where
  "imul_flags res em = put_flag kEflagsSf False (put_flag kEflagsPf (is_parity_byte res) em)"

definition op_imul_wide :: "emulator \<Rightarrow> decoded_insn \<Rightarrow> emulator option" where
  "op_imul_wide em insn = do {
     aval \<leftarrow> get_reg em kRegRax;
     bval \<leftarrow> get_oper_value em insn 0;
     let lo = aval * bval;
     let hi = smul_hi aval bval;
     let fits = (drop_bit 63 lo = 0 \<and> hi = 0 \<or> drop_bit 63 lo \<noteq> 0 \<and> hi = 0xFFFFFFFFFFFFFFFF);
     em \<leftarrow> set_pair em kRegRax lo kRegRdx hi;
     Some (imul_flags lo (put_carry (\<not> fits) em))
   }"

definition op_imul_one :: "emulator \<Rightarrow> decoded_insn \<Rightarrow> nat \<Rightarrow> emulator option" where
  "op_imul_one em insn dsize = do {
     acc \<leftarrow> get_reg em (lane_for em kRegEax dsize);
     v \<leftarrow> get_oper_value em insn 0;
     res \<leftarrow> checked_i64 (sint (signed_of acc dsize) * sint (signed_of v dsize));
     em \<leftarrow> (if dsize = 1 then set_reg em kRegAx res
            else do {
              hi \<leftarrow> shr64 res (of_nat (8 * dsize));
              set_pair em (lane_for em kRegEax dsize) (res AND u_max dsize)
                (lane_for em kRegEdx dsize) (hi AND u_max dsize)
            });
     Some (imul_flags res (put_carry (is_unsigned_carry res dsize) em))
   }"

definition op_imul_more :: "emulator \<Rightarrow> decoded_insn \<Rightarrow> nat \<Rightarrow> emulator option" where
  "op_imul_more em insn dsize =
     (let lhs = (if di_operand_count insn = 3 then 1 else 0); bsize = width_of insn (lhs + 1) in do {
        a \<leftarrow> get_oper_value em insn lhs;
        b0 \<leftarrow> get_oper_value em insn (lhs + 1);
        b \<leftarrow> (if dsize > bsize then sign_extend b0 bsize dsize else Some b0);
        let res = a * b;
        em \<leftarrow> set_oper_value (put_carry (res > u_max dsize) em) insn 0 res;
        Some (imul_flags res em)
      })"

definition op_imul :: "emulator \<Rightarrow> decoded_insn \<Rightarrow> nat \<Rightarrow> emulator option" where
  "op_imul em insn dsize =
     (if di_operand_count insn = 1 \<and> dsize = 8 then op_imul_wide em insn
      else if di_operand_count insn = 1 then op_imul_one em insn dsize
      else op_imul_more em insn dsize)"

text \<open>The handlers of division get a divisor that is not zero.\<close>

definition op_div :: "emulator \<Rightarrow> u64 \<Rightarrow> nat \<Rightarrow> emulator option" where
  "op_div em val dsize =
     (if dsize = 1 then do {
        ax \<leftarrow> get_reg em kRegAx;
        set_reg em kRegEax (push_bit 8 (ax div val) + ax mod val)
      }
      else if dsize = 2 then do {
        dx \<leftarrow> get_reg em kRegDx;
        ax \<leftarrow> get_reg em kRegAx;
        let tot = push_bit 16 dx + ax in
        set_pair em kRegAx (tot div val) kRegDx (tot mod val)
      }
      else if dsize = 4 then do {
        d \<leftarrow> get_reg em (lane_for em kRegEdx 4);
        a \<leftarrow> get_reg em (lane_for em kRegEax 4);
        let tot = push_bit 32 d + a in
        set_pair em (lane_for em kRegEax 4) (tot div val) (lane_for em kRegEdx 4) (tot mod val)
      }
      else do {
        hi \<leftarrow> get_reg em kRegRdx;
        lo \<leftarrow> get_reg em kRegRax;
        let dr = udiv128 hi lo val in
        set_pair em kRegRax (quot dr) kRegRdx (rem dr)
      })"

text \<open>The sign-and-magnitude division that the narrow forms share.\<close>

definition signed_divide :: "i64 \<Rightarrow> i64 \<Rightarrow> (i64 \<times> i64) option" where
  "signed_divide val d = do {
     n \<leftarrow> (if sint val < 0 then checked_i64 (- sint val) else Some val);
     m \<leftarrow> (if sint d < 0 then checked_i64 (- sint d) else Some d);
     if m = 0 then None
     else
       let q = word_of_int (sint n div sint m); r = word_of_int (sint n mod sint m) in
       if (sint val < 0) \<noteq> (sint d < 0) then Some (- q, - r) else Some (q, r)
   }"

definition op_idiv_wide :: "emulator \<Rightarrow> u64 \<Rightarrow> emulator option" where
  "op_idiv_wide em uval = do {
     hi0 \<leftarrow> get_reg em kRegRdx;
     lo0 \<leftarrow> get_reg em kRegRax;
     let dividend_neg = (drop_bit 63 hi0 \<noteq> 0);
     let lo = (if dividend_neg then NOT lo0 + 1 else lo0);
     let hi = (if dividend_neg then NOT hi0 + (if lo = 0 then 1 else 0) else hi0);
     let divisor_neg = (drop_bit 63 uval \<noteq> 0);
     let ud = (if divisor_neg then NOT uval + 1 else uval);
     let dr = udiv128 hi lo ud;
     let q = (if dividend_neg \<noteq> divisor_neg then NOT (quot dr) + 1 else quot dr);
     let r = (if dividend_neg then NOT (rem dr) + 1 else rem dr);
     set_pair em kRegRax q kRegRdx r
   }"

definition op_idiv :: "emulator \<Rightarrow> u64 \<Rightarrow> nat \<Rightarrow> emulator option" where
  "op_idiv em uval dsize =
     (if dsize = 1 then do {
        ax \<leftarrow> get_reg em kRegAx;
        (q, r) \<leftarrow> signed_divide (signed_of ax 2) (signed_of uval 1);
        set_reg em kRegAx (push_bit 8 (r AND 0xFF) OR (q AND 0xFF))
      }
      else if dsize = 2 then do {
        dx \<leftarrow> get_reg em kRegDx;
        ax \<leftarrow> get_reg em kRegAx;
        (q, r) \<leftarrow> signed_divide (signed_of (push_bit 16 dx OR ax) 4) (signed_of uval 2);
        set_pair em kRegAx q kRegDx r
      }
      else if dsize = 4 then do {
        d \<leftarrow> get_reg em (lane_for em kRegEdx 4);
        a \<leftarrow> get_reg em (lane_for em kRegEax 4);
        (q, r) \<leftarrow> signed_divide (signed_of (push_bit 32 d OR a) 8) (signed_of uval 4);
        set_pair em (lane_for em kRegEax 4) q (lane_for em kRegEdx 4) r
      }
      else op_idiv_wide em uval)"

definition op_divide :: "arith_mnemonic \<Rightarrow> emulator \<Rightarrow> decoded_insn \<Rightarrow> nat \<Rightarrow> outcome" where
  "op_divide mn em insn dsize = do {
     val \<leftarrow> get_oper_value em insn 0;
     if val = 0 then Some (kDivideByZero, None, em)
     else stepped (if mn = DIV then op_div em val dsize else op_idiv em val dsize)
   }"

section \<open>Data movement\<close>

definition op_push :: "emulator \<Rightarrow> decoded_insn \<Rightarrow> nat \<Rightarrow> emulator option" where
  "op_push em insn dsize =
     (let psize = (if dsize = 2 then 2 else ptr_size em) in do {
        v0 \<leftarrow> get_oper_value em insn 0;
        v \<leftarrow> (if do_kind (operand insn 0) = kImm \<and> dsize < psize
              then sign_extend v0 dsize psize else Some v0);
        do_push em v psize
      })"

definition op_pop :: "emulator \<Rightarrow> decoded_insn \<Rightarrow> nat \<Rightarrow> emulator option" where
  "op_pop em insn dsize =
     (let psize = (if dsize = 2 then 2 else ptr_size em) in do {
        (v, em) \<leftarrow> do_pop em psize;
        set_oper_value em insn 0 v
      })"

definition op_xchg :: "emulator \<Rightarrow> decoded_insn \<Rightarrow> emulator option" where
  "op_xchg em insn = do {
     a \<leftarrow> get_oper_value em insn 0;
     b \<leftarrow> get_oper_value em insn 1;
     em \<leftarrow> set_oper_value em insn 0 b;
     set_oper_value em insn 1 a
   }"

definition op_xadd :: "emulator \<Rightarrow> decoded_insn \<Rightarrow> nat \<Rightarrow> emulator option" where
  "op_xadd em insn dsize = do {
     dst \<leftarrow> get_oper_value em insn 0;
     src \<leftarrow> get_oper_value em insn 1;
     let total = unsigned_of (dst + src) dsize;
     em \<leftarrow> set_oper_value em insn 1 dst;
     em \<leftarrow> set_oper_value em insn 0 total;
     Some
       (put_flag kEflagsPf (is_parity_byte total)
       (put_flag kEflagsSf (is_signed total dsize)
       (put_flag kEflagsCf (is_unsigned_carry (dst + src) dsize)
       (put_flag kEflagsZf (total = 0) em))))
   }"

definition op_cmpxchg :: "emulator \<Rightarrow> decoded_insn \<Rightarrow> nat \<Rightarrow> emulator option" where
  "op_cmpxchg em insn dsize =
     (let acc = lane_for em kRegEax dsize in do {
        dst \<leftarrow> get_oper_value em insn 0;
        a \<leftarrow> get_reg em acc;
        if unsigned_of a dsize = unsigned_of dst dsize then do {
          let em = put_flag kEflagsZf True em;
          src \<leftarrow> get_oper_value em insn 1;
          set_oper_value em insn 0 src
        }
        else set_reg (put_flag kEflagsZf False em) acc dst
      })"

definition sign_fill :: "emulator \<Rightarrow> u32 \<Rightarrow> nat \<Rightarrow> u32 \<Rightarrow> u64 \<Rightarrow> emulator option" where
  "sign_fill em from n to fill = do {
     v \<leftarrow> get_reg em from;
     set_reg em to (if is_signed v n then fill else 0)
   }"

definition sign_widen :: "emulator \<Rightarrow> u32 \<Rightarrow> nat \<Rightarrow> u32 \<Rightarrow> nat \<Rightarrow> emulator option" where
  "sign_widen em from n to m = do {
     v \<leftarrow> get_reg em from;
     x \<leftarrow> sign_extend v n m;
     set_reg em to x
   }"

definition exec_data :: "data_mnemonic \<Rightarrow> emulator \<Rightarrow> decoded_insn \<Rightarrow> nat \<Rightarrow> emulator option" where
  "exec_data mn em insn dsize =
     (case mn of
        MOV \<Rightarrow> do { v \<leftarrow> get_oper_value em insn 1; set_oper_value em insn 0 v }
      | MOVZX \<Rightarrow> do { v \<leftarrow> get_oper_value em insn 1; set_oper_value em insn 0 v }
      | MOVSX \<Rightarrow> do { v \<leftarrow> get_oper_value em insn 1; x \<leftarrow> sign_extend v (width_of insn 1) dsize;
                        set_oper_value em insn 0 x }
      | MOVSXD \<Rightarrow> do { v \<leftarrow> get_oper_value em insn 1; x \<leftarrow> sign_extend v (width_of insn 1) dsize;
                         set_oper_value em insn 0 x }
      | LEA \<Rightarrow> do { a \<leftarrow> get_oper_addr em insn 1; set_oper_value em insn 0 a }
      | PUSH \<Rightarrow> op_push em insn dsize
      | POP \<Rightarrow> op_pop em insn dsize
      | XCHG \<Rightarrow> op_xchg em insn
      | XADD \<Rightarrow> op_xadd em insn dsize
      | CMPXCHG \<Rightarrow> op_cmpxchg em insn dsize
      | CDQ \<Rightarrow> sign_fill em kRegEax 4 kRegEdx 0xFFFFFFFF
      | CWD \<Rightarrow> sign_fill em kRegAx 2 kRegDx 0xFFFF
      | CBW \<Rightarrow> sign_widen em kRegAl 1 kRegAx 2
      | CWDE \<Rightarrow> sign_widen em kRegAx 2 (lane_for em kRegEax 4) 4
      | CDQE \<Rightarrow> sign_widen em (make_meta_reg 0 32 kRegRax) 4 kRegRax 8
      | CQO \<Rightarrow> sign_fill em kRegRax 8 kRegRdx 0xFFFFFFFFFFFFFFFF
      | NOP \<Rightarrow> Some em)"

definition exec_arith :: "arith_mnemonic \<Rightarrow> emulator \<Rightarrow> decoded_insn \<Rightarrow> nat \<Rightarrow> outcome" where
  "exec_arith mn em insn dsize =
     (case mn of
        ADD \<Rightarrow> stepped (op_add False em insn dsize)
      | ADC \<Rightarrow> stepped (op_add True em insn dsize)
      | SUB \<Rightarrow> stepped (do { (res, em) \<leftarrow> integer_subtraction em insn;
                              set_oper_value em insn 0 (unsigned_of res dsize) })
      | SBB \<Rightarrow> stepped (op_sbb em insn dsize)
      | CMP \<Rightarrow> stepped (map_option snd (integer_subtraction em insn))
      | INC \<Rightarrow> stepped (op_inc em insn dsize)
      | DEC \<Rightarrow> stepped (op_dec em insn dsize)
      | NEG \<Rightarrow> stepped (op_neg em insn dsize)
      | LAND \<Rightarrow> stepped (do { (res, em) \<leftarrow> logical_and em insn; set_oper_value em insn 0 res })
      | TEST \<Rightarrow> stepped (map_option snd (logical_and em insn))
      | LOR \<Rightarrow> stepped (op_or em insn dsize)
      | LXOR \<Rightarrow> stepped (op_xor em insn dsize)
      | LNOT \<Rightarrow> stepped (do { v \<leftarrow> get_oper_value em insn 0;
                               set_oper_value em insn 0 (v XOR u_max dsize) })
      | MUL \<Rightarrow> stepped (op_mul em insn dsize)
      | IMUL \<Rightarrow> stepped (op_imul em insn dsize)
      | DIV \<Rightarrow> op_divide DIV em insn dsize
      | IDIV \<Rightarrow> op_divide IDIV em insn dsize)"

definition exec_shift :: "shift_mnemonic \<Rightarrow> emulator \<Rightarrow> decoded_insn \<Rightarrow> nat \<Rightarrow> emulator option" where
  "exec_shift mn em insn dsize =
     (case mn of
        SHL \<Rightarrow> op_shl em insn dsize
      | SHR \<Rightarrow> op_shr em insn dsize
      | SAR \<Rightarrow> op_sar em insn dsize
      | ROL \<Rightarrow> op_rol em insn dsize
      | ROR \<Rightarrow> op_ror em insn dsize
      | _ \<Rightarrow> op_bit_test mn em insn dsize)"

section \<open>Vector moves\<close>

definition simd_copy :: "emulator \<Rightarrow> decoded_insn \<Rightarrow> nat \<Rightarrow> outcome" where
  "simd_copy em insn width = stepped (do {
     v \<leftarrow> read_simd_oper em insn 1 width;
     write_simd_oper em insn 0 v width
   })"

definition simd_xor :: "emulator \<Rightarrow> decoded_insn \<Rightarrow> outcome" where
  "simd_xor em insn = stepped (do {
     a \<leftarrow> read_simd_oper em insn 0 16;
     b \<leftarrow> read_simd_oper em insn 1 16;
     write_simd_oper em insn 0 (map2 (XOR) a b) 16
   })"

text \<open>Shifts of the whole register by bytes, to the right (\<open>left = False\<close>) or to the left.\<close>

definition simd_byte_shift :: "bool \<Rightarrow> emulator \<Rightarrow> decoded_insn \<Rightarrow> outcome" where
  "simd_byte_shift left em insn = stepped (do {
     v \<leftarrow> read_simd_oper em insn 0 16;
     c \<leftarrow> get_oper_value em insn 1;
     let n = unat (min c (of_nat (length v)));
     let r = (if left then replicate n 0 @ take (length v - n) v else drop n v @ replicate n 0);
     write_simd_oper em insn 0 r 16
   })"

definition exec_simd :: "simd_mnemonic \<Rightarrow> emulator \<Rightarrow> decoded_insn \<Rightarrow> outcome" where
  "exec_simd mn em insn =
     (case mn of
        MOVQ \<Rightarrow> simd_copy em insn 8
      | MOVD \<Rightarrow> simd_copy em insn 4
      | MOVSS \<Rightarrow> simd_copy em insn 4
      | MOVSD \<Rightarrow>
          if xmm_index (do_base_reg (operand insn 0)) \<noteq> None \<or>
             xmm_index (do_base_reg (operand insn 1)) \<noteq> None
          then simd_copy em insn 8 else Some (kUnsupported, None, em)
      | XORPS \<Rightarrow> simd_xor em insn
      | XORPD \<Rightarrow> simd_xor em insn
      | PXOR \<Rightarrow> simd_xor em insn
      | PSRLDQ \<Rightarrow> simd_byte_shift False em insn
      | PSLLDQ \<Rightarrow> simd_byte_shift True em insn
      | _ \<Rightarrow> simd_copy em insn 16)"

section \<open>Control flow and dispatch\<close>

definition op_ret :: "emulator \<Rightarrow> decoded_insn \<Rightarrow> outcome" where
  "op_ret em insn = do {
     (ret, em) \<leftarrow> do_pop em (ptr_size em);
     em \<leftarrow> (if di_operand_count insn > 0 then do {
              esp \<leftarrow> get_reg em kRegEsp;
              n \<leftarrow> get_oper_value em insn 0;
              set_reg em kRegEsp (esp + n)
            } else Some em);
     Some (kContinue, Some ret, em)
   }"

definition op_leave :: "emulator \<Rightarrow> emulator option" where
  "op_leave em = do {
     ebp \<leftarrow> get_reg em kRegEbp;
     em \<leftarrow> set_reg em kRegEsp ebp;
     (v, em) \<leftarrow> do_pop em (ptr_size em);
     set_reg em kRegEbp v
   }"

definition op_jump_if :: "emulator \<Rightarrow> decoded_insn \<Rightarrow> outcome" where
  "op_jump_if em insn = do {
     taken \<leftarrow> condition_met em (di_zyd_mnem insn);
     if taken then do { t \<leftarrow> get_oper_value em insn 0; Some (kContinue, Some t, em) }
     else Some (kContinue, None, em)
   }"

definition exec_flow :: "flow_mnemonic \<Rightarrow> emulator \<Rightarrow> decoded_insn \<Rightarrow> outcome" where
  "exec_flow mn em insn =
     (case mn of
        CALL \<Rightarrow> do {
          em \<leftarrow> do_push em (next_va insn) (ptr_size em);
          t \<leftarrow> get_oper_value em insn 0;
          Some (kContinue, Some t, em)
        }
      | JMP \<Rightarrow> do { t \<leftarrow> get_oper_value em insn 0; Some (kContinue, Some t, em) }
      | JCXZ \<Rightarrow> op_jump_if em insn
      | JECXZ \<Rightarrow> op_jump_if em insn
      | RET \<Rightarrow> op_ret em insn
      | LEAVE \<Rightarrow> stepped (op_leave em)
      | HLT \<Rightarrow> Some (kUnsupported, None, em)
      | INTR \<Rightarrow> Some (kBreakpoint, None, em)
      | INT1 \<Rightarrow> Some (kBreakpoint, None, em)
      | INT3 \<Rightarrow> Some (kBreakpoint, None, em)
      | UD0 \<Rightarrow> Some (kBadOpcode, None, em)
      | UD1 \<Rightarrow> Some (kBadOpcode, None, em)
      | UD2 \<Rightarrow> Some (kBadOpcode, None, em)
      | IN \<Rightarrow> Some (kOutInstruction, None, em)
      | OUT \<Rightarrow> Some (kOutInstruction, None, em))"

definition dispatch :: "emulator \<Rightarrow> decoded_insn \<Rightarrow> outcome" where
  "dispatch em insn =
     (case di_zyd_mnem insn of
        ZM_Data mn \<Rightarrow> stepped (exec_data mn em insn (dsize_of insn))
      | ZM_Arith mn \<Rightarrow> exec_arith mn em insn (dsize_of insn)
      | ZM_Shift mn \<Rightarrow> stepped (exec_shift mn em insn (dsize_of insn))
      | ZM_Flow mn \<Rightarrow> exec_flow mn em insn
      | ZM_Simd mn \<Rightarrow> exec_simd mn em insn
      | ZM_J _ \<Rightarrow> op_jump_if em insn
      | ZM_SET _ \<Rightarrow> stepped (do {
          c \<leftarrow> condition_met em (di_zyd_mnem insn);
          set_oper_value em insn 0 (if c then 1 else 0)
        })
      | ZM_CMOV _ \<Rightarrow> stepped (do {
          c \<leftarrow> condition_met em (di_zyd_mnem insn);
          if c then do { v \<leftarrow> get_oper_value em insn 1; set_oper_value em insn 0 v } else Some em
        })
      | ZM_OTHER _ \<Rightarrow> Some (kUnsupported, None, em))"

definition execute_opcode :: "emulator \<Rightarrow> decoded_insn \<Rightarrow> (exec_result \<times> emulator) option" where
  "execute_opcode em insn = do {
     em \<leftarrow> set_program_counter em (di_va insn);
     (result, next_pc, em) \<leftarrow> dispatch em insn;
     if result = kContinue then do {
       em \<leftarrow> set_program_counter em (case next_pc of Some va \<Rightarrow> va | None \<Rightarrow> next_va insn);
       Some (result, em)
     }
     else Some (result, em)
   }"

end
