(* ===== verification/Emu_Keeps.thy ===== *)
theory Emu_Keeps
  imports Emu_Intel
begin

text \<open>
  What no instruction of the emulator disturbs: the well-formedness of the register file and of
  the overlay, the architecture and the memory maps.  The rules in \<open>keeps\<close> follow a handler
  statement by statement; from them come the invariant of \<^const>\<open>execute_opcode\<close>, the
  behaviour of instructions that stop, and the rollback of the work queue.
\<close>

section \<open>The invariant\<close>

definition em_ok :: "emulator \<Rightarrow> bool" where
  "em_ok em \<longleftrightarrow> rf_ok (em_regs em) \<and> mem_ok (em_mem em) \<and> rf_low32_zx (em_regs em) = em_is_64bit em"

definition same_frame :: "emulator \<Rightarrow> emulator \<Rightarrow> bool" where
  "same_frame em em' \<longleftrightarrow> same_arch (em_regs em) (em_regs em') \<and> same_space (em_mem em) (em_mem em') \<and>
     em_is_64bit em' = em_is_64bit em"

definition keeps :: "emulator \<Rightarrow> emulator \<Rightarrow> bool" where
  "keeps em em' \<longleftrightarrow> same_frame em em' \<and> (em_ok em \<longrightarrow> em_ok em')"

lemma keeps_refl [simp]: "keeps em em"
  by (simp add: keeps_def same_frame_def)

lemma keeps_trans: "keeps a b \<Longrightarrow> keeps b c \<Longrightarrow> keeps a c"
  by (auto simp: keeps_def same_frame_def intro: same_arch_trans same_space_trans)

text \<open>The same of a state that may be undefined, alone or with a value beside it.\<close>

definition keeps_some :: "emulator \<Rightarrow> emulator option \<Rightarrow> bool" where
  "keeps_some em r \<longleftrightarrow> (\<forall>em'. r = Some em' \<longrightarrow> keeps em em')"

definition keeps_with :: "emulator \<Rightarrow> ('a \<times> emulator) option \<Rightarrow> bool" where
  "keeps_with em r \<longleftrightarrow> (\<forall>x em'. r = Some (x, em') \<longrightarrow> keeps em em')"

definition keeps_out :: "emulator \<Rightarrow> outcome \<Rightarrow> bool" where
  "keeps_out em r \<longleftrightarrow> (\<forall>x t em'. r = Some (x, t, em') \<longrightarrow> keeps em em')"

named_theorems keeps \<open>statements of a handler keep the invariant\<close>

lemma keeps_regs: "keeps e em \<Longrightarrow> same_arch (em_regs em) rf \<Longrightarrow> (rf_ok (em_regs em) \<Longrightarrow> rf_ok rf) \<Longrightarrow>
    keeps e (em\<lparr>em_regs := rf\<rparr>)"
  by (auto simp: keeps_def same_frame_def em_ok_def same_arch_def)

lemma keeps_mem: "keeps e em \<Longrightarrow> same_space (em_mem em) me \<Longrightarrow> (mem_ok (em_mem em) \<Longrightarrow> mem_ok me) \<Longrightarrow>
    keeps e (em\<lparr>em_mem := me\<rparr>)"
  by (auto simp: keeps_def same_frame_def em_ok_def same_space_def)

lemma keeps_put_flag [keeps]: "keeps e em \<Longrightarrow> keeps e (put_flag f b em)"
  unfolding put_flag_def by (rule keeps_regs) (auto intro: rf_keeps)

lemma keeps_put_carry [keeps]: "keeps e em \<Longrightarrow> keeps e (put_carry b em)"
  unfolding put_carry_def by (intro keeps)

lemma keeps_imul_flags [keeps]: "keeps e em \<Longrightarrow> keeps e (imul_flags b em)"
  unfolding imul_flags_def by (intro keeps)

lemma keeps_Some [keeps]: "keeps e em \<Longrightarrow> keeps_some e (Some em)"
  by (simp add: keeps_some_def)

lemma keeps_None [keeps]: "keeps_some e None"
  by (simp add: keeps_some_def)

lemma keeps_set_reg [keeps]: "keeps e em \<Longrightarrow> keeps_some e (set_reg em i v)"
  by (auto simp: keeps_some_def set_reg_def intro: keeps_regs set_register_arch rf_keeps)

lemma keeps_bind [keeps]:
  "keeps_some e m \<Longrightarrow> (\<And>em. keeps e em \<Longrightarrow> keeps_some e (f em)) \<Longrightarrow> keeps_some e (m \<bind> f)"
  by (auto simp: keeps_some_def bind_eq_Some_conv)

lemma keeps_bind_with [keeps]:
  "keeps_with e m \<Longrightarrow> (\<And>x em. keeps e em \<Longrightarrow> keeps_some e (f x em)) \<Longrightarrow>
     keeps_some e (m \<bind> (\<lambda>(x, em). f x em))"
  by (auto simp: keeps_some_def keeps_with_def bind_eq_Some_conv)

lemma keeps_read: "(\<And>x. keeps_some e (f x)) \<Longrightarrow> keeps_some e (m \<bind> f)"
  by (auto simp: keeps_some_def bind_eq_Some_conv)

lemmas keeps_reads [keeps] =
  keeps_read [where 'a = u64] keeps_read [where 'a = bool] keeps_read [where 'a = xmm]
  keeps_read [where 'a = "u64 \<times> u64"]

lemma keeps_if [keeps]:
  "(c \<Longrightarrow> keeps_some e a) \<Longrightarrow> (\<not> c \<Longrightarrow> keeps_some e b) \<Longrightarrow> keeps_some e (if c then a else b)"
  by simp

lemma keeps_case_pair [keeps]: "(\<And>a b. keeps_some e (f a b)) \<Longrightarrow> keeps_some e (case p of (a, b) \<Rightarrow> f a b)"
  by (cases p) simp

lemma keeps_set_pair [keeps]: "keeps e em \<Longrightarrow> keeps_some e (set_pair em i v j w)"
  unfolding set_pair_def by (intro keeps)

lemma keeps_set_oper_value [keeps]: "keeps e em \<Longrightarrow> keeps_some e (set_oper_value em insn k v)"
proof -
  assume k: "keeps e em"
  have m: "keeps_some e (do {
      a \<leftarrow> get_oper_addr em insn k;
      me \<leftarrow> write_value (em_mem em) a v (do_width_bytes (operand insn k));
      Some (em\<lparr>em_mem := me\<rparr>)
    })"
    using k by (auto simp: keeps_some_def bind_eq_Some_conv
        intro!: keeps_mem intro: write_value_space write_value_ok)
  show ?thesis
    using k m by (auto simp: set_oper_value_def Let_def keeps keeps_set_reg
        split: operand_kind.splits option.splits)
qed

lemma pad16_length: "length (pad16 bs) = 16"
  by (simp add: pad16_def)

lemma keeps_write_simd [keeps]: "keeps e em \<Longrightarrow> keeps_some e (write_simd_oper em insn k v w)"
  unfolding write_simd_oper_def Let_def
  by (auto simp: keeps_some_def bind_eq_Some_conv pad16_length keeps_set_reg [unfolded keeps_some_def]
      intro!: keeps_mem keeps_regs set_xmm_ok mem_write_ok split: option.splits if_split_asm)

lemma keeps_do_push [keeps]: "keeps e em \<Longrightarrow> keeps_some e (do_push em v n)"
  unfolding keeps_some_def
proof (intro allI impI)
  fix em' assume k: "keeps e em" and "do_push em v n = Some em'"
  then obtain esp me where w: "write_value (em_mem em) (esp - of_nat n) v n = Some me"
    and r: "set_reg (em\<lparr>em_mem := me\<rparr>) kRegEsp (esp - of_nat n) = Some em'"
    by (auto simp: do_push_def bind_eq_Some_conv)
  have "keeps e (em\<lparr>em_mem := me\<rparr>)"
    using k write_value_space [OF w] write_value_ok [OF _ w] by (rule keeps_mem)
  from keeps_set_reg [OF this] r show "keeps e em'" by (simp add: keeps_some_def)
qed

lemma keeps_do_pop [keeps]: "keeps e em \<Longrightarrow> keeps_with e (do_pop em n)"
  unfolding do_pop_def
  by (auto simp: keeps_with_def bind_eq_Some_conv
      intro: keeps_set_reg [unfolded keeps_some_def, rule_format])

lemma keeps_int_sub_base [keeps]: "keeps e em \<Longrightarrow> keeps_with e (int_sub_base em src dst m n)"
  by (auto simp: int_sub_base_def Let_def keeps_with_def bind_eq_Some_conv intro!: keeps)

lemma keeps_integer_subtraction [keeps]: "keeps e em \<Longrightarrow> keeps_with e (integer_subtraction em insn)"
  using keeps_int_sub_base [of e em]
  by (auto simp: integer_subtraction_def keeps_with_def bind_eq_Some_conv)

lemma keeps_logical_and [keeps]: "keeps e em \<Longrightarrow> keeps_with e (logical_and em insn)"
  by (auto simp: logical_and_def Let_def keeps_with_def bind_eq_Some_conv intro!: keeps)

lemma keeps_snd [keeps]: "keeps_with e r \<Longrightarrow> keeps_some e (map_option snd r)"
  by (auto simp: keeps_some_def keeps_with_def)

lemma keeps_arith_handlers [keeps]:
  assumes "keeps e em"
  shows "keeps_some e (op_add c em insn n)" "keeps_some e (op_sbb em insn n)"
    "keeps_some e (op_inc em insn n)" "keeps_some e (op_dec em insn n)" "keeps_some e (op_neg em insn n)"
    "keeps_some e (op_or em insn n)" "keeps_some e (op_xor em insn n)"
  unfolding op_add_def op_sbb_def op_inc_def op_dec_def op_neg_def op_or_def op_xor_def Let_def
  by (intro keeps assms | assumption)+

lemma keeps_shift_handlers [keeps]:
  assumes "keeps e em"
  shows "keeps_some e (op_shl em insn n)" "keeps_some e (op_shr em insn n)"
    "keeps_some e (op_sar em insn n)" "keeps_some e (op_rol em insn n)" "keeps_some e (op_ror em insn n)"
    "keeps_some e (op_bit_test mn em insn n)"
  unfolding op_shl_def op_shr_def op_sar_def op_rol_def op_ror_def op_bit_test_def Let_def
  by (intro keeps assms | assumption)+

lemma keeps_mul_handlers [keeps]:
  assumes "keeps e em"
  shows "keeps_some e (op_mul em insn n)" "keeps_some e (op_imul em insn n)"
    "keeps_some e (op_div em v n)" "keeps_some e (op_idiv em v n)"
  unfolding op_mul_def op_imul_def op_imul_wide_def op_imul_one_def op_imul_more_def op_div_def
    op_idiv_def op_idiv_wide_def Let_def
  by (intro keeps assms | assumption)+


lemma keeps_data_handlers [keeps]:
  assumes "keeps e em"
  shows "keeps_some e (op_push em insn n)" "keeps_some e (op_pop em insn n)"
    "keeps_some e (op_xchg em insn)" "keeps_some e (op_xadd em insn n)"
    "keeps_some e (op_cmpxchg em insn n)" "keeps_some e (sign_fill em i n' j v)"
    "keeps_some e (sign_widen em i n' j m)" "keeps_some e (op_leave em)"
  unfolding op_push_def op_pop_def op_xchg_def op_xadd_def op_cmpxchg_def sign_fill_def
    sign_widen_def op_leave_def Let_def
  by (intro keeps assms | assumption)+

lemma keeps_stepped [keeps]: "keeps_some e r \<Longrightarrow> keeps_out e (stepped r)"
  by (auto simp: keeps_some_def keeps_out_def stepped_def)

lemma keeps_out_Some [keeps]: "keeps e em \<Longrightarrow> keeps_out e (Some (r, t, em))"
  by (simp add: keeps_out_def)

lemma keeps_out_bind [keeps]:
  "keeps_some e m \<Longrightarrow> (\<And>em. keeps e em \<Longrightarrow> keeps_out e (f em)) \<Longrightarrow> keeps_out e (m \<bind> f)"
  by (auto simp: keeps_out_def keeps_some_def bind_eq_Some_conv)

lemma keeps_out_bind_with [keeps]:
  "keeps_with e m \<Longrightarrow> (\<And>x em. keeps e em \<Longrightarrow> keeps_out e (f x em)) \<Longrightarrow>
     keeps_out e (m \<bind> (\<lambda>(x, em). f x em))"
  by (auto simp: keeps_out_def keeps_with_def bind_eq_Some_conv)

lemma keeps_out_read: "(\<And>x. keeps_out e (f x)) \<Longrightarrow> keeps_out e (m \<bind> f)"
  by (auto simp: keeps_out_def bind_eq_Some_conv)

lemmas keeps_out_reads [keeps] =
  keeps_out_read [where 'a = u64] keeps_out_read [where 'a = bool]

lemma keeps_out_if [keeps]:
  "(c \<Longrightarrow> keeps_out e a) \<Longrightarrow> (\<not> c \<Longrightarrow> keeps_out e b) \<Longrightarrow> keeps_out e (if c then a else b)"
  by simp

lemma keeps_exec_data [keeps]: "keeps e em \<Longrightarrow> keeps_some e (exec_data mn em insn n)"
  by (cases mn; simp only: exec_data_def data_mnemonic.case; (intro keeps | assumption)+)

lemma keeps_exec_arith [keeps]: "keeps e em \<Longrightarrow> keeps_out e (exec_arith mn em insn n)"
  by (cases mn; simp only: exec_arith_def op_divide_def arith_mnemonic.case; (intro keeps | assumption)+)

lemma keeps_exec_shift [keeps]: "keeps e em \<Longrightarrow> keeps_some e (exec_shift mn em insn n)"
  by (cases mn; simp only: exec_shift_def shift_mnemonic.case; (intro keeps | assumption)+)

lemma keeps_exec_simd [keeps]: "keeps e em \<Longrightarrow> keeps_out e (exec_simd mn em insn)"
  by (cases mn; simp only: exec_simd_def simd_copy_def simd_xor_def simd_byte_shift_def Let_def
      simd_mnemonic.case; (intro keeps | assumption)+)

lemma keeps_exec_flow [keeps]: "keeps e em \<Longrightarrow> keeps_out e (exec_flow mn em insn)"
  by (cases mn; simp only: exec_flow_def op_ret_def op_jump_if_def flow_mnemonic.case;
      (intro keeps | assumption)+)

lemma keeps_dispatch [keeps]: "keeps e em \<Longrightarrow> keeps_out e (dispatch em insn)"
  by (cases "di_zyd_mnem insn"; simp only: dispatch_def op_jump_if_def zydis_mnemonic.case;
      (intro keeps | assumption)+)

lemma execute_keeps: "execute_opcode em insn = Some (r, em') \<Longrightarrow> keeps em em'"
proof -
  assume "execute_opcode em insn = Some (r, em')"
  then obtain em1 t em2 where pc: "set_program_counter em (di_va insn) = Some em1"
    and d: "dispatch em1 insn = Some (r, t, em2)"
    and e: "if r = kContinue then set_program_counter em2 (case t of Some va \<Rightarrow> va | None \<Rightarrow> next_va insn) = Some em'
      else em' = em2"
    by (auto simp: execute_opcode_def bind_eq_Some_conv split: if_split_asm)
  have k1: "keeps em em1"
    using pc keeps_set_reg [of em em] by (auto simp: set_program_counter_def keeps_some_def)
  have k2: "keeps em em2" using keeps_dispatch [OF k1, of insn] d by (simp add: keeps_out_def)
  show ?thesis
    using e k2 keeps_set_reg [OF k2] by (auto simp: set_program_counter_def keeps_some_def split: if_split_asm)
qed


section \<open>Stopping and going on\<close>

lemma stepped_result: "stepped r = Some (x, t, em) \<Longrightarrow> x = kContinue \<and> t = None \<and> r = Some em"
  by (auto simp: stepped_def)

lemma dispatch_stop: "dispatch em insn = Some (r, t, em') \<Longrightarrow> r \<noteq> kContinue \<Longrightarrow> em' = em"
proof -
  assume d: "dispatch em insn = Some (r, t, em')" and r: "r \<noteq> kContinue"
  have "exec_flow mn em insn = Some (r, t, em') \<Longrightarrow> em' = em" for mn
    using r by (cases mn) (auto simp: exec_flow_def op_jump_if_def op_ret_def bind_eq_Some_conv
        dest!: stepped_result split: if_split_asm)
  moreover have "exec_arith mn em insn n = Some (r, t, em') \<Longrightarrow> em' = em" for mn n
    using r by (cases mn) (auto simp: exec_arith_def op_divide_def bind_eq_Some_conv
        dest!: stepped_result split: if_split_asm)
  moreover have "exec_simd mn em insn = Some (r, t, em') \<Longrightarrow> em' = em" for mn
    using r by (cases mn) (auto simp: exec_simd_def simd_copy_def simd_xor_def simd_byte_shift_def
        dest!: stepped_result split: if_split_asm)
  ultimately show ?thesis
    using d r by (cases "di_zyd_mnem insn")
      (auto simp: dispatch_def op_jump_if_def bind_eq_Some_conv dest!: stepped_result split: if_split_asm)
qed

definition may_transfer :: "zydis_mnemonic \<Rightarrow> bool" where
  "may_transfer mn = (case mn of ZM_Flow m \<Rightarrow> m \<noteq> LEAVE | ZM_J _ \<Rightarrow> True | _ \<Rightarrow> False)"

lemma dispatch_falls_through:
  "dispatch em insn = Some (r, t, em') \<Longrightarrow> \<not> may_transfer (di_zyd_mnem insn) \<Longrightarrow> t = None"
proof -
  assume d: "dispatch em insn = Some (r, t, em')" and m: "\<not> may_transfer (di_zyd_mnem insn)"
  have "exec_arith mn em insn n = Some (r, t, em') \<Longrightarrow> t = None" for mn n
    by (cases mn) (auto simp: exec_arith_def op_divide_def bind_eq_Some_conv
        dest!: stepped_result split: if_split_asm)
  moreover have "exec_simd mn em insn = Some (r, t, em') \<Longrightarrow> t = None" for mn
    by (cases mn) (auto simp: exec_simd_def simd_copy_def simd_xor_def simd_byte_shift_def
        dest!: stepped_result split: if_split_asm)
  ultimately show ?thesis
    using d m by (cases "di_zyd_mnem insn")
      (auto simp: dispatch_def may_transfer_def exec_flow_def dest!: stepped_result)
qed

lemma pc_slot: "lane_slot (pc_index em) = pc_index em" "pc_index em < kRegSlots"
  by (simp_all add: pc_index_def kRegRip_def kRegEip_def lane_slot_def kRegSlots_def)

lemma addr_mask_real: "em_ok em \<Longrightarrow> rf_real_mask (em_regs em) = addr_mask em"
  by (auto simp: em_ok_def rf_ok_def addr_mask_def mask_eq_exp_minus_1 split: if_split_asm)

lemma pc_after_set:
  assumes "em_ok em" and "set_program_counter em va = Some em'"
  shows "program_counter em' = Some (va AND addr_mask em)"
proof -
  have ok: "rf_ok (em_regs em)" using assms(1) by (simp add: em_ok_def)
  obtain rf where rf: "set_register (em_regs em) (pc_index em) va = Some rf" and em': "em' = em\<lparr>em_regs := rf\<rparr>"
    using assms(2) by (auto simp: set_program_counter_def set_reg_def)
  have at: "lane_at (pc_index em) < 64" using whole_slot_offset [OF pc_slot(1), of em] by (simp add: lane_at_def)
  obtain x where x: "set_register (em_regs em) (pc_index em) va =
        Some ((em_regs em)\<lparr>rf_vals := (rf_vals (em_regs em))[slot_of (pc_index em) := x]\<rparr>)"
    and b: "\<And>k. bit x k = (bit (rf_real_mask (em_regs em)) k \<and>
       (if zx_lane (em_regs em) (pc_index em) then bit va k
        else if covers (pc_index em) k then bit va (k - lane_at (pc_index em))
        else bit (rf_vals (em_regs em) ! slot_of (pc_index em)) k))"
    using written_slot [of "pc_index em" "em_regs em" va, OF _ at] pc_slot [of em] by auto
  have len: "slot_of (pc_index em) < length (rf_vals (em_regs em))"
    using ok pc_slot [of em] by (simp add: rf_ok_def kRegSlots_def word_less_nat_alt)
  have v: "rf_vals rf ! slot_of (pc_index em) = x" using rf x len by auto
  have "get_register rf (pc_index em) = Some (va AND rf_real_mask (em_regs em))"
    using read_back [OF ok at _ _ b v] pc_slot [of em] by simp
  then show ?thesis
    using addr_mask_real [OF assms(1)] em' by (simp add: program_counter_def pc_index_def)
qed

fun run_opcodes :: "emulator \<Rightarrow> decoded_insn list \<Rightarrow> emulator option" where
  "run_opcodes em [] = Some em"
| "run_opcodes em (insn # insns) = do {
     (r, em) \<leftarrow> execute_opcode em insn;
     run_opcodes em insns
   }"

lemma run_keeps: "run_opcodes em insns = Some em' \<Longrightarrow> keeps em em'"
  by (induction em insns rule: run_opcodes.induct)
    (auto simp: bind_eq_Some_conv intro: keeps_trans execute_keeps)

section \<open>Properties\<close>

text \<open>
  C34: every instruction leaves a well-formed emulator: registers within the width of the
  architecture, eighteen slots and sixteen vector registers of sixteen bytes, an overlay with
  distinct keys within its cap; and no instruction touches the memory maps, the cap or the
  architecture.
\<close>

theorem execute_invariant:
  assumes "em_ok em" and "execute_opcode em insn = Some (r, em')"
  shows "em_ok em' \<and> same_frame em em'"
  using execute_keeps [OF assms(2)] assms(1) by (simp add: keeps_def)

text \<open>
  An instruction that does not continue (unsupported, breakpoint, bad opcode, division by
  zero, port access) changes nothing but the program counter, which stands on it.
\<close>

theorem stopping_changes_nothing:
  assumes "execute_opcode em insn = Some (r, em')" and "r \<noteq> kContinue"
  shows "set_program_counter em (di_va insn) = Some em'"
  using assms dispatch_stop
  by (fastforce simp: execute_opcode_def bind_eq_Some_conv split: if_split_asm)

text \<open>
  After an instruction that continues, the program counter is an address of the
  architecture, and it is the next instruction's unless the instruction transfers control.
\<close>

theorem program_counter_advances:
  assumes ok: "em_ok em" and ex: "execute_opcode em insn = Some (kContinue, em')"
  shows "\<exists>va. program_counter em' = Some (va AND addr_mask em) \<and>
    (\<not> may_transfer (di_zyd_mnem insn) \<longrightarrow> va = next_va insn)"
proof -
  obtain em1 t em2 where pc: "set_program_counter em (di_va insn) = Some em1"
    and d: "dispatch em1 insn = Some (kContinue, t, em2)"
    and e: "set_program_counter em2 (case t of Some va \<Rightarrow> va | None \<Rightarrow> next_va insn) = Some em'"
    using ex by (auto simp: execute_opcode_def bind_eq_Some_conv split: if_split_asm)
  have k1: "keeps em em1"
    using pc keeps_set_reg [of em em] by (auto simp: set_program_counter_def keeps_some_def)
  have k2: "keeps em em2" using keeps_dispatch [OF k1, of insn] d by (simp add: keeps_out_def)
  then have "em_ok em2" "addr_mask em2 = addr_mask em"
    using ok by (auto simp: keeps_def same_frame_def addr_mask_def)
  then show ?thesis
    using pc_after_set [OF _ e] dispatch_falls_through [OF d] by auto
qed

text \<open>
  whatever instructions run, restoring the snapshots of registers and memory taken before
  gives back the emulator as it was, which the work queue of the analysis relies on.
\<close>

theorem snapshot_rolls_back:
  assumes "run_opcodes em insns = Some em'"
  shows "em'\<lparr>em_regs := rf_restore (em_regs em') (rf_snapshot (em_regs em)),
             em_mem := mem_restore (em_mem em') (mem_snapshot (em_mem em))\<rparr> = em"
  using run_keeps [OF assms] regs.restore_snap mems.restore_snap
  by (cases em, cases em') (auto simp: keeps_def same_frame_def)


section \<open>A concrete run\<close>

text \<open>\<open>mov ecx, eax\<close> at 0x401000 and \<open>int3\<close> after it, on i386.\<close>

definition reg_operand :: "gpr \<Rightarrow> decoded_operand" where
  "reg_operand g = default_operand\<lparr>do_kind := kReg, do_base_reg := ZR_32 g, do_width_bytes := 4\<rparr>"

definition plain_insn :: "u64 \<Rightarrow> nat \<Rightarrow> zydis_mnemonic \<Rightarrow> decoded_operand list \<Rightarrow> decoded_insn" where
  "plain_insn va len mnem ops = \<lparr>di_va = va, di_length = len, di_zyd_mnem = mnem,
     di_mnemonic_str = ''op'', di_operands = ops, di_operand_count = length ops,
     di_has_prefix_fs = False, di_has_prefix_gs = False, di_is_call = False, di_is_jump = False,
     di_is_conditional = False, di_is_return = False, di_branch_target = None, di_is_fallthrough = True\<rparr>"

definition mov_ecx_eax :: decoded_insn where
  "mov_ecx_eax = plain_insn 0x401000 2 (ZM_Data MOV) [reg_operand RCX, reg_operand RAX]"

definition int3_insn :: decoded_insn where
  "int3_insn = plain_insn 0x401002 1 (ZM_Flow INT3) []"

definition demo_emulator :: "bool \<Rightarrow> emulator" where
  "demo_emulator is_64bit = (emulator_new is_64bit)\<lparr>em_mem := small_memory\<rparr>"

lemma new_emulator_ok: "em_ok (emulator_new b)"
  by (simp add: em_ok_def emulator_new_def rf_new_ok mem_ok_def memory_new_def) (simp add: register_file_new_def)

lemma demo_emulator_ok: "em_ok (demo_emulator b)"
  using new_emulator_ok [of b] by (simp add: em_ok_def demo_emulator_def mem_ok_def small_memory_defs)

lemmas demo_insns = mov_ecx_eax_def int3_insn_def plain_insn_def reg_operand_def default_operand_def
  next_va_def operand_def dsize_of_def may_transfer_def

lemmas demo_regs = demo_emulator_def emulator_new_def register_file_new_def pc_index_def kRegEip_def
  kRegRip_def kRegEax_def kRegEcx_def set_reg_def set_program_counter_def set_register_def
  get_register_def lane_slot_def kRegSlots_def kRMetaLow32_def reg_index_from_zydis_def
  reg_index_i386_def in_i386_def has_high_byte_def gpr_slot_def kRegRax_def kRegRcx_def

lemmas demo_exec = execute_opcode_def dispatch_def exec_flow_def exec_data_def exec_arith_def
  exec_shift_def stepped_def get_oper_value_def set_oper_value_def register_value_def Let_def

lemma mov_runs: "\<exists>em'. execute_opcode (demo_emulator False) mov_ecx_eax = Some (kContinue, em')"
  by (simp add: demo_insns demo_regs demo_exec)

lemma int3_runs: "\<exists>em'. execute_opcode (demo_emulator False) int3_insn = Some (kBreakpoint, em')"
  by (simp add: demo_insns demo_regs demo_exec)

theorem execute_invariant_witness:
  "\<exists>em'. execute_opcode (demo_emulator False) mov_ecx_eax = Some (kContinue, em') \<and> em_ok em'"
  using mov_runs execute_invariant [OF demo_emulator_ok] by blast

theorem stopping_changes_nothing_witness:
  "\<exists>em'. execute_opcode (demo_emulator False) int3_insn = Some (kBreakpoint, em') \<and>
     set_program_counter (demo_emulator False) 0x401002 = Some em'"
proof -
  obtain em' where e: "execute_opcode (demo_emulator False) int3_insn = Some (kBreakpoint, em')"
    using int3_runs by blast
  with stopping_changes_nothing [OF e] show ?thesis by (simp add: int3_insn_def plain_insn_def)
qed

theorem program_counter_advances_witness:
  "\<exists>em'. execute_opcode (demo_emulator False) mov_ecx_eax = Some (kContinue, em') \<and>
     program_counter em' = Some 0x401002"
proof -
  obtain em' where e: "execute_opcode (demo_emulator False) mov_ecx_eax = Some (kContinue, em')"
    using mov_runs by blast
  with program_counter_advances [OF demo_emulator_ok e] show ?thesis
    by (auto simp: mov_ecx_eax_def plain_insn_def may_transfer_def next_va_def addr_mask_def demo_emulator_def emulator_new_def)
qed

theorem snapshot_rolls_back_witness:
  "\<exists>em'. run_opcodes (demo_emulator False) [mov_ecx_eax] = Some em' \<and>
     mem_restore (em_mem em') (mem_snapshot (em_mem (demo_emulator False))) = em_mem (demo_emulator False)"
proof -
  obtain em' where "execute_opcode (demo_emulator False) mov_ecx_eax = Some (kContinue, em')"
    using mov_runs by blast
  then have r: "run_opcodes (demo_emulator False) [mov_ecx_eax] = Some em'" by simp
  from snapshot_rolls_back [OF r] have "em_mem (em'\<lparr>em_regs := rf_restore (em_regs em') (rf_snapshot (em_regs (demo_emulator False))),
      em_mem := mem_restore (em_mem em') (mem_snapshot (em_mem (demo_emulator False)))\<rparr>) = em_mem (demo_emulator False)"
    by (rule arg_cong)
  with r show ?thesis by simp
qed

end
