(* ===== verification/Emu_Correct.thy ===== *)
theory Emu_Correct
  imports Emu_Keeps
begin

text \<open>
  What the instructions compute: the flags of a comparison and the conditional jumps that read
  them, the arithmetic of division, the stack, and the successors of an instruction; and the
  places where the code leaves what the processor, or the language, defines.
\<close>

section \<open>Flags of a subtraction\<close>

lemma put_flag_ok: "rf_ok (em_regs em) \<Longrightarrow> rf_ok (em_regs (put_flag f b em))"
  by (simp add: put_flag_def rf_keeps)

lemma flag_put_same: "rf_ok (em_regs em) \<Longrightarrow> f \<noteq> 0 \<Longrightarrow> get_flag (em_regs (put_flag f b em)) f = b"
  by (simp add: put_flag_def get_set_flag_same)

lemma flag_put_other:
  "rf_ok (em_regs em) \<Longrightarrow> f AND g = 0 \<Longrightarrow> get_flag (em_regs (put_flag f b em)) g = get_flag (em_regs em) g"
  by (simp add: put_flag_def get_set_flag_other)

lemmas flag_puts = put_flag_ok flag_put_same flag_put_other flag_masks

lemma sint_small: "uint v < 2 ^ 63 \<Longrightarrow> sint v = uint v" for v :: u64
proof -
  assume v: "uint v < 2 ^ 63"
  have "(- (2 ^ 63) :: int) \<le> 0" by simp
  also have "0 \<le> uint v" by simp
  finally have "- (2 ^ 63) \<le> uint v" .
  with v have "signed_take_bit 63 (uint v) = uint v" by (intro signed_take_bit_int_eq_self)
  then show ?thesis by (simp add: sint_uint)
qed

lemma sint_unsigned_of:
  assumes "n < 8" shows "sint (unsigned_of v n) = uint (unsigned_of v n)" "uint (unsigned_of v n) < 2 ^ (8 * n)"
proof -
  have u: "uint (unsigned_of v n) = uint v mod 2 ^ (8 * n)" using assms by (simp add: uint_unsigned_of)
  then show lt: "uint (unsigned_of v n) < 2 ^ (8 * n)" by simp
  have "(2::int) ^ (8 * n) \<le> 2 ^ 63" using assms by (intro power_increasing) auto
  with lt have "uint (unsigned_of v n) < 2 ^ 63" by linarith
  then show "sint (unsigned_of v n) = uint (unsigned_of v n)" by (rule sint_small)
qed

text \<open>The sign bit of a difference that may be one bit wider than the operands.\<close>

lemma bit_of_difference:
  fixes y :: int
  assumes "- (2 ^ Suc k) < y" and "y < 2 ^ Suc k"
  shows "bit y k = (2 ^ k \<le> y \<or> - (2 ^ k) \<le> y \<and> y < 0)"
proof -
  have e: "bit y k = odd (y div 2 ^ k)" by (simp add: bit_iff_odd)
  have p: "0 < (2::int) ^ k" by simp
  consider "y < - (2 ^ k)" | "- (2 ^ k) \<le> y" "y < 0" | "0 \<le> y" "y < 2 ^ k" | "2 ^ k \<le> y" by linarith
  then show ?thesis
  proof cases
    case 1
    then have "y div 2 ^ k = -2" using assms by (intro int_div_pos_eq [of _ _ _ "y + 2 * 2 ^ k"]) auto
    moreover have "\<not> 2 ^ k \<le> y" "\<not> - (2 ^ k) \<le> y" using 1 p by linarith+
    ultimately show ?thesis using e by simp
  next
    case 2
    then have "y div 2 ^ k = -1" by (intro int_div_pos_eq [of _ _ _ "y + 2 ^ k"]) auto
    with 2 e show ?thesis by simp
  next
    case 3
    then show ?thesis using e by simp
  next
    case 4
    then have "y div 2 ^ k = 1" using assms by (intro int_div_pos_eq [of _ _ _ "y - 2 ^ k"]) auto
    with 4 e show ?thesis by simp
  qed
qed

lemma difference_bit:
  assumes n: "0 < n" "n < 8"
  shows "bit (sint (unsigned_of a n) - sint (unsigned_of b n)) (8 * n - 1)
    = bit (sint (signed_of a n) - sint (signed_of b n)) (8 * n - 1)"
proof -
  let ?k = "8 * n - 1"
  have k: "Suc ?k = 8 * n" using n by simp
  have t: "bit x ?k = bit (take_bit (8 * n) x) ?k" for x :: int
    using n by (simp add: bit_take_bit_iff)
  have m: "sint (unsigned_of v n) mod 2 ^ (8 * n) = sint (signed_of v n) mod 2 ^ (8 * n)" for v
  proof -
    have "take_bit (8 * n) (signed_take_bit ?k (uint v)) = take_bit (8 * n) (uint v)"
      using n by (simp add: take_bit_signed_take_bit)
    then show ?thesis using n by (simp add: sint_unsigned_of(1) uint_unsigned_of sint_signed_of take_bit_eq_mod)
  qed
  have "take_bit (8 * n) (sint (unsigned_of a n) - sint (unsigned_of b n))
      = take_bit (8 * n) (sint (signed_of a n) - sint (signed_of b n))"
    unfolding take_bit_eq_mod using m by (metis mod_diff_cong)
  then show ?thesis using t by metis
qed

lemma signed_of_range:
  assumes "0 < n" "n \<le> 8"
  shows "- (2 ^ (8 * n - 1)) \<le> sint (signed_of v n)" "sint (signed_of v n) < 2 ^ (8 * n - 1)"
  using assms by (simp_all add: sint_signed_of signed_take_bit_int_greater_eq_minus_exp
      signed_take_bit_int_less_exp del: One_nat_def)

lemma narrow_powers:
  assumes "0 < n" "n < 8"
  shows "(2::int) ^ (8 * n) = 2 * 2 ^ (8 * n - 1)" "(2::int) ^ (8 * n - 1) \<le> 2 ^ 55"
proof -
  have "8 * n = Suc (8 * n - 1)" using assms by simp
  then show "(2::int) ^ (8 * n) = 2 * 2 ^ (8 * n - 1)" by (metis power_Suc)
  show "(2::int) ^ (8 * n - 1) \<le> 2 ^ 55" using assms by (intro power_increasing) auto
qed

lemma sub_flags:
  assumes ok: "em_ok em" and n: "0 < n" "n < 8"
  shows "\<exists>res em'. int_sub_base em src dst n n = Some (res, em') \<and> em_ok em' \<and>
    res = word_of_int (uint (unsigned_of dst n) - uint (unsigned_of src n)) \<and>
    condition_holds em' CC_B = (unsigned_of dst n < unsigned_of src n) \<and>
    condition_holds em' CC_Z = (sint (signed_of dst n) = sint (signed_of src n)) \<and>
    condition_holds em' CC_L = (sint (signed_of dst n) < sint (signed_of src n) \<and>
      sint (signed_of dst n) - sint (signed_of src n) \<noteq> - (2 ^ (8 * n - 1)))"
proof -
  let ?k = "8 * n - 1"
  let ?u = "sint (unsigned_of dst n) - sint (unsigned_of src n)"
  let ?s = "sint (signed_of dst n) - sint (signed_of src n)"
  note pw = narrow_powers [OF n] and su = sint_unsigned_of [OF n(2)]
  have n8: "n \<le> 8" using n by simp
  have r: "- (2 ^ ?k) \<le> sint (signed_of v n)" "sint (signed_of v n) < 2 ^ ?k" for v
    using signed_of_range [OF n(1) n8] by blast+
  have ub: "0 \<le> uint (unsigned_of v n)" for v by simp
  have big: "(2::int) ^ 63 = 9223372036854775808" "(2::int) ^ 55 = 36028797018963968" by simp_all
  have uf: "fits_i64 ?u"
    unfolding fits_i64_def big su(1)
    using su(2) [of dst] su(2) [of src] ub [of dst] ub [of src] pw [unfolded big] by linarith
  have sf: "fits_i64 ?s"
    unfolding fits_i64_def big using r [of dst] r [of src] pw(2) [unfolded big] by linarith
  let ?ures = "word_of_int ?u :: u64" and ?sres = "word_of_int ?s :: u64"
  have us: "sint ?ures = ?u" "sint ?sres = ?s"
    using sint_checked [OF checked_i64_Some [OF uf]] sint_checked [OF checked_i64_Some [OF sf]] .
  have "(?u < 0 \<or> 2 ^ (8 * n) \<le> ?u) = (uint (unsigned_of dst n) < uint (unsigned_of src n))"
    using su [of dst] su [of src] ub [of dst] ub [of src] by linarith
  then have cf: "is_unsigned_carry ?ures n = (unsigned_of dst n < unsigned_of src n)"
    unfolding unsigned_carry_narrow [OF n(2)] us(1) word_less_def atLeastLessThan_iff by linarith
  have zf: "(?sres = 0) = (sint (signed_of dst n) = sint (signed_of src n))"
    using us(2) by (metis eq_iff_diff_eq_0 signed_0 of_int_0)
  have k64: "?k < 64" using n by linarith
  have sfl: "is_signed ?ures n = bit ?s ?k"
    unfolding is_signed_bit [OF n(1) n8] bit_word_of_int_iff difference_bit [OF n, symmetric] using k64 by simp
  have ofl: "is_signed_overflow ?sres n = (?s \<notin> {- (2 ^ ?k) <..< 2 ^ ?k})"
    unfolding signed_overflow_range [OF n(1) n8] us(2) by simp
  have "(bit ?s ?k \<noteq> (?s \<notin> {- (2 ^ ?k) <..< 2 ^ ?k})) = (?s < 0 \<and> ?s \<noteq> - (2 ^ ?k))"
    using bit_of_difference [of ?k ?s] r [of dst] r [of src] by auto
  then have lt: "(is_signed ?ures n \<noteq> is_signed_overflow ?sres n) =
      (sint (signed_of dst n) < sint (signed_of src n) \<and> ?s \<noteq> - (2 ^ ?k))"
    unfolding sfl ofl by auto
  define em' where "em' = put_flag kEflagsPf (is_parity_byte ?ures)
          (put_flag kEflagsZf (?sres = 0)
          (put_flag kEflagsSf (is_signed ?ures n)
          (put_flag kEflagsCf (is_unsigned_carry ?ures n)
          (put_flag kEflagsAf (is_aux_carry_sub (unsigned_of src n) (unsigned_of dst n))
          (put_flag kEflagsOf (is_signed_overflow ?sres n) em)))))"
  have ib: "int_sub_base em src dst n n = Some (?ures, em')"
    by (simp add: int_sub_base_def Let_def checked_i64_Some [OF uf] checked_i64_Some [OF sf] em'_def)
  have rf: "rf_ok (em_regs em)" using ok by (simp add: em_ok_def)
  have "keeps em em'" using keeps_int_sub_base [of em em] ib by (simp add: keeps_with_def)
  then have "em_ok em'" using ok by (simp add: keeps_def)
  moreover have "condition_holds em' CC_B = is_unsigned_carry ?ures n"
    "condition_holds em' CC_Z = (?sres = 0)"
    "condition_holds em' CC_L = (is_signed ?ures n \<noteq> is_signed_overflow ?sres n)"
    using rf by (simp_all add: condition_holds_def em'_def flag_puts)
  ultimately show ?thesis
    using ib cf zf lt su(1) by (intro exI [of _ ?ures] exI [of _ em']) simp
qed


section \<open>Undefined behaviour\<close>

lemma int_sub_base_64:
  "int_sub_base em src dst 8 8 = None \<longleftrightarrow> \<not> fits_i64 (sint dst - sint src)"
proof -
  have u: "unsigned_of v 8 = v" for v by (rule bit_word_eqI) (simp add: bit_unsigned_of)
  have "v - u_max 8 - 1 = v" for v by (simp add: u_max_def)
  then have "signed_of v 8 = v" for v unfolding signed_of_def Let_def u by simp
  with u show ?thesis by (auto simp: int_sub_base_def Let_def checked_i64_def)
qed

lemma unat_of_nat64: "m < 2 ^ 64 \<Longrightarrow> unat (of_nat m :: u64) = m"
  by (simp add: unat_of_nat)

lemma rest_of_width:
  assumes "n \<le> 2" and "of_nat (8 * n) < c" and "c \<le> 31"
  shows "shr64 v (of_nat (8 * n) - c) = None" "shl64 v (of_nat (8 * n) - c) = None"
proof -
  have n: "unat (of_nat (8 * n) :: u64) = 8 * n" by (rule unat_of_nat64) (use assms(1) in simp)
  have c: "8 * n < unat c" "unat c \<le> 31"
    using assms(2,3) unfolding word_less_nat_alt word_le_nat_alt n by simp_all
  have "unat (of_nat (8 * n) - c) = 2 ^ 64 + 8 * n - unat c"
    unfolding unat_sub_if' n using c by simp
  then have "64 \<le> unat (of_nat (8 * n) - c)" using c by simp
  then have "\<not> of_nat (8 * n) - c < (64 :: u64)" by (simp add: word_less_nat_alt)
  then show "shr64 v (of_nat (8 * n) - c) = None" "shl64 v (of_nat (8 * n) - c) = None"
    by (simp_all add: shr64_def shl64_def)
qed

lemma gpr_bytes_past: "8 \<le> i + n \<Longrightarrow> 0 < n \<Longrightarrow> i \<le> 15 \<Longrightarrow> i + n \<le> 16 \<Longrightarrow> 8 < i + n \<Longrightarrow> gpr_bytes n i v = None"
proof (induction n i v rule: gpr_bytes.induct)
  case (2 n i v)
  show ?case
  proof (cases "i < 8")
    case True
    with 2 show ?thesis by (cases "shr64 v (of_nat (8 * i))") auto
  next
    case False
    have "unat (of_nat (8 * i) :: u64) = 8 * i" by (rule unat_of_nat64) (use 2 in simp)
    with False have "\<not> of_nat (8 * i) < (64 :: u64)" unfolding word_less_nat_alt by simp
    then show ?thesis by (simp add: shr64_def)
  qed
qed simp

section \<open>The stack\<close>

lemma whole_slot_set:
  "lane_slot i = i \<Longrightarrow> i < kRegSlots \<Longrightarrow>
     set_register rf i v = Some (rf\<lparr>rf_vals := (rf_vals rf)[unat i := v AND rf_real_mask rf]\<rparr>)"
  using zx_not_slot [of rf i] by (auto simp: set_register_def zx_lane_def Let_def dest: leD)

lemma whole_slot_get: "lane_slot i = i \<Longrightarrow> i < kRegSlots \<Longrightarrow> get_register rf i = Some (rf_vals rf ! unat i)"
  by (auto simp: get_register_def Let_def dest: leD)

lemma esp_slot: "lane_slot kRegEsp = kRegEsp" "kRegEsp < kRegSlots" "unat kRegEsp = 4"
  by (simp_all add: kRegEsp_def lane_slot_def kRegSlots_def)

abbreviation esp_of :: "emulator \<Rightarrow> u64" where
  "esp_of em \<equiv> rf_vals (em_regs em) ! 4"

lemma get_esp: "get_reg em kRegEsp = Some (esp_of em)"
  using whole_slot_get [OF esp_slot(1,2)] by (simp add: esp_slot(3))

lemma set_esp:
  "em_ok em \<Longrightarrow> set_reg em kRegEsp v =
     Some (em\<lparr>em_regs := (em_regs em)\<lparr>rf_vals := (rf_vals (em_regs em))[4 := v AND addr_mask em]\<rparr>\<rparr>)"
  using whole_slot_set [OF esp_slot(1,2)] addr_mask_real [of em] by (simp add: set_reg_def esp_slot(3))

lemma slot_masked: "em_ok em \<Longrightarrow> s < 18 \<Longrightarrow> rf_vals (em_regs em) ! s AND addr_mask em = rf_vals (em_regs em) ! s"
proof -
  assume ok: "em_ok em" and s: "s < 18"
  then have "rf_vals (em_regs em) ! s AND rf_real_mask (em_regs em) = rf_vals (em_regs em) ! s"
    by (auto simp only: em_ok_def rf_ok_def list_all_length)
  then show ?thesis by (simp only: addr_mask_real [OF ok])
qed

lemma masked_below: "v \<le> w \<Longrightarrow> w AND addr_mask em = w \<Longrightarrow> v AND addr_mask em = v"
proof (cases "em_is_64bit em")
  case False
  assume le: "v \<le> w" and w: "w AND addr_mask em = w"
  have m: "x AND addr_mask em = take_bit 32 x" for x
    using False by (simp add: addr_mask_def take_bit_eq_mask mask_eq_exp_minus_1)
  have s: "take_bit 32 x = x \<longleftrightarrow> unat x < 2 ^ 32" for x :: u64
    by (metis take_bit_nat_eq_self_iff unsigned_take_bit_eq word_unat_eq_iff)
  from w le show ?thesis unfolding m s word_le_nat_alt by simp
next
  case True
  have m: "(0xFFFFFFFFFFFFFFFF :: u64) = -1" by simp
  have "addr_mask em = -1" using True unfolding addr_mask_def m by simp
  then show ?thesis by simp
qed

text \<open>A push that has room, and the pop that undoes it.\<close>

definition stack_room :: "emulator \<Rightarrow> nat \<Rightarrow> bool" where
  "stack_room em n \<longleftrightarrow> n \<le> 8 \<and> of_nat n \<le> esp_of em \<and> has_room (em_mem em) (esp_of em - of_nat n) n"

lemma push_result:
  assumes ok: "em_ok em" and room: "stack_room em n"
  shows "\<exists>me. do_push em v n = Some (em\<lparr>em_regs := (em_regs em)\<lparr>rf_vals :=
      (rf_vals (em_regs em))[4 := esp_of em - of_nat n]\<rparr>, em_mem := me\<rparr>) \<and>
    same_space (em_mem em) me \<and> read_value me (esp_of em - of_nat n) n = v AND u_max n \<and> mem_ok me"
proof -
  have n: "n \<le> 8" "of_nat n \<le> esp_of em" "has_room (em_mem em) (esp_of em - of_nat n) n"
    using room by (simp_all add: stack_room_def)
  obtain me where w: "write_value (em_mem em) (esp_of em - of_nat n) v n = Some me"
    and r: "read_value me (esp_of em - of_nat n) n = take_bit (8 * n) v"
    using value_written [OF n(3,1)] by blast
  have mo: "mem_ok me" using write_value_ok [OF _ w] ok by (simp add: em_ok_def)
  have ok': "em_ok (em\<lparr>em_mem := me\<rparr>)" using ok mo by (simp add: em_ok_def)
  have "esp_of em - of_nat n \<le> esp_of em" using n(2) by (rule word_sub_le)
  then have m: "(esp_of em - of_nat n) AND addr_mask em = esp_of em - of_nat n"
    using masked_below slot_masked [OF ok, of 4] by fastforce
  have "addr_mask (em\<lparr>em_mem := me\<rparr>) = addr_mask em" by (simp add: addr_mask_def)
  then have "do_push em v n = Some (em\<lparr>em_regs := (em_regs em)\<lparr>rf_vals :=
      (rf_vals (em_regs em))[4 := esp_of em - of_nat n]\<rparr>, em_mem := me\<rparr>)"
    using w m by (simp add: do_push_def get_esp set_esp [OF ok'])
  then show ?thesis
    using r n(1) write_value_space [OF w] mo by (auto simp: u_max_mask take_bit_eq_mask)
qed

section \<open>The halves of a dividend\<close>

lemma set_other_slot:
  assumes "lane_slot i < kRegSlots" "lane_at i < 64" "lane_slot j \<noteq> lane_slot i"
    and "set_register rf i v = Some rf'"
  shows "get_register rf' j = get_register rf j"
proof -
  have "unat (lane_slot j) \<noteq> unat (lane_slot i)" using assms(3) by (simp add: word_unat_eq_iff)
  then show ?thesis
    using written_slot [OF assms(1,2), of rf v] assms(4)
    by (auto simp: get_register_def Let_def nth_list_update)
qed

text \<open>An index that reads back what was written to it, cut to \<open>n\<close> bytes.\<close>

definition lane_of_bytes :: "register_file \<Rightarrow> u32 \<Rightarrow> nat \<Rightarrow> bool" where
  "lane_of_bytes rf i n \<longleftrightarrow> lane_slot i < kRegSlots \<and> lane_at i < 64 \<and>
     (lane_slot i = i \<or> lane_at i + lane_bits i \<le> (if rf_low32_zx rf then 64 else 32)) \<and>
     (if lane_slot i = i then rf_real_mask rf else width_mask (lane_width i)) = u_max n"

lemma lane_read_back:
  assumes ok: "rf_ok rf" and l: "lane_of_bytes rf i n"
  shows "\<exists>rf'. set_register rf i v = Some rf' \<and> get_register rf' i = Some (v AND u_max n)"
proof -
  have s: "lane_slot i < kRegSlots" and at: "lane_at i < 64"
    using l by (simp_all add: lane_of_bytes_def)
  obtain x where x: "set_register rf i v = Some (rf\<lparr>rf_vals := (rf_vals rf)[slot_of i := x]\<rparr>)"
    and b: "\<And>k. bit x k = (bit (rf_real_mask rf) k \<and>
       (if zx_lane rf i then bit v k else if covers i k then bit v (k - lane_at i)
        else bit (rf_vals rf ! slot_of i) k))"
    using written_slot [OF s at, of rf v] by blast
  have "slot_of i < length (rf_vals rf)"
    using ok s by (simp add: rf_ok_def kRegSlots_def word_less_nat_alt)
  then have "rf_vals (rf\<lparr>rf_vals := (rf_vals rf)[slot_of i := x]\<rparr>) ! slot_of i = x" by simp
  from read_back [OF ok at s _ b this] l x show ?thesis by (auto simp: lane_of_bytes_def)
qed

lemma pair_read_back:
  assumes ok: "em_ok em" and l: "lane_of_bytes (em_regs em) i n" "lane_of_bytes (em_regs em) j n"
    and d: "lane_slot i \<noteq> lane_slot j"
  shows "\<exists>em'. set_pair em i v j w = Some em' \<and>
    get_reg em' i = Some (v AND u_max n) \<and> get_reg em' j = Some (w AND u_max n)"
proof -
  have rf: "rf_ok (em_regs em)" using ok by (simp add: em_ok_def)
  obtain r1 where r1: "set_register (em_regs em) i v = Some r1" "get_register r1 i = Some (v AND u_max n)"
    using lane_read_back [OF rf l(1)] by blast
  have k: "rf_ok r1" "lane_of_bytes r1 j n"
    using set_register_ok [OF rf r1(1)] set_register_arch [OF r1(1)] l(2)
    by (auto simp: lane_of_bytes_def same_arch_def)
  obtain r2 where r2: "set_register r1 j w = Some r2" "get_register r2 j = Some (w AND u_max n)"
    using lane_read_back [OF k] by blast
  have "get_register r2 i = get_register r1 i"
    using l(2) d r2(1) by (intro set_other_slot [of j]) (auto simp: lane_of_bytes_def)
  then show ?thesis using r1 r2 by (auto simp: set_pair_def set_reg_def)
qed

lemma accumulator_lanes:
  assumes ok: "em_ok em" and n: "n = 2 \<or> n = 4 \<or> n = 8 \<and> em_is_64bit em" and b: "base \<in> {kRegEax, kRegEdx}"
  shows "lane_of_bytes (em_regs em) (lane_for em base n) n" "lane_slot (lane_for em base n) = base"
proof -
  have z: "rf_low32_zx (em_regs em) = em_is_64bit em" using ok by (simp add: em_ok_def)
  have m: "rf_real_mask (em_regs em) = addr_mask em" by (rule addr_mask_real [OF ok])
  show "lane_slot (lane_for em base n) = base"
    using n b by (auto simp: gp_lane_def make_meta_reg_def kRegEax_def kRegEdx_def lane_slot_def)
  show "lane_of_bytes (em_regs em) (lane_for em base n) n"
    using n b by (elim disjE conjE insertE emptyE; cases "em_is_64bit em"; simp add: lane_of_bytes_def
        gp_lane_def make_meta_reg_def kRegEax_def kRegEdx_def lane_slot_def kRegSlots_def lane_at_def
        lane_offset_def lane_bits_def lane_width_def z m addr_mask_def u_max_def width_mask_def)
qed

text \<open>The double word of the two halves, divided.\<close>

lemma join_halves:
  fixes d a :: u64
  assumes "n = 2 \<or> n = 4" and "unat d < 2 ^ (8 * n)" "unat a < 2 ^ (8 * n)"
  shows "unat (push_bit (8 * n) d + a) = unat d * 2 ^ (8 * n) + unat a"
proof -
  have le: "unat d * 2 ^ (8 * n) + unat a < 2 ^ (8 * n) * 2 ^ (8 * n)"
  proof -
    have "unat d * 2 ^ (8 * n) + unat a < (unat d + 1) * 2 ^ (8 * n)" using assms(3) by simp
    also have "\<dots> \<le> 2 ^ (8 * n) * 2 ^ (8 * n)" using assms(2) by (intro mult_le_mono1) simp
    finally show ?thesis .
  qed
  moreover have "(2::nat) ^ (8 * n) * 2 ^ (8 * n) \<le> 2 ^ 64"
    unfolding power_add [symmetric] using assms(1) by (intro power_increasing) auto
  ultimately have lt: "unat d * 2 ^ (8 * n) + unat a < 2 ^ 64" by linarith
  have "push_bit (8 * n) d + a = of_nat (unat d * 2 ^ (8 * n) + unat a)"
    by (simp add: push_bit_eq_mult)
  then show ?thesis using unat_of_nat64 [OF lt] by simp
qed

lemma quotient_fits: "d < v \<Longrightarrow> a < m \<Longrightarrow> (d * m + a) div v < (m :: nat)"
proof -
  assume d: "d < v" and a: "a < m"
  have "d * m + a < (d + 1) * m" using a by simp
  also have "\<dots> \<le> v * m" using d by (intro mult_le_mono1) simp
  finally show "(d * m + a) div v < m" by (simp add: less_mult_imp_div_less mult.commute)
qed

lemma and_u_max: "n \<le> 8 \<Longrightarrow> unat v < 2 ^ (8 * n) \<Longrightarrow> v AND u_max n = v"
  by (metis take_bit_eq_mask take_bit_nat_eq_self u_max_mask unsigned_take_bit_eq word_unat_eq_iff)

text \<open>Both forms of the division, in terms of the lanes.\<close>

lemma op_div_lanes:
  assumes n: "n = 2 \<or> n = 4 \<or> n = 8"
    and d: "get_reg em (lane_for em kRegEdx n) = Some d" and a: "get_reg em (lane_for em kRegEax n) = Some a"
  shows "op_div em val n =
    (let qr = if n = 8 then (quot (udiv128 d a val), rem (udiv128 d a val))
              else ((push_bit (8 * n) d + a) div val, (push_bit (8 * n) d + a) mod val) in
     set_pair em (lane_for em kRegEax n) (fst qr) (lane_for em kRegEdx n) (snd qr))"
proof -
  have l: "lane_for em b 2 = make_meta_reg 0 16 b" "lane_for em b 8 = b" for b
    by (simp_all add: gp_lane_def)
  show ?thesis
    using n d a by (elim disjE) (simp_all add: op_div_def l kRegAx_def kRegDx_def kRegRax_def
        kRegRdx_def Let_def)
qed

lemma divide_lanes:
  assumes ok: "em_ok em" and n: "n = 2 \<or> n = 4 \<or> n = 8 \<and> em_is_64bit em"
    and d: "get_reg em (lane_for em kRegEdx n) = Some d" and a: "get_reg em (lane_for em kRegEax n) = Some a"
    and bd: "unat d < 2 ^ (8 * n)" "unat a < 2 ^ (8 * n)" "unat val < 2 ^ (8 * n)" and lt: "unat d < unat val"
  shows "\<exists>em' q r. op_div em val n = Some em' \<and>
    get_reg em' (lane_for em kRegEax n) = Some q \<and> get_reg em' (lane_for em kRegEdx n) = Some r \<and>
    unat q = (unat d * 2 ^ (8 * n) + unat a) div unat val \<and>
    unat r = (unat d * 2 ^ (8 * n) + unat a) mod unat val"
proof -
  have n8: "n \<le> 8" using n by auto
  have nz: "val \<noteq> 0" using lt by auto
  define q where "q = (if n = 8 then quot (udiv128 d a val) else (push_bit (8 * n) d + a) div val)"
  define r where "r = (if n = 8 then rem (udiv128 d a val) else (push_bit (8 * n) d + a) mod val)"
  have o: "op_div em val n = set_pair em (lane_for em kRegEax n) q (lane_for em kRegEdx n) r"
    using op_div_lanes [OF _ d a, of val] n by (auto simp: q_def r_def)
  have qf: "(unat d * 2 ^ (8 * n) + unat a) div unat val < 2 ^ (8 * n)"
    by (rule quotient_fits [OF lt bd(2)])
  have u: "unat q = (unat d * 2 ^ (8 * n) + unat a) div unat val"
    "unat r = (unat d * 2 ^ (8 * n) + unat a) mod unat val"
  proof -
    have w: "unat (quot (udiv128 d a val)) = (unat d * 2 ^ 64 + unat a) div unat val mod 2 ^ 64"
      "unat (rem (udiv128 d a val)) = (unat d * 2 ^ 64 + unat a) mod unat val"
      using udiv128_divides [OF nz, of d a] by (simp_all only: dividend_def)
    have j: "n \<noteq> 8 \<Longrightarrow> unat (push_bit (8 * n) d + a) = unat d * 2 ^ (8 * n) + unat a"
      using join_halves [of n d a] n bd by auto
    show "unat q = (unat d * 2 ^ (8 * n) + unat a) div unat val"
      using w(1) j qf by (cases "n = 8") (simp_all add: q_def unat_div)
    show "unat r = (unat d * 2 ^ (8 * n) + unat a) mod unat val"
      using w(2) j by (cases "n = 8") (simp_all add: r_def unat_mod)
  qed
  have "unat r < unat val" using u(2) lt by simp
  then have f: "unat q < 2 ^ (8 * n)" "unat r < 2 ^ (8 * n)" using u qf bd(3) by simp_all
  have b: "kRegEax \<in> {kRegEax, kRegEdx}" "kRegEdx \<in> {kRegEax, kRegEdx}" "kRegEax \<noteq> kRegEdx"
    by (simp_all add: kRegEax_def kRegEdx_def)
  note la = accumulator_lanes [OF ok n b(1)] and ld = accumulator_lanes [OF ok n b(2)]
  have "lane_slot (lane_for em kRegEax n) \<noteq> lane_slot (lane_for em kRegEdx n)" using la(2) ld(2) b(3) by simp
  from pair_read_back [OF ok la(1) ld(1) this, of q r]
  show ?thesis unfolding o using u f n8 by (auto simp: and_u_max)
qed

section \<open>Jump tables\<close>

lemma walk_table_reference:
  "walk_table k me w base = map (\<lambda>d. \<lparr>br_va = d, br_flags = kBrCond\<rparr>)
     (takeWhile (is_valid_pointer me) (map (\<lambda>i. read_value me (base + of_nat (i * w)) w) [0..<k]))"
proof (induction k arbitrary: base)
  case (Suc k)
  have "[0..<Suc k] = 0 # map Suc [0..<k]" by (simp add: upt_conv_Cons map_Suc_upt del: upt_Suc)
  then have e: "map (\<lambda>i. read_value me (base + of_nat (i * w)) w) [0..<Suc k] =
      read_value me base w # map (\<lambda>i. read_value me (base + of_nat w + of_nat (i * w)) w) [0..<k]"
    by (simp add: comp_def algebra_simps del: upt_Suc)
  show ?case unfolding e by (simp add: Suc.IH Let_def)
qed simp

section \<open>Signed division\<close>

lemma sint_of_small:
  fixes y :: i64
  assumes "0 \<le> x" and "x \<le> sint y"
  shows "sint (word_of_int x :: i64) = x" and "sint (- word_of_int x :: i64) = - x"
proof -
  have "sint y < 2 ^ 63" using sint_less [of y] by simp
  then have f: "fits_i64 x" "fits_i64 (- x)" using assms by (simp_all add: fits_i64_def)
  show "sint (word_of_int x :: i64) = x" using sint_checked [OF checked_i64_Some [OF f(1)]] .
  show "sint (- word_of_int x :: i64) = - x" using sint_checked [OF checked_i64_Some [OF f(2)]] by simp
qed

lemma magnitude: "- (2 ^ 63) < sint x \<Longrightarrow>
    \<exists>n. (if sint x < 0 then checked_i64 (- sint x) else Some x) = Some n \<and> sint n = \<bar>sint x\<bar>" for x :: i64
proof (cases "sint x < 0")
  case True
  assume "- (2 ^ 63) < sint x"
  then have f: "fits_i64 (- sint x)" using True by (simp add: fits_i64_def)
  show ?thesis using True sint_checked [OF checked_i64_Some [OF f]] checked_i64_Some [OF f] by auto
qed simp

text \<open>Division that rounds towards zero, as the instruction defines it.\<close>

definition toward_zero :: "int \<Rightarrow> int \<Rightarrow> int" where
  "toward_zero a b = sgn a * sgn b * (\<bar>a\<bar> div \<bar>b\<bar>)"

definition trunc_mod :: "int \<Rightarrow> int \<Rightarrow> int" where
  "trunc_mod a b = sgn a * (\<bar>a\<bar> mod \<bar>b\<bar>)"

lemma toward_zero_mod: "b * toward_zero a b + trunc_mod a b = a"
proof -
  have "\<bar>b\<bar> * (\<bar>a\<bar> div \<bar>b\<bar>) + \<bar>a\<bar> mod \<bar>b\<bar> = \<bar>a\<bar>" by (rule mult_div_mod_eq)
  then have "sgn a * (\<bar>b\<bar> * (\<bar>a\<bar> div \<bar>b\<bar>) + \<bar>a\<bar> mod \<bar>b\<bar>) = a" by (simp add: sgn_mult_abs)
  moreover have "b * sgn b = \<bar>b\<bar>" by (simp add: abs_sgn)
  then have "b * toward_zero a b = sgn a * (\<bar>b\<bar> * (\<bar>a\<bar> div \<bar>b\<bar>))"
    unfolding toward_zero_def by (metis mult.assoc mult.left_commute)
  ultimately show ?thesis unfolding trunc_mod_def distrib_left by simp
qed

lemma trunc_by_signs:
  assumes "b \<noteq> 0"
  shows "toward_zero a b = (if (a < 0) = (b < 0) then \<bar>a\<bar> div \<bar>b\<bar> else - (\<bar>a\<bar> div \<bar>b\<bar>))"
    and "trunc_mod a b = (if a < 0 then - (\<bar>a\<bar> mod \<bar>b\<bar>) else \<bar>a\<bar> mod \<bar>b\<bar>)"
proof -
  consider "a < 0" | "a = 0" | "0 < a" by linarith
  then show "toward_zero a b = (if (a < 0) = (b < 0) then \<bar>a\<bar> div \<bar>b\<bar> else - (\<bar>a\<bar> div \<bar>b\<bar>))"
    using assms by cases (simp_all only: toward_zero_def sgn_if, auto)
  show "trunc_mod a b = (if a < 0 then - (\<bar>a\<bar> mod \<bar>b\<bar>) else \<bar>a\<bar> mod \<bar>b\<bar>)"
    by (simp add: trunc_mod_def sgn_if)
qed

lemma if_distrib_pair: "(if c then Some (a, b) else Some (a', b')) = Some (if c then a else a', if c then b else b')"
  by simp

lemma signed_divide_result:
  assumes v: "- (2 ^ 63) < sint val" and d: "- (2 ^ 63) < sint d" "sint d \<noteq> 0"
  shows "\<exists>q r. signed_divide val d = Some (q, r) \<and> sint q = toward_zero (sint val) (sint d) \<and>
    sint r = (if sint d < 0 then - trunc_mod (sint val) (sint d) else trunc_mod (sint val) (sint d))"
proof -
  obtain n where n: "(if sint val < 0 then checked_i64 (- sint val) else Some val) = Some n"
    "sint n = \<bar>sint val\<bar>" using magnitude [OF v] by blast
  obtain m where m: "(if sint d < 0 then checked_i64 (- sint d) else Some d) = Some m"
    "sint m = \<bar>sint d\<bar>" using magnitude [OF d(1)] by blast
  have nz: "m \<noteq> 0" using m(2) d(2) by auto
  let ?q = "word_of_int (sint n div sint m) :: i64" and ?r = "word_of_int (sint n mod sint m) :: i64"
  have pos: "0 \<le> sint n" "0 < sint m" using n(2) m(2) d(2) by simp_all
  have "0 \<le> sint n div sint m" "sint n div sint m \<le> sint n"
    using pos zdiv_mono2 [of "sint n" 1 "sint m"] by (simp_all add: pos_imp_zdiv_nonneg_iff)
  note q = sint_of_small [OF this]
  have "0 \<le> sint n mod sint m" "sint n mod sint m \<le> sint m" using pos by (simp_all add: less_imp_le)
  note r = sint_of_small [OF this]
  define qw where "qw = ?q"
  define rw where "rw = ?r"
  have e: "signed_divide val d = (if (sint val < 0) \<noteq> (sint d < 0) then Some (- qw, - rw) else Some (qw, rw))"
    using nz by (simp add: signed_divide_def n(1) m(1) Let_def qw_def rw_def)
  have Q: "sint qw = \<bar>sint val\<bar> div \<bar>sint d\<bar>" "sint (- qw) = - (\<bar>sint val\<bar> div \<bar>sint d\<bar>)"
    using q [folded qw_def] unfolding n(2) m(2) .
  have R: "sint rw = \<bar>sint val\<bar> mod \<bar>sint d\<bar>" "sint (- rw) = - (\<bar>sint val\<bar> mod \<bar>sint d\<bar>)"
    using r [folded rw_def] unfolding n(2) m(2) .
  let ?n = "(sint val < 0) \<noteq> (sint d < 0)"
  let ?qs = "if ?n then - qw else qw" and ?rs = "if ?n then - rw else rw"
  have "signed_divide val d = Some (?qs, ?rs)" unfolding e by (rule if_distrib_pair)
  moreover have "sint ?qs = toward_zero (sint val) (sint d)"
    unfolding trunc_by_signs [OF d(2)] by (cases ?n) (simp_all only: Q if_True if_False not_not simp_thms)
  moreover have "sint ?rs = (if sint d < 0 then - trunc_mod (sint val) (sint d) else trunc_mod (sint val) (sint d))"
    unfolding trunc_by_signs [OF d(2)]
    by (cases "sint val < 0"; cases "sint d < 0")
      (simp_all only: R if_True if_False not_not simp_thms minus_minus)
  ultimately show ?thesis by blast
qed

section \<open>Calls and returns\<close>

lemma pc_write:
  assumes ok: "em_ok em"
  shows "\<exists>em'. set_program_counter em v = Some em' \<and> em_ok em' \<and> esp_of em' = esp_of em \<and>
    em_mem em' = em_mem em \<and> em_is_64bit em' = em_is_64bit em \<and>
    program_counter em' = Some (v AND addr_mask em)"
proof -
  have "unat (pc_index em) \<noteq> 4" by (simp add: pc_index_def kRegRip_def kRegEip_def)
  then obtain em' where s: "set_program_counter em v = Some em'" "esp_of em' = esp_of em"
    "em_mem em' = em_mem em" "em_is_64bit em' = em_is_64bit em"
    using whole_slot_set [OF pc_slot] by (auto simp: set_program_counter_def set_reg_def)
  have "keeps em em'" using keeps_set_reg [of em em] s(1) by (auto simp: set_program_counter_def keeps_some_def)
  with ok have "em_ok em'" by (simp add: keeps_def)
  with s pc_after_set [OF ok s(1)] show ?thesis by blast
qed

lemma push_pop_state:
  assumes ok: "em_ok em" and room: "stack_room em n"
  shows "\<exists>em' me. do_push em v n = Some em' \<and> em_ok em' \<and> em_mem em' = me \<and>
    esp_of em' = esp_of em - of_nat n \<and> em_is_64bit em' = em_is_64bit em \<and>
    read_value me (esp_of em - of_nat n) n = v AND u_max n"
proof -
  obtain me where p: "do_push em v n = Some (em\<lparr>em_regs := (em_regs em)\<lparr>rf_vals :=
      (rf_vals (em_regs em))[4 := esp_of em - of_nat n]\<rparr>, em_mem := me\<rparr>)"
    and r: "read_value me (esp_of em - of_nat n) n = v AND u_max n"
    using push_result [OF assms] by blast
  have "4 < length (rf_vals (em_regs em))" using ok by (simp add: em_ok_def rf_ok_def)
  moreover have "em_ok (em\<lparr>em_regs := (em_regs em)\<lparr>rf_vals :=
      (rf_vals (em_regs em))[4 := esp_of em - of_nat n]\<rparr>, em_mem := me\<rparr>)"
    using keeps_do_push [of em em v n] ok p by (simp add: keeps_some_def keeps_def)
  ultimately show ?thesis using p r by (intro exI) auto
qed

lemma pop_state:
  assumes ok: "em_ok em" and e: "esp_of em = old - of_nat n" and m: "old AND addr_mask em = old"
  shows "\<exists>em'. do_pop em n = Some (read_value (em_mem em) (old - of_nat n) n, em') \<and> em_ok em' \<and>
    esp_of em' = old \<and> em_is_64bit em' = em_is_64bit em"
proof -
  have "4 < length (rf_vals (em_regs em))" using ok by (simp add: em_ok_def rf_ok_def)
  moreover obtain em' where p: "set_reg em kRegEsp old = Some em'" by (simp add: set_esp [OF ok])
  moreover have "em_ok em'" using keeps_set_reg [of em em kRegEsp old] p ok by (simp add: keeps_some_def keeps_def)
  ultimately show ?thesis using e m by (auto simp: do_pop_def get_esp set_esp [OF ok])
qed

section \<open>Properties\<close>

definition byte_operand :: "gpr \<Rightarrow> decoded_operand" where
  "byte_operand g = default_operand\<lparr>do_kind := kReg, do_base_reg := ZR_8 g, do_width_bytes := 1\<rparr>"

definition wide_operand :: "gpr \<Rightarrow> decoded_operand" where
  "wide_operand g = default_operand\<lparr>do_kind := kReg, do_base_reg := ZR_64 g, do_width_bytes := 8\<rparr>"

definition imm_operand :: "u64 \<Rightarrow> nat \<Rightarrow> decoded_operand" where
  "imm_operand v n = default_operand\<lparr>do_kind := kImm, do_imm := v, do_width_bytes := n\<rparr>"

definition demo_with :: "bool \<Rightarrow> u64 \<Rightarrow> u64 \<Rightarrow> u64 \<Rightarrow> emulator" where
  "demo_with is_64bit eax ecx esp = (demo_emulator is_64bit)\<lparr>em_regs := (em_regs (demo_emulator is_64bit))
     \<lparr>rf_vals := (rf_vals (em_regs (demo_emulator is_64bit)))[0 := eax, 1 := ecx, 4 := esp]\<rparr>\<rparr>"

lemma demo_with_ok: "em_ok (demo_with False 100 7 0xBFB00014)" "em_ok (demo_with True 5 7 0)"
  using demo_emulator_ok [of False] demo_emulator_ok [of True]
  by (simp_all add: em_ok_def rf_ok_def demo_with_def demo_emulator_def emulator_new_def register_file_new_def
      mask_eq_exp_minus_1 numeral_eq_Suc)

lemma second_slot: "\<not> (18 :: u32) \<le> 1"
  by (simp add: word_le_nat_alt)

lemmas demo_operands = second_slot byte_operand_def wide_operand_def imm_operand_def demo_with_def reg_index_amd64_def
  widened_src_def

text \<open>
  C35: after a comparison of operands below eight bytes, \<open>jb\<close> is taken exactly when the first is
  smaller as an unsigned number, \<open>jz\<close> when they are equal, and \<open>jl\<close> when the first is smaller
  as a signed number, unless the difference is exactly the least number of that width.
\<close>

theorem compare_conditions:
  assumes "em_ok em" and "width_of insn 0 = n" "0 < n" "n < 8"
    and "get_oper_value em insn 0 = Some dst" and "widened_src em insn = Some src"
  shows "\<exists>em'. exec_arith CMP em insn n = Some (kContinue, None, em') \<and>
    condition_holds em' CC_B = (unsigned_of dst n < unsigned_of src n) \<and>
    condition_holds em' CC_Z = (sint (signed_of dst n) = sint (signed_of src n)) \<and>
    condition_holds em' CC_L = (sint (signed_of dst n) < sint (signed_of src n) \<and>
      sint (signed_of dst n) - sint (signed_of src n) \<noteq> - (2 ^ (8 * n - 1)))"
  using sub_flags [OF assms(1,3,4), of src dst] assms(2,5,6)
  by (auto simp: exec_arith_def stepped_def integer_subtraction_def)

theorem compare_conditions_witness:
  "\<exists>em'. exec_arith CMP (demo_with False 100 7 0xBFB00014)
       (plain_insn 0x401000 2 (ZM_Arith CMP) [reg_operand RCX, reg_operand RAX]) 4 = Some (kContinue, None, em') \<and>
     condition_holds em' CC_B \<and> \<not> condition_holds em' CC_Z \<and> condition_holds em' CC_L"
proof -
  let ?em = "demo_with False 100 7 0xBFB00014"
  let ?insn = "plain_insn 0x401000 2 (ZM_Arith CMP) [reg_operand RCX, reg_operand RAX]"
  have v: "get_oper_value ?em ?insn 0 = Some 7" "widened_src ?em ?insn = Some 100" "width_of ?insn 0 = 4"
    by (simp_all add: demo_operands demo_insns demo_regs demo_exec)
  have n: "unsigned_of 7 4 = 7" "unsigned_of 100 4 = 100" "sint (signed_of 7 4) = 7" "sint (signed_of 100 4) = 100"
    by (simp_all add: unsigned_of_def signed_of_def u_max_def sign_bit_def Let_def)
  show ?thesis
    using compare_conditions [OF demo_with_ok(1) v(3) _ _ v(1,2)] unfolding n by simp
qed

text \<open>
  A comparison of eight-byte operands is undefined when the signed difference overflows,
  and otherwise always sets the carry, so that \<open>jb\<close> is taken whatever the operands are.
\<close>

theorem wide_compare_carries:
  assumes "em_ok em" and "width_of insn 0 = 8"
    and "get_oper_value em insn 0 = Some dst" and "widened_src em insn = Some src"
  shows "if fits_i64 (sint dst - sint src)
    then \<exists>em'. exec_arith CMP em insn 8 = Some (kContinue, None, em') \<and> condition_holds em' CC_B
    else exec_arith CMP em insn 8 = None"
proof (cases "fits_i64 (sint dst - sint src)")
  case True
  then obtain res em' where s: "int_sub_base em src dst 8 8 = Some (res, em')"
    using int_sub_base_64 [of em src dst] by (cases "int_sub_base em src dst 8 8") auto
  have "rf_ok (em_regs em)" using assms(1) by (simp add: em_ok_def)
  then have "condition_holds em' CC_B"
    using s by (auto simp: int_sub_base_def Let_def bind_eq_Some_conv condition_holds_def flag_puts
        unsigned_carry_8)
  with s True assms show ?thesis by (simp add: exec_arith_def stepped_def integer_subtraction_def)
next
  case False
  then show ?thesis
    using int_sub_base_64 [of em src dst] assms by (simp add: exec_arith_def stepped_def integer_subtraction_def)
qed

theorem wide_compare_carries_witness:
  "\<exists>em'. exec_arith CMP (demo_with True 5 7 0)
       (plain_insn 0x401000 3 (ZM_Arith CMP) [wide_operand RCX, wide_operand RAX]) 8 = Some (kContinue, None, em') \<and>
     condition_holds em' CC_B"
proof -
  let ?insn = "plain_insn 0x401000 3 (ZM_Arith CMP) [wide_operand RCX, wide_operand RAX]"
  have v: "get_oper_value (demo_with True 5 7 0) ?insn 0 = Some 7" "widened_src (demo_with True 5 7 0) ?insn = Some 5"
    "width_of ?insn 0 = 8"
    by (simp_all add: demo_operands demo_insns demo_regs demo_exec)
  show ?thesis using wide_compare_carries [OF demo_with_ok(2) v(3,1,2)] by (simp add: fits_i64_def)
qed

text \<open>
  A left shift of a one- or two-byte operand by more than its width, and an arithmetic right
  shift of a negative one, shift a 64-bit word by 64 or more, which the language leaves undefined.
\<close>

theorem narrow_shift_undefined:
  assumes "dsize \<le> 2" and "get_oper_value em insn 0 = Some dst"
    and "get_oper_value em insn 1 = Some c" and "of_nat (8 * dsize) < c AND 0x1F"
  shows "exec_shift SHL em insn dsize = None \<and> (bits_msb dst dsize \<longrightarrow> exec_shift SAR em insn dsize = None)"
proof -
  have "c AND 0x1F \<le> 0x1F" by (rule word_and_le1)
  then have le: "c AND 0x1F \<le> 31" by simp
  have nz: "c AND 0x1F \<noteq> 0" using assms(4) by auto
  have s: "shift_count em insn dsize = Some (c AND 0x1F)"
    using assms(1,3) by (auto simp: shift_count_def)
  note none = rest_of_width [OF assms(1,4) le]
  have "op_shl em insn dsize = None"
    using assms(2) s nz none by (simp add: op_shl_def bind_eq_None_conv)
  moreover have "op_sar em insn dsize = None" if "bits_msb dst dsize"
    using that assms(2) s nz none by (simp add: op_sar_def bind_eq_None_conv Let_def)
  ultimately show ?thesis by (simp add: exec_shift_def)
qed

theorem narrow_shift_undefined_witness:
  "exec_shift SHL (demo_with False 100 7 0xBFB00014)
     (plain_insn 0x401000 3 (ZM_Shift SHL) [byte_operand RAX, imm_operand 12 1]) 1 = None"
proof -
  let ?em = "demo_with False 100 7 0xBFB00014"
  let ?insn = "plain_insn 0x401000 3 (ZM_Shift SHL) [byte_operand RAX, imm_operand 12 1]"
  have v: "get_oper_value ?em ?insn 0 = Some 100" "get_oper_value ?em ?insn 1 = Some 12"
    by (simp_all add: demo_operands demo_insns demo_regs demo_exec make_meta_reg_def lane_offset_def
        lane_width_def width_mask_def)
  show ?thesis using narrow_shift_undefined [of 1, OF _ v] by simp
qed

text \<open>
  An exclusive or of vectors whose first operand is a register that is no XMM register, an
  MMX register for one, reads sixteen bytes of an eight-byte word by shifts of 64 and more,
  which the language leaves undefined.
\<close>

theorem narrow_vector_undefined:
  assumes "do_kind (operand insn 0) = kReg" and "xmm_index (do_base_reg (operand insn 0)) = None"
  shows "exec_simd PXOR em insn = None"
proof -
  have "gpr_bytes 16 0 v = None" for v by (rule gpr_bytes_past) simp_all
  then have "read_simd_oper em insn 0 16 = None"
    using assms by (cases "register_value em (do_base_reg (operand insn 0))")
      (simp_all add: read_simd_oper_def)
  then show ?thesis by (simp add: exec_simd_def simd_xor_def stepped_def)
qed

theorem narrow_vector_undefined_witness:
  "exec_simd PXOR (demo_emulator True) (plain_insn 0x401000 3 (ZM_Simd PXOR)
     [default_operand\<lparr>do_kind := kReg, do_base_reg := ZR_OTHER 0\<rparr>,
      default_operand\<lparr>do_kind := kReg, do_base_reg := ZR_OTHER 1\<rparr>]) = None"
  by (rule narrow_vector_undefined) (simp_all add: demo_insns)

text \<open>
  C36: division of the double word in the data and the accumulator lanes of two, four or eight
  bytes by a larger divisor puts the quotient in the accumulator and the remainder in the data
  lane, at every width: dividend is quotient times divisor plus remainder.
\<close>

theorem division_quotient_remainder:
  assumes "em_ok em" and "n = 2 \<or> n = 4 \<or> n = 8 \<and> em_is_64bit em"
    and "get_reg em (lane_for em kRegEdx n) = Some d" and "get_reg em (lane_for em kRegEax n) = Some a"
    and "get_oper_value em insn 0 = Some val"
    and "unat d < 2 ^ (8 * n)" "unat a < 2 ^ (8 * n)" "unat val < 2 ^ (8 * n)" and "d < val"
  shows "\<exists>em' q r. exec_arith DIV em insn n = Some (kContinue, None, em') \<and>
    get_reg em' (lane_for em kRegEax n) = Some q \<and> get_reg em' (lane_for em kRegEdx n) = Some r \<and>
    unat d * 2 ^ (8 * n) + unat a = unat q * unat val + unat r \<and> r < val"
proof -
  have lt: "unat d < unat val" and nz: "val \<noteq> 0" using assms(9) by (auto simp: word_less_nat_alt)
  obtain em' q r where o: "op_div em val n = Some em'"
    and reg: "get_reg em' (lane_for em kRegEax n) = Some q" "get_reg em' (lane_for em kRegEdx n) = Some r"
    and u: "unat q = (unat d * 2 ^ (8 * n) + unat a) div unat val"
      "unat r = (unat d * 2 ^ (8 * n) + unat a) mod unat val"
    using divide_lanes [OF assms(1-4,6-8) lt] by blast
  have "unat d * 2 ^ (8 * n) + unat a = unat q * unat val + unat r"
    unfolding u by (rule div_mult_mod_eq [symmetric])
  moreover have "r < val" unfolding word_less_nat_alt u(2) using lt by simp
  moreover have "exec_arith DIV em insn n = Some (kContinue, None, em')"
    using nz o assms(5) by (simp add: exec_arith_def op_divide_def stepped_def)
  ultimately show ?thesis using reg by blast
qed

theorem division_quotient_remainder_witness:
  "\<exists>em' q r. exec_arith DIV (demo_with False 100 7 0xBFB00014)
       (plain_insn 0x401000 2 (ZM_Arith DIV) [reg_operand RCX]) 4 = Some (kContinue, None, em') \<and>
     get_reg em' kRegEax = Some q \<and> get_reg em' kRegEdx = Some r \<and> 100 = unat q * 7 + unat r \<and> r < 7"
proof -
  let ?em = "demo_with False 100 7 0xBFB00014" and ?insn = "plain_insn 0x401000 2 (ZM_Arith DIV) [reg_operand RCX]"
  have l: "lane_for ?em b 4 = b" for b by (simp add: gp_lane_def demo_with_def demo_emulator_def emulator_new_def)
  have v: "get_oper_value ?em ?insn 0 = Some 7" "get_reg ?em kRegEdx = Some 0" "get_reg ?em kRegEax = Some 100"
    by (simp_all add: demo_operands demo_insns demo_regs demo_exec kRegEdx_def)
  show ?thesis
    using division_quotient_remainder [OF demo_with_ok(1), of 4, unfolded l, OF _ v(2,3,1)] by simp
qed

text \<open>
  The signed division of the one-, two- and four-byte forms rounds the quotient towards
  zero as the instruction does; the remainder has the sign the instruction gives it when the
  divisor is positive, and the opposite sign when the divisor is negative.
\<close>

theorem narrow_idiv_remainder:
  assumes "- (2 ^ 63) < sint val" and "- (2 ^ 63) < sint d" and "sint d \<noteq> 0"
  shows "\<exists>q r. signed_divide val d = Some (q, r) \<and> sint q = toward_zero (sint val) (sint d) \<and>
    sint r = (if sint d < 0 then - trunc_mod (sint val) (sint d) else trunc_mod (sint val) (sint d)) \<and>
    (0 < sint d \<longrightarrow> sint val = sint d * sint q + sint r)"
proof -
  obtain q r where "signed_divide val d = Some (q, r)" "sint q = toward_zero (sint val) (sint d)"
    "sint r = (if sint d < 0 then - trunc_mod (sint val) (sint d) else trunc_mod (sint val) (sint d))"
    using signed_divide_result [OF assms] by blast
  with toward_zero_mod [of "sint d" "sint val"] show ?thesis by auto
qed

theorem narrow_idiv_remainder_witness:
  "\<exists>q r. signed_divide 7 (- 2) = Some (q, r) \<and> sint q = - 3 \<and> sint r = - 1"
  using narrow_idiv_remainder [of 7 "- 2"] by (simp add: toward_zero_def trunc_mod_def)

text \<open>
  C37: a direct call whose push has room, and a return without operand where it arrives: the
  call goes to its target, the return comes back to the instruction after the call, and the
  stack pointer is as before.
\<close>

theorem call_returns:
  assumes ok: "em_ok em" and room: "stack_room em (ptr_size em)"
    and call: "di_zyd_mnem call = ZM_Flow CALL" "do_kind (operand call 0) = kPcRel"
      "di_branch_target call = Some t"
    and ret: "di_zyd_mnem ret = ZM_Flow RET" "di_operand_count ret = 0"
  shows "\<exists>em1 em2. execute_opcode em call = Some (kContinue, em1) \<and>
    program_counter em1 = Some (t AND addr_mask em) \<and>
    execute_opcode em1 ret = Some (kContinue, em2) \<and>
    program_counter em2 = Some (next_va call AND addr_mask em) \<and>
    get_reg em2 kRegEsp = get_reg em kRegEsp"
proof -
  let ?n = "ptr_size em"
  obtain e1 where e1: "set_program_counter em (di_va call) = Some e1" "em_ok e1" "esp_of e1 = esp_of em"
    "em_mem e1 = em_mem em" "em_is_64bit e1 = em_is_64bit em"
    using pc_write [OF ok] by blast
  have r1: "stack_room e1 ?n" using room e1 by (simp add: stack_room_def)
  obtain e2 me where e2: "do_push e1 (next_va call) ?n = Some e2" "em_ok e2" "em_mem e2 = me"
    "esp_of e2 = esp_of em - of_nat ?n" "em_is_64bit e2 = em_is_64bit em"
    and rd: "read_value me (esp_of em - of_nat ?n) ?n = next_va call AND u_max ?n"
    using push_pop_state [OF e1(2) r1, where v = "next_va call"] e1 by auto
  obtain e3 where e3: "set_program_counter e2 t = Some e3" "em_ok e3" "esp_of e3 = esp_of e2"
    "em_mem e3 = me" "em_is_64bit e3 = em_is_64bit em" "program_counter e3 = Some (t AND addr_mask em)"
    using pc_write [OF e2(2), where v = t] e2(3,5) by (auto simp: addr_mask_def)
  have x1: "execute_opcode em call = Some (kContinue, e3)"
    using e1 e2(1) e3(1) call by (simp add: execute_opcode_def dispatch_def exec_flow_def
        get_oper_value_def ptr_size_def)
  obtain e4 where e4: "set_program_counter e3 (di_va ret) = Some e4" "em_ok e4" "esp_of e4 = esp_of e2"
    "em_mem e4 = me" "em_is_64bit e4 = em_is_64bit em"
    using pc_write [OF e3(2), where v = "di_va ret"] e3 by auto
  have psz: "ptr_size e4 = ?n" using e4(5) by (simp add: ptr_size_def)
  obtain e5 where e5: "do_pop e4 ?n = Some (next_va call AND u_max ?n, e5)" "em_ok e5"
    "esp_of e5 = esp_of em" "em_is_64bit e5 = em_is_64bit em"
    using pop_state [OF e4(2), where old = "esp_of em" and n = "ptr_size em"] e4 e2(4) rd slot_masked [OF ok, of 4]
    by (auto simp: addr_mask_def)
  obtain e6 where e6: "set_program_counter e5 (next_va call AND u_max ?n) = Some e6" "esp_of e6 = esp_of em"
    "program_counter e6 = Some ((next_va call AND u_max ?n) AND addr_mask em)"
    using pc_write [OF e5(2), where v = "next_va call AND u_max ?n"] e5 by (auto simp: addr_mask_def)
  have x2: "execute_opcode e3 ret = Some (kContinue, e6)"
    using e4(1) e5(1) e6(1) ret psz by (simp add: execute_opcode_def dispatch_def exec_flow_def op_ret_def)
  have "u_max ?n = addr_mask em" by (simp add: ptr_size_def addr_mask_def u_max_def)
  then have "program_counter e6 = Some (next_va call AND addr_mask em)" using e6(3) by (simp add: and.assoc)
  with x1 x2 e3(6) e6(2) show ?thesis by (auto simp: get_esp)
qed

theorem call_returns_witness:
  "\<exists>em1 em2. execute_opcode (demo_with False 100 7 0xBFB00014)
       (plain_insn 0x401000 5 (ZM_Flow CALL) [default_operand\<lparr>do_kind := kPcRel\<rparr>]
         \<lparr>di_branch_target := Some 0x402000\<rparr>) = Some (kContinue, em1) \<and>
     execute_opcode em1 (plain_insn 0x402000 1 (ZM_Flow RET) []) = Some (kContinue, em2) \<and>
     program_counter em2 = Some 0x401005"
proof -
  let ?em = "demo_with False 100 7 0xBFB00014"
  let ?call = "plain_insn 0x401000 5 (ZM_Flow CALL) [default_operand\<lparr>do_kind := kPcRel\<rparr>]
    \<lparr>di_branch_target := Some 0x402000\<rparr>"
  have p: "ptr_size ?em = 4" "addr_mask ?em = 0xFFFFFFFF" "esp_of ?em = 0xBFB00014" "em_mem ?em = small_memory"
    by (simp_all add: ptr_size_def addr_mask_def demo_with_def demo_emulator_def emulator_new_def register_file_new_def)
  have room: "stack_room ?em (ptr_size ?em)"
    unfolding stack_room_def p by (simp add: has_room_def small_memory_defs probe_def find_map_def
        kStackBase_def kStackSize_def kMemRead_def kMemWrite_def)
  have t: "di_zyd_mnem ?call = ZM_Flow CALL" "do_kind (operand ?call 0) = kPcRel" "di_branch_target ?call = Some 0x402000"
    "next_va ?call = 0x401005"
    by (simp_all add: plain_insn_def operand_def next_va_def)
  have r: "di_zyd_mnem (plain_insn 0x402000 1 (ZM_Flow RET) []) = ZM_Flow RET"
    "di_operand_count (plain_insn 0x402000 1 (ZM_Flow RET) []) = 0" by (simp_all add: plain_insn_def)
  show ?thesis using call_returns [OF demo_with_ok(1) room t(1-3) r] unfolding t(4) p(2) by auto
qed

text \<open>
  The successors of an unconditional jump through an index scaled by four: the entries of
  the table, read in order until one is no address of the image, at most 4096 of them, after
  the fall-through if the decoder gives one.
\<close>

theorem jump_table_branches:
  assumes "di_is_jump insn" and "\<not> di_is_conditional insn" and "\<not> di_is_call insn"
    and "di_operand_count insn \<noteq> 0" and "di_zyd_mnem insn \<noteq> ZM_Flow HLT"
    and "do_kind (operand insn 0) = kSib" and "do_scale (operand insn 0) = 4"
    and "table_base em (operand insn 0) = Some base"
  shows "get_branches em insn = Some
    ((if di_is_fallthrough insn then [\<lparr>br_va = next_va insn, br_flags = kBrFall\<rparr>] else []) @
     map (\<lambda>d. \<lparr>br_va = d, br_flags = kBrCond\<rparr>)
       (takeWhile (is_valid_pointer (em_mem em))
         (map (\<lambda>i. read_value (em_mem em) (base + of_nat (i * width_of insn 0)) (width_of insn 0))
           [0..<4096])))"
  using assms unfolding get_branches_def walk_table_reference
  by (simp add: Let_def kMaxJumpTableEntries_def del: upt_rec_numeral)

theorem jump_table_branches_witness:
  "\<exists>bs. get_branches (demo_with False 100 7 0xBFB00014)
       (plain_insn 0x401000 7 (ZM_Flow JMP) [default_operand\<lparr>do_kind := kSib, do_index_reg := ZR_32 RAX,
          do_scale := 4, do_disp := 0x1000, do_width_bytes := 4\<rparr>]\<lparr>di_is_jump := True,
          di_is_fallthrough := False\<rparr>) = Some bs \<and> length bs \<le> 4096"
proof -
  let ?em = "demo_with False 100 7 0xBFB00014"
  let ?insn = "plain_insn 0x401000 7 (ZM_Flow JMP) [default_operand\<lparr>do_kind := kSib, do_index_reg := ZR_32 RAX,
    do_scale := 4, do_disp := 0x1000, do_width_bytes := 4\<rparr>]\<lparr>di_is_jump := True, di_is_fallthrough := False\<rparr>"
  have i: "di_is_jump ?insn" "\<not> di_is_conditional ?insn" "\<not> di_is_call ?insn" "di_operand_count ?insn \<noteq> 0"
    "di_zyd_mnem ?insn \<noteq> ZM_Flow HLT" "do_kind (operand ?insn 0) = kSib" "do_scale (operand ?insn 0) = 4"
    "table_base ?em (operand ?insn 0) = Some 0x1000" "\<not> di_is_fallthrough ?insn"
    by (simp_all add: plain_insn_def operand_def table_base_def default_operand_def demo_with_def
        demo_emulator_def emulator_new_def addr_mask_def)
  have "length (takeWhile P (map f [0..<4096])) \<le> 4096" for P and f :: "nat \<Rightarrow> u64"
    using length_takeWhile_le [of P "map f [0..<4096]"] by simp
  then show ?thesis using jump_table_branches [OF i(1-8)] i(9) by simp
qed

end
