(* ===== verification/Yaml_Scan.thy ===== *)
theory Yaml_Scan
  imports Papa_Prelude
begin

text \<open>
  The lexical layer of the YAML subset the rules are written in (the first half of
  src/util/yaml.cpp): lines and their indentation, comments, quoted scalars, and the split of
  a line into key and value.  Text is a list of bytes; positions are numbers.
\<close>

abbreviation tab_char :: char where "tab_char \<equiv> CHR 0x09"
abbreviation newline :: char where "newline \<equiv> CHR 0x0A"
abbreviation carriage_return :: char where "carriage_return \<equiv> CHR 0x0D"
abbreviation blank :: char where "blank \<equiv> CHR '' ''"
abbreviation dquote :: char where "dquote \<equiv> CHR 0x22"
abbreviation squote :: char where "squote \<equiv> CHR 0x27"
abbreviation backslash :: char where "backslash \<equiv> CHR 0x5C"
abbreviation hash_sign :: char where "hash_sign \<equiv> CHR 0x23"
abbreviation colon :: char where "colon \<equiv> CHR '':''"
abbreviation dash :: char where "dash \<equiv> CHR ''-''"

section \<open>Lines\<close>

record yaml_line =
  yl_line_no :: nat
  yl_indent :: nat
  yl_payload :: string
  yl_is_blank :: bool
  yl_is_comment :: bool

fun contains_indent_tab :: "string \<Rightarrow> bool" where
  "contains_indent_tab [] = False"
| "contains_indent_tab (c # cs) =
     (if c = tab_char then True else if c \<noteq> blank then False else contains_indent_tab cs)"

definition yaml_err :: "nat \<Rightarrow> nat \<Rightarrow> string \<Rightarrow> failure" where
  "yaml_err line column what = Papa_Error kYamlParseError
     (''line '' @ to_decimal line @ '':'' @ to_decimal column @ '': '' @ what)"

text \<open>Without the carriage return a line of a file with two-byte line ends carries.\<close>

definition strip_cr :: "string \<Rightarrow> string" where
  "strip_cr raw = (if raw \<noteq> [] \<and> last raw = carriage_return then butlast raw else raw)"

definition make_line :: "nat \<Rightarrow> string \<Rightarrow> yaml_line" where
  "make_line line_no raw =
     (let indent = length (takeWhile (\<lambda>c. c = blank) raw); payload = drop indent raw in
      \<lparr>yl_line_no = line_no, yl_indent = indent, yl_payload = payload,
       yl_is_blank = (payload = []), yl_is_comment = (payload \<noteq> [] \<and> hd payload = hash_sign)\<rparr>)"

function tokenize_from :: "nat \<Rightarrow> string \<Rightarrow> yaml_line list expected" where
  "tokenize_from line_no text =
     (let raw = strip_cr (takeWhile (\<lambda>c. c \<noteq> newline) text);
          rest = dropWhile (\<lambda>c. c \<noteq> newline) text in
      if contains_indent_tab raw then Inl (yaml_err line_no 1 ''tab in indentation is not allowed'')
      else case rest of
             [] \<Rightarrow> Inr [make_line line_no raw]
           | _ # text' \<Rightarrow> sbind (tokenize_from (Suc line_no) text')
               (\<lambda>lns. Inr (make_line line_no raw # lns)))"
  by pat_completeness auto
termination
proof (relation "measure (\<lambda>(_, src). length src)", simp)
  fix line_no src raw rest and c :: char and src'
  assume "rest = dropWhile (\<lambda>c. c \<noteq> newline) src" "rest = c # src'"
  then have "length (c # src') \<le> length src" using length_dropWhile_le by metis
  then show "((Suc line_no, src'), line_no, src) \<in> measure (\<lambda>(_, src). length src)" by simp
qed

definition tokenize_lines :: "string \<Rightarrow> yaml_line list expected" where
  "tokenize_lines text = tokenize_from 1 text"

section \<open>Comments\<close>

definition strip_blanks :: "string \<Rightarrow> string" where
  "strip_blanks s = rev (dropWhile (\<lambda>c. c = blank) (rev s))"

definition rtrim :: "string \<Rightarrow> string" where
  "rtrim s = rev (dropWhile (\<lambda>c. c = blank \<or> c = tab_char) (rev s))"

text \<open>
  The scanners share their steps over quotes and escapes.  \<open>scan_marker\<close> gives the index of the
  first character outside quotes that \<open>stop\<close> accepts, given the character before it (none at the
  start) and the characters after it.
\<close>

fun scan_marker :: "(char option \<Rightarrow> char \<Rightarrow> string \<Rightarrow> bool) \<Rightarrow> bool \<Rightarrow> bool \<Rightarrow> char option \<Rightarrow>
    nat \<Rightarrow> string \<Rightarrow> nat option" where
  "scan_marker stop in_single in_double prev i [] = None"
| "scan_marker stop in_single in_double prev i [c] =
     (if c = squote \<and> \<not> in_double then None
      else if c = dquote \<and> \<not> in_single then None
      else if in_single \<or> in_double then None
      else if stop prev c [] then Some i else None)"
| "scan_marker stop in_single in_double prev i (c # d # cs) =
     (if c = backslash \<and> in_double then scan_marker stop in_single in_double (Some d) (i + 2) cs
      else if c = squote \<and> \<not> in_double then scan_marker stop (\<not> in_single) in_double (Some c) (Suc i) (d # cs)
      else if c = dquote \<and> \<not> in_single then scan_marker stop in_single (\<not> in_double) (Some c) (Suc i) (d # cs)
      else if in_single \<or> in_double then scan_marker stop in_single in_double (Some c) (Suc i) (d # cs)
      else if stop prev c (d # cs) then Some i
      else scan_marker stop in_single in_double (Some c) (Suc i) (d # cs))"

definition opens_comment :: "char option \<Rightarrow> char \<Rightarrow> string \<Rightarrow> bool" where
  "opens_comment prev c rest \<longleftrightarrow> c = hash_sign \<and> (prev = None \<or> prev = Some blank)"

definition strip_inline_comment :: "string \<Rightarrow> string" where
  "strip_inline_comment s =
     (case scan_marker opens_comment False False None 0 s of
        Some i \<Rightarrow> strip_blanks (take i s)
      | None \<Rightarrow> strip_blanks s)"

definition ends_key :: "char option \<Rightarrow> char \<Rightarrow> string \<Rightarrow> bool" where
  "ends_key prev c rest \<longleftrightarrow> c = colon \<and> (rest = [] \<or> hd rest = blank)"

definition split_key :: "string \<Rightarrow> (string \<times> string) option" where
  "split_key payload =
     (case scan_marker ends_key False False None 0 payload of
        Some i \<Rightarrow> Some (take i payload, dropWhile (\<lambda>c. c = blank) (drop (Suc i) payload))
      | None \<Rightarrow> None)"

section \<open>Quoted scalars\<close>

definition hex_digit :: "char \<Rightarrow> nat option" where
  "hex_digit d =
     (let n = of_char d :: nat in
      if 48 \<le> n \<and> n \<le> 57 then Some (n - 48)
      else if 97 \<le> n \<and> n \<le> 102 then Some (10 + (n - 97))
      else if 65 \<le> n \<and> n \<le> 70 then Some (10 + (n - 65))
      else None)"

definition simple_escape :: "char \<Rightarrow> char option" where
  "simple_escape n =
     (if n = CHR ''n'' then Some newline
      else if n = CHR ''t'' then Some tab_char
      else if n = CHR ''r'' then Some carriage_return
      else if n = backslash then Some backslash
      else if n = dquote then Some dquote
      else if n = CHR ''/'' then Some (CHR ''/'')
      else if n = CHR ''0'' then Some (CHR 0x00)
      else if n = CHR ''a'' then Some (CHR 0x07)
      else if n = CHR ''b'' then Some (CHR 0x08)
      else if n = CHR ''f'' then Some (CHR 0x0C)
      else if n = CHR ''v'' then Some (CHR 0x0B)
      else None)"

definition utf8_encode :: "nat \<Rightarrow> string" where
  "utf8_encode code =
     (if code < 0x80 then [char_of code]
      else if code < 0x800 then
        [char_of (0xC0 OR drop_bit 6 code), char_of (0x80 OR (code AND 0x3F))]
      else
        [char_of (0xE0 OR drop_bit 12 code), char_of (0x80 OR (drop_bit 6 code AND 0x3F)),
         char_of (0x80 OR (code AND 0x3F))])"

fun hex_number :: "nat \<Rightarrow> string \<Rightarrow> nat option" where
  "hex_number code [] = Some code"
| "hex_number code (d # ds) =
     (case hex_digit d of None \<Rightarrow> None | Some v \<Rightarrow> hex_number (push_bit 4 code OR v) ds)"

text \<open>The texts of the error messages; the two that name an escape contain a backslash.\<close>

definition in_double :: "string \<Rightarrow> string" where
  "in_double what = what @ '' in double-quoted string''"

definition truncated_escape :: "string \<Rightarrow> string" where
  "truncated_escape form = in_double (''truncated '' @ [backslash] @ form @ '' escape'')"

definition bad_hex :: "string \<Rightarrow> string" where
  "bad_hex form = ''invalid hex digit in '' @ [backslash] @ form @ '' escape''"

definition surrogate_escape :: string where
  "surrogate_escape = ''surrogate code point in '' @ [backslash] @ ''uNNNN escape''"

function (sequential) decode_double_quoted :: "string \<Rightarrow> nat \<Rightarrow> nat \<Rightarrow> string expected" where
  "decode_double_quoted [] line column = Inr []"
| "decode_double_quoted (c # cs) line column =
     (if c \<noteq> backslash then sbind (decode_double_quoted cs line column) (\<lambda>out. Inr (c # out))
      else case cs of
        [] \<Rightarrow> Inl (yaml_err line column (in_double ''trailing backslash''))
      | n # rest \<Rightarrow>
          (case simple_escape n of
             Some ch \<Rightarrow> sbind (decode_double_quoted rest line column) (\<lambda>out. Inr (ch # out))
           | None \<Rightarrow>
               if n = CHR ''x'' then
                 if length rest < 2 then Inl (yaml_err line column (truncated_escape ''xNN''))
                 else (case (hex_digit (rest ! 0), hex_digit (rest ! 1)) of
                         (Some hi, Some lo) \<Rightarrow>
                           sbind (decode_double_quoted (drop 2 rest) line column)
                             (\<lambda>out. Inr (char_of (push_bit 4 hi OR lo) # out))
                       | _ \<Rightarrow> Inl (yaml_err line column (bad_hex ''xNN'')))
               else if n = CHR ''u'' then
                 if length rest < 4 then Inl (yaml_err line column (truncated_escape ''uNNNN''))
                 else (case hex_number 0 (take 4 rest) of
                         None \<Rightarrow> Inl (yaml_err line column (bad_hex ''uNNNN''))
                       | Some code \<Rightarrow>
                           if 0xD800 \<le> code \<and> code \<le> 0xDFFF
                           then Inl (yaml_err line column surrogate_escape)
                           else sbind (decode_double_quoted (drop 4 rest) line column)
                                  (\<lambda>out. Inr (utf8_encode code @ out)))
               else Inl (yaml_err line column (in_double ''unknown escape''))))"
  by pat_completeness auto
termination
  by (relation "measure (\<lambda>(body, _). length body)") auto

fun decode_single_quoted :: "string \<Rightarrow> string" where
  "decode_single_quoted [] = []"
| "decode_single_quoted [c] = [c]"
| "decode_single_quoted (c # d # cs) =
     (if c = squote \<and> d = squote then squote # decode_single_quoted cs
      else c # decode_single_quoted (d # cs))"

text \<open>The text up to the closing quote, which is not part of it.\<close>

fun until_double :: "string \<Rightarrow> string option" where
  "until_double [] = None"
| "until_double [c] = (if c = dquote then Some [] else None)"
| "until_double (c # d # cs) =
     (if c = backslash then map_option (\<lambda>body. c # d # body) (until_double cs)
      else if c = dquote then Some []
      else map_option (\<lambda>body. c # body) (until_double (d # cs)))"

fun until_single :: "string \<Rightarrow> string option" where
  "until_single [] = None"
| "until_single [c] = (if c = squote then Some [] else None)"
| "until_single (c # d # cs) =
     (if c = squote \<and> d = squote then map_option (\<lambda>body. c # d # body) (until_single cs)
      else if c = squote then Some []
      else map_option (\<lambda>body. c # body) (until_single (d # cs)))"

definition is_forbidden_lead :: "string \<Rightarrow> bool" where
  "is_forbidden_lead s \<longleftrightarrow> s \<noteq> [] \<and> hd s \<in> {CHR ''&'', CHR ''*'', CHR ''!'', CHR ''['', CHR ''{''}"

definition scalar_text :: "string \<Rightarrow> nat \<Rightarrow> nat \<Rightarrow> string expected" where
  "scalar_text body line column =
     (let trimmed = rtrim body in
      case trimmed of
        [] \<Rightarrow> Inr []
      | c # cs \<Rightarrow>
          if c = dquote then
            (case until_double cs of
               None \<Rightarrow> Inl (yaml_err line column ''unterminated double-quoted string'')
             | Some body2 \<Rightarrow> decode_double_quoted body2 line column)
          else if c = squote then
            (case until_single cs of
               None \<Rightarrow> Inl (yaml_err line column ''unterminated single-quoted string'')
             | Some body2 \<Rightarrow> Inr (decode_single_quoted body2))
          else if is_forbidden_lead trimmed then
            Inl (yaml_err line column
              ''anchors, aliases, tags, and flow collections are not supported'')
          else Inr (strip_inline_comment trimmed))"

end
