(* ===== verification/Yaml_Parser.thy ===== *)
theory Yaml_Parser
  imports Yaml_Scan
begin

text \<open>
  The recursive-descent parser of src/util/yaml.cpp over the lines of a document.  A parsing
  function is given the lines from the cursor on and answers with the node and the number of
  lines it has consumed, which is what it adds to \<open>cursor_\<close>.  The nesting depth of the code
  counts the calls of \<open>parse_value\<close> that are open; here the number of calls still allowed is
  an argument, so that the recursion stops where the code reports too deep a nesting.
\<close>

section \<open>Nodes\<close>

datatype yaml_node =
    Y_Scalar string nat nat
  | Y_Sequence "yaml_node list" nat nat
  | Y_Mapping "(string \<times> yaml_node) list" nat nat

definition null_node :: yaml_node where
  "null_node = Y_Scalar [] 0 0"

definition wrong_kind :: "string \<Rightarrow> failure" where
  "wrong_kind kind = Invariant_Error (''yaml::Node::'' @ kind @ '' called on non-'' @ kind @ '' node'')"

fun node_scalar :: "yaml_node \<Rightarrow> string expected" where
  "node_scalar (Y_Scalar s _ _) = Inr s"
| "node_scalar _ = Inl (wrong_kind ''scalar'')"

fun node_sequence :: "yaml_node \<Rightarrow> yaml_node list expected" where
  "node_sequence (Y_Sequence xs _ _) = Inr xs"
| "node_sequence _ = Inl (wrong_kind ''sequence'')"

fun node_mapping :: "yaml_node \<Rightarrow> (string \<times> yaml_node) list expected" where
  "node_mapping (Y_Mapping es _ _) = Inr es"
| "node_mapping _ = Inl (wrong_kind ''mapping'')"

fun node_line :: "yaml_node \<Rightarrow> nat" where
  "node_line (Y_Scalar _ l _) = l"
| "node_line (Y_Sequence _ l _) = l"
| "node_line (Y_Mapping _ l _) = l"

fun node_column :: "yaml_node \<Rightarrow> nat" where
  "node_column (Y_Scalar _ _ c) = c"
| "node_column (Y_Sequence _ _ c) = c"
| "node_column (Y_Mapping _ _ c) = c"

fun node_find :: "yaml_node \<Rightarrow> string \<Rightarrow> yaml_node option" where
  "node_find (Y_Mapping es _ _) key = map_option snd (find (\<lambda>e. fst e = key) es)"
| "node_find _ key = None"

definition kMaxNestingDepth :: nat where "kMaxNestingDepth = 64"

section \<open>Scalars\<close>

type_synonym 'a parsed = "('a \<times> nat) expected"

fun skip_blank_and_comment :: "yaml_line list \<Rightarrow> nat" where
  "skip_blank_and_comment [] = 0"
| "skip_blank_and_comment (ln # lns) =
     (if yl_is_blank ln \<or> yl_is_comment ln then Suc (skip_blank_and_comment lns) else 0)"

definition parse_inline_scalar :: "string \<Rightarrow> nat \<Rightarrow> nat \<Rightarrow> yaml_node expected" where
  "parse_inline_scalar body line column =
     sbind (scalar_text body line column) (\<lambda>t. Inr (Y_Scalar t line column))"

text \<open>The lines of a block scalar; the third argument is the indentation of the block once known.\<close>

fun block_lines :: "nat \<Rightarrow> yaml_line list \<Rightarrow> nat option \<Rightarrow> string list" where
  "block_lines indent [] block_indent = []"
| "block_lines indent (ln # lns) block_indent =
     (if yl_is_blank ln then [] # block_lines indent lns block_indent
      else if yl_indent ln \<le> indent then []
      else let b = (case block_indent of None \<Rightarrow> yl_indent ln | Some b \<Rightarrow> b) in
        if yl_indent ln < b then []
        else yl_payload ln # block_lines indent lns (Some b))"

definition end_line :: "string \<Rightarrow> string" where
  "end_line out = (if out \<noteq> [] \<and> last out = blank then butlast out @ [newline] else out)"

fun fold_lines :: "string \<Rightarrow> string list \<Rightarrow> string" where
  "fold_lines out [] = out"
| "fold_lines out (l # ls) =
     (if l = [] then
        fold_lines (if out \<noteq> [] \<and> last out = blank then butlast out @ [newline]
                    else out @ [newline]) ls
      else fold_lines (out @ l @ [blank]) ls)"

definition strip_newlines :: "string \<Rightarrow> string" where
  "strip_newlines out = rev (dropWhile (\<lambda>c. c = newline) (rev out))"

text \<open>At most one newline at the end: the reversed text loses a newline while two lead it.\<close>

fun drop_doubled :: "string \<Rightarrow> string" where
  "drop_doubled (c # d # cs) = (if c = newline \<and> d = newline then drop_doubled (d # cs) else c # d # cs)"
| "drop_doubled cs = cs"

definition chomp_of :: "string \<Rightarrow> char option" where
  "chomp_of header = find (\<lambda>c. c = dash \<or> c = CHR ''+'') header"

definition block_text :: "char \<Rightarrow> char option \<Rightarrow> string list \<Rightarrow> string" where
  "block_text style chomp raw_lines =
     (let out = (if style = CHR ''|'' then concat (map (\<lambda>l. l @ [newline]) raw_lines)
                 else end_line (fold_lines [] raw_lines)) in
      if chomp = Some dash then strip_newlines out
      else if chomp = Some (CHR ''+'') then out
      else rev (drop_doubled (rev out)))"

text \<open>\<open>header\<close> is the line before the cursor, the one the key or the dash stands on.\<close>

definition parse_block_scalar ::
    "string \<Rightarrow> char \<Rightarrow> nat \<Rightarrow> nat \<Rightarrow> nat \<Rightarrow> yaml_line list \<Rightarrow> yaml_node parsed" where
  "parse_block_scalar header style indent line column lns =
     (let raw_lines = block_lines indent lns None in
      Inr (Y_Scalar (block_text style (chomp_of header) raw_lines) line column, length raw_lines))"

definition is_block_header :: "string \<Rightarrow> bool" where
  "is_block_header v \<longleftrightarrow> v \<in> {''|'', ''>'', ''|-'', ''|+'', ''>-'', ''>+''}"

definition comment_only :: "string \<Rightarrow> bool" where
  "comment_only v \<longleftrightarrow> v \<noteq> [] \<and> (hd v = hash_sign \<or> strip_inline_comment (rtrim v) = [])"

section \<open>Blocks\<close>

text \<open>
  The loops take the parser of nested values as an argument \<open>pv\<close>: it gets the indentation and
  the lines after the line at hand, whatever number of lines it consumes of them, so that each
  round starts on fewer lines.  The last argument but one counts the lines consumed so far.
\<close>

type_synonym value_parser = "nat \<Rightarrow> yaml_line list \<Rightarrow> yaml_node parsed"

lemma drop_shorter: "drop s lns = ln # rest \<Longrightarrow> length (drop k rest) < length lns"
proof -
  assume "drop s lns = ln # rest"
  then have "length lns - s = Suc (length rest)" by (metis length_Cons length_drop)
  then show ?thesis by simp
qed

text \<open>The value after a key: below it, a block scalar, or on the same line.\<close>

definition entry_value ::
    "value_parser \<Rightarrow> string \<Rightarrow> string \<Rightarrow> nat \<Rightarrow> nat \<Rightarrow> nat \<Rightarrow> nat \<Rightarrow> yaml_line list \<Rightarrow> yaml_node parsed" where
  "entry_value pv header v indent line column value_column rest =
     (if v = [] \<or> comment_only v then pv (indent + 1) rest
      else if is_block_header v then parse_block_scalar header (hd v) indent line column rest
      else sbind (parse_inline_scalar v line value_column) (\<lambda>n. Inr (n, 0)))"

text \<open>The further keys of a mapping that began after a dash.\<close>

function (sequential) more_keys ::
    "value_parser \<Rightarrow> nat \<Rightarrow> yaml_line list \<Rightarrow> nat \<Rightarrow> (string \<times> yaml_node) list \<Rightarrow>
     (string \<times> yaml_node) list parsed" where
  "more_keys pv map_indent lns used entries =
     (let s = skip_blank_and_comment lns in
      case drop s lns of
        [] \<Rightarrow> Inr (entries, used + s)
      | nx # rest \<Rightarrow>
          if yl_indent nx \<noteq> map_indent then Inr (entries, used + s)
          else if yl_payload nx = [] \<or> hd (yl_payload nx) = dash then Inr (entries, used + s)
          else case split_key (yl_payload nx) of
                 None \<Rightarrow> Inr (entries, used + s)
               | Some (kk, vv) \<Rightarrow>
                   let kcol = yl_indent nx + 1 in
                   sbind (entry_value pv (yl_payload nx) vv map_indent (yl_line_no nx) kcol
                            (kcol + length kk + 2) rest)
                     (\<lambda>(nval, k). more_keys pv map_indent (drop k rest) (used + s + 1 + k)
                        (entries @ [(kk, nval)])))"
  by pat_completeness auto
termination
  by (relation "measure (\<lambda>(_, _, lns, _). length lns)") (auto dest: drop_shorter)

text \<open>The value of the key on the line of the dash; it is not read as a block scalar.\<close>

definition first_value ::
    "value_parser \<Rightarrow> string \<Rightarrow> nat \<Rightarrow> nat \<Rightarrow> nat \<Rightarrow> yaml_line list \<Rightarrow> yaml_node parsed" where
  "first_value pv v0 map_indent line column rest =
     (if v0 \<noteq> [] \<and> \<not> comment_only v0
      then sbind (parse_inline_scalar v0 line column) (\<lambda>n. Inr (n, 0))
      else pv (map_indent + 1) rest)"

text \<open>What follows a dash on its line: nothing, the first key of a mapping, or a scalar.\<close>

definition sequence_item :: "value_parser \<Rightarrow> nat \<Rightarrow> yaml_line \<Rightarrow> yaml_line list \<Rightarrow> yaml_node parsed" where
  "sequence_item pv indent ln rest =
     (let item_line = yl_line_no ln; item_col = yl_indent ln + 1; body = drop 2 (yl_payload ln) in
      if body = [] then pv (indent + 1) rest
      else case split_key body of
             Some (k0, v0) \<Rightarrow>
               let map_indent = yl_indent ln + 2 in
               sbind (first_value pv v0 map_indent item_line (map_indent + 1 + length k0 + 2) rest)
                 (\<lambda>(value, k). sbind (more_keys pv map_indent (drop k rest) k [(k0, value)])
                    (\<lambda>(entries, used). Inr (Y_Mapping entries item_line item_col, used)))
           | None \<Rightarrow> sbind (parse_inline_scalar body item_line (item_col + 2)) (\<lambda>n. Inr (n, 0)))"

definition is_dash_line :: "string \<Rightarrow> bool" where
  "is_dash_line payload \<longleftrightarrow>
     payload \<noteq> [] \<and> hd payload = dash \<and> (length payload = 1 \<or> payload ! 1 = blank)"

function (sequential) sequence_loop ::
    "value_parser \<Rightarrow> nat \<Rightarrow> yaml_line list \<Rightarrow> nat \<Rightarrow> yaml_node list \<Rightarrow> yaml_node list parsed" where
  "sequence_loop pv indent lns used items =
     (let s = skip_blank_and_comment lns in
      case drop s lns of
        [] \<Rightarrow> Inr (items, used + s)
      | ln # rest \<Rightarrow>
          if yl_indent ln < indent then Inr (items, used + s)
          else if yl_indent ln > indent
          then Inl (yaml_err (yl_line_no ln) (yl_indent ln + 1) ''unexpected indent inside sequence'')
          else if \<not> is_dash_line (yl_payload ln) then Inr (items, used + s)
          else sbind (sequence_item pv indent ln rest)
                 (\<lambda>(v, k). sequence_loop pv indent (drop k rest) (used + s + 1 + k) (items @ [v])))"
  by pat_completeness auto
termination
  by (relation "measure (\<lambda>(_, _, lns, _). length lns)") (auto dest: drop_shorter)

definition parse_sequence :: "value_parser \<Rightarrow> nat \<Rightarrow> yaml_line list \<Rightarrow> yaml_node parsed" where
  "parse_sequence pv indent lns =
     sbind (sequence_loop pv indent lns 0 [])
       (\<lambda>(items, used). Inr (Y_Sequence items (yl_line_no (hd lns)) (indent + 1), used))"

definition mapping_key :: "string \<Rightarrow> nat \<Rightarrow> nat \<Rightarrow> string expected" where
  "mapping_key kraw kline kcol =
     (if kraw \<noteq> [] \<and> hd kraw = dquote then
        if length kraw < 2 \<or> last kraw \<noteq> dquote
        then Inl (yaml_err kline kcol ''unterminated double-quoted key'')
        else decode_double_quoted (take (length kraw - 2) (drop 1 kraw)) kline kcol
      else if kraw \<noteq> [] \<and> hd kraw = squote then
        if length kraw < 2 \<or> last kraw \<noteq> squote
        then Inl (yaml_err kline kcol ''unterminated single-quoted key'')
        else Inr (decode_single_quoted (take (length kraw - 2) (drop 1 kraw)))
      else Inr (rtrim kraw))"

function (sequential) mapping_loop ::
    "value_parser \<Rightarrow> nat \<Rightarrow> yaml_line list \<Rightarrow> nat \<Rightarrow> (string \<times> yaml_node) list \<Rightarrow>
     (string \<times> yaml_node) list parsed" where
  "mapping_loop pv indent lns used entries =
     (let s = skip_blank_and_comment lns in
      case drop s lns of
        [] \<Rightarrow> Inr (entries, used + s)
      | ln # rest \<Rightarrow>
          if yl_indent ln < indent then Inr (entries, used + s)
          else if yl_indent ln > indent
          then Inl (yaml_err (yl_line_no ln) (yl_indent ln + 1) ''unexpected indent inside mapping'')
          else if yl_payload ln = [] \<or> hd (yl_payload ln) = dash then Inr (entries, used + s)
          else case split_key (yl_payload ln) of
                 None \<Rightarrow> Inr (entries, used + s)
               | Some (kraw, vraw) \<Rightarrow>
                   let kline = yl_line_no ln; kcol = yl_indent ln + 1 in
                   sbind (mapping_key kraw kline kcol) (\<lambda>key.
                   sbind (entry_value pv (yl_payload ln) vraw indent kline kcol
                            (kcol + length key + 2) rest)
                     (\<lambda>(value, k). mapping_loop pv indent (drop k rest) (used + s + 1 + k)
                        (entries @ [(key, value)]))))"
  by pat_completeness auto
termination
  by (relation "measure (\<lambda>(_, _, lns, _). length lns)") (auto dest: drop_shorter)

definition parse_mapping :: "value_parser \<Rightarrow> nat \<Rightarrow> yaml_line list \<Rightarrow> yaml_node parsed" where
  "parse_mapping pv indent lns =
     sbind (mapping_loop pv indent lns 0 [])
       (\<lambda>(entries, used). Inr (Y_Mapping entries (yl_line_no (hd lns)) (indent + 1), used))"

section \<open>Values and documents\<close>

definition plus_used :: "nat \<Rightarrow> 'a parsed \<Rightarrow> 'a parsed" where
  "plus_used s r = sbind r (\<lambda>(x, k). Inr (x, s + k))"

text \<open>\<open>levels\<close> is \<open>kMaxNestingDepth - depth_\<close>.\<close>

fun parse_value :: "nat \<Rightarrow> value_parser" where
  "parse_value 0 indent lns =
     Inl (yaml_err (case lns of [] \<Rightarrow> 0 | ln # _ \<Rightarrow> yl_line_no ln) 1 ''nesting is too deep'')"
| "parse_value (Suc levels) indent lns0 =
     (let s = skip_blank_and_comment lns0; lns = drop s lns0 in
      case lns of
        [] \<Rightarrow> Inr (null_node, s)
      | ln # _ \<Rightarrow>
          if is_dash_line (yl_payload ln) \<and> yl_indent ln + 1 \<ge> indent
          then plus_used s (parse_sequence (parse_value levels) (yl_indent ln) lns)
          else if yl_indent ln < indent then Inr (null_node, s)
          else if yl_payload ln = [] then Inr (null_node, Suc s)
          else if split_key (yl_payload ln) \<noteq> None
          then plus_used s (parse_mapping (parse_value levels) (yl_indent ln) lns)
          else Inl (yaml_err (yl_line_no ln) (yl_indent ln + 1)
                      ''expected a sequence, mapping, or scalar value''))"

text \<open>Blank lines, comments and document separators, as many as there are.\<close>

function skip_separators :: "yaml_line list \<Rightarrow> yaml_line list" where
  "skip_separators lns =
     (case drop (skip_blank_and_comment lns) lns of
        [] \<Rightarrow> []
      | ln # rest \<Rightarrow> if yl_payload ln = ''---'' then skip_separators rest else ln # rest)"
  by pat_completeness auto
termination
proof (relation "measure length", simp)
  fix lns ln rest assume "drop (skip_blank_and_comment lns) lns = ln # rest"
  from drop_shorter [OF this, of 0] show "(rest, lns) \<in> measure length" by simp
qed

declare skip_separators.simps [simp del]

definition parse_document :: "yaml_line list \<Rightarrow> yaml_node expected" where
  "parse_document lns =
     (case skip_separators lns of
        [] \<Rightarrow> Inr null_node
      | ln # rest \<Rightarrow>
          sbind (parse_value kMaxNestingDepth (yl_indent ln) (ln # rest)) (\<lambda>(root, used).
            case skip_separators (drop used (ln # rest)) of
              [] \<Rightarrow> Inr root
            | ln' # _ \<Rightarrow> Inl (yaml_err (yl_line_no ln') (yl_indent ln' + 1)
                               ''extra content after document end'')))"

definition yaml_parse :: "string \<Rightarrow> yaml_node expected" where
  "yaml_parse src = sbind (tokenize_lines src) parse_document"

end
