(* ===== verification/Rule_Literals.thy ===== *)
theory Rule_Literals
  imports Yaml_Parser Rules
begin

text \<open>
  The literals of src/rules/parser.cpp: numbers, sizes, byte patterns, count ranges, scope
  names and inline descriptions, with the table of the scopes at which a feature is allowed.
  \<open>std::from_chars\<close> on integers is modelled; on floating-point numbers it is the argument
  \<open>floats\<close>, which gives the bits of the double when the whole text is one.
\<close>

section \<open>Trimming and errors\<close>

definition is_ws :: "char \<Rightarrow> bool" where
  "is_ws c \<longleftrightarrow> c = blank \<or> c = tab_char"

definition ltrim :: "string \<Rightarrow> string" where
  "ltrim s = dropWhile is_ws s"

definition rtrim_ws :: "string \<Rightarrow> string" where
  "rtrim_ws s = rev (dropWhile is_ws (rev s))"

definition trim :: "string \<Rightarrow> string" where
  "trim s = rtrim_ws (ltrim s)"

definition rule_error :: "string \<Rightarrow> failure" where
  "rule_error detail = Papa_Error kInvalidRule detail"

definition rule_error_at :: "string \<Rightarrow> nat \<Rightarrow> nat \<Rightarrow> failure" where
  "rule_error_at detail line column =
     Papa_Error kInvalidRule (to_decimal line @ '':'' @ to_decimal column @ '': '' @ detail)"

definition error_at_node :: "string \<Rightarrow> yaml_node \<Rightarrow> failure" where
  "error_at_node detail n = rule_error_at detail (node_line n) (node_column n)"

definition starts_with :: "string \<Rightarrow> string \<Rightarrow> bool" where
  "starts_with p s \<longleftrightarrow> take (length p) s = p"

definition ends_with :: "string \<Rightarrow> string \<Rightarrow> bool" where
  "ends_with p s \<longleftrightarrow> length p \<le> length s \<and> drop (length s - length p) s = p"

definition drop_end :: "nat \<Rightarrow> string \<Rightarrow> string" where
  "drop_end n s = take (length s - n) s"

section \<open>Scopes at which features are allowed\<close>

fun scope_level :: "rule_scope \<Rightarrow> nat" where
  "scope_level kInstruction = 1"
| "scope_level kBasicBlockScope = 2"
| "scope_level kFunction = 3"
| "scope_level kFile = 4"
| "scope_level _ = 0"

fun feature_origin :: "feature_tag \<Rightarrow> rule_scope option" where
  "feature_origin kOs = Some kInstruction"
| "feature_origin kArch = Some kInstruction"
| "feature_origin kFormat = Some kInstruction"
| "feature_origin kMatchedRule = Some kInstruction"
| "feature_origin kString = Some kInstruction"
| "feature_origin kSubstring = Some kInstruction"
| "feature_origin kRegex = Some kInstruction"
| "feature_origin kImport = Some kFile"
| "feature_origin kExport = Some kFile"
| "feature_origin kSection = Some kFile"
| "feature_origin kFunctionName = Some kInstruction"
| "feature_origin kClass = Some kInstruction"
| "feature_origin kNamespace = Some kInstruction"
| "feature_origin kApi = Some kInstruction"
| "feature_origin kMnemonic = Some kInstruction"
| "feature_origin kNumber = Some kInstruction"
| "feature_origin kOffset = Some kInstruction"
| "feature_origin kBytes = Some kInstruction"
| "feature_origin kOperandNumber = Some kInstruction"
| "feature_origin kOperandOffset = Some kInstruction"
| "feature_origin kProperty = Some kInstruction"
| "feature_origin kCharacteristic = None"
| "feature_origin kBasicBlock = None"

definition is_dynamic_scope :: "rule_scope \<Rightarrow> bool" where
  "is_dynamic_scope sc \<longleftrightarrow> sc = kProcess \<or> sc = kThread \<or> sc = kCall \<or> sc = kSpanOfCalls"

definition is_feature_allowed :: "feature_tag \<Rightarrow> rule_scope \<Rightarrow> bool" where
  "is_feature_allowed t sc =
     (if t = kBasicBlock then False
      else if is_dynamic_scope sc then True
      else if t = kFunctionName \<or> t = kClass \<or> t = kNamespace
      then scope_level sc \<ge> scope_level kInstruction
      else if t = kCharacteristic then True
      else case feature_origin t of None \<Rightarrow> False | Some origin \<Rightarrow> scope_level sc \<ge> scope_level origin)"

definition kFileOrigin :: "string list" where
  "kFileOrigin = [''embedded pe'', ''mixed mode'', ''forwarded export'']"

definition kFnOrigin :: "string list" where
  "kFnOrigin = [''loop'', ''calls from'', ''calls to'', ''recursive call'']"

definition kBbOrigin :: "string list" where
  "kBbOrigin = [''tight loop'', ''stack string'']"

definition kInsnOrigin :: "string list" where
  "kInsnOrigin = [''nzxor'', ''peb access'', ''fs access'', ''gs access'', ''call $+5'',
     ''cross section flow'', ''indirect call'', ''unmanaged call'']"

definition is_characteristic_allowed :: "string \<Rightarrow> rule_scope \<Rightarrow> bool" where
  "is_characteristic_allowed v sc =
     (if is_dynamic_scope sc then True
      else if v \<in> set kFileOrigin then sc = kFile
      else if v \<in> set kFnOrigin then scope_level sc \<ge> scope_level kFunction
      else if v \<in> set kBbOrigin then scope_level sc \<ge> scope_level kBasicBlockScope
      else if v \<in> set kInsnOrigin then scope_level sc \<ge> scope_level kInstruction
      else True)"

section \<open>Inline descriptions\<close>

text \<open>The first \<open> = \<close> outside quotes; the first two arguments say which quotes are open.\<close>

fun desc_sep_from :: "bool \<Rightarrow> bool \<Rightarrow> nat \<Rightarrow> string \<Rightarrow> nat option" where
  "desc_sep_from in_dq in_sq i [] = None"
| "desc_sep_from in_dq in_sq i (c # cs) =
     (if c = dquote \<and> \<not> in_sq then desc_sep_from (\<not> in_dq) in_sq (Suc i) cs
      else if c = squote \<and> \<not> in_dq then desc_sep_from in_dq (\<not> in_sq) (Suc i) cs
      else if in_dq \<or> in_sq then desc_sep_from in_dq in_sq (Suc i) cs
      else if take 3 (c # cs) = '' = '' then Some i
      else desc_sep_from in_dq in_sq (Suc i) cs)"

definition find_inline_desc_sep :: "string \<Rightarrow> nat option" where
  "find_inline_desc_sep s = desc_sep_from False False 0 s"

definition kInlineDescSep :: string where "kInlineDescSep = '' = ''"

definition split_inline_description :: "string \<Rightarrow> string \<times> string option" where
  "split_inline_description s =
     (case find_inline_desc_sep s of
        None \<Rightarrow> (trim s, None)
      | Some pos \<Rightarrow> (trim (take pos s), Some (trim (drop (pos + length kInlineDescSep) s))))"

section \<open>Numbers\<close>

fun digits_value :: "nat \<Rightarrow> nat \<Rightarrow> string \<Rightarrow> nat option" where
  "digits_value base acc [] = Some acc"
| "digits_value base acc (c # cs) =
     (case hex_digit c of
        Some v \<Rightarrow> if v < base then digits_value base (acc * base + v) cs else None
      | None \<Rightarrow> None)"

text \<open>\<open>std::from_chars\<close> into 64 bits, when it reads the whole text.\<close>

definition from_chars_u64 :: "nat \<Rightarrow> string \<Rightarrow> nat option" where
  "from_chars_u64 base s =
     (if s = [] then None
      else case digits_value base 0 s of
             None \<Rightarrow> None
           | Some v \<Rightarrow> if v < 2 ^ 64 then Some v else None)"

type_synonym floats = "string \<Rightarrow> u64 option"

definition has_hex_prefix :: "string \<Rightarrow> bool" where
  "has_hex_prefix s \<longleftrightarrow> starts_with ''0x'' s \<or> starts_with ''0X'' s"

definition parse_number :: "floats \<Rightarrow> string \<Rightarrow> number_value expected" where
  "parse_number floats s =
     (if s = [] then Inl (rule_error ''empty number literal'')
      else if \<not> (has_hex_prefix s \<or> (hd s = CHR ''+'' \<or> hd s = dash) \<and> has_hex_prefix (tl s))
              \<and> (CHR ''.'' \<in> set s \<or> CHR ''e'' \<in> set s \<or> CHR ''E'' \<in> set s)
      then case floats s of
             None \<Rightarrow> Inl (rule_error (''invalid float: '' @ s))
           | Some v \<Rightarrow> Inr (Num_Double v)
      else
        let negative = (hd s = dash);
            signless = (if hd s = dash \<or> hd s = CHR ''+'' then tl s else s);
            base = (if has_hex_prefix signless then 16 else 10);
            body = (if has_hex_prefix signless then drop 2 signless else signless)
        in case from_chars_u64 base body of
             None \<Rightarrow> Inl (rule_error (''invalid integer: '' @ s))
           | Some mag \<Rightarrow>
               if \<not> negative then Inr (Num_U64 (of_nat mag))
               else if mag > 2 ^ 63
               then Inl (rule_error (''negative magnitude overflows int64: '' @ s))
               else if mag = 2 ^ 63 then Inl Signed_Overflow
               else Inr (Num_I64 (- of_nat mag)))"

definition parse_size_t :: "string \<Rightarrow> nat option" where
  "parse_size_t s0 =
     (let s = trim s0 in
      if s = [] then None
      else if has_hex_prefix s then from_chars_u64 16 (drop 2 s)
      else from_chars_u64 10 s)"

definition parse_number_literal :: "floats \<Rightarrow> string \<Rightarrow> number_value expected" where
  "parse_number_literal floats s = parse_number floats (trim s)"

section \<open>Scope names\<close>

definition parse_scope_name :: "string \<Rightarrow> rule_scope option expected" where
  "parse_scope_name name =
     (let t = trim name in
      if t = ''file'' then Inr (Some kFile)
      else if t = ''function'' then Inr (Some kFunction)
      else if t = ''basic block'' then Inr (Some kBasicBlockScope)
      else if t = ''instruction'' then Inr (Some kInstruction)
      else if t = ''global'' then Inr (Some kGlobal)
      else if t = ''process'' then Inr (Some kProcess)
      else if t = ''thread'' then Inr (Some kThread)
      else if t = ''call'' then Inr (Some kCall)
      else if t = ''span of calls'' then Inr (Some kSpanOfCalls)
      else if t = ''unsupported'' then Inr None
      else Inl (rule_error (''unknown scope name: '' @ t)))"

section \<open>Byte patterns\<close>

text \<open>An entry is \<open>None\<close> for a wildcard pair.\<close>

record bytes_literal =
  bl_pattern :: "u8 option list"
  bl_has_wildcards :: bool

fun bytes_loop :: "string \<Rightarrow> bytes_literal \<Rightarrow> bytes_literal expected" where
  "bytes_loop [] out = Inr out"
| "bytes_loop [a] out =
     (if is_ws a then Inr out else Inl (rule_error ''bytes literal has odd nibble count''))"
| "bytes_loop (a # b # cs) out =
     (if is_ws a then bytes_loop (b # cs) out
      else if a = CHR ''?'' \<and> b = CHR ''?''
      then bytes_loop cs (out\<lparr>bl_pattern := bl_pattern out @ [None], bl_has_wildcards := True\<rparr>)
      else case (hex_digit a, hex_digit b) of
             (Some hi, Some lo) \<Rightarrow>
               bytes_loop cs (out\<lparr>bl_pattern := bl_pattern out @ [Some (of_nat (push_bit 4 hi OR lo))]\<rparr>)
           | _ \<Rightarrow> Inl (rule_error (''bytes literal has invalid hex pair: '' @ [a, b])))"

definition parse_bytes_literal :: "string \<Rightarrow> bytes_literal expected" where
  "parse_bytes_literal s =
     sbind (bytes_loop s \<lparr>bl_pattern = [], bl_has_wildcards = False\<rparr>) (\<lambda>out.
       if bl_pattern out = [] then Inl (rule_error ''bytes literal is empty'') else Inr out)"

section \<open>Count ranges\<close>

definition kSizeMax :: nat where "kSizeMax = 2 ^ 64 - 1"

definition before_comma :: "string \<Rightarrow> string" where
  "before_comma body = takeWhile (\<lambda>c. c \<noteq> CHR '','') body"

definition parse_count_range :: "string \<Rightarrow> (nat \<times> nat) expected" where
  "parse_count_range s =
     (let t = trim s in
      if t \<noteq> [] \<and> hd t = CHR ''('' \<and> last t = CHR '')'' then
        let body = take (length t - 2) (drop 1 t) in
        if CHR '','' \<notin> set body then Inl (rule_error (''count range tuple missing comma: '' @ t))
        else case (parse_size_t (trim (before_comma body)),
                   parse_size_t (trim (drop (Suc (length (before_comma body))) body))) of
               (Some lo, Some hi) \<Rightarrow>
                 if lo > hi then Inl (rule_error (''count range min > max: '' @ t)) else Inr (lo, hi)
             | _ \<Rightarrow> Inl (rule_error (''count range tuple parts not integral: '' @ t))
      else if ends_with '' or more'' t then
        case parse_size_t (drop_end (length '' or more'') t) of
          None \<Rightarrow> Inl (rule_error (''count range 'N or more' lacks integer: '' @ t))
        | Some n \<Rightarrow> Inr (n, kSizeMax)
      else if ends_with '' or fewer'' t then
        case parse_size_t (drop_end (length '' or fewer'') t) of
          None \<Rightarrow> Inl (rule_error (''count range 'N or fewer' lacks integer: '' @ t))
        | Some n \<Rightarrow> Inr (0, n)
      else
        case parse_size_t t of
          None \<Rightarrow> Inl (rule_error (''count range value not integral: '' @ t))
        | Some n \<Rightarrow> Inr (n, n))"

end
