(* ===== verification/Rule_Parser.thy ===== *)
theory Rule_Parser
  imports Rule_Literals Com_Lookup
begin

text \<open>
  From the YAML tree of a rule to the rule (src/rules/parser.cpp): metadata, features, counts,
  operators and subscopes.  The features of the model carry no descriptions; the errors about
  descriptions are kept.  The parsers of the statement families get the parser of the
  children as an argument, \<open>kids\<close>, which is given the scope of the children, and answer
  \<open>None\<close> for a key of another family.
\<close>

section \<open>Metadata\<close>

definition in_quotes :: "string \<Rightarrow> string" where
  "in_quotes s = squote # s @ [squote]"

fun scalar_entries :: "string \<Rightarrow> yaml_node list \<Rightarrow> string list expected" where
  "scalar_entries ctx [] = Inr []"
| "scalar_entries ctx (Y_Scalar s l c # ns) = sbind (scalar_entries ctx ns) (\<lambda>ss. Inr (s # ss))"
| "scalar_entries ctx (n # ns) = Inl (error_at_node (ctx @ '' entries must be scalar'') n)"

text \<open>The entries that \<open>collect_string_list\<close> appends to its output.\<close>

fun collect_string_list :: "yaml_node \<Rightarrow> string \<Rightarrow> string list expected" where
  "collect_string_list (Y_Sequence items l c) ctx = scalar_entries ctx items"
| "collect_string_list n ctx = Inl (error_at_node (ctx @ '' must be a sequence'') n)"

fun meta_scalar :: "string \<Rightarrow> yaml_node \<Rightarrow> string expected" where
  "meta_scalar what (Y_Scalar s l c) = Inr s"
| "meta_scalar what n = Inl (error_at_node (what @ '' must be scalar'') n)"

fun scopes_loop :: "(string \<times> yaml_node) list \<Rightarrow> scopes \<Rightarrow> scopes expected" where
  "scopes_loop [] out = Inr out"
| "scopes_loop ((skey, sval) # entries) out =
     sbind (meta_scalar (in_quotes ''meta.scopes'' @ '' entries'') sval) (\<lambda>s.
     sbind (parse_scope_name s) (\<lambda>sc.
       if skey = ''static'' then scopes_loop entries (out\<lparr>static_scope := sc\<rparr>)
       else if skey = ''dynamic'' then scopes_loop entries (out\<lparr>dynamic_scope := sc\<rparr>)
       else Inl (error_at_node (''unknown scopes key: '' @ skey) sval)))"

fun meta_scopes_value :: "yaml_node \<Rightarrow> scopes \<Rightarrow> scopes expected" where
  "meta_scopes_value (Y_Mapping es l c) out = scopes_loop es out"
| "meta_scopes_value n out = Inl (error_at_node (in_quotes ''meta.scopes'' @ '' must be a mapping'') n)"

definition meta_entry :: "string \<Rightarrow> yaml_node \<Rightarrow> rule_meta \<Rightarrow> rule_meta expected" where
  "meta_entry key val out =
     (if key = ''name'' then
        sbind (meta_scalar (in_quotes ''meta.name'') val) (\<lambda>s. Inr (out\<lparr>meta_name := s\<rparr>))
      else if key = ''namespace'' then
        sbind (meta_scalar (in_quotes ''meta.namespace'') val) (\<lambda>s.
          Inr (if s = [] then out else out\<lparr>meta_namespace := Some s\<rparr>))
      else if key = ''scope'' then
        sbind (meta_scalar (in_quotes ''meta.scope'') val) (\<lambda>s.
        sbind (parse_scope_name s) (\<lambda>sc.
          Inr (out\<lparr>meta_scopes := (meta_scopes out)\<lparr>static_scope := sc\<rparr>\<rparr>)))
      else if key = ''scopes'' then
        sbind (meta_scopes_value val (meta_scopes out)) (\<lambda>sc. Inr (out\<lparr>meta_scopes := sc\<rparr>))
      else if key = ''authors'' then
        sbind (collect_string_list val ''meta.authors'') (\<lambda>xs.
          Inr (out\<lparr>meta_authors := meta_authors out @ xs\<rparr>))
      else if key = ''att&ck'' then
        sbind (collect_string_list val ''meta.att&ck'') (\<lambda>xs.
          Inr (out\<lparr>meta_att_and_ck := meta_att_and_ck out @ xs\<rparr>))
      else if key = ''mbc'' then
        sbind (collect_string_list val ''meta.mbc'') (\<lambda>xs.
          Inr (out\<lparr>meta_mbc := meta_mbc out @ xs\<rparr>))
      else if key = ''examples'' then
        sbind (collect_string_list val ''meta.examples'') (\<lambda>xs.
          Inr (out\<lparr>meta_examples := meta_examples out @ xs\<rparr>))
      else if key = ''references'' then
        sbind (collect_string_list val ''meta.references'') (\<lambda>xs.
          Inr (out\<lparr>meta_references := meta_references out @ xs\<rparr>))
      else if key = ''description'' then
        sbind (meta_scalar (in_quotes ''meta.description'') val) (\<lambda>s.
          Inr (out\<lparr>meta_description := Some s\<rparr>))
      else if key = ''lib'' then
        sbind (meta_scalar (in_quotes ''meta.lib'') val) (\<lambda>s.
          Inr (out\<lparr>meta_lib := s = ''true'' \<or> s = ''True'' \<or> s = ''yes''\<rparr>))
      else Inr out)"

fun meta_loop :: "(string \<times> yaml_node) list \<Rightarrow> rule_meta \<Rightarrow> rule_meta expected" where
  "meta_loop [] out = Inr out"
| "meta_loop ((key, val) # es) out = sbind (meta_entry key val out) (meta_loop es)"

definition parse_meta :: "yaml_node \<Rightarrow> rule_meta \<Rightarrow> rule_meta expected" where
  "parse_meta rule_node out =
     (case node_find rule_node ''meta'' of
        None \<Rightarrow> Inl (error_at_node (''rule is missing '' @ in_quotes ''meta:'') rule_node)
      | Some (Y_Mapping es l c) \<Rightarrow>
          sbind (meta_loop es out) (\<lambda>m.
            if meta_name m = []
            then Inl (rule_error_at (''rule is missing '' @ in_quotes ''meta.name'') l c)
            else Inr m)
      | Some n \<Rightarrow> Inl (error_at_node (in_quotes ''meta:'' @ '' must be a mapping'') n))"

section \<open>Features\<close>

definition trim_dll_part :: "string \<Rightarrow> string" where
  "trim_dll_part api =
     (if has_infix ''.#'' api then api
      else if length (filter (\<lambda>c. c = CHR ''.'') api) = 1 \<and> \<not> has_infix ''::'' api
      then tl (dropWhile (\<lambda>c. c \<noteq> CHR ''.'') api)
      else api)"

fun as_offset :: "number_value \<Rightarrow> i64 option" where
  "as_offset (Num_I64 i) = Some i"
| "as_offset (Num_U64 u) = Some u"
| "as_offset (Num_Double d) = None"

definition operand_leaf :: "floats \<Rightarrow> string \<Rightarrow> string \<Rightarrow> nat \<Rightarrow> nat \<Rightarrow> feature expected" where
  "operand_leaf floats key val line column =
     (if CHR '']'' \<notin> set key then Inl (rule_error_at (''malformed operand key: '' @ key) line column)
      else
        let close = length (takeWhile (\<lambda>c. c \<noteq> CHR '']'') key);
            which = drop (close + 1) key
        in case parse_size_t (take (close - 8) (drop 8 key)) of
             None \<Rightarrow> Inl (rule_error_at (''operand index out of range: '' @ key) line column)
           | Some idx \<Rightarrow>
               if idx > 4
               then Inl (rule_error_at (''operand index out of range: '' @ key) line column)
               else if which \<noteq> ''.number'' \<and> which \<noteq> ''.offset''
               then Inl (rule_error_at (''unknown operand suffix: '' @ key) line column)
               else sbind (parse_number floats val) (\<lambda>num.
                 if which = ''.number'' then Inr (FOperandNumber idx num)
                 else case as_offset num of
                        None \<Rightarrow> Inl (rule_error_at ''operand offset cannot be floating point'' line column)
                      | Some off \<Rightarrow> Inr (FOperandOffset idx off)))"

definition property_leaf :: "string \<Rightarrow> string \<Rightarrow> nat \<Rightarrow> nat \<Rightarrow> feature expected" where
  "property_leaf key val line column =
     (let suffix = drop (length ''property/'') key in
      if suffix = ''read'' then Inr (FProperty val Access_Read)
      else if suffix = ''write'' then Inr (FProperty val Access_Write)
      else Inl (rule_error_at (''unknown property access: '' @ key) line column))"

definition number_leaf :: "floats \<Rightarrow> string \<Rightarrow> string \<Rightarrow> nat \<Rightarrow> nat \<Rightarrow> feature expected" where
  "number_leaf floats key val line column =
     sbind (parse_number floats val) (\<lambda>num.
       if key = ''number'' then Inr (FNumber num)
       else case as_offset num of
              None \<Rightarrow> Inl (rule_error_at ''offset cannot be floating point'' line column)
            | Some off \<Rightarrow> Inr (FOffset off))"

definition bytes_leaf :: "string \<Rightarrow> nat \<Rightarrow> nat \<Rightarrow> feature expected" where
  "bytes_leaf val line column =
     sbind (parse_bytes_literal val) (\<lambda>bl.
       if bl_has_wildcards bl
       then Inl (rule_error_at ''bytes wildcards are not yet supported in v1'' line column)
       else Inr (FBytes (map the (bl_pattern bl))))"

definition is_regex_literal :: "string \<Rightarrow> bool" where
  "is_regex_literal v \<longleftrightarrow>
     length v \<ge> 2 \<and> hd v = CHR ''/'' \<and> (ends_with ''/'' v \<or> ends_with ''/i'' v)"

definition value_leaf :: "string \<Rightarrow> string \<Rightarrow> feature option" where
  "value_leaf key v =
     (if key = ''api'' then Some (FApi (trim_dll_part v))
      else if key = ''import'' then Some (FImport v)
      else if key = ''export'' then Some (FExport v)
      else if key = ''section'' then Some (FSection v)
      else if key = ''function-name'' then Some (FFunctionName v)
      else if key = ''mnemonic'' then Some (FMnemonic v)
      else if key = ''characteristic'' then Some (FCharacteristic v)
      else if key = ''class'' then Some (FClass v)
      else if key = ''namespace'' then Some (FNamespace v)
      else if key = ''os'' then Some (FOs v)
      else if key = ''arch'' then Some (FArch v)
      else if key = ''format'' then Some (FFormat v)
      else if key = ''match'' then Some (FMatchedRule v)
      else if key = ''string'' then Some (if is_regex_literal v then FRegex v else FString v)
      else if key = ''substring'' then Some (FSubstring v)
      else None)"

text \<open>The value is what stands before an inline description.\<close>

definition build_feature_leaf :: "floats \<Rightarrow> string \<Rightarrow> string \<Rightarrow> nat \<Rightarrow> nat \<Rightarrow> feature expected" where
  "build_feature_leaf floats key raw line column =
     (let v = fst (split_inline_description raw) in
      if starts_with ''operand['' key then operand_leaf floats key v line column
      else if starts_with ''property/'' key then property_leaf key v line column
      else if key = ''number'' \<or> key = ''offset'' then number_leaf floats key v line column
      else if key = ''bytes'' then bytes_leaf v line column
      else case value_leaf key v of
             Some f \<Rightarrow> Inr f
           | None \<Rightarrow> Inl (rule_error_at (''unknown feature key: '' @ key) line column))"

definition split_count_call :: "string \<Rightarrow> (string \<times> string) option" where
  "split_count_call key =
     (if \<not> starts_with ''count('' key \<or> \<not> ends_with '')'' key then None
      else
        let inner = take (length key - length ''count('' - 1) (drop (length ''count('') key);
            inner_key = takeWhile (\<lambda>c. c \<noteq> CHR ''('') inner;
            open_at = length inner_key
        in if CHR ''('' \<notin> set inner \<or> \<not> ends_with '')'' inner then None
           else Some (inner_key, take (length inner - open_at - 2) (drop (open_at + 1) inner)))"

section \<open>Statements\<close>

type_synonym kids_parser = "rule_scope \<Rightarrow> statement list expected"

abbreviation some_all :: "'a list \<Rightarrow> 'a option list" where
  "some_all xs \<equiv> map Some xs"

fun is_inline_description_item :: "yaml_node \<Rightarrow> bool" where
  "is_inline_description_item (Y_Mapping ((key, val) # es) l c) \<longleftrightarrow> key = ''description''"
| "is_inline_description_item n \<longleftrightarrow> False"

definition or_more :: string where "or_more = '' or more''"

text \<open>\<open>value\<close> is known by its position only; \<open>line\<close> and \<open>column\<close> are those of the item.\<close>

definition parse_operator ::
    "kids_parser \<Rightarrow> string \<Rightarrow> nat \<Rightarrow> nat \<Rightarrow> yaml_node \<Rightarrow> rule_scope \<Rightarrow> statement expected option" where
  "parse_operator kids key line column val scope =
     (if key = ''and'' then Some (sbind (kids scope) (\<lambda>ks. Inr (SAnd (some_all ks))))
      else if key = ''or'' then Some (sbind (kids scope) (\<lambda>ks. Inr (SOr (some_all ks))))
      else if key = ''not'' then
        Some (sbind (kids scope) (\<lambda>ks.
          if length ks \<noteq> 1
          then Inl (error_at_node (in_quotes ''not'' @ '' takes exactly one child'') val)
          else Inr (SNot (hd ks))))
      else if key = ''optional'' then
        Some (sbind (kids scope) (\<lambda>ks. Inr (SSome 0 (some_all ks))))
      else if \<not> ends_with or_more key then None
      else Some (case parse_size_t (drop_end (length or_more) key) of
                   None \<Rightarrow> Inl (rule_error_at (''malformed N-or-more: '' @ key) line column)
                 | Some n \<Rightarrow> sbind (kids scope) (\<lambda>ks. Inr (SSome n (some_all ks)))))"

definition subscope_scope :: "string \<Rightarrow> rule_scope option" where
  "subscope_scope key =
     (if key = ''basic block'' then Some kBasicBlockScope
      else if key = ''instruction'' then Some kInstruction
      else if key = ''function'' then Some kFunction
      else if key = ''call'' then Some kCall
      else if key = ''process'' then Some kProcess
      else if key = ''thread'' then Some kThread
      else if key = ''span of calls'' then Some kSpanOfCalls
      else None)"

text \<open>A single child stands for itself, several for their conjunction.\<close>

definition one_or_and :: "statement list \<Rightarrow> statement" where
  "one_or_and ks = (if length ks = 1 then hd ks else SAnd (some_all ks))"

definition parse_subscope :: "kids_parser \<Rightarrow> string \<Rightarrow> statement expected option" where
  "parse_subscope kids key =
     (case subscope_scope key of
        None \<Rightarrow> None
      | Some sc \<Rightarrow> Some (sbind (kids sc) (\<lambda>ks. Inr (SSubscope sc (one_or_and ks)))))"

fun is_scalar :: "yaml_node \<Rightarrow> bool" where
  "is_scalar (Y_Scalar s l c) \<longleftrightarrow> True"
| "is_scalar n \<longleftrightarrow> False"

definition parse_com ::
    "string \<Rightarrow> nat \<Rightarrow> nat \<Rightarrow> yaml_node \<Rightarrow> rule_scope \<Rightarrow> statement expected option" where
  "parse_com key line column val scope =
     (if key \<noteq> ''com/class'' \<and> key \<noteq> ''com/interface'' then None
      else Some (
        if \<not> is_scalar val then Inl (error_at_node (in_quotes key @ '' value must be scalar'') val)
        else sbind (node_scalar val) (\<lambda>s.
          let name_part = fst (split_inline_description s);
              com_kind = (if key = ''com/class'' then kComClass else kComInterface)
          in case lookup_com com_kind name_part of
               None \<Rightarrow>
                 Inl (error_at_node (''unknown COM '' @
                        (if com_kind = kComClass then ''class'' else ''interface'') @
                        '' name: '' @ name_part) val)
             | Some entry \<Rightarrow>
                 if \<not> is_feature_allowed kBytes scope \<or> \<not> is_feature_allowed kString scope
                 then Inl (rule_error_at (in_quotes key @ '' not allowed at scope '' @
                             scope_to_string scope) line column)
                 else sbind (com_guid_bytes entry) (\<lambda>bs.
                   Inr (SOr [Some (SFeature (FBytes bs)),
                             Some (SFeature (FString (guid_string entry)))])))))"

definition parse_count ::
    "floats \<Rightarrow> string \<Rightarrow> nat \<Rightarrow> nat \<Rightarrow> yaml_node \<Rightarrow> rule_scope \<Rightarrow> statement expected option" where
  "parse_count floats key line column val scope =
     (if key = ''count(basic blocks)'' \<or> key = ''count(basic block)'' then
        Some (if \<not> is_scalar val
              then Inl (error_at_node ''count(basic blocks) value must be a scalar range'' val)
              else sbind (node_scalar val) (\<lambda>s.
                   sbind (parse_count_range s) (\<lambda>(lo, hi). Inr (SRange FBasicBlock lo hi))))
      else case split_count_call key of
             None \<Rightarrow> None
           | Some (inner_key, inner_value) \<Rightarrow>
               Some (if \<not> is_scalar val
                     then Inl (error_at_node ''count(...) value must be a scalar range'' val)
                     else sbind (node_scalar val) (\<lambda>s.
                          sbind (parse_count_range s) (\<lambda>(lo, hi).
                          sbind (build_feature_leaf floats inner_key inner_value line column) (\<lambda>f.
                            if \<not> is_feature_allowed (tag f) scope
                            then Inl (rule_error_at (''feature in count(): '' @ inner_key @
                                        '' not allowed at scope '' @ scope_to_string scope) line column)
                            else Inr (SRange f lo hi))))))"

text \<open>The keys after the first: descriptions only.\<close>

fun sibling_keys :: "(string \<times> yaml_node) list \<Rightarrow> unit expected" where
  "sibling_keys [] = Inr ()"
| "sibling_keys ((skey, sval) # es) =
     (if skey = ''description''
      then sbind (meta_scalar (in_quotes ''description'') sval) (\<lambda>_. sibling_keys es)
      else Inl (error_at_node (''unexpected sibling key in feature mapping: '' @ skey) sval))"

definition check_leaf_scope :: "string \<Rightarrow> feature \<Rightarrow> rule_scope \<Rightarrow> nat \<Rightarrow> nat \<Rightarrow> unit expected" where
  "check_leaf_scope key f scope line column =
     (if \<not> is_feature_allowed (tag f) scope
      then Inl (rule_error_at (''feature '' @ in_quotes key @ '' not allowed at scope '' @
                  scope_to_string scope) line column)
      else case f of
             FCharacteristic v \<Rightarrow>
               if is_characteristic_allowed v scope then Inr ()
               else Inl (rule_error_at (''characteristic '' @ in_quotes v @ '' not allowed at scope '' @
                           scope_to_string scope) line column)
           | _ \<Rightarrow> Inr ())"

definition parse_leaf ::
    "floats \<Rightarrow> string \<Rightarrow> (string \<times> yaml_node) list \<Rightarrow> nat \<Rightarrow> nat \<Rightarrow> yaml_node \<Rightarrow> rule_scope \<Rightarrow>
     statement expected" where
  "parse_leaf floats key siblings line column val scope =
     (if \<not> is_scalar val
      then Inl (error_at_node (''feature '' @ in_quotes key @ '' expects a scalar value'') val)
      else sbind (sibling_keys siblings) (\<lambda>_.
           sbind (node_scalar val) (\<lambda>s.
           sbind (build_feature_leaf floats key s (node_line val) (node_column val)) (\<lambda>f.
           sbind (check_leaf_scope key f scope line column) (\<lambda>_. Inr (SFeature f))))))"

text \<open>The dispatch on the first key of an item; \<open>kids\<close> parses the children in \<open>val\<close>.\<close>

definition statement_of ::
    "floats \<Rightarrow> kids_parser \<Rightarrow> string \<Rightarrow> (string \<times> yaml_node) list \<Rightarrow> nat \<Rightarrow> nat \<Rightarrow> yaml_node \<Rightarrow>
     rule_scope \<Rightarrow> statement expected" where
  "statement_of floats kids key siblings line column val scope =
     (case parse_operator kids key line column val scope of Some st \<Rightarrow> st
      | None \<Rightarrow>
      (case parse_subscope kids key of Some st \<Rightarrow> st
       | None \<Rightarrow>
       (case parse_com key line column val scope of Some st \<Rightarrow> st
        | None \<Rightarrow>
        (case parse_count floats key line column val scope of Some st \<Rightarrow> st
         | None \<Rightarrow> parse_leaf floats key siblings line column val scope))))"

fun parse_statement_item :: "floats \<Rightarrow> yaml_node \<Rightarrow> rule_scope \<Rightarrow> statement expected"
  and parse_statement_children :: "floats \<Rightarrow> yaml_node \<Rightarrow> rule_scope \<Rightarrow> statement list expected"
  and children_loop :: "floats \<Rightarrow> yaml_node list \<Rightarrow> rule_scope \<Rightarrow> statement list expected" where
  "parse_statement_item floats (Y_Mapping ((key, val) # siblings) line column) scope =
     statement_of floats (\<lambda>sc. parse_statement_children floats val sc) key siblings line column val scope"
| "parse_statement_item floats (Y_Mapping [] line column) scope =
     Inl (rule_error_at ''feature mapping is empty'' line column)"
| "parse_statement_item floats n scope = Inl (error_at_node ''feature item must be a mapping'' n)"
| "parse_statement_children floats (Y_Sequence items line column) scope = children_loop floats items scope"
| "parse_statement_children floats n scope =
     Inl (error_at_node ''expected a sequence of child statements'' n)"
| "children_loop floats [] scope = Inr []"
| "children_loop floats (n # ns) scope =
     (if is_inline_description_item n then children_loop floats ns scope
      else sbind (parse_statement_item floats n scope) (\<lambda>st.
           sbind (children_loop floats ns scope) (\<lambda>sts. Inr (st # sts))))"

fun parse_features_root :: "floats \<Rightarrow> yaml_node \<Rightarrow> rule_scope \<Rightarrow> statement expected" where
  "parse_features_root floats (Y_Sequence items line column) scope =
     (if items = [] then Inl (rule_error_at (in_quotes ''features:'' @ '' is empty'') line column)
      else sbind (children_loop floats items scope) (\<lambda>ks. Inr (one_or_and ks)))"
| "parse_features_root floats n scope =
     Inl (error_at_node (in_quotes ''features:'' @ '' must be a sequence'') n)"

section \<open>Rules\<close>

definition empty_meta :: "string \<Rightarrow> rule_meta" where
  "empty_meta source_path =
     \<lparr>meta_name = [], meta_scopes = \<lparr>static_scope = None, dynamic_scope = None\<rparr>,
      meta_namespace = None, meta_authors = [], meta_att_and_ck = [], meta_mbc = [],
      meta_examples = [], meta_references = [], meta_description = None, meta_lib = False,
      meta_is_subscope_rule = False, meta_parent = None, meta_source_path = source_path\<rparr>"

fun is_mapping :: "yaml_node \<Rightarrow> bool" where
  "is_mapping (Y_Mapping es l c) \<longleftrightarrow> True"
| "is_mapping n \<longleftrightarrow> False"

text \<open>The part of \<open>RuleParser::parse\<close> after the YAML parser; \<open>root\<close> is the tree it returned.\<close>

definition parse_root :: "floats \<Rightarrow> yaml_node \<Rightarrow> string \<Rightarrow> string \<Rightarrow> rule expected" where
  "parse_root floats root yaml_text source_path =
     (if \<not> is_mapping root
      then Inl (error_at_node ''rule document must have a top-level mapping'' root)
      else case node_find root ''rule'' of
             None \<Rightarrow> Inl (error_at_node (''missing top-level '' @ in_quotes ''rule:'') root)
           | Some rule_node \<Rightarrow>
               if \<not> is_mapping rule_node
               then Inl (error_at_node (in_quotes ''rule:'' @ '' must be a mapping'') rule_node)
               else sbind (parse_meta rule_node (empty_meta source_path)) (\<lambda>m.
                 case node_find rule_node ''features'' of
                   None \<Rightarrow> Inl (error_at_node (''rule is missing '' @ in_quotes ''features:'') rule_node)
                 | Some features_node \<Rightarrow>
                     let scope = (case static_scope (meta_scopes m) of None \<Rightarrow> kFunction | Some sc \<Rightarrow> sc)
                     in sbind (parse_features_root floats features_node scope) (\<lambda>st.
                          Inr \<lparr>rule_meta = m, rule_statement = st, rule_definition = yaml_text\<rparr>)))"

definition rule_parse :: "floats \<Rightarrow> string \<Rightarrow> string \<Rightarrow> rule expected" where
  "rule_parse floats yaml_text source_path =
     sbind (yaml_parse yaml_text) (\<lambda>root. parse_root floats root yaml_text source_path)"

end
