(* ===== verification/Parsed_Rules.thy ===== *)
theory Parsed_Rules
  imports Rule_Parser Ruleset
begin

text \<open>
  What the rule parser guarantees of the rules it returns, and what a rule set built from such
  rules can rely on.
\<close>

section \<open>Statements that fit a scope\<close>

fun feature_fits :: "feature \<Rightarrow> bool" where
  "feature_fits (FBytes bs) \<longleftrightarrow> bs \<noteq> []"
| "feature_fits (FOperandNumber i n) \<longleftrightarrow> i \<le> 4"
| "feature_fits (FOperandOffset i n) \<longleftrightarrow> i \<le> 4"
| "feature_fits f \<longleftrightarrow> True"

text \<open>A counted characteristic is not checked against its scope, as \<open>parse_count\<close> does not.\<close>

fun stmt_fits :: "rule_scope \<Rightarrow> statement \<Rightarrow> bool" where
  "stmt_fits sc (SAnd cs) \<longleftrightarrow> list_all (\<lambda>c. case c of None \<Rightarrow> False | Some s \<Rightarrow> stmt_fits sc s) cs"
| "stmt_fits sc (SOr cs) \<longleftrightarrow> list_all (\<lambda>c. case c of None \<Rightarrow> False | Some s \<Rightarrow> stmt_fits sc s) cs"
| "stmt_fits sc (SNot s) \<longleftrightarrow> stmt_fits sc s"
| "stmt_fits sc (SSome n cs) \<longleftrightarrow> n \<le> kSizeMax \<and>
     list_all (\<lambda>c. case c of None \<Rightarrow> False | Some s \<Rightarrow> stmt_fits sc s) cs"
| "stmt_fits sc (SRange f lo hi) \<longleftrightarrow> lo \<le> hi \<and> hi \<le> kSizeMax \<and> feature_fits f \<and>
     (f = FBasicBlock \<or> is_feature_allowed (tag f) sc)"
| "stmt_fits sc (SSubscope sc' s) \<longleftrightarrow> sc' \<notin> {kFile, kGlobal} \<and> stmt_fits sc' s"
| "stmt_fits sc (SFeature f) \<longleftrightarrow> feature_fits f \<and> is_feature_allowed (tag f) sc \<and>
     (\<forall>v. f = FCharacteristic v \<longrightarrow> is_characteristic_allowed v sc)"

section \<open>Literals\<close>

lemma from_chars_bound: "from_chars_u64 base s = Some n \<Longrightarrow> n \<le> kSizeMax"
  by (auto simp: from_chars_u64_def kSizeMax_def split: if_split_asm option.split_asm)

lemma parse_size_t_bound: "parse_size_t s = Some n \<Longrightarrow> n \<le> kSizeMax"
  by (auto simp: parse_size_t_def Let_def intro: from_chars_bound split: if_split_asm)

lemma parse_count_range_fits: "parse_count_range s = Inr (lo, hi) \<Longrightarrow> lo \<le> hi \<and> hi \<le> kSizeMax"
  by (auto simp: parse_count_range_def Let_def dest!: parse_size_t_bound
      split: if_split_asm option.split_asm)

lemma bytes_leaf_fits: "bytes_leaf s l c = Inr f \<Longrightarrow> feature_fits f"
  by (auto simp: bytes_leaf_def parse_bytes_literal_def split: if_split_asm)

lemma operand_leaf_fits: "operand_leaf fl key s l c = Inr f \<Longrightarrow> feature_fits f"
  by (auto simp: operand_leaf_def Let_def split: if_split_asm option.split_asm)

lemma value_leaf_fits: "value_leaf key s = Some f \<Longrightarrow> feature_fits f"
  by (auto simp: value_leaf_def split: if_split_asm)

lemma build_feature_leaf_fits: "build_feature_leaf fl key s l c = Inr f \<Longrightarrow> feature_fits f"
  by (auto simp: build_feature_leaf_def Let_def property_leaf_def number_leaf_def
      dest: bytes_leaf_fits operand_leaf_fits value_leaf_fits split: if_split_asm option.split_asm)

section \<open>Statements\<close>

definition kids_fit :: "kids_parser \<Rightarrow> bool" where
  "kids_fit kids \<longleftrightarrow> (\<forall>sc ks. kids sc = Inr ks \<longrightarrow> list_all (stmt_fits sc) ks)"

lemma some_all_fit [simp]:
  "list_all (\<lambda>c. case c of None \<Rightarrow> False | Some s \<Rightarrow> P s) (some_all ks) = list_all P ks"
  by (simp add: list_all_iff)

lemma one_or_and_fits: "list_all (stmt_fits sc) ks \<Longrightarrow> stmt_fits sc (one_or_and ks)"
  by (cases ks) (auto simp: one_or_and_def)

lemma kids_fitD: "kids sc = Inr ks \<Longrightarrow> kids_fit kids \<Longrightarrow> list_all (stmt_fits sc) ks"
  by (simp add: kids_fit_def)

lemma parse_operator_fits:
  "kids_fit kids \<Longrightarrow> parse_operator kids key l c val sc = Some (Inr st) \<Longrightarrow> stmt_fits sc st"
  by (auto simp: parse_operator_def length_Suc_conv dest!: kids_fitD dest: parse_size_t_bound
      split: if_split_asm option.split_asm)

lemma parse_subscope_fits:
  "kids_fit kids \<Longrightarrow> parse_subscope kids key = Some (Inr st) \<Longrightarrow> stmt_fits sc st"
  by (auto simp: parse_subscope_def subscope_scope_def kids_fit_def intro!: one_or_and_fits
      split: if_split_asm option.split_asm)

lemma parse_com_fits:
  assumes "parse_com key l c val sc = Some (Inr st)"
  shows "stmt_fits sc st"
proof (cases val)
  case (Y_Scalar s line col)
  have bs: "bs \<noteq> []" if "com_guid_bytes entry = Inr bs" for entry bs
    using guid_bytes_length [OF that] by auto
  let ?entry = "\<lambda>k. lookup_com k (fst (split_inline_description s))"
  show ?thesis
    using assms Y_Scalar bs
    by (cases "?entry kComClass"; cases "?entry kComInterface")
      (auto simp: parse_com_def split: if_split_asm)
qed (use assms in \<open>simp_all add: parse_com_def split: if_split_asm\<close>)

lemma parse_count_fits: "parse_count fl key l c val sc = Some (Inr st) \<Longrightarrow> stmt_fits sc st"
  by (auto simp: parse_count_def dest: parse_count_range_fits build_feature_leaf_fits
      split: if_split_asm option.split_asm prod.split_asm)

lemma parse_leaf_fits: "parse_leaf fl key sibs l c val sc = Inr st \<Longrightarrow> stmt_fits sc st"
  by (auto simp: parse_leaf_def check_leaf_scope_def dest: build_feature_leaf_fits
      split: if_split_asm feature.split_asm)

lemma statement_of_fits:
  "kids_fit kids \<Longrightarrow> statement_of fl kids key sibs l c val sc = Inr st \<Longrightarrow> stmt_fits sc st"
  by (auto simp: statement_of_def intro: parse_operator_fits parse_subscope_fits parse_com_fits
      parse_count_fits parse_leaf_fits split: option.split_asm)

lemma parsed_statements_fit:
  "parse_statement_item fl n sc = Inr st \<Longrightarrow> stmt_fits sc st"
  "parse_statement_children fl n sc = Inr sts \<Longrightarrow> list_all (stmt_fits sc) sts"
  "children_loop fl ns sc = Inr sts \<Longrightarrow> list_all (stmt_fits sc) sts"
proof (induction fl n sc and fl n sc and fl ns sc arbitrary: st and sts and sts
    rule: parse_statement_item_parse_statement_children_children_loop.induct)
  case (1 fl key val sibs l c sc)
  have "kids_fit (parse_statement_children fl val)" using 1(1) by (simp add: kids_fit_def)
  then show ?case using 1(2) by (auto intro: statement_of_fits)
qed (auto split: if_split_asm)

lemma features_root_fits: "parse_features_root fl n sc = Inr st \<Longrightarrow> stmt_fits sc st"
  by (cases n) (auto dest: parsed_statements_fit(3) intro: one_or_and_fits split: if_split_asm)

section \<open>Metadata\<close>

text \<open>What no entry of the metadata changes.\<close>

definition meta_frame :: "rule_meta \<Rightarrow> bool \<times> string option \<times> string" where
  "meta_frame m = (meta_is_subscope_rule m, meta_parent m, meta_source_path m)"

lemma meta_entry_keeps: "meta_entry k v m = Inr m' \<Longrightarrow> meta_frame m' = meta_frame m"
  by (auto simp: meta_entry_def meta_frame_def split: if_split_asm)

lemma meta_loop_keeps: "meta_loop es m = Inr m' \<Longrightarrow> meta_frame m' = meta_frame m"
  by (induction es m arbitrary: m' rule: meta_loop.induct) (auto dest: meta_entry_keeps)

lemma parse_meta_keeps:
  "parse_meta n m = Inr m' \<Longrightarrow> meta_name m' \<noteq> [] \<and> meta_frame m' = meta_frame m"
  by (cases "node_find n ''meta''"; (cases "the (node_find n ''meta'')")?)
    (auto simp: parse_meta_def dest: meta_loop_keeps split: if_split_asm)

section \<open>Rules\<close>

definition rule_fits :: "rule \<Rightarrow> bool" where
  "rule_fits r \<longleftrightarrow> rule_name r \<noteq> [] \<and> \<not> meta_is_subscope_rule (rule_meta r) \<and>
     meta_parent (rule_meta r) = None \<and> stmt_fits (rule_scope_of r) (rule_statement r)"

lemma parsed_rule_fits':
  assumes "rule_parse fl src path = Inr r"
  shows "rule_fits r \<and> meta_source_path (rule_meta r) = path \<and> rule_definition r = src"
proof -
  from assms obtain root where root: "parse_root fl root src path = Inr r" by (auto simp: rule_parse_def)
  then obtain n m f st where m: "parse_meta n (empty_meta path) = Inr m"
    and st: "parse_features_root fl f (case static_scope (meta_scopes m) of None \<Rightarrow> kFunction | Some sc \<Rightarrow> sc) = Inr st"
    and r: "r = \<lparr>rule_meta = m, rule_statement = st, rule_definition = src\<rparr>"
    by (auto simp: parse_root_def Let_def split: if_split_asm option.split_asm)
  then show ?thesis
    using parse_meta_keeps [OF m, unfolded meta_frame_def empty_meta_def, simplified] features_root_fits [OF st]
    unfolding rule_fits_def rule_scope_of_def kDefaultStaticScope_def by simp
qed

text \<open>
  C12: A parsed rule has a name and the path and the text it was parsed from, it is no
  extracted subscope, and every statement in it fits the scope it stands in: no child is
  missing, every feature may occur at the scope, counts are ordered ranges of 64-bit numbers,
  operand indices are at most 4 and byte patterns are not empty.
\<close>

theorem parsed_rule_fits:
  assumes "rule_parse fl src path = Inr r"
  shows "rule_fits r \<and> meta_source_path (rule_meta r) = path \<and> rule_definition r = src"
  using assms by (rule parsed_rule_fits')

definition sample_source :: string where
  "sample_source = concat (map (\<lambda>l. l @ [newline])
     [''rule:'', ''  meta:'', ''    name: greets'', ''    scope: basic block'', ''  features:'',
      ''    - or:'', ''      - api: user32.MessageBox'', ''      - mnemonic: xor''])"

definition sample_parsed_rule :: rule where
  "sample_parsed_rule =
     \<lparr>rule_meta = (empty_meta ''greet.yml'')\<lparr>meta_name := ''greets'',
        meta_scopes := \<lparr>static_scope = Some kBasicBlockScope, dynamic_scope = None\<rparr>\<rparr>,
      rule_statement = SOr [Some (SFeature (FApi ''MessageBox'')), Some (SFeature (FMnemonic ''xor''))],
      rule_definition = sample_source\<rparr>"

lemma sample_parsed: "rule_parse (\<lambda>_. None) sample_source ''greet.yml'' = Inr sample_parsed_rule"
  by code_simp

lemma parsed_rule_fits_witness:
  "rule_fits sample_parsed_rule \<and> meta_source_path (rule_meta sample_parsed_rule) = ''greet.yml'' \<and>
     rule_definition sample_parsed_rule = sample_source"
  by (rule parsed_rule_fits [OF sample_parsed])

section \<open>Rule sets of parsed rules\<close>

text \<open>A whole statement has all its children.\<close>

fun whole :: "statement \<Rightarrow> bool" where
  "whole (SAnd cs) \<longleftrightarrow> list_all (\<lambda>c. case c of None \<Rightarrow> False | Some s \<Rightarrow> whole s) cs"
| "whole (SOr cs) \<longleftrightarrow> list_all (\<lambda>c. case c of None \<Rightarrow> False | Some s \<Rightarrow> whole s) cs"
| "whole (SNot s) \<longleftrightarrow> whole s"
| "whole (SSome n cs) \<longleftrightarrow> list_all (\<lambda>c. case c of None \<Rightarrow> False | Some s \<Rightarrow> whole s) cs"
| "whole (SSubscope sc s) \<longleftrightarrow> whole s"
| "whole s \<longleftrightarrow> True"

lemma fits_whole: "stmt_fits sc s \<Longrightarrow> whole s"
  by (induction sc s rule: stmt_fits.induct) (auto simp: list_all_iff split: option.splits)

lemma whole_no_null: "list_all (\<lambda>c. case c of None \<Rightarrow> False | Some s \<Rightarrow> P s) cs \<Longrightarrow> None \<notin> set cs"
  by (auto simp: list_all_iff)

lemma optimize_whole: "whole s \<Longrightarrow> \<exists>s'. optimize s = Inr s'"
  by (induction s rule: optimize.induct) (auto simp: sort_children_def dest: whole_no_null)

definition ready :: "rule \<Rightarrow> bool" where
  "ready r \<longleftrightarrow> rule_name r \<noteq> [] \<and> whole (rule_statement r)"

lemma extract_whole:
  "extract_subscopes p s c sp = (s', c', sp') \<Longrightarrow> whole s \<Longrightarrow> list_all ready sp \<Longrightarrow>
     whole s' \<and> list_all ready sp'"
  "extract_children p cs c sp = (cs', c', sp') \<Longrightarrow>
     list_all (\<lambda>c. case c of None \<Rightarrow> False | Some s \<Rightarrow> whole s) cs \<Longrightarrow> list_all ready sp \<Longrightarrow>
     list_all (\<lambda>c. case c of None \<Rightarrow> False | Some s \<Rightarrow> whole s) cs' \<and> list_all ready sp'"
proof (induction p s c sp and p cs c sp arbitrary: s' c' sp' and cs' c' sp'
    rule: extract_subscopes_extract_children.induct)
  case (1 parent scope inner counter spawned)
  obtain i c1 sp1 where e: "extract_subscopes (parent @ ''/'' @ to_decimal counter) inner 0 spawned = (i, c1, sp1)"
    by (metis prod_cases3)
  then have "whole i" "list_all ready sp1" using 1(1) [OF refl e] 1(3,4) by simp_all
  moreover from this have
    "ready \<lparr>rule_meta = subscope_meta (parent @ ''/'' @ to_decimal counter) scope parent,
            rule_statement = i, rule_definition = []\<rparr>"
    by (simp add: ready_def subscope_meta_def)
  ultimately show ?case using 1(2) e by (auto simp: Let_def)
next
  case (10 parent c cs counter spawned)
  obtain c1 n1 sp1 where e: "extract_subscopes parent c counter spawned = (c1, n1, sp1)" by (metis prod_cases3)
  obtain cs1 n2 sp2 where e2: "extract_children parent cs n1 sp1 = (cs1, n2, sp2)" by (metis prod_cases3)
  have "whole c1" "list_all ready sp1" using 10(1) [OF e] 10(4,5) by simp_all
  then show ?case using 10(2) [OF e [symmetric] refl refl e2] 10(3,4) e e2 by auto
qed (auto simp: Let_def split: prod.splits)

lemma extract_rules_ready:
  "extract_rules (map Some rules) sp = (rs', sp') \<Longrightarrow> list_all ready rules \<Longrightarrow> list_all ready sp \<Longrightarrow>
     \<exists>rules'. rs' = map Some rules' \<and> list_all ready rules' \<and> list_all ready sp'"
proof (induction rules arbitrary: sp rs' sp')
  case (Cons r rules)
  obtain s c sp1 where e: "extract_subscopes (rule_name r) (rule_statement r) 0 sp = (s, c, sp1)"
    by (metis prod_cases3)
  from extract_whole(1) [OF e] have s: "whole s" "list_all ready sp1"
    using Cons.prems by (simp_all add: ready_def)
  obtain rs1 sp2 where rest: "extract_rules (map Some rules) sp1 = (rs1, sp2)" by fastforce
  then obtain rules' where "rs1 = map Some rules'" "list_all ready rules'" "list_all ready sp2"
    using Cons.IH s(2) Cons.prems(2) by fastforce
  moreover have "ready (r\<lparr>rule_statement := s\<rparr>)" using Cons.prems(2) s(1) by (simp add: ready_def)
  ultimately show ?case
    using Cons.prems(1) e rest by (auto intro!: exI [of _ "r\<lparr>rule_statement := s\<rparr> # rules'"])
qed simp

lemma optimize_rules_ready:
  "list_all ready rules \<Longrightarrow> \<exists>rules'. optimize_rules (map Some rules) = Inr (map Some rules') \<and>
     map (\<lambda>r. rule_name r) rules' = map (\<lambda>r. rule_name r) rules"
proof (induction rules)
  case (Cons r rules)
  then obtain rules' where "optimize_rules (map Some rules) = Inr (map Some rules')"
      "map (\<lambda>r. rule_name r) rules' = map (\<lambda>r. rule_name r) rules"
    by auto
  moreover obtain s where "optimize (rule_statement r) = Inr s"
    using optimize_whole Cons.prems by (auto simp: ready_def)
  ultimately show ?case by (intro exI [of _ "r\<lparr>rule_statement := s\<rparr> # rules'"]) simp
qed simp

lemma index_loop_fails:
  "index_loop rs m ns = Inl e \<Longrightarrow> \<forall>r\<in>set (present rs). rule_name r \<noteq> [] \<Longrightarrow>
     \<exists>n. e = Papa_Error kInvalidRule (''duplicate rule name: '' @ n)"
  by (induction rs m ns rule: index_loop.induct) (auto split: if_split_asm)

lemma index_loop_distinct:
  "\<forall>r\<in>set (present rs). rule_name r \<noteq> [] \<and> m (rule_name r) = None \<Longrightarrow>
     distinct (map (\<lambda>r. rule_name r) (present rs)) \<Longrightarrow> \<exists>x. index_loop rs m ns = Inr x"
proof (induction rs m ns rule: index_loop.induct)
  case (3 r rs m ns)
  have "\<forall>q\<in>set (present rs). rule_name q \<noteq> [] \<and> (m(rule_name r := Some r)) (rule_name q) = None"
    using 3(2,3) by (auto simp: image_iff)
  then show ?case using 3 by (simp del: fun_upd_apply)
qed auto

lemma distinct_present_filter:
  "distinct (map f (present rs)) \<Longrightarrow> distinct (map f (present (filter P rs)))"
  by (induction rs) (auto simp: set_present split: option.splits, (case_tac a; force simp: set_present)+)

lemma validate_succeeds:
  assumes "indexed rs"
  shows "\<exists>rs'. validate_dependencies rs = Inr rs'"
proof -
  let ?f = "filter (\<lambda>r. case r of None \<Rightarrow> False | Some r \<Rightarrow> keeps_rule rs r) (rs_rules rs)"
  have "distinct (map (\<lambda>r. rule_name r) (present ?f))"
    using assms by (simp add: indexed_def distinct_present_filter)
  moreover have "\<forall>r\<in>set (present ?f). rule_name r \<noteq> []" using assms by (auto simp: indexed_def set_present)
  ultimately obtain x where "index_loop ?f (\<lambda>_. None) (\<lambda>_. []) = Inr x" using index_loop_distinct by metis
  then show ?thesis by (cases x) (simp add: validate_dependencies_def index_rules_def)
qed

lemma sort_scopes_fails:
  "sort_scopes rs ss m = Inl e \<Longrightarrow> indexed rs \<Longrightarrow>
     \<exists>s. e = Papa_Error kCycle (''dependency cycle in scope: '' @ scope_to_string s)"
proof (induction rs ss m rule: sort_scopes.induct)
  case (2 rs s ss m)
  show ?case
  proof (cases "sort_scope rs s")
    case (Inl e')
    then have "e' = Papa_Error kCycle (''dependency cycle in scope: '' @ scope_to_string s)"
      by (rule_tac sort_scope_kahn [OF 2(4), of s]) (auto simp: sort_scope_def Let_def split: if_split_asm)
    then show ?thesis using 2(1,3,4) Inl by (cases "scope_group rs s = []") auto
  next
    case (Inr order)
    then show ?thesis using 2 by (cases "scope_group rs s = []") (simp_all del: fun_upd_apply)
  qed
qed simp

lemma match_loop_total:
  "\<forall>r. Some r \<in> set rs \<longrightarrow> no_subscope (rule_statement r) \<Longrightarrow> \<exists>x. match_loop rx rs fs a out = Inr x"
proof (induction rx rs fs a out rule: match_loop.induct)
  case (3 rx r rs fs a out)
  obtain full where f: "evaluate rx fs False (rule_statement r) = Inr full"
    using evaluate_total(1) 3(3) by (metis list.set_intros(1))
  then have q: "evaluate_quick rx fs (rule_statement r) = Inr (res_success full)"
    using quick_agrees_with_evaluate' [OF f] by simp
  show ?case
  proof (cases "res_success full")
    case True
    then show ?thesis using 3(2) [OF q _ f] 3(3) f q by simp
  next
    case False
    then show ?thesis using 3(1) [OF q] 3(3) q by simp
  qed
qed auto

lemma ruleset_match_total:
  assumes "from_rules rules = Inr rs"
  shows "\<exists>x. ruleset_match rx rs s fs a = Inr x"
proof -
  have "no_subscope (rule_statement r)" if "r \<in> set (present (rs_rules rs))" for r
    using from_rules_indexed [OF assms] that by blast
  then have "\<forall>r. Some r \<in> set (map Some (rules_by_scope rs s)) \<longrightarrow> no_subscope (rule_statement r)"
    using rules_by_scope_order [OF assms, of s] by auto
  from match_loop_total [OF this] show ?thesis
    by (simp add: ruleset_match_engine [OF assms] engine_match_def)
qed

text \<open>
  C11: The program never goes wrong on rules it has parsed: building a rule set from them fails only
  with the report of a duplicate name or of a cycle of references, and a rule set that is
  built can be matched against any features in any scope, without a missing child, a subscope
  or an undefined operation being met.
\<close>

theorem parsed_rules_never_go_wrong:
  assumes "\<forall>r\<in>set rules. \<exists>src path. rule_parse fl src path = Inr r"
  shows "case from_rules (map Some rules) of
      Inl e \<Rightarrow> (\<exists>n. e = Papa_Error kInvalidRule (''duplicate rule name: '' @ n)) \<or>
        (\<exists>s. e = Papa_Error kCycle (''dependency cycle in scope: '' @ scope_to_string s))
    | Inr rs \<Rightarrow> \<forall>rx s fs a. \<exists>x. ruleset_match rx rs s fs a = Inr x"
proof (cases "from_rules (map Some rules)")
  case (Inr rs)
  then show ?thesis using ruleset_match_total [OF Inr] by simp
next
  case (Inl e)
  have "list_all ready rules"
    unfolding list_all_iff ready_def using assms parsed_rule_fits' fits_whole rule_fits_def by blast
  then obtain rs' sp' where "extract_rules (map Some rules) [] = (map Some rs', sp')"
      "list_all ready rs'" "list_all ready sp'"
    using extract_rules_ready [of rules "[]"] by (cases "extract_rules (map Some rules) []") auto
  then have x: "extract_subscope_rules (map Some rules) = map Some (rs' @ sp')" "list_all ready (rs' @ sp')"
    by (simp_all add: extract_subscope_rules_def)
  then obtain opt where opt: "optimize_rules (extract_subscope_rules (map Some rules)) = Inr (map Some opt)"
      "map (\<lambda>r. rule_name r) opt = map (\<lambda>r. rule_name r) (rs' @ sp')"
    using optimize_rules_ready [OF x(2)] by auto
  have "\<forall>n\<in>set (map (\<lambda>r. rule_name r) (rs' @ sp')). n \<noteq> []"
    using x(2) unfolding list_all_iff ready_def by (auto dest: sym)
  then have named: "\<forall>r\<in>set opt. rule_name r \<noteq> []"
    unfolding opt(2) [symmetric] by simp
  show ?thesis
  proof (cases "index_rules (unsorted_ruleset (map Some opt))")
    case (Inl e')
    then have "index_loop (map Some opt) (\<lambda>_. None) (\<lambda>_. []) = Inl e'"
      by (auto simp: index_rules_def unsorted_ruleset_def sbind_eq_Inl)
    from index_loop_fails [OF this] named Inl opt(1) \<open>from_rules _ = Inl e\<close> show ?thesis
      by (auto simp: from_rules_def set_present)
  next
    case (Inr rs1)
    then obtain rs2 where rs2: "validate_dependencies rs1 = Inr rs2"
      using validate_succeeds index_rules_indexed by blast
    then have "indexed rs2" using index_rules_indexed by (auto simp: validate_dependencies_def)
    then show ?thesis
      using Inl opt(1) Inr rs2 sort_scopes_fails
      by (auto simp: from_rules_def topologically_sort_def sbind_eq_Inl)
  qed
qed

lemma parsed_rules_never_go_wrong_witness:
  "case from_rules (map Some [sample_parsed_rule]) of
      Inl e \<Rightarrow> (\<exists>n. e = Papa_Error kInvalidRule (''duplicate rule name: '' @ n)) \<or>
        (\<exists>s. e = Papa_Error kCycle (''dependency cycle in scope: '' @ scope_to_string s))
    | Inr rs \<Rightarrow> \<forall>rx s fs a. \<exists>x. ruleset_match rx rs s fs a = Inr x"
proof (rule parsed_rules_never_go_wrong)
  show "\<forall>r\<in>set [sample_parsed_rule]. \<exists>src path. rule_parse (\<lambda>_. None) src path = Inr r"
    using sample_parsed by auto
qed

end
