(* ===== verification/Yaml_Roundtrip.thy ===== *)
theory Yaml_Roundtrip
  imports Yaml_Parser
begin

text \<open>
  What the YAML parser is for: a document that is written out line by line is read back, with
  every nesting, every key and every character of every text.  \<open>render\<close> writes blocks the way
  the rules are written: keys with their values below or beside them, a mapping in a sequence
  beginning on the line of its dash; texts are double-quoted.
\<close>

section \<open>Documents without positions\<close>

datatype doc = D_Text string | D_List "doc list" | D_Map "(string \<times> doc) list"

fun shape :: "yaml_node \<Rightarrow> doc" where
  "shape (Y_Scalar s _ _) = D_Text s"
| "shape (Y_Sequence xs _ _) = D_List (map shape xs)"
| "shape (Y_Mapping es _ _) = D_Map (map (map_prod id shape) es)"

fun height :: "doc \<Rightarrow> nat" where
  "height (D_Text _) = 0"
| "height (D_List xs) = Suc (fold max (map height xs) 0)"
| "height (D_Map es) = Suc (fold max (map (\<lambda>(k, v). height v) es) 0)"

definition esc :: "char \<Rightarrow> string" where
  "esc c = (if c = backslash then [backslash, backslash]
            else if c = dquote then [backslash, dquote]
            else if c = newline then [backslash, CHR ''n'']
            else if c = carriage_return then [backslash, CHR ''r'']
            else [c])"

definition quoted :: "string \<Rightarrow> string" where
  "quoted t = dquote # concat (map esc t) @ [dquote]"

definition dashed :: "nat \<Rightarrow> (nat \<times> string) list \<Rightarrow> (nat \<times> string) list" where
  "dashed i ls = (i, [dash, blank] @ snd (hd ls)) # tl ls"

fun render :: "nat \<Rightarrow> doc \<Rightarrow> (nat \<times> string) list" where
  "render i (D_Text t) = [(i, quoted t)]"
| "render i (D_List xs) = concat (map (\<lambda>x. case x of
       D_List _ \<Rightarrow> (i, [dash]) # render (i + 2) x
     | _ \<Rightarrow> dashed i (render (i + 2) x)) xs)"
| "render i (D_Map es) = concat (map (\<lambda>(k, v). case v of
       D_Text t \<Rightarrow> [(i, k @ [colon, blank] @ quoted t)]
     | _ \<Rightarrow> (i, k @ [colon]) # render (i + 2) v) es)"

definition print_lines :: "(nat \<times> string) list \<Rightarrow> string" where
  "print_lines ls = concat (map (\<lambda>(i, p). replicate i blank @ p @ [newline]) ls)"

text \<open>Keys that need no quotes.\<close>

definition plain_key :: "string \<Rightarrow> bool" where
  "plain_key k \<longleftrightarrow> k \<noteq> [] \<and> hd k \<notin> {dash, blank, hash_sign} \<and> last k \<noteq> blank \<and>
     set k \<inter> {colon, squote, dquote, newline, carriage_return, tab_char} = {}"

definition is_block :: "doc \<Rightarrow> bool" where
  "is_block d \<longleftrightarrow> (case d of D_Text _ \<Rightarrow> False | _ \<Rightarrow> True)"

fun doc_ok :: "doc \<Rightarrow> bool" where
  "doc_ok (D_Text _) = True"
| "doc_ok (D_List xs) = (xs \<noteq> [] \<and> list_all doc_ok xs)"
| "doc_ok (D_Map es) = (es \<noteq> [] \<and> list_all (\<lambda>(k, v). plain_key k \<and> doc_ok v) es)"

section \<open>Quoted text\<close>

lemma decode_esc: "decode_double_quoted (concat (map esc t)) line column = Inr t"
  by (induction t) (auto simp: esc_def simple_escape_def)

lemma until_esc: "until_double (concat (map esc t) @ [dquote]) = Some (concat (map esc t))"
proof (induction t)
  case (Cons c t)
  obtain d ds where d: "concat (map esc t) @ [dquote] = d # ds"
    by (cases "concat (map esc t) @ [dquote]") auto
  show ?case using Cons d by (auto simp: esc_def [of c])
qed simp

lemma decode_doubled: "decode_single_quoted (concat (map (\<lambda>c. if c = squote then [squote, squote] else [c]) t)) = t"
proof (induction t)
  case (Cons c t)
  then show ?case
    by (cases "concat (map (\<lambda>c. if c = squote then [squote, squote] else [c]) t)") auto
qed simp

lemma scan_esc: "scan_marker stop False True prev i (concat (map esc t) @ [dquote]) = None"
proof (induction t arbitrary: prev i)
  case (Cons c t)
  obtain d ds where d: "concat (map esc t) @ [dquote] = d # ds"
    by (cases "concat (map esc t) @ [dquote]") auto
  show ?case using Cons d by (auto simp: esc_def [of c])
qed simp

lemma scan_quoted: "\<not> stop prev dquote x \<Longrightarrow> scan_marker stop False False prev i (quoted t) = None"
proof -
  obtain d ds where d: "concat (map esc t) @ [dquote] = d # ds"
    by (cases "concat (map esc t) @ [dquote]") auto
  show ?thesis using scan_esc [of stop "Some dquote" "Suc i" t] unfolding quoted_def d by simp
qed

lemma rtrim_last: "s \<noteq> [] \<Longrightarrow> last s \<noteq> blank \<Longrightarrow> last s \<noteq> tab_char \<Longrightarrow> rtrim s = s"
  by (cases s rule: rev_cases) (auto simp: rtrim_def)

lemma rtrim_quoted [simp]: "rtrim (quoted t) = quoted t"
  by (rule rtrim_last) (simp_all add: quoted_def)

lemma quoted_scalar: "parse_inline_scalar (quoted t) line column = Inr (Y_Scalar t line column)"
  by (simp add: parse_inline_scalar_def scalar_text_def)
    (simp add: quoted_def until_esc decode_esc)

lemma quoted_not_comment: "\<not> comment_only (quoted t)"
proof -
  have "strip_inline_comment (quoted t) = strip_blanks (quoted t)"
    by (simp add: strip_inline_comment_def scan_quoted [of opens_comment] opens_comment_def)
  also have "\<dots> = quoted t" by (simp add: strip_blanks_def quoted_def)
  finally have "strip_inline_comment (quoted t) = quoted t" .
  then show ?thesis by (simp add: comment_only_def) (simp add: quoted_def)
qed

lemma quoted_not_header: "\<not> is_block_header (quoted t)"
  by (simp add: is_block_header_def quoted_def)

lemma quoted_no_key: "split_key (quoted t) = None"
  by (simp add: split_key_def scan_quoted [of ends_key] ends_key_def)

section \<open>Keys\<close>

lemma scan_key:
  assumes "set k \<inter> {colon, squote, dquote} = {}" and "v = [] \<or> hd v = blank"
  shows "scan_marker ends_key False False prev i (k @ colon # v) = Some (i + length k)"
  using assms(1)
proof (induction k arbitrary: prev i)
  case Nil
  then show ?case using assms(2) by (cases v) (auto simp: ends_key_def)
next
  case (Cons c k)
  obtain d ds where d: "k @ colon # v = d # ds" by (cases "k @ colon # v") auto
  have "scan_marker ends_key False False (Some c) (Suc i) (d # ds) = Some (Suc i + length k)"
    using Cons d by simp
  moreover have "\<not> ends_key prev c x" for prev x using Cons.prems by (auto simp: ends_key_def)
  ultimately show ?case using Cons.prems by (auto simp: d)
qed

lemma split_plain:
  assumes "plain_key k"
  shows "split_key (k @ [colon]) = Some (k, [])"
    and "split_key (k @ [colon, blank] @ quoted t) = Some (k, quoted t)"
proof -
  have "set k \<inter> {colon, squote, dquote} = {}" using assms by (auto simp: plain_key_def)
  note s = scan_key [OF this]
  show "split_key (k @ [colon]) = Some (k, [])" by (simp add: split_key_def s)
  have "dropWhile (\<lambda>c. c = blank) (quoted t) = quoted t" by (simp add: quoted_def)
  then show "split_key (k @ [colon, blank] @ quoted t) = Some (k, quoted t)"
    by (simp add: split_key_def s)
qed

lemma plain_mapping_key: "plain_key k \<Longrightarrow> mapping_key k line column = Inr k"
proof -
  assume k: "plain_key k"
  then have "last k \<noteq> tab_char" "hd k \<noteq> dquote" "hd k \<noteq> squote"
    unfolding plain_key_def using last_in_set hd_in_set by fastforce+
  with k show ?thesis by (auto simp: plain_key_def mapping_key_def intro!: rtrim_last)
qed

section \<open>Blocks\<close>

definition view :: "yaml_line \<Rightarrow> nat \<times> string" where
  "view ln = (yl_indent ln, yl_payload ln)"

definition faithful :: "yaml_line \<Rightarrow> bool" where
  "faithful ln \<longleftrightarrow> yl_is_blank ln = (yl_payload ln = []) \<and>
     yl_is_comment ln = (yl_payload ln \<noteq> [] \<and> hd (yl_payload ln) = hash_sign)"

definition lines_of :: "yaml_line list \<Rightarrow> (nat \<times> string) list \<Rightarrow> bool" where
  "lines_of lns ps \<longleftrightarrow> map view lns = ps \<and> list_all faithful lns"

lemma lines_of_Cons:
  "lines_of lns ((i, p) # ps) \<longleftrightarrow> (\<exists>ln lns'. lns = ln # lns' \<and> yl_indent ln = i \<and> yl_payload ln = p \<and>
     faithful ln \<and> lines_of lns' ps)"
  by (auto simp: lines_of_def view_def Cons_eq_map_conv map_eq_Cons_conv)

lemma lines_of_append:
  "lines_of lns (ps @ qs) \<longleftrightarrow> (\<exists>as bs. lns = as @ bs \<and> lines_of as ps \<and> lines_of bs qs)"
proof
  assume "lines_of lns (ps @ qs)"
  then obtain as bs where "lns = as @ bs" "map view as = ps" "map view bs = qs" "list_all faithful (as @ bs)"
    by (auto simp: lines_of_def map_eq_append_conv)
  then show "\<exists>as bs. lns = as @ bs \<and> lines_of as ps \<and> lines_of bs qs"
    by (intro exI [of _ as] exI [of _ bs]) (simp add: lines_of_def)
qed (auto simp: lines_of_def)

lemma lines_of_Nil [simp]: "lines_of lns [] \<longleftrightarrow> lns = []"
  by (auto simp: lines_of_def)

text \<open>What may stand after a block at an indentation: nothing, or a line further to the left.\<close>

definition after :: "yaml_line list \<Rightarrow> yaml_line list" where
  "after lns = drop (skip_blank_and_comment lns) lns"

definition ended :: "nat \<Rightarrow> yaml_line list \<Rightarrow> bool" where
  "ended i lns \<longleftrightarrow> (case after lns of [] \<Rightarrow> True | ln # _ \<Rightarrow> yl_indent ln < i)"

lemma skip_content: "faithful ln \<Longrightarrow> yl_payload ln \<noteq> [] \<Longrightarrow> hd (yl_payload ln) \<noteq> hash_sign \<Longrightarrow>
    skip_blank_and_comment (ln # lns) = 0"
  by (simp add: faithful_def)

lemma skip_after [simp]: "skip_blank_and_comment (after lns) = 0"
  unfolding after_def by (induction lns rule: skip_blank_and_comment.induct) auto

lemma after_idem [simp]: "after (after lns) = after lns"
  using skip_after [of lns] by (simp add: after_def [of "after lns"])

lemma skip_le: "skip_blank_and_comment lns \<le> length lns"
  by (induction lns) auto

lemma ended_after [simp]: "ended i (after lns) = ended i lns"
  by (simp add: ended_def)

lemma ended_mono: "ended i lns \<Longrightarrow> i \<le> j \<Longrightarrow> ended j lns"
  by (auto simp: ended_def split: list.splits)

text \<open>A loop that skips first does the same from the first content line on.\<close>

lemmas loops = more_keys.simps sequence_loop.simps mapping_loop.simps

declare loops [simp del]

lemma loop_after:
  "mapping_loop pv i (after lns) (used + skip_blank_and_comment lns) es = mapping_loop pv i lns used es"
  "more_keys pv i (after lns) (used + skip_blank_and_comment lns) es = more_keys pv i lns used es"
  "sequence_loop pv i (after lns) (used + skip_blank_and_comment lns) xs = sequence_loop pv i lns used xs"
proof -
  show "mapping_loop pv i (after lns) (used + skip_blank_and_comment lns) es = mapping_loop pv i lns used es"
    unfolding mapping_loop.simps [of pv i "after lns"] mapping_loop.simps [of pv i lns]
    by (simp only: Let_def skip_after drop_0 add_0_right) (simp only: after_def)
  show "more_keys pv i (after lns) (used + skip_blank_and_comment lns) es = more_keys pv i lns used es"
    unfolding more_keys.simps [of pv i "after lns"] more_keys.simps [of pv i lns]
    by (simp only: Let_def skip_after drop_0 add_0_right) (simp only: after_def)
  show "sequence_loop pv i (after lns) (used + skip_blank_and_comment lns) xs = sequence_loop pv i lns used xs"
    unfolding sequence_loop.simps [of pv i "after lns"] sequence_loop.simps [of pv i lns]
    by (simp only: Let_def skip_after drop_0 add_0_right) (simp only: after_def)
qed

lemma loop_ended:
  assumes "ended i lns"
  shows "mapping_loop pv i lns used es = Inr (es, used + skip_blank_and_comment lns)"
    and "more_keys pv i lns used es = Inr (es, used + skip_blank_and_comment lns)"
    and "sequence_loop pv i lns used xs = Inr (xs, used + skip_blank_and_comment lns)"
  using assms by (subst loops, auto simp: Let_def ended_def after_def split: list.splits)+

text \<open>A parser of nested values that reads a rendered block whatever follows it.\<close>

definition reads :: "value_parser \<Rightarrow> nat \<Rightarrow> doc \<Rightarrow> bool" where
  "reads pv i d \<longleftrightarrow> (\<forall>j lns rest. j \<le> i \<longrightarrow> lines_of lns (render i d) \<longrightarrow> ended i rest \<longrightarrow>
     (\<exists>n. pv j (lns @ rest) = Inr (n, length lns + skip_blank_and_comment rest) \<and> shape n = d))"

lemma reads_at:
  "reads pv i d \<Longrightarrow> j \<le> i \<Longrightarrow> lines_of lns (render i d) \<Longrightarrow> ended i rest \<Longrightarrow>
     \<exists>n. pv j (lns @ rest) = Inr (n, length lns + skip_blank_and_comment rest) \<and> shape n = d"
  by (simp add: reads_def)

definition entry_lines :: "nat \<Rightarrow> string \<times> doc \<Rightarrow> (nat \<times> string) list" where
  "entry_lines i e = (case e of (k, v) \<Rightarrow> case v of
       D_Text t \<Rightarrow> [(i, k @ [colon, blank] @ quoted t)]
     | _ \<Rightarrow> (i, k @ [colon]) # render (i + 2) v)"

definition item_lines :: "nat \<Rightarrow> doc \<Rightarrow> (nat \<times> string) list" where
  "item_lines i x = (case x of
       D_List _ \<Rightarrow> (i, [dash]) # render (i + 2) x
     | _ \<Rightarrow> dashed i (render (i + 2) x))"

lemma render_blocks:
  "render i (D_Map es) = concat (map (entry_lines i) es)"
  "render i (D_List xs) = concat (map (item_lines i) xs)"
  by (simp_all add: entry_lines_def [abs_def] item_lines_def [abs_def])

text \<open>The first line of an entry is its key at the indentation, and its value parses.\<close>

definition entry_text :: "string \<times> doc \<Rightarrow> string" where
  "entry_text e = (case e of (k, D_Text t) \<Rightarrow> k @ [colon, blank] @ quoted t | (k, _) \<Rightarrow> k @ [colon])"

definition below :: "nat \<Rightarrow> doc \<Rightarrow> (nat \<times> string) list" where
  "below i v = (case v of D_Text t \<Rightarrow> [] | _ \<Rightarrow> render (i + 2) v)"

lemma entry_lines_parts: "entry_lines i (k, v) = (i, entry_text (k, v)) # below i v"
  by (cases v) (simp_all add: entry_lines_def entry_text_def below_def)

lemma entry_text_start:
  assumes "plain_key k"
  shows "entry_text (k, v) \<noteq> []" "hd (entry_text (k, v)) \<noteq> hash_sign" "hd (entry_text (k, v)) \<noteq> dash"
    "hd (entry_text (k, v)) \<noteq> blank"
  using assms by (cases k; cases v; auto simp: entry_text_def plain_key_def)+

definition value_text :: "doc \<Rightarrow> string" where
  "value_text v = (case v of D_Text t \<Rightarrow> quoted t | _ \<Rightarrow> [])"

lemma split_entry: "plain_key k \<Longrightarrow> split_key (entry_text (k, v)) = Some (k, value_text v)"
  by (cases v) (simp_all add: entry_text_def value_text_def split_plain [simplified])

text \<open>
  A value leaves the loop that reads it where the next entry begins, or past the blank lines
  before it, which is the same for the loop.
\<close>

definition at_rest :: "nat \<Rightarrow> yaml_line list \<Rightarrow> yaml_line list \<Rightarrow> bool" where
  "at_rest k lns rest \<longleftrightarrow> k = length lns \<or> k = length lns + skip_blank_and_comment rest"

lemma drop_append_length: "drop (length xs) (xs @ ys) = ys"
  by simp

lemma loop_at_rest:
  assumes "at_rest k lns rest"
  shows "mapping_loop pv i (drop k (lns @ rest)) (used + k) es = mapping_loop pv i rest (used + length lns) es"
    and "more_keys pv i (drop k (lns @ rest)) (used + k) es = more_keys pv i rest (used + length lns) es"
    and "sequence_loop pv i (drop k (lns @ rest)) (used + k) xs = sequence_loop pv i rest (used + length lns) xs"
proof -
  have d: "drop (length lns + skip_blank_and_comment rest) (lns @ rest) = after rest"
    "used + (length lns + skip_blank_and_comment rest) = used + length lns + skip_blank_and_comment rest"
    by (simp_all add: after_def)
  show "mapping_loop pv i (drop k (lns @ rest)) (used + k) es = mapping_loop pv i rest (used + length lns) es"
    "more_keys pv i (drop k (lns @ rest)) (used + k) es = more_keys pv i rest (used + length lns) es"
    "sequence_loop pv i (drop k (lns @ rest)) (used + k) xs = sequence_loop pv i rest (used + length lns) xs"
    using assms unfolding at_rest_def by (elim disjE; simp only: d loop_after drop_append_length)+
qed

lemma value_read:
  assumes "is_block v \<Longrightarrow> reads pv (i + 2) v" and "lines_of lns (below i v)" and "ended (i + 2) rest"
  shows "\<exists>n k. entry_value pv header (value_text v) i line column vcol (lns @ rest) = Inr (n, k) \<and>
    shape n = v \<and> at_rest k lns rest"
proof (cases "is_block v")
  case True
  then have "value_text v = []" "below i v = render (i + 2) v"
    by (simp_all add: is_block_def value_text_def below_def split: doc.splits)
  moreover obtain n where "pv (i + 1) (lns @ rest) = Inr (n, length lns + skip_blank_and_comment rest)" "shape n = v"
    using reads_at [OF assms(1) [OF True], of "i + 1" lns rest] assms(2,3) calculation(2) by auto
  ultimately show ?thesis by (simp add: entry_value_def at_rest_def)
next
  case False
  then obtain t where v: "v = D_Text t" by (cases v) (simp_all add: is_block_def)
  then have "lns = []" using assms(2) by (simp add: below_def)
  moreover have "quoted t \<noteq> []" by (simp add: quoted_def)
  ultimately show ?thesis
    by (simp add: v entry_value_def value_text_def quoted_not_comment quoted_not_header quoted_scalar at_rest_def)
qed

text \<open>The entries of a mapping, read by either loop.\<close>

definition entries_ok :: "value_parser \<Rightarrow> nat \<Rightarrow> (string \<times> doc) list \<Rightarrow> bool" where
  "entries_ok pv i es \<longleftrightarrow> list_all (\<lambda>(k, v). plain_key k \<and> (is_block v \<longrightarrow> reads pv (i + 2) v)) es"

abbreviation shapes :: "(string \<times> yaml_node) list \<Rightarrow> (string \<times> doc) list" where
  "shapes \<equiv> map (map_prod id shape)"

lemma next_entry:
  assumes "lines_of lns (concat (map (entry_lines i) es))" and "ended i rest"
    and "list_all (\<lambda>(k, v). plain_key k) es"
  shows "ended (i + 2) (lns @ rest)"
proof (cases es)
  case Nil
  with assms show ?thesis using ended_mono [of i rest "i + 2"] by simp
next
  case (Cons e es')
  obtain k v where e: "e = (k, v)" by (cases e)
  with assms(1) Cons obtain ln lns' where l: "lns = ln # lns'" "yl_indent ln = i"
    "yl_payload ln = entry_text (k, v)" "faithful ln"
    by (auto simp: entry_lines_parts lines_of_Cons)
  have "plain_key k" using assms(3) Cons e by simp
  then have "skip_blank_and_comment (lns @ rest) = 0"
    using l entry_text_start [of k v] skip_content [of ln] by simp
  with l show ?thesis by (simp add: ended_def after_def)
qed

lemma first_entry:
  assumes "entries_ok pv i ((k, v) # es)" and "lines_of lns (concat (map (entry_lines i) ((k, v) # es)))"
    and "ended i rest"
  shows "\<exists>ln as bs n m. lns = ln # as @ bs \<and> yl_indent ln = i \<and> yl_payload ln = entry_text (k, v) \<and>
    (\<forall>x. skip_blank_and_comment (ln # x) = 0) \<and>
    entry_value pv (entry_text (k, v)) (value_text v) i (yl_line_no ln) (i + 1) (i + 1 + length k + 2)
      (as @ bs @ rest) = Inr (n, m) \<and> shape n = v \<and> at_rest m as (bs @ rest) \<and>
    lines_of bs (concat (map (entry_lines i) es)) \<and> entries_ok pv i es \<and> plain_key k"
proof -
  have key: "plain_key k" and v: "is_block v \<Longrightarrow> reads pv (i + 2) v" and ok: "entries_ok pv i es"
    using assms(1) by (auto simp: entries_ok_def)
  obtain ln as bs where lns: "lns = ln # as @ bs" "yl_indent ln = i" "yl_payload ln = entry_text (k, v)"
    "faithful ln" and as: "lines_of as (below i v)" and bs: "lines_of bs (concat (map (entry_lines i) es))"
    using assms(2) by (auto simp: entry_lines_parts lines_of_Cons lines_of_append)
  have keys: "list_all (\<lambda>(k, v). plain_key k) es"
    using ok by (auto simp: entries_ok_def list_all_iff)
  have s: "\<forall>x. skip_blank_and_comment (ln # x) = 0"
    using skip_content [of ln] lns entry_text_start [OF key, of v] by simp
  obtain n m where "entry_value pv (entry_text (k, v)) (value_text v) i (yl_line_no ln) (i + 1)
      (i + 1 + length k + 2) (as @ bs @ rest) = Inr (n, m)" "shape n = v" "at_rest m as (bs @ rest)"
    using value_read [OF v as next_entry [OF bs assms(3) keys]] by blast
  then show ?thesis
    using s lns(1-3) key ok bs
    by (intro exI [of _ ln] exI [of _ as] exI [of _ bs] exI [of _ n] exI [of _ m] conjI)
qed

lemma mapping_read:
  assumes "entries_ok pv i es" and "lines_of lns (concat (map (entry_lines i) es))" and "ended i rest"
  shows "\<exists>ns. mapping_loop pv i (lns @ rest) used es0 =
    Inr (es0 @ ns, used + length lns + skip_blank_and_comment rest) \<and> shapes ns = es"
  using assms(1,2)
proof (induction es arbitrary: lns used es0)
  case Nil
  then show ?case using loop_ended(1) [OF assms(3)] by simp
next
  case (Cons e es)
  obtain k v where e: "e = (k, v)" by (cases e)
  obtain ln as bs n m where l: "lns = ln # as @ bs" "yl_indent ln = i" "yl_payload ln = entry_text (k, v)"
    and s: "\<forall>x. skip_blank_and_comment (ln # x) = 0"
    and ev: "entry_value pv (entry_text (k, v)) (value_text v) i (yl_line_no ln) (i + 1) (i + 1 + length k + 2)
      (as @ bs @ rest) = Inr (n, m)" and n: "shape n = v" and m: "at_rest m as (bs @ rest)"
    and bs: "lines_of bs (concat (map (entry_lines i) es))" and ok: "entries_ok pv i es" and key: "plain_key k"
    using first_entry [OF Cons.prems [unfolded e] assms(3)] by blast
  have "mapping_loop pv i (lns @ rest) used es0 =
      mapping_loop pv i (drop m (as @ bs @ rest)) (Suc used + m) (es0 @ [(k, n)])"
    using s l entry_text_start [OF key, of v] ev by (subst mapping_loop.simps)
      (simp add: Let_def split_entry [OF key] plain_mapping_key [OF key] del: skip_blank_and_comment.simps)
  also have "\<dots> = mapping_loop pv i (bs @ rest) (Suc used + length as) (es0 @ [(k, n)])"
    by (rule loop_at_rest(1) [OF m])
  finally show ?case using Cons.IH [OF ok bs, of "Suc used + length as" "es0 @ [(k, n)]"] n l(1)
    by (auto simp: e)
qed

lemma more_keys_read:
  assumes "entries_ok pv i es" and "lines_of lns (concat (map (entry_lines i) es))" and "ended i rest"
  shows "\<exists>ns. more_keys pv i (lns @ rest) used es0 =
    Inr (es0 @ ns, used + length lns + skip_blank_and_comment rest) \<and> shapes ns = es"
  using assms(1,2)
proof (induction es arbitrary: lns used es0)
  case Nil
  then show ?case using loop_ended(2) [OF assms(3)] by simp
next
  case (Cons e es)
  obtain k v where e: "e = (k, v)" by (cases e)
  obtain ln as bs n m where l: "lns = ln # as @ bs" "yl_indent ln = i" "yl_payload ln = entry_text (k, v)"
    and s: "\<forall>x. skip_blank_and_comment (ln # x) = 0"
    and ev: "entry_value pv (entry_text (k, v)) (value_text v) i (yl_line_no ln) (i + 1) (i + 1 + length k + 2)
      (as @ bs @ rest) = Inr (n, m)" and n: "shape n = v" and m: "at_rest m as (bs @ rest)"
    and bs: "lines_of bs (concat (map (entry_lines i) es))" and ok: "entries_ok pv i es" and key: "plain_key k"
    using first_entry [OF Cons.prems [unfolded e] assms(3)] by blast
  have "more_keys pv i (lns @ rest) used es0 =
      more_keys pv i (drop m (as @ bs @ rest)) (Suc used + m) (es0 @ [(k, n)])"
    using s l entry_text_start [OF key, of v] ev by (subst more_keys.simps)
      (simp add: Let_def split_entry [OF key] del: skip_blank_and_comment.simps)
  also have "\<dots> = more_keys pv i (bs @ rest) (Suc used + length as) (es0 @ [(k, n)])"
    by (rule loop_at_rest(2) [OF m])
  finally show ?case using Cons.IH [OF ok bs, of "Suc used + length as" "es0 @ [(k, n)]"] n l(1)
    by (auto simp: e)
qed

text \<open>The items of a sequence.\<close>

definition item_ok :: "value_parser \<Rightarrow> nat \<Rightarrow> doc \<Rightarrow> bool" where
  "item_ok pv i x = (case x of D_Text _ \<Rightarrow> True | D_List _ \<Rightarrow> reads pv (i + 2) x
     | D_Map es \<Rightarrow> es \<noteq> [] \<and> entries_ok pv (i + 2) es)"

lemma dash_lines: "is_dash_line [dash]" "is_dash_line (dash # blank # p)"
  by (simp_all add: is_dash_line_def)

lemma first_value_read:
  assumes "is_block v \<Longrightarrow> reads pv (j + 2) v" and "lines_of lns (below j v)" and "ended (j + 2) rest"
  shows "\<exists>n k. first_value pv (value_text v) j line column (lns @ rest) = Inr (n, k) \<and> shape n = v \<and>
    at_rest k lns rest"
proof (cases "is_block v")
  case True
  then have "value_text v = []" "below j v = render (j + 2) v"
    by (simp_all add: is_block_def value_text_def below_def split: doc.splits)
  moreover obtain n where "pv (j + 1) (lns @ rest) = Inr (n, length lns + skip_blank_and_comment rest)" "shape n = v"
    using reads_at [OF assms(1) [OF True], of "j + 1" lns rest] assms(2,3) calculation(2) by auto
  ultimately show ?thesis by (simp add: first_value_def at_rest_def)
next
  case False
  then obtain t where v: "v = D_Text t" by (cases v) (simp_all add: is_block_def)
  then have "lns = []" using assms(2) by (simp add: below_def)
  moreover have "quoted t \<noteq> []" by (simp add: quoted_def)
  ultimately show ?thesis by (simp add: first_value_def v value_text_def quoted_not_comment quoted_scalar at_rest_def)
qed

lemma map_item_read:
  assumes ok: "entries_ok pv (i + 2) ((k, v) # es)"
    and lns: "lines_of lns (item_lines i (D_Map ((k, v) # es)))" and rest: "ended (i + 2) rest"
  shows "\<exists>ln lns' n m. lns = ln # lns' \<and> yl_indent ln = i \<and> is_dash_line (yl_payload ln) \<and>
    (\<forall>x. skip_blank_and_comment (ln # x) = 0) \<and>
    sequence_item pv i ln (lns' @ rest) = Inr (n, m) \<and> shape n = D_Map ((k, v) # es) \<and> at_rest m lns' rest"
proof -
  have key: "plain_key k" and v: "is_block v \<Longrightarrow> reads pv (i + 2 + 2) v" and ok': "entries_ok pv (i + 2) es"
    using ok by (auto simp: entries_ok_def)
  have "item_lines i (D_Map ((k, v) # es)) = (i, dash # blank # entry_text (k, v)) # below (i + 2) v @
      concat (map (entry_lines (i + 2)) es)"
    by (simp add: item_lines_def render_blocks dashed_def entry_lines_parts del: render.simps)
  then obtain ln as bs where l: "lns = ln # as @ bs" "yl_indent ln = i"
    "yl_payload ln = dash # blank # entry_text (k, v)" "faithful ln"
    and as: "lines_of as (below (i + 2) v)" and bs: "lines_of bs (concat (map (entry_lines (i + 2)) es))"
    using lns by (auto simp: lines_of_Cons lines_of_append)
  have keys: "list_all (\<lambda>(k, v). plain_key k) es"
    using ok' by (auto simp: entries_ok_def list_all_iff)
  have s: "\<forall>x. skip_blank_and_comment (ln # x) = 0"
    using skip_content [of ln] l by simp
  obtain n m where ev: "first_value pv (value_text v) (i + 2) (yl_line_no ln) (i + 2 + 1 + length k + 2)
      (as @ bs @ rest) = Inr (n, m)" and n: "shape n = v" and m: "at_rest m as (bs @ rest)"
    using first_value_read [OF v as next_entry [OF bs rest keys]] by blast
  obtain ns where mk: "more_keys pv (i + 2) (bs @ rest) (length as) [(k, n)] =
      Inr ([(k, n)] @ ns, length as + length bs + skip_blank_and_comment rest)" and ns: "shapes ns = es"
    using more_keys_read [OF ok' bs rest] by blast
  have "more_keys pv (i + 2) (drop m (as @ bs @ rest)) m [(k, n)] = more_keys pv (i + 2) (bs @ rest) (length as) [(k, n)]"
    using loop_at_rest(2) [OF m, of pv "i + 2" 0] by simp
  then have "sequence_item pv i ln ((as @ bs) @ rest) =
      Inr (Y_Mapping ([(k, n)] @ ns) (yl_line_no ln) (i + 1), length as + length bs + skip_blank_and_comment rest)"
    using ev mk entry_text_start(1) [OF key, of v]
    by (simp add: sequence_item_def Let_def l split_entry [OF key] del: drop_append)
  moreover have "shape (Y_Mapping ([(k, n)] @ ns) (yl_line_no ln) (i + 1)) = D_Map ((k, v) # es)"
    using n ns by simp
  moreover have "at_rest (length as + length bs + skip_blank_and_comment rest) (as @ bs) rest"
    by (simp add: at_rest_def)
  ultimately show ?thesis using l s dash_lines(2) by (intro exI conjI) auto
qed

lemma item_read:
  assumes ok: "item_ok pv i x" and lns: "lines_of lns (item_lines i x)" and rest: "ended (i + 2) rest"
  shows "\<exists>ln lns' n m. lns = ln # lns' \<and> yl_indent ln = i \<and> is_dash_line (yl_payload ln) \<and>
    (\<forall>x. skip_blank_and_comment (ln # x) = 0) \<and>
    sequence_item pv i ln (lns' @ rest) = Inr (n, m) \<and> shape n = x \<and> at_rest m lns' rest"
proof (cases x)
  case (D_Text t)
  then obtain ln where l: "lns = [ln]" "yl_indent ln = i" "yl_payload ln = dash # blank # quoted t" "faithful ln"
    using lns by (auto simp: item_lines_def dashed_def lines_of_Cons)
  have "quoted t \<noteq> []" by (simp add: quoted_def)
  then have "sequence_item pv i ln ([] @ rest) = Inr (Y_Scalar t (yl_line_no ln) (i + 1 + 2), 0)"
    by (simp add: sequence_item_def Let_def l quoted_no_key quoted_scalar)
  then show ?thesis
    using l dash_lines(2) skip_content [of ln] D_Text
    by (intro exI [of _ ln] exI [of _ "[]"] exI [of _ "Y_Scalar t (yl_line_no ln) (i + 1 + 2)"] exI [of _ 0])
      (simp add: at_rest_def)
next
  case (D_List xs)
  then obtain ln lns' where l: "lns = ln # lns'" "yl_indent ln = i" "yl_payload ln = [dash]" "faithful ln"
    and ls: "lines_of lns' (render (i + 2) x)"
    using lns by (auto simp: item_lines_def lines_of_Cons)
  obtain n where n: "pv (i + 1) (lns' @ rest) = Inr (n, length lns' + skip_blank_and_comment rest)" "shape n = x"
    using reads_at [of pv "i + 2" x "i + 1" lns' rest] ok ls rest D_List by (auto simp: item_ok_def)
  have "sequence_item pv i ln (lns' @ rest) = Inr (n, length lns' + skip_blank_and_comment rest)"
    using n by (simp add: sequence_item_def l)
  then show ?thesis
    using l dash_lines(1) skip_content [of ln] n(2)
    by (intro exI [of _ ln] exI [of _ lns'] exI [of _ n] exI [of _ "length lns' + skip_blank_and_comment rest"])
      (simp add: at_rest_def)
next
  case (D_Map es)
  with ok obtain k v es' where "es = (k, v) # es'" by (cases es) (auto simp: item_ok_def)
  with map_item_read [of pv i k v es' lns rest] ok lns rest D_Map show ?thesis by (simp add: item_ok_def)
qed

lemma next_item:
  assumes "lines_of lns (concat (map (item_lines i) xs))" and "ended i rest" and "list_all (item_ok pv i) xs"
  shows "ended (i + 2) (lns @ rest)"
proof (cases xs)
  case Nil
  with assms show ?thesis using ended_mono [of i rest "i + 2"] by simp
next
  case (Cons x xs')
  obtain p ps where p: "item_lines i x = (i, dash # p) # ps"
    using assms(3) Cons by (cases x) (auto simp: item_lines_def dashed_def)
  then obtain ln lns' where l: "lns = ln # lns'" "yl_indent ln = i" "yl_payload ln = dash # p" "faithful ln"
    using assms(1) Cons by (auto simp: lines_of_Cons)
  then have "skip_blank_and_comment (lns @ rest) = 0" using skip_content [of ln] by simp
  with l show ?thesis by (simp add: ended_def after_def)
qed

lemma sequence_read:
  assumes "list_all (item_ok pv i) xs" and "lines_of lns (concat (map (item_lines i) xs))" and "ended i rest"
  shows "\<exists>ns. sequence_loop pv i (lns @ rest) used xs0 =
    Inr (xs0 @ ns, used + length lns + skip_blank_and_comment rest) \<and> map shape ns = xs"
  using assms(1,2)
proof (induction xs arbitrary: lns used xs0)
  case Nil
  then show ?case using loop_ended(3) [OF assms(3)] by simp
next
  case (Cons x xs)
  obtain as bs where lns: "lns = as @ bs" and as: "lines_of as (item_lines i x)"
    and bs: "lines_of bs (concat (map (item_lines i) xs))"
    using Cons.prems(2) by (auto simp: lines_of_append)
  have ok: "item_ok pv i x" "list_all (item_ok pv i) xs" using Cons.prems(1) by simp_all
  obtain ln as' n m where l: "as = ln # as'" "yl_indent ln = i" "is_dash_line (yl_payload ln)"
    and s: "\<forall>x. skip_blank_and_comment (ln # x) = 0"
    and it: "sequence_item pv i ln (as' @ bs @ rest) = Inr (n, m)" and n: "shape n = x" and m: "at_rest m as' (bs @ rest)"
    using item_read [OF ok(1) as next_item [OF bs assms(3) ok(2)]] by blast
  have "sequence_loop pv i (lns @ rest) used xs0 =
      sequence_loop pv i (drop m (as' @ bs @ rest)) (Suc used + m) (xs0 @ [n])"
    using s l it lns by (subst sequence_loop.simps) (simp add: Let_def del: skip_blank_and_comment.simps)
  also have "\<dots> = sequence_loop pv i (bs @ rest) (Suc used + length as') (xs0 @ [n])"
    by (rule loop_at_rest(3) [OF m])
  finally show ?case using Cons.IH [OF ok(2) bs, of "Suc used + length as'" "xs0 @ [n]"] n l(1) lns
    by auto
qed

section \<open>Values\<close>

lemma fold_max_ge: "x \<in> set xs \<Longrightarrow> x \<le> fold max xs a" for x :: nat
proof (induction xs arbitrary: a)
  case (Cons y ys)
  have "b \<le> fold max zs b" for b :: nat and zs by (induction zs arbitrary: b) (simp, metis fold_simps(2) max.cobounded2 order_trans)
  with Cons show ?case by (auto intro: order_trans [OF max.cobounded1])
qed simp

lemma first_line:
  assumes "doc_ok d" and "is_block d" and "lines_of lns (render i d)"
  shows "\<exists>ln lns'. lns = ln # lns' \<and> yl_indent ln = i \<and> (\<forall>x. skip_blank_and_comment (ln # x) = 0) \<and>
    (case d of D_Map _ \<Rightarrow> yl_payload ln \<noteq> [] \<and> \<not> is_dash_line (yl_payload ln) \<and> split_key (yl_payload ln) \<noteq> None
     | _ \<Rightarrow> is_dash_line (yl_payload ln))"
proof (cases d)
  case (D_List xs)
  then obtain x xs' where x: "xs = x # xs'" using assms(1) by (cases xs) auto
  have ok: "doc_ok x" using assms(1) D_List x by simp
  have "\<exists>p ps. item_lines i x = (i, dash # p) # ps \<and> is_dash_line (dash # p)"
    using dash_lines ok by (cases x) (auto simp: item_lines_def dashed_def)
  then obtain p ps where p: "item_lines i x = (i, dash # p) # ps" "is_dash_line (dash # p)" by blast
  then obtain ln lns' where "lns = ln # lns'" "yl_indent ln = i" "yl_payload ln = dash # p" "faithful ln"
    using assms(3) D_List x by (auto simp: render_blocks lines_of_Cons simp del: render.simps)
  with p(2) D_List show ?thesis using skip_content [of ln] by simp
next
  case (D_Map es)
  then obtain k v es' where e: "es = (k, v) # es'" using assms(1) by (cases es) auto
  have key: "plain_key k" using assms(1) D_Map e by simp
  obtain ln lns' where l: "lns = ln # lns'" "yl_indent ln = i" "yl_payload ln = entry_text (k, v)" "faithful ln"
    using assms(3) D_Map e by (auto simp: render_blocks entry_lines_parts lines_of_Cons simp del: render.simps)
  with D_Map entry_text_start [OF key, of v] split_entry [OF key, of v] show ?thesis
    using skip_content [of ln] by (simp add: is_dash_line_def)
qed (use assms(2) in \<open>simp add: is_block_def\<close>)

lemma value_reads: "height d \<le> levels \<Longrightarrow> doc_ok d \<Longrightarrow> is_block d \<Longrightarrow> reads (parse_value levels) i d"
proof (induction levels arbitrary: d i)
  case 0
  then show ?case by (cases d) (simp_all add: is_block_def)
next
  case (Suc n)
  have child: "reads (parse_value n) j v" if "is_block v" "height v \<le> n" "doc_ok v" for v j
    using Suc.IH that by blast
  have entries: "entries_ok (parse_value n) j es" if "height (D_Map es) \<le> Suc n" "doc_ok (D_Map es)" for es j
    using that child fold_max_ge [of "height v" "map (\<lambda>(k, v). height v) es" 0 for v]
    by (force simp: entries_ok_def list_all_iff intro: order_trans)
  have items: "list_all (item_ok (parse_value n) j) xs" if "height (D_List xs) \<le> Suc n" "doc_ok (D_List xs)" for xs j
  proof -
    have "item_ok (parse_value n) j x" if x: "x \<in> set xs" for x
    proof -
      have h: "height x \<le> n" "doc_ok x"
        using fold_max_ge [of "height x" "map height xs" 0] x that \<open>height (D_List xs) \<le> Suc n\<close>
          \<open>doc_ok (D_List xs)\<close> by (auto simp: list_all_iff)
      then show ?thesis
        using child [OF _ h] entries by (cases x) (auto simp: item_ok_def is_block_def)
    qed
    then show ?thesis by (simp add: list_all_iff)
  qed
  show ?case unfolding reads_def
  proof (intro allI impI)
    fix j lns rest
    assume j: "j \<le> i" and lns: "lines_of lns (render i d)" and rest: "ended i rest"
    obtain ln lns' where l: "lns = ln # lns'" "yl_indent ln = i" and s: "\<forall>x. skip_blank_and_comment (ln # x) = 0"
      and p: "case d of D_Map _ \<Rightarrow> yl_payload ln \<noteq> [] \<and> \<not> is_dash_line (yl_payload ln) \<and> split_key (yl_payload ln) \<noteq> None
        | _ \<Rightarrow> is_dash_line (yl_payload ln)"
      using first_line [OF Suc.prems(2,3) lns] by blast
    show "\<exists>x. parse_value (Suc n) j (lns @ rest) = Inr (x, length lns + skip_blank_and_comment rest) \<and> shape x = d"
    proof (cases d)
      case (D_List xs)
      obtain ns where "sequence_loop (parse_value n) i (lns @ rest) 0 [] =
          Inr (ns, length lns + skip_blank_and_comment rest)" "map shape ns = xs"
        using sequence_read [OF items [of xs i], of lns rest 0 "[]"] Suc.prems D_List lns rest
        by (auto simp: render_blocks simp del: render.simps height.simps doc_ok.simps)
      with s l p j D_List show ?thesis
        by (simp add: Let_def parse_sequence_def plus_used_def del: skip_blank_and_comment.simps)
    next
      case (D_Map es)
      obtain ns where "mapping_loop (parse_value n) i (lns @ rest) 0 [] =
          Inr (ns, length lns + skip_blank_and_comment rest)" "shapes ns = es"
        using mapping_read [OF entries [of es i], of lns rest 0 "[]"] Suc.prems D_Map lns rest
        by (auto simp: render_blocks simp del: render.simps height.simps doc_ok.simps)
      with s l p j D_Map show ?thesis
        by (simp add: Let_def parse_mapping_def plus_used_def del: skip_blank_and_comment.simps)
    qed (use Suc.prems in \<open>simp add: is_block_def\<close>)
  qed
qed

section \<open>The text of a document\<close>

definition payload_ok :: "string \<Rightarrow> bool" where
  "payload_ok p \<longleftrightarrow> p \<noteq> [] \<and> newline \<notin> set p \<and> hd p \<notin> {blank, tab_char} \<and> last p \<noteq> carriage_return"

lemma quoted_ok: "payload_ok (quoted t)"
  by (auto simp: payload_ok_def quoted_def esc_def split: if_split_asm)

lemma dash_ok: "payload_ok p \<Longrightarrow> payload_ok (dash # blank # p)" "payload_ok [dash]"
  by (auto simp: payload_ok_def)

lemma entry_ok: "plain_key k \<Longrightarrow> payload_ok (entry_text (k, v))"
proof -
  assume k: "plain_key k"
  then have n: "newline \<notin> set k" by (auto simp: plain_key_def)
  have h: "hd k \<noteq> tab_char" using k by (cases k) (auto simp: plain_key_def)
  show ?thesis using k n h quoted_ok
    by (cases v) (auto simp: entry_text_def payload_ok_def plain_key_def)
qed

abbreviation payloads_ok :: "(nat \<times> string) list \<Rightarrow> bool" where
  "payloads_ok \<equiv> list_all (\<lambda>(i, p). payload_ok p)"

lemma render_payloads: "doc_ok d \<Longrightarrow> payloads_ok (render i d)"
proof (induction d arbitrary: i rule: height.induct)
  case (2 xs)
  have "payloads_ok (item_lines i x)" if x: "x \<in> set xs" for x
  proof -
    have r: "payloads_ok (render (i + 2) x)" and ok: "doc_ok x"
      using 2 x by (auto simp: list_all_iff)
    show ?thesis
    proof (cases x)
      case (D_Text t)
      then show ?thesis using quoted_ok dash_ok(1) by (simp add: item_lines_def dashed_def)
    next
      case (D_List ys)
      then show ?thesis using r dash_ok(2) by (simp add: item_lines_def)
    next
      case (D_Map es)
      then obtain k v es' where "es = (k, v) # es'" using ok by (cases es) auto
      then show ?thesis using r D_Map dash_ok(1)
        by (auto simp: item_lines_def render_blocks entry_lines_parts dashed_def simp del: render.simps)
    qed
  qed
  then show ?case by (auto simp: render_blocks list_all_iff simp del: render.simps)
next
  case (3 es)
  have "payloads_ok (entry_lines i (k, v))" if e: "(k, v) \<in> set es" for k v
  proof -
    have ok: "doc_ok v" and key: "plain_key k" using 3(2) e by (auto simp: list_all_iff)
    have "payloads_ok (render (i + 2) v)" using 3(1) [OF e _ ok] by simp
    then show ?thesis using entry_ok [OF key, of v]
      by (cases v) (simp_all add: entry_lines_parts below_def)
  qed
  then have "payloads_ok (entry_lines i e)" if "e \<in> set es" for e
    using that by (cases e) simp
  then show ?case by (force simp: render_blocks list_all_iff simp del: render.simps)
qed (simp add: quoted_ok)

lemma take_line: "newline \<notin> set raw \<Longrightarrow> takeWhile (\<lambda>c. c \<noteq> newline) (raw @ newline # src) = raw"
  "newline \<notin> set raw \<Longrightarrow> dropWhile (\<lambda>c. c \<noteq> newline) (raw @ newline # src) = newline # src"
  by (induction raw) auto

lemma no_indent_tab: "hd p \<noteq> tab_char \<Longrightarrow> hd p \<noteq> blank \<Longrightarrow> p \<noteq> [] \<Longrightarrow>
    \<not> contains_indent_tab (replicate i blank @ p)"
  by (induction i) (cases p; simp)+

lemma take_blanks: "hd p \<noteq> blank \<Longrightarrow> takeWhile (\<lambda>c. c = blank) (replicate i blank @ p) = replicate i blank"
  by (induction i) (cases p; simp)+

lemma tokenize_line:
  assumes "payload_ok p"
  shows "tokenize_from n (replicate i blank @ p @ newline # src) =
    sbind (tokenize_from (Suc n) src) (\<lambda>lns. Inr (make_line n (replicate i blank @ p) # lns))"
proof -
  let ?raw = "replicate i blank @ p"
  have "newline \<notin> set ?raw" using assms by (auto simp: payload_ok_def)
  note t = take_line [OF this, of src]
  have "strip_cr ?raw = ?raw" "\<not> contains_indent_tab ?raw"
    using assms no_indent_tab by (auto simp: strip_cr_def payload_ok_def)
  then show ?thesis using t by (subst tokenize_from.simps) (simp add: Let_def)
qed

lemma made_line:
  assumes "payload_ok p"
  shows "view (make_line n (replicate i blank @ p)) = (i, p)" "faithful (make_line n (replicate i blank @ p))"
proof -
  have "hd p \<noteq> blank" using assms by (simp add: payload_ok_def)
  note t = take_blanks [OF this, of i]
  show "view (make_line n (replicate i blank @ p)) = (i, p)" "faithful (make_line n (replicate i blank @ p))"
    by (simp_all add: make_line_def view_def faithful_def t Let_def)
qed

lemma tokenize_printed:
  "payloads_ok ps \<Longrightarrow> \<exists>lns. tokenize_from n (print_lines ps) = Inr (lns @ [make_line (n + length ps) []]) \<and>
     lines_of lns ps"
proof (induction ps arbitrary: n)
  case Nil
  then show ?case by (subst tokenize_from.simps) (simp add: print_lines_def strip_cr_def)
next
  case (Cons e ps)
  obtain i p where e: "e = (i, p)" by (cases e)
  obtain lns where l: "tokenize_from (Suc n) (print_lines ps) = Inr (lns @ [make_line (Suc n + length ps) []])"
    "lines_of lns ps" using Cons.IH [of "Suc n"] Cons.prems by auto
  have p: "payload_ok p" using Cons.prems e by simp
  have "print_lines (e # ps) = replicate i blank @ p @ newline # print_lines ps"
    by (simp add: print_lines_def e)
  then have "tokenize_from n (print_lines (e # ps)) =
      Inr ((make_line n (replicate i blank @ p) # lns) @ [make_line (n + length (e # ps)) []])"
    using tokenize_line [OF p, of n i "print_lines ps"] l(1) by simp
  moreover have "lines_of (make_line n (replicate i blank @ p) # lns) (e # ps)"
    using l(2) made_line [OF p] by (simp add: lines_of_def e)
  ultimately show ?case by blast
qed

lemma skip_separators_first:
  "skip_blank_and_comment (ln # lns) = 0 \<Longrightarrow> yl_payload ln \<noteq> ''---'' \<Longrightarrow> skip_separators (ln # lns) = ln # lns"
  by (subst skip_separators.simps) simp

section \<open>Depth of a parsed tree\<close>

definition pv_bounded :: "value_parser \<Rightarrow> nat \<Rightarrow> bool" where
  "pv_bounded pv h \<longleftrightarrow> (\<forall>i lns n k. pv i lns = Inr (n, k) \<longrightarrow> height (shape n) \<le> h)"

abbreviation entries_bounded :: "(string \<times> yaml_node) list \<Rightarrow> nat \<Rightarrow> bool" where
  "entries_bounded es h \<equiv> list_all (\<lambda>e. height (shape (snd e)) \<le> h) es"

lemma fold_max_le: "list_all (\<lambda>x. x \<le> h) xs \<Longrightarrow> a \<le> h \<Longrightarrow> fold max xs a \<le> h" for h :: nat
  by (induction xs arbitrary: a) auto

lemma mapping_height: "entries_bounded es h \<Longrightarrow> height (shape (Y_Mapping es l c)) \<le> Suc h"
  by (force simp: list_all_iff intro!: fold_max_le)

lemma sequence_height: "list_all (\<lambda>n. height (shape n) \<le> h) ns \<Longrightarrow> height (shape (Y_Sequence ns l c)) \<le> Suc h"
  by (auto simp: list_all_iff intro!: fold_max_le)

lemma inline_height: "parse_inline_scalar v l c = Inr n \<Longrightarrow> height (shape n) = 0"
  by (auto simp: parse_inline_scalar_def)

lemma entry_value_height:
  "pv_bounded pv h \<Longrightarrow> entry_value pv hdr v i l c vc rest = Inr (n, k) \<Longrightarrow> height (shape n) \<le> h"
  by (auto simp: entry_value_def pv_bounded_def parse_block_scalar_def Let_def dest!: inline_height split: if_split_asm)

lemma first_value_height:
  "pv_bounded pv h \<Longrightarrow> first_value pv v i l c rest = Inr (n, k) \<Longrightarrow> height (shape n) \<le> h"
  by (auto simp: first_value_def pv_bounded_def dest!: inline_height split: if_split_asm)

lemma more_keys_height:
  "more_keys pv i lns used es = Inr (es', k) \<Longrightarrow> pv_bounded pv h \<Longrightarrow> entries_bounded es h \<Longrightarrow> entries_bounded es' h"
proof (induction pv i lns used es rule: more_keys.induct)
  case (1 pv i lns used es)
  have es: "entries_bounded (es @ [(kk, n)]) h" if "height (shape n) \<le> h" for kk n
    using that 1(4) by simp
  note step = 1(2) [unfolded more_keys.simps [of pv i lns] Let_def]
  show ?case
  proof (cases "drop (skip_blank_and_comment lns) lns")
    case (Cons nx rest)
    show ?thesis
      using step Cons 1(4) 1(1) [OF refl Cons] entry_value_height [OF 1(3)] 1(3) es
      by (auto split: if_split_asm option.splits)
  qed (use step 1(4) in simp)
qed

lemma mapping_loop_height:
  "mapping_loop pv i lns used es = Inr (es', k) \<Longrightarrow> pv_bounded pv h \<Longrightarrow> entries_bounded es h \<Longrightarrow> entries_bounded es' h"
proof (induction pv i lns used es rule: mapping_loop.induct)
  case (1 pv i lns used es)
  have es: "entries_bounded (es @ [(kk, n)]) h" if "height (shape n) \<le> h" for kk n
    using that 1(4) by simp
  note step = 1(2) [unfolded mapping_loop.simps [of pv i lns] Let_def]
  show ?case
  proof (cases "drop (skip_blank_and_comment lns) lns")
    case (Cons nx rest)
    show ?thesis
      using step Cons 1(4) 1(1) [OF refl Cons] entry_value_height [OF 1(3)] 1(3) es
      by (auto split: if_split_asm option.splits)
  qed (use step 1(4) in simp)
qed

lemma item_height:
  assumes "sequence_item pv i ln rest = Inr (n, k)" and "pv_bounded pv h"
  shows "height (shape n) \<le> Suc h"
proof -
  have "height (shape (Y_Mapping es l c)) \<le> Suc h"
    if "first_value pv v j l' c' rest' = Inr (x, m)" "more_keys pv j' lns' m' [(k0, x)] = Inr (es, u)"
    for es l c v j l' c' rest' x m j' lns' m' k0 u
    using more_keys_height [OF that(2) assms(2)] first_value_height [OF assms(2) that(1)]
    by (intro mapping_height) simp
  moreover have "height (shape x) \<le> Suc h" if "pv j lns = Inr (x, m)" for x j lns m
    using assms(2) that unfolding pv_bounded_def by (meson le_SucI)
  ultimately show ?thesis
    using assms(1) by (auto simp: sequence_item_def Let_def dest!: inline_height
        split: if_split_asm option.splits simp del: shape.simps)
qed

lemma sequence_loop_height:
  "sequence_loop pv i lns used xs = Inr (xs', k) \<Longrightarrow> pv_bounded pv h \<Longrightarrow>
     list_all (\<lambda>n. height (shape n) \<le> Suc h) xs \<Longrightarrow> list_all (\<lambda>n. height (shape n) \<le> Suc h) xs'"
proof (induction pv i lns used xs rule: sequence_loop.induct)
  case (1 pv i lns used xs)
  have xs: "list_all (\<lambda>n. height (shape n) \<le> Suc h) (xs @ [n])" if "height (shape n) \<le> Suc h" for n
    using that 1(4) by simp
  note step = 1(2) [unfolded sequence_loop.simps [of pv i lns] Let_def]
  show ?case
  proof (cases "drop (skip_blank_and_comment lns) lns")
    case (Cons nx rest)
    show ?thesis
      using step Cons 1(4) 1(1) [OF refl Cons] item_height [OF _ 1(3)] 1(3) xs
      by (auto split: if_split_asm option.splits)
  qed (use step 1(4) in simp)
qed

lemma parse_value_height: "pv_bounded (parse_value levels) (2 * levels)"
proof (induction levels)
  case (Suc n)
  have m: "height (shape x) \<le> Suc (2 * n)" if "parse_mapping (parse_value n) i lns = Inr (x, k)" for x i lns k
    using that mapping_loop_height [OF _ Suc, of i lns 0 "[]"] mapping_height
    by (auto simp: parse_mapping_def simp del: shape.simps)
  have s: "height (shape x) \<le> Suc (Suc (2 * n))" if "parse_sequence (parse_value n) i lns = Inr (x, k)" for x i lns k
    using that sequence_loop_height [OF _ Suc, of i lns 0 "[]"] sequence_height
    by (auto simp: parse_sequence_def simp del: shape.simps)
  show ?case
    unfolding pv_bounded_def
    using m s by (auto simp: Let_def plus_used_def null_node_def le_SucI split: list.splits if_split_asm)
qed (simp add: pv_bounded_def)

section \<open>Properties\<close>

lemma document_read:
  assumes "doc_ok d" and "is_block d" and "height d \<le> 64"
  shows "\<exists>n. yaml_parse (print_lines (render 0 d)) = Inr n \<and> shape n = d"
proof -
  obtain lns where t: "tokenize_lines (print_lines (render 0 d)) =
      Inr (lns @ [make_line (1 + length (render 0 d)) []])" and lns: "lines_of lns (render 0 d)"
    using tokenize_printed [OF render_payloads [OF assms(1)], of 1 0] by (auto simp: tokenize_lines_def)
  let ?tail = "[make_line (1 + length (render 0 d)) []]"
  have e: "ended 0 ?tail" "skip_blank_and_comment ?tail = 1"
    by (simp_all add: ended_def after_def make_line_def)
  obtain ln lns' where l: "lns = ln # lns'" "yl_indent ln = 0" and s: "\<forall>x. skip_blank_and_comment (ln # x) = 0"
    and p: "case d of D_Map _ \<Rightarrow> yl_payload ln \<noteq> [] \<and> \<not> is_dash_line (yl_payload ln) \<and> split_key (yl_payload ln) \<noteq> None
        | _ \<Rightarrow> is_dash_line (yl_payload ln)"
    using first_line [OF assms(1,2) lns] by blast
  have "\<not> is_dash_line ''---''" "split_key ''---'' = None"
    by (simp_all add: is_dash_line_def split_key_def ends_key_def)
  then have "yl_payload ln \<noteq> ''---''" using p by (cases d) auto
  then have sep: "skip_separators (lns @ ?tail) = lns @ ?tail"
    using skip_separators_first [of ln "lns' @ ?tail"] s l(1) by simp
  have "reads (parse_value kMaxNestingDepth) 0 d"
    using value_reads assms by (simp add: kMaxNestingDepth_def)
  from reads_at [OF this _ lns e(1), of 0] obtain n where
    n: "parse_value kMaxNestingDepth 0 (lns @ ?tail) = Inr (n, length lns + 1)" "shape n = d"
    using e(2) by auto
  have "skip_separators [] = []" by (subst skip_separators.simps) simp
  then have "parse_document (lns @ ?tail) = Inr n"
    using sep n(1) l by (simp add: parse_document_def)
  then show ?thesis using t n(2) by (simp add: yaml_parse_def)
qed

text \<open>
  C23: a document of non-empty sequences and mappings with plain keys, nested at most 64 deep,
  written out as text, is parsed to a tree with the same structure, the same keys and the same
  texts, whatever characters the texts hold.
\<close>

theorem yaml_roundtrip:
  assumes "doc_ok d" and "is_block d" and "height d \<le> 64"
  shows "\<exists>n. yaml_parse (print_lines (render 0 d)) = Inr n \<and> shape n = d"
  using assms by (rule document_read)

definition sample_doc :: doc where
  "sample_doc = D_Map [(''rule'', D_Map [(''features'', D_List [D_Map [(''and'', D_List [D_Text ''a: #b''])]])])]"

theorem yaml_roundtrip_witness:
  "\<exists>n. yaml_parse (print_lines (render 0 sample_doc)) = Inr n \<and> shape n = sample_doc"
  by (rule yaml_roundtrip) (simp_all add: sample_doc_def plain_key_def is_block_def)


text \<open>
  Whatever the text is, a tree the parser returns is at most 128 nodes deep: each of the 64
  calls of \<open>parse_value\<close> that may be open adds a sequence and a mapping inside it.
\<close>

theorem yaml_depth_bounded:
  assumes "yaml_parse src = Inr n"
  shows "height (shape n) \<le> 128"
proof -
  have bound: "height (shape x) \<le> 128" if "parse_value kMaxNestingDepth i lns = Inr (x, k)" for i lns x k
    using parse_value_height [of kMaxNestingDepth] that by (auto simp: pv_bounded_def kMaxNestingDepth_def)
  from assms obtain lns where d: "parse_document lns = Inr n" by (auto simp: yaml_parse_def)
  show ?thesis
  proof (cases "skip_separators lns")
    case Nil
    then show ?thesis using d by (auto simp: parse_document_def null_node_def)
  next
    case (Cons ln rest)
    obtain root used where r: "parse_value kMaxNestingDepth (yl_indent ln) (ln # rest) = Inr (root, used)"
        "(case skip_separators (drop used (ln # rest)) of [] \<Rightarrow> Inr root
          | ln' # _ \<Rightarrow> Inl (yaml_err (yl_line_no ln') (yl_indent ln' + 1)
                             ''extra content after document end'')) = Inr n"
      using d Cons unfolding parse_document_def by (auto simp del: parse_value.simps)
    then have "root = n" by (cases "skip_separators (drop used (ln # rest))") simp_all
    with bound [OF r(1)] show ?thesis by simp
  qed
qed

theorem yaml_depth_bounded_witness:
  "\<exists>n. yaml_parse [dash, blank, CHR ''a''] = Inr n \<and> height (shape n) \<le> 128"
proof -
  have "yaml_parse [dash, blank, CHR ''a''] = Inr (Y_Sequence [Y_Scalar ''a'' 1 3] 1 1)" by code_simp
  with yaml_depth_bounded show ?thesis by blast
qed

text \<open>
  The chomping indicator of a block scalar is looked for in the whole line of its key: under
  a key that contains a dash a plain \<open>|\<close> loses every newline at its end, as \<open>|-\<close> does.
\<close>

theorem dash_in_key_chomps:
  assumes "dash \<in> set k" and "CHR ''+'' \<notin> set k"
  shows "\<exists>t m. parse_block_scalar (k @ '': |'') (CHR ''|'') indent line column lns = Inr (Y_Scalar t line column, m) \<and>
    (t = [] \<or> last t \<noteq> newline)"
proof -
  have "find (\<lambda>c. c = dash \<or> c = CHR ''+'') (k @ x) = Some dash" for x
    using assms by (induction k) auto
  then have c: "chomp_of (k @ '': |'') = Some dash" by (simp add: chomp_of_def)
  have "strip_newlines out = [] \<or> last (strip_newlines out) \<noteq> newline" for out
    using hd_dropWhile [of "\<lambda>c. c = newline" "rev out"] by (auto simp: strip_newlines_def last_rev)
  then show ?thesis by (simp add: parse_block_scalar_def c block_text_def Let_def)
qed

theorem dash_in_key_chomps_witness:
  "\<exists>t m. parse_block_scalar (''on-hit'' @ '': |'') (CHR ''|'') 0 1 1 [make_line 2 ''  text''] = Inr (Y_Scalar t 1 1, m) \<and>
    (t = [] \<or> last t \<noteq> newline)"
  by (rule dash_in_key_chomps) simp_all

end
