(* ===== verification/Rule_Roundtrip.thy ===== *)
theory Rule_Roundtrip
  imports Parsed_Rules Yaml_Roundtrip
begin

text \<open>
  Rules written out and read back: a rule printed as the YAML text of a rule file is parsed to
  the same metadata and the same statement.
\<close>

section \<open>Numbers as text\<close>

definition digit_char :: "char \<Rightarrow> bool" where
  "digit_char c \<longleftrightarrow> 48 \<le> (of_char c :: nat) \<and> of_char c \<le> (57 :: nat)"

lemma digit_char_of: "(d :: nat) < 10 \<Longrightarrow> digit_char (char_of (48 + d))"
  by (simp add: digit_char_def)

lemma to_decimal_digits: "list_all digit_char (to_decimal n)"
proof (induction n rule: to_decimal.induct)
  case (1 n)
  then show ?case by (subst to_decimal.simps) (simp add: digit_char_of)
qed

lemma to_decimal_nonempty [simp]: "to_decimal n \<noteq> []"
  by (subst to_decimal.simps) simp

lemma hex_digit_decimal: "d < 10 \<Longrightarrow> hex_digit (char_of (48 + d)) = Some d"
  by (simp add: hex_digit_def Let_def)

lemma digits_value_append:
  "digits_value base acc (xs @ ys) =
     (case digits_value base acc xs of None \<Rightarrow> None | Some v \<Rightarrow> digits_value base v ys)"
  by (induction xs arbitrary: acc) (auto split: option.split)

lemma digits_to_decimal: "digits_value 10 0 (to_decimal n) = Some n"
proof (induction n rule: to_decimal.induct)
  case (1 n)
  show ?case
  proof (cases "n < 10")
    case True
    then show ?thesis by (subst to_decimal.simps) (simp add: hex_digit_decimal)
  next
    case False
    then show ?thesis
      using 1 by (subst to_decimal.simps) (simp add: digits_value_append hex_digit_decimal)
  qed
qed

lemma from_chars_decimal: "n \<le> kSizeMax \<Longrightarrow> from_chars_u64 10 (to_decimal n) = Some n"
  by (simp add: from_chars_u64_def digits_to_decimal kSizeMax_def)

text \<open>What no sequence of digits contains.\<close>

lemma decimal_lacks:
  assumes "(of_char c :: nat) < 48 \<or> (57 :: nat) < of_char c"
  shows "c \<notin> set (to_decimal n)"
  using to_decimal_digits [of n] assms by (auto simp: list_all_iff digit_char_def)

lemma decimal_not [simp]:
  "blank \<notin> set (to_decimal n)" "tab_char \<notin> set (to_decimal n)" "dash \<notin> set (to_decimal n)"
  "CHR ''+'' \<notin> set (to_decimal n)" "CHR ''.'' \<notin> set (to_decimal n)" "CHR ''e'' \<notin> set (to_decimal n)"
  "CHR ''E'' \<notin> set (to_decimal n)" "CHR ''x'' \<notin> set (to_decimal n)" "CHR ''X'' \<notin> set (to_decimal n)"
  "CHR '','' \<notin> set (to_decimal n)" "CHR '']'' \<notin> set (to_decimal n)" "colon \<notin> set (to_decimal n)"
  "squote \<notin> set (to_decimal n)" "dquote \<notin> set (to_decimal n)" "newline \<notin> set (to_decimal n)"
  "carriage_return \<notin> set (to_decimal n)" "hash_sign \<notin> set (to_decimal n)"
  by (rule decimal_lacks, simp add: of_char_def)+

lemma decimal_hd [simp]:
  "c \<notin> set (to_decimal n) \<Longrightarrow> hd (to_decimal n) \<noteq> c"
  using hd_in_set [OF to_decimal_nonempty, of n] by auto

lemma decimal_last [simp]:
  "c \<notin> set (to_decimal n) \<Longrightarrow> last (to_decimal n) \<noteq> c"
  using last_in_set [OF to_decimal_nonempty, of n] by auto

lemma ends_clean:
  assumes "s \<noteq> []" and "\<not> is_ws (hd s)" and "\<not> is_ws (last s)"
  shows "trim s = s"
proof -
  have "ltrim s = s" using assms by (cases s) (simp_all add: ltrim_def)
  moreover have "rtrim_ws s = s" using assms by (cases s rule: rev_cases) (simp_all add: rtrim_ws_def)
  ultimately show ?thesis by (simp add: trim_def)
qed

lemma trim_no_ws: "s \<noteq> [] \<Longrightarrow> blank \<notin> set s \<Longrightarrow> tab_char \<notin> set s \<Longrightarrow> trim s = s"
  by (rule ends_clean) (auto simp: is_ws_def dest: hd_in_set last_in_set)

lemma decimal_trim [simp]: "trim (to_decimal n) = to_decimal n"
  by (rule ends_clean) (simp_all add: is_ws_def)

lemma trim_blank [simp]: "trim (blank # s) = trim s"
  by (simp add: trim_def ltrim_def is_ws_def)

lemma no_hex_prefix: "CHR ''x'' \<notin> set s \<Longrightarrow> CHR ''X'' \<notin> set s \<Longrightarrow> \<not> has_hex_prefix s"
  by (cases s; cases "tl s") (auto simp: has_hex_prefix_def starts_with_def)

lemma parse_size_decimal [simp]: "n \<le> kSizeMax \<Longrightarrow> parse_size_t (to_decimal n) = Some n"
  using no_hex_prefix [of "to_decimal n"]
  by (simp add: parse_size_t_def from_chars_decimal)

fun number_text :: "number_value \<Rightarrow> string" where
  "number_text (Num_U64 u) = to_decimal (unat u)"
| "number_text (Num_I64 i) = dash # to_decimal (unat (- i))"
| "number_text (Num_Double d) = []"

text \<open>A negative number is printed when its magnitude is one the parser negates.\<close>

fun printable_number :: "number_value \<Rightarrow> bool" where
  "printable_number (Num_U64 u) \<longleftrightarrow> True"
| "printable_number (Num_I64 i) \<longleftrightarrow> unat (- i) < 2 ^ 63"
| "printable_number (Num_Double d) \<longleftrightarrow> False"

lemma unat_le_kSizeMax: "unat (u :: u64) \<le> kSizeMax"
  using unsigned_less [of u, where 'a = nat] by (simp add: kSizeMax_def)

lemma parse_number_text:
  assumes "printable_number v"
  shows "parse_number floats (number_text v) = Inr v"
proof (cases v)
  case (Num_U64 u)
  then show ?thesis
    using no_hex_prefix [of "to_decimal (unat u)"] from_chars_decimal [OF unat_le_kSizeMax [of u]]
    by (simp add: parse_number_def)
next
  case (Num_I64 i)
  let ?s = "to_decimal (unat (- i))"
  have "\<not> has_hex_prefix ?s" "\<not> has_hex_prefix (dash # ?s)"
    using no_hex_prefix by simp_all
  then show ?thesis
    using Num_I64 assms from_chars_decimal [OF unat_le_kSizeMax [of "- i"]]
    by (simp add: parse_number_def)
qed (use assms in simp)

section \<open>Bytes as text\<close>

definition hex_char :: "nat \<Rightarrow> char" where
  "hex_char d = (if d < 10 then char_of (48 + d) else char_of (87 + d))"

definition hex_pair :: "u8 \<Rightarrow> string" where
  "hex_pair b = [hex_char (unat b div 16), hex_char (unat b mod 16)]"

lemma hex_digit_hex_char: "d < 16 \<Longrightarrow> hex_digit (hex_char d) = Some d"
  by (simp add: hex_digit_def hex_char_def Let_def)

lemma hex_char_not: "d < 16 \<Longrightarrow> hex_char d \<notin> {blank, tab_char, CHR ''?''}"
  using hex_digit_hex_char [of d] by (auto simp: hex_digit_def of_char_def)

lemma pair_value: "of_nat (push_bit 4 (unat b div 16) OR (unat b mod 16)) = (b :: u8)"
proof -
  have "push_bit 4 (n div 16) OR (n mod 16) = n" for n :: nat
  proof (rule bit_eqI)
    fix k
    have "n div 16 = drop_bit 4 n" "n mod 16 = take_bit 4 n"
      by (simp_all add: drop_bit_eq_div take_bit_eq_mod)
    then show "bit (push_bit 4 (n div 16) OR (n mod 16)) k \<longleftrightarrow> bit n k"
      by (simp add: bit_or_iff bit_push_bit_iff bit_drop_bit_eq bit_take_bit_iff) (cases "4 \<le> k"; simp)
  qed
  then show ?thesis by simp
qed

lemma bytes_loop_pairs:
  "bytes_loop (concat (map hex_pair bs)) out = Inr (out\<lparr>bl_pattern := bl_pattern out @ map Some bs\<rparr>)"
proof (induction bs arbitrary: out)
  case (Cons b bs)
  have "unat b div 16 < 16" using unsigned_less [of b, where 'a = nat] by simp
  then show ?case
    using Cons hex_char_not [of "unat b div 16"] hex_digit_hex_char [of "unat b div 16"]
      hex_digit_hex_char [of "unat b mod 16"] pair_value [of b]
    by (simp add: hex_pair_def is_ws_def)
qed simp

lemma parse_bytes_text:
  "bs \<noteq> [] \<Longrightarrow> parse_bytes_literal (concat (map hex_pair bs)) =
     Inr \<lparr>bl_pattern = map Some bs, bl_has_wildcards = False\<rparr>"
  by (simp add: parse_bytes_literal_def bytes_loop_pairs)

section \<open>Features as text\<close>

definition plain_value :: "string \<Rightarrow> bool" where
  "plain_value v \<longleftrightarrow> split_inline_description v = (v, None)"

fun feature_key :: "feature \<Rightarrow> string" where
  "feature_key (FString v) = ''string''"
| "feature_key (FSubstring v) = ''substring''"
| "feature_key (FRegex v) = ''string''"
| "feature_key (FBytes bs) = ''bytes''"
| "feature_key (FNumber n) = ''number''"
| "feature_key (FOffset n) = ''offset''"
| "feature_key (FMnemonic v) = ''mnemonic''"
| "feature_key (FApi v) = ''api''"
| "feature_key (FImport v) = ''import''"
| "feature_key (FExport v) = ''export''"
| "feature_key (FSection v) = ''section''"
| "feature_key (FFunctionName v) = ''function-name''"
| "feature_key (FClass v) = ''class''"
| "feature_key (FNamespace v) = ''namespace''"
| "feature_key (FProperty v a) = (if a = Access_Read then ''property/read'' else ''property/write'')"
| "feature_key (FCharacteristic v) = ''characteristic''"
| "feature_key (FMatchedRule v) = ''match''"
| "feature_key (FOs v) = ''os''"
| "feature_key (FArch v) = ''arch''"
| "feature_key (FFormat v) = ''format''"
| "feature_key (FOperandNumber i n) = ''operand['' @ to_decimal i @ ''].number''"
| "feature_key (FOperandOffset i n) = ''operand['' @ to_decimal i @ ''].offset''"
| "feature_key FBasicBlock = ''basic blocks''"

fun feature_text :: "feature \<Rightarrow> string" where
  "feature_text (FBytes bs) = concat (map hex_pair bs)"
| "feature_text (FNumber n) = number_text n"
| "feature_text (FOffset n) = to_decimal (unat n)"
| "feature_text (FProperty v a) = v"
| "feature_text (FOperandNumber i n) = number_text n"
| "feature_text (FOperandOffset i n) = to_decimal (unat n)"
| "feature_text f = (case value_of f of None \<Rightarrow> [] | Some v \<Rightarrow> v)"

text \<open>
  The features whose text says what they are: no trailing or leading blank, no inline
  description, an API name that is not cut at a dot, a string that does not look like a regular
  expression.
\<close>

fun printable_feature :: "feature \<Rightarrow> bool" where
  "printable_feature (FString v) \<longleftrightarrow> plain_value v \<and> \<not> is_regex_literal v"
| "printable_feature (FRegex v) \<longleftrightarrow> plain_value v \<and> is_regex_literal v"
| "printable_feature (FApi v) \<longleftrightarrow> plain_value v \<and> trim_dll_part v = v"
| "printable_feature (FBytes bs) \<longleftrightarrow> bs \<noteq> []"
| "printable_feature (FNumber n) \<longleftrightarrow> printable_number n"
| "printable_feature (FOffset n) \<longleftrightarrow> True"
| "printable_feature (FProperty v a) \<longleftrightarrow> plain_value v \<and> a \<noteq> Access_None"
| "printable_feature (FOperandNumber i n) \<longleftrightarrow> i \<le> 4 \<and> printable_number n"
| "printable_feature (FOperandOffset i n) \<longleftrightarrow> i \<le> 4"
| "printable_feature FBasicBlock \<longleftrightarrow> False"
| "printable_feature f \<longleftrightarrow> plain_value (feature_text f)"

lemma no_sep: "CHR ''='' \<notin> set s \<Longrightarrow> desc_sep_from dq sq i s = None"
proof (induction dq sq i s rule: desc_sep_from.induct)
  case (2 dq sq i c cs)
  have "take 3 (c # cs) \<noteq> '' = ''"
  proof
    assume "take 3 (c # cs) = '' = ''"
    then have "CHR ''='' \<in> set (take 3 (c # cs))" by simp
    then show False using 2(5) set_take_subset [of 3 "c # cs"] by blast
  qed
  then show ?case using 2 by (auto simp del: take_Suc_Cons)
qed simp

lemma plain_valueI: "CHR ''='' \<notin> set s \<Longrightarrow> trim s = s \<Longrightarrow> plain_value s"
  by (simp add: plain_value_def split_inline_description_def find_inline_desc_sep_def no_sep)

lemma decimal_plain [simp]: "plain_value (to_decimal n)"
  by (rule plain_valueI) (simp_all add: decimal_lacks of_char_def)

lemma number_plain: "printable_number v \<Longrightarrow> plain_value (number_text v)"
proof (cases v)
  case (Num_I64 i)
  have "CHR ''='' \<notin> set (dash # to_decimal (unat (- i)))" by (simp add: decimal_lacks of_char_def)
  moreover have "trim (dash # to_decimal (unat (- i))) = dash # to_decimal (unat (- i))"
    by (rule ends_clean) (simp_all add: is_ws_def)
  ultimately show ?thesis using Num_I64 by (simp add: plain_valueI)
qed simp_all

lemma hex_char_value: "d < 16 \<Longrightarrow> hex_char d \<noteq> c" if "hex_digit c = None"
  using hex_digit_hex_char [of d] that by auto

lemma bytes_plain: "bs \<noteq> [] \<Longrightarrow> plain_value (concat (map hex_pair bs))"
proof (rule plain_valueI)
  have lt: "unat b div 16 < 16" "unat b mod 16 < 16" for b :: u8
    using unsigned_less [of b, where 'a = nat] by simp_all
  have h: "hex_digit (CHR ''='') = None" "hex_digit blank = None" "hex_digit tab_char = None"
    by (simp_all add: hex_digit_def of_char_def)
  have ne: "c \<notin> set (concat (map hex_pair bs))" if "hex_digit c = None" for c
  proof
    assume "c \<in> set (concat (map hex_pair bs))"
    then obtain b where "c = hex_char (unat (b :: u8) div 16) \<or> c = hex_char (unat b mod 16)"
      by (auto simp: hex_pair_def)
    then show False using hex_char_value [OF that] lt by blast
  qed
  then show "CHR ''='' \<notin> set (concat (map hex_pair bs))" using h by blast
  assume "bs \<noteq> []"
  then have "concat (map hex_pair bs) \<noteq> []" by (auto simp: hex_pair_def)
  then show "trim (concat (map hex_pair bs)) = concat (map hex_pair bs)"
    using ne [OF h(2)] ne [OF h(3)] by (rule trim_no_ws)
qed

lemma printable_plain: "printable_feature f \<Longrightarrow> plain_value (feature_text f)"
  by (cases f) (auto simp: number_plain bytes_plain)

lemma operand_read:
  assumes "i \<le> 4" and "printable_number n"
  shows "operand_leaf fl (''operand['' @ to_decimal i @ ''].number'') (number_text n) l c = Inr (FOperandNumber i n)"
    and "operand_leaf fl (''operand['' @ to_decimal i @ ''].offset'') (number_text n) l c =
      (case as_offset n of Some off \<Rightarrow> Inr (FOperandOffset i off)
       | None \<Rightarrow> Inl (rule_error_at ''operand offset cannot be floating point'' l c))"
proof -
  have i: "i \<le> kSizeMax" using assms(1) by (simp add: kSizeMax_def)
  have tw: "takeWhile (\<lambda>c. c \<noteq> CHR '']'') (''operand['' @ to_decimal i @ CHR '']'' # s) = ''operand['' @ to_decimal i" for s
  proof -
    have "takeWhile (\<lambda>c. c \<noteq> CHR '']'') (to_decimal i @ CHR '']'' # s) =
        to_decimal i @ takeWhile (\<lambda>c. c \<noteq> CHR '']'') (CHR '']'' # s)"
      by (rule takeWhile_append2) (use decimal_not(11) [of i] in auto)
    then show ?thesis by simp
  qed
  have key: "operand_leaf fl (''operand['' @ to_decimal i @ CHR '']'' # s) v l c =
      (if s \<noteq> ''.number'' \<and> s \<noteq> ''.offset''
       then Inl (rule_error_at (''unknown operand suffix: '' @ ''operand['' @ to_decimal i @ CHR '']'' # s) l c)
       else sbind (parse_number fl v) (\<lambda>num.
                 if s = ''.number'' then Inr (FOperandNumber i num)
                 else case as_offset num of
                        None \<Rightarrow> Inl (rule_error_at ''operand offset cannot be floating point'' l c)
                      | Some off \<Rightarrow> Inr (FOperandOffset i off)))" for s v
    using i assms(1) tw [of s] unfolding operand_leaf_def by (simp add: Let_def)
  show "operand_leaf fl (''operand['' @ to_decimal i @ ''].number'') (number_text n) l c = Inr (FOperandNumber i n)"
    using key [of "''.number''"] parse_number_text [OF assms(2)] by simp
  show "operand_leaf fl (''operand['' @ to_decimal i @ ''].offset'') (number_text n) l c =
      (case as_offset n of Some off \<Rightarrow> Inr (FOperandOffset i off)
       | None \<Rightarrow> Inl (rule_error_at ''operand offset cannot be floating point'' l c))"
    using key [of "''.offset''"] parse_number_text [OF assms(2)] by (auto split: option.splits)
qed

lemma build_feature_text:
  assumes "printable_feature f"
  shows "build_feature_leaf fl (feature_key f) (feature_text f) l c = Inr f"
proof -
  have v: "fst (split_inline_description (feature_text f)) = feature_text f"
    using printable_plain [OF assms] by (simp add: plain_value_def)
  have off: "parse_number fl (to_decimal (unat n)) = Inr (Num_U64 n)" for n :: u64
    using parse_number_text [of "Num_U64 n"] by simp
  have acc: "a \<noteq> Access_None \<Longrightarrow> a \<noteq> Access_Read \<Longrightarrow> Access_Write = a" for a by (cases a) simp_all
  show ?thesis
    using assms v acc parse_number_text operand_read off operand_read(2) [of _ "Num_U64 n" for n] parse_bytes_text
    by (cases f) (auto simp: build_feature_leaf_def starts_with_def property_leaf_def number_leaf_def
        bytes_leaf_def value_leaf_def comp_def)
qed

section \<open>Statements as documents\<close>

definition count_key :: "feature \<Rightarrow> string" where
  "count_key f = (if f = FBasicBlock then ''count(basic blocks)''
     else ''count('' @ feature_key f @ ''('' @ feature_text f @ ''))'')"

definition range_text :: "nat \<Rightarrow> nat \<Rightarrow> string" where
  "range_text lo hi = ''('' @ to_decimal lo @ '', '' @ to_decimal hi @ '')''"

fun stmt_doc :: "statement \<Rightarrow> doc" where
  "stmt_doc (SAnd cs) = D_Map [(''and'', D_List (map (\<lambda>c. case c of None \<Rightarrow> D_Text [] | Some s \<Rightarrow> stmt_doc s) cs))]"
| "stmt_doc (SOr cs) = D_Map [(''or'', D_List (map (\<lambda>c. case c of None \<Rightarrow> D_Text [] | Some s \<Rightarrow> stmt_doc s) cs))]"
| "stmt_doc (SNot s) = D_Map [(''not'', D_List [stmt_doc s])]"
| "stmt_doc (SSome n cs) =
     D_Map [(to_decimal n @ or_more, D_List (map (\<lambda>c. case c of None \<Rightarrow> D_Text [] | Some s \<Rightarrow> stmt_doc s) cs))]"
| "stmt_doc (SRange f lo hi) = D_Map [(count_key f, D_Text (range_text lo hi))]"
| "stmt_doc (SSubscope sc s) = D_Map [(scope_to_string sc, D_List [stmt_doc s])]"
| "stmt_doc (SFeature f) = D_Map [(feature_key f, D_Text (feature_text f))]"

text \<open>A counted feature stands in a key, which has to be plain.\<close>

fun printable :: "statement \<Rightarrow> bool" where
  "printable (SAnd cs) \<longleftrightarrow> cs \<noteq> [] \<and> list_all (\<lambda>c. case c of None \<Rightarrow> False | Some s \<Rightarrow> printable s) cs"
| "printable (SOr cs) \<longleftrightarrow> cs \<noteq> [] \<and> list_all (\<lambda>c. case c of None \<Rightarrow> False | Some s \<Rightarrow> printable s) cs"
| "printable (SNot s) \<longleftrightarrow> printable s"
| "printable (SSome n cs) \<longleftrightarrow> cs \<noteq> [] \<and> list_all (\<lambda>c. case c of None \<Rightarrow> False | Some s \<Rightarrow> printable s) cs"
| "printable (SRange f lo hi) \<longleftrightarrow> f = FBasicBlock \<or> printable_feature f \<and> plain_key (count_key f)"
| "printable (SSubscope sc s) \<longleftrightarrow> printable s"
| "printable (SFeature f) \<longleftrightarrow> printable_feature f"

lemma range_read:
  assumes "lo \<le> hi" and "hi \<le> kSizeMax"
  shows "parse_count_range (range_text lo hi) = Inr (lo, hi)"
proof -
  have t: "trim (range_text lo hi) = range_text lo hi"
    by (rule ends_clean) (simp_all add: range_text_def is_ws_def)
  have "takeWhile (\<lambda>c. c \<noteq> CHR '','') (to_decimal lo @ CHR '','' # s) = to_decimal lo @ takeWhile (\<lambda>c. c \<noteq> CHR '','') (CHR '','' # s)" for s
    by (rule takeWhile_append2) (use decimal_not(10) [of lo] in auto)
  then have b: "before_comma (to_decimal lo @ '', '' @ to_decimal hi) = to_decimal lo"
    by (simp add: before_comma_def)
  have body: "take (length (range_text lo hi) - 2) (drop 1 (range_text lo hi)) = to_decimal lo @ '', '' @ to_decimal hi"
    by (simp add: range_text_def)
  have d: "drop (Suc (length (to_decimal lo))) (to_decimal lo @ '', '' @ to_decimal hi) = blank # to_decimal hi"
    by simp
  show ?thesis
    unfolding parse_count_range_def Let_def t body b d
    using assms by (simp add: range_text_def)
qed

text \<open>Which of the statement parsers takes a key.\<close>

lemma ends_with_last: "ends_with p s \<Longrightarrow> p \<noteq> [] \<Longrightarrow> last s = last p"
  unfolding ends_with_def by (metis append_take_drop_id last_append)

lemma feature_key_dispatch:
  assumes "printable_feature f"
  shows "parse_operator kids (feature_key f) l c val sc = None"
    and "parse_subscope kids (feature_key f) = None"
    and "parse_com (feature_key f) l c val sc = None"
    and "parse_count fl (feature_key f) l c val sc = None"
    and "feature_key f \<noteq> ''description''" and "plain_key (feature_key f)"
proof -
  have operators: "feature_key f \<notin> {''and'', ''or'', ''not'', ''optional''}"
    using assms by (cases f) auto
  have e: "\<not> ends_with or_more (feature_key f)"
  proof
    assume "ends_with or_more (feature_key f)"
    then have "last (feature_key f) = CHR ''e''" "CHR '' '' \<in> set (feature_key f)"
      using ends_with_last [of or_more] by (auto simp: or_more_def ends_with_def dest!: arg_cong [of _ _ set] in_set_dropD)
    then show False using assms by (cases f) (auto split: if_split_asm)
  qed
  show "parse_operator kids (feature_key f) l c val sc = None"
    using e operators by (simp add: parse_operator_def)
  show "parse_subscope kids (feature_key f) = None"
    using assms by (cases f) (auto simp: parse_subscope_def subscope_scope_def)
  show "parse_com (feature_key f) l c val sc = None"
    using assms by (cases f) (auto simp: parse_com_def)
  show "parse_count fl (feature_key f) l c val sc = None"
    using assms by (cases f) (auto simp: parse_count_def split_count_call_def starts_with_def)
  show "feature_key f \<noteq> ''description''" using assms by (cases f) auto
  show "plain_key (feature_key f)" using assms by (cases f) (auto simp: plain_key_def)
qed

lemma count_split:
  assumes "printable_feature f"
  shows "split_count_call (count_key f) = Some (feature_key f, feature_text f)"
proof -
  have "f \<noteq> FBasicBlock" using assms by auto
  then have k: "count_key f = ''count('' @ (feature_key f @ CHR ''('' # feature_text f @ [CHR '')'']) @ [CHR '')'']"
    by (simp add: count_key_def)
  have "CHR ''('' \<notin> set (feature_key f)"
    using assms by (cases f) (auto simp: decimal_lacks of_char_def)
  then have "takeWhile (\<lambda>c. c \<noteq> CHR ''('') (feature_key f @ CHR ''('' # s) =
      feature_key f @ takeWhile (\<lambda>c. c \<noteq> CHR ''('') (CHR ''('' # s)" for s
    by (intro takeWhile_append2) auto
  then have tw: "takeWhile (\<lambda>c. c \<noteq> CHR ''('') (feature_key f @ CHR ''('' # s) = feature_key f" for s
    by simp
  show ?thesis
    unfolding split_count_call_def k by (simp add: Let_def tw starts_with_def ends_with_def)
qed

lemma count_key_dispatch:
  assumes "f = FBasicBlock \<or> printable_feature f"
  shows "parse_operator kids (count_key f) l c val sc = None"
    and "parse_subscope kids (count_key f) = None"
    and "parse_com (count_key f) l c val sc = None"
    and "count_key f \<noteq> ''description''"
proof -
  have "last (count_key f) = CHR '')''" by (simp add: count_key_def)
  then have "\<not> ends_with or_more (count_key f)" using ends_with_last [of or_more "count_key f"] by (auto simp: or_more_def)
  moreover have "count_key f \<notin> {''and'', ''or'', ''not'', ''optional''}" by (simp add: count_key_def)
  ultimately show "parse_operator kids (count_key f) l c val sc = None" by (simp add: parse_operator_def)
  show "parse_subscope kids (count_key f) = None"
    by (simp add: parse_subscope_def subscope_scope_def count_key_def)
  show "parse_com (count_key f) l c val sc = None" by (simp add: parse_com_def count_key_def)
  show "count_key f \<noteq> ''description''" by (simp add: count_key_def)
qed

section \<open>Statements are read back\<close>

lemma shape_text: "shape n = D_Text t \<longleftrightarrow> (\<exists>l c. n = Y_Scalar t l c)"
  by (cases n) auto

lemma shape_list: "shape n = D_List ds \<longleftrightarrow> (\<exists>ns l c. n = Y_Sequence ns l c \<and> map shape ns = ds)"
  by (cases n) auto

lemma shape_map: "shape n = D_Map ds \<longleftrightarrow> (\<exists>es l c. n = Y_Mapping es l c \<and> map (map_prod id shape) es = ds)"
  by (cases n) auto

lemma shape_entry: "shape n = D_Map [(k, d)] \<longleftrightarrow> (\<exists>v l c. n = Y_Mapping [(k, v)] l c \<and> shape v = d)"
  by (auto simp: shape_map)

definition item_reads :: "floats \<Rightarrow> rule_scope \<Rightarrow> statement \<Rightarrow> bool" where
  "item_reads fl sc s \<longleftrightarrow> (\<forall>n. shape n = stmt_doc s \<longrightarrow>
     parse_statement_item fl n sc = Inr s \<and> \<not> is_inline_description_item n)"

definition children_doc :: "statement option list \<Rightarrow> doc" where
  "children_doc cs = D_List (map (\<lambda>c. case c of None \<Rightarrow> D_Text [] | Some s \<Rightarrow> stmt_doc s) cs)"

lemma children_read:
  assumes "shape n = children_doc cs" and "list_all (\<lambda>c. case c of None \<Rightarrow> False | Some s \<Rightarrow> item_reads fl sc s) cs"
  shows "\<exists>ss. parse_statement_children fl n sc = Inr ss \<and> some_all ss = cs"
proof -
  have "\<exists>ss. children_loop fl ns sc = Inr ss \<and> some_all ss = cs"
    if "map shape ns = map (\<lambda>c. case c of None \<Rightarrow> D_Text [] | Some s \<Rightarrow> stmt_doc s) cs" for ns
    using that assms(2)
  proof (induction cs arbitrary: ns)
    case (Cons c cs)
    then obtain s x ns' where c: "c = Some s" and ns: "ns = x # ns'" and x: "shape x = stmt_doc s"
      by (auto split: option.split_asm)
    obtain ss where ss: "children_loop fl ns' sc = Inr ss" "some_all ss = cs" using Cons ns c by auto
    have "parse_statement_item fl x sc = Inr s" "\<not> is_inline_description_item x"
      using Cons.prems(2) c x by (auto simp: item_reads_def)
    then show ?case using ss c ns by auto
  qed simp
  then show ?thesis using assms(1) by (auto simp: children_doc_def shape_list)
qed

lemma operator_reads:
  assumes read: "\<And>v. shape v = children_doc cs \<Longrightarrow> \<exists>ss. parse_statement_children fl v sc = Inr ss \<and> some_all ss = cs"
    and doc: "stmt_doc s = D_Map [(k, children_doc cs)]"
    and op: "\<And>kids l c v ss. kids sc = Inr ss \<Longrightarrow> some_all ss = cs \<Longrightarrow> parse_operator kids k l c v sc = Some (Inr s)"
    and "k \<noteq> ''description''"
  shows "item_reads fl sc s"
  unfolding item_reads_def doc shape_entry using read op assms(4) by (fastforce simp: statement_of_def)

lemma child_doc: "D_List [stmt_doc s] = children_doc [Some s]"
  by (simp add: children_doc_def)

lemma some_all_single: "some_all ss = [Some s] \<longleftrightarrow> ss = [s]"
  by auto

lemma or_more_operator:
  assumes "n \<le> kSizeMax" and "kids sc = Inr ss"
  shows "parse_operator kids (to_decimal n @ or_more) l c v sc = Some (Inr (SSome n (some_all ss)))"
proof -
  have "hd (to_decimal n @ or_more) \<noteq> x" if "x \<in> {CHR ''a'', CHR ''o'', CHR ''n''}" for x
    using decimal_hd [of x n] that by (auto simp: decimal_lacks of_char_def)
  then have "to_decimal n @ or_more \<notin> {''and'', ''or'', ''not'', ''optional''}"
    by (metis (no_types, lifting) insert_iff list.sel(1) emptyE)
  moreover have "ends_with or_more (to_decimal n @ or_more)" by (simp add: ends_with_def)
  moreover have "drop_end (length or_more) (to_decimal n @ or_more) = to_decimal n" by (simp add: drop_end_def)
  ultimately show ?thesis using assms by (simp add: parse_operator_def)
qed

lemma subscope_name: "sc \<notin> {kFile, kGlobal} \<Longrightarrow> subscope_scope (scope_to_string sc) = Some sc"
  by (cases sc) (simp_all add: subscope_scope_def)

lemma subscope_reads:
  assumes "sc' \<notin> {kFile, kGlobal}"
    and read: "\<And>v. shape v = children_doc [Some s] \<Longrightarrow> \<exists>ss. parse_statement_children fl v sc' = Inr ss \<and> some_all ss = [Some s]"
  shows "item_reads fl sc (SSubscope sc' s)"
proof -
  have "parse_operator kids (scope_to_string sc') l c v sc = None" for kids l c v
    using assms(1) by (cases sc') (simp_all add: parse_operator_def ends_with_def or_more_def)
  moreover have "scope_to_string sc' \<noteq> ''description''" by (cases sc') simp_all
  moreover have "parse_subscope kids (scope_to_string sc') = Some (Inr (SSubscope sc' s))" if "kids sc' = Inr [s]" for kids
    using that subscope_name [OF assms(1)] by (simp add: parse_subscope_def one_or_and_def)
  ultimately show ?thesis
    unfolding item_reads_def stmt_doc.simps shape_entry child_doc
    using read by (fastforce simp: statement_of_def some_all_single)
qed

lemma feature_reads:
  assumes "stmt_fits sc (SFeature f)" and "printable_feature f"
  shows "item_reads fl sc (SFeature f)"
proof -
  note k = feature_key_dispatch [OF assms(2)]
  have "check_leaf_scope key f sc l c = Inr ()" for key l c
    using assms(1) by (auto simp: check_leaf_scope_def split: feature.splits)
  then show ?thesis
    unfolding item_reads_def stmt_doc.simps shape_entry shape_text
    using k build_feature_text [OF assms(2)] by (auto simp: statement_of_def parse_leaf_def)
qed

lemma not_a_call: "split_count_call ''count(basic blocks)'' = None" "split_count_call ''count(basic block)'' = None"
  by (simp_all add: split_count_call_def starts_with_def ends_with_def Let_def)

lemma range_reads:
  assumes "stmt_fits sc (SRange f lo hi)" and "printable (SRange f lo hi)"
  shows "item_reads fl sc (SRange f lo hi)"
proof -
  have p: "f = FBasicBlock \<or> printable_feature f" using assms(2) by auto
  note k = count_key_dispatch [OF p]
  have r: "parse_count_range (range_text lo hi) = Inr (lo, hi)" using assms(1) range_read by simp
  have "parse_count fl (count_key f) l c (Y_Scalar (range_text lo hi) l' c') sc = Some (Inr (SRange f lo hi))" for l c l' c'
  proof (cases "f = FBasicBlock")
    case True
    then show ?thesis using r by (simp add: parse_count_def count_key_def)
  next
    case False
    then have f: "printable_feature f" "is_feature_allowed (tag f) sc" using p assms(1) by auto
    have "''count(basic blocks)'' \<noteq> count_key f" "''count(basic block)'' \<noteq> count_key f"
      using count_split [OF f(1)] not_a_call by (metis option.distinct(1))+
    then show ?thesis using r f(2) count_split [OF f(1)] build_feature_text [OF f(1)] by (simp add: parse_count_def)
  qed
  then show ?thesis
    unfolding item_reads_def stmt_doc.simps shape_entry shape_text
    using k by (auto simp: statement_of_def)
qed

lemma statement_reads: "stmt_fits sc s \<Longrightarrow> printable s \<Longrightarrow> item_reads fl sc s"
proof (induction s arbitrary: sc rule: printable.induct)
  case (1 cs)
  have "list_all (\<lambda>c. case c of None \<Rightarrow> False | Some s \<Rightarrow> item_reads fl sc s) cs"
    using 1 by (fastforce simp: list_all_iff split: option.splits)
  from operator_reads [OF children_read [OF _ this], of "SAnd cs" "''and''"] show ?case
    by (simp add: children_doc_def parse_operator_def)
next
  case (2 cs)
  have "list_all (\<lambda>c. case c of None \<Rightarrow> False | Some s \<Rightarrow> item_reads fl sc s) cs"
    using 2 by (fastforce simp: list_all_iff split: option.splits)
  from operator_reads [OF children_read [OF _ this], of "SOr cs" "''or''"] show ?case
    by (simp add: children_doc_def parse_operator_def)
next
  case (3 s)
  then have "list_all (\<lambda>c. case c of None \<Rightarrow> False | Some s \<Rightarrow> item_reads fl sc s) [Some s]" by simp
  from operator_reads [OF children_read [OF _ this], of "SNot s" "''not''"] show ?case
    by (simp add: children_doc_def parse_operator_def some_all_single)
next
  case (4 n cs)
  have "list_all (\<lambda>c. case c of None \<Rightarrow> False | Some s \<Rightarrow> item_reads fl sc s) cs"
    using 4 by (fastforce simp: list_all_iff split: option.splits)
  moreover have "to_decimal n @ or_more \<noteq> ''description''"
    using ends_with_last [of or_more "to_decimal n @ or_more"] by (auto simp: ends_with_def or_more_def dest: arg_cong [of _ _ last])
  ultimately show ?case
    using operator_reads [OF children_read, of cs fl sc "SSome n cs" "to_decimal n @ or_more"] 4(2) or_more_operator [of n]
    by (simp add: children_doc_def)
next
  case (6 sc' s)
  then have "list_all (\<lambda>c. case c of None \<Rightarrow> False | Some s \<Rightarrow> item_reads fl sc' s) [Some s]" by simp
  from subscope_reads [OF _ children_read [OF _ this]] show ?case using 6 by simp
qed (use feature_reads range_reads in auto)

section \<open>Metadata as documents\<close>

definition opt_entry :: "string \<Rightarrow> string option \<Rightarrow> (string \<times> doc) list" where
  "opt_entry k v = (case v of None \<Rightarrow> [] | Some s \<Rightarrow> [(k, D_Text s)])"

definition list_entry :: "string \<Rightarrow> string list \<Rightarrow> (string \<times> doc) list" where
  "list_entry k xs = (if xs = [] then [] else [(k, D_List (map D_Text xs))])"

definition scope_text :: "rule_scope option \<Rightarrow> string" where
  "scope_text sc = (case sc of None \<Rightarrow> ''unsupported'' | Some s \<Rightarrow> scope_to_string s)"

definition meta_doc :: "rule_meta \<Rightarrow> (string \<times> doc) list" where
  "meta_doc m =
     [(''name'', D_Text (meta_name m))] @ opt_entry ''namespace'' (meta_namespace m) @
     [(''scopes'', D_Map [(''static'', D_Text (scope_text (static_scope (meta_scopes m)))),
                        (''dynamic'', D_Text (scope_text (dynamic_scope (meta_scopes m))))])] @
     list_entry ''authors'' (meta_authors m) @ list_entry ''att&ck'' (meta_att_and_ck m) @
     list_entry ''mbc'' (meta_mbc m) @ list_entry ''examples'' (meta_examples m) @
     list_entry ''references'' (meta_references m) @ opt_entry ''description'' (meta_description m) @
     [(''lib'', D_Text (if meta_lib m then ''true'' else ''false''))]"

definition meta_reads :: "(string \<times> doc) list \<Rightarrow> rule_meta \<Rightarrow> rule_meta \<Rightarrow> bool" where
  "meta_reads ds m m' \<longleftrightarrow> (\<forall>es. map (map_prod id shape) es = ds \<longrightarrow> meta_loop es m = Inr m')"

lemma meta_loop_append: "meta_loop (es @ es') m = sbind (meta_loop es m) (meta_loop es')"
  by (induction es m rule: meta_loop.induct) (auto split: sum.split simp: sbind_def)

lemma meta_reads_append: "meta_reads ds m m1 \<Longrightarrow> meta_reads ds' m1 m2 \<Longrightarrow> meta_reads (ds @ ds') m m2"
  by (auto simp: meta_reads_def map_eq_append_conv meta_loop_append)

lemma meta_reads_Nil: "meta_reads [] m m"
  by (simp add: meta_reads_def)

lemma meta_reads_text:
  "(\<And>l c. meta_entry k (Y_Scalar t l c) m = Inr m') \<Longrightarrow> meta_reads [(k, D_Text t)] m m'"
  by (auto simp: meta_reads_def shape_text)

lemma scalar_entries_read: "map shape ns = map D_Text xs \<Longrightarrow> scalar_entries ctx ns = Inr xs"
  by (induction xs arbitrary: ns) (auto simp: shape_text)

lemma meta_reads_list:
  "(\<And>n. (\<And>ctx. collect_string_list n ctx = Inr xs) \<Longrightarrow> meta_entry k n m = Inr m') \<Longrightarrow>
     (xs = [] \<Longrightarrow> m' = m) \<Longrightarrow> meta_reads (list_entry k xs) m m'"
  by (auto simp: meta_reads_def list_entry_def shape_list scalar_entries_read)

lemma meta_reads_opt:
  "(\<And>t l c. v = Some t \<Longrightarrow> meta_entry k (Y_Scalar t l c) m = Inr m') \<Longrightarrow> (v = None \<Longrightarrow> m' = m) \<Longrightarrow>
     meta_reads (opt_entry k v) m m'"
  by (cases v) (auto simp: opt_entry_def meta_reads_Nil intro: meta_reads_text)

lemma scope_name_trim: "trim (scope_text sc) = scope_text sc"
  by (rule ends_clean; cases sc; (cases "the sc")?) (simp_all add: scope_text_def is_ws_def)

lemma parse_scope_text: "parse_scope_name (scope_text sc) = Inr sc"
  unfolding parse_scope_name_def Let_def scope_name_trim
  by (cases sc; (cases "the sc")?) (simp_all add: scope_text_def)

lemma meta_reads_scopes:
  "meta_reads [(''scopes'', D_Map [(''static'', D_Text (scope_text st)), (''dynamic'', D_Text (scope_text dy))])] m
     (m\<lparr>meta_scopes := \<lparr>static_scope = st, dynamic_scope = dy\<rparr>\<rparr>)"
  by (cases "meta_scopes m") (auto simp: meta_reads_def meta_entry_def shape_map shape_text parse_scope_text)

definition printable_meta :: "rule_meta \<Rightarrow> bool" where
  "printable_meta m \<longleftrightarrow> meta_name m \<noteq> [] \<and> meta_namespace m \<noteq> Some [] \<and>
     \<not> meta_is_subscope_rule m \<and> meta_parent m = None"

lemma meta_read:
  assumes "printable_meta m"
  shows "meta_reads (meta_doc m) (empty_meta (meta_source_path m)) m"
proof -
  obtain n sc ns au at mb ex re de li sub par src where m:
    "m = \<lparr>meta_name = n, meta_scopes = sc, meta_namespace = ns, meta_authors = au, meta_att_and_ck = at,
      meta_mbc = mb, meta_examples = ex, meta_references = re, meta_description = de, meta_lib = li,
      meta_is_subscope_rule = sub, meta_parent = par, meta_source_path = src\<rparr>"
    by (cases m) auto
  define e where "e n sc ns au at mb ex re de li =
    \<lparr>meta_name = n, meta_scopes = sc, meta_namespace = ns, meta_authors = au, meta_att_and_ck = at,
      meta_mbc = mb, meta_examples = ex, meta_references = re, meta_description = de, meta_lib = li,
      meta_is_subscope_rule = False, meta_parent = None, meta_source_path = src\<rparr>"
    for n sc ns au at mb ex re de li
  let ?s0 = "\<lparr>static_scope = None, dynamic_scope = None\<rparr> :: scopes"
  have "meta_reads [(''name'', D_Text n)] (e [] ?s0 None [] [] [] [] [] None False) (e n ?s0 None [] [] [] [] [] None False)"
    by (rule meta_reads_text) (simp add: meta_entry_def e_def)
  moreover have "meta_reads (opt_entry ''namespace'' ns) (e n ?s0 None [] [] [] [] [] None False) (e n ?s0 ns [] [] [] [] [] None False)"
    by (rule meta_reads_opt) (use assms m in \<open>auto simp: meta_entry_def e_def printable_meta_def\<close>)
  moreover have "meta_reads [(''scopes'', D_Map [(''static'', D_Text (scope_text (static_scope sc))), (''dynamic'', D_Text (scope_text (dynamic_scope sc)))])]
      (e n ?s0 ns [] [] [] [] [] None False) (e n sc ns [] [] [] [] [] None False)"
    using meta_reads_scopes [of "static_scope sc" "dynamic_scope sc" "e n ?s0 ns [] [] [] [] [] None False"]
    by (cases sc) (simp add: e_def)
  moreover have "meta_reads (list_entry ''authors'' au) (e n sc ns [] [] [] [] [] None False) (e n sc ns au [] [] [] [] None False)"
    by (rule meta_reads_list) (auto simp: meta_entry_def e_def)
  moreover have "meta_reads (list_entry ''att&ck'' at) (e n sc ns au [] [] [] [] None False) (e n sc ns au at [] [] [] None False)"
    by (rule meta_reads_list) (auto simp: meta_entry_def e_def)
  moreover have "meta_reads (list_entry ''mbc'' mb) (e n sc ns au at [] [] [] None False) (e n sc ns au at mb [] [] None False)"
    by (rule meta_reads_list) (auto simp: meta_entry_def e_def)
  moreover have "meta_reads (list_entry ''examples'' ex) (e n sc ns au at mb [] [] None False) (e n sc ns au at mb ex [] None False)"
    by (rule meta_reads_list) (auto simp: meta_entry_def e_def)
  moreover have "meta_reads (list_entry ''references'' re) (e n sc ns au at mb ex [] None False) (e n sc ns au at mb ex re None False)"
    by (rule meta_reads_list) (auto simp: meta_entry_def e_def)
  moreover have "meta_reads (opt_entry ''description'' de) (e n sc ns au at mb ex re None False) (e n sc ns au at mb ex re de False)"
    by (rule meta_reads_opt) (auto simp: meta_entry_def e_def)
  moreover have "meta_reads [(''lib'', D_Text (if li then ''true'' else ''false''))] (e n sc ns au at mb ex re de False) (e n sc ns au at mb ex re de li)"
    by (rule meta_reads_text) (simp add: meta_entry_def e_def)
  ultimately have "meta_reads (meta_doc m) (e [] ?s0 None [] [] [] [] [] None False) (e n sc ns au at mb ex re de li)"
    unfolding meta_doc_def m rule_meta.simps by (meson meta_reads_append)
  moreover have "e [] ?s0 None [] [] [] [] [] None False = empty_meta (meta_source_path m)"
    by (simp add: e_def empty_meta_def m)
  moreover have "e n sc ns au at mb ex re de li = m"
    using assms by (simp add: e_def m printable_meta_def)
  ultimately show ?thesis by simp
qed

section \<open>Rule files\<close>

definition rule_doc :: "rule \<Rightarrow> doc" where
  "rule_doc r = D_Map [(''rule'', D_Map [(''meta'', D_Map (meta_doc (rule_meta r))),
                                       (''features'', D_List [stmt_doc (rule_statement r)])])]"

definition rule_text :: "rule \<Rightarrow> string" where
  "rule_text r = print_lines (render 0 (rule_doc r))"

lemma or_more_plain: "plain_key (to_decimal n @ or_more)"
  unfolding plain_key_def or_more_def
  by (auto simp: hd_append)

lemma children_doc_ok:
  assumes "list_all (\<lambda>c. case c of None \<Rightarrow> False | Some s \<Rightarrow> printable s) cs"
    and "list_all (\<lambda>c. case c of None \<Rightarrow> False | Some s \<Rightarrow> stmt_fits sc s) cs"
    and "\<And>c s. c \<in> set cs \<Longrightarrow> c = Some s \<Longrightarrow> printable s \<Longrightarrow> stmt_fits sc s \<Longrightarrow> doc_ok (stmt_doc s)"
    and "cs \<noteq> []"
  shows "doc_ok (children_doc cs)"
proof -
  have "doc_ok (case c of None \<Rightarrow> D_Text [] | Some s \<Rightarrow> stmt_doc s)" if c: "c \<in> set cs" for c
  proof (cases c)
    case (Some s)
    then have "printable s" "stmt_fits sc s" using assms(1,2) c by (auto simp: list_all_iff)
    then show ?thesis using assms(3) [OF c Some] Some by simp
  qed simp
  then show ?thesis using assms(4) by (simp add: children_doc_def list_all_iff)
qed

lemma stmt_doc_ok: "printable s \<Longrightarrow> stmt_fits sc s \<Longrightarrow> doc_ok (stmt_doc s)"
proof (induction s arbitrary: sc rule: printable.induct)
  case (1 cs)
  then have "doc_ok (children_doc cs)" by (intro children_doc_ok [of cs sc]) simp_all
  then show ?case by (simp add: children_doc_def plain_key_def)
next
  case (2 cs)
  then have "doc_ok (children_doc cs)" by (intro children_doc_ok [of cs sc]) simp_all
  then show ?case by (simp add: children_doc_def plain_key_def)
next
  case (4 n cs)
  then have "doc_ok (children_doc cs)" by (intro children_doc_ok [of cs sc]) simp_all
  then show ?case by (simp add: children_doc_def or_more_plain)
next
  case (5 f lo hi)
  have "plain_key (count_key FBasicBlock)" by (simp add: count_key_def plain_key_def)
  then show ?case using 5 by auto
next
  case (6 sc' s)
  have "plain_key (scope_to_string sc')" by (cases sc') (simp_all add: plain_key_def)
  then show ?case using 6 by auto
next
  case (7 f)
  then show ?case using feature_key_dispatch(6) by simp
qed (simp add: plain_key_def)

lemma meta_doc_ok: "doc_ok (D_Map (meta_doc m))"
  by (auto simp: meta_doc_def opt_entry_def list_entry_def plain_key_def list_all_iff split: option.splits)

lemma rule_read:
  assumes "rule_fits r" and "meta_namespace (rule_meta r) \<noteq> Some []" and "printable (rule_statement r)"
    and "shape root = rule_doc r"
  shows "parse_root fl root src (meta_source_path (rule_meta r)) = Inr (r\<lparr>rule_definition := src\<rparr>)"
proof -
  let ?m = "rule_meta r" and ?s = "rule_statement r"
  from assms(4) obtain ms l1 c1 item l2 c2 l3 c3 l4 c4 where root:
      "root = Y_Mapping [(''rule'', Y_Mapping [(''meta'', Y_Mapping ms l1 c1), (''features'', Y_Sequence [item] l2 c2)] l3 c3)] l4 c4"
      and ms: "map (map_prod id shape) ms = meta_doc ?m" and item: "shape item = stmt_doc ?s"
    by (auto simp: rule_doc_def shape_map shape_list)
  have "printable_meta ?m" using assms(1,2) by (simp add: printable_meta_def rule_fits_def)
  then have m: "meta_loop ms (empty_meta (meta_source_path ?m)) = Inr ?m"
    using meta_read ms by (simp add: meta_reads_def)
  have "parse_statement_item fl item (rule_scope_of r) = Inr ?s" "\<not> is_inline_description_item item"
    using statement_reads [of "rule_scope_of r" ?s fl] assms(1,3) item by (auto simp: item_reads_def rule_fits_def)
  then have "children_loop fl [item] (rule_scope_of r) = Inr [?s]" by simp
  then show ?thesis
    using m assms(1) unfolding rule_scope_of_def kDefaultStaticScope_def
    by (simp add: parse_root_def root parse_meta_def rule_fits_def Let_def one_or_and_def)
qed

text \<open>
  C22: A rule whose features have a text of their own, written as the text of a rule file nested at
  most 64 deep, is parsed back to the same metadata and the same statement: names, scopes,
  lists and descriptions, operators, counts, subscopes and features of every kind, numbers at
  their 64 bits included.
\<close>

theorem rule_roundtrip:
  assumes "rule_fits r" and "meta_namespace (rule_meta r) \<noteq> Some []" and "printable (rule_statement r)"
    and "height (rule_doc r) \<le> 64"
  shows "rule_parse fl (rule_text r) (meta_source_path (rule_meta r)) = Inr (r\<lparr>rule_definition := rule_text r\<rparr>)"
proof -
  have "doc_ok (rule_doc r)"
    using stmt_doc_ok [OF assms(3), of "rule_scope_of r"] assms(1) meta_doc_ok [of "rule_meta r"]
    by (simp add: rule_doc_def rule_fits_def plain_key_def)
  moreover have "is_block (rule_doc r)" by (simp add: is_block_def rule_doc_def)
  ultimately obtain n where "yaml_parse (rule_text r) = Inr n" "shape n = rule_doc r"
    using document_read assms(4) unfolding rule_text_def by blast
  then show ?thesis using rule_read [OF assms(1-3)] by (simp add: rule_parse_def)
qed

definition printed_rule :: rule where
  "printed_rule =
     \<lparr>rule_meta = (empty_meta ''counts.yml'')\<lparr>meta_name := ''counts: all'', meta_authors := [''a'', ''b''],
        meta_scopes := \<lparr>static_scope = Some kFunction, dynamic_scope = None\<rparr>\<rparr>,
      rule_statement =
        SAnd [Some (SFeature (FNumber (Num_I64 (- 5)))), Some (SNot (SFeature (FBytes [0x4D, 0x5A]))),
              Some (SSome 2 [Some (SRange FBasicBlock 3 kSizeMax), Some (SRange (FApi ''CreateFile'') 0 7)]),
              Some (SSubscope kBasicBlockScope (SFeature (FOperandNumber 1 (Num_U64 0xFFFFFFFFFFFFFFFF))))],
      rule_definition = []\<rparr>"

lemma rule_roundtrip_witness:
  "rule_parse (\<lambda>_. None) (rule_text printed_rule) ''counts.yml'' =
     Inr (printed_rule\<lparr>rule_definition := rule_text printed_rule\<rparr>)"
proof -
  have "split_inline_description ''CreateFile'' = (''CreateFile'', None)" by code_simp
  then have "printable (rule_statement printed_rule)"
    by (simp add: printed_rule_def plain_value_def count_key_def plain_key_def trim_dll_part_def)
  moreover have "rule_fits printed_rule"
    by (simp add: printed_rule_def rule_fits_def rule_scope_of_def empty_meta_def kSizeMax_def
        is_feature_allowed_def is_dynamic_scope_def)
  moreover have "height (rule_doc printed_rule) \<le> 64"
    by (simp add: rule_doc_def printed_rule_def meta_doc_def opt_entry_def list_entry_def empty_meta_def)
  ultimately show ?thesis
    using rule_roundtrip [of printed_rule "\<lambda>_. None"] by (simp add: printed_rule_def empty_meta_def)
qed

section \<open>Negative literals\<close>

text \<open>
  A negative decimal literal is its value when the magnitude is below 2^63 and is rejected when
  it is above; at exactly 2^63, the least 64-bit integer, the negation overflows.
\<close>

theorem negative_literals:
  assumes "n \<le> kSizeMax"
  shows "parse_number fl (dash # to_decimal n) =
    (if n < 2 ^ 63 then Inr (Num_I64 (- of_nat n))
     else if n = 2 ^ 63 then Inl Signed_Overflow
     else Inl (rule_error (''negative magnitude overflows int64: '' @ dash # to_decimal n)))"
proof -
  have "\<not> has_hex_prefix (to_decimal n)" "\<not> has_hex_prefix (dash # to_decimal n)"
    using no_hex_prefix by simp_all
  then show ?thesis using from_chars_decimal [OF assms] by (simp add: parse_number_def)
qed

lemma negative_literals_witness:
  "parse_number (\<lambda>_. None) (dash # to_decimal (2 ^ 63)) = Inl Signed_Overflow"
  using negative_literals [of "2 ^ 63" "\<lambda>_. None"] by (simp add: kSizeMax_def)

text \<open>A characteristic that is refused as a leaf of a scope is accepted there in a count.\<close>

lemma counted_characteristic_unchecked:
  "parse_count fl ''count(characteristic(embedded pe))'' l c (Y_Scalar ''1'' l' c') kInstruction =
     Some (Inr (SRange (FCharacteristic ''embedded pe'') 1 1))"
  "\<exists>e. parse_leaf fl ''characteristic'' [] l c (Y_Scalar ''embedded pe'' l' c') kInstruction = Inl e"
proof -
  have v: "plain_value ''embedded pe''" by (simp add: plain_value_def split_inline_description_def
      find_inline_desc_sep_def trim_def ltrim_def rtrim_ws_def is_ws_def)
  have r: "parse_count_range ''1'' = Inr (1, 1)" by (simp add: parse_count_range_def trim_def ltrim_def
      rtrim_ws_def is_ws_def ends_with_def parse_size_t_def has_hex_prefix_def starts_with_def
      from_chars_u64_def hex_digit_def of_char_def)
  have f: "printable_feature (FCharacteristic ''embedded pe'')" using v by simp
  show "parse_count fl ''count(characteristic(embedded pe))'' l c (Y_Scalar ''1'' l' c') kInstruction =
     Some (Inr (SRange (FCharacteristic ''embedded pe'') 1 1))"
    using count_split [OF f] build_feature_text [OF f, of fl] r
    by (simp add: parse_count_def count_key_def is_feature_allowed_def is_dynamic_scope_def)
  show "\<exists>e. parse_leaf fl ''characteristic'' [] l c (Y_Scalar ''embedded pe'' l' c') kInstruction = Inl e"
    using build_feature_text [OF f, of fl]
    by (simp add: parse_leaf_def check_leaf_scope_def is_feature_allowed_def is_dynamic_scope_def
        is_characteristic_allowed_def kFileOrigin_def)
qed

end
