(* ===== verification/Pe_Image.thy ===== *)
theory Pe_Image
  imports Papa_Prelude
begin

text \<open>
  The parsed image of src/pe/pe_image.cpp and pe_image.h, the packed structures of pe_structs.h
  and the reads of the image.  A relative virtual address is a 64-bit word, as sums with
  addresses from the file may wrap; an offset into the file is a natural number, which the
  code bounds by the length of the buffer before it uses it.
\<close>

section \<open>Little-endian fields\<close>

fun le_nat :: "u8 list \<Rightarrow> nat" where
  "le_nat [] = 0"
| "le_nat (b # bs) = unat b + 256 * le_nat bs"

text \<open>\<open>read_le\<close>: the bytes of a structure of \<open>n\<close> bytes at an offset, when they are all there.\<close>

definition read_le :: "u8 list \<Rightarrow> nat \<Rightarrow> nat \<Rightarrow> u8 list option" where
  "read_le buf off n = (if off > length buf \<or> n > length buf - off then None else Some (take n (drop off buf)))"

definition field8 :: "u8 list \<Rightarrow> nat \<Rightarrow> u8" where
  "field8 bs off = of_nat (le_nat (take 1 (drop off bs)))"

definition field16 :: "u8 list \<Rightarrow> nat \<Rightarrow> u16" where
  "field16 bs off = of_nat (le_nat (take 2 (drop off bs)))"

definition field32 :: "u8 list \<Rightarrow> nat \<Rightarrow> u32" where
  "field32 bs off = of_nat (le_nat (take 4 (drop off bs)))"

definition field64 :: "u8 list \<Rightarrow> nat \<Rightarrow> u64" where
  "field64 bs off = of_nat (le_nat (take 8 (drop off bs)))"

section \<open>Structures of the file\<close>

text \<open>The headers by the fields that are used; the offset of a field is its place in the packed structure.\<close>

definition sizeof_dos_header :: nat where "sizeof_dos_header = 64"
definition e_magic :: "u8 list \<Rightarrow> u16" where "e_magic bs = field16 bs 0"
definition e_lfanew :: "u8 list \<Rightarrow> u32" where "e_lfanew bs = field32 bs 60"

record image_file_header =
  Machine :: u16
  NumberOfSections :: u16
  TimeDateStamp :: u32
  PointerToSymbolTable :: u32
  NumberOfSymbols :: u32
  SizeOfOptionalHeader :: u16
  FileCharacteristics :: u16

definition sizeof_file_header :: nat where "sizeof_file_header = 20"

definition file_header :: "u8 list \<Rightarrow> image_file_header" where
  "file_header bs = \<lparr>Machine = field16 bs 0, NumberOfSections = field16 bs 2, TimeDateStamp = field32 bs 4,
     PointerToSymbolTable = field32 bs 8, NumberOfSymbols = field32 bs 12,
     SizeOfOptionalHeader = field16 bs 16, FileCharacteristics = field16 bs 18\<rparr>"

record image_data_directory =
  VirtualAddress :: u32
  Size :: u32

definition sizeof_data_directory :: nat where "sizeof_data_directory = 8"

definition data_directory :: "u8 list \<Rightarrow> image_data_directory" where
  "data_directory bs = \<lparr>VirtualAddress = field32 bs 0, Size = field32 bs 4\<rparr>"

record image_optional_header =
  AddressOfEntryPoint :: u32
  ImageBase :: u64
  SizeOfImage :: u32
  NumberOfRvaAndSizes :: u32

definition sizeof_optional_header32 :: nat where "sizeof_optional_header32 = 96"

definition optional_header32 :: "u8 list \<Rightarrow> image_optional_header" where
  "optional_header32 bs = \<lparr>AddressOfEntryPoint = field32 bs 16, ImageBase = ucast (field32 bs 28),
     SizeOfImage = field32 bs 56, NumberOfRvaAndSizes = field32 bs 92\<rparr>"

definition sizeof_optional_header64 :: nat where "sizeof_optional_header64 = 112"

definition optional_header64 :: "u8 list \<Rightarrow> image_optional_header" where
  "optional_header64 bs = \<lparr>AddressOfEntryPoint = field32 bs 16, ImageBase = field64 bs 24,
     SizeOfImage = field32 bs 56, NumberOfRvaAndSizes = field32 bs 108\<rparr>"

record image_section_header =
  Name :: "u8 list"
  VirtualSize :: u32
  SecVirtualAddress :: u32
  SizeOfRawData :: u32
  PointerToRawData :: u32
  PointerToRelocations :: u32
  PointerToLinenumbers :: u32
  NumberOfRelocations :: u16
  NumberOfLinenumbers :: u16
  Characteristics :: u32

definition sizeof_section_header :: nat where "sizeof_section_header = 40"

definition section_header :: "u8 list \<Rightarrow> image_section_header" where
  "section_header bs = \<lparr>Name = take 8 bs, VirtualSize = field32 bs 8, SecVirtualAddress = field32 bs 12,
     SizeOfRawData = field32 bs 16, PointerToRawData = field32 bs 20, PointerToRelocations = field32 bs 24,
     PointerToLinenumbers = field32 bs 28, NumberOfRelocations = field16 bs 32,
     NumberOfLinenumbers = field16 bs 34, Characteristics = field32 bs 36\<rparr>"

record image_import_descriptor =
  OriginalFirstThunk :: u32
  ImpName :: u32
  FirstThunk :: u32

definition sizeof_import_descriptor :: nat where "sizeof_import_descriptor = 20"

definition import_descriptor :: "u8 list \<Rightarrow> image_import_descriptor" where
  "import_descriptor bs = \<lparr>OriginalFirstThunk = field32 bs 0, ImpName = field32 bs 12, FirstThunk = field32 bs 16\<rparr>"

record image_delay_import_descriptor =
  DelayName :: u32
  DelayImportAddressTable :: u32
  DelayImportNameTable :: u32

definition sizeof_delay_import_descriptor :: nat where "sizeof_delay_import_descriptor = 32"

definition delay_import_descriptor :: "u8 list \<Rightarrow> image_delay_import_descriptor" where
  "delay_import_descriptor bs = \<lparr>DelayName = field32 bs 4, DelayImportAddressTable = field32 bs 12,
     DelayImportNameTable = field32 bs 16\<rparr>"

record image_export_directory =
  Base :: u32
  NumberOfFunctions :: u32
  NumberOfNames :: u32
  AddressOfFunctions :: u32
  AddressOfNames :: u32
  AddressOfNameOrdinals :: u32

definition sizeof_export_directory :: nat where "sizeof_export_directory = 40"

definition export_directory :: "u8 list \<Rightarrow> image_export_directory" where
  "export_directory bs = \<lparr>Base = field32 bs 16, NumberOfFunctions = field32 bs 20, NumberOfNames = field32 bs 24,
     AddressOfFunctions = field32 bs 28, AddressOfNames = field32 bs 32, AddressOfNameOrdinals = field32 bs 36\<rparr>"

definition sizeof_tls_directory32 :: nat where "sizeof_tls_directory32 = 24"
definition tls_callbacks32 :: "u8 list \<Rightarrow> u64" where "tls_callbacks32 bs = ucast (field32 bs 12)"
definition sizeof_tls_directory64 :: nat where "sizeof_tls_directory64 = 40"
definition tls_callbacks64 :: "u8 list \<Rightarrow> u64" where "tls_callbacks64 bs = field64 bs 24"

section \<open>The parsed image\<close>

record parsed_section =
  sec_name :: string
  sec_virtual_address :: u32
  sec_virtual_size :: u32
  sec_raw_offset :: u32
  sec_raw_size :: u32
  sec_characteristics :: u32

record parsed_import =
  imp_dll :: string
  imp_name :: string
  imp_ordinal :: u32
  imp_iat_va :: u64
  imp_by_ordinal :: bool
  imp_delayed :: bool

record parsed_export =
  exp_name :: string
  exp_ordinal :: u32
  exp_va :: u64
  exp_forwarder :: "string option"

record parsed_relocation =
  rel_rva :: u32
  rel_type :: u16

record pe_image =
  img_buffer :: "u8 list"
  img_machine :: u16
  img_image_base :: u64
  img_entry_point_rva :: u32
  img_size_of_image :: u32
  img_is_64bit :: bool
  img_sections :: "parsed_section list"
  img_imports :: "parsed_import list"
  img_exports :: "parsed_export list"
  img_tls_callbacks :: "u64 list"
  img_relocations :: "parsed_relocation list"

section \<open>Reads\<close>

definition out_of_bounds :: "string \<Rightarrow> failure" where
  "out_of_bounds detail = Papa_Error kOutOfBounds detail"

definition read_at_file_offset :: "pe_image \<Rightarrow> nat \<Rightarrow> nat \<Rightarrow> u8 list expected" where
  "read_at_file_offset img off n =
     (if off > length (img_buffer img) \<or> n > length (img_buffer img) - off
      then Inl (out_of_bounds ''file offset out of range'')
      else Inr (take n (drop off (img_buffer img))))"

definition section_end :: "parsed_section \<Rightarrow> u64" where
  "section_end s = ucast (sec_virtual_address s) + ucast (max (sec_virtual_size s) (sec_raw_size s))"

definition section_contains :: "u64 \<Rightarrow> parsed_section \<Rightarrow> bool" where
  "section_contains rva s \<longleftrightarrow> ucast (sec_virtual_address s) \<le> rva \<and> rva < section_end s"

definition section_containing_rva :: "pe_image \<Rightarrow> u64 \<Rightarrow> parsed_section option" where
  "section_containing_rva img rva = find (section_contains rva) (img_sections img)"

definition section_delta :: "parsed_section \<Rightarrow> u64 \<Rightarrow> u64" where
  "section_delta s rva = rva - ucast (sec_virtual_address s)"

definition kHeaderGuard :: u64 where "kHeaderGuard = 0x1000"

definition rva_to_file_offset :: "pe_image \<Rightarrow> u64 \<Rightarrow> nat option" where
  "rva_to_file_offset img rva =
     (case section_containing_rva img rva of
        Some s \<Rightarrow>
          if section_delta s rva \<ge> ucast (sec_raw_size s) then None
          else Some (unat (sec_raw_offset s) + unat (section_delta s rva))
      | None \<Rightarrow>
          if unat rva < length (img_buffer img) \<and> rva < kHeaderGuard then Some (unat rva) else None)"

definition read_at_rva :: "pe_image \<Rightarrow> u64 \<Rightarrow> nat \<Rightarrow> u8 list expected" where
  "read_at_rva img rva n =
     (case rva_to_file_offset img rva of
        None \<Rightarrow> Inl (out_of_bounds ''rva not mapped'')
      | Some off \<Rightarrow> read_at_file_offset img off n)"

definition readable_bytes_at_rva :: "pe_image \<Rightarrow> u64 \<Rightarrow> nat" where
  "readable_bytes_at_rva img rva =
     (case rva_to_file_offset img rva of
        None \<Rightarrow> 0
      | Some off \<Rightarrow>
          if off \<ge> length (img_buffer img) then 0
          else
            let avail = length (img_buffer img) - off in
            case section_containing_rva img rva of
              None \<Rightarrow> avail
            | Some s \<Rightarrow>
                if section_delta s rva \<ge> ucast (sec_raw_size s) then 0
                else min avail (unat (sec_raw_size s) - unat (section_delta s rva)))"

definition kImageScnMemRead :: u32 where "kImageScnMemRead = 0x40000000"

definition probe_readable :: "pe_image \<Rightarrow> u64 \<Rightarrow> u64 \<Rightarrow> bool" where
  "probe_readable img rva n =
     (case section_containing_rva img rva of
        None \<Rightarrow> False
      | Some s \<Rightarrow>
          if sec_characteristics s AND kImageScnMemRead = 0 then False
          else if n > 0xFFFFFFFFFFFFFFFF - rva then False
          else rva + n \<le> section_end s)"

end
