(* ===== verification/String_Utils.thy ===== *)
theory String_Utils
  imports Papa_Prelude
begin

text \<open>
  The character tests of src/util/string_utils.cpp.
\<close>

definition ascii_lower_byte :: "char \<Rightarrow> char" where
  "ascii_lower_byte c =
     (if 65 \<le> (of_char c :: nat) \<and> (of_char c :: nat) \<le> 90 then char_of ((of_char c :: nat) OR 0x20) else c)"

definition to_lower_ascii :: "string \<Rightarrow> string" where
  "to_lower_ascii s = map ascii_lower_byte s"

definition is_ascii_printable :: "u8 \<Rightarrow> bool" where
  "is_ascii_printable c \<longleftrightarrow> 0x20 \<le> c \<and> c \<le> 0x7E \<or> c = 0x09"

definition text_is_printable :: "string \<Rightarrow> bool" where
  "text_is_printable s = list_all (\<lambda>c. is_ascii_printable (of_char c)) s"

fun utf16le_loop :: "u8 list \<Rightarrow> bool" where
  "utf16le_loop (low # high # bs) \<longleftrightarrow> high = 0 \<and> is_ascii_printable low \<and> utf16le_loop bs"
| "utf16le_loop _ \<longleftrightarrow> True"

definition is_utf16le_printable :: "u8 list \<Rightarrow> bool" where
  "is_utf16le_printable bs \<longleftrightarrow> even (length bs) \<and> utf16le_loop bs"

end
