(* ===== verification/Pe_Parser.thy ===== *)
theory Pe_Parser
  imports Pe_Image Ordinal_Names String_Utils
begin

text \<open>
  The parser of PE files (src/pe/pe_parser.cpp): headers, sections, imports, delay-loaded
  imports, exports, TLS callbacks and base relocations.  A loop of the code that counts up to a
  constant has the rounds that are left as an argument.
\<close>

section \<open>Strings and directories\<close>

definition bad_pe :: "string \<Rightarrow> failure" where
  "bad_pe detail = Papa_Error kBadPe detail"

definition not_pe :: "string \<Rightarrow> failure" where
  "not_pe detail = Papa_Error kNotPe detail"

definition ascii_of :: "u8 \<Rightarrow> char" where
  "ascii_of b = char_of (unat b)"

definition short_name_to_string :: "u8 list \<Rightarrow> string" where
  "short_name_to_string n = map ascii_of (takeWhile (\<lambda>c. c \<noteq> 0) n)"

text \<open>The bytes up to the first zero, of which \<open>left\<close> more may be read.\<close>

fun cstring_loop :: "nat \<Rightarrow> u8 list \<Rightarrow> string expected" where
  "cstring_loop 0 bs = Inl (bad_pe ''string exceeds max length'')"
| "cstring_loop (Suc left) [] = Inl (bad_pe ''unterminated string'')"
| "cstring_loop (Suc left) (b # bs) =
     (if b = 0 then Inr [] else sbind (cstring_loop left bs) (\<lambda>s. Inr (ascii_of b # s)))"

definition kMaxCString :: nat where "kMaxCString = 4096"

definition read_cstring_at_rva :: "pe_image \<Rightarrow> u64 \<Rightarrow> string expected" where
  "read_cstring_at_rva img rva =
     (case rva_to_file_offset img rva of
        None \<Rightarrow> Inl (out_of_bounds ''string rva not mapped'')
      | Some start \<Rightarrow>
          if start \<ge> length (img_buffer img) then Inl (out_of_bounds ''string start past EOF'')
          else cstring_loop kMaxCString (drop start (img_buffer img)))"

definition no_directory :: image_data_directory where
  "no_directory = \<lparr>VirtualAddress = 0, Size = 0\<rparr>"

definition get_data_directory :: "image_data_directory list \<Rightarrow> nat \<Rightarrow> image_data_directory" where
  "get_data_directory dirs idx = (if idx \<ge> length dirs then no_directory else dirs ! idx)"

definition directory_absent :: "image_data_directory \<Rightarrow> bool" where
  "directory_absent dd \<longleftrightarrow> VirtualAddress dd = 0 \<or> Size dd = 0"

text \<open>A structure read out of the bytes at an address.\<close>

definition struct_at :: "pe_image \<Rightarrow> u64 \<Rightarrow> nat \<Rightarrow> string \<Rightarrow> u8 list expected" where
  "struct_at img rva n truncated =
     sbind (read_at_rva img rva n) (\<lambda>bytes.
       case read_le bytes 0 n of None \<Rightarrow> Inl (bad_pe truncated) | Some bs \<Rightarrow> Inr bs)"

section \<open>Imports\<close>

definition kDllExtensions :: "string list" where
  "kDllExtensions = [''.dll'', ''.drv'', ''.so'']"

definition has_suffix :: "string \<Rightarrow> string \<Rightarrow> bool" where
  "has_suffix s ext \<longleftrightarrow> length ext \<le> length s \<and> drop (length s - length ext) s = ext"

definition normalize_dll_name :: "string \<Rightarrow> string" where
  "normalize_dll_name dll =
     (let lower = to_lower_ascii dll in
      case find (has_suffix lower) kDllExtensions of
        None \<Rightarrow> lower
      | Some ext \<Rightarrow> take (length lower - length ext) lower)"

definition thunk_size :: "pe_image \<Rightarrow> nat" where
  "thunk_size img = (if img_is_64bit img then 8 else 4)"

definition pointer_value :: "pe_image \<Rightarrow> u8 list \<Rightarrow> u64" where
  "pointer_value img bs = (if img_is_64bit img then field64 bs 0 else ucast (field32 bs 0))"

definition ordinal_flag :: "pe_image \<Rightarrow> u64" where
  "ordinal_flag img = (if img_is_64bit img then 0x8000000000000000 else 0x80000000)"

definition slot_rva :: "pe_image \<Rightarrow> u32 \<Rightarrow> nat \<Rightarrow> u64" where
  "slot_rva img table slot = ucast table + of_nat (slot * thunk_size img)"

text \<open>The import that a nonzero entry of the lookup table stands for.\<close>

definition import_item :: "pe_image \<Rightarrow> string \<Rightarrow> u32 \<Rightarrow> bool \<Rightarrow> nat \<Rightarrow> u64 \<Rightarrow> parsed_import expected" where
  "import_item img dll iat_rva delayed slot entry =
     (let item = \<lparr>imp_dll = dll, imp_name = [], imp_ordinal = 0,
                  imp_iat_va = img_image_base img + ucast iat_rva + of_nat (slot * thunk_size img),
                  imp_by_ordinal = False, imp_delayed = delayed\<rparr>
      in if entry AND ordinal_flag img \<noteq> 0 then
           let ordinal = ucast (entry AND 0xFFFF) :: u32 in
           case lookup_ordinal_name dll (unat ordinal) of
             None \<Rightarrow> Inr (item\<lparr>imp_ordinal := ordinal, imp_by_ordinal := True\<rparr>)
           | Some name \<Rightarrow> Inr (item\<lparr>imp_ordinal := ordinal, imp_name := name, imp_by_ordinal := False\<rparr>)
         else
           sbind (read_cstring_at_rva img ((entry AND 0x7FFFFFFF) + 2)) (\<lambda>name.
             Inr (item\<lparr>imp_name := name, imp_by_ordinal := False\<rparr>)))"

definition kMaxImportsPerDll :: nat where "kMaxImportsPerDll = 2 ^ 16"

fun import_slots ::
    "pe_image \<Rightarrow> string \<Rightarrow> u32 \<Rightarrow> u32 \<Rightarrow> bool \<Rightarrow> nat \<Rightarrow> nat \<Rightarrow> parsed_import list \<Rightarrow>
     parsed_import list expected" where
  "import_slots img dll ilt iat delayed 0 slot out = Inr out"
| "import_slots img dll ilt iat delayed (Suc left) slot out =
     sbind (struct_at img (slot_rva img ilt slot) (thunk_size img) ''truncated ILT slot'') (\<lambda>bs.
       let entry = pointer_value img bs in
       if entry = 0 then Inr out
       else sbind (import_item img dll iat delayed slot entry) (\<lambda>item.
              import_slots img dll ilt iat delayed left (Suc slot) (out @ [item])))"

definition walk_import_descriptor ::
    "pe_image \<Rightarrow> image_import_descriptor \<Rightarrow> bool \<Rightarrow> parsed_import list \<Rightarrow> parsed_import list expected" where
  "walk_import_descriptor img desc delayed out =
     (if ImpName desc = 0 then Inr out
      else sbind (read_cstring_at_rva img (ucast (ImpName desc))) (\<lambda>dll_name.
        let ilt = (if OriginalFirstThunk desc \<noteq> 0 then OriginalFirstThunk desc else FirstThunk desc) in
        if ilt = 0 then Inl (bad_pe ''import descriptor missing ILT'')
        else import_slots img (normalize_dll_name dll_name) ilt (FirstThunk desc) delayed
               kMaxImportsPerDll 0 out))"

definition kMaxImportDescriptors :: nat where "kMaxImportDescriptors = 2 ^ 14"

fun import_descriptors ::
    "pe_image \<Rightarrow> u32 \<Rightarrow> nat \<Rightarrow> nat \<Rightarrow> parsed_import list \<Rightarrow> parsed_import list expected" where
  "import_descriptors img table 0 i out = Inr out"
| "import_descriptors img table (Suc left) i out =
     sbind (struct_at img (ucast table + of_nat (i * sizeof_import_descriptor))
              sizeof_import_descriptor ''truncated import descriptor'') (\<lambda>bs.
       let desc = import_descriptor bs in
       if OriginalFirstThunk desc = 0 \<and> FirstThunk desc = 0 \<and> ImpName desc = 0 then Inr out
       else sbind (walk_import_descriptor img desc False out) (\<lambda>out'.
              import_descriptors img table left (Suc i) out'))"

definition parse_imports :: "pe_image \<Rightarrow> image_data_directory list \<Rightarrow> parsed_import list expected" where
  "parse_imports img dirs =
     (let dd = get_data_directory dirs 1 in
      if directory_absent dd then Inr []
      else import_descriptors img (VirtualAddress dd) kMaxImportDescriptors 0 [])"

fun delay_descriptors ::
    "pe_image \<Rightarrow> u32 \<Rightarrow> nat \<Rightarrow> nat \<Rightarrow> parsed_import list \<Rightarrow> parsed_import list expected" where
  "delay_descriptors img table 0 i out = Inr out"
| "delay_descriptors img table (Suc left) i out =
     sbind (struct_at img (ucast table + of_nat (i * sizeof_delay_import_descriptor))
              sizeof_delay_import_descriptor ''truncated delay import'') (\<lambda>bs.
       let desc = delay_import_descriptor bs in
       if DelayName desc = 0 \<and> DelayImportAddressTable desc = 0 then Inr out
       else if DelayName desc = 0 then delay_descriptors img table left (Suc i) out
       else sbind (walk_import_descriptor img
                     \<lparr>OriginalFirstThunk = DelayImportNameTable desc, ImpName = DelayName desc,
                      FirstThunk = DelayImportAddressTable desc\<rparr> True out) (\<lambda>out'.
              delay_descriptors img table left (Suc i) out'))"

definition parse_delay_imports :: "pe_image \<Rightarrow> image_data_directory list \<Rightarrow> parsed_import list expected" where
  "parse_delay_imports img dirs =
     (let dd = get_data_directory dirs 13 in
      if directory_absent dd then Inr []
      else delay_descriptors img (VirtualAddress dd) kMaxImportDescriptors 0 [])"

section \<open>Exports\<close>

definition kMaxExportsPerImage :: nat where "kMaxExportsPerImage = 2 ^ 20"

text \<open>A count of the export directory, cut to the entries of the table that are in the file.\<close>

definition clamped_count :: "pe_image \<Rightarrow> u32 \<Rightarrow> u32 \<Rightarrow> nat" where
  "clamped_count img count table =
     min (min (unat count) (readable_bytes_at_rva img (ucast table) div 4)) kMaxExportsPerImage"

definition table_rva :: "u32 \<Rightarrow> nat \<Rightarrow> nat \<Rightarrow> u64" where
  "table_rva table i width = ucast table + of_nat (i * width)"

text \<open>The name of function number \<open>i\<close> of the name table, put at the index it is for.\<close>

definition name_entry :: "pe_image \<Rightarrow> image_export_directory \<Rightarrow> nat \<Rightarrow> string list \<Rightarrow> string list" where
  "name_entry img edir i names =
     (case (read_at_rva img (table_rva (AddressOfNames edir) i 4) 4,
            read_at_rva img (table_rva (AddressOfNameOrdinals edir) i 2) 2) of
        (Inr name_rva_bytes, Inr ord_bytes) \<Rightarrow>
          let func_idx = unat (field16 ord_bytes 0) in
          if func_idx \<ge> length names then names
          else (case read_cstring_at_rva img (ucast (field32 name_rva_bytes 0)) of
                  Inl e \<Rightarrow> names
                | Inr s \<Rightarrow> names[func_idx := s])
      | _ \<Rightarrow> names)"

definition name_table :: "pe_image \<Rightarrow> image_export_directory \<Rightarrow> nat \<Rightarrow> nat \<Rightarrow> string list" where
  "name_table img edir name_count func_count =
     fold (name_entry img edir) [0..<name_count] (replicate func_count [])"

definition export_entry ::
    "pe_image \<Rightarrow> image_data_directory \<Rightarrow> image_export_directory \<Rightarrow> string list \<Rightarrow> nat \<Rightarrow> parsed_export list" where
  "export_entry img dd edir names i =
     (case read_at_rva img (table_rva (AddressOfFunctions edir) i 4) 4 of
        Inl e \<Rightarrow> []
      | Inr func_bytes \<Rightarrow>
          let func_rva = field32 func_bytes 0;
              exported = \<lparr>exp_name = names ! i, exp_ordinal = Base edir + of_nat i,
                          exp_va = img_image_base img + ucast func_rva, exp_forwarder = None\<rparr>
          in if func_rva = 0 then []
             else if func_rva \<ge> VirtualAddress dd \<and>
                     (ucast func_rva :: u64) < ucast (VirtualAddress dd) + ucast (Size dd)
             then (case read_cstring_at_rva img (ucast func_rva) of
                     Inl e \<Rightarrow> [exported]
                   | Inr fwd \<Rightarrow> [exported\<lparr>exp_forwarder := Some fwd, exp_va := 0\<rparr>])
             else [exported])"

definition parse_exports :: "pe_image \<Rightarrow> image_data_directory list \<Rightarrow> parsed_export list expected" where
  "parse_exports img dirs =
     (let dd = get_data_directory dirs 0 in
      if directory_absent dd then Inr []
      else sbind (struct_at img (ucast (VirtualAddress dd)) sizeof_export_directory ''truncated export directory'')
        (\<lambda>bs.
          let edir = export_directory bs;
              func_count = clamped_count img (NumberOfFunctions edir) (AddressOfFunctions edir);
              name_count = clamped_count img (NumberOfNames edir) (AddressOfNames edir)
          in Inr (concat (map (export_entry img dd edir (name_table img edir name_count func_count))
                    [0..<func_count]))))"

section \<open>TLS callbacks\<close>

fun callback_slots :: "pe_image \<Rightarrow> u64 \<Rightarrow> nat \<Rightarrow> nat \<Rightarrow> u64 list" where
  "callback_slots img table 0 i = []"
| "callback_slots img table (Suc left) i =
     (case read_at_rva img (table + of_nat (i * thunk_size img)) (thunk_size img) of
        Inl e \<Rightarrow> []
      | Inr bs \<Rightarrow>
          let cb = pointer_value img bs in
          if cb = 0 then [] else cb # callback_slots img table left (Suc i))"

definition parse_tls_callbacks :: "pe_image \<Rightarrow> image_data_directory list \<Rightarrow> u64 list expected" where
  "parse_tls_callbacks img dirs =
     (let dd = get_data_directory dirs 9 in
      if directory_absent dd then Inr []
      else sbind
        (if img_is_64bit img
         then sbind (struct_at img (ucast (VirtualAddress dd)) sizeof_tls_directory64 ''truncated tls64'')
                (\<lambda>bs. Inr (tls_callbacks64 bs))
         else sbind (struct_at img (ucast (VirtualAddress dd)) sizeof_tls_directory32 ''truncated tls32'')
                (\<lambda>bs. Inr (tls_callbacks32 bs)))
        (\<lambda>callbacks_va.
          if callbacks_va = 0 \<or> callbacks_va < img_image_base img then Inr []
          else Inr (callback_slots img (callbacks_va - img_image_base img) 256 0)))"

section \<open>Relocations\<close>

definition kMaxRelocations :: nat where "kMaxRelocations = 2 ^ 24"

text \<open>The entries of a block from \<open>roff\<close> on, as long as two bytes are left of it; the flag says that the cap was met.\<close>

function reloc_entries ::
    "u8 list \<Rightarrow> u32 \<Rightarrow> nat \<Rightarrow> nat \<Rightarrow> parsed_relocation list \<Rightarrow> parsed_relocation list \<times> bool" where
  "reloc_entries bytes page_rva roff body_end out =
     (if \<not> roff + 2 \<le> body_end then (out, False)
      else case read_le bytes roff 2 of
             None \<Rightarrow> (out, False)
           | Some bs \<Rightarrow>
               if length out \<ge> kMaxRelocations then (out, True)
               else
                 let entry = field16 bs 0 in
                 reloc_entries bytes page_rva (roff + 2) body_end
                   (out @ [\<lparr>rel_rva = page_rva + ucast (entry AND 0x0FFF), rel_type = drop_bit 12 entry\<rparr>]))"
  by pat_completeness auto
termination
  by (relation "measure (\<lambda>(_, _, roff, body_end, _). body_end - roff)") auto

declare reloc_entries.simps [simp del]

function reloc_blocks :: "u8 list \<Rightarrow> nat \<Rightarrow> parsed_relocation list \<Rightarrow> parsed_relocation list" where
  "reloc_blocks bytes pos out =
     (if pos \<ge> length bytes \<or> length bytes - pos < 8 then out
      else
        let page_rva = field32 bytes pos; chunk_size = unat (field32 bytes (pos + 4)) in
        if chunk_size = 0 \<or> chunk_size > length bytes - pos \<or> chunk_size < 8 then out
        else case reloc_entries bytes page_rva (pos + 8) (pos + chunk_size) out of
               (out', full) \<Rightarrow> if full then out' else reloc_blocks bytes (pos + chunk_size) out')"
  by pat_completeness auto
termination
  by (relation "measure (\<lambda>(bytes, pos, _). length bytes - pos)") auto

declare reloc_blocks.simps [simp del]

definition parse_relocations :: "pe_image \<Rightarrow> image_data_directory list \<Rightarrow> parsed_relocation list" where
  "parse_relocations img dirs =
     (let dd = get_data_directory dirs 5; rva = ucast (VirtualAddress dd) :: u64 in
      if directory_absent dd then []
      else
        let avail = (case section_containing_rva img rva of
                       None \<Rightarrow> unat (Size dd)
                     | Some s \<Rightarrow>
                         min (unat (Size dd)) (unat (sec_raw_size s) - unat (section_delta s rva)))
        in case read_at_rva img rva avail of
             Inl e \<Rightarrow> []
           | Inr bytes \<Rightarrow> reloc_blocks bytes 0 [])"

section \<open>The headers\<close>

definition kMaxSectionsPerImage :: nat where "kMaxSectionsPerImage = 2 ^ 12"

text \<open>The rows of a table of structures; \<open>truncated\<close> is reported when one is not all there.\<close>

fun read_rows :: "u8 list \<Rightarrow> nat \<Rightarrow> nat \<Rightarrow> nat \<Rightarrow> string \<Rightarrow> u8 list list expected" where
  "read_rows buf off width 0 truncated = Inr []"
| "read_rows buf off width (Suc n) truncated =
     (case read_le buf off width of
        None \<Rightarrow> Inl (bad_pe truncated)
      | Some bs \<Rightarrow> sbind (read_rows buf (off + width) width n truncated) (\<lambda>rows. Inr (bs # rows)))"

definition parsed_section_of :: "image_section_header \<Rightarrow> parsed_section" where
  "parsed_section_of sh =
     \<lparr>sec_name = short_name_to_string (Name sh), sec_virtual_address = SecVirtualAddress sh,
      sec_virtual_size = VirtualSize sh, sec_raw_offset = PointerToRawData sh,
      sec_raw_size = SizeOfRawData sh, sec_characteristics = Characteristics sh\<rparr>"

definition or_else :: "failure \<Rightarrow> 'a option \<Rightarrow> 'a expected" where
  "or_else e v = (case v of None \<Rightarrow> Inl e | Some x \<Rightarrow> Inr x)"

text \<open>Whether the image is 64-bit, its optional header, and where the data directories begin.\<close>

definition read_optional_header :: "u8 list \<Rightarrow> nat \<Rightarrow> (bool \<times> image_optional_header \<times> nat) expected" where
  "read_optional_header buf opt_off =
     sbind (or_else (bad_pe ''optional header truncated'') (read_le buf opt_off 2)) (\<lambda>m.
       if field16 m 0 = 0x10B then
         sbind (or_else (bad_pe ''PE32 optional header truncated'') (read_le buf opt_off sizeof_optional_header32))
           (\<lambda>bs. Inr (False, optional_header32 bs, opt_off + sizeof_optional_header32))
       else if field16 m 0 = 0x20B then
         sbind (or_else (bad_pe ''PE32+ optional header truncated'') (read_le buf opt_off sizeof_optional_header64))
           (\<lambda>bs. Inr (True, optional_header64 bs, opt_off + sizeof_optional_header64))
       else Inl (bad_pe ''unknown optional header magic''))"

text \<open>The image with its sections, and its data directories.\<close>

definition parse_headers :: "u8 list \<Rightarrow> (pe_image \<times> image_data_directory list) expected" where
  "parse_headers buf =
     sbind (or_else (not_pe ''buffer too small for DOS header'') (read_le buf 0 sizeof_dos_header)) (\<lambda>dos.
     if e_magic dos \<noteq> 0x5A4D then Inl (not_pe ''missing MZ signature'')
     else if sint (e_lfanew dos) < 0 \<or> unat (e_lfanew dos) \<ge> length buf
     then Inl (bad_pe ''e_lfanew out of range'')
     else
       let nt_off = unat (e_lfanew dos) in
       sbind (or_else (bad_pe ''NT header truncated'') (read_le buf nt_off 4)) (\<lambda>nt_sig.
       if field32 nt_sig 0 \<noteq> 0x4550 then Inl (not_pe ''missing PE signature'')
       else
         sbind (or_else (bad_pe ''file header truncated'') (read_le buf (nt_off + 4) sizeof_file_header)) (\<lambda>fhb.
         sbind (read_optional_header buf (nt_off + 4 + sizeof_file_header)) (\<lambda>(is_64, oh, dir_off).
           let fh = file_header fhb; num_dirs = min (unat (NumberOfRvaAndSizes oh)) 16 in
           sbind (read_rows buf dir_off sizeof_data_directory num_dirs ''data directory truncated'') (\<lambda>dirs.
           sbind (read_rows buf (dir_off + num_dirs * sizeof_data_directory) sizeof_section_header
                    (min (unat (NumberOfSections fh)) kMaxSectionsPerImage) ''section header truncated'') (\<lambda>secs.
             Inr (\<lparr>img_buffer = buf, img_machine = Machine fh, img_image_base = ImageBase oh,
                    img_entry_point_rva = AddressOfEntryPoint oh, img_size_of_image = SizeOfImage oh,
                    img_is_64bit = is_64, img_sections = map (\<lambda>b. parsed_section_of (section_header b)) secs,
                    img_imports = [], img_exports = [], img_tls_callbacks = [], img_relocations = []\<rparr>,
                  map data_directory dirs)))))))"

definition pe_parse :: "u8 list \<Rightarrow> pe_image expected" where
  "pe_parse buf =
     sbind (parse_headers buf) (\<lambda>(img, dirs).
     sbind (parse_imports img dirs) (\<lambda>imports.
     sbind (parse_delay_imports (img\<lparr>img_imports := imports\<rparr>) dirs) (\<lambda>delayed.
     sbind (parse_exports (img\<lparr>img_imports := imports @ delayed\<rparr>) dirs) (\<lambda>exports.
     sbind (parse_tls_callbacks (img\<lparr>img_imports := imports @ delayed, img_exports := exports\<rparr>) dirs)
       (\<lambda>callbacks.
         let img' = img\<lparr>img_imports := imports @ delayed, img_exports := exports, img_tls_callbacks := callbacks\<rparr>
         in Inr (img'\<lparr>img_relocations := parse_relocations img' dirs\<rparr>))))))"

end
