(* ===== verification/Pe_Correct.thy ===== *)
theory Pe_Correct
  imports Pe_Parser
begin

text \<open>
  What the PE parser promises: headers and relocation blocks written as bytes are parsed back,
  the walk over a lookup table gives one import per entry up to the first zero, reads of a
  mapped range are the bytes of its section, and no file makes a table of the image outgrow the
  cap the code states.
\<close>

section \<open>Little-endian encodings\<close>

fun le_encode :: "nat \<Rightarrow> nat \<Rightarrow> u8 list" where
  "le_encode 0 v = []"
| "le_encode (Suc n) v = of_nat v # le_encode n (v div 256)"

lemma length_le_encode [simp]: "length (le_encode n v) = n"
  by (induction n arbitrary: v) auto

lemma le_nat_encode: "v < 256 ^ n \<Longrightarrow> le_nat (le_encode n v) = v"
proof (induction n arbitrary: v)
  case (Suc n)
  then have "v div 256 < 256 ^ n" by (simp add: less_mult_imp_div_less mult.commute)
  with Suc.IH show ?case by (simp add: unat_of_nat)
qed simp

definition enc16 :: "u16 \<Rightarrow> u8 list" where "enc16 v = le_encode 2 (unat v)"
definition enc32 :: "u32 \<Rightarrow> u8 list" where "enc32 v = le_encode 4 (unat v)"
definition enc64 :: "u64 \<Rightarrow> u8 list" where "enc64 v = le_encode 8 (unat v)"

lemma length_enc [simp]: "length (enc16 a) = 2" "length (enc32 b) = 4" "length (enc64 c) = 8"
  by (simp_all add: enc16_def enc32_def enc64_def)

lemma field_at:
  "drop off bs = enc16 a @ r \<Longrightarrow> field16 bs off = a"
  "drop off bs = enc32 b @ r \<Longrightarrow> field32 bs off = b"
  "drop off bs = enc64 c @ r \<Longrightarrow> field64 bs off = c"
proof -
  have *: "unat a < 256 ^ 2" "unat b < 256 ^ 4" "unat c < 256 ^ 8"
    by (rule order.strict_trans2 [OF unsigned_less], simp)+
  show "drop off bs = enc16 a @ r \<Longrightarrow> field16 bs off = a"
    "drop off bs = enc32 b @ r \<Longrightarrow> field32 bs off = b"
    "drop off bs = enc64 c @ r \<Longrightarrow> field64 bs off = c"
    unfolding field16_def field32_def field64_def enc16_def enc32_def enc64_def
    by (simp_all add: le_nat_encode [OF *(1)] le_nat_encode [OF *(2)] le_nat_encode [OF *(3)])
qed

lemma read_le_append:
  "off = length a \<Longrightarrow> n = length b \<Longrightarrow> read_le (a @ b @ c) off n = Some b"
  by (simp add: read_le_def)

lemma field_of_take:
  "off + 2 \<le> n \<Longrightarrow> field16 (take n bs) off = field16 bs off"
  "off + 4 \<le> n \<Longrightarrow> field32 (take n bs) off = field32 bs off"
  by (simp_all add: field16_def field32_def drop_take min_def)

text \<open>Fields of a concatenation of parts of known length.\<close>

lemma field_of_append [simp]:
  "field16 (enc16 a @ r) 0 = a"
  "field32 (enc32 b @ r) 0 = b"
  "field64 (enc64 c @ r) 0 = c"
  "length p \<le> off \<Longrightarrow> field16 (p @ r) off = field16 r (off - length p)"
  "length p \<le> off \<Longrightarrow> field32 (p @ r) off = field32 r (off - length p)"
  "length p \<le> off \<Longrightarrow> field64 (p @ r) off = field64 r (off - length p)"
proof -
  show "field16 (enc16 a @ r) 0 = a" "field32 (enc32 b @ r) 0 = b" "field64 (enc64 c @ r) 0 = c"
    by (rule field_at, simp)+
qed (simp_all add: field16_def field32_def field64_def)

lemma field_alone [simp]:
  "field16 (enc16 a) 0 = a" "field32 (enc32 b) 0 = b" "field64 (enc64 c) 0 = c"
  by (rule field_at [where r = "[]"], simp)+

section \<open>Headers as bytes\<close>

text \<open>\<open>pad f off n\<close> stands for fields the parser does not look at, of any content \<open>f\<close>.\<close>

definition pad :: "(nat \<Rightarrow> u8) \<Rightarrow> nat \<Rightarrow> nat \<Rightarrow> u8 list" where
  "pad f off n = map f [off..<off + n]"

lemma length_pad [simp]: "length (pad f off n) = n"
  by (simp add: pad_def)

definition dos_bytes :: "(nat \<Rightarrow> u8) \<Rightarrow> u32 \<Rightarrow> u8 list" where
  "dos_bytes f lfanew = enc16 0x5A4D @ pad f 2 58 @ enc32 lfanew"

definition file_header_bytes :: "image_file_header \<Rightarrow> u8 list" where
  "file_header_bytes fh = enc16 (Machine fh) @ enc16 (NumberOfSections fh) @ enc32 (TimeDateStamp fh) @
     enc32 (PointerToSymbolTable fh) @ enc32 (NumberOfSymbols fh) @ enc16 (SizeOfOptionalHeader fh) @
     enc16 (FileCharacteristics fh)"

definition optional_bytes :: "(nat \<Rightarrow> u8) \<Rightarrow> bool \<Rightarrow> image_optional_header \<Rightarrow> u8 list" where
  "optional_bytes f is_64 oh =
     (if is_64
      then enc16 0x20B @ pad f 2 14 @ enc32 (AddressOfEntryPoint oh) @ pad f 20 4 @ enc64 (ImageBase oh) @
           pad f 32 24 @ enc32 (SizeOfImage oh) @ pad f 60 48 @ enc32 (NumberOfRvaAndSizes oh)
      else enc16 0x10B @ pad f 2 14 @ enc32 (AddressOfEntryPoint oh) @ pad f 20 8 @
           enc32 (ucast (ImageBase oh)) @ pad f 32 24 @ enc32 (SizeOfImage oh) @ pad f 60 32 @
           enc32 (NumberOfRvaAndSizes oh))"

definition directory_bytes :: "image_data_directory \<Rightarrow> u8 list" where
  "directory_bytes dd = enc32 (VirtualAddress dd) @ enc32 (Size dd)"

definition section_bytes :: "image_section_header \<Rightarrow> u8 list" where
  "section_bytes sh = Name sh @ enc32 (VirtualSize sh) @ enc32 (SecVirtualAddress sh) @
     enc32 (SizeOfRawData sh) @ enc32 (PointerToRawData sh) @ enc32 (PointerToRelocations sh) @
     enc32 (PointerToLinenumbers sh) @ enc16 (NumberOfRelocations sh) @ enc16 (NumberOfLinenumbers sh) @
     enc32 (Characteristics sh)"

lemma header_lengths [simp]:
  "length (dos_bytes f lfanew) = 64" "length (file_header_bytes fh) = 20"
  "length (optional_bytes f is_64 oh) = (if is_64 then 112 else 96)"
  "length (directory_bytes dd) = 8"
  "length (section_bytes sh) = length (Name sh) + 32"
  by (simp_all add: dos_bytes_def file_header_bytes_def optional_bytes_def directory_bytes_def section_bytes_def)

lemma file_header_read [simp]: "file_header (file_header_bytes fh) = fh"
  by (simp add: file_header_def file_header_bytes_def)

lemma directory_read [simp]: "data_directory (directory_bytes dd) = dd"
  by (simp add: data_directory_def directory_bytes_def)

lemma section_read [simp]: "length (Name sh) = 8 \<Longrightarrow> section_header (section_bytes sh) = sh"
  by (simp add: section_header_def section_bytes_def)

lemma optional_read32:
  assumes "unat (ImageBase oh) < 2 ^ 32"
  shows "optional_header32 (optional_bytes f False oh) = oh"
proof -
  have "take_bit 32 (ImageBase oh) = ImageBase oh"
    using assms by (simp add: word_unat_eq_iff unsigned_take_bit_eq take_bit_nat_eq_self)
  then show ?thesis by (simp add: optional_header32_def optional_bytes_def unsigned_ucast_eq)
qed

lemma optional_read64: "optional_header64 (optional_bytes f True oh) = oh"
  by (simp add: optional_header64_def optional_bytes_def)

lemma dos_read [simp]: "e_magic (dos_bytes f lfanew) = 0x5A4D" "e_lfanew (dos_bytes f lfanew) = lfanew"
  by (simp_all add: e_magic_def e_lfanew_def dos_bytes_def)

section \<open>The headers are parsed back\<close>

lemma read_rows_concat:
  assumes "\<forall>b\<in>set bs. length b = w" "off = length a"
  shows "read_rows (a @ concat bs @ c) off w (length bs) e = Inr bs"
  using assms
proof (induction bs arbitrary: a off)
  case (Cons b bs)
  have "read_rows ((a @ b) @ concat bs @ c) (off + w) w (length bs) e = Inr bs"
    using Cons.prems by (intro Cons.IH) auto
  moreover have "read_le (a @ b @ concat bs @ c) off w = Some b"
    using Cons.prems by (intro read_le_append) auto
  ultimately show ?case by simp
qed simp

text \<open>A file: DOS header, stub, signature, the headers, the directories, the section table, the rest.\<close>

definition pe_bytes ::
    "(nat \<Rightarrow> u8) \<Rightarrow> u8 list \<Rightarrow> image_file_header \<Rightarrow> bool \<Rightarrow> image_optional_header \<Rightarrow>
     image_data_directory list \<Rightarrow> image_section_header list \<Rightarrow> u8 list \<Rightarrow> u8 list" where
  "pe_bytes f stub fh is_64 oh dirs secs rest =
     dos_bytes f (of_nat (64 + length stub)) @ stub @ enc32 0x4550 @ file_header_bytes fh @
     optional_bytes f is_64 oh @ concat (map directory_bytes dirs) @ concat (map section_bytes secs) @ rest"

definition bare_image ::
    "u8 list \<Rightarrow> image_file_header \<Rightarrow> bool \<Rightarrow> image_optional_header \<Rightarrow> image_section_header list \<Rightarrow> pe_image" where
  "bare_image buf fh is_64 oh secs =
     \<lparr>img_buffer = buf, img_machine = Machine fh, img_image_base = ImageBase oh,
      img_entry_point_rva = AddressOfEntryPoint oh, img_size_of_image = SizeOfImage oh,
      img_is_64bit = is_64, img_sections = map parsed_section_of secs,
      img_imports = [], img_exports = [], img_tls_callbacks = [], img_relocations = []\<rparr>"

definition headers_fit ::
    "image_file_header \<Rightarrow> bool \<Rightarrow> image_optional_header \<Rightarrow> image_data_directory list \<Rightarrow>
     image_section_header list \<Rightarrow> bool" where
  "headers_fit fh is_64 oh dirs secs \<longleftrightarrow>
     length dirs = min (unat (NumberOfRvaAndSizes oh)) 16 \<and>
     length secs = min (unat (NumberOfSections fh)) kMaxSectionsPerImage \<and>
     (\<forall>s\<in>set secs. length (Name s) = 8) \<and> (\<not> is_64 \<longrightarrow> unat (ImageBase oh) < 2 ^ 32)"

lemma optional_header_read:
  assumes "length p = off" "\<not> is_64 \<longrightarrow> unat (ImageBase oh) < 2 ^ 32"
  shows "read_optional_header (p @ optional_bytes f is_64 oh @ r) off =
         Inr (is_64, oh, off + (if is_64 then 112 else 96))"
proof -
  let ?o = "optional_bytes f is_64 oh"
  have m: "read_le (p @ ?o @ r) off 2 = Some (take 2 ?o)" for r
    using assms by (simp add: read_le_def)
  have "field16 (take 2 ?o) 0 = (if is_64 then 0x20B else 0x10B)"
    by (simp add: optional_bytes_def)
  moreover have "read_le (p @ ?o @ r) off (length ?o) = Some ?o"
    using assms by (intro read_le_append) auto
  ultimately show ?thesis
    using assms(2) m
    by (cases is_64)
      (simp_all add: read_optional_header_def or_else_def sizeof_optional_header32_def
        sizeof_optional_header64_def optional_read32 optional_read64)
qed

lemma small_lfanew:
  assumes "n < 2 ^ 31"
  shows "unat (of_nat n :: u32) = n" "\<not> sint (of_nat n :: u32) < 0"
proof -
  show *: "unat (of_nat n :: u32) = n" using assms by (simp add: unat_of_nat)
  have "signed_take_bit 31 (int n) = int n"
    using assms by (intro signed_take_bit_int_eq_self) auto
  then show "\<not> sint (of_nat n :: u32) < 0"
    by (simp add: signed_of_nat)
qed

lemma headers_parsed:
  assumes fit: "headers_fit fh is_64 oh dirs secs" and stub: "64 + length stub < 2 ^ 31"
    and buf: "buf = pe_bytes f stub fh is_64 oh dirs secs rest"
  shows "parse_headers buf = Inr (bare_image buf fh is_64 oh secs, dirs)"
proof -
  let ?nt = "64 + length stub" and ?n = "if is_64 then 112 else 96 :: nat"
  let ?dos = "dos_bytes f (of_nat ?nt)" and ?o = "optional_bytes f is_64 oh"
  let ?d = "map directory_bytes dirs" and ?s = "map section_bytes secs"
  note fit' = fit [unfolded headers_fit_def]
  have len: "length buf \<ge> ?nt + 24" by (simp add: buf pe_bytes_def)
  have r0: "read_le buf 0 sizeof_dos_header = Some ?dos"
    using read_le_append [of 0 "[]" 64 ?dos] by (simp add: buf pe_bytes_def sizeof_dos_header_def)
  have r1: "read_le buf ?nt 4 = Some (enc32 0x4550)"
    using read_le_append [of ?nt "?dos @ stub" 4 "enc32 0x4550"] by (simp add: buf pe_bytes_def)
  have r2: "read_le buf (?nt + 4) sizeof_file_header = Some (file_header_bytes fh)"
    using read_le_append [of "?nt + 4" "?dos @ stub @ enc32 0x4550" 20 "file_header_bytes fh"]
    by (simp add: buf pe_bytes_def sizeof_file_header_def)
  have r3: "read_optional_header buf (?nt + 4 + sizeof_file_header) = Inr (is_64, oh, ?nt + 24 + ?n)"
    using optional_header_read [of "?dos @ stub @ enc32 0x4550 @ file_header_bytes fh" "?nt + 24" is_64 oh f] fit'
    by (simp add: buf pe_bytes_def sizeof_file_header_def)
  have r4: "read_rows buf (?nt + 24 + ?n) sizeof_data_directory (min (unat (NumberOfRvaAndSizes oh)) 16) e = Inr ?d" for e
    using read_rows_concat [of ?d 8 "?nt + 24 + ?n"
        "?dos @ stub @ enc32 0x4550 @ file_header_bytes fh @ ?o"] fit'
    by (simp add: buf pe_bytes_def sizeof_data_directory_def)
  have r5: "read_rows buf (?nt + 24 + ?n + length dirs * sizeof_data_directory) sizeof_section_header
              (length secs) e = Inr ?s" for e
    using read_rows_concat [of ?s 40 "?nt + 24 + ?n + length dirs * 8"
        "?dos @ stub @ enc32 0x4550 @ file_header_bytes fh @ ?o @ concat ?d"] fit'
    by (simp add: buf pe_bytes_def sizeof_data_directory_def sizeof_section_header_def
        length_concat comp_def sum_list_triv)
  have secs: "map (\<lambda>b. parsed_section_of (section_header b)) ?s = map parsed_section_of secs"
    using fit' by simp
  show ?thesis
    using r0 r1 r2 r3 r4 r5 secs len fit' small_lfanew [OF stub]
    by (simp add: parse_headers_def or_else_def bare_image_def comp_def Let_def)
qed

lemma directories_absent:
  assumes "\<forall>dd\<in>set dirs. directory_absent dd"
  shows "parse_imports img dirs = Inr []" "parse_delay_imports img dirs = Inr []"
    "parse_exports img dirs = Inr []" "parse_tls_callbacks img dirs = Inr []"
    "parse_relocations img dirs = []"
proof -
  have "directory_absent (get_data_directory dirs i)" for i
    using assms by (simp add: get_data_directory_def no_directory_def directory_absent_def)
  then show "parse_imports img dirs = Inr []" "parse_delay_imports img dirs = Inr []"
    "parse_exports img dirs = Inr []" "parse_tls_callbacks img dirs = Inr []"
    "parse_relocations img dirs = []"
    by (simp_all add: parse_imports_def parse_delay_imports_def parse_exports_def
        parse_tls_callbacks_def parse_relocations_def)
qed

section \<open>Relocation blocks\<close>

text \<open>A block: its page, and the offset and type of each entry.\<close>

type_synonym reloc_block = "u32 \<times> (u16 \<times> u16) list"

definition reloc_bytes :: "reloc_block \<Rightarrow> u8 list" where
  "reloc_bytes b =
     enc32 (fst b) @ enc32 (of_nat (8 + 2 * length (snd b))) @
     concat (map (\<lambda>(offset, rtype). enc16 (push_bit 12 rtype OR offset)) (snd b))"

definition block_relocs :: "reloc_block \<Rightarrow> parsed_relocation list" where
  "block_relocs b = map (\<lambda>(offset, rtype). \<lparr>rel_rva = fst b + ucast offset, rel_type = rtype\<rparr>) (snd b)"

definition block_ok :: "reloc_block \<Rightarrow> bool" where
  "block_ok b \<longleftrightarrow> 8 + 2 * length (snd b) < 2 ^ 32 \<and> (\<forall>(offset, rtype)\<in>set (snd b). offset < 0x1000 \<and> rtype < 16)"

lemma length_reloc_bytes: "length (reloc_bytes b) = 8 + 2 * length (snd b)"
  by (simp add: reloc_bytes_def length_concat comp_def case_prod_unfold sum_list_triv)

lemma reloc_entry_split:
  fixes offset rtype :: u16
  assumes "offset < 0x1000" "rtype < 16"
  shows "(push_bit 12 rtype OR offset) AND 0x0FFF = offset" "drop_bit 12 (push_bit 12 rtype OR offset) = rtype"
proof -
  have "take_bit 12 offset = offset"
    using assms(1) by (simp add: word_unat_eq_iff unsigned_take_bit_eq take_bit_nat_eq_self word_less_nat_alt)
  then have o: "\<not> bit offset n" if "12 \<le> n" for n using that by (metis bit_take_bit_iff not_le)
  have "take_bit 4 rtype = rtype"
    using assms(2) by (simp add: word_unat_eq_iff unsigned_take_bit_eq take_bit_nat_eq_self word_less_nat_alt)
  then have t: "\<not> bit rtype n" if "4 \<le> n" for n using that by (metis bit_take_bit_iff not_le)
  have m: "(0x0FFF :: u16) = mask 12" by (simp add: mask_eq_exp_minus_1)
  show "(push_bit 12 rtype OR offset) AND 0x0FFF = offset"
    unfolding m using o by (intro bit_word_eqI) (auto simp: bit_simps; meson not_le)
  show "drop_bit 12 (push_bit 12 rtype OR offset) = rtype"
    using o t by (intro bit_word_eqI) (auto simp: bit_simps; meson not_le le_add1)
qed

lemma reloc_entries_read:
  assumes "\<forall>(offset, rtype)\<in>set rels. offset < 0x1000 \<and> rtype < 16"
    and "length out + length rels \<le> kMaxRelocations" and "off = length a"
  shows "reloc_entries (a @ concat (map (\<lambda>(offset, rtype). enc16 (push_bit 12 rtype OR offset)) rels) @ c)
           page off (off + 2 * length rels) out = (out @ block_relocs (page, rels), False)"
  using assms
proof (induction rels arbitrary: a off out)
  case Nil
  then show ?case by (simp add: reloc_entries.simps block_relocs_def)
next
  case (Cons r rels)
  obtain offset rtype where r: "r = (offset, rtype)" by fastforce
  let ?e = "enc16 (push_bit 12 rtype OR offset)"
  let ?rest = "concat (map (\<lambda>(offset, rtype). enc16 (push_bit 12 rtype OR offset)) rels) @ c"
  have bounds: "offset < 0x1000" "rtype < 16" using Cons.prems(1) r by auto
  have IH: "reloc_entries ((a @ ?e) @ ?rest) page (off + 2) (off + 2 + 2 * length rels)
      (out @ [\<lparr>rel_rva = page + ucast offset, rel_type = rtype\<rparr>]) =
      (out @ \<lparr>rel_rva = page + ucast offset, rel_type = rtype\<rparr> # block_relocs (page, rels), False)"
    using Cons.IH [of "out @ [\<lparr>rel_rva = page + ucast offset, rel_type = rtype\<rparr>]" "off + 2" "a @ ?e"] Cons.prems
    by simp
  have "read_le (a @ ?e @ ?rest) off 2 = Some ?e" using Cons.prems(3) by (intro read_le_append) auto
  then show ?case
    using IH Cons.prems(2) reloc_entry_split [OF bounds]
    by (subst reloc_entries.simps) (simp add: r block_relocs_def add.commute add.left_commute)
qed

lemma reloc_blocks_read:
  assumes "\<forall>b\<in>set bs. block_ok b"
    and "length out + (\<Sum>b\<leftarrow>bs. length (snd b)) \<le> kMaxRelocations" and "length c < 8" and "pos = length a"
  shows "reloc_blocks (a @ concat (map reloc_bytes bs) @ c) pos out = out @ concat (map block_relocs bs)"
  using assms
proof (induction bs arbitrary: a pos out)
  case Nil
  then show ?case by (simp add: reloc_blocks.simps)
next
  case (Cons b bs)
  obtain page rels where b: "b = (page, rels)" by fastforce
  let ?n = "8 + 2 * length rels" and ?rest = "concat (map reloc_bytes bs) @ c"
  let ?h = "enc32 page @ enc32 (of_nat ?n)"
  let ?all = "a @ reloc_bytes b @ ?rest"
  have n: "unat (of_nat ?n :: u32) = ?n"
    using Cons.prems(1) b by (simp add: block_ok_def unat_of_nat del: of_nat_add of_nat_mult)
  have len: "length (reloc_bytes b) = ?n" by (simp add: length_reloc_bytes b)
  have entries: "reloc_entries ?all page (pos + 8) (pos + ?n) out = (out @ block_relocs b, False)"
    using reloc_entries_read [of rels out "pos + 8" "a @ ?h" ?rest page] Cons.prems b
    by (simp add: b reloc_bytes_def block_ok_def add.assoc)
  have h: "field32 ?all pos = page" "field32 ?all (pos + 4) = of_nat ?n"
    using Cons.prems(4) by (simp_all add: b reloc_bytes_def)
  have rest: "reloc_blocks ((a @ reloc_bytes b) @ ?rest) (pos + ?n) (out @ block_relocs b) =
      (out @ block_relocs b) @ concat (map block_relocs bs)"
    using Cons.prems len b by (intro Cons.IH) (auto simp: block_relocs_def)
  have "length ?all - pos \<ge> ?n" "pos < length ?all" using Cons.prems(4) len by auto
  then show ?case
    using entries h rest n by (subst reloc_blocks.simps) simp
qed

section \<open>Reads of a mapped range\<close>

lemma unat_widened [simp]: "unat (ucast x :: u64) = unat x" for x :: u32
proof -
  have "unat x < 2 ^ 64" by (rule order.strict_trans2 [OF unsigned_less]) simp
  then show ?thesis by (simp add: unsigned_ucast_eq take_bit_nat_eq_self)
qed

lemma unat_max: "unat (max a b) = max (unat a) (unat b)" for a b :: u32
  by (simp add: max_def word_le_nat_alt)

lemma unat_section_end: "unat (section_end s) = unat (sec_virtual_address s) + max (unat (sec_virtual_size s)) (unat (sec_raw_size s))"
proof -
  have "unat (sec_virtual_address s) < 2 ^ 32" "unat (max (sec_virtual_size s) (sec_raw_size s)) < 2 ^ 32"
    by (rule order.strict_trans2 [OF unsigned_less], simp)+
  then show ?thesis
    unfolding section_end_def by (subst unat_plus_lt) (auto simp: unat_max max_def word_le_nat_alt)
qed

lemma section_contains_iff:
  "section_contains rva s \<longleftrightarrow> unat (sec_virtual_address s) \<le> unat rva \<and>
     unat rva < unat (sec_virtual_address s) + max (unat (sec_virtual_size s)) (unat (sec_raw_size s))"
  by (simp add: section_contains_def word_le_nat_alt word_less_nat_alt unat_section_end)

lemma unat_section_delta:
  "section_contains rva s \<Longrightarrow> unat (section_delta s rva) = unat rva - unat (sec_virtual_address s)"
  by (simp add: section_delta_def section_contains_def unat_sub)

definition apart :: "parsed_section \<Rightarrow> parsed_section \<Rightarrow> bool" where
  "apart s t \<longleftrightarrow> section_end s \<le> ucast (sec_virtual_address t) \<or> section_end t \<le> ucast (sec_virtual_address s)"

definition sections_disjoint :: "pe_image \<Rightarrow> bool" where
  "sections_disjoint img = sorted_wrt apart (img_sections img)"

lemma apart_excludes: "apart s t \<Longrightarrow> section_contains rva s \<Longrightarrow> \<not> section_contains rva t"
  by (auto simp: apart_def section_contains_def)

lemma find_contains_unique:
  "sorted_wrt apart ss \<Longrightarrow> s \<in> set ss \<Longrightarrow> section_contains rva s \<Longrightarrow> find (section_contains rva) ss = Some s"
  by (induction ss) (auto dest: apart_excludes)

lemma disjoint_section_found:
  "sections_disjoint img \<Longrightarrow> s \<in> set (img_sections img) \<Longrightarrow> section_contains rva s \<Longrightarrow>
   section_containing_rva img rva = Some s"
  unfolding sections_disjoint_def section_containing_rva_def by (rule find_contains_unique)

lemma section_found: "section_containing_rva img rva = Some s \<Longrightarrow> s \<in> set (img_sections img) \<and> section_contains rva s"
  by (auto simp: section_containing_rva_def find_Some_iff)

text \<open>The bytes of a section that the file backs.\<close>

definition section_backing :: "pe_image \<Rightarrow> parsed_section \<Rightarrow> u8 list" where
  "section_backing img s = take (unat (sec_raw_size s)) (drop (unat (sec_raw_offset s)) (img_buffer img))"

lemma readable_in_section:
  assumes "section_containing_rva img rva = Some s"
  shows "readable_bytes_at_rva img rva = length (section_backing img s) - (unat rva - unat (sec_virtual_address s))"
proof -
  have d: "unat (section_delta s rva) = unat rva - unat (sec_virtual_address s)"
    using assms section_found unat_section_delta by blast
  show ?thesis
    using assms
    by (auto simp: readable_bytes_at_rva_def rva_to_file_offset_def section_backing_def d Let_def
        word_le_nat_alt min_def)
qed

lemma backed_address:
  assumes "k < unat (sec_raw_size s)"
  shows "unat (ucast (sec_virtual_address s) + of_nat k :: u64) = unat (sec_virtual_address s) + k"
    "section_contains (ucast (sec_virtual_address s) + of_nat k) s"
proof -
  have "unat (sec_virtual_address s) < 2 ^ 32" "unat (sec_raw_size s) < 2 ^ 32"
    by (rule order.strict_trans2 [OF unsigned_less], simp)+
  then show *: "unat (ucast (sec_virtual_address s) + of_nat k :: u64) = unat (sec_virtual_address s) + k"
    using assms by (subst word_of_nat_unat_add) simp_all
  show "section_contains (ucast (sec_virtual_address s) + of_nat k) s"
    using assms by (simp add: section_contains_iff *)
qed

lemma backed_read:
  assumes disj: "sections_disjoint img" and s: "s \<in> set (img_sections img)"
    and n: "k < length (section_backing img s)" "n \<le> length (section_backing img s) - k"
  shows "read_at_rva img (ucast (sec_virtual_address s) + of_nat k) n =
         Inr (take n (drop k (section_backing img s)))"
proof -
  let ?rva = "ucast (sec_virtual_address s) + of_nat k :: u64"
  have k: "k < unat (sec_raw_size s)" using n(1) by (simp add: section_backing_def)
  have d: "unat (section_delta s ?rva) = k"
    using backed_address [OF k] unat_section_delta by simp
  note c = backed_address(2) [OF k]
  have off: "rva_to_file_offset img ?rva = Some (unat (sec_raw_offset s) + k)"
    using disjoint_section_found [OF disj s c] d k
    by (simp add: rva_to_file_offset_def word_le_nat_alt)
  have "take n (drop k (section_backing img s)) = take n (drop (unat (sec_raw_offset s) + k) (img_buffer img))"
    using n k by (simp add: section_backing_def drop_take min_def add.commute split: if_split_asm)
  moreover have "k < length (img_buffer img) - unat (sec_raw_offset s)"
    "n \<le> length (img_buffer img) - (unat (sec_raw_offset s) + k)"
    using n by (auto simp: section_backing_def min_def split: if_split_asm)
  ultimately show ?thesis
    unfolding read_at_rva_def off option.case read_at_file_offset_def by simp
qed

section \<open>The walk over a lookup table\<close>

lemma read_at_rva_length: "read_at_rva img rva n = Inr bs \<Longrightarrow> length bs = n"
  by (auto simp: read_at_rva_def read_at_file_offset_def split: option.splits if_split_asm)

lemma struct_at_read: "struct_at img rva n truncated = read_at_rva img rva n"
  by (cases "read_at_rva img rva n") (auto simp: struct_at_def read_le_def dest: read_at_rva_length)

definition slot_value :: "pe_image \<Rightarrow> u32 \<Rightarrow> nat \<Rightarrow> u64 expected" where
  "slot_value img table slot =
     sbind (read_at_rva img (slot_rva img table slot) (thunk_size img)) (\<lambda>bs. Inr (pointer_value img bs))"

definition slot_import :: "pe_image \<Rightarrow> string \<Rightarrow> u32 \<Rightarrow> u32 \<Rightarrow> bool \<Rightarrow> nat \<Rightarrow> parsed_import \<Rightarrow> bool" where
  "slot_import img dll ilt iat delayed slot item \<longleftrightarrow>
     (case slot_value img ilt slot of
        Inl e \<Rightarrow> False
      | Inr v \<Rightarrow> v \<noteq> 0 \<and> import_item img dll iat delayed slot v = Inr item)"

text \<open>The imports of the slots from \<open>slot\<close> on, up to a zero or the cap of \<open>left\<close> slots.\<close>

definition slots_until_null ::
    "pe_image \<Rightarrow> string \<Rightarrow> u32 \<Rightarrow> u32 \<Rightarrow> bool \<Rightarrow> nat \<Rightarrow> nat \<Rightarrow> parsed_import list \<Rightarrow> bool" where
  "slots_until_null img dll ilt iat delayed left slot items \<longleftrightarrow>
     length items \<le> left \<and>
     (\<forall>k<length items. slot_import img dll ilt iat delayed (slot + k) (items ! k)) \<and>
     (length items = left \<or> slot_value img ilt (slot + length items) = Inr 0)"

lemma slots_until_null_Nil:
  "slots_until_null img dll ilt iat delayed left slot [] \<longleftrightarrow> left = 0 \<or> slot_value img ilt slot = Inr 0"
  by (auto simp: slots_until_null_def)

lemma slots_until_null_Cons:
  "slots_until_null img dll ilt iat delayed left slot (i # items) \<longleftrightarrow>
   (\<exists>l. left = Suc l \<and> slot_import img dll ilt iat delayed slot i \<and>
      slots_until_null img dll ilt iat delayed l (Suc slot) items)"
  by (cases left) (auto simp: slots_until_null_def All_less_Suc2)

lemma import_slots_iff:
  "import_slots img dll ilt iat delayed left slot out = Inr out' \<longleftrightarrow>
   (\<exists>items. out' = out @ items \<and> slots_until_null img dll ilt iat delayed left slot items)"
proof (induction left arbitrary: slot out)
  case 0
  then show ?case by (auto simp: slots_until_null_def)
next
  case (Suc left)
  show ?case
  proof (cases "slot_value img ilt slot")
    case (Inl e)
    then have "\<not> slots_until_null img dll ilt iat delayed (Suc left) slot items" for items
      by (cases items) (simp_all add: slots_until_null_Nil slots_until_null_Cons slot_import_def)
    with Inl show ?thesis by (auto simp: struct_at_read slot_value_def)
  next
    case (Inr v)
    then obtain bs where bs: "read_at_rva img (slot_rva img ilt slot) (thunk_size img) = Inr bs" "v = pointer_value img bs"
      by (auto simp: slot_value_def)
    show ?thesis
    proof (cases "v = 0")
      case True
      then have "slots_until_null img dll ilt iat delayed (Suc left) slot items \<longleftrightarrow> items = []" for items
        using Inr by (cases items) (simp_all add: slots_until_null_Nil slots_until_null_Cons slot_import_def)
      with True bs show ?thesis by (auto simp: struct_at_read)
    next
      case False
      have "slots_until_null img dll ilt iat delayed (Suc left) slot items \<longleftrightarrow>
          (\<exists>i rest. items = i # rest \<and> import_item img dll iat delayed slot v = Inr i \<and>
             slots_until_null img dll ilt iat delayed left (Suc slot) rest)" for items
        using Inr False by (cases items) (auto simp: slots_until_null_Nil slots_until_null_Cons slot_import_def)
      with False bs show ?thesis by (auto simp: struct_at_read Suc.IH)
    qed
  qed
qed

text \<open>What a descriptor contributes.\<close>

definition descriptor_imports :: "pe_image \<Rightarrow> image_import_descriptor \<Rightarrow> bool \<Rightarrow> parsed_import list \<Rightarrow> bool" where
  "descriptor_imports img desc delayed items \<longleftrightarrow>
     (if ImpName desc = 0 then items = []
      else \<exists>dll. read_cstring_at_rva img (ucast (ImpName desc)) = Inr dll \<and>
        (\<exists>ilt. ilt \<noteq> 0 \<and> ilt = (if OriginalFirstThunk desc \<noteq> 0 then OriginalFirstThunk desc else FirstThunk desc) \<and>
           slots_until_null img (normalize_dll_name dll) ilt (FirstThunk desc) delayed kMaxImportsPerDll 0 items))"

lemma walk_descriptor_iff:
  "walk_import_descriptor img desc delayed out = Inr out' \<longleftrightarrow>
   (\<exists>items. out' = out @ items \<and> descriptor_imports img desc delayed items)"
  by (auto simp: walk_import_descriptor_def descriptor_imports_def Let_def import_slots_iff split: if_split_asm)

section \<open>Tables that end at a null row\<close>

text \<open>Two tables of descriptors are walked alike: a row ends the walk, or it yields a list of imports.\<close>

definition rows_until_null :: "(nat \<Rightarrow> 'b list option expected) \<Rightarrow> nat \<Rightarrow> nat \<Rightarrow> 'b list list \<Rightarrow> bool" where
  "rows_until_null row left i itemss \<longleftrightarrow>
     length itemss \<le> left \<and> (\<forall>k<length itemss. row (i + k) = Inr (Some (itemss ! k))) \<and>
     (length itemss = left \<or> row (i + length itemss) = Inr None)"

lemma rows_until_null_Nil: "rows_until_null row left i [] \<longleftrightarrow> left = 0 \<or> row i = Inr None"
  by (auto simp: rows_until_null_def)

lemma rows_until_null_Cons:
  "rows_until_null row left i (items # itemss) \<longleftrightarrow>
   (\<exists>l. left = Suc l \<and> row i = Inr (Some items) \<and> rows_until_null row l (Suc i) itemss)"
  by (cases left) (auto simp: rows_until_null_def All_less_Suc2)

locale null_terminated =
  fixes walk :: "nat \<Rightarrow> nat \<Rightarrow> 'b list \<Rightarrow> 'b list expected"
    and row :: "nat \<Rightarrow> 'b list option expected"
  assumes walk_0: "walk 0 i out = Inr out"
    and walk_Suc: "walk (Suc left) i out =
      sbind (row i) (\<lambda>r. case r of None \<Rightarrow> Inr out | Some items \<Rightarrow> walk left (Suc i) (out @ items))"
begin

lemma walk_iff:
  "walk left i out = Inr out' \<longleftrightarrow> (\<exists>itemss. out' = out @ concat itemss \<and> rows_until_null row left i itemss)"
proof (induction left arbitrary: i out)
  case 0
  then show ?case by (auto simp: walk_0 rows_until_null_def)
next
  case (Suc left)
  show ?case
  proof (cases "row i")
    case (Inl e)
    then have "\<not> rows_until_null row (Suc left) i itemss" for itemss
      by (cases itemss) (simp_all add: rows_until_null_Nil rows_until_null_Cons)
    with Inl show ?thesis by (simp add: walk_Suc)
  next
    case (Inr r)
    then have "rows_until_null row (Suc left) i itemss \<longleftrightarrow>
        (case r of None \<Rightarrow> itemss = []
         | Some items \<Rightarrow> \<exists>rest. itemss = items # rest \<and> rows_until_null row left (Suc i) rest)" for itemss
      by (cases itemss; cases r) (auto simp: rows_until_null_Nil rows_until_null_Cons)
    with Inr show ?thesis by (cases r) (auto simp: walk_Suc Suc.IH, metis concat.simps(2))
  qed
qed

end

lemma import_slots_append:
  "import_slots img dll ilt iat delayed left slot out =
   sbind (import_slots img dll ilt iat delayed left slot []) (\<lambda>items. Inr (out @ items))"
proof (induction left arbitrary: slot out)
  case (Suc left)
  show ?case
    apply (cases "struct_at img (slot_rva img ilt slot) (thunk_size img) ''truncated ILT slot''")
     apply simp
    subgoal for bs
      apply (cases "import_item img dll iat delayed slot (pointer_value img bs)")
       apply (simp add: Let_def)
      subgoal for item
        using Suc.IH [of "Suc slot" "out @ [item]"] Suc.IH [of "Suc slot" "[item]"]
        by (cases "import_slots img dll ilt iat delayed left (Suc slot) []") (simp_all add: Let_def)
      done
    done
qed simp

lemma walk_descriptor_append:
  "walk_import_descriptor img desc delayed out =
   sbind (walk_import_descriptor img desc delayed []) (\<lambda>items. Inr (out @ items))"
  using import_slots_append [of img _ _ _ delayed kMaxImportsPerDll 0 out]
  by (cases "read_cstring_at_rva img (ucast (ImpName desc))")
    (auto simp: walk_import_descriptor_def Let_def)

definition import_row :: "pe_image \<Rightarrow> u32 \<Rightarrow> nat \<Rightarrow> parsed_import list option expected" where
  "import_row img table i =
     sbind (read_at_rva img (ucast table + of_nat (i * sizeof_import_descriptor)) sizeof_import_descriptor) (\<lambda>bs.
       let desc = import_descriptor bs in
       if OriginalFirstThunk desc = 0 \<and> FirstThunk desc = 0 \<and> ImpName desc = 0 then Inr None
       else sbind (walk_import_descriptor img desc False []) (\<lambda>items. Inr (Some items)))"

definition delay_row :: "pe_image \<Rightarrow> u32 \<Rightarrow> nat \<Rightarrow> parsed_import list option expected" where
  "delay_row img table i =
     sbind (read_at_rva img (ucast table + of_nat (i * sizeof_delay_import_descriptor))
              sizeof_delay_import_descriptor) (\<lambda>bs.
       let desc = delay_import_descriptor bs in
       if DelayName desc = 0 \<and> DelayImportAddressTable desc = 0 then Inr None
       else sbind (walk_import_descriptor img
                     \<lparr>OriginalFirstThunk = DelayImportNameTable desc, ImpName = DelayName desc,
                      FirstThunk = DelayImportAddressTable desc\<rparr> True []) (\<lambda>items. Inr (Some items)))"

interpretation import_table: null_terminated "import_descriptors img table" "import_row img table"
  for img table
proof
  fix left i and out :: "parsed_import list"
  show "import_descriptors img table (Suc left) i out =
      sbind (import_row img table i) (\<lambda>r. case r of None \<Rightarrow> Inr out
        | Some items \<Rightarrow> import_descriptors img table left (Suc i) (out @ items))"
    unfolding import_descriptors.simps import_row_def struct_at_read Let_def
    by (subst walk_descriptor_append) (simp add: sbind_def split: sum.split)
qed simp

interpretation delay_table: null_terminated "delay_descriptors img table" "delay_row img table"
  for img table
proof
  fix left i and out :: "parsed_import list"
  show "delay_descriptors img table (Suc left) i out =
      sbind (delay_row img table i) (\<lambda>r. case r of None \<Rightarrow> Inr out
        | Some items \<Rightarrow> delay_descriptors img table left (Suc i) (out @ items))"
    unfolding delay_descriptors.simps delay_row_def struct_at_read Let_def
    by (subst walk_descriptor_append) (simp add: sbind_def walk_import_descriptor_def split: sum.split)
qed simp

section \<open>Bounds of a parsed image\<close>

lemma cstring_bounded: "cstring_loop n bs = Inr s \<Longrightarrow> length s < n"
  by (induction n bs arbitrary: s rule: cstring_loop.induct) (auto split: if_split_asm)

lemma read_cstring_bounded: "read_cstring_at_rva img rva = Inr s \<Longrightarrow> length s < kMaxCString"
  by (auto simp: read_cstring_at_rva_def split: option.splits if_split_asm dest: cstring_bounded)

lemma normalize_length: "length (normalize_dll_name dll) \<le> length dll"
  by (auto simp: normalize_dll_name_def to_lower_ascii_def Let_def split: option.splits)

lemma table_names_short: "list_all (\<lambda>e. length (snd e) < 64) kWs2_32" "list_all (\<lambda>e. length (snd e) < 64) kOleaut32"
  unfolding kWs2_32_def kOleaut32_def by simp_all

lemma find_entry_in: "find_entry es n = Some name \<Longrightarrow> \<exists>e\<in>set es. snd e = name"
  by (induction es n rule: find_entry.induct) (auto split: if_split_asm)

lemma ordinal_name_short: "lookup_ordinal_name dll n = Some name \<Longrightarrow> length name < kMaxCString"
  using table_names_short
  by (fastforce simp: lookup_ordinal_name_def list_all_iff kMaxCString_def split: if_split_asm dest!: find_entry_in)

definition import_ok :: "parsed_import \<Rightarrow> bool" where
  "import_ok i \<longleftrightarrow> length (imp_dll i) < kMaxCString \<and> length (imp_name i) < kMaxCString \<and>
     (imp_by_ordinal i \<longrightarrow> imp_name i = [] \<and> imp_ordinal i < 0x10000 \<and>
        lookup_ordinal_name (imp_dll i) (unat (imp_ordinal i)) = None)"

lemma low_word_bound: "(ucast (v AND 0xFFFF) :: u32) < 0x10000" for v :: u64
proof -
  have "v AND 0xFFFF = take_bit 16 v" by (simp add: take_bit_eq_mask mask_eq_exp_minus_1)
  then have "unat (v AND 0xFFFF) < 2 ^ 16" by (simp only: unsigned_take_bit_eq take_bit_nat_less_exp)
  then have "unat (ucast (v AND 0xFFFF) :: u32) < 2 ^ 16"
    by (simp add: unsigned_ucast_eq take_bit_nat_eq_self)
  then show ?thesis by (simp add: word_less_nat_alt)
qed

lemma import_item_ok:
  "import_item img dll iat delayed slot v = Inr i \<Longrightarrow> length dll < kMaxCString \<Longrightarrow>
   import_ok i \<and> imp_delayed i = delayed"
  by (auto simp: import_item_def import_ok_def Let_def low_word_bound kMaxCString_def
      split: if_split_asm option.splits
      dest: read_cstring_bounded ordinal_name_short [unfolded kMaxCString_def] read_cstring_bounded [unfolded kMaxCString_def])

lemma descriptor_imports_ok:
  assumes "descriptor_imports img desc delayed items"
  shows "length items \<le> kMaxImportsPerDll" "\<forall>i\<in>set items. import_ok i \<and> imp_delayed i = delayed"
proof -
  show "length items \<le> kMaxImportsPerDll"
    using assms by (auto simp: descriptor_imports_def slots_until_null_def split: if_split_asm)
  have "import_ok (items ! k) \<and> imp_delayed (items ! k) = delayed" if k: "k < length items" for k
  proof -
    obtain dll ilt where "read_cstring_at_rva img (ucast (ImpName desc)) = Inr dll"
      and u: "slots_until_null img (normalize_dll_name dll) ilt (FirstThunk desc) delayed kMaxImportsPerDll 0 items"
      using assms k by (auto simp: descriptor_imports_def split: if_split_asm)
    then have dll: "length (normalize_dll_name dll) < kMaxCString"
      by (meson le_less_trans normalize_length read_cstring_bounded)
    have "slot_import img (normalize_dll_name dll) ilt (FirstThunk desc) delayed k (items ! k)"
      using u k by (simp add: slots_until_null_def)
    then obtain v where "import_item img (normalize_dll_name dll) (FirstThunk desc) delayed k v = Inr (items ! k)"
      by (auto simp: slot_import_def split: sum.splits)
    then show ?thesis using dll by (rule import_item_ok)
  qed
  then show "\<forall>i\<in>set items. import_ok i \<and> imp_delayed i = delayed" by (auto simp: in_set_conv_nth)
qed

text \<open>The imports of a list of descriptors.\<close>

definition imports_within :: "nat \<Rightarrow> bool \<Rightarrow> parsed_import list \<Rightarrow> bool" where
  "imports_within n delayed items \<longleftrightarrow>
     length items \<le> n * kMaxImportsPerDll \<and> (\<forall>i\<in>set items. import_ok i \<and> imp_delayed i = delayed)"

lemma imports_within_Nil [simp]: "imports_within n delayed []"
  by (simp add: imports_within_def)

lemma rows_within:
  assumes "\<And>i items. row i = Inr (Some items) \<Longrightarrow> length items \<le> kMaxImportsPerDll \<and> (\<forall>i\<in>set items. import_ok i \<and> imp_delayed i = d)"
    and "rows_until_null row left i itemss"
  shows "imports_within left d (concat itemss)"
  using assms(2)
proof (induction itemss arbitrary: left i)
  case (Cons items itemss)
  then obtain l where "left = Suc l" "row i = Inr (Some items)" "imports_within l d (concat itemss)"
    by (auto simp: rows_until_null_Cons)
  with assms(1) [of i items] show ?case by (auto simp: imports_within_def)
qed simp

lemma import_row_ok:
  "import_row img table i = Inr (Some items) \<Longrightarrow>
   length items \<le> kMaxImportsPerDll \<and> (\<forall>i\<in>set items. import_ok i \<and> imp_delayed i = False)"
  "delay_row img table i = Inr (Some items) \<Longrightarrow>
   length items \<le> kMaxImportsPerDll \<and> (\<forall>i\<in>set items. import_ok i \<and> imp_delayed i = True)"
  by (auto simp: import_row_def delay_row_def Let_def walk_descriptor_iff dest: descriptor_imports_ok
      split: if_split_asm)

lemma parse_imports_within: "parse_imports img dirs = Inr items \<Longrightarrow> imports_within kMaxImportDescriptors False items"
  by (auto simp: parse_imports_def Let_def import_table.walk_iff split: if_split_asm
      intro: rows_within [OF import_row_ok(1)])

lemma parse_delay_imports_within:
  "parse_delay_imports img dirs = Inr items \<Longrightarrow> imports_within kMaxImportDescriptors True items"
  by (auto simp: parse_delay_imports_def Let_def delay_table.walk_iff split: if_split_asm
      intro: rows_within [OF import_row_ok(2)])

lemma callback_slots_bounded:
  "length (callback_slots img table left i) \<le> left" "0 \<notin> set (callback_slots img table left i)"
  by (induction left arbitrary: i) (auto simp: Let_def split: sum.splits)

lemma parse_tls_bounded: "parse_tls_callbacks img dirs = Inr cbs \<Longrightarrow> length cbs \<le> 256 \<and> 0 \<notin> set cbs"
  using callback_slots_bounded
  by (auto simp: parse_tls_callbacks_def Let_def split: if_split_asm)

lemma drop_bit_12_bound: "drop_bit 12 e < (16 :: u16)"
proof -
  have "unat (drop_bit 12 e) = unat e div 2 ^ 12" unfolding unat_drop_bit_eq by (rule drop_bit_eq_div)
  moreover have "unat e < 2 ^ 16" by (rule order.strict_trans2 [OF unsigned_less]) simp
  ultimately have "unat (drop_bit 12 e) < 16" by (simp add: less_mult_imp_div_less)
  then show ?thesis by (simp add: word_less_nat_alt)
qed

lemma reloc_entries_bounded:
  "reloc_entries bytes page roff body_end out = (out', full) \<Longrightarrow> length out \<le> kMaxRelocations \<Longrightarrow>
   \<forall>r\<in>set out. rel_type r < 16 \<Longrightarrow> length out' \<le> kMaxRelocations \<and> (\<forall>r\<in>set out'. rel_type r < 16)"
proof (induction bytes page roff body_end out rule: reloc_entries.induct)
  case (1 bytes page roff body_end out)
  then show ?case
    by (subst (asm) (2) reloc_entries.simps)
      (auto simp: Let_def drop_bit_12_bound split: if_split_asm option.splits)
qed

definition relocs_ok :: "parsed_relocation list \<Rightarrow> bool" where
  "relocs_ok rs \<longleftrightarrow> length rs \<le> kMaxRelocations \<and> (\<forall>r\<in>set rs. rel_type r < 16)"

lemma reloc_blocks_bounded: "relocs_ok out \<Longrightarrow> relocs_ok (reloc_blocks bytes pos out)"
proof (induction bytes pos out rule: reloc_blocks.induct)
  case (1 bytes pos out)
  let ?page = "field32 bytes pos" and ?size = "unat (field32 bytes (pos + 4))"
  obtain out' full where e: "reloc_entries bytes ?page (pos + 8) (pos + ?size) out = (out', full)" by fastforce
  have ok: "relocs_ok out'" using reloc_entries_bounded [OF e] "1.prems" by (simp add: relocs_ok_def)
  show ?case
  proof (cases "pos \<ge> length bytes \<or> length bytes - pos < 8 \<or> ?size = 0 \<or> ?size > length bytes - pos \<or> ?size < 8 \<or> full")
    case True
    then have "reloc_blocks bytes pos out = out \<or> reloc_blocks bytes pos out = out'"
      by (subst (1 2) reloc_blocks.simps) (auto simp: Let_def e)
    then show ?thesis using ok "1.prems" by auto
  next
    case False
    then have "reloc_blocks bytes pos out = reloc_blocks bytes (pos + ?size) out'"
      by (subst reloc_blocks.simps) (auto simp: Let_def e)
    moreover have "relocs_ok (reloc_blocks bytes (pos + ?size) out')"
      by (rule "1.IH" [OF _ refl refl _ e [symmetric]]) (use False ok in auto)
    ultimately show ?thesis by simp
  qed
qed

lemma parse_relocations_ok: "relocs_ok (parse_relocations img dirs)"
proof -
  have "relocs_ok []" by (simp add: relocs_ok_def)
  then show ?thesis
    by (auto simp: parse_relocations_def Let_def reloc_blocks_bounded split: sum.splits option.splits)
qed

lemma clamped_count_bounded: "clamped_count img c t \<le> kMaxExportsPerImage"
  by (simp add: clamped_count_def)

definition names_ok :: "nat \<Rightarrow> string list \<Rightarrow> bool" where
  "names_ok n names \<longleftrightarrow> length names = n \<and> (\<forall>s\<in>set names. length s < kMaxCString)"

lemma name_entry_ok: "names_ok n names \<Longrightarrow> names_ok n (name_entry img edir i names)"
  by (auto simp: name_entry_def names_ok_def Let_def split: sum.splits
      dest: read_cstring_bounded dest!: set_update_subset_insert [THEN subsetD])

lemma name_fold_ok: "names_ok n names \<Longrightarrow> names_ok n (fold (name_entry img edir) rows names)"
  by (induction rows arbitrary: names) (auto intro: name_entry_ok)

lemma name_table_ok: "names_ok n (name_table img edir m n)"
  unfolding name_table_def by (rule name_fold_ok) (auto simp: names_ok_def kMaxCString_def)

definition export_ok :: "parsed_export \<Rightarrow> bool" where
  "export_ok e \<longleftrightarrow> length (exp_name e) < kMaxCString \<and>
     (\<forall>f. exp_forwarder e = Some f \<longrightarrow> length f < kMaxCString \<and> exp_va e = 0)"

lemma export_entry_ok:
  assumes "names_ok n names" "i < n"
  shows "length (export_entry img dd edir names i) \<le> 1" "\<forall>e\<in>set (export_entry img dd edir names i). export_ok e"
proof -
  have name: "length (names ! i) < kMaxCString" using assms by (auto simp: names_ok_def)
  show "length (export_entry img dd edir names i) \<le> 1"
    by (simp add: export_entry_def Let_def split: sum.split)
  show "\<forall>e\<in>set (export_entry img dd edir names i). export_ok e"
  proof (cases "read_at_rva img (table_rva (AddressOfFunctions edir) i 4) 4")
    case (Inr bs)
    then show ?thesis
      using name
      by (cases "read_cstring_at_rva img (ucast (field32 bs 0))")
        (auto simp: export_entry_def export_ok_def Let_def dest: read_cstring_bounded)
  qed (simp add: export_entry_def)
qed

lemma parse_exports_bounded:
  assumes "parse_exports img dirs = Inr es"
  shows "length es \<le> kMaxExportsPerImage" "\<forall>e\<in>set es. export_ok e"
proof -
  have "length es \<le> kMaxExportsPerImage \<and> (\<forall>e\<in>set es. export_ok e)"
  proof (cases "directory_absent (get_data_directory dirs 0)")
    case True
    then show ?thesis using assms by (simp add: parse_exports_def)
  next
    case False
    let ?e = "\<lambda>edir m n. export_entry img (get_data_directory dirs 0) edir (name_table img edir m n)"
    obtain edir m c t where es: "es = concat (map (?e edir m (clamped_count img c t)) [0..<clamped_count img c t])"
      using assms False by (auto simp: parse_exports_def Let_def)
    let ?n = "clamped_count img c t"
    have "(\<Sum>i\<leftarrow>[0..<?n]. length (?e edir m ?n i)) \<le> (\<Sum>i\<leftarrow>[0..<?n]. 1)"
      by (rule sum_list_mono) (use export_entry_ok(1) [OF name_table_ok] in auto)
    then have "length es \<le> ?n" by (simp add: es length_concat comp_def sum_list_triv)
    moreover have "\<forall>e\<in>set es. export_ok e" using es export_entry_ok(2) [OF name_table_ok] by auto
    ultimately show ?thesis using clamped_count_bounded le_trans by blast
  qed
  then show "length es \<le> kMaxExportsPerImage" "\<forall>e\<in>set es. export_ok e" by auto
qed

lemma read_rows_length: "read_rows buf off w n e = Inr rows \<Longrightarrow> length rows = n"
  by (induction n arbitrary: off rows) (auto split: option.splits)

text \<open>The caps of the code on everything a file can declare.\<close>

definition image_bounded :: "pe_image \<Rightarrow> bool" where
  "image_bounded img \<longleftrightarrow>
     length (img_sections img) \<le> kMaxSectionsPerImage \<and>
     (\<forall>s\<in>set (img_sections img). length (sec_name s) \<le> 8) \<and>
     length (img_imports img) \<le> 2 * kMaxImportDescriptors * kMaxImportsPerDll \<and>
     (\<forall>i\<in>set (img_imports img). import_ok i) \<and>
     length (img_exports img) \<le> kMaxExportsPerImage \<and>
     (\<forall>e\<in>set (img_exports img). export_ok e) \<and>
     length (img_tls_callbacks img) \<le> 256 \<and> 0 \<notin> set (img_tls_callbacks img) \<and>
     relocs_ok (img_relocations img)"

lemma short_name_length: "length (short_name_to_string (Name (section_header b))) \<le> 8"
proof -
  have "length (takeWhile P (take 8 b)) \<le> 8" for P
    using length_takeWhile_le [of P "take 8 b"] by simp
  then show ?thesis by (simp add: short_name_to_string_def section_header_def)
qed

lemma parse_headers_sections:
  assumes "parse_headers buf = Inr (img, dirs)"
  shows "length (img_sections img) \<le> kMaxSectionsPerImage" "\<forall>s\<in>set (img_sections img). length (sec_name s) \<le> 8"
proof -
  show "length (img_sections img) \<le> kMaxSectionsPerImage" "\<forall>s\<in>set (img_sections img). length (sec_name s) \<le> 8"
    using assms
    by (auto simp: parse_headers_def parsed_section_of_def short_name_length Let_def split: if_split_asm
        dest!: read_rows_length)
qed

lemma image_bounded_parsed:
  assumes "pe_parse buf = Inr img"
  shows "image_bounded img"
proof -
  obtain hd dirs imps ds es cbs img' where
    h: "parse_headers buf = Inr (hd, dirs)" and "parse_imports hd dirs = Inr imps"
    and "parse_delay_imports (hd\<lparr>img_imports := imps\<rparr>) dirs = Inr ds"
    and "parse_exports (hd\<lparr>img_imports := imps @ ds\<rparr>) dirs = Inr es"
    and "parse_tls_callbacks (hd\<lparr>img_imports := imps @ ds, img_exports := es\<rparr>) dirs = Inr cbs"
    and img: "img = hd\<lparr>img_imports := imps @ ds, img_exports := es, img_tls_callbacks := cbs,
      img_relocations := parse_relocations img' dirs\<rparr>"
    using assms by (auto simp: pe_parse_def Let_def)
  then have "imports_within kMaxImportDescriptors False imps" "imports_within kMaxImportDescriptors True ds"
    "length es \<le> kMaxExportsPerImage \<and> (\<forall>e\<in>set es. export_ok e)" "length cbs \<le> 256 \<and> 0 \<notin> set cbs"
    using parse_imports_within parse_delay_imports_within parse_tls_bounded parse_exports_bounded by blast+
  then show ?thesis
    using parse_headers_sections [OF h] by (auto simp: image_bounded_def img imports_within_def parse_relocations_ok)
qed

section \<open>The properties\<close>

lemma bare_file_parsed:
  assumes "headers_fit fh is_64 oh dirs secs" and "64 + length stub < 2 ^ 31"
    and "buf = pe_bytes f stub fh is_64 oh dirs secs rest" and "\<forall>dd\<in>set dirs. directory_absent dd"
  shows "pe_parse buf = Inr (bare_image buf fh is_64 oh secs)"
  using headers_parsed [OF assms(1-3)] assms(4) by (simp add: pe_parse_def directories_absent bare_image_def)

text \<open>C17: a file laid out as headers, data directories and a section table is parsed back to these headers,
  whatever the fields the parser skips hold; when no directory is used, that is the whole image.\<close>

theorem headers_roundtrip:
  assumes "headers_fit fh is_64 oh dirs secs" and "64 + length stub < 2 ^ 31"
    and "buf = pe_bytes f stub fh is_64 oh dirs secs rest"
  shows "parse_headers buf = Inr (bare_image buf fh is_64 oh secs, dirs) \<and>
         ((\<forall>dd\<in>set dirs. directory_absent dd) \<longrightarrow> pe_parse buf = Inr (bare_image buf fh is_64 oh secs))"
  using headers_parsed [OF assms] bare_file_parsed [OF assms] by simp

definition sample_file_header :: image_file_header where
  "sample_file_header = \<lparr>Machine = 0x8664, NumberOfSections = 1, TimeDateStamp = 0, PointerToSymbolTable = 0,
     NumberOfSymbols = 0, SizeOfOptionalHeader = 0, FileCharacteristics = 2\<rparr>"

definition sample_optional_header :: image_optional_header where
  "sample_optional_header = \<lparr>AddressOfEntryPoint = 0x1000, ImageBase = 0x140000000, SizeOfImage = 0x3000,
     NumberOfRvaAndSizes = 1\<rparr>"

definition sample_section :: image_section_header where
  "sample_section = \<lparr>Name = [0x2E, 0x74, 0, 0, 0, 0, 0, 0], VirtualSize = 16, SecVirtualAddress = 0x1000,
     SizeOfRawData = 16, PointerToRawData = 0, PointerToRelocations = 0, PointerToLinenumbers = 0,
     NumberOfRelocations = 0, NumberOfLinenumbers = 0, Characteristics = 0x60000020\<rparr>"

definition sample_file :: "u8 list" where
  "sample_file = pe_bytes (\<lambda>_. 7) [1, 2, 3] sample_file_header True sample_optional_header
     [no_directory] [sample_section] [9]"

lemma sample_fits: "headers_fit sample_file_header True sample_optional_header [no_directory] [sample_section]"
  by (simp add: headers_fit_def kMaxSectionsPerImage_def sample_file_header_def sample_optional_header_def
      sample_section_def)

lemma no_directory_absent: "\<forall>dd\<in>set [no_directory]. directory_absent dd"
  by (simp add: directory_absent_def no_directory_def)

lemma headers_roundtrip_witness:
  "pe_parse sample_file =
   Inr (bare_image sample_file sample_file_header True sample_optional_header [sample_section])"
proof -
  have "64 + length [1, 2, 3 :: u8] < 2 ^ 31" by simp
  from headers_roundtrip [OF sample_fits this sample_file_def] show ?thesis
    using no_directory_absent by blast
qed

text \<open>C19: whatever the file, the sections, imports, exports, callbacks and relocations of a parsed image are
  within the caps of the code, every string in it is short, an import by ordinal has no name and no known
  name, a forwarded export has no address, and no callback is null.\<close>

theorem pe_parse_bounded:
  assumes "pe_parse buf = Inr img"
  shows "image_bounded img"
  using assms by (rule image_bounded_parsed)

lemma pe_parse_bounded_witness:
  "image_bounded (bare_image sample_file sample_file_header True sample_optional_header [sample_section])"
proof -
  have "64 + length [1, 2, 3 :: u8] < 2 ^ 31" by simp
  from bare_file_parsed [OF sample_fits this sample_file_def no_directory_absent] show ?thesis
    by (rule pe_parse_bounded)
qed

text \<open>C18: the relocation directory of a section, written as blocks of a page and its entries, is parsed
  back to these entries in order.\<close>

theorem relocations_roundtrip:
  assumes "sections_disjoint img" and "s \<in> set (img_sections img)"
    and "section_backing img s = a @ concat (map reloc_bytes bs) @ c" and "bs \<noteq> []"
    and "\<forall>b\<in>set bs. block_ok b" and "(\<Sum>b\<leftarrow>bs. length (snd b)) \<le> kMaxRelocations"
    and "get_data_directory dirs 5 = dd" and "VirtualAddress dd \<noteq> 0"
    and "unat (VirtualAddress dd) = unat (sec_virtual_address s) + length a"
    and "unat (Size dd) = length (concat (map reloc_bytes bs))"
  shows "parse_relocations img dirs = concat (map block_relocs bs)"
proof -
  let ?bytes = "concat (map reloc_bytes bs)" and ?rva = "ucast (VirtualAddress dd) :: u64"
  obtain b bs' where "bs = b # bs'" using assms(4) by (cases bs) auto
  then have pos: "0 < length ?bytes" by (simp add: length_reloc_bytes)
  have backed: "length a + length ?bytes \<le> length (section_backing img s)" using assms(3) by simp
  then have raw: "length a + length ?bytes \<le> unat (sec_raw_size s)" by (simp add: section_backing_def)
  have "length a < unat (sec_raw_size s)" using raw pos by linarith
  then have contains: "section_contains ?rva s" using assms(9) by (auto simp: section_contains_iff)
  have delta: "unat (section_delta s ?rva) = length a"
    using unat_section_delta [OF contains] assms(9) by simp
  have rva: "?rva = ucast (sec_virtual_address s) + of_nat (length a)"
  proof -
    have "unat (sec_virtual_address s) + length a < 2 ^ 32"
      unfolding assms(9) [symmetric] by (rule order.strict_trans2 [OF unsigned_less]) simp
    then show ?thesis
      by (subst word_unat_eq_iff, subst word_of_nat_unat_add) (simp_all add: assms(9))
  qed
  have read: "read_at_rva img ?rva (length ?bytes) = Inr ?bytes"
    using backed_read [OF assms(1,2), of "length a" "length ?bytes"] backed pos
    by (simp add: rva assms(3))
  have "\<not> directory_absent dd"
    using assms(8,10) pos by (auto simp: directory_absent_def)
  moreover have "min (length ?bytes) (unat (sec_raw_size s) - length a) = length ?bytes"
    using raw by linarith
  moreover have "reloc_blocks ?bytes 0 [] = concat (map block_relocs bs)"
    using reloc_blocks_read [OF assms(5), of "[]" "[]" 0 "[]"] assms(6) by simp
  ultimately show ?thesis
    unfolding parse_relocations_def Let_def assms(7) assms(10) disjoint_section_found [OF assms(1,2) contains]
      option.case delta
    by (simp add: read del: length_concat)
qed

definition null_descriptor :: "image_import_descriptor \<Rightarrow> bool" where
  "null_descriptor desc \<longleftrightarrow> OriginalFirstThunk desc = 0 \<and> FirstThunk desc = 0 \<and> ImpName desc = 0"

lemma import_row_iff:
  "import_row img table i = Inr (Some items) \<longleftrightarrow>
   (\<exists>bs. read_at_rva img (ucast table + of_nat (i * sizeof_import_descriptor)) sizeof_import_descriptor = Inr bs \<and>
      \<not> null_descriptor (import_descriptor bs) \<and> descriptor_imports img (import_descriptor bs) False items)"
  by (auto simp: import_row_def null_descriptor_def Let_def walk_descriptor_iff)

text \<open>C20: the imports of a file are those of the rows of its import table up to the first null row, each
  row contributing one import per entry of its lookup table up to the first zero entry.\<close>

theorem import_table_exact:
  "(parse_imports img dirs = Inr imports \<longleftrightarrow>
    (if directory_absent (get_data_directory dirs 1) then imports = []
     else \<exists>itemss. imports = concat itemss \<and>
       rows_until_null (import_row img (VirtualAddress (get_data_directory dirs 1))) kMaxImportDescriptors 0 itemss)) \<and>
   (import_row img table i = Inr (Some items) \<longleftrightarrow>
    (\<exists>bs. read_at_rva img (ucast table + of_nat (i * sizeof_import_descriptor)) sizeof_import_descriptor = Inr bs \<and>
       \<not> null_descriptor (import_descriptor bs) \<and> descriptor_imports img (import_descriptor bs) False items))"
  by (auto simp: parse_imports_def Let_def import_table.walk_iff import_row_iff)

text \<open>C21: in a file whose sections do not overlap, the bytes reported as readable from an address that the
  file backs are those up to the end of the backing of its section, and a read of so many gives them.\<close>

theorem mapped_range_reads:
  assumes "sections_disjoint img" and "s \<in> set (img_sections img)" and "k < length (section_backing img s)"
    and "rva = ucast (sec_virtual_address s) + of_nat k"
  shows "readable_bytes_at_rva img rva = length (section_backing img s) - k \<and>
         (n \<le> readable_bytes_at_rva img rva \<longrightarrow>
            read_at_rva img rva n = Inr (take n (drop k (section_backing img s))))"
proof -
  have k: "k < unat (sec_raw_size s)" using assms(3) by (simp add: section_backing_def)
  have "section_containing_rva img rva = Some s"
    using disjoint_section_found [OF assms(1,2) backed_address(2) [OF k]] assms(4) by simp
  then have "readable_bytes_at_rva img rva = length (section_backing img s) - k"
    using backed_address(1) [OF k] assms(4) by (simp add: readable_in_section)
  then show ?thesis using backed_read [OF assms(1-3), of n] assms(4) by simp
qed

definition mapped_sample :: pe_image where
  "mapped_sample =
     bare_image (replicate 4 0 @ concat (map reloc_bytes [(0x2000, [(4, 3), (8, 10)])]) @ [1, 2]) sample_file_header True
       sample_optional_header
       [sample_section\<lparr>SizeOfRawData := 18, PointerToRawData := 0\<rparr>]"

lemma mapped_sample_section:
  "sections_disjoint mapped_sample"
  "img_sections mapped_sample = [parsed_section_of (sample_section\<lparr>SizeOfRawData := 18, PointerToRawData := 0\<rparr>)]"
  "section_backing mapped_sample (parsed_section_of (sample_section\<lparr>SizeOfRawData := 18, PointerToRawData := 0\<rparr>)) =
     replicate 4 0 @ concat (map reloc_bytes [(0x2000, [(4, 3), (8, 10)])]) @ [1, 2]"
  by (simp_all add: mapped_sample_def bare_image_def sections_disjoint_def section_backing_def
      parsed_section_of_def sample_section_def length_reloc_bytes)

lemma mapped_range_reads_witness:
  "readable_bytes_at_rva mapped_sample 0x1004 = 14 \<and>
   read_at_rva mapped_sample 0x1004 4 = Inr (enc32 0x2000)"
  using mapped_range_reads [OF mapped_sample_section(1), of _ 4 "0x1004" 4]
  by (simp add: mapped_sample_section(2,3) length_reloc_bytes) (simp add: parsed_section_of_def sample_section_def reloc_bytes_def)

lemma relocations_roundtrip_witness:
  "parse_relocations mapped_sample (replicate 5 no_directory @ [\<lparr>VirtualAddress = 0x1004, Size = 12\<rparr>]) =
   [\<lparr>rel_rva = 0x2004, rel_type = 3\<rparr>, \<lparr>rel_rva = 0x2008, rel_type = 10\<rparr>]"
proof -
  let ?dirs = "replicate 5 no_directory @ [\<lparr>VirtualAddress = 0x1004, Size = 12\<rparr>]"
  have dir: "get_data_directory ?dirs 5 = \<lparr>VirtualAddress = 0x1004, Size = 12\<rparr>"
    by (simp add: get_data_directory_def nth_append)
  show ?thesis
    using relocations_roundtrip [OF mapped_sample_section(1) _ mapped_sample_section(3) _ _ _ dir]
    by (simp add: mapped_sample_section(2) block_ok_def kMaxRelocations_def length_reloc_bytes block_relocs_def
        parsed_section_of_def sample_section_def)
qed

end
