(* ===== verification/Capabilities.thy ===== *)
theory Capabilities
  imports Ruleset
begin

text \<open>
  The composition of extraction, rule set and engine (src/capabilities/common.cpp and static_.cpp):
  the limitation gate, the passes per scope, the pool of workers and the reduction of its slots.
  The feature extractor is the abstract class of base_extractor.h, a record of its functions.  The
  order in which an \<open>unordered_map\<close> of matches is walked is unspecified; it is the argument
  \<open>ord\<close>, which lists the names that have matches.
\<close>

section \<open>The extractor\<close>

type_synonym feature_batch = "(feature option \<times> address) list"

record ('f, 'b, 'i) extractor =
  get_base_address :: address
  extract_global_features :: feature_batch
  extract_file_features :: feature_batch
  get_functions :: "'f list"
  fh_addr :: "'f \<Rightarrow> address"
  extract_function_features :: "'f \<Rightarrow> feature_batch"
  get_basic_blocks :: "'f \<Rightarrow> 'b list"
  bbh_addr :: "'b \<Rightarrow> address"
  extract_basic_block_features :: "'f \<Rightarrow> 'b \<Rightarrow> feature_batch"
  get_instructions :: "'f \<Rightarrow> 'b \<Rightarrow> 'i list"
  ih_addr :: "'i \<Rightarrow> address"
  extract_insn_features :: "'f \<Rightarrow> 'b \<Rightarrow> 'i \<Rightarrow> feature_batch"
  is_library_function :: "address \<Rightarrow> bool"

type_synonym key_order = "match_results \<Rightarrow> string list"

section \<open>The limitation gate\<close>

definition kStaticLimitationPrefix :: string where
  "kStaticLimitationPrefix = ''internal/limitation/static''"

definition namespace_starts_with :: "string \<Rightarrow> string \<Rightarrow> bool" where
  "namespace_starts_with ns prefix =
     (if length ns < length prefix then False
      else if take (length prefix) ns \<noteq> prefix then False
      else length ns = length prefix \<or> ns ! length prefix = CHR ''/'')"

definition is_limitation :: "rule \<Rightarrow> bool" where
  "is_limitation r =
     (case meta_namespace (rule_meta r) of None \<Rightarrow> False
      | Some ns \<Rightarrow> namespace_starts_with ns kStaticLimitationPrefix)"

text \<open>What the references of a rule push on the work list; the last one pushed is the first one taken.\<close>

definition ref_targets :: "ruleset \<Rightarrow> string \<Rightarrow> rule list" where
  "ref_targets rs ref =
     (case rs_find rs ref of None \<Rightarrow> [] | Some r \<Rightarrow> [r]) @ rules_in_namespace rs ref"

definition rule_targets :: "ruleset \<Rightarrow> rule \<Rightarrow> rule list" where
  "rule_targets rs r = concat (map (ref_targets rs) (collect_match_refs (rule_statement r)))"

text \<open>
  The walk over the references, the last element of the work list first.  It ends when the
  references stay within finitely many rules; \<open>None\<close> would be a walk that does not.
\<close>

partial_function (option) gate_loop :: "ruleset \<Rightarrow> rule list \<Rightarrow> rule list \<Rightarrow> rule list option" where
  "gate_loop rs work closure =
     (case work of
        [] \<Rightarrow> Some closure
      | r # work' \<Rightarrow>
          if r \<in> set closure then gate_loop rs work' closure
          else gate_loop rs (rev (rule_targets rs r) @ work') (r # closure))"

definition limitation_gate_rules :: "ruleset \<Rightarrow> rule list option" where
  "limitation_gate_rules rs =
     map_option (\<lambda>closure. filter (\<lambda>r. r \<in> set closure) (rules_by_scope rs kFile))
       (gate_loop rs (rev (filter is_limitation (rules_by_scope rs kFile))) [])"

section \<open>File scope\<close>

record file_capabilities =
  fc_features :: feature_set
  fc_matches :: match_results
  fc_feature_count :: nat

definition file_scope_feature_set ::
    "('f, 'b, 'i) extractor \<Rightarrow> feature_batch option \<Rightarrow> feature_batch \<Rightarrow> feature_set" where
  "file_scope_feature_set ex cached globals =
     fs_add_all
       (fs_add_all empty_set (case cached of Some batch \<Rightarrow> batch | None \<Rightarrow> extract_file_features ex))
       globals"

definition fs_size :: "feature_set \<Rightarrow> nat" where
  "fs_size fs = length (fs_entries fs)"

definition file_result :: "feature_set \<times> match_results \<Rightarrow> file_capabilities" where
  "file_result m = \<lparr>fc_features = fst m, fc_matches = snd m, fc_feature_count = fs_size (fst m)\<rparr>"

definition find_file_capabilities ::
    "regex_engine \<Rightarrow> ruleset \<Rightarrow> ('f, 'b, 'i) extractor \<Rightarrow> feature_batch option \<Rightarrow> file_capabilities expected" where
  "find_file_capabilities rx rs ex cached =
     sbind (ruleset_match rx rs kFile (file_scope_feature_set ex cached (extract_global_features ex))
              (get_base_address ex)) (\<lambda>m. Inr (file_result m))"

definition find_limitation_capabilities ::
    "regex_engine \<Rightarrow> ruleset \<Rightarrow> ('f, 'b, 'i) extractor \<Rightarrow> feature_batch option \<Rightarrow>
     file_capabilities expected option" where
  "find_limitation_capabilities rx rs ex cached =
     map_option (\<lambda>gate.
       sbind (engine_match rx (map Some gate)
                (file_scope_feature_set ex cached (extract_global_features ex)) (get_base_address ex))
         (\<lambda>m. Inr (file_result m)))
       (limitation_gate_rules rs)"

definition has_static_limitation :: "key_order \<Rightarrow> ruleset \<Rightarrow> file_capabilities \<Rightarrow> bool" where
  "has_static_limitation ord rs caps =
     list_ex (\<lambda>n. case rs_find rs n of None \<Rightarrow> False | Some r \<Rightarrow> is_limitation r) (ord (fc_matches caps))"

section \<open>The passes per scope\<close>

record instruction_capabilities =
  ic_features :: feature_set
  ic_matches :: match_results

record basic_block_capabilities =
  bc_features :: feature_set
  bc_matches :: match_results
  bc_insn_matches :: match_results

record code_capabilities =
  function_matches :: match_results
  bb_matches :: match_results
  insn_matches :: match_results
  code_feature_count :: nat

definition merge_into :: "match_results \<Rightarrow> match_results \<Rightarrow> match_results" where
  "merge_into dst src = (\<lambda>n. dst n @ src n)"

fun inject_names :: "feature_set \<Rightarrow> ruleset \<Rightarrow> match_results \<Rightarrow> string list \<Rightarrow> feature_set" where
  "inject_names fs rs m [] = fs"
| "inject_names fs rs m (n # ns) =
     inject_names (case rs_find rs n of None \<Rightarrow> fs | Some r \<Rightarrow> index_rule_matches fs r (map fst (m n))) rs m ns"

definition inject_match_features :: "key_order \<Rightarrow> feature_set \<Rightarrow> ruleset \<Rightarrow> match_results \<Rightarrow> feature_set" where
  "inject_match_features ord fs rs m = inject_names fs rs m (ord m)"

definition find_instruction_capabilities ::
    "regex_engine \<Rightarrow> ruleset \<Rightarrow> ('f, 'b, 'i) extractor \<Rightarrow> 'f \<Rightarrow> 'b \<Rightarrow> 'i \<Rightarrow> feature_batch \<Rightarrow>
     instruction_capabilities expected" where
  "find_instruction_capabilities rx rs ex fh bbh ih globals =
     sbind (ruleset_match rx rs kInstruction
              (fs_add_all (fs_add_all empty_set (extract_insn_features ex fh bbh ih)) globals) (ih_addr ex ih))
       (\<lambda>m. Inr \<lparr>ic_features = fst m, ic_matches = snd m\<rparr>)"

fun instructions_loop ::
    "regex_engine \<Rightarrow> ruleset \<Rightarrow> ('f, 'b, 'i) extractor \<Rightarrow> 'f \<Rightarrow> 'b \<Rightarrow> feature_batch \<Rightarrow> 'i list \<Rightarrow>
     feature_set \<Rightarrow> match_results \<Rightarrow> (feature_set \<times> match_results) expected" where
  "instructions_loop rx rs ex fh bbh globals [] fs acc = Inr (fs, acc)"
| "instructions_loop rx rs ex fh bbh globals (ih # ihs) fs acc =
     sbind (find_instruction_capabilities rx rs ex fh bbh ih globals) (\<lambda>caps.
       instructions_loop rx rs ex fh bbh globals ihs
         (fs_merge_in fs (ic_features caps)) (merge_into acc (ic_matches caps)))"

definition find_basic_block_capabilities ::
    "regex_engine \<Rightarrow> ruleset \<Rightarrow> ('f, 'b, 'i) extractor \<Rightarrow> 'f \<Rightarrow> 'b \<Rightarrow> feature_batch \<Rightarrow>
     basic_block_capabilities expected" where
  "find_basic_block_capabilities rx rs ex fh bbh globals =
     sbind (instructions_loop rx rs ex fh bbh globals (get_instructions ex fh bbh) empty_set no_results)
       (\<lambda>(fs, insns).
       sbind (ruleset_match rx rs kBasicBlockScope
                (fs_add_all (fs_add_all fs (extract_basic_block_features ex fh bbh)) globals) (bbh_addr ex bbh))
         (\<lambda>m. Inr \<lparr>bc_features = fst m, bc_matches = snd m, bc_insn_matches = insns\<rparr>))"

fun blocks_loop ::
    "regex_engine \<Rightarrow> ruleset \<Rightarrow> ('f, 'b, 'i) extractor \<Rightarrow> 'f \<Rightarrow> feature_batch \<Rightarrow> 'b list \<Rightarrow>
     feature_set \<Rightarrow> match_results \<Rightarrow> match_results \<Rightarrow> (feature_set \<times> match_results \<times> match_results) expected" where
  "blocks_loop rx rs ex fh globals [] fs bbs insns = Inr (fs, bbs, insns)"
| "blocks_loop rx rs ex fh globals (bbh # bbhs) fs bbs insns =
     sbind (find_basic_block_capabilities rx rs ex fh bbh globals) (\<lambda>caps.
       blocks_loop rx rs ex fh globals bbhs (fs_merge_in fs (bc_features caps))
         (merge_into bbs (bc_matches caps)) (merge_into insns (bc_insn_matches caps)))"

definition find_code_capabilities ::
    "regex_engine \<Rightarrow> ruleset \<Rightarrow> ('f, 'b, 'i) extractor \<Rightarrow> 'f \<Rightarrow> feature_batch \<Rightarrow> code_capabilities expected" where
  "find_code_capabilities rx rs ex fh globals =
     sbind (blocks_loop rx rs ex fh globals (get_basic_blocks ex fh) empty_set no_results no_results)
       (\<lambda>(fs, bbs, insns).
       sbind (ruleset_match rx rs kFunction
                (fs_add_all (fs_add_all fs (extract_function_features ex fh)) globals) (fh_addr ex fh))
         (\<lambda>m. Inr \<lparr>function_matches = snd m, bb_matches = bbs, insn_matches = insns,
                  code_feature_count = fs_size (fst m)\<rparr>))"

section \<open>The pool of workers\<close>

text \<open>
  \<open>run_indexed\<close>: every worker claims an index from the shared counter, runs the body on it and
  claims again, until the counter has passed the end or its body throws.  A claim is one atomic
  step; a run touches only the slot of its index, so it is one step too.
\<close>

datatype worker = Ready | Running nat | Stopped

record 'a pool =
  pool_next :: nat
  pool_workers :: "worker list"
  pool_slots :: "'a option list"
  pool_error :: "failure option"

definition pool_start :: "nat \<Rightarrow> nat \<Rightarrow> 'a pool" where
  "pool_start n workers =
     \<lparr>pool_next = 0, pool_workers = replicate workers Ready, pool_slots = replicate n None, pool_error = None\<rparr>"

definition set_worker :: "nat \<Rightarrow> worker \<Rightarrow> 'a pool \<Rightarrow> 'a pool" where
  "set_worker w x p = p\<lparr>pool_workers := (pool_workers p)[w := x]\<rparr>"

definition record_error :: "failure \<Rightarrow> 'a pool \<Rightarrow> 'a pool" where
  "record_error e p = (case pool_error p of None \<Rightarrow> p\<lparr>pool_error := Some e\<rparr> | Some _ \<Rightarrow> p)"

definition worker_move :: "nat \<Rightarrow> (nat \<Rightarrow> 'a expected) \<Rightarrow> nat \<Rightarrow> 'a pool \<Rightarrow> 'a pool" where
  "worker_move n body w p =
     (if w \<ge> length (pool_workers p) then p
      else case pool_workers p ! w of
        Ready \<Rightarrow>
          let i = pool_next p; p' = p\<lparr>pool_next := i + 1\<rparr>
          in set_worker w (if i \<ge> n then Stopped else Running i) p'
      | Running i \<Rightarrow>
          (case body i of
             Inr v \<Rightarrow> set_worker w Ready (p\<lparr>pool_slots := (pool_slots p)[i := Some v]\<rparr>)
           | Inl e \<Rightarrow> set_worker w Stopped (record_error e p))
      | Stopped \<Rightarrow> p)"

text \<open>A schedule says whose turn it is; the pool is joined once all its workers have stopped.\<close>

fun run_schedule :: "nat \<Rightarrow> (nat \<Rightarrow> 'a expected) \<Rightarrow> nat list \<Rightarrow> 'a pool \<Rightarrow> 'a pool" where
  "run_schedule n body [] p = p"
| "run_schedule n body (w # ws) p = run_schedule n body ws (worker_move n body w p)"

definition pool_joined :: "'a pool \<Rightarrow> bool" where
  "pool_joined p = list_all (\<lambda>w. w = Stopped) (pool_workers p)"

definition run_indexed :: "nat \<Rightarrow> nat \<Rightarrow> (nat \<Rightarrow> 'a expected) \<Rightarrow> nat list \<Rightarrow> 'a pool option" where
  "run_indexed n workers body schedule =
     (let p = run_schedule n body schedule (pool_start n (max 1 workers))
      in if pool_joined p then Some p else None)"

definition kMinFunctionsPerWorker :: nat where "kMinFunctionsPerWorker = 24"

definition resolve_worker_count :: "nat \<Rightarrow> nat \<Rightarrow> nat \<Rightarrow> nat" where
  "resolve_worker_count hardware_concurrency requested work =
     (if requested = 1 \<or> work \<le> kMinFunctionsPerWorker then 1
      else
        let want = (if requested = 0 then (if hardware_concurrency = 0 then 1 else hardware_concurrency)
                    else requested);
            by_work = work div kMinFunctionsPerWorker mod 2 ^ 32;
            want' = (if by_work < want then by_work else want)
        in if want' = 0 then 1 else want')"

section \<open>The whole image\<close>

text \<open>A slot whose function is a library function has no capabilities.\<close>

definition analyze_one ::
    "regex_engine \<Rightarrow> ruleset \<Rightarrow> ('f, 'b, 'i) extractor \<Rightarrow> feature_batch \<Rightarrow> nat \<Rightarrow> code_capabilities option expected" where
  "analyze_one rx rs ex globals i =
     (let fh = get_functions ex ! i in
      if is_library_function ex (fh_addr ex fh) then Inr None
      else sbind (find_code_capabilities rx rs ex fh globals) (\<lambda>caps. Inr (Some caps)))"

record static_capabilities =
  all_matches :: match_results
  sc_feature_count :: nat
  library_functions :: "address list"
  per_function_feature_counts :: "(address \<times> nat) list"

definition default_slot :: code_capabilities where
  "default_slot = \<lparr>function_matches = no_results, bb_matches = no_results, insn_matches = no_results,
     code_feature_count = 0\<rparr>"

definition slot_value_of :: "code_capabilities option option \<Rightarrow> code_capabilities option" where
  "slot_value_of s = (case s of None \<Rightarrow> Some default_slot | Some c \<Rightarrow> c)"

record reduction =
  red_libraries :: "address list"
  red_counts :: "(address \<times> nat) list"
  red_fn :: match_results
  red_bb :: match_results
  red_insn :: match_results

definition reduce_start :: reduction where
  "reduce_start = \<lparr>red_libraries = [], red_counts = [], red_fn = no_results, red_bb = no_results, red_insn = no_results\<rparr>"

definition reduce_one :: "address \<Rightarrow> code_capabilities option \<Rightarrow> reduction \<Rightarrow> reduction" where
  "reduce_one a slot red =
     (case slot of
        None \<Rightarrow> red\<lparr>red_libraries := red_libraries red @ [a], red_counts := red_counts red @ [(a, 0)]\<rparr>
      | Some caps \<Rightarrow>
          red\<lparr>red_counts := red_counts red @ [(a, code_feature_count caps)],
              red_fn := merge_into (red_fn red) (function_matches caps),
              red_bb := merge_into (red_bb red) (bb_matches caps),
              red_insn := merge_into (red_insn red) (insn_matches caps)\<rparr>)"

fun reduce_slots :: "(address \<times> code_capabilities option) list \<Rightarrow> reduction \<Rightarrow> reduction" where
  "reduce_slots [] red = red"
| "reduce_slots ((a, slot) # slots) red = reduce_slots slots (reduce_one a slot red)"

definition finish_file_scope ::
    "regex_engine \<Rightarrow> key_order \<Rightarrow> ruleset \<Rightarrow> ('f, 'b, 'i) extractor \<Rightarrow> feature_batch option \<Rightarrow> feature_batch \<Rightarrow>
     reduction \<Rightarrow> static_capabilities expected" where
  "finish_file_scope rx ord rs ex cached globals red =
     (let fs0 = file_scope_feature_set ex cached globals;
          fs1 = inject_match_features ord fs0 rs (red_fn red);
          fs2 = inject_match_features ord fs1 rs (red_bb red);
          fs3 = inject_match_features ord fs2 rs (red_insn red)
      in sbind (ruleset_match rx rs kFile fs3 (get_base_address ex)) (\<lambda>m.
           Inr \<lparr>all_matches = merge_into (merge_into (merge_into (merge_into no_results (snd m)) (red_fn red))
                                 (red_bb red)) (red_insn red),
                sc_feature_count = fs_size (fst m),
                library_functions = red_libraries red,
                per_function_feature_counts = red_counts red\<rparr>))"

text \<open>\<open>None\<close> stands for a schedule that ends before the pool is joined.\<close>

definition find_static_capabilities ::
    "regex_engine \<Rightarrow> key_order \<Rightarrow> ruleset \<Rightarrow> ('f, 'b, 'i) extractor \<Rightarrow> nat \<Rightarrow> nat \<Rightarrow> feature_batch option \<Rightarrow>
     nat list \<Rightarrow> static_capabilities expected option" where
  "find_static_capabilities rx ord rs ex hardware_concurrency threads cached schedule =
     (let globals = extract_global_features ex;
          n = length (get_functions ex);
          workers = resolve_worker_count hardware_concurrency threads n
      in map_option (\<lambda>p.
           case pool_error p of
             Some e \<Rightarrow> Inl e
           | None \<Rightarrow>
               finish_file_scope rx ord rs ex cached globals
                 (reduce_slots (zip (map (fh_addr ex) (get_functions ex)) (map slot_value_of (pool_slots p)))
                    reduce_start))
           (run_indexed n workers (analyze_one rx rs ex globals) schedule))"

end
