(* ===== verification/Capabilities_Correct.thy ===== *)
theory Capabilities_Correct
  imports Capabilities Parsed_Rules
begin

text \<open>
  What the composition promises: the pool of workers ends under every fair schedule with what one
  worker alone would compute, the limitation gate decides as the whole file scope does, and every
  match that is reported lies where its rule looks.
\<close>

section \<open>The pool ends\<close>

definition turns_left :: "nat \<Rightarrow> nat \<Rightarrow> 'a pool \<Rightarrow> nat" where
  "turns_left n w p =
     (case pool_workers p ! w of
        Ready \<Rightarrow> 2 * (n - pool_next p) + 1
      | Running i \<Rightarrow> 2 * (n - pool_next p) + 2
      | Stopped \<Rightarrow> 0)"

lemma move_workers [simp]: "length (pool_workers (worker_move n body w p)) = length (pool_workers p)"
  by (simp add: worker_move_def set_worker_def record_error_def Let_def split: worker.split sum.split option.split)

lemma turn_spent: "w < length (pool_workers p) \<Longrightarrow> turns_left n w (worker_move n body w p) \<le> turns_left n w p - 1"
  by (auto simp: worker_move_def set_worker_def record_error_def turns_left_def Let_def
      split: worker.split sum.split option.split)

lemma turn_of_another:
  "v \<noteq> w \<Longrightarrow> w < length (pool_workers p) \<Longrightarrow> turns_left n w (worker_move n body v p) \<le> turns_left n w p"
  by (auto simp: worker_move_def set_worker_def record_error_def turns_left_def Let_def
      split: worker.split sum.split option.split)

lemma schedule_workers [simp]:
  "length (pool_workers (run_schedule n body ws p)) = length (pool_workers p)"
  by (induction ws arbitrary: p) simp_all

lemma turns_of_schedule:
  "w < length (pool_workers p) \<Longrightarrow>
   turns_left n w (run_schedule n body ws p) \<le> turns_left n w p - count_list ws w"
proof (induction ws arbitrary: p)
  case (Cons v ws)
  have "turns_left n w (run_schedule n body ws (worker_move n body v p)) \<le>
      turns_left n w (worker_move n body v p) - count_list ws w"
    using Cons by simp
  also have "\<dots> \<le> turns_left n w p - count_list (v # ws) w"
    using turn_spent [of w p n body] turn_of_another [of v w p n body] Cons.prems
    by (cases "v = w") auto
  finally show ?case by simp
qed simp

definition fair_schedule :: "nat \<Rightarrow> nat \<Rightarrow> nat list \<Rightarrow> bool" where
  "fair_schedule n workers schedule \<longleftrightarrow> (\<forall>w<workers. 2 * n + 1 \<le> count_list schedule w)"

lemma fair_joined:
  fixes body :: "nat \<Rightarrow> 'a expected"
  assumes "fair_schedule n (max 1 workers) schedule"
  shows "\<exists>p. run_indexed n workers body schedule = Some p"
proof -
  define start :: "'a pool" where "start = pool_start n (max 1 workers)"
  let ?p = "run_schedule n body schedule start"
  have "pool_workers ?p ! w = Stopped" if "w < max 1 workers" for w
  proof -
    have "turns_left n w ?p \<le> turns_left n w start - count_list schedule w"
      using that by (intro turns_of_schedule) (simp add: start_def pool_start_def)
    moreover have "turns_left n w start = 2 * n + 1"
      using that by (simp add: turns_left_def start_def pool_start_def)
    ultimately have "turns_left n w ?p = 0" using assms that by (auto simp: fair_schedule_def)
    then show ?thesis by (auto simp: turns_left_def split: worker.splits)
  qed
  then have "pool_joined ?p" by (auto simp: pool_joined_def list_all_length start_def pool_start_def)
  then show ?thesis by (simp add: run_indexed_def start_def Let_def)
qed

section \<open>What a joined pool holds\<close>

definition slot_ok :: "(nat \<Rightarrow> 'a expected) \<Rightarrow> 'a pool \<Rightarrow> nat \<Rightarrow> bool" where
  "slot_ok body p i \<longleftrightarrow>
     (case pool_slots p ! i of
        Some v \<Rightarrow> body i = Inr v
      | None \<Rightarrow> pool_next p \<le> i \<or> Running i \<in> set (pool_workers p) \<or> pool_error p \<noteq> None)"

definition pool_inv :: "nat \<Rightarrow> (nat \<Rightarrow> 'a expected) \<Rightarrow> 'a pool \<Rightarrow> bool" where
  "pool_inv n body p \<longleftrightarrow>
     length (pool_slots p) = n \<and> (\<forall>i<n. slot_ok body p i) \<and>
     (\<forall>i. Running i \<in> set (pool_workers p) \<longrightarrow> i < n \<and> i < pool_next p) \<and>
     (Stopped \<in> set (pool_workers p) \<longrightarrow> n \<le> pool_next p \<or> pool_error p \<noteq> None) \<and>
     (\<forall>e. pool_error p = Some e \<longrightarrow> (\<exists>i<n. body i = Inl e))"

lemma pool_inv_start: "pool_inv n body (pool_start n workers)"
  by (auto simp: pool_inv_def pool_start_def slot_ok_def)

lemma running_elsewhere:
  "w < length ws \<Longrightarrow> Running j \<in> set ws \<Longrightarrow> ws ! w \<noteq> Running j \<Longrightarrow> Running j \<in> set (ws[w := x])"
  by (metis in_set_conv_nth length_list_update nth_list_update_neq)

lemma in_update: "x \<in> set (ws[w := y]) \<Longrightarrow> x = y \<or> x \<in> set ws"
  using set_update_subset_insert by fastforce

lemma pool_inv_claim:
  assumes inv: "pool_inv n body p" and w: "w < length (pool_workers p)" "pool_workers p ! w = Ready"
    and x: "x = (if pool_next p \<ge> n then Stopped else Running (pool_next p))"
  shows "pool_inv n body (set_worker w x (p\<lparr>pool_next := pool_next p + 1\<rparr>))"
proof -
  let ?ws = "(pool_workers p)[w := x]"
  have x_in: "x \<in> set ?ws" using w(1) by (rule set_update_memI)
  have kept: "Running j \<in> set ?ws" if "Running j \<in> set (pool_workers p)" for j
    using running_elsewhere [OF w(1) that] w(2) by simp
  have "slot_ok body (set_worker w x (p\<lparr>pool_next := pool_next p + 1\<rparr>)) j" if "j < n" for j
  proof -
    have "slot_ok body p j" using inv that by (simp add: pool_inv_def)
    moreover have "Suc (pool_next p) \<le> j \<or> Running j \<in> set ?ws" if "pool_next p \<le> j"
      using that x x_in \<open>j < n\<close> by (cases "pool_next p = j") auto
    ultimately show ?thesis using kept by (auto simp: slot_ok_def set_worker_def split: option.splits)
  qed
  moreover have "i < n \<and> i < Suc (pool_next p)" if "Running i \<in> set ?ws" for i
    using in_update [OF that] inv x by (auto simp: pool_inv_def split: if_split_asm)
  moreover have "n \<le> Suc (pool_next p) \<or> pool_error p \<noteq> None" if "Stopped \<in> set ?ws"
    using in_update [OF that] inv x by (auto simp: pool_inv_def split: if_split_asm)
  ultimately show ?thesis using inv by (auto simp: pool_inv_def set_worker_def)
qed

lemma pool_inv_done:
  assumes inv: "pool_inv n body p" and w: "w < length (pool_workers p)" "pool_workers p ! w = Running i"
    and v: "body i = Inr v"
  shows "pool_inv n body (set_worker w Ready (p\<lparr>pool_slots := (pool_slots p)[i := Some v]\<rparr>))"
proof -
  let ?p = "set_worker w Ready (p\<lparr>pool_slots := (pool_slots p)[i := Some v]\<rparr>)"
  have "Running i \<in> set (pool_workers p)" using w by (metis nth_mem)
  then have i: "i < n" "length (pool_slots p) = n" using inv by (auto simp: pool_inv_def)
  have kept: "Running j \<in> set (pool_workers ?p)" if "Running j \<in> set (pool_workers p)" "j \<noteq> i" for j
    using running_elsewhere [OF w(1) that(1)] w(2) that(2) by (simp add: set_worker_def)
  have "slot_ok body ?p j" if "j < n" for j
  proof (cases "j = i")
    case False
    have "slot_ok body p j" using inv that by (simp add: pool_inv_def)
    with False kept show ?thesis by (auto simp: slot_ok_def set_worker_def split: option.splits)
  qed (use i v in \<open>simp add: slot_ok_def set_worker_def\<close>)
  then show ?thesis
    using inv i by (auto simp: pool_inv_def set_worker_def dest!: in_update)
qed

lemma pool_inv_fail:
  assumes inv: "pool_inv n body p" and w: "w < length (pool_workers p)" "pool_workers p ! w = Running i"
    and e: "body i = Inl e"
  shows "pool_inv n body (set_worker w Stopped (record_error e p))"
proof -
  have "Running i \<in> set (pool_workers p)" using w by (metis nth_mem)
  then have "i < n" using inv by (auto simp: pool_inv_def)
  then show ?thesis
    using inv e
    by (auto simp: pool_inv_def slot_ok_def set_worker_def record_error_def dest!: in_update split: option.splits)
qed

lemma pool_inv_move:
  assumes "pool_inv n body p"
  shows "pool_inv n body (worker_move n body w p)"
  using assms pool_inv_claim [OF assms, of w] pool_inv_done [OF assms, of w] pool_inv_fail [OF assms, of w]
  by (auto simp: worker_move_def Let_def split: worker.split sum.split)

lemma pool_inv_schedule: "pool_inv n body p \<Longrightarrow> pool_inv n body (run_schedule n body ws p)"
  by (induction ws arbitrary: p) (simp_all add: pool_inv_move)

lemma joined_result:
  assumes "run_indexed n workers body schedule = Some p" and "\<forall>i<n. \<exists>v. body i = Inr v"
  shows "pool_error p = None \<and> map Inr (pool_slots p) = map (\<lambda>i. map_sum id Some (body i)) [0..<n]"
proof -
  have p: "p = run_schedule n body schedule (pool_start n (max 1 workers))" "pool_joined p"
    using assms(1) by (auto simp: run_indexed_def Let_def split: if_split_asm)
  then have inv: "pool_inv n body p" using pool_inv_schedule pool_inv_start by blast
  then have err: "pool_error p = None" using assms(2) by (cases "pool_error p") (auto simp: pool_inv_def)
  have "0 < length (pool_workers p)" by (simp add: p(1) pool_start_def)
  moreover have "set (pool_workers p) \<subseteq> {Stopped}" using p(2) by (auto simp: pool_joined_def list_all_iff)
  ultimately have stopped: "set (pool_workers p) = {Stopped}"
    by (metis length_greater_0_conv set_empty subset_singletonD)
  then have "n \<le> pool_next p" using inv err by (auto simp: pool_inv_def)
  then have "\<exists>v. pool_slots p ! i = Some v \<and> body i = Inr v" if "i < n" for i
    using inv err stopped that by (auto simp: pool_inv_def slot_ok_def split: option.splits)
  then have "map Inr (pool_slots p) = map (\<lambda>i. map_sum id Some (body i)) [0..<n]"
    using inv by (intro nth_equalityI) (fastforce simp: pool_inv_def)+
  with err show ?thesis by simp
qed

section \<open>Matches of one scope\<close>

text \<open>Every recorded match is a success at the address given, of a rule of the list.\<close>

definition records :: "rule list \<Rightarrow> address set \<Rightarrow> match_results \<Rightarrow> bool" where
  "records rules sites m \<longleftrightarrow>
     (\<forall>n. \<forall>(a, res)\<in>set (m n). a \<in> sites \<and> res_success res \<and> (\<exists>r\<in>set rules. rule_name r = n))"

lemma records_none [simp]: "records rules sites no_results"
  by (simp add: records_def no_results_def)

lemma records_merge: "records rules sites m \<Longrightarrow> records rules sites m' \<Longrightarrow> records rules sites (merge_into m m')"
  by (auto simp: records_def merge_into_def)

lemma records_mono: "records rules A m \<Longrightarrow> A \<subseteq> B \<Longrightarrow> records rules B m"
  unfolding records_def by blast

lemma match_loop_records:
  "match_loop rx (map Some todo) fs a out = Inr (fs', out') \<Longrightarrow> set todo \<subseteq> set rules \<Longrightarrow>
   records rules {a} out \<Longrightarrow> records rules {a} out'"
proof (induction todo arbitrary: fs out)
  case (Cons r todo)
  obtain b where q: "evaluate_quick rx fs (rule_statement r) = Inr b" using Cons.prems(1) by auto
  show ?case
  proof (cases b)
    case False
    then show ?thesis using Cons q by simp
  next
    case True
    then obtain full where f: "evaluate rx fs False (rule_statement r) = Inr full"
      and rest: "match_loop rx (map Some todo) (index_rule_matches fs r [a]) a (add_result out (rule_name r) a full) = Inr (fs', out')"
      using Cons.prems(1) q by auto
    have "res_success full" using quick_agrees_with_evaluate' [OF f] q True by simp
    then have "records rules {a} (add_result out (rule_name r) a full)"
      using Cons.prems(2,3) by (auto simp: records_def add_result_def)
    then show ?thesis using Cons.IH [OF rest] Cons.prems(2) by simp
  qed
qed simp

lemma scope_match:
  assumes "from_rules rules = Inr rs"
  shows "\<exists>m. ruleset_match rx rs s fs a = Inr m \<and> records (rules_by_scope rs s) {a} (snd m)"
proof -
  obtain fs' out where m: "ruleset_match rx rs s fs a = Inr (fs', out)"
    using ruleset_match_total [OF assms, of rx s fs a] by auto
  then have "match_loop rx (map Some (rules_by_scope rs s)) fs a no_results = Inr (fs', out)"
    by (simp add: ruleset_match_engine [OF assms] engine_match_def)
  from match_loop_records [OF this order_refl records_none] m show ?thesis by simp
qed

definition code_functions :: "('f, 'b, 'i) extractor \<Rightarrow> 'f set" where
  "code_functions ex = {f \<in> set (get_functions ex). \<not> is_library_function ex (fh_addr ex f)}"

definition block_sites :: "('f, 'b, 'i) extractor \<Rightarrow> 'f \<Rightarrow> address set" where
  "block_sites ex f = bbh_addr ex ` set (get_basic_blocks ex f)"

definition instruction_sites :: "('f, 'b, 'i) extractor \<Rightarrow> 'f \<Rightarrow> address set" where
  "instruction_sites ex f = (\<Union>b\<in>set (get_basic_blocks ex f). ih_addr ex ` set (get_instructions ex f b))"

text \<open>Where the rules of a scope look.\<close>

definition scope_sites :: "('f, 'b, 'i) extractor \<Rightarrow> rule_scope \<Rightarrow> address set" where
  "scope_sites ex s =
     (case s of
        kFile \<Rightarrow> {get_base_address ex}
      | kFunction \<Rightarrow> fh_addr ex ` code_functions ex
      | kBasicBlockScope \<Rightarrow> (\<Union>f\<in>code_functions ex. block_sites ex f)
      | kInstruction \<Rightarrow> (\<Union>f\<in>code_functions ex. instruction_sites ex f)
      | _ \<Rightarrow> {})"

lemma instruction_pass:
  assumes built: "from_rules rules = Inr rs"
  shows "records (rules_by_scope rs kInstruction) A acc \<Longrightarrow> ih_addr ex ` set ihs \<subseteq> A \<Longrightarrow>
    \<exists>fs' acc'. instructions_loop rx rs ex f b globals ihs fs acc = Inr (fs', acc') \<and>
      records (rules_by_scope rs kInstruction) A acc'"
proof (induction ihs arbitrary: fs acc)
  case (Cons i ihs)
  obtain m where m: "ruleset_match rx rs kInstruction
        (fs_add_all (fs_add_all empty_set (extract_insn_features ex f b i)) globals) (ih_addr ex i) = Inr m"
      "records (rules_by_scope rs kInstruction) {ih_addr ex i} (snd m)"
    using scope_match [OF built] by blast
  then have "records (rules_by_scope rs kInstruction) A (merge_into acc (snd m))"
    using Cons.prems by (intro records_merge) (auto intro: records_mono)
  with m Cons show ?case by (simp add: find_instruction_capabilities_def)
qed simp

lemma block_pass:
  assumes built: "from_rules rules = Inr rs"
  shows "\<exists>caps. find_basic_block_capabilities rx rs ex f b globals = Inr caps \<and>
    records (rules_by_scope rs kBasicBlockScope) {bbh_addr ex b} (bc_matches caps) \<and>
    records (rules_by_scope rs kInstruction) (ih_addr ex ` set (get_instructions ex f b)) (bc_insn_matches caps)"
proof -
  obtain fs insns where i: "instructions_loop rx rs ex f b globals (get_instructions ex f b) empty_set no_results = Inr (fs, insns)"
      "records (rules_by_scope rs kInstruction) (ih_addr ex ` set (get_instructions ex f b)) insns"
    using instruction_pass [OF built records_none order_refl] by metis
  moreover obtain m where "ruleset_match rx rs kBasicBlockScope
        (fs_add_all (fs_add_all fs (extract_basic_block_features ex f b)) globals) (bbh_addr ex b) = Inr m"
      "records (rules_by_scope rs kBasicBlockScope) {bbh_addr ex b} (snd m)"
    using scope_match [OF built] by blast
  ultimately show ?thesis by (simp add: find_basic_block_capabilities_def)
qed

lemma blocks_pass:
  assumes built: "from_rules rules = Inr rs"
  shows "records (rules_by_scope rs kBasicBlockScope) A bbs \<Longrightarrow> records (rules_by_scope rs kInstruction) B insns \<Longrightarrow>
    bbh_addr ex ` set bs \<subseteq> A \<Longrightarrow> (\<Union>b\<in>set bs. ih_addr ex ` set (get_instructions ex f b)) \<subseteq> B \<Longrightarrow>
    \<exists>fs' bbs' insns'. blocks_loop rx rs ex f globals bs fs bbs insns = Inr (fs', bbs', insns') \<and>
      records (rules_by_scope rs kBasicBlockScope) A bbs' \<and> records (rules_by_scope rs kInstruction) B insns'"
proof (induction bs arbitrary: fs bbs insns)
  case (Cons b bs)
  obtain caps where c: "find_basic_block_capabilities rx rs ex f b globals = Inr caps"
      "records (rules_by_scope rs kBasicBlockScope) {bbh_addr ex b} (bc_matches caps)"
      "records (rules_by_scope rs kInstruction) (ih_addr ex ` set (get_instructions ex f b)) (bc_insn_matches caps)"
    using block_pass [OF built, of rx ex f b globals] by blast
  have "records (rules_by_scope rs kBasicBlockScope) A (merge_into bbs (bc_matches caps))"
    using Cons.prems(1,3) c(2) by (intro records_merge) (auto intro: records_mono)
  moreover have "records (rules_by_scope rs kInstruction) B (merge_into insns (bc_insn_matches caps))"
    using Cons.prems(2,4) c(3) by (intro records_merge) (auto intro: records_mono)
  ultimately show ?case using Cons.IH Cons.prems(3,4) c(1) by simp
qed simp

definition code_records :: "ruleset \<Rightarrow> address set \<Rightarrow> address set \<Rightarrow> address set \<Rightarrow> code_capabilities \<Rightarrow> bool" where
  "code_records rs F B I caps \<longleftrightarrow>
     records (rules_by_scope rs kFunction) F (function_matches caps) \<and>
     records (rules_by_scope rs kBasicBlockScope) B (bb_matches caps) \<and>
     records (rules_by_scope rs kInstruction) I (insn_matches caps)"

lemma code_pass:
  assumes built: "from_rules rules = Inr rs"
  shows "\<exists>caps. find_code_capabilities rx rs ex f globals = Inr caps \<and>
    code_records rs {fh_addr ex f} (block_sites ex f) (instruction_sites ex f) caps"
proof -
  obtain fs bbs insns where "blocks_loop rx rs ex f globals (get_basic_blocks ex f) empty_set no_results no_results = Inr (fs, bbs, insns)"
      "records (rules_by_scope rs kBasicBlockScope) (block_sites ex f) bbs"
      "records (rules_by_scope rs kInstruction) (instruction_sites ex f) insns"
    using blocks_pass [OF built records_none records_none, of ex "get_basic_blocks ex f"]
    unfolding block_sites_def instruction_sites_def by (metis order_refl)
  moreover obtain m where "ruleset_match rx rs kFunction
        (fs_add_all (fs_add_all fs (extract_function_features ex f)) globals) (fh_addr ex f) = Inr m"
      "records (rules_by_scope rs kFunction) {fh_addr ex f} (snd m)"
    using scope_match [OF built] by blast
  ultimately show ?thesis by (simp add: find_code_capabilities_def code_records_def)
qed

section \<open>The whole image\<close>

lemma analyze_total:
  assumes built: "from_rules rules = Inr rs" and i: "i < length (get_functions ex)"
  shows "\<exists>slot. analyze_one rx rs ex globals i = Inr slot \<and>
    (case slot of None \<Rightarrow> True
     | Some caps \<Rightarrow> code_records rs (scope_sites ex kFunction) (scope_sites ex kBasicBlockScope)
         (scope_sites ex kInstruction) caps)"
proof -
  let ?f = "get_functions ex ! i"
  obtain caps where c: "find_code_capabilities rx rs ex ?f globals = Inr caps"
      "code_records rs {fh_addr ex ?f} (block_sites ex ?f) (instruction_sites ex ?f) caps"
    using code_pass [OF built, of rx ex ?f globals] by blast
  show ?thesis
  proof (cases "is_library_function ex (fh_addr ex ?f)")
    case False
    then have "?f \<in> code_functions ex" using i by (simp add: code_functions_def)
    then have "code_records rs (scope_sites ex kFunction) (scope_sites ex kBasicBlockScope)
         (scope_sites ex kInstruction) caps"
      using c(2) unfolding code_records_def scope_sites_def
      by (auto intro!: records_mono elim!: records_mono)
    with c(1) False show ?thesis by (simp add: analyze_one_def Let_def)
  qed (simp add: analyze_one_def Let_def)
qed

text \<open>What one worker alone would put in the slots, and the result of reducing them.\<close>

definition slots_alone ::
    "regex_engine \<Rightarrow> ruleset \<Rightarrow> ('f, 'b, 'i) extractor \<Rightarrow> code_capabilities option list" where
  "slots_alone rx rs ex =
     map (\<lambda>i. projr (analyze_one rx rs ex (extract_global_features ex) i)) [0..<length (get_functions ex)]"

definition reduced :: "regex_engine \<Rightarrow> ruleset \<Rightarrow> ('f, 'b, 'i) extractor \<Rightarrow> reduction" where
  "reduced rx rs ex = reduce_slots (zip (map (fh_addr ex) (get_functions ex)) (slots_alone rx rs ex)) reduce_start"

lemma pool_slots_alone:
  assumes built: "from_rules rules = Inr rs"
    and p: "run_indexed (length (get_functions ex)) workers (analyze_one rx rs ex (extract_global_features ex)) schedule = Some p"
  shows "pool_error p = None \<and> map slot_value_of (pool_slots p) = slots_alone rx rs ex"
proof -
  let ?body = "analyze_one rx rs ex (extract_global_features ex)" and ?n = "length (get_functions ex)"
  have total: "\<forall>i<?n. \<exists>v. ?body i = Inr v" using analyze_total [OF built] by blast
  from joined_result [OF p total]
  have err: "pool_error p = None" and slots: "map Inr (pool_slots p) = map (\<lambda>i. map_sum id Some (?body i)) [0..<?n]"
    by auto
  have len: "length (pool_slots p) = ?n" using arg_cong [OF slots, of length] by simp
  have "pool_slots p ! i = Some (projr (?body i))" if "i < ?n" for i
  proof -
    have "Inr (pool_slots p ! i) = map_sum id Some (?body i)"
      using arg_cong [OF slots, of "\<lambda>l. l ! i"] that len by simp
    then show ?thesis using total that by fastforce
  qed
  then have "map slot_value_of (pool_slots p) = slots_alone rx rs ex"
    using len by (intro nth_equalityI) (simp_all add: slots_alone_def slot_value_of_def)
  with err show ?thesis by simp
qed

lemma static_result:
  assumes built: "from_rules rules = Inr rs"
  shows "find_static_capabilities rx ord rs ex hc threads cached schedule =
    map_option (\<lambda>p :: code_capabilities option pool.
        finish_file_scope rx ord rs ex cached (extract_global_features ex) (reduced rx rs ex))
      (run_indexed (length (get_functions ex)) (resolve_worker_count hc threads (length (get_functions ex)))
        (analyze_one rx rs ex (extract_global_features ex)) schedule)"
proof (cases "run_indexed (length (get_functions ex)) (resolve_worker_count hc threads (length (get_functions ex)))
    (analyze_one rx rs ex (extract_global_features ex)) schedule")
  case (Some p)
  with pool_slots_alone [OF built Some] show ?thesis
    by (simp add: find_static_capabilities_def Let_def reduced_def)
qed (simp add: find_static_capabilities_def Let_def)

definition reduction_records :: "ruleset \<Rightarrow> ('f, 'b, 'i) extractor \<Rightarrow> reduction \<Rightarrow> bool" where
  "reduction_records rs ex red \<longleftrightarrow>
     records (rules_by_scope rs kFunction) (scope_sites ex kFunction) (red_fn red) \<and>
     records (rules_by_scope rs kBasicBlockScope) (scope_sites ex kBasicBlockScope) (red_bb red) \<and>
     records (rules_by_scope rs kInstruction) (scope_sites ex kInstruction) (red_insn red)"

lemma reduce_slots_records:
  "\<forall>(a, slot)\<in>set slots. (case slot of None \<Rightarrow> True
     | Some caps \<Rightarrow> code_records rs (scope_sites ex kFunction) (scope_sites ex kBasicBlockScope)
         (scope_sites ex kInstruction) caps) \<Longrightarrow>
   reduction_records rs ex red \<Longrightarrow> reduction_records rs ex (reduce_slots slots red)"
proof (induction slots arbitrary: red)
  case (Cons x slots)
  obtain a slot where x: "x = (a, slot)" by fastforce
  have "reduction_records rs ex (reduce_one a slot red)"
    using Cons.prems x
    by (auto simp: reduction_records_def reduce_one_def code_records_def records_merge split: option.splits)
  with Cons x show ?case by simp
qed simp

lemma reduced_records:
  assumes built: "from_rules rules = Inr rs"
  shows "reduction_records rs ex (reduced rx rs ex)"
  unfolding reduced_def
proof (rule reduce_slots_records)
  have ok: "case slot of None \<Rightarrow> True
     | Some caps \<Rightarrow> code_records rs (scope_sites ex kFunction) (scope_sites ex kBasicBlockScope)
         (scope_sites ex kInstruction) caps" if slot: "slot \<in> set (slots_alone rx rs ex)" for slot
  proof -
    obtain i where "i < length (get_functions ex)" "slot = projr (analyze_one rx rs ex (extract_global_features ex) i)"
      using slot by (auto simp: slots_alone_def)
    with analyze_total [OF built this(1), of rx "extract_global_features ex"] show ?thesis by auto
  qed
  show "\<forall>(a, slot)\<in>set (zip (map (fh_addr ex) (get_functions ex)) (slots_alone rx rs ex)). (case slot of None \<Rightarrow> True
     | Some caps \<Rightarrow> code_records rs (scope_sites ex kFunction) (scope_sites ex kBasicBlockScope)
         (scope_sites ex kInstruction) caps)"
    using ok by (auto dest!: set_zip_rightD)
  show "reduction_records rs ex reduce_start"
    by (simp add: reduction_records_def reduce_start_def)
qed

lemma finish_result:
  assumes built: "from_rules rules = Inr rs"
  shows "\<exists>m caps. finish_file_scope rx ord rs ex cached globals red = Inr caps \<and>
    records (rules_by_scope rs kFile) {get_base_address ex} m \<and>
    all_matches caps = (\<lambda>n. m n @ red_fn red n @ red_bb red n @ red_insn red n)"
proof -
  let ?fs = "inject_match_features ord (inject_match_features ord (inject_match_features ord
      (file_scope_feature_set ex cached globals) rs (red_fn red)) rs (red_bb red)) rs (red_insn red)"
  obtain m where "ruleset_match rx rs kFile ?fs (get_base_address ex) = Inr m"
      "records (rules_by_scope rs kFile) {get_base_address ex} (snd m)"
    using scope_match [OF built] by blast
  then show ?thesis
    by (auto simp: finish_file_scope_def Let_def merge_into_def no_results_def)
qed

section \<open>The closure of the limitation rules\<close>

definition gate_edges :: "ruleset \<Rightarrow> (rule \<times> rule) set" where
  "gate_edges rs = {(r, d). d \<in> set (rule_targets rs r)}"

lemma ref_targets_known: "indexed rs \<Longrightarrow> set (ref_targets rs ref) \<subseteq> set (present (rs_rules rs))"
  by (auto simp: ref_targets_def rs_find_def rules_in_namespace_def indexed_def split: option.splits dest!: sym [of "Some _"])

lemma rule_targets_known: "indexed rs \<Longrightarrow> set (rule_targets rs r) \<subseteq> set (present (rs_rules rs))"
  using ref_targets_known by (fastforce simp: rule_targets_def)

lemma edges_closed:
  assumes "\<forall>c\<in>C. set (rule_targets rs c) \<subseteq> C"
  shows "(gate_edges rs)\<^sup>* `` C = C"
proof -
  have "d \<in> C" if "(c, d) \<in> (gate_edges rs)\<^sup>*" "c \<in> C" for c d
    using that by (induction rule: rtrancl_induct) (use assms in \<open>auto simp: gate_edges_def\<close>)
  then show ?thesis by auto
qed

lemma edges_targets:
  "(gate_edges rs)\<^sup>* `` (set (rule_targets rs r) \<union> insert r A) = (gate_edges rs)\<^sup>* `` insert r A"
proof -
  have "(gate_edges rs)\<^sup>* `` set (rule_targets rs r) \<subseteq> (gate_edges rs)\<^sup>* `` {r}"
    unfolding gate_edges_def by (auto intro: converse_rtrancl_into_rtrancl)
  then show ?thesis by auto
qed

lemma gate_loop_closure:
  assumes idx: "indexed rs" and U: "U = set (present (rs_rules rs))"
  shows "set work \<subseteq> U \<Longrightarrow> set closure \<subseteq> U \<Longrightarrow>
    \<forall>c\<in>set closure. set (rule_targets rs c) \<subseteq> set closure \<union> set work \<Longrightarrow>
    \<exists>out. gate_loop rs work closure = Some out \<and> set out = (gate_edges rs)\<^sup>* `` (set work \<union> set closure)"
proof (induction "card (U - set closure)" arbitrary: work closure rule: less_induct)
  case less
  note outer = less.hyps
  show ?case
    using less.prems
  proof (induction work)
    case Nil
    then show ?case using edges_closed [of "set closure" rs] by (simp add: gate_loop.simps)
  next
    case (Cons r work)
    show ?case
    proof (cases "r \<in> set closure")
      case True
      then have "set (r # work) \<union> set closure = set work \<union> set closure" by auto
      moreover have "\<exists>out. gate_loop rs work closure = Some out \<and>
          set out = (gate_edges rs)\<^sup>* `` (set work \<union> set closure)"
        by (rule Cons.IH) (use Cons.prems True in auto)
      ultimately show ?thesis using True by (subst gate_loop.simps) simp
    next
      case False
      let ?work = "rev (rule_targets rs r) @ work"
      have r: "r \<in> U" using Cons.prems(1) by simp
      have smaller: "card (U - set (r # closure)) < card (U - set closure)"
        by (rule psubset_card_mono) (use r False U in auto)
      have step: "set ?work \<subseteq> U" "set (r # closure) \<subseteq> U"
          "\<forall>c\<in>set (r # closure). set (rule_targets rs c) \<subseteq> set (r # closure) \<union> set ?work"
        using Cons.prems r rule_targets_known [OF idx, of r] U by auto
      have "set ?work \<union> set (r # closure) = set (rule_targets rs r) \<union> insert r (set work \<union> set closure)"
        by auto
      then have "\<exists>out. gate_loop rs ?work (r # closure) = Some out \<and>
          set out = (gate_edges rs)\<^sup>* `` insert r (set work \<union> set closure)"
        using outer [OF smaller step] by (simp only: edges_targets)
      then show ?thesis using False by (subst gate_loop.simps) simp
    qed
  qed
qed

definition gated :: "ruleset \<Rightarrow> rule set" where
  "gated rs = (gate_edges rs)\<^sup>* `` {l \<in> set (rules_by_scope rs kFile). is_limitation l}"

lemma gate_rules:
  assumes built: "from_rules rules = Inr rs"
  shows "limitation_gate_rules rs = Some (filter (\<lambda>r. r \<in> gated rs) (rules_by_scope rs kFile))"
proof -
  let ?work = "rev (filter is_limitation (rules_by_scope rs kFile))"
  have "set ?work \<subseteq> set (present (rs_rules rs))" using rules_by_scope_order [OF built, of kFile] by auto
  with gate_loop_closure [OF from_rules_indexed(1) [OF built] refl, of ?work "[]"]
  obtain out where "gate_loop rs ?work [] = Some out" "set out = (gate_edges rs)\<^sup>* `` set ?work" by auto
  then show ?thesis by (simp add: limitation_gate_rules_def gated_def conj_commute)
qed

end
