(* ===== verification/Gate_Correct.thy ===== *)
theory Gate_Correct
  imports Capabilities_Correct
begin

text \<open>
  Matching only the rules that a limitation rule can reach decides the limitation exactly as
  matching the whole file scope does: the features a rule outside the closure adds are invisible
  to the rules inside.
\<close>

section \<open>What a set of references can see\<close>

definition seen :: "string set \<Rightarrow> feature \<Rightarrow> bool" where
  "seen K f = (case f of FMatchedRule n \<Rightarrow> n \<in> K | _ \<Rightarrow> True)"

definition visible :: "string set \<Rightarrow> feature_set \<Rightarrow> feature_set" where
  "visible K fs = fs\<lparr>fs_entries := filter (\<lambda>e. seen K (fst e)) (fs_entries fs)\<rparr>"

lemma visible_fields [simp]: "fs_strings (visible K fs) = fs_strings fs" "fs_bytes (visible K fs) = fs_bytes fs"
  by (simp_all add: visible_def)

lemma seen_match [simp]: "seen K (FMatchedRule n) \<longleftrightarrow> n \<in> K"
  by (simp add: seen_def)

lemma equals_match [simp]: "feature_equals g (FMatchedRule n) \<longleftrightarrow> g = FMatchedRule n"
  using feature_equals_sym [of g "FMatchedRule n"] feature_equals_sym [of "FMatchedRule n" g]
  by (auto simp: feature_equals_value_exact)

lemma unseen: "\<not> seen K f \<longleftrightarrow> (\<exists>n. f = FMatchedRule n \<and> n \<notin> K)"
  by (auto simp: seen_def split: feature.splits)

lemma unseen_differs: "\<not> seen K g \<Longrightarrow> seen K f \<Longrightarrow> \<not> feature_equals g f"
  by (auto simp: unseen feature_equals_value_exact)

lemma find_visible: "seen K f \<Longrightarrow> fs_find (visible K fs) f = fs_find fs f"
proof -
  assume f: "seen K f"
  have "entry_find (filter (\<lambda>e. seen K (fst e)) es) f = entry_find es f" for es
    by (induction es) (auto simp: unseen_differs [OF _ f])
  then show ?thesis by (simp add: fs_find_def visible_def)
qed

lemma found_visible: "seen K f \<Longrightarrow> found_locations (visible K fs) f = found_locations fs f"
  by (simp add: found_locations_def find_visible)

lemma scan_visible:
  "(\<And>f. hit f \<Longrightarrow> seen K f) \<Longrightarrow> scan_index hit (visible K fs) sc l = scan_index hit fs sc l"
  by (cases sc; induction l) (simp_all add: found_visible)

lemma hits_seen: "substring_hit v f \<Longrightarrow> seen K f" "bytes_hit b f \<Longrightarrow> seen K f" "regex_hit q p i se f \<Longrightarrow> seen K f"
  by (auto simp: substring_hit_def bytes_hit_def regex_hit_def seen_def split: feature.splits)

lemma os_scan_visible: "os_scan sc (filter (\<lambda>e. seen K (fst e)) es) = os_scan sc es"
  by (induction es) (auto simp: unseen)

lemma entries_visible: "fs_entries (visible K fs) = filter (\<lambda>e. seen K (fst e)) (fs_entries fs)"
  by (simp add: visible_def)

lemma os_entries_visible:
  "list_ex (\<lambda>e. tag (fst e) = kOs) (filter (\<lambda>e. seen K (fst e)) es) = list_ex (\<lambda>e. tag (fst e) = kOs) es"
  by (induction es) (auto simp: unseen)

lemma seen_os [simp]: "seen K (FOs v)"
  by (simp add: seen_def)

lemma feature_eval_visible: "seen K f \<Longrightarrow> feature_eval rx (visible K fs) sc f = feature_eval rx fs sc f"
  by (cases f) (simp_all add: feature_eval_def substring_eval_def regex_eval_def bytes_eval_def os_eval_def
      default_eval_def scan_visible hits_seen os_scan_visible entries_visible find_visible Let_def
      split: prod.split option.split)

lemma feature_matches_visible: "seen K f \<Longrightarrow> feature_matches rx (visible K fs) f = feature_matches rx fs f"
  by (cases f) (simp_all add: feature_matches_def substring_matches_def regex_matches_def bytes_matches_def
      os_matches_def fs_has_def os_entries_visible entries_visible find_visible split: prod.split option.split)

lemma refs_seen: "set (feature_match_ref f) \<subseteq> K \<longleftrightarrow> seen K f"
  by (cases f) (simp_all add: feature_match_ref_def seen_def)

lemma evaluate_visible:
  "set (collect_match_refs s) \<subseteq> K \<Longrightarrow> evaluate rx (visible K fs) sc s = evaluate rx fs sc s"
  "set (collect_children cs) \<subseteq> K \<Longrightarrow> and_loop rx (visible K fs) sc cs = and_loop rx fs sc cs"
  "set (collect_children cs) \<subseteq> K \<Longrightarrow> or_loop rx (visible K fs) sc cs = or_loop rx fs sc cs"
  "set (collect_children cs) \<subseteq> K \<Longrightarrow> some_loop rx (visible K fs) sc n k cs = some_loop rx fs sc n k cs"
proof (induction rx fs sc s and rx fs sc cs and rx fs sc cs and rx fs sc n k cs
    rule: evaluate_and_loop_or_loop_some_loop.induct)
  case (5 rx fs sc f lo hi)
  then show ?case by (simp add: refs_seen range_eval_def find_visible found_visible Let_def)
next
  case (7 rx fs sc f)
  then show ?case by (simp add: refs_seen feature_eval_visible)
qed (auto simp: Let_def intro!: sbind_cong)

lemma quick_visible:
  "set (collect_match_refs s) \<subseteq> K \<Longrightarrow> evaluate_quick rx (visible K fs) s = evaluate_quick rx fs s"
  "set (collect_children cs) \<subseteq> K \<Longrightarrow> and_quick rx (visible K fs) cs = and_quick rx fs cs"
  "set (collect_children cs) \<subseteq> K \<Longrightarrow> or_quick rx (visible K fs) cs = or_quick rx fs cs"
  "set (collect_children cs) \<subseteq> K \<Longrightarrow> some_quick rx (visible K fs) n k cs = some_quick rx fs n k cs"
proof (induction rx fs s and rx fs cs and rx fs cs and rx fs n k cs
    rule: evaluate_quick_and_quick_or_quick_some_quick.induct)
  case (5 rx fs f lo hi)
  then show ?case by (simp add: refs_seen find_visible)
next
  case (7 rx fs f)
  then show ?case by (simp add: refs_seen feature_matches_visible)
qed (auto simp: Let_def intro!: sbind_cong)

section \<open>What a match adds\<close>

lemma insert_visible:
  "visible K (fs_insert fs f A) = (if seen K f then fs_insert (visible K fs) f A else visible K fs)"
proof (cases "seen K f")
  case True
  have "filter (\<lambda>e. seen K (fst e)) (entry_insert es f A) = entry_insert (filter (\<lambda>e. seen K (fst e)) es) f A" for es
    using True by (induction es) (auto simp: unseen_differs [OF _ True])
  then show ?thesis using True find_visible [OF True, of fs]
    by (simp add: fs_insert_def visible_def Let_def)
next
  case False
  have "filter (\<lambda>e. seen K (fst e)) (entry_insert es f A) = filter (\<lambda>e. seen K (fst e)) es" for es
    using False by (induction es) (auto simp: unseen)
  moreover have "tag f = kMatchedRule" using False by (auto simp: unseen)
  ultimately show ?thesis using False by (simp add: fs_insert_def visible_def Let_def)
qed

lemma add_at_all_visible:
  "visible K (add_at_all fs f as) = (if seen K f then add_at_all (visible K fs) f as else visible K fs)"
  by (induction fs f as rule: add_at_all.induct) (simp_all add: fs_add_def insert_visible)

fun emit_seen :: "string set \<Rightarrow> feature_set \<Rightarrow> string list \<Rightarrow> address list \<Rightarrow> feature_set" where
  "emit_seen K fs [] as = fs"
| "emit_seen K fs (n # ns) as = emit_seen K (if n \<in> K then add_at_all fs (FMatchedRule n) as else fs) ns as"

lemma emit_names_visible: "visible K (emit_names fs ns as) = emit_seen K (visible K fs) ns as"
  by (induction fs ns as rule: emit_names.induct) (simp_all add: add_at_all_visible seen_def)

lemma emit_seen_none: "set ns \<inter> K = {} \<Longrightarrow> emit_seen K fs ns as = fs"
  by (induction ns) auto

lemma matches_visible_cong:
  "visible K fs = visible K fs' \<Longrightarrow>
   visible K (index_rule_matches fs r as) = visible K (index_rule_matches fs' r as)"
  by (simp add: index_rule_matches_def emit_names_visible add_at_all_visible seen_def del: emit_names.simps)

lemma matches_invisible:
  "rule_name r \<notin> K \<Longrightarrow> set (namespace_hierarchy r) \<inter> K = {} \<Longrightarrow>
   visible K (index_rule_matches fs r as) = visible K fs"
  by (auto simp: index_rule_matches_def emit_names_visible emit_seen_none simp del: emit_names.simps)

section \<open>The loop over a closed set of rules\<close>

text \<open>The rules of \<open>G\<close> see only \<open>K\<close>, and the others add nothing to it.\<close>

definition separated :: "string set \<Rightarrow> rule set \<Rightarrow> rule \<Rightarrow> bool" where
  "separated K G r \<longleftrightarrow>
     no_subscope (rule_statement r) \<and>
     (if r \<in> G then set (collect_match_refs (rule_statement r)) \<subseteq> K
      else rule_name r \<notin> K \<and> set (namespace_hierarchy r) \<inter> K = {})"

lemma match_step:
  assumes "no_subscope (rule_statement r)"
  obtains full where "evaluate rx fs False (rule_statement r) = Inr full"
    "match_loop rx (Some r # rs) fs a out =
     (if res_success full
      then match_loop rx rs (index_rule_matches fs r [a]) a (add_result out (rule_name r) a full)
      else match_loop rx rs fs a out)"
proof -
  obtain full where f: "evaluate rx fs False (rule_statement r) = Inr full"
    using evaluate_total(1) assms by blast
  with quick_agrees_with_evaluate' [OF f] show ?thesis by (intro that [OF f]) simp
qed

lemma loop_of_closed_set:
  assumes "\<forall>r\<in>set todo. separated K G r" and "distinct (map (\<lambda>r. rule_name r) todo)"
    and "visible K fs = visible K fs'"
    and "\<forall>r\<in>set todo. r \<in> G \<longrightarrow> out (rule_name r) = out' (rule_name r)"
    and "\<forall>n. n \<notin> rule_name ` set todo \<longrightarrow> n \<in> N \<longrightarrow> out n = out' n"
    and "N \<inter> rule_name ` set todo \<subseteq> rule_name ` (set todo \<inter> G)"
    and "match_loop rx (map Some todo) fs a out = Inr (fs1, out1)"
    and "match_loop rx (map Some (filter (\<lambda>r. r \<in> G) todo)) fs' a out' = Inr (fs2, out2)"
  shows "\<forall>n\<in>N. out1 n = out2 n"
  using assms
proof (induction todo arbitrary: fs fs' out out')
  case (Cons r todo)
  have r: "separated K G r" "rule_name r \<notin> rule_name ` set todo" using Cons.prems(1,2) by auto
  have rest: "\<forall>r\<in>set todo. separated K G r" "distinct (map (\<lambda>r. rule_name r) todo)" using Cons.prems(1,2) by auto
  have N: "N \<inter> rule_name ` set todo \<subseteq> rule_name ` (set todo \<inter> G)"
  proof
    fix n assume n: "n \<in> N \<inter> rule_name ` set todo"
    then have "n \<in> rule_name ` (set (r # todo) \<inter> G)" using Cons.prems(6) by auto
    then obtain q where "q \<in> set (r # todo) \<inter> G" "n = rule_name q" by blast
    moreover from this n r(2) have "q \<noteq> r" by auto
    ultimately show "n \<in> rule_name ` (set todo \<inter> G)" by auto
  qed
  obtain full where f: "evaluate rx fs False (rule_statement r) = Inr full"
    and step: "match_loop rx (map Some (r # todo)) fs a out =
     (if res_success full
      then match_loop rx (map Some todo) (index_rule_matches fs r [a]) a (add_result out (rule_name r) a full)
      else match_loop rx (map Some todo) fs a out)"
    using match_step [of r rx fs "map Some todo" a out] r(1) by (auto simp: separated_def)
  show ?case
  proof (cases "r \<in> G")
    case True
    have refs: "set (collect_match_refs (rule_statement r)) \<subseteq> K" using r(1) True by (simp add: separated_def)
    have f': "evaluate rx fs' False (rule_statement r) = Inr full"
      using f evaluate_visible(1) [OF refs] Cons.prems(3) by metis
    have step': "match_loop rx (map Some (filter (\<lambda>r. r \<in> G) (r # todo))) fs' a out' =
       (if res_success full
        then match_loop rx (map Some (filter (\<lambda>r. r \<in> G) todo)) (index_rule_matches fs' r [a]) a
               (add_result out' (rule_name r) a full)
        else match_loop rx (map Some (filter (\<lambda>r. r \<in> G) todo)) fs' a out')"
      using quick_agrees_with_evaluate' [OF f'] f' True by simp
    let ?o = "add_result out (rule_name r) a full" and ?o' = "add_result out' (rule_name r) a full"
    have same: "out (rule_name r) = out' (rule_name r)" using Cons.prems(4) True by simp
    show ?thesis
    proof (cases "res_success full")
      case True
      show ?thesis
      proof (rule Cons.IH [OF rest _ _ _ N])
        show "visible K (index_rule_matches fs r [a]) = visible K (index_rule_matches fs' r [a])"
          using Cons.prems(3) by (rule matches_visible_cong)
        show "\<forall>q\<in>set todo. q \<in> G \<longrightarrow> ?o (rule_name q) = ?o' (rule_name q)"
          using Cons.prems(4) same by (simp add: add_result_def)
        show "\<forall>n. n \<notin> rule_name ` set todo \<longrightarrow> n \<in> N \<longrightarrow> ?o n = ?o' n"
          using Cons.prems(5) same by (simp add: add_result_def)
      qed (use Cons.prems(7) [unfolded step] Cons.prems(8) [unfolded step'] True in simp_all)
    next
      case False
      show ?thesis
      proof (rule Cons.IH [OF rest Cons.prems(3) _ _ N])
        show "\<forall>n. n \<notin> rule_name ` set todo \<longrightarrow> n \<in> N \<longrightarrow> out n = out' n"
          using Cons.prems(5) same by auto
      qed (use Cons.prems(4) Cons.prems(7) [unfolded step] Cons.prems(8) [unfolded step'] False in simp_all)
    qed
  next
    case False
    then have names: "rule_name r \<notin> K" "set (namespace_hierarchy r) \<inter> K = {}"
      using r(1) by (simp_all add: separated_def)
    have notin: "rule_name r \<notin> N" using Cons.prems(6) r(2) False by auto
    let ?o = "add_result out (rule_name r) a full"
    have other: "rule_name q \<noteq> rule_name r" if "q \<in> set todo" for q using r(2) that by (metis image_eqI)
    have gate: "match_loop rx (map Some (filter (\<lambda>r. r \<in> G) todo)) fs' a out' = Inr (fs2, out2)"
      using Cons.prems(8) False by simp
    show ?thesis
    proof (cases "res_success full")
      case True
      show ?thesis
      proof (rule Cons.IH [OF rest _ _ _ N _ gate])
        show "visible K (index_rule_matches fs r [a]) = visible K fs'"
          using matches_invisible [OF names] Cons.prems(3) by simp
        show "\<forall>q\<in>set todo. q \<in> G \<longrightarrow> ?o (rule_name q) = out' (rule_name q)"
          using Cons.prems(4) other by (simp add: add_result_def)
        show "\<forall>n. n \<notin> rule_name ` set todo \<longrightarrow> n \<in> N \<longrightarrow> ?o n = out' n"
          using Cons.prems(5) notin by (auto simp: add_result_def)
      qed (use Cons.prems(7) [unfolded step] True in simp)
    next
      case False
      show ?thesis
      proof (rule Cons.IH [OF rest Cons.prems(3) _ _ N _ gate])
        show "\<forall>n. n \<notin> rule_name ` set todo \<longrightarrow> n \<in> N \<longrightarrow> out n = out' n"
          using Cons.prems(5) notin by auto
      qed (use Cons.prems(4) Cons.prems(7) [unfolded step] False in simp_all)
    qed
  qed
qed auto

section \<open>The gate\<close>

definition gate_names :: "ruleset \<Rightarrow> string set" where
  "gate_names rs = (\<Union>r\<in>gated rs. set (collect_match_refs (rule_statement r)))"

lemma gated_targets:
  assumes "r \<in> gated rs" and "ref \<in> set (collect_match_refs (rule_statement r))" and "d \<in> set (ref_targets rs ref)"
  shows "d \<in> gated rs"
proof -
  have "(r, d) \<in> gate_edges rs" using assms(2,3) by (auto simp: gate_edges_def rule_targets_def)
  then show ?thesis using assms(1) by (auto simp: gated_def intro: rtrancl_into_rtrancl)
qed

lemma gate_separates:
  assumes built: "from_rules rules = Inr rs" and r: "r \<in> set (rules_by_scope rs kFile)"
  shows "separated (gate_names rs) (gated rs) r"
proof -
  have known: "r \<in> set (present (rs_rules rs))" using rules_by_scope_order [OF built, of kFile] r by auto
  note idx = from_rules_indexed(1) [OF built, unfolded indexed_def]
  have "rule_name r \<notin> gate_names rs \<and> set (namespace_hierarchy r) \<inter> gate_names rs = {}" if out: "r \<notin> gated rs"
  proof -
    have "r \<notin> set (ref_targets rs ref)" if "ref \<in> gate_names rs" for ref
      using gated_targets out that by (auto simp: gate_names_def)
    moreover have "r \<in> set (ref_targets rs (rule_name r))"
    proof -
      have "rs_by_name rs (rule_name r) = Some r" using known idx by blast
      then show ?thesis by (simp add: ref_targets_def rs_find_def)
    qed
    moreover have "r \<in> set (ref_targets rs ns)" if "ns \<in> set (namespace_hierarchy r)" for ns
      using known idx that by (simp add: ref_targets_def rules_in_namespace_def)
    ultimately show ?thesis by blast
  qed
  then show ?thesis
    using from_rules_indexed(2) [OF built] known by (auto simp: separated_def gate_names_def)
qed

lemma gate_agrees:
  assumes built: "from_rules rules = Inr rs"
    and full: "ruleset_match rx rs kFile fs a = Inr m"
    and gate: "engine_match rx (map Some (filter (\<lambda>r. r \<in> gated rs) (rules_by_scope rs kFile))) fs a = Inr m'"
    and r: "r \<in> set (rules_by_scope rs kFile)" "r \<in> gated rs"
  shows "snd m (rule_name r) = snd m' (rule_name r)"
proof -
  let ?todo = "rules_by_scope rs kFile"
  note order = rules_by_scope_order [OF built, of kFile]
  have inj: "inj_on (\<lambda>r. rule_name r) (set (present (rs_rules rs)))"
    using from_rules_indexed(1) [OF built] by (simp add: indexed_def distinct_map)
  have "distinct (map (\<lambda>r. rule_name r) ?todo)"
    using order inj by (auto simp: distinct_map intro: inj_on_subset)
  moreover have "match_loop rx (map Some ?todo) fs a no_results = Inr (fst m, snd m)"
    using full by (simp add: ruleset_match_engine [OF built] engine_match_def)
  moreover have "match_loop rx (map Some (filter (\<lambda>r. r \<in> gated rs) ?todo)) fs a no_results = Inr (fst m', snd m')"
    using gate by (simp add: engine_match_def)
  ultimately show ?thesis
    using loop_of_closed_set [of ?todo "gate_names rs" "gated rs" fs fs no_results no_results "{rule_name r}" rx a
        "fst m" "snd m" "fst m'" "snd m'"] gate_separates [OF built] r by auto
qed

definition key_order_ok :: "key_order \<Rightarrow> bool" where
  "key_order_ok ord \<longleftrightarrow>
     (\<forall>m. finite {n. m n \<noteq> []} \<longrightarrow> set (ord m) = {n. m n \<noteq> []} \<and> distinct (ord m))"

lemma records_named:
  assumes "records rules sites m" "m n \<noteq> []"
  shows "\<exists>r\<in>set rules. rule_name r = n"
proof -
  have "\<forall>(a, res)\<in>set (m n). \<exists>r\<in>set rules. rule_name r = n" using assms(1) by (auto simp: records_def)
  then show ?thesis using assms(2) by (cases "m n") auto
qed

lemma records_finite: "records rules sites m \<Longrightarrow> finite {n. m n \<noteq> []}"
  by (rule finite_subset [of _ "rule_name ` set rules"]) (use records_named in blast)+

lemma has_limitation_iff:
  assumes built: "from_rules rules = Inr rs" and ord: "key_order_ok ord"
    and m: "records rs' sites (fc_matches caps)" and sub: "set rs' \<subseteq> set (rules_by_scope rs kFile)"
  shows "has_static_limitation ord rs caps \<longleftrightarrow> (\<exists>r\<in>set rs'. is_limitation r \<and> fc_matches caps (rule_name r) \<noteq> [])"
proof -
  let ?m = "fc_matches caps"
  note idx = from_rules_indexed(1) [OF built, unfolded indexed_def]
  have known: "rs_find rs (rule_name r) = Some r" if "r \<in> set rs'" for r
    using that sub rules_by_scope_order [OF built, of kFile] idx by (auto simp: rs_find_def)
  have keys: "set (ord ?m) = {n. ?m n \<noteq> []}" using ord records_finite [OF m] by (simp add: key_order_ok_def)
  have "has_static_limitation ord rs caps \<longleftrightarrow> (\<exists>n. ?m n \<noteq> [] \<and> (\<exists>r. rs_find rs n = Some r \<and> is_limitation r))"
    by (auto simp: has_static_limitation_def list_ex_iff keys split: option.splits)
  also have "\<dots> \<longleftrightarrow> (\<exists>r\<in>set rs'. is_limitation r \<and> ?m (rule_name r) \<noteq> [])"
  proof
    assume "\<exists>n. ?m n \<noteq> [] \<and> (\<exists>r. rs_find rs n = Some r \<and> is_limitation r)"
    then obtain n r where n: "?m n \<noteq> []" "rs_find rs n = Some r" "is_limitation r" by blast
    from records_named [OF m n(1)] obtain q where "q \<in> set rs'" "rule_name q = n" by blast
    then show "\<exists>r\<in>set rs'. is_limitation r \<and> ?m (rule_name r) \<noteq> []" using known n by auto
  qed (use known in blast)
  finally show ?thesis .
qed

section \<open>The properties\<close>

text \<open>C16: the walk over the references of the limitation rules ends, and the gate holds the file rules
  that it reaches, in their order in the scope.\<close>

theorem limitation_gate_closure:
  assumes "from_rules rules = Inr rs"
  shows "limitation_gate_rules rs =
    Some (filter (\<lambda>r. \<exists>l\<in>set (rules_by_scope rs kFile). is_limitation l \<and> (l, r) \<in> (gate_edges rs)\<^sup>*)
      (rules_by_scope rs kFile))"
proof -
  have "r \<in> gated rs \<longleftrightarrow> (\<exists>l\<in>set (rules_by_scope rs kFile). is_limitation l \<and> (l, r) \<in> (gate_edges rs)\<^sup>*)" for r
    by (auto simp: gated_def)
  then show ?thesis by (simp add: gate_rules [OF assms])
qed

text \<open>C13: matching the gate alone finds for its rules exactly the matches that the whole file scope finds, and
  so decides the limitation alike.\<close>

theorem limitation_gate_exact:
  assumes "from_rules rules = Inr rs" and "key_order_ok ord"
  shows "\<exists>full gate caps.
    find_file_capabilities rx rs ex cached = Inr full \<and>
    limitation_gate_rules rs = Some gate \<and>
    find_limitation_capabilities rx rs ex cached = Some (Inr caps) \<and>
    (\<forall>r\<in>set gate. fc_matches caps (rule_name r) = fc_matches full (rule_name r)) \<and>
    has_static_limitation ord rs caps = has_static_limitation ord rs full"
proof -
  let ?fs = "file_scope_feature_set ex cached (extract_global_features ex)" and ?a = "get_base_address ex"
  let ?todo = "rules_by_scope rs kFile" and ?gate = "filter (\<lambda>r. r \<in> gated rs) (rules_by_scope rs kFile)"
  obtain m where m: "ruleset_match rx rs kFile ?fs ?a = Inr m" "records ?todo {?a} (snd m)"
    using scope_match [OF assms(1)] by blast
  have "\<forall>r. Some r \<in> set (map Some ?gate) \<longrightarrow> no_subscope (rule_statement r)"
    using gate_separates [OF assms(1)] by (auto simp: separated_def)
  from match_loop_total [OF this] obtain m' where m': "engine_match rx (map Some ?gate) ?fs ?a = Inr m'"
    unfolding engine_match_def by blast
  then have "match_loop rx (map Some ?gate) ?fs ?a no_results = Inr (fst m', snd m')" by (simp add: engine_match_def)
  then have rec': "records ?gate {?a} (snd m')"
    by (rule match_loop_records [OF _ order_refl records_none])
  have same: "\<forall>r\<in>set ?gate. snd m' (rule_name r) = snd m (rule_name r)"
    using gate_agrees [OF assms(1) m(1) m'] by simp
  have "has_static_limitation ord rs (file_result m') \<longleftrightarrow>
      (\<exists>r\<in>set ?gate. is_limitation r \<and> snd m (rule_name r) \<noteq> [])"
    using has_limitation_iff [OF assms, of ?gate "{?a}" "file_result m'"] rec' same by (simp add: file_result_def)
  also have "\<dots> \<longleftrightarrow> has_static_limitation ord rs (file_result m)"
    using has_limitation_iff [OF assms, of ?todo "{?a}" "file_result m"] m(2) by (auto simp: file_result_def gated_def)
  finally show ?thesis
    using m(1) m' same
    by (simp add: find_file_capabilities_def find_limitation_capabilities_def gate_rules [OF assms(1)] file_result_def)
qed

text \<open>C14: whatever the number of threads and the schedule, the analysis of an image gives one and the same
  result once the workers have been joined, and they are joined as soon as each has had two turns per
  function and one more; it never fails.\<close>

theorem static_analysis_deterministic:
  assumes "from_rules rules = Inr rs"
  shows "\<exists>caps. \<forall>hc threads schedule.
    find_static_capabilities rx ord rs ex hc threads cached schedule \<in> {None, Some (Inr caps)} \<and>
    (fair_schedule (length (get_functions ex)) (resolve_worker_count hc threads (length (get_functions ex))) schedule \<longrightarrow>
     find_static_capabilities rx ord rs ex hc threads cached schedule = Some (Inr caps))"
proof -
  obtain caps where caps: "finish_file_scope rx ord rs ex cached (extract_global_features ex) (reduced rx rs ex) = Inr caps"
    using finish_result [OF assms] by blast
  let ?n = "length (get_functions ex)"
  have one: "max 1 (resolve_worker_count hc threads n) = resolve_worker_count hc threads n" for hc threads n
    by (simp add: resolve_worker_count_def Let_def)
  show ?thesis
  proof (intro exI [of _ caps] allI conjI impI)
    fix hc threads schedule
    show "find_static_capabilities rx ord rs ex hc threads cached schedule \<in> {None, Some (Inr caps)}"
      by (simp add: static_result [OF assms] caps) (metis option.exhaust)
    assume "fair_schedule ?n (resolve_worker_count hc threads ?n) schedule"
    then obtain p where "run_indexed ?n (resolve_worker_count hc threads ?n)
        (analyze_one rx rs ex (extract_global_features ex)) schedule = Some p"
      using fair_joined one by metis
    then show "find_static_capabilities rx ord rs ex hc threads cached schedule = Some (Inr caps)"
      by (simp add: static_result [OF assms] caps)
  qed
qed

text \<open>C15: every match in the report is a success of a rule of the rule set, at an address where rules of its
  scope look: the image base, or a function that is no library function, or a basic block or an
  instruction of one.\<close>

theorem matches_located:
  assumes "from_rules rules = Inr rs"
    and "find_static_capabilities rx ord rs ex hc threads cached schedule = Some (Inr caps)"
    and "(a, res) \<in> set (all_matches caps n)"
  shows "\<exists>r. rs_find rs n = Some r \<and> res_success res \<and> a \<in> scope_sites ex (rule_scope_of r)"
proof -
  have fin: "finish_file_scope rx ord rs ex cached (extract_global_features ex) (reduced rx rs ex) = Inr caps"
    using assms(2) by (auto simp: static_result [OF assms(1)])
  obtain m where m: "records (rules_by_scope rs kFile) {get_base_address ex} m"
      "all_matches caps = (\<lambda>n. m n @ red_fn (reduced rx rs ex) n @ red_bb (reduced rx rs ex) n @ red_insn (reduced rx rs ex) n)"
    using finish_result [OF assms(1), of rx ord ex cached "extract_global_features ex" "reduced rx rs ex"] fin by auto
  have found: "\<exists>r. rs_find rs n = Some r \<and> res_success res \<and> a \<in> scope_sites ex (rule_scope_of r)"
    if "records (rules_by_scope rs s) (scope_sites ex s) x" "(a, res) \<in> set (x n)" for x s
  proof -
    have "res_success res \<and> a \<in> scope_sites ex s \<and> (\<exists>r\<in>set (rules_by_scope rs s). rule_name r = n)"
      using that by (auto simp: records_def)
    then show ?thesis
      using rules_by_scope_order [OF assms(1), of s] from_rules_indexed(1) [OF assms(1)]
      by (auto simp: rs_find_def indexed_def)
  qed
  have "records (rules_by_scope rs kFile) (scope_sites ex kFile) m" using m(1) by (simp add: scope_sites_def)
  with found assms(3) m(2) reduced_records [OF assms(1), of ex rx] show ?thesis
    unfolding reduction_records_def by auto
qed

section \<open>A sample\<close>

text \<open>
  A limitation rule that refers to \<open>dep\<close>, a file rule \<open>uses\<close> that refers to the function rule \<open>fn\<close>,
  and an image of two functions, the second one from a library, of one block of one instruction each.
\<close>

definition function_rule :: "string \<Rightarrow> statement \<Rightarrow> rule" where
  "function_rule n s =
     \<lparr>rule_meta = (sample_meta n None)\<lparr>meta_scopes := \<lparr>static_scope = Some kFunction, dynamic_scope = None\<rparr>\<rparr>,
      rule_statement = s, rule_definition = []\<rparr>"

definition gate_sample :: "rule option list" where
  "gate_sample =
     [Some (sample_rule ''lim'' (Some ''internal/limitation/static'') (SFeature (FMatchedRule ''dep''))),
      Some (sample_rule ''dep'' None (SFeature (FApi ''a''))),
      Some (sample_rule ''uses'' None (SFeature (FMatchedRule ''fn''))),
      Some (function_rule ''fn'' (SFeature (FApi ''c'')))]"

definition sample_extractor :: "(nat, nat, nat) extractor" where
  "sample_extractor =
     \<lparr>get_base_address = AbsoluteVirtualAddress 0x400000, extract_global_features = [],
      extract_file_features = [(Some (FApi ''a''), NoAddress)], get_functions = [0, 1],
      fh_addr = (\<lambda>f. AbsoluteVirtualAddress (0x401000 + of_nat f)), extract_function_features = (\<lambda>_. []),
      get_basic_blocks = (\<lambda>f. [f]), bbh_addr = (\<lambda>b. AbsoluteVirtualAddress (0x401000 + of_nat b)),
      extract_basic_block_features = (\<lambda>_ _. []), get_instructions = (\<lambda>f b. [b]),
      ih_addr = (\<lambda>i. AbsoluteVirtualAddress (0x401000 + of_nat i)),
      extract_insn_features = (\<lambda>_ _ i. [(Some (FApi ''c''), AbsoluteVirtualAddress (0x401000 + of_nat i))]),
      is_library_function = (\<lambda>a. a = AbsoluteVirtualAddress 0x401001)\<rparr>"

definition sample_order :: key_order where
  "sample_order m = sorted_list_of_set {n. m n \<noteq> []}"

lemma sample_order_ok: "key_order_ok sample_order"
  by (simp add: key_order_ok_def sample_order_def)

lemma gate_sample_built: "\<exists>rs. from_rules gate_sample = Inr rs"
  by (rule isl_False) code_simp

lemma limitation_gate_closure_witness:
  "\<exists>rs gate. from_rules gate_sample = Inr rs \<and> limitation_gate_rules rs = Some gate"
  using limitation_gate_closure gate_sample_built by blast

lemma limitation_gate_exact_witness:
  "\<exists>rs full caps. from_rules gate_sample = Inr rs \<and>
     find_file_capabilities (\<lambda>_ _. None) rs sample_extractor None = Inr full \<and>
     find_limitation_capabilities (\<lambda>_ _. None) rs sample_extractor None = Some (Inr caps) \<and>
     has_static_limitation sample_order rs caps = has_static_limitation sample_order rs full"
proof -
  obtain rs where "from_rules gate_sample = Inr rs" using gate_sample_built by blast
  with limitation_gate_exact [OF this sample_order_ok, of "\<lambda>_ _. None" sample_extractor None] show ?thesis by blast
qed

lemma static_analysis_deterministic_witness:
  "\<exists>rs caps. from_rules gate_sample = Inr rs \<and>
     find_static_capabilities (\<lambda>_ _. None) sample_order rs sample_extractor 4 0 None [0, 0, 0, 0, 0] = Some (Inr caps)"
proof -
  obtain rs where rs: "from_rules gate_sample = Inr rs" using gate_sample_built by blast
  have "fair_schedule (length (get_functions sample_extractor))
      (resolve_worker_count 4 0 (length (get_functions sample_extractor))) [0, 0, 0, 0, 0]"
    by (simp add: fair_schedule_def sample_extractor_def resolve_worker_count_def kMinFunctionsPerWorker_def)
  with static_analysis_deterministic [OF rs, of "\<lambda>_ _. None" sample_order sample_extractor None] rs
  show ?thesis by blast
qed

lemma sample_report:
  "case from_rules gate_sample of Inl e \<Rightarrow> False | Inr rs \<Rightarrow>
     (case find_static_capabilities (\<lambda>_ _. None) (\<lambda>m. if m ''fn'' = [] then [] else [''fn'']) rs
             sample_extractor 1 1 None [0, 0, 0, 0, 0] of
        Some (Inr caps) \<Rightarrow>
          map fst (all_matches caps ''uses'') = [AbsoluteVirtualAddress 0x400000] \<and>
          map fst (all_matches caps ''fn'') = [AbsoluteVirtualAddress 0x401000] \<and>
          library_functions caps = [AbsoluteVirtualAddress 0x401001]
      | _ \<Rightarrow> False)"
  by code_simp

lemma matches_located_witness:
  "\<exists>rs res r. from_rules gate_sample = Inr rs \<and> rs_find rs ''fn'' = Some r \<and> res_success res \<and>
     AbsoluteVirtualAddress 0x401000 \<in> scope_sites sample_extractor (rule_scope_of r)"
proof -
  obtain rs where rs: "from_rules gate_sample = Inr rs" using gate_sample_built by blast
  obtain caps where caps: "find_static_capabilities (\<lambda>_ _. None) (\<lambda>m. if m ''fn'' = [] then [] else [''fn'']) rs
             sample_extractor 1 1 None [0, 0, 0, 0, 0] = Some (Inr caps)"
      "map fst (all_matches caps ''fn'') = [AbsoluteVirtualAddress 0x401000]"
    using sample_report rs by (auto split: option.splits sum.splits)
  from caps(2) obtain res where "(AbsoluteVirtualAddress 0x401000, res) \<in> set (all_matches caps ''fn'')"
    by (cases "all_matches caps ''fn''") auto
  from matches_located [OF rs caps(1) this] rs show ?thesis by blast
qed

end
