(* ===== verification/File_Features.thy ===== *)
theory File_Features
  imports Pe_Parser Capabilities
begin

text \<open>
  The features of a file as a whole: printable strings (strings.cpp), symbol names and embedded
  PE files (helpers.cpp), the file features (pefile.cpp), the global ones (global_.cpp) and the
  file-only extractor (pefile_extractor.cpp), all under src/features/extractors/.
\<close>

section \<open>Strings\<close>

record extracted_string =
  str_value :: string
  str_offset :: nat

definition kFillCheckSliceSize :: nat where "kFillCheckSliceSize = 4096"
definition kHalfWindow :: nat where "kHalfWindow = kFillCheckSliceSize div 2"
definition kRepeatFillBytes :: "u8 list" where "kRepeatFillBytes = [0x00, 0xFE, 0xFF, 0x41]"
definition kMinStringLength :: nat where "kMinStringLength = 4"
definition kMaxStringsPerPass :: nat where "kMaxStringsPerPass = 2 ^ 22"

definition range_is_all :: "u8 list \<Rightarrow> nat \<Rightarrow> nat \<Rightarrow> u8 \<Rightarrow> bool" where
  "range_is_all buf start stop fill = list_all (\<lambda>i. buf ! i = fill) [start..<stop]"

definition is_in_repeat_fill_region :: "u8 list \<Rightarrow> nat \<Rightarrow> bool" where
  "is_in_repeat_fill_region buf offset =
     (if buf = [] \<or> offset \<ge> length buf then False
      else
        let start = (if offset > kHalfWindow then offset - kHalfWindow else 0);
            stop = min (length buf) (offset + kHalfWindow)
        in if start = stop then False
           else list_ex (range_is_all buf start stop) kRepeatFillBytes)"

text \<open>A run of \<open>len\<close> units from \<open>st\<close> on, when it is long enough and no filling.\<close>

definition emit_ascii :: "u8 list \<Rightarrow> nat \<Rightarrow> nat \<Rightarrow> nat \<Rightarrow> extracted_string list" where
  "emit_ascii buf min_len st len =
     (if len \<ge> min_len \<and> \<not> is_in_repeat_fill_region buf st
      then [\<lparr>str_value = map ascii_of (take len (drop st buf)), str_offset = st\<rparr>] else [])"

fun ascii_loop ::
    "u8 list \<Rightarrow> nat \<Rightarrow> u8 list \<Rightarrow> nat \<Rightarrow> nat option \<Rightarrow> extracted_string list \<Rightarrow> extracted_string list" where
  "ascii_loop buf min_len [] i run out =
     (case run of None \<Rightarrow> out | Some st \<Rightarrow> out @ emit_ascii buf min_len st (length buf - st))"
| "ascii_loop buf min_len (b # bs) i run out =
     (if is_ascii_printable b
      then ascii_loop buf min_len bs (i + 1) (Some (case run of None \<Rightarrow> i | Some st \<Rightarrow> st)) out
      else case run of
        None \<Rightarrow> ascii_loop buf min_len bs (i + 1) None out
      | Some st \<Rightarrow>
          if length out \<ge> kMaxStringsPerPass then out
          else ascii_loop buf min_len bs (i + 1) None (out @ emit_ascii buf min_len st (i - st)))"

definition extract_ascii_strings :: "u8 list \<Rightarrow> nat \<Rightarrow> extracted_string list" where
  "extract_ascii_strings buf min_len =
     (if buf = [] \<or> min_len = 0 then [] else ascii_loop buf min_len buf 0 None [])"

definition unicode_value :: "u8 list \<Rightarrow> nat \<Rightarrow> nat \<Rightarrow> string" where
  "unicode_value buf st units = map (\<lambda>k. ascii_of (buf ! (st + 2 * k))) [0..<units]"

definition flush_unicode ::
    "u8 list \<Rightarrow> nat \<Rightarrow> nat \<Rightarrow> nat \<Rightarrow> extracted_string list \<Rightarrow> extracted_string list" where
  "flush_unicode buf min_len st units out =
     (if units \<ge> min_len \<and> length out < kMaxStringsPerPass \<and> \<not> is_in_repeat_fill_region buf st
      then out @ [\<lparr>str_value = unicode_value buf st units, str_offset = st\<rparr>] else out)"

fun unicode_loop ::
    "u8 list \<Rightarrow> nat \<Rightarrow> u8 list \<Rightarrow> nat \<Rightarrow> (nat \<times> nat) option \<Rightarrow> extracted_string list \<Rightarrow> extracted_string list" where
  "unicode_loop buf min_len (low # high # bs) i run out =
     (if high = 0 \<and> is_ascii_printable low
      then unicode_loop buf min_len bs (i + 2)
             (Some (case run of None \<Rightarrow> (i, 1) | Some (st, units) \<Rightarrow> (st, units + 1))) out
      else unicode_loop buf min_len bs (i + 2) None
             (case run of None \<Rightarrow> out | Some (st, units) \<Rightarrow> flush_unicode buf min_len st units out))"
| "unicode_loop buf min_len bs i run out =
     (case run of None \<Rightarrow> out | Some (st, units) \<Rightarrow> flush_unicode buf min_len st units out)"

definition extract_unicode_strings :: "u8 list \<Rightarrow> nat \<Rightarrow> extracted_string list" where
  "extract_unicode_strings buf min_len =
     (if length buf < 2 \<or> min_len = 0 then [] else unicode_loop buf min_len buf 0 None [])"

section \<open>Symbols and embedded files\<close>

definition strip_aw_suffix :: "string \<Rightarrow> string option" where
  "strip_aw_suffix symbol =
     (if length symbol < 2 then None
      else if last symbol \<noteq> CHR ''A'' \<and> last symbol \<noteq> CHR ''W'' then None
      else Some (butlast symbol))"

definition spellings :: "string \<Rightarrow> string \<Rightarrow> bool \<Rightarrow> string list" where
  "spellings dll symbol include_dll = (if include_dll then [dll @ ''.'' @ symbol] else []) @ [symbol]"

definition generate_symbols :: "string \<Rightarrow> string \<Rightarrow> bool \<Rightarrow> string list" where
  "generate_symbols dll symbol include_dll =
     (if symbol \<noteq> [] \<and> hd symbol = CHR ''#'' then spellings dll symbol include_dll
      else spellings dll symbol include_dll @
        (case strip_aw_suffix symbol of
           None \<Rightarrow> [] | Some base \<Rightarrow> if base = [] then [] else spellings dll base include_dll))"

definition import_symbol :: "parsed_import \<Rightarrow> string" where
  "import_symbol i =
     (if imp_by_ordinal i then ''#'' @ to_decimal (unat (imp_ordinal i)) else imp_name i)"

text \<open>The text before the last dot is lowered.\<close>

definition reformat_forwarded_export_name :: "string \<Rightarrow> string" where
  "reformat_forwarded_export_name forwarder =
     (if CHR ''.'' \<notin> set forwarder then forwarder
      else
        let symbol_part = rev (takeWhile (\<lambda>c. c \<noteq> CHR ''.'') (rev forwarder));
            module_part = take (length forwarder - length symbol_part - 1) forwarder
        in to_lower_ascii module_part @ ''.'' @ symbol_part)"

definition read_le_u32 :: "u8 list \<Rightarrow> nat \<Rightarrow> u32" where
  "read_le_u32 buf off =
     ucast (buf ! off) OR push_bit 8 (ucast (buf ! (off + 1))) OR push_bit 16 (ucast (buf ! (off + 2))) OR
     push_bit 24 (ucast (buf ! (off + 3)))"

definition xor_u32_key8 :: "u32 \<Rightarrow> u8 \<Rightarrow> u32" where
  "xor_u32_key8 v key =
     (let k = ucast key :: u32; mask = k OR push_bit 8 k OR push_bit 16 k OR push_bit 24 k in v XOR mask)"

definition kAsciiM :: u8 where "kAsciiM = 0x4D"
definition kAsciiZ :: u8 where "kAsciiZ = 0x5A"
definition kImageDosEofLfanewOffset :: nat where "kImageDosEofLfanewOffset = 0x3C"
definition kImageNtSignature :: u32 where "kImageNtSignature = 0x4550"

definition carved_at :: "u8 list \<Rightarrow> nat \<Rightarrow> bool" where
  "carved_at buf pos =
     (let key = buf ! pos XOR kAsciiM in
      if buf ! (pos + 1) \<noteq> (kAsciiZ XOR key) then False
      else if pos + kImageDosEofLfanewOffset + 4 > length buf then False
      else
        let lfanew = xor_u32_key8 (read_le_u32 buf (pos + kImageDosEofLfanewOffset)) key;
            sig_off = pos + unat lfanew
        in if sig_off + 4 > length buf then False
           else xor_u32_key8 (read_le_u32 buf sig_off) key = kImageNtSignature)"

definition carve_pe_files :: "u8 list \<Rightarrow> nat list" where
  "carve_pe_files buf =
     (if length buf < kImageDosEofLfanewOffset + 4 then []
      else filter (carved_at buf) [0..<length buf - 1])"

section \<open>File features\<close>

definition extract_file_format :: "pe_image \<Rightarrow> feature_batch" where
  "extract_file_format img = [(Some (FFormat ''pe''), NoAddress)]"

definition extract_file_section_names :: "pe_image \<Rightarrow> feature_batch" where
  "extract_file_section_names img =
     concat (map (\<lambda>s. if sec_name s = [] then []
        else [(Some (FSection (sec_name s)), AbsoluteVirtualAddress (img_image_base img + ucast (sec_virtual_address s)))])
       (img_sections img))"

definition import_features :: "parsed_import \<Rightarrow> feature_batch" where
  "import_features i =
     (if import_symbol i = [] then []
      else map (\<lambda>v. (Some (FImport v), AbsoluteVirtualAddress (imp_iat_va i)))
             (generate_symbols (imp_dll i) (import_symbol i) True))"

definition extract_file_import_names :: "pe_image \<Rightarrow> feature_batch" where
  "extract_file_import_names img = concat (map import_features (img_imports img))"

definition export_features :: "parsed_export \<Rightarrow> feature_batch" where
  "export_features e =
     (if exp_name e = [] then [] else [(Some (FExport (exp_name e)), AbsoluteVirtualAddress (exp_va e))]) @
     (case exp_forwarder e of
        None \<Rightarrow> []
      | Some fwd \<Rightarrow>
          [(Some (FCharacteristic ''forwarded export''), AbsoluteVirtualAddress (exp_va e)),
           (Some (FImport (reformat_forwarded_export_name fwd)), AbsoluteVirtualAddress (exp_va e))])"

definition extract_file_export_names :: "pe_image \<Rightarrow> feature_batch" where
  "extract_file_export_names img = concat (map export_features (img_exports img))"

definition extract_file_embedded_pe :: "pe_image \<Rightarrow> feature_batch" where
  "extract_file_embedded_pe img =
     concat (map (\<lambda>pos. if pos = 0 then []
        else [(Some (FCharacteristic ''embedded pe''), FileOffsetAddress (of_nat pos))])
       (carve_pe_files (img_buffer img)))"

definition string_features :: "extracted_string list \<Rightarrow> feature_batch" where
  "string_features ss = map (\<lambda>s. (Some (FString (str_value s)), FileOffsetAddress (of_nat (str_offset s)))) ss"

definition extract_file_strings :: "pe_image \<Rightarrow> feature_batch" where
  "extract_file_strings img =
     string_features (extract_ascii_strings (img_buffer img) kMinStringLength) @
     string_features (extract_unicode_strings (img_buffer img) kMinStringLength)"

definition pe_file_features :: "pe_image \<Rightarrow> feature_batch" where
  "pe_file_features img =
     extract_file_format img @ extract_file_section_names img @ extract_file_import_names img @
     extract_file_export_names img @ extract_file_embedded_pe img @ extract_file_strings img"

definition pe_arch :: "u16 \<Rightarrow> string option" where
  "pe_arch machine =
     (if machine = 0x014C then Some ''i386'' else if machine = 0x8664 then Some ''amd64'' else None)"

definition pe_global_features :: "pe_image \<Rightarrow> feature_batch" where
  "pe_global_features img =
     [(Some (FOs ''windows''), NoAddress), (Some (FFormat ''pe''), NoAddress)] @
     (case pe_arch (img_machine img) of None \<Rightarrow> [] | Some arch \<Rightarrow> [(Some (FArch arch), NoAddress)])"

text \<open>The extractor of a file alone: it has no functions.\<close>

definition pefile_extractor :: "pe_image \<Rightarrow> (unit, unit, unit) extractor" where
  "pefile_extractor img =
     \<lparr>get_base_address = AbsoluteVirtualAddress (img_image_base img),
      extract_global_features = pe_global_features img, extract_file_features = pe_file_features img,
      get_functions = [], fh_addr = (\<lambda>_. NoAddress), extract_function_features = (\<lambda>_. []),
      get_basic_blocks = (\<lambda>_. []), bbh_addr = (\<lambda>_. NoAddress), extract_basic_block_features = (\<lambda>_ _. []),
      get_instructions = (\<lambda>_ _. []), ih_addr = (\<lambda>_. NoAddress), extract_insn_features = (\<lambda>_ _ _. []),
      is_library_function = (\<lambda>_. False)\<rparr>"

end
