(* ===== verification/File_Correct.thy ===== *)
theory File_Correct
  imports File_Features
begin

text \<open>
  What the file features promise: the string passes find exactly the maximal printable runs, in
  order and up to the cap; the carver finds exactly the masked PE headers; every import of an image
  is a feature of the file scope.
\<close>

section \<open>Maximal runs\<close>

text \<open>\<open>us\<close> tells of each unit of a buffer whether it is printable.\<close>

definition maximal_run :: "bool list \<Rightarrow> nat \<Rightarrow> nat \<Rightarrow> bool" where
  "maximal_run us st n \<longleftrightarrow>
     0 < n \<and> st + n \<le> length us \<and> (\<forall>k<n. us ! (st + k)) \<and>
     (st = 0 \<or> \<not> us ! (st - 1)) \<and> (st + n = length us \<or> \<not> us ! (st + n))"

fun runs_from :: "bool list \<Rightarrow> nat \<Rightarrow> nat option \<Rightarrow> (nat \<times> nat) list" where
  "runs_from [] i run = (case run of None \<Rightarrow> [] | Some st \<Rightarrow> [(st, i - st)])"
| "runs_from (True # bs) i run = runs_from bs (i + 1) (Some (case run of None \<Rightarrow> i | Some st \<Rightarrow> st))"
| "runs_from (False # bs) i run =
     (case run of None \<Rightarrow> [] | Some st \<Rightarrow> [(st, i - st)]) @ runs_from bs (i + 1) None"

definition run_open :: "bool list \<Rightarrow> nat \<Rightarrow> nat option \<Rightarrow> bool" where
  "run_open us i run \<longleftrightarrow>
     (case run of
        None \<Rightarrow> i = 0 \<or> \<not> us ! (i - 1)
      | Some st \<Rightarrow> st < i \<and> (\<forall>k\<in>{st..<i}. us ! k) \<and> (st = 0 \<or> \<not> us ! (st - 1)))"

lemma run_open_step:
  assumes "run_open us i run"
  shows "us ! i \<Longrightarrow> run_open us (i + 1) (Some (case run of None \<Rightarrow> i | Some st \<Rightarrow> st))"
    and "\<not> us ! i \<Longrightarrow> run_open us (i + 1) None"
  using assms by (auto simp: run_open_def less_Suc_eq split: option.splits)

lemma maximal_run_unique:
  assumes "maximal_run us st n" "maximal_run us st m"
  shows "n = m"
proof (rule ccontr)
  assume "n \<noteq> m"
  then consider "n < m" | "m < n" by linarith
  then show False using assms by cases (auto simp: maximal_run_def)
qed

lemma maximal_run_closed:
  assumes "run_open us i (Some st)" "i \<le> length us" "i = length us \<or> \<not> us ! i"
  shows "maximal_run us st (i - st)"
  using assms by (auto simp: run_open_def maximal_run_def)

lemma maximal_run_inside:
  assumes "run_open us i (Some s)" "maximal_run us st n" "s \<le> st" "st < i"
  shows "st = s"
proof (rule ccontr)
  assume "st \<noteq> s"
  then have "st - 1 \<in> {s..<i}" "st \<noteq> 0" using assms by auto
  then show False using assms(1,2) by (auto simp: run_open_def maximal_run_def)
qed

lemma maximal_run_start:
  assumes "maximal_run us st n"
  shows "us ! st \<and> st < length us"
proof -
  have n: "0 < n" "st + n \<le> length us" and p: "\<forall>k<n. us ! (st + k)"
    using assms by (simp_all add: maximal_run_def)
  show ?thesis using n p [rule_format, of 0] by simp
qed

definition run_start :: "nat \<Rightarrow> nat option \<Rightarrow> nat" where
  "run_start i run = (case run of None \<Rightarrow> i | Some st \<Rightarrow> st)"

lemma maximal_run_at_close:
  assumes "run_open us i (Some s)" "i \<le> length us" "i = length us \<or> \<not> us ! i"
  shows "maximal_run us st n \<and> s \<le> st \<and> st \<le> i \<longleftrightarrow> st = s \<and> n = i - s"
proof
  assume m: "maximal_run us st n \<and> s \<le> st \<and> st \<le> i"
  then have "st \<noteq> i" using maximal_run_start [of us st n] assms(3) by auto
  then have st: "st = s" using maximal_run_inside [of us i s st n] assms(1) m by simp
  show "st = s \<and> n = i - s"
    using st m maximal_run_unique [of us s n "i - s"] maximal_run_closed [OF assms] by simp
next
  assume "st = s \<and> n = i - s"
  moreover have "s \<le> i" using assms(1) by (simp add: run_open_def)
  ultimately show "maximal_run us st n \<and> s \<le> st \<and> st \<le> i"
    using maximal_run_closed [OF assms] by simp
qed

lemma no_run_at_close:
  assumes "i \<le> length us" "i = length us \<or> \<not> us ! i"
  shows "\<not> (maximal_run us st n \<and> i \<le> st \<and> st \<le> i)"
  using maximal_run_start [of us st n] assms by auto

lemma runs_closed:
  assumes "run_open us i run" "i \<le> length us" "i = length us \<or> \<not> us ! i"
  shows "set (case run of None \<Rightarrow> [] | Some st \<Rightarrow> [(st, i - st)]) =
         {(st, n). maximal_run us st n \<and> run_start i run \<le> st \<and> st \<le> i}"
proof (cases run)
  case None
  then show ?thesis using no_run_at_close [OF assms(2,3)] by (simp add: run_start_def)
next
  case (Some s)
  then show ?thesis
    using maximal_run_at_close [of us i s] assms by (simp add: run_start_def set_eq_iff)
qed

lemma runs_from_exact:
  assumes "run_open us i run" "i \<le> length us"
  shows "set (runs_from (drop i us) i run) = {(st, n). maximal_run us st n \<and> run_start i run \<le> st} \<and>
         sorted_wrt (<) (map fst (runs_from (drop i us) i run))"
  using assms
proof (induction "length us - i" arbitrary: i run)
  case 0
  then have "{(st, n). maximal_run us st n \<and> run_start i run \<le> st} =
             {(st, n). maximal_run us st n \<and> run_start i run \<le> st \<and> st \<le> i}"
    by (auto dest: maximal_run_start)
  then show ?case using runs_closed [of us i run] 0 by (auto split: option.splits)
next
  case (Suc k)
  have i: "i < length us" using Suc.hyps(2) by simp
  then have d: "drop i us = us ! i # drop (i + 1) us" by (simp add: Cons_nth_drop_Suc)
  show ?case
  proof (cases "us ! i")
    case True
    have "run_open us (i + 1) (Some (run_start i run))"
      using run_open_step(1) [OF Suc.prems(1) True] by (simp add: run_start_def)
    then show ?thesis
      using Suc.hyps(1) [of "i + 1" "Some (run_start i run)"] Suc.hyps(2) i True
      by (simp add: d run_start_def)
  next
    case False
    let ?tl = "runs_from (drop (i + 1) us) (i + 1) None"
    have tl: "set ?tl = {(st, n). maximal_run us st n \<and> i + 1 \<le> st}" "sorted_wrt (<) (map fst ?tl)"
      using Suc.hyps(1) [of "i + 1" None] run_open_step(2) [OF Suc.prems(1) False] Suc.hyps(2) i
      by (simp_all add: run_start_def)
    have le: "run_start i run \<le> i" using Suc.prems(1) by (auto simp: run_start_def run_open_def split: option.splits)
    have "set (runs_from (drop i us) i run) = {(st, n). maximal_run us st n \<and> run_start i run \<le> st}"
      using tl(1) runs_closed [of us i run] Suc.prems False le
      by (auto simp: d simp del: runs_from.simps(1))
    moreover have "sorted_wrt (<) (map fst (runs_from (drop i us) i run))"
      using tl Suc.prems(1) False
      by (fastforce simp: d run_open_def sorted_wrt_append split: option.splits)
    ultimately show ?thesis by simp
  qed
qed

lemma runs_exact:
  "set (runs_from us 0 None) = {(st, n). maximal_run us st n}"
  "sorted_wrt (<) (map fst (runs_from us 0 None))"
  using runs_from_exact [of us 0 None] by (simp_all add: run_open_def run_start_def)

section \<open>The string passes\<close>

text \<open>A pass puts out, run by run, what \<open>emit\<close> makes of it, and may stop at the cap.\<close>

definition emitted :: "(nat \<Rightarrow> nat \<Rightarrow> extracted_string list) \<Rightarrow> (nat \<times> nat) list \<Rightarrow> extracted_string list" where
  "emitted emit rs = concat (map (\<lambda>(st, n). emit st n) rs)"

lemma ascii_loop_runs:
  assumes "length buf = i + length bs"
  shows "\<exists>got. ascii_loop buf m bs i run out = out @ got \<and>
           (\<exists>rest. emitted (emit_ascii buf m) (runs_from (map is_ascii_printable bs) i run) = got @ rest \<and>
                   (length (out @ got) < kMaxStringsPerPass \<longrightarrow> rest = [])) \<and>
           (length out \<le> kMaxStringsPerPass \<longrightarrow> length (out @ got) \<le> kMaxStringsPerPass + 1)"
  using assms
proof (induction buf m bs i run out rule: ascii_loop.induct)
  case (1 buf m i run out)
  then show ?case by (cases run) (auto simp: emitted_def emit_ascii_def)
next
  case (2 buf m b bs i run out)
  show ?case
  proof (cases "is_ascii_printable b")
    case True
    then show ?thesis using "2.IH"(1) "2.prems" by auto
  next
    case False
    show ?thesis
    proof (cases run)
      case None
      then show ?thesis using "2.IH"(2) "2.prems" False by auto
    next
      case (Some st)
      show ?thesis
      proof (cases "length out \<ge> kMaxStringsPerPass")
        case True
        then show ?thesis using Some False by (auto intro: exI [of _ "[]"])
      next
        case c: False
        let ?out = "out @ emit_ascii buf m st (i - st)"
        have o: "length ?out \<le> kMaxStringsPerPass" using c by (simp add: emit_ascii_def)
        obtain got rest where g: "ascii_loop buf m bs (i + 1) None ?out = ?out @ got"
          "emitted (emit_ascii buf m) (runs_from (map is_ascii_printable bs) (i + 1) None) = got @ rest"
          "length (?out @ got) < kMaxStringsPerPass \<longrightarrow> rest = []"
          "length (?out @ got) \<le> kMaxStringsPerPass + 1"
          using "2.IH"(3) [OF False Some c] "2.prems" o by auto
        show ?thesis
          using g Some False c
          by (intro exI [of _ "emit_ascii buf m st (i - st) @ got"]) (simp add: emitted_def)
      qed
    qed
  qed
qed

text \<open>The printable units of a wide string: a printable byte and a zero.\<close>

fun pair_units :: "u8 list \<Rightarrow> bool list" where
  "pair_units (low # high # bs) = (high = 0 \<and> is_ascii_printable low) # pair_units bs"
| "pair_units _ = []"

definition emit_unicode :: "u8 list \<Rightarrow> nat \<Rightarrow> nat \<Rightarrow> nat \<Rightarrow> extracted_string list" where
  "emit_unicode buf m st n =
     (if n \<ge> m \<and> \<not> is_in_repeat_fill_region buf (2 * st)
      then [\<lparr>str_value = unicode_value buf (2 * st) n, str_offset = 2 * st\<rparr>] else [])"

lemma flush_unicode_emits:
  "flush_unicode buf m (2 * st) n out =
     out @ (if length out < kMaxStringsPerPass then emit_unicode buf m st n else [])"
  by (simp add: flush_unicode_def emit_unicode_def)

definition wide_run :: "nat \<Rightarrow> nat option \<Rightarrow> (nat \<times> nat) option" where
  "wide_run i run = map_option (\<lambda>st. (2 * st, i - st)) run"

lemma unicode_loop_runs:
  assumes "case run of None \<Rightarrow> True | Some st \<Rightarrow> st < i"
  shows "\<exists>got. unicode_loop buf m bs (2 * i) (wide_run i run) out = out @ got \<and>
           (\<exists>rest. emitted (emit_unicode buf m) (runs_from (pair_units bs) i run) = got @ rest \<and>
                   (length (out @ got) < kMaxStringsPerPass \<longrightarrow> rest = [])) \<and>
           (length out \<le> kMaxStringsPerPass \<longrightarrow> length (out @ got) \<le> kMaxStringsPerPass) \<and>
           (length out \<ge> kMaxStringsPerPass \<longrightarrow> got = [])"
  using assms
proof (induction bs arbitrary: i run out rule: pair_units.induct)
  case (1 low high bs)
  show ?case
  proof (cases "high = 0 \<and> is_ascii_printable low")
    case True
    let ?run = "Some (case run of None \<Rightarrow> i | Some st \<Rightarrow> st)"
    have "unicode_loop buf m (low # high # bs) (2 * i) (wide_run i run) out =
          unicode_loop buf m bs (2 * (i + 1)) (wide_run (i + 1) ?run) out"
      using True "1.prems" by (auto simp: wide_run_def Suc_diff_le less_imp_le split: option.splits)
    moreover have "case ?run of None \<Rightarrow> True | Some st \<Rightarrow> st < i + 1"
      using "1.prems" by (auto split: option.splits)
    ultimately show ?thesis using "1.IH" [where i = "i + 1" and run = ?run and out = out] True by simp
  next
    case False
    define emit where
      "emit = (case run of None \<Rightarrow> [] | Some st \<Rightarrow>
         if length out < kMaxStringsPerPass then emit_unicode buf m st (i - st) else [])"
    have "unicode_loop buf m (low # high # bs) (2 * i) (wide_run i run) out =
          unicode_loop buf m bs (2 * (i + 1)) (wide_run (i + 1) None) (out @ emit)"
      using False by (auto simp: wide_run_def emit_def flush_unicode_emits split: option.splits)
    moreover obtain got rest where g: "unicode_loop buf m bs (2 * (i + 1)) (wide_run (i + 1) None) (out @ emit) = (out @ emit) @ got"
      "emitted (emit_unicode buf m) (runs_from (pair_units bs) (i + 1) None) = got @ rest"
      "length ((out @ emit) @ got) < kMaxStringsPerPass \<longrightarrow> rest = []"
      "length (out @ emit) \<le> kMaxStringsPerPass \<longrightarrow> length ((out @ emit) @ got) \<le> kMaxStringsPerPass"
      "length (out @ emit) \<ge> kMaxStringsPerPass \<longrightarrow> got = []"
      using "1.IH" [where run = None and i = "i + 1" and out = "out @ emit"] by auto
    moreover have e: "length out \<le> kMaxStringsPerPass \<longrightarrow> length (out @ emit) \<le> kMaxStringsPerPass"
      by (auto simp: emit_def emit_unicode_def split: option.splits)
    moreover have "emitted (emit_unicode buf m) (runs_from (pair_units (low # high # bs)) i run) =
        (case run of None \<Rightarrow> [] | Some st \<Rightarrow> emit_unicode buf m st (i - st)) @ got @ rest"
      using False g(2) by (auto simp: emitted_def split: option.splits)
    ultimately show ?thesis
      by (cases "length out < kMaxStringsPerPass") (auto simp: emit_def split: option.splits)
  qed
qed (auto simp: wide_run_def emitted_def flush_unicode_emits emit_unicode_def split: option.splits)

definition finds_runs ::
    "nat \<Rightarrow> (nat \<Rightarrow> nat \<Rightarrow> bool) \<Rightarrow> (nat \<Rightarrow> nat \<Rightarrow> extracted_string) \<Rightarrow> extracted_string list \<Rightarrow> bool" where
  "finds_runs cap R mk got \<longleftrightarrow>
     sorted_wrt (<) (map str_offset got) \<and>
     (\<forall>s\<in>set got. \<exists>st n. R st n \<and> s = mk st n) \<and>
     (\<forall>st n. R st n \<longrightarrow> length got < cap \<or> (\<exists>t\<in>set got. str_offset (mk st n) \<le> str_offset t) \<longrightarrow>
        mk st n \<in> set got)"

text \<open>What is put out for strictly ordered runs is strictly ordered, and a part of it is its beginning.\<close>

lemma emitted_sorted:
  assumes "\<And>st n. emit st n = (if Q st n then [mk st n] else [])" "\<And>st n. str_offset (mk st n) = c * st"
    "0 < c" "sorted_wrt (<) (map fst rs)"
  shows "sorted_wrt (<) (map str_offset (emitted emit rs))"
  using assms(4)
proof (induction rs)
  case (Cons r rs)
  have "\<forall>s\<in>set (emitted emit rs). c * fst r < str_offset s"
    using Cons.prems assms(1,2,3) by (force simp: emitted_def split: if_splits)
  then show ?case
    using Cons assms(1,2) by (cases r) (auto simp: emitted_def)
qed (simp add: emitted_def)

lemma emitted_set:
  assumes "\<And>st n. emit st n = (if Q st n then [mk st n] else [])"
  shows "set (emitted emit rs) = {mk st n | st n. (st, n) \<in> set rs \<and> Q st n}"
  using assms by (force simp: emitted_def split: if_splits)

lemma emitted_finds:
  assumes e: "\<And>st n. emit st n = (if Q st n then [mk st n] else [])"
    and off: "\<And>st n. str_offset (mk st n) = c * st" "0 < c"
    and p: "emitted emit (runs_from us 0 None) = got @ rest" "length got < cap \<longrightarrow> rest = []"
  shows "finds_runs cap (\<lambda>st n. maximal_run us st n \<and> Q st n) mk got"
proof -
  have srt: "sorted_wrt (<) (map str_offset (got @ rest))"
    using emitted_sorted [of emit Q mk c "runs_from us 0 None", OF e off runs_exact(2)] p(1)
    by (simp only: map_append)
  have mem: "set (got @ rest) = {mk st n | st n. maximal_run us st n \<and> Q st n}"
    using emitted_set [of emit Q mk "runs_from us 0 None", OF e] unfolding p(1) runs_exact(1) by simp
  have "mk st n \<in> set got"
    if r: "maximal_run us st n \<and> Q st n"
      and l: "length got < cap \<or> (\<exists>t\<in>set got. str_offset (mk st n) \<le> str_offset t)" for st n
  proof -
    have "mk st n \<in> set (got @ rest)" using mem r by blast
    moreover have "mk st n \<notin> set rest" using l p(2) srt by (fastforce simp: sorted_wrt_append)
    ultimately show ?thesis by simp
  qed
  moreover have "\<exists>st n. (maximal_run us st n \<and> Q st n) \<and> s = mk st n" if "s \<in> set got" for s
  proof -
    have "s \<in> set (got @ rest)" using that by simp
    then show ?thesis unfolding mem by blast
  qed
  ultimately show ?thesis using srt by (simp add: finds_runs_def sorted_wrt_append)
qed

lemma ascii_pass_finds:
  assumes "0 < m"
  shows "finds_runs kMaxStringsPerPass
           (\<lambda>st n. maximal_run (map is_ascii_printable buf) st n \<and> m \<le> n \<and> \<not> is_in_repeat_fill_region buf st)
           (\<lambda>st n. \<lparr>str_value = map ascii_of (take n (drop st buf)), str_offset = st\<rparr>)
           (extract_ascii_strings buf m) \<and>
         length (extract_ascii_strings buf m) \<le> kMaxStringsPerPass + 1"
proof -
  obtain got rest where g: "ascii_loop buf m buf 0 None [] = got"
    "emitted (emit_ascii buf m) (runs_from (map is_ascii_printable buf) 0 None) = got @ rest"
    "length got < kMaxStringsPerPass \<longrightarrow> rest = []" "length got \<le> kMaxStringsPerPass + 1"
    using ascii_loop_runs [of buf 0 buf m None "[]"] by auto
  have "extract_ascii_strings buf m = got"
    using assms g(1) by (auto simp: extract_ascii_strings_def)
  then show ?thesis
    using emitted_finds [of "emit_ascii buf m" "\<lambda>st n. m \<le> n \<and> \<not> is_in_repeat_fill_region buf st" _ 1
        "map is_ascii_printable buf" got rest kMaxStringsPerPass] g
    by (simp add: emit_ascii_def)
qed

lemma pair_units_short: "length buf < 2 \<Longrightarrow> pair_units buf = []"
  by (cases buf rule: pair_units.cases) auto

lemma no_maximal_run [simp]: "\<not> maximal_run [] st n"
  using maximal_run_start [of "[]" st n] by auto

lemma unicode_pass_finds:
  assumes "0 < m"
  shows "finds_runs kMaxStringsPerPass
           (\<lambda>st n. maximal_run (pair_units buf) st n \<and> m \<le> n \<and> \<not> is_in_repeat_fill_region buf (2 * st))
           (\<lambda>st n. \<lparr>str_value = unicode_value buf (2 * st) n, str_offset = 2 * st\<rparr>)
           (extract_unicode_strings buf m) \<and>
         length (extract_unicode_strings buf m) \<le> kMaxStringsPerPass"
proof -
  obtain got rest where g: "unicode_loop buf m buf 0 None [] = got"
    "emitted (emit_unicode buf m) (runs_from (pair_units buf) 0 None) = got @ rest"
    "length got < kMaxStringsPerPass \<longrightarrow> rest = []" "length got \<le> kMaxStringsPerPass"
    using unicode_loop_runs [where run = None and i = 0 and bs = buf and buf = buf and m = m and out = "[]"] by (auto simp: wide_run_def)
  have "got = []" if "length buf < 2"
    using g(2) pair_units_short [OF that] by (simp add: emitted_def)
  then have "extract_unicode_strings buf m = got"
    using assms g(1) by (auto simp: extract_unicode_strings_def)
  then show ?thesis
    using emitted_finds [of "emit_unicode buf m" "\<lambda>st n. m \<le> n \<and> \<not> is_in_repeat_fill_region buf (2 * st)" _ 2
        "pair_units buf" got rest kMaxStringsPerPass] g
    by (simp add: emit_unicode_def)
qed

section \<open>The cap of the ASCII pass\<close>

lemma letter_not_filled:
  assumes "i < length buf" "buf ! i = 66"
  shows "\<not> is_in_repeat_fill_region buf i"
proof -
  have "i \<in> {(if i > kHalfWindow then i - kHalfWindow else 0)..<min (length buf) (i + kHalfWindow)}"
    using assms by (auto simp: kHalfWindow_def kFillCheckSliceSize_def)
  then have "\<not> range_is_all buf (if i > kHalfWindow then i - kHalfWindow else 0)
       (min (length buf) (i + kHalfWindow)) f" if "f \<noteq> 66" for f
    using that assms(2) unfolding range_is_all_def list_all_iff by force
  then show ?thesis
    by (simp add: is_in_repeat_fill_region_def Let_def kRepeatFillBytes_def)
qed

definition four_letters :: "u8 list" where "four_letters = [66, 66, 66, 66]"

lemma ascii_loop_letters:
  assumes "drop i buf = concat (replicate k (four_letters @ [0])) @ four_letters"
    "length out + k \<le> kMaxStringsPerPass"
  shows "length (ascii_loop buf 4 (drop i buf) i None out) = length out + k + 1"
  using assms
proof (induction k arbitrary: i out)
  case 0
  have "i < length buf" using 0 by (cases "i < length buf") (auto simp: four_letters_def)
  moreover have "buf ! i = 66" using 0 calculation by (simp add: hd_drop_conv_nth [symmetric] four_letters_def)
  moreover have "length buf - i = 4" using arg_cong [OF 0(1), of length] by (simp add: four_letters_def)
  ultimately show ?case
    using 0 letter_not_filled [of i buf] by (simp add: four_letters_def is_ascii_printable_def emit_ascii_def)
next
  case (Suc k)
  let ?rest = "concat (replicate k (four_letters @ [0])) @ four_letters"
  have d: "drop i buf = 66 # 66 # 66 # 66 # 0 # ?rest" using Suc.prems(1) by (simp add: four_letters_def)
  have "i < length buf" using d by (cases "i < length buf") auto
  moreover have "buf ! i = 66" using d calculation by (simp add: hd_drop_conv_nth [symmetric])
  ultimately have e: "length (emit_ascii buf 4 i 4) = 1"
    using letter_not_filled [of i buf] by (simp add: emit_ascii_def)
  have d5: "drop (i + 5) buf = ?rest" using arg_cong [OF d, of "drop 5"] by (simp add: add.commute)
  have i5: "Suc (Suc (Suc (Suc (Suc i)))) = i + 5" by simp
  have "ascii_loop buf 4 (drop i buf) i None out = ascii_loop buf 4 ?rest (i + 5) None (out @ emit_ascii buf 4 i 4)"
    using Suc.prems(2) by (simp add: d is_ascii_printable_def i5)
  then show ?case
    using Suc.IH [of "i + 5" "out @ emit_ascii buf 4 i 4"] Suc.prems(2) e by (simp add: d5)
qed

text \<open>The run at the end of the buffer is put out although the pass is full.\<close>

lemma ascii_pass_exceeds_cap:
  "\<exists>buf. length (extract_ascii_strings buf kMinStringLength) = kMaxStringsPerPass + 1"
proof (rule exI)
  let ?buf = "concat (replicate kMaxStringsPerPass (four_letters @ [0])) @ four_letters"
  show "length (extract_ascii_strings ?buf kMinStringLength) = kMaxStringsPerPass + 1"
    using ascii_loop_letters [of 0 ?buf kMaxStringsPerPass "[]"]
    by (simp add: extract_ascii_strings_def kMinStringLength_def four_letters_def)
qed

section \<open>Embedded PE files\<close>

definition masked :: "u8 \<Rightarrow> u8 list \<Rightarrow> u8 list" where
  "masked key bs = map (\<lambda>b. b XOR key) bs"

definition le32 :: "u32 \<Rightarrow> u8 list" where
  "le32 v = [ucast v, ucast (drop_bit 8 v), ucast (drop_bit 16 v), ucast (drop_bit 24 v)]"

lemma slice4:
  assumes "off + 4 \<le> length buf"
  shows "take 4 (drop off buf) = [buf ! off, buf ! (off + 1), buf ! (off + 2), buf ! (off + 3)]"
  using assms by (intro nth_equalityI) (auto simp: less_Suc_eq numeral_eq_Suc)

lemma slice2:
  assumes "off + 2 \<le> length buf"
  shows "take 2 (drop off buf) = [buf ! off, buf ! (off + 1)]"
  using assms by (intro nth_equalityI) (auto simp: less_Suc_eq numeral_eq_Suc)

lemma le32_inject:
  assumes "le32 v = le32 w"
  shows "v = w"
proof (rule bit_word_eqI)
  fix j assume j: "j < LENGTH(32)"
  have r: "j mod 8 < LENGTH(8)" by simp
  have byte: "bit (ucast (drop_bit d x) :: u8) (j mod 8) = bit x (d + j mod 8)" for d and x :: u32
    using r by (simp only: bit_ucast_iff bit_drop_bit_eq comp_apply simp_thms)
  have "bit v (d + j mod 8) = bit w (d + j mod 8)" if "d \<in> {0, 8, 16, 24}" for d
  proof -
    have "ucast (drop_bit d v) = (ucast (drop_bit d w) :: u8)"
      using assms that by (auto simp: le32_def)
    then show ?thesis using byte [of d v] byte [of d w] by simp
  qed
  moreover have "8 * (j div 8) \<in> {0, 8, 16, 24}" using j by auto
  ultimately have "bit v (8 * (j div 8) + j mod 8) = bit w (8 * (j div 8) + j mod 8)" by blast
  then show "bit v j = bit w j" by simp
qed

lemma masked_word:
  fixes b0 b1 b2 b3 key :: u8
  shows "le32 (xor_u32_key8 (ucast b0 OR push_bit 8 (ucast b1) OR push_bit 16 (ucast b2) OR
           push_bit 24 (ucast b3)) key) = [b0 XOR key, b1 XOR key, b2 XOR key, b3 XOR key]"
  unfolding le32_def xor_u32_key8_def Let_def
  by (simp, intro conjI; rule bit_word_eqI) (auto simp: bit_simps dest: bit_imp_le_length)

lemma masked_read:
  assumes "off + 4 \<le> length buf"
  shows "masked key (take 4 (drop off buf)) = le32 (xor_u32_key8 (read_le_u32 buf off) key)"
  by (simp add: slice4 [OF assms] read_le_u32_def masked_word masked_def)

lemma masked_read_iff:
  assumes "off + 4 \<le> length buf"
  shows "masked key (take 4 (drop off buf)) = le32 v \<longleftrightarrow> xor_u32_key8 (read_le_u32 buf off) key = v"
  using masked_read [OF assms] le32_inject by metis

lemma xor_byte_eq: "a XOR k = (c :: u8) \<longleftrightarrow> a = c XOR k"
  by (metis xor.assoc xor_self_eq xor.right_neutral)

lemma xor_byte_key: "a XOR k = (c :: u8) \<longleftrightarrow> k = a XOR c"
  by (metis xor.assoc xor_self_eq xor.left_neutral)

lemma masked_mz:
  assumes "pos + 2 \<le> length buf"
  shows "masked key (take 2 (drop pos buf)) = [0x4D, 0x5A] \<longleftrightarrow>
         key = buf ! pos XOR kAsciiM \<and> buf ! (pos + 1) = kAsciiZ XOR key"
  unfolding slice2 [OF assms] masked_def kAsciiM_def kAsciiZ_def
  by (simp only: list.map list.inject simp_thms xor_byte_key [of "buf ! pos"] xor_byte_eq [of "buf ! (pos + 1)"])

lemma masked_read_bounded:
  "masked key (take 4 (drop off buf)) = le32 v \<longleftrightarrow>
     off + 4 \<le> length buf \<and> xor_u32_key8 (read_le_u32 buf off) key = v"
proof (cases "off + 4 \<le> length buf")
  case False
  then have "length (masked key (take 4 (drop off buf))) \<noteq> length (le32 v)"
    by (simp add: masked_def le32_def)
  then have "masked key (take 4 (drop off buf)) \<noteq> le32 v" by (rule contrapos_nn) (rule arg_cong)
  then show ?thesis using False by simp
qed (simp add: masked_read_iff)

definition pe_header_at :: "u8 list \<Rightarrow> nat \<Rightarrow> u8 \<Rightarrow> u32 \<Rightarrow> bool" where
  "pe_header_at buf pos key lfanew \<longleftrightarrow>
     masked key (take 2 (drop pos buf)) = [0x4D, 0x5A] \<and>
     masked key (take 4 (drop (pos + 0x3C) buf)) = le32 lfanew \<and>
     masked key (take 4 (drop (pos + unat lfanew) buf)) = [0x50, 0x45, 0, 0]"

lemma pe_header_at_iff:
  assumes "pos + 2 \<le> length buf"
  shows "pe_header_at buf pos key lfanew \<longleftrightarrow>
     key = buf ! pos XOR kAsciiM \<and> buf ! (pos + 1) = kAsciiZ XOR key \<and>
     (pos + 0x3C + 4 \<le> length buf \<and> xor_u32_key8 (read_le_u32 buf (pos + 0x3C)) key = lfanew) \<and>
     pos + unat lfanew + 4 \<le> length buf \<and>
     xor_u32_key8 (read_le_u32 buf (pos + unat lfanew)) key = kImageNtSignature"
proof -
  have sig: "[0x50, 0x45, 0, 0] = le32 kImageNtSignature" by (simp add: le32_def kImageNtSignature_def)
  show ?thesis unfolding pe_header_at_def masked_mz [OF assms] sig masked_read_bounded by blast
qed

lemma carve_pe_files_exact:
  "pos \<in> set (carve_pe_files buf) \<longleftrightarrow> (\<exists>key lfanew. pe_header_at buf pos key lfanew)"
proof (cases "pos + 0x3C + 4 \<le> length buf")
  case True
  then have pos: "pos + 2 \<le> length buf" "pos < length buf - 1" "\<not> length buf < kImageDosEofLfanewOffset + 4"
    by (auto simp: kImageDosEofLfanewOffset_def)
  have "carved_at buf pos \<longleftrightarrow> (\<exists>key lfanew. pe_header_at buf pos key lfanew)"
    unfolding pe_header_at_iff [OF pos(1)] carved_at_def Let_def kImageDosEofLfanewOffset_def
    using True by (simp add: not_less)
  then show ?thesis using pos by (simp add: carve_pe_files_def)
next
  case False
  have "\<not> pe_header_at buf pos key lfanew" for key lfanew
    using False masked_read_bounded [of key "pos + 0x3C" buf lfanew] by (simp add: pe_header_at_def)
  moreover have "\<not> carved_at buf pos"
    using False by (auto simp: carved_at_def Let_def kImageDosEofLfanewOffset_def)
  ultimately show ?thesis by (simp add: carve_pe_files_def)
qed

lemma carve_pe_files_sorted: "sorted_wrt (<) (carve_pe_files buf)"
  by (simp add: carve_pe_files_def sorted_wrt_filter)

section \<open>Imports are features of the file scope\<close>

lemma fs_has_add_all:
  "fs_has (fs_add_all fs batch) g \<longleftrightarrow> fs_has fs g \<or> (\<exists>f a. (Some f, a) \<in> set batch \<and> feature_equals f g)"
proof (induction fs batch rule: fs_add_all.induct)
  case (2 fs f a batch)
  then show ?case by (cases f) (auto simp: fs_add_def fs_has_insert)
qed simp

lemma fs_has_empty [simp]: "\<not> fs_has empty_set g"
  by (simp add: fs_has_def fs_find_def empty_set_def)

lemma equals_import [simp]: "feature_equals f (FImport v) \<longleftrightarrow> f = FImport v"
  using feature_equals_sym [of f "FImport v"] feature_equals_value_exact [of "FImport v" v f]
    feature_equals_value_exact [of "FImport v" v "FImport v"] by auto

text \<open>
  A symbol goes as it is and, unless it is an ordinal, without a last A or W; each with the library
  before it and without.
\<close>

definition spells_import :: "parsed_import \<Rightarrow> string \<Rightarrow> bool" where
  "spells_import i v \<longleftrightarrow>
     import_symbol i \<noteq> [] \<and>
     (\<exists>s. (v = s \<or> v = imp_dll i @ ''.'' @ s) \<and>
        (s = import_symbol i \<or>
         s \<noteq> [] \<and> hd s \<noteq> CHR ''#'' \<and> (import_symbol i = s @ ''A'' \<or> import_symbol i = s @ ''W'')))"

lemma strip_aw_suffix_iff:
  "(strip_aw_suffix symb = Some s \<and> s \<noteq> []) \<longleftrightarrow> s \<noteq> [] \<and> (symb = s @ ''A'' \<or> symb = s @ ''W'')"
  by (cases symb rule: rev_cases) (auto simp: strip_aw_suffix_def Suc_le_eq not_less_eq)

lemma in_spellings: "v \<in> set (spellings dll s True) \<longleftrightarrow> v = s \<or> v = dll @ ''.'' @ s"
  by (auto simp: spellings_def)

lemma in_generate_symbols:
  assumes "symb \<noteq> []"
  shows "v \<in> set (generate_symbols dll symb True) \<longleftrightarrow>
     (\<exists>s. v \<in> set (spellings dll s True) \<and>
        (s = symb \<or> hd symb \<noteq> CHR ''#'' \<and> strip_aw_suffix symb = Some s \<and> s \<noteq> []))"
proof (cases "hd symb = CHR ''#''")
  case True
  then show ?thesis using assms by (simp add: generate_symbols_def)
next
  case False
  then show ?thesis by (cases "strip_aw_suffix symb") (auto simp: generate_symbols_def)
qed

lemma spelled_import:
  "spells_import i v \<longleftrightarrow>
     import_symbol i \<noteq> [] \<and> v \<in> set (generate_symbols (imp_dll i) (import_symbol i) True)"
proof (cases "import_symbol i = []")
  case False
  let ?s = "import_symbol i"
  have "hd ?s \<noteq> CHR ''#'' \<and> strip_aw_suffix ?s = Some s \<and> s \<noteq> [] \<longleftrightarrow>
      s \<noteq> [] \<and> hd s \<noteq> CHR ''#'' \<and> (?s = s @ ''A'' \<or> ?s = s @ ''W'')" for s
    using strip_aw_suffix_iff [of ?s s] by (metis hd_append2)
  then show ?thesis
    using False by (simp only: spells_import_def in_generate_symbols [OF False] in_spellings simp_thms)
qed (simp add: spells_import_def)

definition spells_forward :: "string \<Rightarrow> string \<Rightarrow> bool" where
  "spells_forward fwd v \<longleftrightarrow>
     CHR ''.'' \<notin> set fwd \<and> v = fwd \<or>
     (\<exists>library symb. fwd = library @ ''.'' @ symb \<and> CHR ''.'' \<notin> set symb \<and> v = to_lower_ascii library @ ''.'' @ symb)"

lemma spelled_forward: "spells_forward fwd v \<longleftrightarrow> v = reformat_forwarded_export_name fwd"
proof (cases "CHR ''.'' \<in> set fwd")
  case False
  then show ?thesis by (auto simp: spells_forward_def reformat_forwarded_export_name_def)
next
  case True
  then obtain library symb where f: "fwd = library @ ''.'' @ symb" "CHR ''.'' \<notin> set symb"
    using split_list_last [of "CHR ''.''" fwd] by auto
  have u: "fwd = l @ ''.'' @ s \<and> CHR ''.'' \<notin> set s \<longleftrightarrow> l = library \<and> s = symb" for l s
    using f by (auto simp: append_eq_append_conv2 append_eq_Cons_conv Cons_eq_append_conv)
  have "takeWhile (\<lambda>c. c \<noteq> CHR ''.'') (rev fwd) = rev symb"
    using f by (simp add: takeWhile_append)
  then have "reformat_forwarded_export_name fwd = to_lower_ascii library @ ''.'' @ symb"
    using True f(1) by (simp add: reformat_forwarded_export_name_def)
  then show ?thesis using True u by (auto simp: spells_forward_def)
qed

lemma fs_has_import:
  "fs_has (file_scope_feature_set ex None globals) (FImport v) \<longleftrightarrow>
     (\<exists>a. (Some (FImport v), a) \<in> set (extract_file_features ex) \<union> set globals)"
  by (auto simp: file_scope_feature_set_def fs_has_add_all)

lemma extracted_imports:
  "(Some (FImport v), a) \<in> set (pe_file_features img) \<union> set (pe_global_features img) \<longleftrightarrow>
     (\<exists>i\<in>set (img_imports img). import_symbol i \<noteq> [] \<and> a = AbsoluteVirtualAddress (imp_iat_va i) \<and>
        v \<in> set (generate_symbols (imp_dll i) (import_symbol i) True)) \<or>
     (\<exists>e\<in>set (img_exports img). \<exists>fwd. exp_forwarder e = Some fwd \<and> a = AbsoluteVirtualAddress (exp_va e) \<and>
        v = reformat_forwarded_export_name fwd)"
proof -
  have none: "(Some (FImport v), a) \<notin> set (extract_file_format img)"
    "(Some (FImport v), a) \<notin> set (extract_file_section_names img)"
    "(Some (FImport v), a) \<notin> set (extract_file_embedded_pe img)"
    "(Some (FImport v), a) \<notin> set (extract_file_strings img)"
    "(Some (FImport v), a) \<notin> set (pe_global_features img)"
    by (auto simp: extract_file_format_def extract_file_section_names_def extract_file_embedded_pe_def
        extract_file_strings_def string_features_def pe_global_features_def split: if_splits option.splits)
  have imps: "(Some (FImport v), a) \<in> set (import_features i) \<longleftrightarrow>
      import_symbol i \<noteq> [] \<and> a = AbsoluteVirtualAddress (imp_iat_va i) \<and>
      v \<in> set (generate_symbols (imp_dll i) (import_symbol i) True)" for i
    by (auto simp: import_features_def)
  have exps: "(Some (FImport v), a) \<in> set (export_features e) \<longleftrightarrow>
      (\<exists>fwd. exp_forwarder e = Some fwd \<and> a = AbsoluteVirtualAddress (exp_va e) \<and>
        v = reformat_forwarded_export_name fwd)" for e
    by (cases "exp_forwarder e") (auto simp: export_features_def)
  show ?thesis
    using none by (simp add: pe_file_features_def extract_file_import_names_def extract_file_export_names_def imps exps)
qed

section \<open>Properties\<close>

text \<open>
  C25: Both string passes put out exactly the maximal runs of printable units that are long enough
  and do not lie in a filling: in the order of the file, each with its text and offset, and all of
  them unless the cap of the pass is reached; then they are the first ones.  The ASCII pass may
  go one past the cap, the wide one never does.
\<close>

theorem string_passes_exact:
  assumes "0 < m"
  shows "finds_runs kMaxStringsPerPass
           (\<lambda>st n. maximal_run (map is_ascii_printable buf) st n \<and> m \<le> n \<and> \<not> is_in_repeat_fill_region buf st)
           (\<lambda>st n. \<lparr>str_value = map ascii_of (take n (drop st buf)), str_offset = st\<rparr>)
           (extract_ascii_strings buf m) \<and>
         length (extract_ascii_strings buf m) \<le> kMaxStringsPerPass + 1 \<and>
         finds_runs kMaxStringsPerPass
           (\<lambda>st n. maximal_run (pair_units buf) st n \<and> m \<le> n \<and> \<not> is_in_repeat_fill_region buf (2 * st))
           (\<lambda>st n. \<lparr>str_value = unicode_value buf (2 * st) n, str_offset = 2 * st\<rparr>)
           (extract_unicode_strings buf m) \<and>
         length (extract_unicode_strings buf m) \<le> kMaxStringsPerPass"
  using ascii_pass_finds [OF assms] unicode_pass_finds [OF assms] by blast

lemma string_passes_exact_witness:
  "finds_runs kMaxStringsPerPass
     (\<lambda>st n. maximal_run (map is_ascii_printable [0, 66, 67, 68, 69]) st n \<and> kMinStringLength \<le> n \<and>
             \<not> is_in_repeat_fill_region [0, 66, 67, 68, 69] st)
     (\<lambda>st n. \<lparr>str_value = map ascii_of (take n (drop st [0, 66, 67, 68, 69])), str_offset = st\<rparr>)
     (extract_ascii_strings [0, 66, 67, 68, 69] kMinStringLength) \<and>
   extract_ascii_strings [0, 66, 67, 68, 69] kMinStringLength = [\<lparr>str_value = ''BCDE'', str_offset = 1\<rparr>]"
proof -
  have "0 < kMinStringLength" by (simp add: kMinStringLength_def)
  moreover have "map ascii_of [66, 67, 68, 69] = ''BCDE''" by code_simp
  then have "extract_ascii_strings [0, 66, 67, 68, 69] kMinStringLength = [\<lparr>str_value = ''BCDE'', str_offset = 1\<rparr>]"
    by (simp add: extract_ascii_strings_def is_ascii_printable_def emit_ascii_def kMinStringLength_def
        is_in_repeat_fill_region_def kRepeatFillBytes_def range_is_all_def kHalfWindow_def
        kFillCheckSliceSize_def Let_def upt_rec)
  ultimately show ?thesis using string_passes_exact [of kMinStringLength "[0, 66, 67, 68, 69]"] by blast
qed

text \<open>
  C26: The carver finds, in ascending order, exactly the positions at which the bytes, under some
  one-byte XOR mask, are an MZ header whose e_lfanew leads to a PE signature inside the file.
\<close>

theorem embedded_pe_exact:
  "sorted_wrt (<) (carve_pe_files buf) \<and>
   (pos \<in> set (carve_pe_files buf) \<longleftrightarrow>
      (\<exists>key lfanew. masked key (take 2 (drop pos buf)) = [0x4D, 0x5A] \<and>
         masked key (take 4 (drop (pos + 0x3C) buf)) = le32 lfanew \<and>
         masked key (take 4 (drop (pos + unat lfanew) buf)) = [0x50, 0x45, 0, 0]))"
  using carve_pe_files_exact [of pos buf] carve_pe_files_sorted [of buf] by (simp only: pe_header_at_def)

text \<open>
  C24: The import features of the file scope of an image are the spellings of its imports, with the
  library and without it and with a last A or W dropped, and its forwarded exports with the library
  in lower case, and no others.
\<close>

theorem file_imports_exact:
  "fs_has (file_scope_feature_set (pefile_extractor img) None (pe_global_features img)) (FImport v) \<longleftrightarrow>
     (\<exists>i\<in>set (img_imports img). spells_import i v) \<or>
     (\<exists>e\<in>set (img_exports img). \<exists>fwd. exp_forwarder e = Some fwd \<and> spells_forward fwd v)"
  unfolding fs_has_import pefile_extractor_def extractor.simps extracted_imports spelled_import spelled_forward by blast

end
