(* ===== verification/Codeblocks.thy ===== *)
theory Codeblocks
  imports Emu_Operands
begin

text \<open>
  The databases of the discovery engine and the pass that cuts the flow of a function into blocks
  (location_db.cpp, xref_db.cpp and codeblocks.cpp under
  src/features/extractors/papa_native/viv/, with br_flags.h), and what they promise.
\<close>

section \<open>Locations\<close>

text \<open>The ordered map from start addresses, as the list of its locations in ascending order.\<close>

datatype loc_type = LOC_Op | LOC_Pointer | LOC_String | LOC_Unicode | LOC_Number | LOC_Pad | LOC_Import

record location =
  loc_va :: u64
  loc_size :: u64
  loc_type_of :: loc_type

type_synonym location_db = "location list"

fun insert_location :: "location \<Rightarrow> location_db \<Rightarrow> location_db" where
  "insert_location l [] = [l]"
| "insert_location l (m # db) =
     (if loc_va l < loc_va m then l # m # db
      else if loc_va l = loc_va m then l # db
      else m # insert_location l db)"

definition add_location :: "u64 \<Rightarrow> u64 \<Rightarrow> loc_type \<Rightarrow> location_db \<Rightarrow> location_db" where
  "add_location va n ty db = insert_location \<lparr>loc_va = va, loc_size = n, loc_type_of = ty\<rparr> db"

definition get_location :: "location_db \<Rightarrow> u64 \<Rightarrow> location option" where
  "get_location db va =
     (let before = takeWhile (\<lambda>l. loc_va l \<le> va) db in
      if before = [] then None
      else
        let l = last before
        in if va \<ge> loc_va l \<and> va < loc_va l + loc_size l then Some l else None)"

definition is_location :: "location_db \<Rightarrow> u64 \<Rightarrow> bool" where
  "is_location db va = (case get_location db va of None \<Rightarrow> False | Some l \<Rightarrow> loc_va l = va)"

definition location_type :: "location_db \<Rightarrow> u64 \<Rightarrow> loc_type option" where
  "location_type db va = map_option loc_type_of (get_location db va)"

definition del_location :: "u64 \<Rightarrow> location_db \<Rightarrow> location_db" where
  "del_location va db = filter (\<lambda>l. loc_va l \<noteq> va) db"

text \<open>A visit passes each location to the visitor, whose state is threaded through.\<close>

definition for_each_location :: "(location \<Rightarrow> 's \<Rightarrow> 's) \<Rightarrow> location_db \<Rightarrow> 's \<Rightarrow> 's" where
  "for_each_location fn db s = fold fn db s"

section \<open>Cross references\<close>

definition kCfProc :: u16 where "kCfProc = push_bit 0 1"
definition kCfCond :: u16 where "kCfCond = push_bit 1 1"
definition kCfDeref :: u16 where "kCfDeref = push_bit 2 1"
definition kCfTable :: u16 where "kCfTable = push_bit 3 1"
definition kCfFall :: u16 where "kCfFall = push_bit 4 1"

record code_xref =
  cx_from :: u64
  cx_to :: u64
  cx_flags :: u16

record xref_db =
  xd_from :: "u64 \<rightharpoonup> code_xref list"
  xd_to :: "u64 set"

definition empty_xrefs :: xref_db where
  "empty_xrefs = \<lparr>xd_from = Map.empty, xd_to = {}\<rparr>"

definition code_xrefs_from :: "xref_db \<Rightarrow> u64 \<Rightarrow> code_xref list" where
  "code_xrefs_from db va = (case xd_from db va of None \<Rightarrow> [] | Some edges \<Rightarrow> edges)"

definition has_code_xref_to :: "xref_db \<Rightarrow> u64 \<Rightarrow> bool" where
  "has_code_xref_to db va \<longleftrightarrow> va \<in> xd_to db"

text \<open>The flags of an edge that is there are accumulated; \<open>None\<close> is an edge that is not.\<close>

fun accumulate_flags :: "u64 \<Rightarrow> u16 \<Rightarrow> code_xref list \<Rightarrow> code_xref list option" where
  "accumulate_flags to flags [] = None"
| "accumulate_flags to flags (e # es) =
     (if cx_to e = to then Some (e\<lparr>cx_flags := cx_flags e OR flags\<rparr> # es)
      else map_option (\<lambda>es'. e # es') (accumulate_flags to flags es))"

definition add_code_xref :: "u64 \<Rightarrow> u64 \<Rightarrow> u16 \<Rightarrow> xref_db \<Rightarrow> xref_db" where
  "add_code_xref from to flags db =
     (let edges = code_xrefs_from db from in
      case accumulate_flags to flags edges of
        Some edges' \<Rightarrow> db\<lparr>xd_from := (xd_from db)(from \<mapsto> edges')\<rparr>
      | None \<Rightarrow>
          db\<lparr>xd_from := (xd_from db)(from \<mapsto> edges @ [\<lparr>cx_from = from, cx_to = to, cx_flags = flags\<rparr>]),
             xd_to := insert to (xd_to db)\<rparr>)"

section \<open>Blocks\<close>

record code_block =
  cb_va :: u64
  cb_size :: u64
  cb_function :: u64

record block_store =
  bs_function :: "u64 \<rightharpoonup> code_block list"
  bs_start :: "u64 \<rightharpoonup> code_block"

definition empty_store :: block_store where
  "empty_store = \<lparr>bs_function = Map.empty, bs_start = Map.empty\<rparr>"

definition function_blocks :: "block_store \<Rightarrow> u64 \<Rightarrow> code_block list" where
  "function_blocks st f = (case bs_function st f of None \<Rightarrow> [] | Some bs \<Rightarrow> bs)"

definition code_block_at :: "block_store \<Rightarrow> u64 \<Rightarrow> code_block option" where
  "code_block_at st va = bs_start st va"

definition add_code_block :: "u64 \<Rightarrow> u64 \<Rightarrow> u64 \<Rightarrow> block_store \<Rightarrow> block_store" where
  "add_code_block va n f st =
     (let b = \<lparr>cb_va = va, cb_size = n, cb_function = f\<rparr>
      in st\<lparr>bs_function := (bs_function st)(f \<mapsto> function_blocks st f @ [b]),
            bs_start := (bs_start st)(va \<mapsto> b)\<rparr>)"

text \<open>What the walk reads; a predicate that was not given is constant.\<close>

record flow_view =
  fv_locations :: location_db
  fv_xrefs :: xref_db
  fv_no_fall :: "u64 \<Rightarrow> bool"
  fv_can_parse :: "u64 \<Rightarrow> bool"

definition flow_edge :: "code_xref \<Rightarrow> bool" where
  "flow_edge e \<longleftrightarrow> cx_flags e AND kCfProc = 0 \<and> cx_flags e AND kCfDeref = 0"

definition flow_targets :: "flow_view \<Rightarrow> u64 \<Rightarrow> u64 list" where
  "flow_targets fv va = map cx_to (filter flow_edge (code_xrefs_from (fv_xrefs fv) va))"

text \<open>
  One block, from \<open>start\<close> on: its size, its end marker, if it gets one, and the starts it adds to
  the work list.
\<close>

type_synonym block_scan = "u64 \<times> (u64 \<times> bool) list \<times> u64 list"

partial_function (option) scan_block :: "flow_view \<Rightarrow> u64 \<Rightarrow> u64 \<Rightarrow> block_scan option" where
  "scan_block fv start va =
     (case get_location (fv_locations fv) va of
        None \<Rightarrow> Some (va - start, [(va, False)], [])
      | Some l \<Rightarrow>
          if loc_type_of l \<noteq> LOC_Op then Some (va - start, [(va, False)], [])
          else if \<not> fv_can_parse fv va then Some (0, [], [])
          else
            let next = va + loc_size l; targets = flow_targets fv va
            in if fv_no_fall fv (loc_va l) then Some (next - start, [(next, False)], targets)
               else if targets \<noteq> [] then Some (next - start, [], targets @ [next])
               else if has_code_xref_to (fv_xrefs fv) next then Some (next - start, [], [next])
               else scan_block fv start next)"

record flow_walk =
  fw_blocks :: "u64 \<rightharpoonup> u64"
  fw_done :: "u64 set"
  fw_refs :: "(u64 \<times> bool) list"

definition record_block :: "u64 \<Rightarrow> block_scan \<Rightarrow> flow_walk \<Rightarrow> flow_walk" where
  "record_block start b w =
     (case b of (n, marks, _) \<Rightarrow>
        w\<lparr>fw_blocks := (fw_blocks w)(start \<mapsto> n), fw_done := insert start (fw_done w),
          fw_refs := fw_refs w @ (start, True) # marks\<rparr>)"

text \<open>The work list is taken from its end.\<close>

partial_function (option) walk_flow :: "flow_view \<Rightarrow> u64 list \<Rightarrow> flow_walk \<Rightarrow> flow_walk option" where
  "walk_flow fv todo w =
     (if todo = [] then Some w
      else if last todo \<in> fw_done w then walk_flow fv (butlast todo) w
      else
        case scan_block fv (last todo) (last todo) of
          None \<Rightarrow> None
        | Some b \<Rightarrow> walk_flow fv (butlast todo @ snd (snd b)) (record_block (last todo) b w))"

text \<open>The markers in ascending order: an end before a begin at the same address.\<close>

definition marker_key :: "u64 \<times> bool \<Rightarrow> nat" where
  "marker_key m = 2 * unat (fst m) + (if snd m then 1 else 0)"

fun register_blocks ::
    "(u64 \<rightharpoonup> u64) \<Rightarrow> u64 \<Rightarrow> (u64 \<times> bool) list \<Rightarrow> block_store \<Rightarrow> block_store" where
  "register_blocks blocks f [] st = st"
| "register_blocks blocks f ((va, begin) # refs) st =
     (if \<not> begin then register_blocks blocks f refs st
      else if refs = [] then st
      else
        let n = (case blocks va of None \<Rightarrow> 0 | Some n \<Rightarrow> n)
        in if n = 0 then register_blocks blocks f refs st
           else register_blocks blocks f refs (add_code_block va n f st))"

definition analyze_function :: "flow_view \<Rightarrow> u64 \<Rightarrow> block_store \<Rightarrow> block_store option" where
  "analyze_function fv f st =
     map_option (\<lambda>w. register_blocks (fw_blocks w) f (sort_key marker_key (fw_refs w)) st)
       (walk_flow fv [f] \<lparr>fw_blocks = Map.empty, fw_done = {}, fw_refs = []\<rparr>)"

end
