(* ===== verification/Codeblocks_Correct.thy ===== *)
theory Codeblocks_Correct
  imports Codeblocks
begin

text \<open>
  What the databases of the discovery engine promise, and the blocks of a function: the walk ends,
  and the blocks it registers are those of the addresses control flow reaches from the entry.
\<close>

section \<open>Locations\<close>

definition db_ok :: "location_db \<Rightarrow> bool" where
  "db_ok db \<longleftrightarrow> sorted_wrt (\<lambda>a b. loc_va a < loc_va b) db"

lemma set_insert_location:
  "db_ok db \<Longrightarrow> set (insert_location l db) = insert l {m \<in> set db. loc_va m \<noteq> loc_va l}"
  by (induction l db rule: insert_location.induct) (auto simp: db_ok_def)

lemma insert_location_ok: "db_ok db \<Longrightarrow> db_ok (insert_location l db)"
proof (induction l db rule: insert_location.induct)
  case (2 l m db)
  then show ?case
    using set_insert_location [of db l] by (auto simp: db_ok_def)
qed (simp add: db_ok_def)

lemma add_location_ok [intro]: "db_ok db \<Longrightarrow> db_ok (add_location va n ty db)"
  by (simp add: add_location_def insert_location_ok)

lemma set_add_location:
  "db_ok db \<Longrightarrow> set (add_location va n ty db) =
     insert \<lparr>loc_va = va, loc_size = n, loc_type_of = ty\<rparr> {m \<in> set db. loc_va m \<noteq> va}"
  by (simp add: add_location_def set_insert_location)

lemma del_location_ok: "db_ok db \<Longrightarrow> db_ok (del_location va db)"
  by (simp add: del_location_def db_ok_def sorted_wrt_filter)

lemma takeWhile_below:
  "db_ok db \<Longrightarrow> takeWhile (\<lambda>l. loc_va l \<le> va) db = filter (\<lambda>l. loc_va l \<le> va) db"
proof (induction db)
  case (Cons m db)
  show ?case
  proof (cases "loc_va m \<le> va")
    case True
    then show ?thesis using Cons by (simp add: db_ok_def)
  next
    case False
    then have "filter (\<lambda>l. loc_va l \<le> va) (m # db) = []"
      using Cons.prems by (auto simp: db_ok_def filter_empty_conv)
    then show ?thesis using False by simp
  qed
qed simp

lemma last_greatest:
  assumes "sorted_wrt (\<lambda>a b. loc_va a < loc_va b) xs" "xs \<noteq> []"
  shows "x = last xs \<longleftrightarrow> x \<in> set xs \<and> (\<forall>m\<in>set xs. loc_va m \<le> loc_va x)"
proof -
  obtain ys y where xs: "xs = ys @ [y]" using assms(2) by (metis append_butlast_last_id)
  have "loc_va m < loc_va y" if "m \<in> set ys" for m using assms(1) that by (simp add: xs sorted_wrt_append)
  then have "x = y \<longleftrightarrow> x \<in> set (ys @ [y]) \<and> (\<forall>m\<in>set (ys @ [y]). loc_va m \<le> loc_va x)"
    by (cases "x = y") (auto simp: not_le intro!: less_imp_le)
  then show ?thesis by (simp add: xs)
qed

text \<open>The location of an address is the one with the greatest start not past it, if it reaches it.\<close>

lemma get_location_iff:
  assumes "db_ok db"
  shows "get_location db va = Some l \<longleftrightarrow>
     l \<in> set db \<and> loc_va l \<le> va \<and> va < loc_va l + loc_size l \<and>
     (\<forall>m\<in>set db. loc_va m \<le> va \<longrightarrow> loc_va m \<le> loc_va l)"
proof -
  let ?xs = "filter (\<lambda>l. loc_va l \<le> va) db"
  have g: "get_location db va = (if ?xs = [] then None else
      if va \<ge> loc_va (last ?xs) \<and> va < loc_va (last ?xs) + loc_size (last ?xs) then Some (last ?xs) else None)"
    by (simp add: get_location_def takeWhile_below [OF assms] Let_def)
  have srt: "sorted_wrt (\<lambda>a b. loc_va a < loc_va b) ?xs"
    using assms by (simp add: db_ok_def sorted_wrt_filter)
  show ?thesis
  proof (cases "?xs = []")
    case True
    then show ?thesis unfolding g by (auto simp: filter_empty_conv)
  next
    case False
    have "l = last ?xs \<longleftrightarrow> l \<in> set db \<and> loc_va l \<le> va \<and> (\<forall>m\<in>set db. loc_va m \<le> va \<longrightarrow> loc_va m \<le> loc_va l)"
      using last_greatest [OF srt False, of l] by auto
    then show ?thesis unfolding g using False by auto
  qed
qed

lemma get_location_in: "get_location db va = Some l \<Longrightarrow> l \<in> set db"
  by (auto simp: get_location_def Let_def split: if_split_asm dest!: last_in_set set_takeWhileD)

lemma get_location_covers:
  "get_location db va = Some l \<Longrightarrow> loc_va l \<le> va \<and> va < loc_va l + loc_size l"
  by (auto simp: get_location_def Let_def split: if_split_asm)

text \<open>A location put at an address that has none leaves every other one as it was.\<close>

lemma add_location_keeps:
  assumes "db_ok db" "get_location db va = None" "get_location db x = Some l"
  shows "get_location (add_location va n ty db) x = Some l"
proof -
  have l: "l \<in> set db" "loc_va l \<le> x" "x < loc_va l + loc_size l"
    "\<And>m. m \<in> set db \<Longrightarrow> loc_va m \<le> x \<Longrightarrow> loc_va m \<le> loc_va l"
    using assms(3) get_location_iff [OF assms(1)] by blast+
  have "\<not> (loc_va l \<le> va \<and> va \<le> x)"
  proof
    assume v: "loc_va l \<le> va \<and> va \<le> x"
    have "get_location db va = Some l"
      unfolding get_location_iff [OF assms(1)] using l v by (meson le_less_trans order_trans)
    then show False using assms(2) by simp
  qed
  then have "loc_va l \<noteq> va" "va \<le> x \<Longrightarrow> va \<le> loc_va l" using l(2) by auto
  then show ?thesis
    unfolding get_location_iff [OF add_location_ok [OF assms(1)]] set_add_location [OF assms(1)]
    using l by auto
qed

lemma add_location_at:
  assumes "db_ok db" "va < va + n"
  shows "get_location (add_location va n ty db) va = Some \<lparr>loc_va = va, loc_size = n, loc_type_of = ty\<rparr>"
  unfolding get_location_iff [OF add_location_ok [OF assms(1)]] set_add_location [OF assms(1)]
  using assms(2) by auto

section \<open>Cross references\<close>

text \<open>A database as the flags of each edge.\<close>

definition edge_flags :: "xref_db \<Rightarrow> u64 \<Rightarrow> u64 \<Rightarrow> u16 option" where
  "edge_flags db from to = map_option cx_flags (find (\<lambda>e. cx_to e = to) (code_xrefs_from db from))"

definition xrefs_ok :: "xref_db \<Rightarrow> bool" where
  "xrefs_ok db \<longleftrightarrow>
     (\<forall>va. distinct (map cx_to (code_xrefs_from db va))) \<and>
     xd_to db = {to. \<exists>va. edge_flags db va to \<noteq> None}"

lemma accumulate_flags_None: "accumulate_flags to flags es = None \<longleftrightarrow> (\<forall>e\<in>set es. cx_to e \<noteq> to)"
  by (induction to flags es rule: accumulate_flags.induct) auto

lemma accumulate_flags_Some:
  assumes "accumulate_flags to flags es = Some es'"
  shows "map cx_to es' = map cx_to es"
    and "find (\<lambda>e. cx_to e = x) es' =
      map_option (\<lambda>e. if x = to then e\<lparr>cx_flags := cx_flags e OR flags\<rparr> else e) (find (\<lambda>e. cx_to e = x) es)"
    and "\<exists>e. find (\<lambda>e. cx_to e = to) es = Some e"
  using assms
proof (induction es arbitrary: es')
  case (Cons e es)
  {
    case 1
    then show ?case using Cons.IH(1) by (cases "cx_to e = to") auto
  next
    case 2
    then show ?case using Cons.IH(2) by (cases "cx_to e = to"; cases "cx_to e = x") (auto simp: option.map_ident)
  next
    case 3
    then show ?case using Cons.IH(3) by (cases "cx_to e = to") auto
  }
qed simp_all

lemma find_append: "find P (xs @ ys) = (case find P xs of None \<Rightarrow> find P ys | Some x \<Rightarrow> Some x)"
  by (induction xs) auto

lemma no_edge_iff: "accumulate_flags to flags (code_xrefs_from db from) = None \<longleftrightarrow> edge_flags db from to = None"
  by (auto simp: accumulate_flags_None edge_flags_def find_None_iff)

lemma code_xrefs_from_add:
  "code_xrefs_from (add_code_xref from to flags db) va =
     (if va \<noteq> from then code_xrefs_from db va
      else case accumulate_flags to flags (code_xrefs_from db from) of
        None \<Rightarrow> code_xrefs_from db from @ [\<lparr>cx_from = from, cx_to = to, cx_flags = flags\<rparr>]
      | Some es \<Rightarrow> es)"
  by (simp add: add_code_xref_def code_xrefs_from_def Let_def split: option.split)

lemma edge_flags_add:
  "edge_flags (add_code_xref from to flags db) a b =
     (if a = from \<and> b = to
      then Some (case edge_flags db from to of None \<Rightarrow> flags | Some old \<Rightarrow> old OR flags)
      else edge_flags db a b)"
proof (cases "accumulate_flags to flags (code_xrefs_from db from)")
  case None
  then have "find (\<lambda>e. cx_to e = to) (code_xrefs_from db from) = None"
    by (simp add: no_edge_iff edge_flags_def)
  then show ?thesis
    by (auto simp: edge_flags_def code_xrefs_from_add None find_append split: option.split)
next
  case (Some es')
  obtain e where "find (\<lambda>e. cx_to e = to) (code_xrefs_from db from) = Some e"
    using accumulate_flags_Some(3) [OF Some] by blast
  then show ?thesis
    using accumulate_flags_Some(2) [OF Some, of b]
    by (auto simp: edge_flags_def code_xrefs_from_add Some option.map_ident)
qed

lemma add_code_xref_to:
  "xd_to (add_code_xref from to flags db) =
     (if edge_flags db from to = None then insert to (xd_to db) else xd_to db)"
  using no_edge_iff [of to flags db "from"]
  by (cases "accumulate_flags to flags (code_xrefs_from db from)") (auto simp: add_code_xref_def Let_def)

lemma add_code_xref_ok:
  assumes "xrefs_ok db"
  shows "xrefs_ok (add_code_xref from to flags db)"
proof -
  have d: "distinct (map cx_to (code_xrefs_from db va))" for va
    using assms by (simp add: xrefs_ok_def)
  have "distinct (map cx_to (code_xrefs_from (add_code_xref from to flags db) va))" for va
  proof (cases "accumulate_flags to flags (code_xrefs_from db from)")
    case None
    have "to \<notin> cx_to ` set (code_xrefs_from db from)"
      using None [unfolded accumulate_flags_None] by auto
    then show ?thesis using d by (simp add: code_xrefs_from_add None)
  next
    case (Some es')
    then show ?thesis using d accumulate_flags_Some(1) [OF Some] by (simp add: code_xrefs_from_add Some)
  qed
  moreover have "xd_to (add_code_xref from to flags db) =
      {t. \<exists>va. edge_flags (add_code_xref from to flags db) va t \<noteq> None}"
    using assms by (auto simp: add_code_xref_to edge_flags_add xrefs_ok_def split: if_split_asm)
  ultimately show ?thesis by (simp add: xrefs_ok_def)
qed

lemma empty_xrefs_ok: "xrefs_ok empty_xrefs"
  by (simp add: xrefs_ok_def empty_xrefs_def code_xrefs_from_def edge_flags_def)

lemma flow_target_has_xref:
  "xrefs_ok (fv_xrefs fv) \<Longrightarrow> t \<in> set (flow_targets fv va) \<Longrightarrow> has_code_xref_to (fv_xrefs fv) t"
  by (auto simp: xrefs_ok_def has_code_xref_to_def flow_targets_def edge_flags_def find_None_iff)

section \<open>One block\<close>

text \<open>
  No location reaches so near the end of the address space that two of its lengths leave it.
\<close>

definition fits :: "location_db \<Rightarrow> bool" where
  "fits db \<longleftrightarrow> (\<forall>l\<in>set db. unat (loc_va l) + 2 * unat (loc_size l) < 2 ^ 64)"

lemma fits_next:
  assumes "fits db" "get_location db va = Some l"
  shows "va < va + loc_size l" "unat (va + loc_size l) = unat va + unat (loc_size l)"
proof -
  have c: "loc_va l \<le> va" "va < loc_va l + loc_size l" using get_location_covers [OF assms(2)] by auto
  have b: "unat (loc_va l) + 2 * unat (loc_size l) < 2 ^ 64"
    using assms(1) get_location_in [OF assms(2)] by (simp add: fits_def)
  have "unat (loc_va l + loc_size l) = unat (loc_va l) + unat (loc_size l)"
    using b by (intro unat_add_lem [THEN iffD1]) simp
  then have v: "unat va < unat (loc_va l) + unat (loc_size l)" "unat (loc_va l) \<le> unat va"
    using c by (simp_all add: word_less_nat_alt word_le_nat_alt)
  show e: "unat (va + loc_size l) = unat va + unat (loc_size l)"
    using v b by (intro unat_add_lem [THEN iffD1]) simp
  show "va < va + loc_size l" using e v by (simp add: word_less_nat_alt)
qed

text \<open>Control runs on from one instruction of a block to the next of the same block.\<close>

definition runs_on :: "flow_view \<Rightarrow> u64 \<Rightarrow> u64 \<Rightarrow> bool" where
  "runs_on fv va next \<longleftrightarrow>
     (\<exists>l. get_location (fv_locations fv) va = Some l \<and> loc_type_of l = LOC_Op \<and> fv_can_parse fv va \<and>
        next = va + loc_size l \<and> \<not> fv_no_fall fv (loc_va l) \<and> flow_targets fv va = [] \<and>
        \<not> has_code_xref_to (fv_xrefs fv) next)"

text \<open>How a block ends at the instruction at \<open>va\<close>: with which size, end marker and new starts.\<close>

definition block_ends :: "flow_view \<Rightarrow> u64 \<Rightarrow> u64 \<Rightarrow> block_scan \<Rightarrow> bool" where
  "block_ends fv start va b \<longleftrightarrow>
     (case get_location (fv_locations fv) va of
        None \<Rightarrow> b = (va - start, [(va, False)], [])
      | Some l \<Rightarrow>
          let next = va + loc_size l in
          if loc_type_of l \<noteq> LOC_Op then b = (va - start, [(va, False)], [])
          else if \<not> fv_can_parse fv va then b = (0, [], [])
          else if fv_no_fall fv (loc_va l) then b = (next - start, [(next, False)], flow_targets fv va)
          else if flow_targets fv va \<noteq> [] then b = (next - start, [], flow_targets fv va @ [next])
          else has_code_xref_to (fv_xrefs fv) next \<and> b = (next - start, [], [next]))"

lemma scan_block_total:
  assumes "fits (fv_locations fv)"
  shows "\<exists>b v. scan_block fv start va = Some b \<and> (runs_on fv)\<^sup>*\<^sup>* va v \<and> va \<le> v \<and> block_ends fv start v b"
proof (induction "2 ^ 64 - unat va" arbitrary: va rule: less_induct)
  case less
  show ?case
  proof (cases "\<exists>next. runs_on fv va next")
    case False
    have "\<exists>b. scan_block fv start va = Some b \<and> block_ends fv start va b"
      using False by (subst scan_block.simps) (auto simp: block_ends_def runs_on_def Let_def split: option.split)
    then show ?thesis by blast
  next
    case True
    then obtain l where l: "get_location (fv_locations fv) va = Some l" "loc_type_of l = LOC_Op" "fv_can_parse fv va"
      "\<not> fv_no_fall fv (loc_va l)" "flow_targets fv va = []" "\<not> has_code_xref_to (fv_xrefs fv) (va + loc_size l)"
      and r: "runs_on fv va (va + loc_size l)"
      by (auto simp: runs_on_def)
    have n: "va < va + loc_size l" using fits_next [OF assms l(1)] by simp
    have "2 ^ 64 - unat (va + loc_size l) < 2 ^ 64 - unat va"
      using n unsigned_less [of va, where 'a = nat] by (simp add: word_less_nat_alt)
    from less [OF this] obtain b v where b: "scan_block fv start (va + loc_size l) = Some b"
      "(runs_on fv)\<^sup>*\<^sup>* (va + loc_size l) v" "va + loc_size l \<le> v" "block_ends fv start v b" by blast
    have "scan_block fv start va = Some b"
      using l b(1) by (subst scan_block.simps) (simp add: Let_def)
    moreover have "(runs_on fv)\<^sup>*\<^sup>* va v" using r b(2) by (rule converse_rtranclp_into_rtranclp)
    moreover have "va \<le> v" using b(3) n by simp
    ultimately show ?thesis using b(4) by blast
  qed
qed

definition scan :: "flow_view \<Rightarrow> u64 \<Rightarrow> block_scan" where
  "scan fv s = (case scan_block fv s s of None \<Rightarrow> (0, [], []) | Some b \<Rightarrow> b)"

definition block_size :: "flow_view \<Rightarrow> u64 \<Rightarrow> u64" where
  "block_size fv s = fst (scan fv s)"

lemma scan_some: "fits (fv_locations fv) \<Longrightarrow> scan_block fv s s = Some (scan fv s)"
  using scan_block_total [of fv s s] by (auto simp: scan_def)

lemma scan_ends:
  assumes "fits (fv_locations fv)"
  obtains v where "(runs_on fv)\<^sup>*\<^sup>* s v" "s \<le> v" "block_ends fv s v (scan fv s)"
  using scan_block_total [OF assms, of s s] by (auto simp: scan_def)

text \<open>A block that is not empty has a marker or a start past it.\<close>

lemma scan_past:
  assumes "fits (fv_locations fv)" "block_size fv s \<noteq> 0"
  shows "\<exists>e > s. (e, False) \<in> set (fst (snd (scan fv s))) \<or> e \<in> set (snd (snd (scan fv s)))"
proof -
  obtain v where v: "s \<le> v" "block_ends fv s v (scan fv s)" using scan_ends [OF assms(1)] .
  show ?thesis
  proof (cases "get_location (fv_locations fv) v")
    case None
    then show ?thesis using v assms(2) by (auto simp: block_ends_def block_size_def intro!: exI [of _ v])
  next
    case (Some l)
    have "s < v + loc_size l" using fits_next(1) [OF assms(1) Some] v(1) by simp
    then show ?thesis
      using v assms(2) Some
      by (auto simp: block_ends_def block_size_def Let_def split: if_split_asm intro!: exI [of _ v] exI [of _ "v + loc_size l"])
  qed
qed

section \<open>The walk over the blocks\<close>

definition new_starts :: "flow_view \<Rightarrow> u64 \<Rightarrow> u64 list" where
  "new_starts fv s = snd (snd (scan fv s))"

text \<open>The starts control flow reaches from those of \<open>S\<close>.\<close>

inductive_set leaders :: "flow_view \<Rightarrow> u64 set \<Rightarrow> u64 set" for fv S where
  entry: "s \<in> S \<Longrightarrow> s \<in> leaders fv S"
| target: "s \<in> leaders fv S \<Longrightarrow> t \<in> set (new_starts fv s) \<Longrightarrow> t \<in> leaders fv S"

lemma leaders_least:
  assumes "S \<subseteq> D" "\<And>s. s \<in> D \<Longrightarrow> set (new_starts fv s) \<subseteq> D"
  shows "leaders fv S \<subseteq> D"
proof
  fix s assume "s \<in> leaders fv S"
  then show "s \<in> D" by induction (use assms in auto)
qed

lemma leaders_mono: "S \<subseteq> leaders fv T \<Longrightarrow> leaders fv S \<subseteq> leaders fv T"
  by (rule leaders_least) (auto intro: leaders.target)

definition walk_ok :: "flow_view \<Rightarrow> flow_walk \<Rightarrow> bool" where
  "walk_ok fv w \<longleftrightarrow>
     (\<forall>s\<in>fw_done w. fw_blocks w s = Some (block_size fv s)) \<and>
     distinct (filter snd (fw_refs w)) \<and>
     set (fw_refs w) = (\<lambda>s. (s, True)) ` fw_done w \<union> (\<Union>s\<in>fw_done w. set (fst (snd (scan fv s))))"

lemma scan_marks: "fits (fv_locations fv) \<Longrightarrow> m \<in> set (fst (snd (scan fv s))) \<Longrightarrow> \<not> snd m"
  by (rule scan_ends [of fv s]) (auto simp: block_ends_def Let_def split: option.splits if_split_asm)

lemma record_block_ok:
  assumes "fits (fv_locations fv)" "walk_ok fv w" "s \<notin> fw_done w"
  shows "walk_ok fv (record_block s (scan fv s) w)"
proof -
  obtain n marks ts where sc: "scan fv s = (n, marks, ts)" by (metis prod_cases3)
  have m: "filter snd marks = []" using scan_marks [OF assms(1), of _ s] by (auto simp: sc filter_empty_conv)
  have "(s, True) \<notin> set (filter snd (fw_refs w))"
    using assms(2,3) scan_marks [OF assms(1)] by (fastforce simp: walk_ok_def)
  then show ?thesis
    using assms(2,3) m by (auto simp: walk_ok_def record_block_def sc block_size_def)
qed

lemma walk_flow_exact:
  assumes fits: "fits (fv_locations fv)"
  shows "walk_ok fv w \<Longrightarrow> \<forall>s\<in>fw_done w. set (new_starts fv s) \<subseteq> fw_done w \<union> set todo \<Longrightarrow>
     \<exists>w'. walk_flow fv todo w = Some w' \<and> walk_ok fv w' \<and> fw_done w' = leaders fv (fw_done w \<union> set todo)"
proof (induction "card (- fw_done w)" arbitrary: todo w rule: less_induct)
  case (less w todo)
  show ?case using less.prems(2)
  proof (induction todo rule: rev_induct)
    case Nil
    have "leaders fv (fw_done w) \<subseteq> fw_done w" using Nil by (intro leaders_least) auto
    then have "leaders fv (fw_done w) = fw_done w" by (auto intro: leaders.entry)
    then show ?case using less.prems(1) by (subst walk_flow.simps) simp
  next
    case (snoc s todo)
    show ?case
    proof (cases "s \<in> fw_done w")
      case True
      then have "fw_done w \<union> set (todo @ [s]) = fw_done w \<union> set todo" by auto
      then show ?thesis using snoc True by (subst walk_flow.simps) simp
    next
      case False
      let ?w = "record_block s (scan fv s) w" and ?todo = "todo @ new_starts fv s"
      have d: "fw_done ?w = insert s (fw_done w)"
        by (simp add: record_block_def split: prod.split)
      have "card (- fw_done ?w) < card (- fw_done w)"
        unfolding d using False by (intro psubset_card_mono) auto
      moreover have "walk_ok fv ?w" using record_block_ok [OF fits less.prems(1) False] .
      moreover have "\<forall>t\<in>fw_done ?w. set (new_starts fv t) \<subseteq> fw_done ?w \<union> set ?todo"
        unfolding d using snoc.prems by auto
      ultimately obtain w' where w': "walk_flow fv ?todo ?w = Some w'" "walk_ok fv w'"
        "fw_done w' = leaders fv (fw_done ?w \<union> set ?todo)"
        using less.hyps [of ?w ?todo] by blast
      have "walk_flow fv (todo @ [s]) w = Some w'"
        using w'(1) False by (subst walk_flow.simps) (simp add: scan_some [OF fits] new_starts_def)
      moreover have "leaders fv (fw_done ?w \<union> set ?todo) = leaders fv (fw_done w \<union> set (todo @ [s]))"
      proof
        show "leaders fv (fw_done ?w \<union> set ?todo) \<subseteq> leaders fv (fw_done w \<union> set (todo @ [s]))"
          unfolding d by (rule leaders_mono) (auto intro: leaders.intros)
        show "leaders fv (fw_done w \<union> set (todo @ [s])) \<subseteq> leaders fv (fw_done ?w \<union> set ?todo)"
          unfolding d by (rule leaders_mono) (auto intro: leaders.intros)
      qed
      ultimately show ?thesis using w' by auto
    qed
  qed
qed

section \<open>Registration\<close>

lemma marker_key_inject: "marker_key m = marker_key m' \<Longrightarrow> m = m'"
  by (cases m; cases m') (auto simp: marker_key_def word_unat_eq_iff split: if_split_asm; presburger?)

lemma marker_key_past: "s < e \<Longrightarrow> marker_key (s, True) < marker_key (e, b)"
  by (simp add: marker_key_def word_less_nat_alt)

definition register_starts :: "(u64 \<Rightarrow> u64) \<Rightarrow> u64 \<Rightarrow> u64 list \<Rightarrow> block_store \<Rightarrow> block_store" where
  "register_starts sz f ss st = fold (\<lambda>s. add_code_block s (sz s) f) (filter (\<lambda>s. sz s \<noteq> 0) ss) st"

text \<open>The last marker of all is never registered; it belongs to an empty block.\<close>

lemma register_blocks_starts:
  assumes "\<forall>s. (s, True) \<in> set refs \<longrightarrow> blocks s = Some (sz s)"
    and "\<And>a s. refs = a @ [(s, True)] \<Longrightarrow> sz s = 0"
  shows "register_blocks blocks f refs st = register_starts sz f (map fst (filter snd refs)) st"
  using assms
proof (induction refs arbitrary: st)
  case (Cons m refs)
  obtain va b where m: "m = (va, b)" by (cases m)
  have "refs = a @ [(s, True)] \<Longrightarrow> sz s = 0" for a s using Cons.prems(2) [of "m # a" s] by simp
  then have ih: "register_blocks blocks f refs st = register_starts sz f (map fst (filter snd refs)) st" for st
    using Cons.IH Cons.prems(1) by simp
  show ?case
  proof (cases b)
    case False
    then show ?thesis using ih by (simp add: m)
  next
    case True
    show ?thesis
    proof (cases "refs = []")
      case True
      then show ?thesis using \<open>b\<close> Cons.prems(2) [of "[]" va] by (simp add: m register_starts_def)
    next
      case False
      then show ?thesis
        using \<open>b\<close> ih Cons.prems(1) by (simp add: m register_starts_def)
    qed
  qed
qed (simp add: register_starts_def)

lemma function_blocks_add:
  "function_blocks (add_code_block va n f st) g =
     function_blocks st g @ (if g = f then [\<lparr>cb_va = va, cb_size = n, cb_function = f\<rparr>] else [])"
  by (simp add: add_code_block_def function_blocks_def Let_def)

lemma function_blocks_register:
  "function_blocks (register_starts sz f ss st) g =
     function_blocks st g @
       (if g = f then map (\<lambda>s. \<lparr>cb_va = s, cb_size = sz s, cb_function = f\<rparr>) (filter (\<lambda>s. sz s \<noteq> 0) ss) else [])"
proof (induction ss arbitrary: st)
  case (Cons s ss)
  then show ?case
    by (cases "sz s = 0") (simp_all add: register_starts_def function_blocks_add)
qed (simp add: register_starts_def)

lemma code_block_register:
  assumes "distinct ss"
  shows "code_block_at (register_starts sz f ss st) va =
     (if va \<in> set ss \<and> sz va \<noteq> 0 then Some \<lparr>cb_va = va, cb_size = sz va, cb_function = f\<rparr> else code_block_at st va)"
  using assms
proof (induction ss arbitrary: st)
  case (Cons s ss)
  then show ?case
    by (cases "sz s = 0") (auto simp: register_starts_def code_block_at_def add_code_block_def Let_def)
qed (simp add: register_starts_def)

lemma sorted_begins:
  assumes "distinct (filter snd refs)"
  shows "map fst (filter snd (sort_key marker_key refs)) = sorted_list_of_set {s. (s, True) \<in> set refs}"
proof (rule sorted_distinct_set_unique)
  let ?bs = "filter snd (sort_key marker_key refs)"
  have srt: "sorted (map marker_key ?bs)" by (simp add: sorted_filter)
  have "sorted_wrt (\<lambda>a b. fst a \<le> fst b) ?bs"
    by (rule sorted_wrt_mono_rel [OF _ srt [unfolded sorted_map]]) (auto simp: marker_key_def word_le_nat_alt)
  then show "sorted (map fst ?bs)" by (simp add: sorted_map)
  have "distinct ?bs" using assms by (simp add: filter_sort)
  then show "distinct (map fst ?bs)" by (auto simp: distinct_map inj_on_def)
  show "set (map fst ?bs) = set (sorted_list_of_set {s. (s, True) \<in> set refs})"
    by (force simp: set_sorted_list_of_set)
qed simp_all

lemma sorted_last_greatest:
  "sorted (map key xs) \<Longrightarrow> xs = a @ [x] \<Longrightarrow> y \<in> set xs \<Longrightarrow> key y \<le> key x" for key :: "'a \<Rightarrow> nat"
  by (auto simp: sorted_append)

lemma filter_sorted_set:
  "finite L \<Longrightarrow> filter P (sorted_list_of_set L) = sorted_list_of_set {s \<in> L. P s}" for L :: "u64 set"
  by (rule sorted_distinct_set_unique) (auto intro: sorted_wrt_filter)

definition block_at :: "flow_view \<Rightarrow> u64 \<Rightarrow> u64 \<Rightarrow> code_block" where
  "block_at fv f s = \<lparr>cb_va = s, cb_size = block_size fv s, cb_function = f\<rparr>"

definition block_starts :: "flow_view \<Rightarrow> u64 \<Rightarrow> u64 set" where
  "block_starts fv f = {s \<in> leaders fv {f}. block_size fv s \<noteq> 0}"

lemma analyze_function_registers:
  assumes fits: "fits (fv_locations fv)"
  shows "analyze_function fv f st =
     Some (register_starts (block_size fv) f (sorted_list_of_set (leaders fv {f})) st)"
proof -
  let ?w0 = "\<lparr>fw_blocks = Map.empty, fw_done = {}, fw_refs = []\<rparr>"
  have "walk_ok fv ?w0" by (simp add: walk_ok_def)
  then obtain w where w: "walk_flow fv [f] ?w0 = Some w" "walk_ok fv w" "fw_done w = leaders fv {f}"
    using walk_flow_exact [OF fits, of ?w0 "[f]"] by auto
  let ?refs = "sort_key marker_key (fw_refs w)"
  have refs: "set (fw_refs w) = (\<lambda>s. (s, True)) ` leaders fv {f} \<union> (\<Union>s\<in>leaders fv {f}. set (fst (snd (scan fv s))))"
    using w(2,3) by (simp add: walk_ok_def)
  have begins: "(s, True) \<in> set (fw_refs w) \<longleftrightarrow> s \<in> leaders fv {f}" for s
    unfolding refs using scan_marks [OF fits, of "(s, True)"] by auto
  have last: "block_size fv s = 0" if r: "?refs = a @ [(s, True)]" for a s
  proof (rule ccontr)
    assume "block_size fv s \<noteq> 0"
    from scan_past [OF fits this] obtain e where e: "s < e"
      "(e, False) \<in> set (fst (snd (scan fv s))) \<or> e \<in> set (snd (snd (scan fv s)))" by blast
    have "(s, True) \<in> set ?refs" using r by simp
    then have s: "s \<in> leaders fv {f}" using begins by simp
    have "\<exists>b. (e, b) \<in> set (fw_refs w)"
    proof (cases "e \<in> set (new_starts fv s)")
      case True
      then show ?thesis using begins leaders.target [OF s] by blast
    next
      case False
      then show ?thesis using e(2) s unfolding refs new_starts_def by blast
    qed
    then obtain b where "(e, b) \<in> set ?refs" by auto
    then have "marker_key (e, b) \<le> marker_key (s, True)"
      using sorted_last_greatest [OF _ r] by simp
    then show False using marker_key_past [OF e(1), of b] by simp
  qed
  have "register_blocks (fw_blocks w) f ?refs st =
      register_starts (block_size fv) f (map fst (filter snd ?refs)) st"
  proof (rule register_blocks_starts)
    show "\<forall>s. (s, True) \<in> set ?refs \<longrightarrow> fw_blocks w s = Some (block_size fv s)"
      using w(2,3) begins by (simp add: walk_ok_def)
  qed (rule last)
  moreover have "map fst (filter snd ?refs) = sorted_list_of_set (leaders fv {f})"
    using sorted_begins [of "fw_refs w"] w(2) begins by (simp add: walk_ok_def)
  ultimately show ?thesis by (simp add: analyze_function_def w(1))
qed

lemma codeblocks_registered:
  assumes "fits (fv_locations fv)"
  shows "\<exists>st'. analyze_function fv f st = Some st' \<and>
     (\<forall>g. function_blocks st' g = function_blocks st g @
        (if g = f then map (block_at fv f) (sorted_list_of_set (block_starts fv f)) else [])) \<and>
     (\<forall>va. code_block_at st' va =
        (if va \<in> block_starts fv f then Some (block_at fv f va) else code_block_at st va))"
proof (intro exI [of _ "register_starts (block_size fv) f (sorted_list_of_set (leaders fv {f})) st"] conjI allI)
  show "analyze_function fv f st = Some (register_starts (block_size fv) f (sorted_list_of_set (leaders fv {f})) st)"
    by (rule analyze_function_registers [OF assms])
qed (simp_all add: function_blocks_register code_block_register block_starts_def filter_sorted_set block_at_def [abs_def])

text \<open>A block is a straight line of instructions, and ends where one must end.\<close>

lemma block_is_straight:
  assumes "fits (fv_locations fv)" "block_size fv s \<noteq> 0"
  shows "\<exists>v. (runs_on fv)\<^sup>*\<^sup>* s v \<and> s \<le> v \<and> block_ends fv s v (scan fv s) \<and> s < s + block_size fv s"
proof -
  obtain v where v: "(runs_on fv)\<^sup>*\<^sup>* s v" "s \<le> v" "block_ends fv s v (scan fv s)" using scan_ends [OF assms(1)] .
  have "s < s + block_size fv s"
  proof (cases "get_location (fv_locations fv) v")
    case None
    then show ?thesis using v assms(2) by (auto simp: block_ends_def block_size_def)
  next
    case (Some l)
    have "s < v + loc_size l" using fits_next(1) [OF assms(1) Some] v(2) by simp
    then show ?thesis
      using v assms(2) Some by (auto simp: block_ends_def block_size_def Let_def split: if_split_asm)
  qed
  then show ?thesis using v by blast
qed

section \<open>Properties\<close>

text \<open>
  C27: The pass over the flow of a function ends, and adds to the blocks of that function, in
  ascending order, exactly the blocks of the starts reached from its entry that are not empty, and
  to no other function any; each start of them is owned by the new block, every other as before.
\<close>

theorem codeblocks_exact:
  assumes "fits (fv_locations fv)"
  shows "\<exists>st'. analyze_function fv f st = Some st' \<and>
     (\<forall>g. function_blocks st' g = function_blocks st g @
        (if g = f then map (block_at fv f) (sorted_list_of_set (block_starts fv f)) else [])) \<and>
     (\<forall>va. code_block_at st' va =
        (if va \<in> block_starts fv f then Some (block_at fv f va) else code_block_at st va))"
  using assms by (rule codeblocks_registered)

text \<open>A loop of two instructions, the second of which jumps back to the first.\<close>

definition loop_view :: flow_view where
  "loop_view =
     \<lparr>fv_locations = add_location 0x1002 3 LOC_Op (add_location 0x1000 2 LOC_Op []),
      fv_xrefs = add_code_xref 0x1002 0x1000 0 empty_xrefs,
      fv_no_fall = (\<lambda>va. va = 0x1002), fv_can_parse = (\<lambda>_. True)\<rparr>"

lemma loop_view_fits: "fits (fv_locations loop_view)"
  by (simp add: loop_view_def add_location_def fits_def)

lemma loop_view_scan: "scan loop_view 0x1000 = (5, [(0x1005, False)], [0x1000])"
proof -
  have "scan_block loop_view 0x1000 0x1002 = Some (5, [(0x1005, False)], [0x1000])"
    by (subst scan_block.simps)
      (simp add: loop_view_def add_location_def get_location_def flow_targets_def code_xrefs_from_def
        add_code_xref_def empty_xrefs_def flow_edge_def)
  then have "scan_block loop_view 0x1000 0x1000 = Some (5, [(0x1005, False)], [0x1000])"
    by (subst scan_block.simps)
      (simp add: loop_view_def add_location_def get_location_def flow_targets_def code_xrefs_from_def
        add_code_xref_def empty_xrefs_def flow_edge_def has_code_xref_to_def)
  then show ?thesis by (simp add: scan_def)
qed

lemma loop_view_starts: "block_starts loop_view 0x1000 = {0x1000}"
proof -
  have "leaders loop_view {0x1000} = {0x1000}"
    using leaders_least [of "{0x1000}" "{0x1000}" loop_view]
    by (auto simp: new_starts_def loop_view_scan intro: leaders.entry)
  then show ?thesis by (auto simp: block_starts_def block_size_def loop_view_scan)
qed

lemma codeblocks_exact_witness:
  "\<exists>st'. analyze_function loop_view 0x1000 empty_store = Some st' \<and>
     function_blocks st' 0x1000 = [\<lparr>cb_va = 0x1000, cb_size = 5, cb_function = 0x1000\<rparr>]"
  using codeblocks_exact [OF loop_view_fits, where f = "0x1000" and st = empty_store]
  by (fastforce simp: loop_view_starts block_at_def block_size_def loop_view_scan function_blocks_def empty_store_def)

text \<open>
  A block that is not empty lies in one piece of the address space, and is a straight line of
  defined instructions that decode: none but the last branches, none falls into an address that a
  code reference names, and the last is where the block has to end.
\<close>

theorem block_straight:
  assumes "fits (fv_locations fv)" "block_size fv s \<noteq> 0"
  shows "\<exists>v. (runs_on fv)\<^sup>*\<^sup>* s v \<and> s \<le> v \<and> block_ends fv s v (scan fv s) \<and> s < s + block_size fv s"
  using assms by (rule block_is_straight)

lemma block_straight_witness:
  "\<exists>v. (runs_on loop_view)\<^sup>*\<^sup>* 0x1000 v \<and> block_ends loop_view 0x1000 v (5, [(0x1005, False)], [0x1000])"
  using block_straight [OF loop_view_fits, where s = "0x1000"] by (auto simp: block_size_def loop_view_scan)

end
