(* ===== verification/Jump_Tables.thy ===== *)
theory Jump_Tables
  imports Emu_Operands
begin

text \<open>
  The resolvers of switch dispatches, src/features/extractors/papa_native/jump_tables.cpp, over a
  window of decoded instructions that ends with the dispatch, and what they promise of their
  answers.  The enclosing register of a register is asked of Zydis and is a parameter.
\<close>

section \<open>Parameters and results\<close>

record jump_table_targets =
  jt_targets :: "u64 list"
  jt_table_va :: u64
  jt_table_size :: u64

type_synonym table_reader = "u64 \<Rightarrow> u32 option"
type_synonym byte_reader = "u64 \<Rightarrow> u8 option"

text \<open>\<open>ZydisRegisterGetLargestEnclosing\<close> by mode.\<close>

type_synonym zydis_enclosing = "bool \<Rightarrow> zydis_register \<Rightarrow> zydis_register"

definition kMaxSwitchEntries :: nat where "kMaxSwitchEntries = 4096"

definition enclosing :: "zydis_enclosing \<Rightarrow> bool \<Rightarrow> zydis_register \<Rightarrow> zydis_register" where
  "enclosing zy is_64bit r = (if r = ZR_NONE then r else zy is_64bit r)"

definition is_reg :: "decoded_operand \<Rightarrow> bool" where
  "is_reg op \<longleftrightarrow> do_kind op = kReg"

section \<open>Searching the window\<close>

text \<open>The nearest instruction before a position that meets a condition.\<close>

fun find_back :: "(decoded_insn \<Rightarrow> bool) \<Rightarrow> decoded_insn list \<Rightarrow> nat \<Rightarrow> nat option" where
  "find_back P window 0 = None"
| "find_back P window (Suc i) = (if P (window ! i) then Some i else find_back P window i)"

definition reg_at :: "(zydis_register \<Rightarrow> zydis_register) \<Rightarrow> decoded_insn \<Rightarrow> nat \<Rightarrow> zydis_register" where
  "reg_at enc ins k = enc (do_base_reg (operand ins k))"

definition dispatch_register :: "(zydis_register \<Rightarrow> zydis_register) \<Rightarrow> decoded_insn \<Rightarrow> zydis_register option" where
  "dispatch_register enc jmp =
     (if \<not> di_is_jump jmp \<or> di_is_conditional jmp \<or> di_branch_target jmp \<noteq> None then None
      else if di_operand_count jmp = 0 \<or> \<not> is_reg (operand jmp 0) then None
      else if reg_at enc jmp 0 = ZR_NONE then None
      else Some (reg_at enc jmp 0))"

definition adds_to :: "(zydis_register \<Rightarrow> zydis_register) \<Rightarrow> zydis_register \<Rightarrow> decoded_insn \<Rightarrow> bool" where
  "adds_to enc tgt ins \<longleftrightarrow>
     di_zyd_mnem ins = ZM_Arith ADD \<and> di_operand_count ins \<ge> 2 \<and> is_reg (operand ins 0) \<and>
     is_reg (operand ins 1) \<and> reg_at enc ins 0 = tgt"

text \<open>The base register of the nearest addition to the target, and its position.\<close>

definition find_add ::
    "(zydis_register \<Rightarrow> zydis_register) \<Rightarrow> decoded_insn list \<Rightarrow> zydis_register \<Rightarrow> (zydis_register \<times> nat) option" where
  "find_add enc window tgt =
     (case find_back (adds_to enc tgt) window (length window - 1) of
        None \<Rightarrow> None
      | Some i \<Rightarrow> if reg_at enc (window ! i) 1 = ZR_NONE then None else Some (reg_at enc (window ! i) 1, i))"

definition movish :: "decoded_insn \<Rightarrow> bool" where
  "movish ins \<longleftrightarrow> di_zyd_mnem ins \<in> {ZM_Data MOV, ZM_Data MOVZX, ZM_Data MOVSXD}"

definition loads_entry ::
    "(zydis_register \<Rightarrow> zydis_register) \<Rightarrow> zydis_register \<Rightarrow> zydis_register \<Rightarrow> u8 \<Rightarrow> decoded_insn \<Rightarrow> bool" where
  "loads_entry enc dst base scale ins \<longleftrightarrow>
     di_operand_count ins \<ge> 2 \<and> is_reg (operand ins 0) \<and> reg_at enc ins 0 = dst \<and>
     do_kind (operand ins 1) = kSib \<and> reg_at enc ins 1 = base \<and>
     do_index_reg (operand ins 1) \<noteq> ZR_NONE \<and> do_scale (operand ins 1) = scale"

definition index_reg_of :: "(zydis_register \<Rightarrow> zydis_register) \<Rightarrow> decoded_insn \<Rightarrow> zydis_register" where
  "index_reg_of enc ins = enc (do_index_reg (operand ins 1))"

definition writes_reg :: "(zydis_register \<Rightarrow> zydis_register) \<Rightarrow> zydis_register \<Rightarrow> decoded_insn \<Rightarrow> bool" where
  "writes_reg enc r ins \<longleftrightarrow> di_operand_count ins \<noteq> 0 \<and> is_reg (operand ins 0) \<and> reg_at enc ins 0 = r"

definition rip_target :: "decoded_insn \<Rightarrow> decoded_operand \<Rightarrow> u64" where
  "rip_target ins op = next_va ins + ucast (do_disp op)"

text \<open>The value of the base: the nearest write to it is the one that reaches the load.\<close>

definition base_value :: "(zydis_register \<Rightarrow> zydis_register) \<Rightarrow> decoded_insn list \<Rightarrow> zydis_register \<Rightarrow> nat \<Rightarrow> u64 option" where
  "base_value enc window base pos =
     (case find_back (writes_reg enc base) window pos of
        None \<Rightarrow> None
      | Some i \<Rightarrow>
          let ins = window ! i in
          if di_zyd_mnem ins = ZM_Data LEA \<and> di_operand_count ins \<ge> 2 \<and> do_kind (operand ins 1) = kRipRel
          then Some (rip_target ins (operand ins 1))
          else if di_zyd_mnem ins = ZM_Data MOV \<and> di_operand_count ins \<ge> 2 \<and> do_kind (operand ins 1) = kImm
          then Some (do_imm (operand ins 1))
          else None)"

definition copies_to :: "(zydis_register \<Rightarrow> zydis_register) \<Rightarrow> zydis_register \<Rightarrow> decoded_insn \<Rightarrow> bool" where
  "copies_to enc r ins \<longleftrightarrow>
     movish ins \<and> di_operand_count ins \<ge> 2 \<and> is_reg (operand ins 0) \<and> reg_at enc ins 0 = r \<and> is_reg (operand ins 1)"

definition bound_registers ::
    "(zydis_register \<Rightarrow> zydis_register) \<Rightarrow> decoded_insn list \<Rightarrow> zydis_register \<Rightarrow> nat \<Rightarrow> zydis_register list" where
  "bound_registers enc window index pos =
     index # (case find_back (copies_to enc index) window pos of None \<Rightarrow> [] | Some i \<Rightarrow> [reg_at enc (window ! i) 1])"

definition compares :: "(zydis_register \<Rightarrow> zydis_register) \<Rightarrow> zydis_register list \<Rightarrow> decoded_insn \<Rightarrow> bool" where
  "compares enc regs ins \<longleftrightarrow>
     di_zyd_mnem ins = ZM_Arith CMP \<and> di_operand_count ins \<ge> 2 \<and> is_reg (operand ins 0) \<and>
     do_kind (operand ins 1) = kImm \<and> reg_at enc ins 0 \<in> set regs"

text \<open>The first conditional jump of the three instructions after the comparison guards it.\<close>

definition guard_of :: "decoded_insn list \<Rightarrow> nat \<Rightarrow> nat \<Rightarrow> decoded_insn option" where
  "guard_of window i pos =
     find (\<lambda>g. di_is_jump g \<and> di_is_conditional g) (map ((!) window) [i + 1..<min pos (i + 4)])"

definition case_count ::
    "(zydis_register \<Rightarrow> zydis_register) \<Rightarrow> decoded_insn list \<Rightarrow> zydis_register list \<Rightarrow> nat \<Rightarrow> u64 option" where
  "case_count enc window regs pos =
     (case find_back (compares enc regs) window pos of
        None \<Rightarrow> None
      | Some i \<Rightarrow>
          let n = do_imm (operand (window ! i) 1) in
          case guard_of window i pos of
            Some g \<Rightarrow> if di_zyd_mnem g \<in> {ZM_J CC_NB, ZM_J CC_NL} then Some n else Some (n + 1)
          | None \<Rightarrow> Some (n + 1))"

definition usable_count :: "u64 \<Rightarrow> bool" where
  "usable_count n \<longleftrightarrow> n \<noteq> 0 \<and> unat n \<le> kMaxSwitchEntries"

section \<open>Walking the tables\<close>

fun offset_targets :: "table_reader \<Rightarrow> u64 \<Rightarrow> u64 \<Rightarrow> u64 \<Rightarrow> u64 list \<Rightarrow> u64 list" where
  "offset_targets read bias lo hi [] = []"
| "offset_targets read bias lo hi (a # as) =
     (case read a of
        None \<Rightarrow> []
      | Some e \<Rightarrow>
          let t = bias + ucast e
          in if t < lo \<or> t \<ge> hi then [] else t # offset_targets read bias lo hi as)"

definition entry_addresses :: "u64 \<Rightarrow> u64 \<Rightarrow> nat \<Rightarrow> u64 list" where
  "entry_addresses table width n = map (\<lambda>k. table + of_nat k * width) [0..<n]"

text \<open>The distinct targets, each at its first place; \<open>seen\<close> are those there already.\<close>

fun remapped_targets ::
    "table_reader \<Rightarrow> byte_reader \<Rightarrow> u64 \<Rightarrow> u64 \<Rightarrow> u64 \<Rightarrow> u64 \<Rightarrow> u64 list \<Rightarrow> u64 list \<Rightarrow> u64 list" where
  "remapped_targets read read8 bias offsets lo hi [] seen = seen"
| "remapped_targets read read8 bias offsets lo hi (a # as) seen =
     (case read8 a of
        None \<Rightarrow> seen
      | Some idx \<Rightarrow>
          case read (offsets + ucast idx * 4) of
            None \<Rightarrow> seen
          | Some e \<Rightarrow>
              let t = bias + ucast e in
              remapped_targets read read8 bias offsets lo hi as
                (if t < lo \<or> t \<ge> hi \<or> t \<in> set seen then seen else seen @ [t]))"

text \<open>The targets of a table whose length nothing fixes, and how many entries were taken.\<close>

fun probed_targets ::
    "table_reader \<Rightarrow> (u64 \<Rightarrow> bool) \<Rightarrow> u64 \<Rightarrow> u64 list \<Rightarrow> nat \<Rightarrow> u64 list \<Rightarrow> u64 list \<times> nat" where
  "probed_targets read is_code base [] n seen = (seen, n)"
| "probed_targets read is_code base (a # as) n seen =
     (case read a of
        None \<Rightarrow> (seen, n)
      | Some e \<Rightarrow>
          let raw = ucast e :: u64; t = (if raw < base then raw + base else raw) in
          if \<not> is_code t then (seen, n)
          else probed_targets read is_code base as (n + 1) (if t \<in> set seen then seen else seen @ [t]))"

definition table_of :: "u64 list \<Rightarrow> u64 \<Rightarrow> u64 \<Rightarrow> jump_table_targets option" where
  "table_of ts table n =
     (if ts = [] then None
      else Some \<lparr>jt_targets = ts, jt_table_va = table, jt_table_size = n\<rparr>)"

section \<open>The resolvers\<close>

definition resolve_indexed_jump_table ::
    "zydis_enclosing \<Rightarrow> decoded_insn list \<Rightarrow> bool \<Rightarrow> u64 \<Rightarrow> u64 \<Rightarrow> table_reader \<Rightarrow> jump_table_targets option" where
  "resolve_indexed_jump_table zy window is_64bit lo hi read =
     (let enc = enclosing zy is_64bit in
      if window = [] then None
      else case dispatch_register enc (last window) of None \<Rightarrow> None | Some tgt \<Rightarrow>
      case find_add enc window tgt of None \<Rightarrow> None | Some (base, add_pos) \<Rightarrow>
      case find_back (\<lambda>ins. movish ins \<and> loads_entry enc tgt base 4 ins) window add_pos of None \<Rightarrow> None | Some load_pos \<Rightarrow>
      let load = window ! load_pos; index = index_reg_of enc load; scale = ucast (do_scale (operand load 1)) in
      case base_value enc window base load_pos of None \<Rightarrow> None | Some base_va \<Rightarrow>
      case case_count enc window (bound_registers enc window index load_pos) load_pos of None \<Rightarrow> None | Some count \<Rightarrow>
      if \<not> usable_count count then None
      else
        let table = base_va + ucast (do_disp (operand load 1)) in
        table_of (offset_targets read base_va lo hi (entry_addresses table scale (unat count))) table (count * scale))"

definition resolve_two_level_indexed_jump_table ::
    "zydis_enclosing \<Rightarrow> decoded_insn list \<Rightarrow> bool \<Rightarrow> u64 \<Rightarrow> u64 \<Rightarrow> table_reader \<Rightarrow> byte_reader \<Rightarrow>
      jump_table_targets option" where
  "resolve_two_level_indexed_jump_table zy window is_64bit lo hi read read8 =
     (let enc = enclosing zy is_64bit in
      if window = [] then None
      else case dispatch_register enc (last window) of None \<Rightarrow> None | Some tgt \<Rightarrow>
      case find_add enc window tgt of None \<Rightarrow> None | Some (base, add_pos) \<Rightarrow>
      case find_back (\<lambda>ins. movish ins \<and> loads_entry enc tgt base 4 ins) window add_pos of None \<Rightarrow> None | Some load_pos \<Rightarrow>
      let load = window ! load_pos; index = index_reg_of enc load in
      case find_back (\<lambda>ins. di_zyd_mnem ins = ZM_Data MOVZX \<and> loads_entry enc index base 1 ins) window load_pos of
        None \<Rightarrow> None | Some remap_pos \<Rightarrow>
      let remap = window ! remap_pos in
      case base_value enc window base load_pos of None \<Rightarrow> None | Some base_va \<Rightarrow>
      case case_count enc window [index_reg_of enc remap] remap_pos of None \<Rightarrow> None | Some count \<Rightarrow>
      if \<not> usable_count count then None
      else
        let map_va = base_va + ucast (do_disp (operand remap 1));
            off_va = base_va + ucast (do_disp (operand load 1)) in
        table_of (remapped_targets read read8 base_va off_va lo hi (entry_addresses map_va 1 (unat count)) []) off_va 0)"

record switch_env =
  se_image_base :: u64
  se_read_entry :: table_reader
  se_is_probably_code :: "u64 \<Rightarrow> bool"
  se_base_reg_value :: "zydis_register \<Rightarrow> u64 option"

definition kEntryWidth :: u64 where "kEntryWidth = 4"

definition resolve_switch_jump_table ::
    "zydis_enclosing \<Rightarrow> decoded_insn list \<Rightarrow> bool \<Rightarrow> switch_env \<Rightarrow> jump_table_targets option" where
  "resolve_switch_jump_table zy window is_64bit env =
     (let enc = enclosing zy is_64bit in
      if window = [] then None
      else case dispatch_register enc (last window) of None \<Rightarrow> None | Some tgt \<Rightarrow>
      case find_add enc window tgt of None \<Rightarrow> None | Some (base, add_pos) \<Rightarrow>
      if se_base_reg_value env base \<noteq> Some (se_image_base env) then None
      else case find_back (\<lambda>ins. di_zyd_mnem ins = ZM_Data MOV \<and> loads_entry enc tgt base 4 ins) window add_pos of
        None \<Rightarrow> None | Some load_pos \<Rightarrow>
      let table = se_image_base env + ucast (do_disp (operand (window ! load_pos) 1));
          (ts, n) = probed_targets (se_read_entry env) (se_is_probably_code env) (se_image_base env)
                      (entry_addresses table kEntryWidth kMaxSwitchEntries) 0 []
      in table_of ts table (of_nat n * kEntryWidth))"

definition resolve_memory_indirect_jump_table ::
    "decoded_insn \<Rightarrow> u64 \<Rightarrow> u64 \<Rightarrow> table_reader \<Rightarrow> jump_table_targets option" where
  "resolve_memory_indirect_jump_table jmp lo hi read =
     (if \<not> di_is_jump jmp \<or> di_is_conditional jmp \<or> di_operand_count jmp = 0 then None
      else
        let op = operand jmp 0 in
        if do_kind op \<noteq> kSib then None
        else if do_base_reg op \<noteq> ZR_NONE then None
        else if do_index_reg op = ZR_NONE then None
        else if do_scale op < 4 \<or> do_disp op \<le>s 0 then None
        else
          let table = ucast (do_disp op);
              ts = offset_targets read 0 lo hi (entry_addresses table 4 kMaxSwitchEntries)
          in table_of ts table (of_nat (length ts) * 4))"

end
