(* ===== verification/Jump_Correct.thy ===== *)
theory Jump_Correct
  imports Jump_Tables Emu_Keeps
begin

text \<open>
  What the jump-table resolvers promise: bounds on every answer, the run of entries an answer is
  made of, and that the compiler's idiom is resolved to all of its cases.
\<close>

section \<open>The walks\<close>

definition entry_in :: "table_reader \<Rightarrow> u64 \<Rightarrow> u64 \<Rightarrow> u64 \<Rightarrow> u64 \<Rightarrow> bool" where
  "entry_in read bias lo hi a \<longleftrightarrow> (\<exists>e. read a = Some e \<and> lo \<le> bias + ucast e \<and> bias + ucast e < hi)"

definition entry_target :: "table_reader \<Rightarrow> u64 \<Rightarrow> u64 \<Rightarrow> u64" where
  "entry_target read bias a = (case read a of None \<Rightarrow> 0 | Some e \<Rightarrow> bias + ucast e)"

lemma offset_targets_run:
  "offset_targets read bias lo hi as = map (entry_target read bias) (takeWhile (entry_in read bias lo hi) as)"
proof (induction as)
  case (Cons a as)
  show ?case
  proof (cases "read a")
    case None
    then show ?thesis by (simp add: entry_in_def)
  next
    case (Some e)
    have "entry_in read bias lo hi a \<longleftrightarrow> \<not> (bias + ucast e < lo \<or> bias + ucast e \<ge> hi)"
      by (auto simp: entry_in_def Some)
    then show ?thesis using Cons Some by (simp add: entry_target_def Let_def)
  qed
qed simp

lemma entry_target_in: "entry_in read bias lo hi a \<Longrightarrow> entry_target read bias a \<in> {lo..<hi}"
  by (auto simp: entry_in_def entry_target_def)

lemma offset_targets_in: "set (offset_targets read bias lo hi as) \<subseteq> {lo..<hi}"
  unfolding offset_targets_run using entry_target_in by (fastforce dest: set_takeWhileD)

lemma length_offset_targets: "length (offset_targets read bias lo hi as) \<le> length as"
  by (simp add: offset_targets_run length_takeWhile_le)

lemma length_entry_addresses [simp]: "length (entry_addresses table width n) = n"
  by (simp add: entry_addresses_def)

lemma remapped_targets_keeps:
  "distinct seen \<Longrightarrow> set seen \<subseteq> {lo..<hi} \<Longrightarrow>
     distinct (remapped_targets read read8 bias offs lo hi as seen) \<and>
     set (remapped_targets read read8 bias offs lo hi as seen) \<subseteq> {lo..<hi} \<and>
     length (remapped_targets read read8 bias offs lo hi as seen) \<le> length seen + length as"
proof (induction as arbitrary: seen)
  case (Cons a as)
  show ?case
  proof (cases "read8 a")
    case (Some idx)
    show ?thesis
    proof (cases "read (offs + ucast idx * 4)")
      case (Some e)
      let ?t = "bias + ucast e"
      let ?seen = "if ?t < lo \<or> ?t \<ge> hi \<or> ?t \<in> set seen then seen else seen @ [?t]"
      have "distinct ?seen" "set ?seen \<subseteq> {lo..<hi}" "length ?seen \<le> length seen + 1"
        using Cons.prems by (auto simp: not_less not_le)
      then show ?thesis using Cons.IH [of ?seen] Some \<open>read8 a = Some idx\<close> by (simp add: Let_def del: if_split)
    qed (use Cons.prems Some in simp)
  qed (use Cons.prems in simp)
qed simp

lemma probed_targets_keeps:
  assumes "probed_targets read is_code base as n seen = (ts, m)" "distinct seen" "\<forall>t\<in>set seen. is_code t"
    "length seen \<le> n"
  shows "distinct ts \<and> (\<forall>t\<in>set ts. is_code t) \<and> length ts \<le> m \<and> m \<le> n + length as"
  using assms
proof (induction as arbitrary: n seen)
  case (Cons a as)
  show ?case
  proof (cases "read a")
    case (Some e)
    define t where "t = (if (ucast e :: u64) < base then ucast e + base else ucast e)"
    have p: "probed_targets read is_code base (a # as) n seen =
        (if \<not> is_code t then (seen, n)
         else probed_targets read is_code base as (n + 1) (if t \<in> set seen then seen else seen @ [t]))"
      by (simp add: Some t_def Let_def)
    show ?thesis
    proof (cases "is_code t")
      case True
      let ?seen = "if t \<in> set seen then seen else seen @ [t]"
      have "distinct ?seen" "\<forall>x\<in>set ?seen. is_code x" "length ?seen \<le> n + 1"
        using Cons.prems True by auto
      then show ?thesis using Cons.IH [of "n + 1" ?seen] Cons.prems(1) True unfolding p by simp
    next
      case False
      then show ?thesis using Cons.prems unfolding p by simp
    qed
  qed (use Cons.prems in simp)
qed simp

section \<open>What an answer is made of\<close>

definition table_answer :: "(u64 list \<Rightarrow> bool) \<Rightarrow> jump_table_targets \<Rightarrow> bool" where
  "table_answer P jt \<longleftrightarrow>
     jt_targets jt \<noteq> [] \<and> length (jt_targets jt) \<le> kMaxSwitchEntries \<and> P (jt_targets jt) \<and>
     jt_table_size jt \<le> of_nat kMaxSwitchEntries * 4"

lemma table_of_Some:
  "table_of ts table n = Some jt \<longleftrightarrow> ts \<noteq> [] \<and> jt = \<lparr>jt_targets = ts, jt_table_va = table, jt_table_size = n\<rparr>"
  by (auto simp: table_of_def)

lemma four_entries:
  fixes n :: u64
  assumes "unat n \<le> kMaxSwitchEntries"
  shows "unat (n * 4) = unat n * 4" "n * 4 \<le> of_nat kMaxSwitchEntries * 4"
proof -
  have "unat n * unat (4 :: u64) < 2 ^ 64" using assms by (simp add: kMaxSwitchEntries_def)
  then show e: "unat (n * 4) = unat n * 4" by (subst unat_mult_lem [THEN iffD1]) simp_all
  have "unat (of_nat kMaxSwitchEntries * (4 :: u64)) = 16384" by (simp add: kMaxSwitchEntries_def)
  then show "n * 4 \<le> of_nat kMaxSwitchEntries * 4"
    using assms unfolding word_le_nat_alt e by (simp add: kMaxSwitchEntries_def)
qed

lemma four_entries_nat:
  assumes "n \<le> kMaxSwitchEntries"
  shows "of_nat n * 4 \<le> (of_nat kMaxSwitchEntries * 4 :: u64)"
proof -
  have "unat (of_nat n :: u64) = n" using assms by (simp add: kMaxSwitchEntries_def unat_of_nat)
  then show ?thesis using four_entries(2) [of "of_nat n"] assms by simp
qed

lemma indexed_answer:
  assumes "resolve_indexed_jump_table zy window is_64bit lo hi read = Some jt"
  obtains bias count where "usable_count count" "jt_table_size jt = count * 4"
    "jt_targets jt = offset_targets read bias lo hi (entry_addresses (jt_table_va jt) 4 (unat count))"
    "jt_targets jt \<noteq> []"
proof -
  obtain tgt base add_pos load_pos base_va count where c:
    "find_back (\<lambda>ins. movish ins \<and> loads_entry (enclosing zy is_64bit) tgt base 4 ins) window add_pos = Some load_pos"
    "usable_count count"
    "table_of (offset_targets read base_va lo hi
        (entry_addresses (base_va + ucast (do_disp (operand (window ! load_pos) 1)))
           (ucast (do_scale (operand (window ! load_pos) 1))) (unat count)))
        (base_va + ucast (do_disp (operand (window ! load_pos) 1)))
        (count * ucast (do_scale (operand (window ! load_pos) 1))) = Some jt"
    using assms unfolding resolve_indexed_jump_table_def Let_def
    by (auto split: if_split_asm option.split_asm prod.split_asm)
  have "P (window ! i)" if "find_back P window k = Some i" for P k i
    using that by (induction k) (auto split: if_split_asm)
  from this [OF c(1)] have "do_scale (operand (window ! load_pos) 1) = 4" by (simp add: loads_entry_def)
  then show ?thesis using that [of count base_va] c(2,3) by (auto simp: table_of_Some)
qed

lemma two_level_answer:
  assumes "resolve_two_level_indexed_jump_table zy window is_64bit lo hi read read8 = Some jt"
  obtains bias offs as where "length as \<le> kMaxSwitchEntries" "jt_table_size jt = 0"
    "jt_targets jt = remapped_targets read read8 bias offs lo hi as []" "jt_targets jt \<noteq> []"
proof -
  obtain base_va count map_va off_va where c: "usable_count count"
    "table_of (remapped_targets read read8 base_va off_va lo hi (entry_addresses map_va 1 (unat count)) []) off_va 0 = Some jt"
    using assms unfolding resolve_two_level_indexed_jump_table_def Let_def
    by (auto split: if_split_asm option.split_asm prod.split_asm)
  then show ?thesis
    using that [of "entry_addresses map_va 1 (unat count)" base_va off_va]
    by (auto simp: table_of_Some usable_count_def)
qed

lemma switch_answer:
  assumes "resolve_switch_jump_table zy window is_64bit env = Some jt"
  obtains n as where "length as \<le> kMaxSwitchEntries" "jt_table_size jt = of_nat n * 4"
    "probed_targets (se_read_entry env) (se_is_probably_code env) (se_image_base env) as 0 [] = (jt_targets jt, n)"
    "jt_targets jt \<noteq> []"
proof -
  obtain table ts n where c:
    "probed_targets (se_read_entry env) (se_is_probably_code env) (se_image_base env)
       (entry_addresses table kEntryWidth kMaxSwitchEntries) 0 [] = (ts, n)"
    "table_of ts table (of_nat n * kEntryWidth) = Some jt"
    using assms unfolding resolve_switch_jump_table_def Let_def
    by (auto split: if_split_asm option.split_asm prod.split_asm)
  then show ?thesis
    using that [of "entry_addresses table kEntryWidth kMaxSwitchEntries" n]
    by (auto simp: table_of_Some kEntryWidth_def)
qed

lemma memory_indirect_answer:
  assumes "resolve_memory_indirect_jump_table jmp lo hi read = Some jt"
  shows "jt_targets jt = offset_targets read 0 lo hi (entry_addresses (jt_table_va jt) 4 kMaxSwitchEntries) \<and>
     jt_targets jt \<noteq> [] \<and> jt_table_size jt = of_nat (length (jt_targets jt)) * 4"
  using assms unfolding resolve_memory_indirect_jump_table_def Let_def
  by (auto simp: table_of_Some split: if_split_asm)

section \<open>Bounds of the answers\<close>

lemma indexed_bounds:
  assumes "resolve_indexed_jump_table zy window is_64bit lo hi read = Some jt"
  shows "table_answer (\<lambda>ts. set ts \<subseteq> {lo..<hi}) jt"
proof -
  obtain bias count where a: "usable_count count" "jt_table_size jt = count * 4"
    "jt_targets jt = offset_targets read bias lo hi (entry_addresses (jt_table_va jt) 4 (unat count))"
    "jt_targets jt \<noteq> []" using indexed_answer [OF assms] .
  have "length (jt_targets jt) \<le> unat count" using length_offset_targets a(3) by (metis length_entry_addresses)
  then show ?thesis
    using a offset_targets_in four_entries(2) [of count] by (auto simp: table_answer_def usable_count_def)
qed

lemma two_level_bounds:
  assumes "resolve_two_level_indexed_jump_table zy window is_64bit lo hi read read8 = Some jt"
  shows "table_answer (\<lambda>ts. distinct ts \<and> set ts \<subseteq> {lo..<hi}) jt"
proof -
  obtain bias offs as where a: "length as \<le> kMaxSwitchEntries" "jt_table_size jt = 0"
    "jt_targets jt = remapped_targets read read8 bias offs lo hi as []" "jt_targets jt \<noteq> []"
    using two_level_answer [OF assms] .
  then show ?thesis
    using remapped_targets_keeps [of "[]" lo hi read read8 bias offs as] by (auto simp: table_answer_def)
qed

lemma switch_bounds:
  assumes "resolve_switch_jump_table zy window is_64bit env = Some jt"
  shows "table_answer (\<lambda>ts. distinct ts \<and> (\<forall>t\<in>set ts. se_is_probably_code env t)) jt"
proof -
  obtain n as where a: "length as \<le> kMaxSwitchEntries" "jt_table_size jt = of_nat n * 4"
    "probed_targets (se_read_entry env) (se_is_probably_code env) (se_image_base env) as 0 [] = (jt_targets jt, n)"
    "jt_targets jt \<noteq> []" using switch_answer [OF assms] .
  then show ?thesis
    using probed_targets_keeps [OF a(3)] four_entries_nat [of n] by (auto simp: table_answer_def)
qed

lemma memory_indirect_bounds:
  assumes "resolve_memory_indirect_jump_table jmp lo hi read = Some jt"
  shows "table_answer (\<lambda>ts. set ts \<subseteq> {lo..<hi}) jt"
proof -
  have a: "jt_targets jt = offset_targets read 0 lo hi (entry_addresses (jt_table_va jt) 4 kMaxSwitchEntries)"
    "jt_targets jt \<noteq> []" "jt_table_size jt = of_nat (length (jt_targets jt)) * 4"
    using memory_indirect_answer [OF assms] by blast+
  have "length (jt_targets jt) \<le> kMaxSwitchEntries" using length_offset_targets a(1) by (metis length_entry_addresses)
  then show ?thesis
    using a offset_targets_in four_entries_nat by (auto simp: table_answer_def)
qed

section \<open>The idiom of the compiler\<close>

text \<open>
  \<open>lea b, [base]; cmp i, n; ja default; mov t, [b + i*4 + disp]; add t, b; jmp t\<close>
\<close>

definition reg64 :: "gpr \<Rightarrow> decoded_operand" where
  "reg64 g = default_operand\<lparr>do_kind := kReg, do_base_reg := ZR_64 g, do_width_bytes := 8\<rparr>"

definition switch_idiom :: "gpr \<Rightarrow> gpr \<Rightarrow> gpr \<Rightarrow> u64 \<Rightarrow> u64 \<Rightarrow> i64 \<Rightarrow> decoded_insn list" where
  "switch_idiom b i t base n disp =
     [plain_insn 0 7 (ZM_Data LEA) [reg64 b, default_operand\<lparr>do_kind := kRipRel, do_disp := ucast base - 7\<rparr>],
      plain_insn 7 4 (ZM_Arith CMP) [reg64 i, default_operand\<lparr>do_kind := kImm, do_imm := n\<rparr>],
      (plain_insn 11 2 (ZM_J CC_NBE) [default_operand\<lparr>do_kind := kPcRel\<rparr>])\<lparr>di_is_jump := True, di_is_conditional := True\<rparr>,
      plain_insn 13 7 (ZM_Data MOV)
        [reg_operand t, default_operand\<lparr>do_kind := kSib, do_base_reg := ZR_64 b, do_index_reg := ZR_64 i, do_scale := 4, do_disp := disp\<rparr>],
      plain_insn 20 3 (ZM_Arith ADD) [reg64 t, reg64 b],
      (plain_insn 23 2 (ZM_Flow JMP) [reg64 t])\<lparr>di_is_jump := True\<rparr>]"

text \<open>What the code relies on of Zydis: the 32- and 64-bit registers of a family enclose alike.\<close>

definition encloses_families :: "zydis_enclosing \<Rightarrow> bool" where
  "encloses_families zy \<longleftrightarrow> (\<forall>g. zy True (ZR_64 g) = ZR_64 g \<and> zy True (ZR_32 g) = ZR_64 g)"

lemma switch_idiom_resolves:
  assumes zy: "encloses_families zy" and regs: "b \<noteq> i" "b \<noteq> t" "i \<noteq> t" and n: "unat n < kMaxSwitchEntries"
  shows "resolve_indexed_jump_table zy (switch_idiom b i t base n disp) True lo hi read =
     table_of (offset_targets read base lo hi (entry_addresses (base + ucast disp) 4 (unat n + 1))) (base + ucast disp) ((n + 1) * 4)"
proof -
  have "unat n < 2 ^ 64 - 1" using n by (simp add: kMaxSwitchEntries_def)
  then have n1: "unat (n + 1) = unat n + 1" by (simp add: unat_word_ariths)
  then have u: "usable_count (n + 1)" using n by (auto simp: usable_count_def)
  have [simp]: "zy True (ZR_64 g) = ZR_64 g" "zy True (ZR_32 g) = ZR_64 g" for g
    using zy by (simp_all add: encloses_families_def)
  note w = switch_idiom_def plain_insn_def operand_def reg64_def reg_operand_def default_operand_def
  have e: "enclosing zy True (ZR_64 g) = ZR_64 g" "enclosing zy True (ZR_32 g) = ZR_64 g" for g
    by (simp_all add: enclosing_def)
  have "dispatch_register (enclosing zy True) (last (switch_idiom b i t base n disp)) = Some (ZR_64 t)"
    by (simp add: dispatch_register_def w is_reg_def reg_at_def e)
  moreover have "find_add (enclosing zy True) (switch_idiom b i t base n disp) (ZR_64 t) = Some (ZR_64 b, 4)"
    by (simp add: find_add_def w adds_to_def is_reg_def reg_at_def e eval_nat_numeral)
  moreover have "find_back (\<lambda>ins. movish ins \<and> loads_entry (enclosing zy True) (ZR_64 t) (ZR_64 b) 4 ins)
      (switch_idiom b i t base n disp) 4 = Some 3"
    by (simp add: w movish_def loads_entry_def is_reg_def reg_at_def e eval_nat_numeral)
  moreover have "index_reg_of (enclosing zy True) (switch_idiom b i t base n disp ! 3) = ZR_64 i"
    by (simp add: w index_reg_of_def e eval_nat_numeral)
  moreover have "base_value (enclosing zy True) (switch_idiom b i t base n disp) (ZR_64 b) 3 = Some base"
    using regs by (simp add: base_value_def w writes_reg_def is_reg_def reg_at_def e rip_target_def next_va_def eval_nat_numeral)
  moreover have "bound_registers (enclosing zy True) (switch_idiom b i t base n disp) (ZR_64 i) 3 = [ZR_64 i]"
    by (simp add: bound_registers_def w copies_to_def movish_def eval_nat_numeral)
  moreover have "guard_of (switch_idiom b i t base n disp) 1 3 = Some (switch_idiom b i t base n disp ! 2)"
    by (simp add: guard_of_def w eval_nat_numeral)
  then have "case_count (enclosing zy True) (switch_idiom b i t base n disp) [ZR_64 i] 3 = Some (n + 1)"
    by (simp add: case_count_def w compares_def is_reg_def reg_at_def e eval_nat_numeral)
  moreover have "do_scale (operand (switch_idiom b i t base n disp ! 3) 1) = 4"
    "do_disp (operand (switch_idiom b i t base n disp ! 3) 1) = disp"
    by (simp_all add: w eval_nat_numeral)
  moreover have "switch_idiom b i t base n disp \<noteq> []" by (simp add: switch_idiom_def)
  ultimately show ?thesis
    using u by (simp add: resolve_indexed_jump_table_def Let_def n1)
qed

lemma idiom_targets:
  assumes "encloses_families zy" "b \<noteq> i" "b \<noteq> t" "i \<noteq> t" "unat n < kMaxSwitchEntries"
    and all: "\<forall>v\<le>unat n. entry_in read base lo hi (base + ucast disp + of_nat v * 4)"
  shows "resolve_indexed_jump_table zy (switch_idiom b i t base n disp) True lo hi read =
     Some \<lparr>jt_targets = map (\<lambda>v. entry_target read base (base + ucast disp + of_nat v * 4)) [0..<unat n + 1],
           jt_table_va = base + ucast disp, jt_table_size = (n + 1) * 4\<rparr>"
proof -
  let ?as = "entry_addresses (base + ucast disp) 4 (unat n + 1)"
  have "\<forall>a\<in>set ?as. entry_in read base lo hi a" using all by (auto simp: entry_addresses_def less_Suc_eq_le)
  then have "takeWhile (entry_in read base lo hi) ?as = ?as" by (simp add: takeWhile_eq_all_conv)
  then have "offset_targets read base lo hi ?as =
      map (\<lambda>v. entry_target read base (base + ucast disp + of_nat v * 4)) [0..<unat n + 1]"
    unfolding offset_targets_run by (simp only: entry_addresses_def map_map comp_def)
  then show ?thesis
    unfolding switch_idiom_resolves [OF assms(1-5)] by (simp only: table_of_def) simp
qed

section \<open>Properties\<close>

text \<open>
  C28: The switch dispatch of the compiler is resolved to all of its cases: for every value the
  comparison lets through, the address the dispatch would jump to, which is the base plus the entry
  of the offset table, is a target, in the order of the values, and the table has just as many entries.
\<close>

theorem switch_idiom_complete:
  assumes "encloses_families zy" "b \<noteq> i" "b \<noteq> t" "i \<noteq> t" "unat n < kMaxSwitchEntries"
    and "\<forall>v\<le>unat n. entry_in read base lo hi (base + ucast disp + of_nat v * 4)"
  shows "resolve_indexed_jump_table zy (switch_idiom b i t base n disp) True lo hi read =
     Some \<lparr>jt_targets = map (\<lambda>v. entry_target read base (base + ucast disp + of_nat v * 4)) [0..<unat n + 1],
           jt_table_va = base + ucast disp, jt_table_size = (n + 1) * 4\<rparr>"
  using assms by (rule idiom_targets)

text \<open>A table of three entries at offset 0x2000.\<close>

definition families :: zydis_enclosing where
  "families is_64bit r = (case r of ZR_32 g \<Rightarrow> ZR_64 g | ZR_16 g \<Rightarrow> ZR_64 g | _ \<Rightarrow> r)"

definition sample_table :: table_reader where
  "sample_table a = (if a = 0x12000 then Some 0x1010 else if a = 0x12004 then Some 0x1020
     else if a = 0x12008 then Some 0x1030 else None)"

lemma sample_entries:
  "\<forall>v\<le>unat (2 :: u64). entry_in sample_table 0x10000 0x10000 0x20000 (0x10000 + ucast (0x2000 :: i64) + of_nat v * 4)"
proof (intro allI impI)
  fix v :: nat assume "v \<le> unat (2 :: u64)"
  then have "v = 0 \<or> v = 1 \<or> v = 2" by auto
  then show "entry_in sample_table 0x10000 0x10000 0x20000 (0x10000 + ucast (0x2000 :: i64) + of_nat v * 4)"
    by (auto simp: entry_in_def sample_table_def)
qed

lemma sample_idiom:
  "resolve_indexed_jump_table families (switch_idiom RDX RCX RAX 0x10000 2 0x2000) True 0x10000 0x20000 sample_table =
     Some \<lparr>jt_targets = [0x11010, 0x11020, 0x11030], jt_table_va = 0x12000, jt_table_size = 12\<rparr>"
  using idiom_targets [of families RDX RCX RAX 2 sample_table "0x10000" "0x10000" "0x20000" "0x2000"] sample_entries
  by (simp add: encloses_families_def families_def kMaxSwitchEntries_def upt_rec entry_target_def sample_table_def)

lemma switch_idiom_complete_witness:
  "jt_targets (the (resolve_indexed_jump_table families (switch_idiom RDX RCX RAX 0x10000 2 0x2000) True 0x10000 0x20000
     sample_table)) = [0x11010, 0x11020, 0x11030]"
  using switch_idiom_complete [of families RDX RCX RAX 2 sample_table "0x10000" "0x10000" "0x20000" "0x2000"] sample_entries
  by (simp add: encloses_families_def families_def kMaxSwitchEntries_def upt_rec entry_target_def sample_table_def)

text \<open>
  C29: Whatever the window and the bytes of the image, an answer of a resolver has at least one and
  at most 4096 targets and a table of at most four times as many bytes; the targets lie in the range
  that was asked for, or are probable code, and those of remapped and of probed tables are distinct.
\<close>

theorem jump_tables_bounded:
  "(resolve_indexed_jump_table zy window is_64bit lo hi read = Some jt \<longrightarrow>
      table_answer (\<lambda>ts. set ts \<subseteq> {lo..<hi}) jt) \<and>
   (resolve_two_level_indexed_jump_table zy window is_64bit lo hi read read8 = Some jt \<longrightarrow>
      table_answer (\<lambda>ts. distinct ts \<and> set ts \<subseteq> {lo..<hi}) jt) \<and>
   (resolve_switch_jump_table zy window is_64bit env = Some jt \<longrightarrow>
      table_answer (\<lambda>ts. distinct ts \<and> (\<forall>t\<in>set ts. se_is_probably_code env t)) jt) \<and>
   (resolve_memory_indirect_jump_table jmp lo hi read = Some jt \<longrightarrow>
      table_answer (\<lambda>ts. set ts \<subseteq> {lo..<hi}) jt)"
  by (intro conjI impI; (rule indexed_bounds two_level_bounds switch_bounds memory_indirect_bounds; assumption))

lemma jump_tables_bounded_witness:
  "table_answer (\<lambda>ts. set ts \<subseteq> {0x10000..<0x20000})
     \<lparr>jt_targets = [0x11010, 0x11020, 0x11030], jt_table_va = 0x12000, jt_table_size = 12\<rparr>"
  by (rule jump_tables_bounded [THEN conjunct1, rule_format, OF sample_idiom])

end
