(* ===== verification/Native_Cfg.thy ===== *)
theory Native_Cfg
  imports Jump_Tables File_Features
begin

text \<open>
  The recovered functions (cfg.h) and what the analyses ask of them and of the image: the imports
  direct calls reach (imports.cpp), calls that do not return (noreturn.cpp) and the definition of
  a register before a call (indirect_calls.cpp), under src/features/extractors/papa_native/.
\<close>

section \<open>Functions and the disassembler\<close>

record basic_block =
  bb_va :: u64
  bb_instructions :: "decoded_insn list"
  bb_successors :: "u64 list"
  bb_predecessors :: "u64 list"

record cfg_function =
  fn_va :: u64
  fn_basic_blocks :: "basic_block list"
  fn_callers :: "u64 list"
  fn_callees :: "u64 list"

text \<open>
  What is asked of Zydis, a third-party library: the enclosing register, the width of a register,
  and \<open>Disassembler::decode\<close> for the bitness of the image.
\<close>

record zydis =
  zy_enclosing :: zydis_enclosing
  zy_width :: "bool \<Rightarrow> zydis_register \<Rightarrow> nat"
  zy_decode :: "u8 list \<Rightarrow> u64 \<Rightarrow> decoded_insn option"

definition is_stack_reg :: "zydis \<Rightarrow> bool \<Rightarrow> zydis_register \<Rightarrow> bool" where
  "is_stack_reg zy is_64bit r =
     (if r = ZR_NONE then False
      else
        let e = zy_enclosing zy is_64bit r in
        if is_64bit then e = ZR_64 RSP \<or> e = ZR_64 RBP else e = ZR_32 RSP \<or> e = ZR_32 RBP)"

section \<open>Reads that may be cut short\<close>

text \<open>The halving search for a size that can be read, between one that can and one that cannot.\<close>

function bisect :: "(nat \<Rightarrow> bool) \<Rightarrow> nat \<Rightarrow> nat \<Rightarrow> nat" where
  "bisect ok lo hi =
     (if hi - lo > 1 then
        let mid = lo + (hi - lo) div 2
        in if ok mid then bisect ok mid hi else bisect ok lo mid
      else lo)"
  by pat_completeness auto
termination by (relation "measure (\<lambda>(ok, lo, hi). hi - lo)") (auto simp: Let_def)

declare bisect.simps [simp del]

definition read_ok :: "pe_image \<Rightarrow> u64 \<Rightarrow> nat \<Rightarrow> bool" where
  "read_ok img rva n \<longleftrightarrow> (case read_at_rva img rva n of Inl _ \<Rightarrow> False | Inr _ \<Rightarrow> True)"

definition bytes_or_nil :: "u8 list expected \<Rightarrow> u8 list" where
  "bytes_or_nil r = (case r of Inl _ \<Rightarrow> [] | Inr bs \<Rightarrow> bs)"

definition read_bytes_capped :: "pe_image \<Rightarrow> u64 \<Rightarrow> nat \<Rightarrow> u8 list" where
  "read_bytes_capped img va cap =
     (if va = 0 \<or> cap = 0 \<or> va < img_image_base img then []
      else
        let rva = va - img_image_base img in
        case read_at_rva img rva cap of
          Inr bs \<Rightarrow> bs
        | Inl _ \<Rightarrow>
            let lo = bisect (read_ok img rva) 0 cap
            in if lo = 0 then [] else bytes_or_nil (read_at_rva img rva lo))"

section \<open>Imports of direct calls\<close>

text \<open>The table of imports by slot; of two rows with one slot the first is kept.\<close>

type_synonym import_table = "u64 \<rightharpoonup> parsed_import"

fun import_rows :: "parsed_import list \<Rightarrow> import_table \<Rightarrow> import_table" where
  "import_rows [] t = t"
| "import_rows (i # is) t =
     import_rows is (if imp_iat_va i = 0 \<or> t (imp_iat_va i) \<noteq> None then t else t(imp_iat_va i \<mapsto> i))"

definition build_import_table :: "pe_image \<Rightarrow> import_table" where
  "build_import_table img = import_rows (img_imports img) Map.empty"

definition kEndbranchBytes :: "u8 list" where "kEndbranchBytes = [0xF3, 0x0F, 0x1E]"
definition kEndbranchSkipLen :: nat where "kEndbranchSkipLen = 4"
definition kThunkChainDepthDelta :: nat where "kThunkChainDepthDelta = 5"
definition kMaxInsnBytes :: nat where "kMaxInsnBytes = 15"

definition has_endbranch_prefix :: "pe_image \<Rightarrow> u64 \<Rightarrow> bool" where
  "has_endbranch_prefix img va =
     (if va < img_image_base img then False
      else case read_at_rva img (va - img_image_base img) kEndbranchSkipLen of
        Inl _ \<Rightarrow> False
      | Inr bs \<Rightarrow>
          if length bs < length kEndbranchBytes then False
          else take (length kEndbranchBytes) bs = kEndbranchBytes)"

definition decode_insn_at :: "zydis \<Rightarrow> pe_image \<Rightarrow> u64 \<Rightarrow> decoded_insn option" where
  "decode_insn_at zy img va =
     (if va < img_image_base img then None
      else
        let rva = va - img_image_base img in
        case read_at_rva img rva kMaxInsnBytes of
          Inr bs \<Rightarrow> zy_decode zy bs va
        | Inl _ \<Rightarrow>
            let lo = bisect (read_ok img rva) 0 kMaxInsnBytes in
            if lo = 0 then None
            else case read_at_rva img rva lo of Inl _ \<Rightarrow> None | Inr bs \<Rightarrow> zy_decode zy bs va)"

text \<open>The hops along a chain of thunks.\<close>

fun thunk_import :: "zydis \<Rightarrow> pe_image \<Rightarrow> import_table \<Rightarrow> nat \<Rightarrow> u64 \<Rightarrow> parsed_import option" where
  "thunk_import zy img imports 0 target = None"
| "thunk_import zy img imports (Suc hops) target =
     (case imports target of
        Some row \<Rightarrow> Some row
      | None \<Rightarrow>
          let target' = (if has_endbranch_prefix img target then target + of_nat kEndbranchSkipLen else target) in
          case decode_insn_at zy img target' of
            None \<Rightarrow> None
          | Some d \<Rightarrow>
              if (\<not> di_is_jump d \<and> \<not> di_is_call d) \<or> di_is_conditional d \<or> di_operand_count d = 0 then None
              else case do_kind (operand d 0) of
                kRipRel \<Rightarrow> imports (rip_target d (operand d 0))
              | kImmMem \<Rightarrow> imports (ucast (do_disp (operand d 0)))
              | kPcRel \<Rightarrow> (case di_branch_target d of None \<Rightarrow> None | Some t \<Rightarrow> thunk_import zy img imports hops t)
              | _ \<Rightarrow> None)"

definition resolve_direct_call_import ::
    "zydis \<Rightarrow> pe_image \<Rightarrow> import_table \<Rightarrow> decoded_insn \<Rightarrow> parsed_import option" where
  "resolve_direct_call_import zy img imports ins =
     (if di_operand_count ins = 0 then None
      else case do_kind (operand ins 0) of
        kImmMem \<Rightarrow> imports (ucast (do_disp (operand ins 0)))
      | kRipRel \<Rightarrow> imports (rip_target ins (operand ins 0))
      | kPcRel \<Rightarrow>
          (case di_branch_target ins of
             None \<Rightarrow> None | Some t \<Rightarrow> thunk_import zy img imports kThunkChainDepthDelta t)
      | _ \<Rightarrow> None)"

section \<open>Calls that do not return\<close>

definition kept_char :: "char \<Rightarrow> bool" where
  "kept_char c \<longleftrightarrow> c \<in> set ''abcdefghijklmnopqrstuvwxyz0123456789_''"

definition after_last :: "(char \<Rightarrow> bool) \<Rightarrow> string \<Rightarrow> string" where
  "after_last P s = rev (takeWhile (\<lambda>c. \<not> P c) (rev s))"

definition before_last :: "(char \<Rightarrow> bool) \<Rightarrow> string \<Rightarrow> string" where
  "before_last P s = take (length s - length (after_last P s) - 1) s"

definition norm_file_name :: "string \<Rightarrow> string" where
  "norm_file_name filename =
     (let name = to_lower_ascii (after_last (\<lambda>c. c = CHR ''/'' \<or> c = CHR 0x5C) filename);
          name' = (if CHR ''.'' \<in> set name
                   then map (\<lambda>c. if c = CHR ''.'' then CHR ''_'' else c) (before_last (\<lambda>c. c = CHR ''.'') name)
                   else name)
      in map (\<lambda>c. if kept_char c then c else CHR ''_'') name')"

definition kExactNoReturn :: "string list" where
  "kExactNoReturn = [''ntdll.rtlexituserthread'', ''kernel32.exitprocess'', ''kernel32.exitthread'',
     ''kernel32.fatalexit'', ''ntoskrnl.kebugcheckex'']"

text \<open>The expressions \<open>^first.*\.last$\<close>, in lower case, as their two texts; a dot matches no end of line.\<close>

definition noreturn_regexes :: "(string \<times> string) list" where
  "noreturn_regexes =
     map (\<lambda>s. (''msvcr'', s)) [''._cxxthrowexception'', ''.abort'', ''.exit'', ''._exit'', ''.quick_exit''] @
     map (\<lambda>s. (''api_ms_win_crt_runtime_'', s)) [''._invalid_parameter_noinfo_noreturn'', ''.exit'', ''._exit'']"

definition line_end :: "char \<Rightarrow> bool" where
  "line_end c \<longleftrightarrow> c = CHR 0x0A \<or> c = CHR 0x0D"

definition noreturn_match :: "string \<Rightarrow> string \<times> string \<Rightarrow> bool" where
  "noreturn_match s re =
     (case re of (a, b) \<Rightarrow>
        length a + length b \<le> length s \<and> take (length a) s = a \<and> drop (length s - length b) s = b \<and>
        list_all (\<lambda>c. \<not> line_end c) (take (length s - length a - length b) (drop (length a) s)))"

definition is_noreturn_api :: "string \<Rightarrow> string \<Rightarrow> bool" where
  "is_noreturn_api lib imp =
     (let lower = to_lower_ascii (norm_file_name lib @ ''.'' @ imp)
      in lower \<in> set kExactNoReturn \<or> list_ex (noreturn_match lower) noreturn_regexes)"

fun may_return :: "(decoded_insn \<Rightarrow> bool) \<Rightarrow> basic_block list \<Rightarrow> bool" where
  "may_return noret [] = False"
| "may_return noret (bb # bbs) =
     (if bb_successors bb \<noteq> [] \<or> bb_instructions bb = [] then may_return noret bbs
      else
        let term = last (bb_instructions bb) in
        if di_is_call term \<and> noret term then may_return noret bbs
        else if di_is_return term \<or> di_is_jump term \<or> di_is_conditional term then True
        else may_return noret bbs)"

definition function_is_noreturn :: "cfg_function \<Rightarrow> (decoded_insn \<Rightarrow> bool) \<Rightarrow> bool" where
  "function_is_noreturn fn noret =
     (if fn_basic_blocks fn = [] then False else \<not> may_return noret (fn_basic_blocks fn))"

section \<open>The definition of a register before a call\<close>

record reg_definition =
  rd_site_va :: u64
  rd_value :: "u64 option"

definition is_full_write_to_register :: "zydis \<Rightarrow> bool \<Rightarrow> zydis_register \<Rightarrow> zydis_register \<Rightarrow> bool" where
  "is_full_write_to_register zy is_64bit written target =
     (if written = ZR_NONE \<or> target = ZR_NONE then False
      else if zy_enclosing zy is_64bit written \<noteq> zy_enclosing zy is_64bit target then False
      else zy_width zy is_64bit written \<ge> zy_width zy is_64bit target)"

definition classify_definition :: "zydis \<Rightarrow> bool \<Rightarrow> zydis_register \<Rightarrow> decoded_insn \<Rightarrow> reg_definition option" where
  "classify_definition zy is_64bit target ins =
     (if di_operand_count ins = 0 then None
      else if do_kind (operand ins 0) \<noteq> kReg then None
      else if \<not> is_full_write_to_register zy is_64bit (do_base_reg (operand ins 0)) target then None
      else if di_zyd_mnem ins \<notin> {ZM_Data MOV, ZM_Data LEA, ZM_Data POP, ZM_Arith LXOR} then None
      else Some \<lparr>rd_site_va = di_va ins,
        rd_value =
          (if di_operand_count ins \<ge> 2 then
             (case do_kind (operand ins 1) of
                kImm \<Rightarrow> Some (do_imm (operand ins 1))
              | kImmMem \<Rightarrow> Some (ucast (do_disp (operand ins 1)))
              | kRipRel \<Rightarrow> Some (rip_target ins (operand ins 1))
              | _ \<Rightarrow> None)
           else None)\<rparr>)"

fun scan_block_backward :: "zydis \<Rightarrow> bool \<Rightarrow> zydis_register \<Rightarrow> decoded_insn list \<Rightarrow> nat \<Rightarrow> reg_definition option" where
  "scan_block_backward zy is_64bit reg insns 0 = None"
| "scan_block_backward zy is_64bit reg insns (Suc k) =
     (case classify_definition zy is_64bit reg (insns ! k) of
        Some d \<Rightarrow> Some d
      | None \<Rightarrow> scan_block_backward zy is_64bit reg insns k)"

text \<open>The blocks are in ascending order: the first that does not start before the address.\<close>

definition block_starting_at :: "cfg_function \<Rightarrow> u64 \<Rightarrow> basic_block option" where
  "block_starting_at fn va =
     (case find (\<lambda>bb. \<not> bb_va bb < va) (fn_basic_blocks fn) of
        None \<Rightarrow> None | Some bb \<Rightarrow> if bb_va bb = va then Some bb else None)"

definition kMaxBlocks :: nat where "kMaxBlocks = 64"

record entry_search =
  es_visited :: "u64 list"
  es_next :: "basic_block list"
  es_examined :: nat

text \<open>The predecessors of one frontier, in order: a definition, or the search state after them.\<close>

fun search_preds ::
    "zydis \<Rightarrow> bool \<Rightarrow> zydis_register \<Rightarrow> cfg_function \<Rightarrow> u64 list \<Rightarrow> entry_search \<Rightarrow> reg_definition + entry_search" where
  "search_preds zy is_64bit reg fn [] es = Inr es"
| "search_preds zy is_64bit reg fn (p # ps) es =
     (if p \<in> set (es_visited es) then search_preds zy is_64bit reg fn ps es
      else
        let es1 = es\<lparr>es_visited := es_visited es @ [p]\<rparr> in
        case block_starting_at fn p of
          None \<Rightarrow> search_preds zy is_64bit reg fn ps es1
        | Some bb \<Rightarrow>
            case scan_block_backward zy is_64bit reg (bb_instructions bb) (length (bb_instructions bb)) of
              Some d \<Rightarrow> Inl d
            | None \<Rightarrow>
                search_preds zy is_64bit reg fn ps
                  (es1\<lparr>es_examined := es_examined es1 + 1, es_next := es_next es1 @ [bb]\<rparr>))"

lemma search_preds_examined:
  "search_preds zy is_64bit reg fn ps es = Inr es' \<Longrightarrow>
     es_examined es' + length (es_next es) = es_examined es + length (es_next es')"
  by (induction ps arbitrary: es) (force simp: Let_def split: if_split_asm option.split_asm)+

function search_frontier ::
    "zydis \<Rightarrow> bool \<Rightarrow> zydis_register \<Rightarrow> cfg_function \<Rightarrow> u64 list \<Rightarrow> basic_block list \<Rightarrow> nat \<Rightarrow> reg_definition option" where
  "search_frontier zy is_64bit reg fn visited frontier examined =
     (if frontier = [] \<or> \<not> examined < kMaxBlocks then None
      else case search_preds zy is_64bit reg fn (concat (map bb_predecessors frontier))
                  \<lparr>es_visited = visited, es_next = [], es_examined = examined\<rparr> of
        Inl d \<Rightarrow> Some d
      | Inr es \<Rightarrow> search_frontier zy is_64bit reg fn (es_visited es) (es_next es) (es_examined es))"
  by pat_completeness auto
termination
proof (relation "measure (\<lambda>(zy, b, reg, fn, visited, frontier, examined).
    if frontier = [] then 0 else kMaxBlocks + 1 - examined)", goal_cases)
  case (2 zy is_64bit reg fn visited frontier examined es)
  then show ?case
    using search_preds_examined [OF 2(2)] by (cases "es_next es") (auto simp: Suc_diff_le)
qed simp

declare search_frontier.simps [simp del]

definition define_at_entry :: "zydis \<Rightarrow> bool \<Rightarrow> zydis_register \<Rightarrow> cfg_function \<Rightarrow> basic_block \<Rightarrow> reg_definition option" where
  "define_at_entry zy is_64bit reg fn start = search_frontier zy is_64bit reg fn [bb_va start] [start] 0"

fun insn_index :: "u64 \<Rightarrow> decoded_insn list \<Rightarrow> nat option" where
  "insn_index va [] = None"
| "insn_index va (i # is) = (if di_va i = va then Some 0 else map_option Suc (insn_index va is))"

fun host_block :: "u64 \<Rightarrow> basic_block list \<Rightarrow> (basic_block \<times> nat) option" where
  "host_block va [] = None"
| "host_block va (bb # bbs) =
     (case insn_index va (bb_instructions bb) of Some k \<Rightarrow> Some (bb, k) | None \<Rightarrow> host_block va bbs)"

definition find_definition :: "zydis \<Rightarrow> bool \<Rightarrow> cfg_function \<Rightarrow> u64 \<Rightarrow> zydis_register \<Rightarrow> reg_definition option" where
  "find_definition zy is_64bit fn call_va target =
     (if target = ZR_NONE \<or> fn_basic_blocks fn = [] then None
      else case host_block call_va (fn_basic_blocks fn) of
        None \<Rightarrow> None
      | Some (bb, k) \<Rightarrow>
          case scan_block_backward zy is_64bit target (bb_instructions bb) k of
            Some d \<Rightarrow> Some d
          | None \<Rightarrow> define_at_entry zy is_64bit target fn bb)"

end
