(* ===== verification/Native_Features.thy ===== *)
theory Native_Features
  imports Native_Cfg
begin

text \<open>
  The features of instructions (insn.cpp), basic blocks (basic_block.cpp) and functions
  (function.cpp), and the extractor over a built backend (extractor.cpp, backend.h), under
  src/features/extractors/papa_native/.
\<close>

section \<open>Operands\<close>

definition make_characteristic :: "string \<Rightarrow> u64 \<Rightarrow> feature option \<times> address" where
  "make_characteristic name va = (Some (FCharacteristic name), AbsoluteVirtualAddress va)"

definition at_va :: "feature \<Rightarrow> u64 \<Rightarrow> feature option \<times> address" where
  "at_va f va = (Some f, AbsoluteVirtualAddress va)"

definition kXorMnemonics :: "zydis_mnemonic list" where
  "kXorMnemonics = [ZM_Arith LXOR, ZM_Simd XORPS, ZM_Simd XORPD, ZM_Simd PXOR]"

definition kMaxBytesFeatureSize :: nat where "kMaxBytesFeatureSize = 0x100"
definition kMaxStructureSize :: u64 where "kMaxStructureSize = 0x10000"
definition kPebOffsetX86 :: i64 where "kPebOffsetX86 = 0x30"
definition kPebOffsetX64 :: i64 where "kPebOffsetX64 = 0x60"
definition kCallPlus5Distance :: u64 where "kCallPlus5Distance = 5"
definition kSecurityCookieBytesDelta :: u64 where "kSecurityCookieBytesDelta = 0x40"
definition kMinStackStringLen :: nat where "kMinStackStringLen = 8"

definition operand_disp_equals :: "decoded_operand \<Rightarrow> i64 \<Rightarrow> bool" where
  "operand_disp_equals op want = (if do_kind op \<in> {kRegMem, kSib, kImmMem} then do_disp op = want else False)"

definition operand_target_va :: "decoded_insn \<Rightarrow> decoded_operand \<Rightarrow> u64 option" where
  "operand_target_va ins op =
     (case do_kind op of
        kImm \<Rightarrow> Some (do_imm op)
      | kImmMem \<Rightarrow> Some (ucast (do_disp op))
      | kRipRel \<Rightarrow> Some (rip_target ins op)
      | _ \<Rightarrow> None)"

definition is_offset_excluded_reg :: "zydis \<Rightarrow> zydis_register \<Rightarrow> bool \<Rightarrow> bool" where
  "is_offset_excluded_reg zy r is_64bit =
     (if r = ZR_NONE then False
      else
        let e = zy_enclosing zy is_64bit r
        in if is_64bit then e = ZR_64 RBP else e = ZR_32 RSP \<or> e = ZR_32 RBP)"

definition is_add_esp :: "decoded_insn \<Rightarrow> bool" where
  "is_add_esp ins =
     (if di_zyd_mnem ins \<noteq> ZM_Arith ADD then False
      else if di_operand_count ins < 1 then False
      else do_kind (operand ins 0) = kReg \<and> do_base_reg (operand ins 0) = ZR_32 RSP)"

definition kStringProbeBytes :: nat where "kStringProbeBytes = 0x100"

text \<open>
  The wide string at the front of the bytes: its units, or \<open>None\<close> when a unit is no ASCII character.
\<close>

fun wide_units :: "u8 list \<Rightarrow> u8 list option" where
  "wide_units (low # high # bs) =
     (if low = 0 \<and> high = 0 then Some []
      else if high \<noteq> 0 then None
      else if \<not> is_ascii_printable low then None
      else map_option (\<lambda>us. low # us) (wide_units bs))"
| "wide_units _ = Some []"

definition read_string_at_va :: "pe_image \<Rightarrow> u64 \<Rightarrow> string option" where
  "read_string_at_va img va =
     (let buf = read_bytes_capped img va kStringProbeBytes;
          ascii = takeWhile (\<lambda>b. b \<noteq> 0) buf in
      if buf = [] then None
      else if length ascii \<ge> kMinStringLength \<and> list_all is_ascii_printable ascii then Some (map ascii_of ascii)
      else case wide_units buf of
        None \<Rightarrow> None
      | Some us \<Rightarrow> if length us \<ge> kMinStringLength then Some (map ascii_of us) else None)"

section \<open>Instruction features\<close>

definition of_optional :: "'a option \<Rightarrow> 'a list" where
  "of_optional x = (case x of None \<Rightarrow> [] | Some y \<Rightarrow> [y])"

definition extract_mnemonic :: "decoded_insn \<Rightarrow> (feature option \<times> address) option" where
  "extract_mnemonic ins =
     (if di_mnemonic_str ins = [] then None else Some (at_va (FMnemonic (di_mnemonic_str ins)) (di_va ins)))"

definition extract_call_plus_5 :: "decoded_insn \<Rightarrow> (feature option \<times> address) option" where
  "extract_call_plus_5 ins =
     (if \<not> di_is_call ins then None
      else case di_branch_target ins of
        None \<Rightarrow> None
      | Some t \<Rightarrow>
          if t \<noteq> di_va ins + kCallPlus5Distance then None
          else Some (make_characteristic ''call $+5'' (di_va ins)))"

definition extract_indirect_call :: "decoded_insn \<Rightarrow> (feature option \<times> address) option" where
  "extract_indirect_call ins =
     (if \<not> di_is_call ins then None
      else if di_operand_count ins = 0 then None
      else if do_kind (operand ins 0) \<in> {kReg, kRegMem, kSib} then Some (make_characteristic ''indirect call'' (di_va ins))
      else None)"

definition extract_segment_access :: "decoded_insn \<Rightarrow> feature_batch" where
  "extract_segment_access ins =
     (if di_has_prefix_fs ins then [make_characteristic ''fs access'' (di_va ins)] else []) @
     (if di_has_prefix_gs ins then [make_characteristic ''gs access'' (di_va ins)] else [])"

text \<open>The operands of an instruction with their positions.\<close>

definition operands_of :: "decoded_insn \<Rightarrow> (nat \<times> decoded_operand) list" where
  "operands_of ins = map (\<lambda>i. (i, operand ins i)) [0..<di_operand_count ins]"

definition bytes_feature :: "decoded_insn \<Rightarrow> pe_image \<Rightarrow> decoded_operand \<Rightarrow> feature_batch" where
  "bytes_feature ins img op =
     (case operand_target_va ins op of
        None \<Rightarrow> []
      | Some va \<Rightarrow>
          if va < img_image_base img then []
          else if \<not> probe_readable img (va - img_image_base img) 1 then []
          else
            let buf = read_bytes_capped img va kMaxBytesFeatureSize in
            if buf = [] then []
            else if list_all (\<lambda>b. b = 0) buf then []
            else if list_all is_ascii_printable buf then []
            else if is_utf16le_printable buf then []
            else [at_va (FBytes buf) (di_va ins)])"

definition extract_bytes :: "decoded_insn \<Rightarrow> pe_image \<Rightarrow> feature_batch" where
  "extract_bytes ins img =
     (if di_is_call ins then []
      else concat (map (\<lambda>(i, op). bytes_feature ins img op) (operands_of ins)))"

text \<open>The width of the first register or memory operand, or that of a pointer.\<close>

definition operation_width :: "decoded_insn \<Rightarrow> bool \<Rightarrow> nat" where
  "operation_width ins is_64bit =
     (case find (\<lambda>(j, op). do_kind op \<in> {kReg, kRegMem, kRipRel, kImmMem, kSib}) (operands_of ins) of
        None \<Rightarrow> if is_64bit then 8 else 4
      | Some (j, op) \<Rightarrow> do_width_bytes op)"

definition number_value_of :: "decoded_insn \<Rightarrow> bool \<Rightarrow> decoded_operand \<Rightarrow> u64" where
  "number_value_of ins is_64bit op =
     (if do_kind op = kImm then
        let w = operation_width ins is_64bit
        in if 1 \<le> w \<and> w < 8 then do_imm op AND (push_bit (8 * w) 1 - 1) else do_imm op
      else ucast (do_disp op))"

definition points_into :: "pe_image \<Rightarrow> u64 \<Rightarrow> bool" where
  "points_into img v \<longleftrightarrow> v \<ge> img_image_base img \<and> probe_readable img (v - img_image_base img) 1"

definition number_features :: "zydis \<Rightarrow> decoded_insn \<Rightarrow> pe_image \<Rightarrow> nat \<Rightarrow> decoded_operand \<Rightarrow> feature_batch" where
  "number_features zy ins img i op =
     (if do_kind op \<noteq> kImm \<and> do_kind op \<noteq> kImmMem then []
      else
        let v = number_value_of ins (img_is_64bit img) op in
        if is_add_esp ins then []
        else if points_into img v then []
        else
          [at_va (FNumber (Num_U64 v)) (di_va ins), at_va (FOperandNumber i (Num_U64 v)) (di_va ins)] @
          (if di_zyd_mnem ins = ZM_Arith ADD \<and> di_operand_count ins \<ge> 2 \<and> do_kind (operand ins 0) = kReg \<and>
              \<not> is_stack_reg zy (img_is_64bit img) (do_base_reg (operand ins 0)) \<and> v > 0 \<and> v < kMaxStructureSize
           then [at_va (FOffset (ucast v)) (di_va ins), at_va (FOperandOffset i (ucast v)) (di_va ins)]
           else []))"

definition extract_number :: "zydis \<Rightarrow> decoded_insn \<Rightarrow> pe_image \<Rightarrow> feature_batch" where
  "extract_number zy ins img = concat (map (\<lambda>(i, op). number_features zy ins img i op) (operands_of ins))"

definition offset_features :: "zydis \<Rightarrow> decoded_insn \<Rightarrow> pe_image \<Rightarrow> nat \<Rightarrow> decoded_operand \<Rightarrow> feature_batch" where
  "offset_features zy ins img i op =
     (if do_kind op \<noteq> kRegMem \<and> do_kind op \<noteq> kSib then []
      else if \<not> do_sib_encoded op \<and> is_offset_excluded_reg zy (do_base_reg op) (img_is_64bit img) then []
      else
        let off = (if do_kind op = kSib \<and> do_base_reg op = ZR_NONE then 0 else do_disp op);
            v = ucast (do_disp op) :: u64;
            rva = (if v \<ge> img_image_base img then v - img_image_base img else v) in
        [at_va (FOffset off) (di_va ins), at_va (FOperandOffset i off) (di_va ins)] @
        (if di_zyd_mnem ins = ZM_Data LEA \<and> 0 <s do_disp op \<and>
            \<not> is_stack_reg zy (img_is_64bit img) (do_base_reg op) \<and> \<not> do_sib_encoded op \<and>
            \<not> probe_readable img rva 1
         then [at_va (FNumber (Num_U64 v)) (di_va ins), at_va (FOperandNumber i (Num_U64 v)) (di_va ins)]
         else []))"

definition extract_offset :: "zydis \<Rightarrow> decoded_insn \<Rightarrow> pe_image \<Rightarrow> feature_batch" where
  "extract_offset zy ins img = concat (map (\<lambda>(i, op). offset_features zy ins img i op) (operands_of ins))"

text \<open>The block is given by its position in the function; the entry block is the first.\<close>

definition is_security_cookie :: "zydis \<Rightarrow> cfg_function \<Rightarrow> nat \<Rightarrow> basic_block \<Rightarrow> decoded_insn \<Rightarrow> bool \<Rightarrow> bool" where
  "is_security_cookie zy fn k bb ins is_64bit =
     (if di_operand_count ins < 2 then False
      else if do_kind (operand ins 1) = kReg \<and> \<not> is_stack_reg zy is_64bit (do_base_reg (operand ins 1)) then False
      else if fn_basic_blocks fn = [] then False
      else if k = 0 \<and> di_va ins < bb_va (hd (fn_basic_blocks fn)) + kSecurityCookieBytesDelta then True
      else if bb_instructions bb \<noteq> [] \<and> di_is_return (last (bb_instructions bb)) then
        let bb_end = next_va (last (bb_instructions bb))
        in bb_end \<ge> kSecurityCookieBytesDelta \<and> di_va ins > bb_end - kSecurityCookieBytesDelta
      else False)"

definition extract_nzxor ::
    "zydis \<Rightarrow> cfg_function \<Rightarrow> nat \<Rightarrow> basic_block \<Rightarrow> decoded_insn \<Rightarrow> bool \<Rightarrow> (feature option \<times> address) option" where
  "extract_nzxor zy fn k bb ins is_64bit =
     (if di_zyd_mnem ins \<notin> set kXorMnemonics then None
      else if di_operand_count ins < 2 then None
      else
        let dst = operand ins 0; src = operand ins 1 in
        if do_kind dst = kReg \<and> do_kind src = kReg \<and> do_base_reg dst = do_base_reg src \<and> do_base_reg dst \<noteq> ZR_NONE
        then None
        else if is_security_cookie zy fn k bb ins is_64bit then None
        else Some (make_characteristic ''nzxor'' (di_va ins)))"

definition string_feature :: "decoded_insn \<Rightarrow> pe_image \<Rightarrow> decoded_operand \<Rightarrow> feature_batch" where
  "string_feature ins img op =
     (case operand_target_va ins op of
        None \<Rightarrow> []
      | Some va \<Rightarrow>
          if va < img_image_base img then []
          else case read_string_at_va img va of
            None \<Rightarrow> []
          | Some s \<Rightarrow> if length s < kMinStringLength then [] else [at_va (FString s) (di_va ins)])"

definition extract_string :: "decoded_insn \<Rightarrow> pe_image \<Rightarrow> feature_batch" where
  "extract_string ins img = concat (map (\<lambda>(i, op). string_feature ins img op) (operands_of ins))"

definition branch_destination :: "decoded_insn \<Rightarrow> u64 option" where
  "branch_destination ins =
     (case di_branch_target ins of
        Some t \<Rightarrow> Some t
      | None \<Rightarrow>
          if di_operand_count ins > 0 \<and> do_kind (operand ins 0) = kRipRel then Some (rip_target ins (operand ins 0))
          else if di_operand_count ins > 0 \<and> do_kind (operand ins 0) = kImmMem then Some (ucast (do_disp (operand ins 0)))
          else None)"

text \<open>Sections are told apart by their position in the table.\<close>

fun first_section :: "u64 \<Rightarrow> parsed_section list \<Rightarrow> nat option" where
  "first_section rva [] = None"
| "first_section rva (s # ss) = (if section_contains rva s then Some 0 else map_option Suc (first_section rva ss))"

definition extract_cross_section_flow ::
    "decoded_insn \<Rightarrow> pe_image \<Rightarrow> import_table \<Rightarrow> (feature option \<times> address) option" where
  "extract_cross_section_flow ins img imports =
     (if \<not> (di_is_call ins \<or> di_is_jump ins) then None
      else if di_va ins < img_image_base img then None
      else case branch_destination ins of
        None \<Rightarrow> None
      | Some target \<Rightarrow>
          if imports target \<noteq> None then None
          else if target < img_image_base img then None
          else case first_section (di_va ins - img_image_base img) (img_sections img) of
            None \<Rightarrow> None
          | Some src \<Rightarrow>
              case first_section (target - img_image_base img) (img_sections img) of
                None \<Rightarrow> None
              | Some dst \<Rightarrow> if src = dst then None else Some (make_characteristic ''cross section flow'' (di_va ins)))"

definition extract_peb_access :: "decoded_insn \<Rightarrow> bool \<Rightarrow> (feature option \<times> address) option" where
  "extract_peb_access ins is_64bit =
     (let want = (if is_64bit then kPebOffsetX64 else kPebOffsetX86);
          prefix_ok = (if is_64bit then di_has_prefix_gs ins else di_has_prefix_fs ins) in
      if \<not> prefix_ok then None
      else if list_ex (\<lambda>(i, op). operand_disp_equals op want) (operands_of ins)
      then Some (make_characteristic ''peb access'' (di_va ins))
      else None)"

definition emit_api_variants :: "parsed_import \<Rightarrow> u64 \<Rightarrow> feature_batch" where
  "emit_api_variants imp va =
     (if import_symbol imp = [] then []
      else map (\<lambda>v. at_va (FApi v) va) (generate_symbols (imp_dll imp) (import_symbol imp) True))"

definition is_call_or_tail_jump :: "decoded_insn \<Rightarrow> bool" where
  "is_call_or_tail_jump ins \<longleftrightarrow> di_is_call ins \<or> di_is_jump ins \<and> \<not> di_is_conditional ins"

definition extract_flirt_call_api :: "decoded_insn \<Rightarrow> (u64 \<Rightarrow> string option) \<Rightarrow> feature_batch" where
  "extract_flirt_call_api ins flirt_name =
     (if \<not> is_call_or_tail_jump ins then []
      else if di_operand_count ins = 0 then []
      else if do_kind (operand ins 0) \<noteq> kPcRel then []
      else case Option.bind (di_branch_target ins) flirt_name of
        None \<Rightarrow> []
      | Some name \<Rightarrow>
          if name = [] then []
          else at_va (FApi name) (di_va ins) #
            (if hd name = CHR ''_'' \<and> length name > 1 then [at_va (FApi (tl name)) (di_va ins)] else []))"

definition emit_row :: "parsed_import option \<Rightarrow> u64 \<Rightarrow> feature_batch" where
  "emit_row row va = (case row of None \<Rightarrow> [] | Some imp \<Rightarrow> emit_api_variants imp va)"

definition extract_api_features ::
    "zydis \<Rightarrow> cfg_function \<Rightarrow> decoded_insn \<Rightarrow> pe_image \<Rightarrow> import_table \<Rightarrow> feature_batch" where
  "extract_api_features zy fn ins img imports =
     (if \<not> is_call_or_tail_jump ins then []
      else if di_operand_count ins = 0 then []
      else
        let op0 = operand ins 0 in
        case do_kind op0 of
          kImmMem \<Rightarrow> emit_row (resolve_direct_call_import zy img imports ins) (di_va ins)
        | kRipRel \<Rightarrow> emit_row (resolve_direct_call_import zy img imports ins) (di_va ins)
        | kPcRel \<Rightarrow> emit_row (resolve_direct_call_import zy img imports ins) (di_va ins)
        | kReg \<Rightarrow>
            (case find_definition zy (img_is_64bit img) fn (di_va ins) (do_base_reg op0) of
               None \<Rightarrow> []
             | Some d \<Rightarrow> (case rd_value d of None \<Rightarrow> [] | Some slot \<Rightarrow> emit_row (imports slot) (di_va ins)))
        | _ \<Rightarrow> [])"

section \<open>Basic block features\<close>

fun leading_printable_bytes :: "u64 \<Rightarrow> nat \<Rightarrow> nat \<Rightarrow> nat" where
  "leading_printable_bytes imm width 0 = 0"
| "leading_printable_bytes imm width (Suc left) =
     (if is_ascii_printable (ucast (drop_bit (8 * (width - Suc left)) imm AND 0xFF))
      then Suc (leading_printable_bytes imm width left) else 0)"

definition kDefaultStoreWidth :: nat where "kDefaultStoreWidth = 4"

definition extract_tight_loop :: "basic_block \<Rightarrow> (feature option \<times> address) option" where
  "extract_tight_loop bb =
     (if bb_va bb \<in> set (bb_successors bb) then Some (make_characteristic ''tight loop'' (bb_va bb)) else None)"

definition is_stack_store :: "zydis \<Rightarrow> bool \<Rightarrow> decoded_insn \<Rightarrow> bool" where
  "is_stack_store zy is_64bit ins \<longleftrightarrow>
     di_zyd_mnem ins = ZM_Data MOV \<and> di_operand_count ins \<ge> 2 \<and>
     do_kind (operand ins 0) \<in> {kRegMem, kSib} \<and> is_stack_reg zy is_64bit (do_base_reg (operand ins 0)) \<and>
     do_kind (operand ins 1) = kImm"

fun stack_string_loop :: "zydis \<Rightarrow> bool \<Rightarrow> decoded_insn list \<Rightarrow> nat \<Rightarrow> u64 \<Rightarrow> u64 option" where
  "stack_string_loop zy is_64bit [] run anchor = None"
| "stack_string_loop zy is_64bit (ins # insns) run anchor =
     (if \<not> is_stack_store zy is_64bit ins then stack_string_loop zy is_64bit insns 0 (next_va ins)
      else
        let src = operand ins 1;
            width = (if do_width_bytes src \<noteq> 0 then do_width_bytes src else kDefaultStoreWidth);
            printable = leading_printable_bytes (do_imm src) width width in
        if printable < width then
          if printable \<ge> kMinStackStringLen then Some (di_va ins)
          else stack_string_loop zy is_64bit insns 0 (di_va ins)
        else
          let anchor' = (if run = 0 then di_va ins else anchor); run' = run + printable
          in if run' \<ge> kMinStackStringLen then Some anchor'
             else stack_string_loop zy is_64bit insns run' anchor')"

definition extract_stack_string :: "zydis \<Rightarrow> basic_block \<Rightarrow> bool \<Rightarrow> (feature option \<times> address) option" where
  "extract_stack_string zy bb is_64bit =
     map_option (make_characteristic ''stack string'') (stack_string_loop zy is_64bit (bb_instructions bb) 0 (bb_va bb))"

definition basic_block_features :: "zydis \<Rightarrow> basic_block \<Rightarrow> bool \<Rightarrow> feature_batch" where
  "basic_block_features zy bb is_64bit =
     [at_va FBasicBlock (bb_va bb)] @ of_optional (extract_tight_loop bb) @
     of_optional (extract_stack_string zy bb is_64bit)"

section \<open>Function features\<close>

text \<open>
  Peeling a graph, given by the successors of each node: how many nodes go before none is ready,
  the last that became ready first.  A counter would wrap around below zero.
\<close>

definition decrement :: "u64 list \<Rightarrow> nat \<Rightarrow> u64 list" where
  "decrement deg w = deg[w := deg ! w - 1]"

fun release_targets :: "nat list \<Rightarrow> u64 list \<Rightarrow> nat list \<Rightarrow> u64 list \<times> nat list" where
  "release_targets [] deg ready = (deg, ready)"
| "release_targets (w # ws) deg ready =
     (let deg' = decrement deg w
      in release_targets ws deg' (if deg' ! w = 0 then ready @ [w] else ready))"

partial_function (option) peel :: "nat list list \<Rightarrow> u64 list \<Rightarrow> nat list \<Rightarrow> nat \<Rightarrow> nat option" where
  "peel succ deg ready peeled =
     (if ready = [] then Some peeled
      else
        case release_targets (succ ! last ready) deg (butlast ready) of
          (deg', ready') \<Rightarrow> peel succ deg' ready' (peeled + 1))"

definition count_in :: "nat list list \<Rightarrow> nat \<Rightarrow> nat" where
  "count_in succ w = count_list (concat succ) w"

definition in_degrees :: "nat list list \<Rightarrow> u64 list" where
  "in_degrees succ = map (\<lambda>w. of_nat (count_in succ w)) [0..<length succ]"

definition has_cycle :: "nat list list \<Rightarrow> bool option" where
  "has_cycle succ =
     (let deg = in_degrees succ in
      map_option (\<lambda>peeled. peeled \<noteq> length succ)
        (peel succ deg (filter (\<lambda>v. deg ! v = 0) [0..<length succ]) 0))"

text \<open>The position of the first block with an address.\<close>

fun bb_index :: "basic_block list \<Rightarrow> u64 \<Rightarrow> nat option" where
  "bb_index [] va = None"
| "bb_index (bb # bbs) va = (if bb_va bb = va then Some 0 else map_option Suc (bb_index bbs va))"

definition block_graph :: "basic_block list \<Rightarrow> nat list list" where
  "block_graph bbs =
     map (\<lambda>i. concat (map (\<lambda>s. case bb_index bbs s of None \<Rightarrow> [] | Some j \<Rightarrow> if j = i then [] else [j])
                (bb_successors (bbs ! i)))) [0..<length bbs]"

definition extract_loop :: "cfg_function \<Rightarrow> (feature option \<times> address) option option" where
  "extract_loop fn =
     (if length (fn_basic_blocks fn) < 2 then Some None
      else map_option (\<lambda>c. if \<not> c then None else Some (make_characteristic ''loop'' (fn_va fn)))
             (has_cycle (block_graph (fn_basic_blocks fn))))"

definition function_insns :: "cfg_function \<Rightarrow> decoded_insn list" where
  "function_insns fn = concat (map bb_instructions (fn_basic_blocks fn))"

definition extract_calls_from :: "cfg_function \<Rightarrow> feature_batch" where
  "extract_calls_from fn =
     concat (map (\<lambda>ins. if \<not> di_is_call ins then [] else if di_branch_target ins = None then []
        else [make_characteristic ''calls from'' (di_va ins)]) (function_insns fn))"

definition extract_calls_to :: "cfg_function \<Rightarrow> feature_batch" where
  "extract_calls_to fn = map (make_characteristic ''calls to'') (fn_callers fn)"

definition extract_recursive_call :: "cfg_function \<Rightarrow> (feature option \<times> address) option" where
  "extract_recursive_call fn =
     (case find (\<lambda>ins. di_is_call ins \<and> di_branch_target ins = Some (fn_va fn)) (function_insns fn) of
        None \<Rightarrow> None | Some ins \<Rightarrow> Some (make_characteristic ''recursive call'' (di_va ins)))"

definition extract_function_name :: "cfg_function \<Rightarrow> string \<Rightarrow> (feature option \<times> address) option" where
  "extract_function_name fn symbol =
     (if symbol = [] then None else Some (at_va (FFunctionName symbol) (fn_va fn)))"

definition function_features :: "cfg_function \<Rightarrow> string \<Rightarrow> feature_batch" where
  "function_features fn symbol =
     (case extract_loop fn of None \<Rightarrow> [] | Some l \<Rightarrow> of_optional l) @ extract_calls_from fn @ extract_calls_to fn @
     of_optional (extract_recursive_call fn) @ of_optional (extract_function_name fn symbol)"

definition is_thunk :: "cfg_function \<Rightarrow> bool" where
  "is_thunk fn =
     (if length (fn_basic_blocks fn) \<noteq> 1 then False
      else if length (bb_instructions (hd (fn_basic_blocks fn))) \<noteq> 1 then False
      else
        let ins = hd (bb_instructions (hd (fn_basic_blocks fn))) in
        if \<not> ((di_is_jump ins \<or> di_is_call ins) \<and> \<not> di_is_conditional ins) then False
        else if di_operand_count ins = 0 then False
        else do_kind (operand ins 0) \<in> {kImmMem, kRipRel})"

section \<open>The extractor\<close>

record native_backend =
  nb_image :: pe_image
  nb_functions :: "cfg_function list"
  nb_imports :: import_table
  nb_library_names :: "u64 \<rightharpoonup> string"

definition insn_features ::
    "zydis \<Rightarrow> native_backend \<Rightarrow> cfg_function \<Rightarrow> nat \<Rightarrow> basic_block \<Rightarrow> decoded_insn \<Rightarrow> feature_batch" where
  "insn_features zy nb fn k bb ins =
     (let img = nb_image nb; is_64bit = img_is_64bit img in
      of_optional (extract_mnemonic ins) @ of_optional (extract_call_plus_5 ins) @
      of_optional (extract_indirect_call ins) @ extract_segment_access ins @
      of_optional (extract_peb_access ins is_64bit) @
      of_optional (extract_cross_section_flow ins img (nb_imports nb)) @
      of_optional (extract_nzxor zy fn k bb ins is_64bit) @ extract_bytes ins img @ extract_number zy ins img @
      extract_offset zy ins img @ extract_string ins img @
      extract_api_features zy fn ins img (nb_imports nb) @ extract_flirt_call_api ins (nb_library_names nb))"

text \<open>
  A function handle is the function, a block handle its position and the block, an instruction
  handle the instruction; the map of function names is never filled.
\<close>

definition function_names :: "u64 \<rightharpoonup> string" where "function_names = Map.empty"

definition symbol_of :: "u64 \<Rightarrow> string" where
  "symbol_of va = (case function_names va of None \<Rightarrow> [] | Some s \<Rightarrow> s)"

definition absolute_va :: "address \<Rightarrow> u64 option" where
  "absolute_va a = (case a of AbsoluteVirtualAddress v \<Rightarrow> Some v | _ \<Rightarrow> None)"

definition native_is_library_function :: "native_backend \<Rightarrow> address \<Rightarrow> bool" where
  "native_is_library_function nb a =
     (case absolute_va a of
        None \<Rightarrow> False
      | Some va \<Rightarrow>
          case find (\<lambda>fn. fn_va fn = va) (nb_functions nb) of
            None \<Rightarrow> False
          | Some fn \<Rightarrow> if is_thunk fn then True else nb_library_names nb va \<noteq> None)"

definition native_extractor ::
    "zydis \<Rightarrow> native_backend \<Rightarrow> (cfg_function, nat \<times> basic_block, decoded_insn) extractor" where
  "native_extractor zy nb =
     \<lparr>get_base_address = AbsoluteVirtualAddress (img_image_base (nb_image nb)),
      extract_global_features = pe_global_features (nb_image nb),
      extract_file_features = pe_file_features (nb_image nb),
      get_functions = nb_functions nb, fh_addr = (\<lambda>fn. AbsoluteVirtualAddress (fn_va fn)),
      extract_function_features = (\<lambda>fn. function_features fn (symbol_of (fn_va fn))),
      get_basic_blocks = (\<lambda>fn. enumerate 0 (fn_basic_blocks fn)),
      bbh_addr = (\<lambda>(k, bb). AbsoluteVirtualAddress (bb_va bb)),
      extract_basic_block_features = (\<lambda>fn (k, bb). basic_block_features zy bb (img_is_64bit (nb_image nb))),
      get_instructions = (\<lambda>fn (k, bb). bb_instructions bb),
      ih_addr = (\<lambda>ins. AbsoluteVirtualAddress (di_va ins)),
      extract_insn_features = (\<lambda>fn (k, bb) ins. insn_features zy nb fn k bb ins),
      is_library_function = native_is_library_function nb\<rparr>"

end
