(* ===== verification/Native_Correct.thy ===== *)
theory Native_Correct
  imports Native_Features Emu_Keeps
begin

text \<open>
  What the features of recovered code promise: the loop feature is there exactly when the blocks
  have a cycle, a capped read gives the longest part that can be read, and the stack string is a
  run of printable stores.
\<close>

section \<open>Peeling a graph\<close>

definition edges_of :: "nat list list \<Rightarrow> (nat \<times> nat) set" where
  "edges_of succ = {(v, w). v < length succ \<and> w \<in> set (succ ! v)}"

definition succ_ok :: "nat list list \<Rightarrow> bool" where
  "succ_ok succ \<longleftrightarrow> (\<forall>ws\<in>set succ. set ws \<subseteq> {..<length succ}) \<and> length (concat succ) < 2 ^ 64"

text \<open>The edges into a node from nodes that have not been peeled.\<close>

definition open_in :: "nat list list \<Rightarrow> nat set \<Rightarrow> nat \<Rightarrow> nat" where
  "open_in succ gone w = (\<Sum>v\<in>{..<length succ} - gone. count_list (succ ! v) w)"

lemma count_in_sum: "count_in succ w = (\<Sum>v<length succ. count_list (succ ! v) w)"
proof -
  have "count_in succ w = sum_list (map (\<lambda>ws. count_list ws w) succ)"
    by (induction succ) (simp_all add: count_in_def)
  then show ?thesis by (simp add: sum_list_sum_nth atLeast0LessThan)
qed

lemma open_in_start: "open_in succ {} w = count_in succ w"
  by (simp add: open_in_def count_in_sum)

lemma open_in_peel:
  assumes "v < length succ" "v \<notin> gone"
  shows "open_in succ gone w = count_list (succ ! v) w + open_in succ (insert v gone) w"
proof -
  have e: "{..<length succ} - gone = insert v ({..<length succ} - insert v gone)" using assms by auto
  show ?thesis
    unfolding open_in_def e by (subst sum.insert) auto
qed

lemma open_in_zero:
  "open_in succ gone w = 0 \<longleftrightarrow> (\<forall>v. (v, w) \<in> edges_of succ \<longrightarrow> v \<in> gone)"
  by (auto simp: open_in_def edges_of_def count_list_0_iff)

lemma count_in_bound: "succ_ok succ \<Longrightarrow> count_in succ w < 2 ^ 64"
  unfolding succ_ok_def count_in_def using count_le_length [of "concat succ" w] by simp

lemma open_in_le: "open_in succ gone w \<le> count_in succ w"
  unfolding open_in_def count_in_sum by (rule sum_mono2) auto

lemma release_targets_exact:
  assumes "set ws \<subseteq> {..<length deg}" "\<forall>w<length deg. count_list ws w \<le> unat (deg ! w)"
    "distinct ready" "\<forall>w\<in>set ready. w < length deg \<longrightarrow> deg ! w = 0" "release_targets ws deg ready = (deg', ready')"
  shows "length deg' = length deg \<and> (\<forall>w<length deg. unat (deg' ! w) = unat (deg ! w) - count_list ws w) \<and>
     distinct ready' \<and> set ready' = set ready \<union> {w \<in> set ws. unat (deg ! w) = count_list ws w}"
  using assms
proof (induction ws arbitrary: deg ready)
  case (Cons w ws)
  let ?deg = "decrement deg w"
  have w: "w < length deg" using Cons.prems(1) by simp
  have "count_list (w # ws) w \<le> unat (deg ! w)" using Cons.prems(2) w by blast
  with w have w: "w < length deg" "1 \<le> unat (deg ! w)" by simp_all
  then have d0: "deg ! w \<noteq> 0" by auto
  have dw: "unat (deg ! w - 1) = unat (deg ! w) - 1"
    using d0 by (simp add: unat_minus_one)
  have deg: "length ?deg = length deg" "\<forall>x<length deg. unat (?deg ! x) = unat (deg ! x) - (if x = w then 1 else 0)"
    using w dw by (auto simp: decrement_def nth_list_update)
  let ?ready = "if ?deg ! w = 0 then ready @ [w] else ready"
  have w_new: "w \<notin> set ready" using Cons.prems(4) w(1) d0 by auto
  have "release_targets ws ?deg ?ready = (deg', ready')" using Cons.prems(5) by (simp add: Let_def)
  moreover have "set ws \<subseteq> {..<length ?deg}" using Cons.prems(1) deg(1) by simp
  moreover have "\<forall>x<length ?deg. count_list ws x \<le> unat (?deg ! x)"
    using Cons.prems(2) deg by (auto split: if_split_asm)
  moreover have "distinct ?ready" using Cons.prems(3) w_new by simp
  moreover have "\<forall>x\<in>set ?ready. x < length ?deg \<longrightarrow> ?deg ! x = 0"
    using Cons.prems(4) w_new deg(1) w(1) by (auto simp: decrement_def nth_list_update)
  ultimately have ih: "length deg' = length ?deg" "\<forall>x<length ?deg. unat (deg' ! x) = unat (?deg ! x) - count_list ws x"
    "distinct ready'" "set ready' = set ?ready \<union> {x \<in> set ws. unat (?deg ! x) = count_list ws x}"
    using Cons.IH by blast+
  have z: "?deg ! w = 0 \<longleftrightarrow> unat (deg ! w) = 1"
    using deg(2) w by (simp add: unat_eq_0 [symmetric] del: unat_eq_0)
  have "set ready' = set ready \<union> {x \<in> set (w # ws). unat (deg ! x) = count_list (w # ws) x}"
  proof (rule set_eqI)
    fix x
    have cnt: "x \<in> set ws \<Longrightarrow> x < length deg" using Cons.prems(1) by auto
    have cw: "count_list ws w \<le> unat (deg ! w) - 1" using Cons.prems(2) w(1) by fastforce
    show "x \<in> set ready' \<longleftrightarrow> x \<in> set ready \<union> {x \<in> set (w # ws). unat (deg ! x) = count_list (w # ws) x}"
    proof (cases "x = w")
      case True
      show ?thesis
      proof (cases "w \<in> set ws")
        case True
        then have "count_list ws w \<noteq> 0" by (simp add: count_list_0_iff)
        then show ?thesis using \<open>x = w\<close> ih(4) True deg(2) w w_new z cw by auto
      next
        case False
        then have "count_list ws w = 0" by (simp add: count_list_0_iff)
        then show ?thesis using \<open>x = w\<close> ih(4) False w_new z by auto
      qed
    next
      case False
      then show ?thesis using ih(4) deg(2) cnt by auto
    qed
  qed
  moreover have "\<forall>x<length deg. unat (deg' ! x) = unat (deg ! x) - count_list (w # ws) x"
    using ih(1,2) deg by auto
  moreover have "length deg' = length deg" using ih(1) deg(1) by simp
  ultimately show ?case using ih(3) by (intro conjI) assumption+
qed simp

text \<open>The state of a peel: \<open>gone\<close> are the peeled nodes, in their order.\<close>

definition peel_ok :: "nat list list \<Rightarrow> u64 list \<Rightarrow> nat list \<Rightarrow> nat list \<Rightarrow> bool" where
  "peel_ok succ deg ready gone \<longleftrightarrow>
     length deg = length succ \<and> (\<forall>w<length succ. unat (deg ! w) = open_in succ (set gone) w) \<and>
     distinct gone \<and> distinct ready \<and> set ready \<inter> set gone = {} \<and>
     set ready \<union> set gone = {w. w < length succ \<and> open_in succ (set gone) w = 0} \<and>
     (\<forall>j<length gone. \<forall>v. (v, gone ! j) \<in> edges_of succ \<longrightarrow> (\<exists>i<j. gone ! i = v))"

lemma peel_step_ok:
  assumes g: "succ_ok succ" and ok: "peel_ok succ deg ready gone" and ne: "ready \<noteq> []"
    and r: "release_targets (succ ! last ready) deg (butlast ready) = (deg', ready')"
  shows "peel_ok succ deg' ready' (gone @ [last ready])"
proof -
  let ?v = "last ready"
  have v: "?v \<in> set ready" using ne by simp
  then have vn: "?v < length succ" and v0: "open_in succ (set gone) ?v = 0" and vg: "?v \<notin> set gone"
    using ok by (auto simp: peel_ok_def)
  obtain rs where rs: "ready = rs @ [?v]" using ne by (metis append_butlast_last_id)
  have sr: "set ready = set rs \<union> {?v}"
    using arg_cong [OF rs, of set] by (simp only: set_append list.set)
  then have rsr: "set rs \<subseteq> set ready" by blast
  have peel: "open_in succ (set gone) w = count_list (succ ! ?v) w + open_in succ (set (gone @ [?v])) w" for w
    using open_in_peel [OF vn vg, of w] by simp
  have len: "length deg = length succ" and dg: "\<forall>w<length succ. unat (deg ! w) = open_in succ (set gone) w"
    and all: "set ready \<union> set gone = {w. w < length succ \<and> open_in succ (set gone) w = 0}"
    and ds: "distinct gone" "distinct ready" "set ready \<inter> set gone = {}"
    and ord: "\<forall>j<length gone. \<forall>v. (v, gone ! j) \<in> edges_of succ \<longrightarrow> (\<exists>i<j. gone ! i = v)"
    using ok unfolding peel_ok_def by blast+
  have sv: "set (succ ! ?v) \<subseteq> {..<length deg}" using g vn len by (simp add: succ_ok_def)
  have z: "\<forall>w\<in>set rs. w < length deg \<longrightarrow> deg ! w = 0"
  proof (intro ballI impI)
    fix w assume "w \<in> set rs" "w < length deg"
    then have "w \<in> set ready \<union> set gone" using rsr by blast
    then have "open_in succ (set gone) w = 0" unfolding all by simp
    then have "unat (deg ! w) = 0" using dg len \<open>w < length deg\<close> by simp
    then show "deg ! w = 0" by (simp only: unat_eq_0)
  qed
  have c: "\<forall>w<length deg. count_list (succ ! ?v) w \<le> unat (deg ! w)" using dg len peel by simp
  have "distinct (rs @ [?v])" using ds(2) rs by metis
  then have drs: "distinct rs" and vrs: "?v \<notin> set rs" by simp_all
  have r': "release_targets (succ ! ?v) deg rs = (deg', ready')" using r rs by (metis butlast_snoc)
  note rels = release_targets_exact [OF sv c drs z r']
  have rel: "length deg' = length deg"
    "\<forall>w<length deg. unat (deg' ! w) = unat (deg ! w) - count_list (succ ! ?v) w" "distinct ready'"
    "set ready' = set rs \<union> {w \<in> set (succ ! ?v). unat (deg ! w) = count_list (succ ! ?v) w}"
    using rels [THEN conjunct1] rels [THEN conjunct2, THEN conjunct1]
      rels [THEN conjunct2, THEN conjunct2, THEN conjunct1] rels [THEN conjunct2, THEN conjunct2, THEN conjunct2]
    by - assumption+
  have new: "w \<in> set (succ ! ?v) \<Longrightarrow> count_list (succ ! ?v) w \<noteq> 0" for w by (simp add: count_list_0_iff)
  have sub: "w \<in> set (succ ! ?v) \<Longrightarrow> w < length succ" for w using sv len by auto
  have disj: "set ready' \<inter> set (gone @ [?v]) = {}"
  proof -
    have "w \<notin> set ready \<union> set gone" if "w \<in> set (succ ! ?v)" "unat (deg ! w) = count_list (succ ! ?v) w" for w
      using that new [OF that(1)] sub [OF that(1)] dg unfolding all by simp
    moreover have "set rs \<inter> set (gone @ [?v]) = {}" using ds(3) rsr vrs by auto
    ultimately show ?thesis unfolding rel(4) using v by auto
  qed
  have cover_in: "w \<in> set ready' \<union> set (gone @ [?v]) \<longleftrightarrow> w < length succ \<and> open_in succ (set (gone @ [?v])) w = 0" for w
  proof (cases "w \<in> set ready \<union> set gone")
    case True
    then have w: "w < length succ" "open_in succ (set gone) w = 0" unfolding all by blast+
    have "w \<in> set rs \<union> set (gone @ [?v])" using True unfolding sr by auto
    then have "w \<in> set ready' \<union> set (gone @ [?v])" unfolding rel(4) by blast
    moreover have "open_in succ (set (gone @ [?v])) w = 0" using w(2) peel [of w] by simp
    ultimately show ?thesis using w(1) by blast
  next
    case False
    then have o: "w \<notin> set rs \<and> w \<notin> set (gone @ [?v])" unfolding sr by simp
    have nz: "w < length succ \<Longrightarrow> open_in succ (set gone) w \<noteq> 0" using False unfolding all by simp
    have "w \<in> set ready' \<union> set (gone @ [?v]) \<longleftrightarrow> w \<in> set (succ ! ?v) \<and> unat (deg ! w) = count_list (succ ! ?v) w"
      using o unfolding rel(4) by blast
    also have "\<dots> \<longleftrightarrow> w < length succ \<and> open_in succ (set (gone @ [?v])) w = 0"
    proof (cases "w < length succ")
      case True
      then have e: "unat (deg ! w) = count_list (succ ! ?v) w + open_in succ (set (gone @ [?v])) w"
        using dg [rule_format, of w] peel [of w] by simp
      have "unat (deg ! w) \<noteq> 0" using nz [OF True] dg [rule_format, of w] True by simp
      moreover have "w \<notin> set (succ ! ?v) \<Longrightarrow> count_list (succ ! ?v) w = 0" by (simp add: count_list_0_iff)
      ultimately show ?thesis using True e by (cases "w \<in> set (succ ! ?v)") simp_all
    next
      case False
      then show ?thesis using sub [of w] by blast
    qed
    finally show ?thesis .
  qed
  have cover: "set ready' \<union> set (gone @ [?v]) = {w. w < length succ \<and> open_in succ (set (gone @ [?v])) w = 0}"
    using cover_in by blast
  have order: "\<forall>j<length (gone @ [?v]). \<forall>u. (u, (gone @ [?v]) ! j) \<in> edges_of succ \<longrightarrow> (\<exists>i<j. (gone @ [?v]) ! i = u)"
  proof (intro allI impI)
    fix j u assume j: "j < length (gone @ [?v])" and e: "(u, (gone @ [?v]) ! j) \<in> edges_of succ"
    show "\<exists>i<j. (gone @ [?v]) ! i = u"
    proof (cases "j < length gone")
      case True
      then have "(u, gone ! j) \<in> edges_of succ" using e by (simp add: nth_append)
      then obtain i where "i < j" "gone ! i = u" using ord True by blast
      then show ?thesis using True by (intro exI [of _ i]) (simp add: nth_append)
    next
      case False
      then have "j = length gone" using j by simp
      then have "u \<in> set gone" using e v0 by (simp add: open_in_zero)
      then obtain i where "i < length gone" "gone ! i = u" by (auto simp: in_set_conv_nth)
      then show ?thesis using \<open>j = length gone\<close> by (intro exI [of _ i]) (simp add: nth_append)
    qed
  qed
  have deg': "\<forall>w<length succ. unat (deg' ! w) = open_in succ (set (gone @ [?v])) w"
  proof (intro allI impI)
    fix w assume w: "w < length succ"
    then have "unat (deg' ! w) = unat (deg ! w) - count_list (succ ! ?v) w" using rel(2) len by simp
    also have "\<dots> = open_in succ (set (gone @ [?v])) w" using dg w peel [of w] by simp
    finally show "unat (deg' ! w) = open_in succ (set (gone @ [?v])) w" .
  qed
  have len': "length deg' = length succ" using rel(1) len by simp
  have dg': "distinct (gone @ [?v])" using ds(1) vg by simp
  show ?thesis
    unfolding peel_ok_def by (intro conjI) (fact len' deg' dg' rel(3) disj cover order)+
qed

lemma peel_total:
  assumes g: "succ_ok succ"
  shows "peel_ok succ deg ready gone \<Longrightarrow>
    \<exists>gone' deg'. peel succ deg ready (length gone) = Some (length gone') \<and> peel_ok succ deg' [] gone'"
proof (induction "length succ - length gone" arbitrary: deg ready gone rule: less_induct)
  case less
  show ?case
  proof (cases "ready = []")
    case True
    then show ?thesis using less.prems by (subst peel.simps) auto
  next
    case False
    obtain deg' ready' where r: "release_targets (succ ! last ready) deg (butlast ready) = (deg', ready')"
      by (metis surj_pair)
    have ok: "peel_ok succ deg' ready' (gone @ [last ready])" by (rule peel_step_ok [OF g less.prems False r])
    have sub: "set (gone @ [last ready]) \<subseteq> {..<length succ}" using ok unfolding peel_ok_def by blast
    have "distinct (gone @ [last ready])" using ok unfolding peel_ok_def by blast
    then have "length (gone @ [last ready]) \<le> length succ"
      using card_mono [OF _ sub] distinct_card [of "gone @ [last ready]"] by simp
    then have "length succ - length (gone @ [last ready]) < length succ - length gone" by simp
    from less.hyps [OF this ok] obtain gone' d where p:
      "peel succ deg' ready' (length (gone @ [last ready])) = Some (length gone')" "peel_ok succ d [] gone'" by blast
    have "peel succ deg ready (length gone) = Some (length gone')"
      using False p(1) by (subst peel.simps) (simp add: r)
    then show ?thesis using p(2) by blast
  qed
qed

lemma peel_starts:
  assumes "succ_ok succ"
  shows "peel_ok succ (in_degrees succ) (filter (\<lambda>v. in_degrees succ ! v = 0) [0..<length succ]) []"
proof -
  have d: "unat (in_degrees succ ! w) = count_in succ w" if "w < length succ" for w
    using that count_in_bound [OF assms, of w] by (simp add: in_degrees_def unat_of_nat)
  then have "w < length succ \<Longrightarrow> in_degrees succ ! w = 0 \<longleftrightarrow> count_in succ w = 0" for w
    by (metis unat_eq_0)
  then show ?thesis using d by (auto simp: peel_ok_def open_in_start in_degrees_def)
qed

lemma edges_inside: "succ_ok succ \<Longrightarrow> edges_of succ \<subseteq> {..<length succ} \<times> {..<length succ}"
  by (fastforce simp: edges_of_def succ_ok_def)

lemma all_peeled_iff:
  assumes g: "succ_ok succ" and ok: "peel_ok succ deg [] gone"
  shows "length gone = length succ \<longleftrightarrow> acyclic (edges_of succ)"
proof
  have sub: "set gone \<subseteq> {..<length succ}" "distinct gone" using ok by (auto simp: peel_ok_def)
  assume "length gone = length succ"
  then have all: "set gone = {..<length succ}"
    using card_subset_eq [of "{..<length succ}" "set gone"] sub distinct_card [of gone] by simp
  define pos where "pos x = (THE j. j < length gone \<and> gone ! j = x)" for x
  have pos: "pos (gone ! j) = j" if "j < length gone" for j
    unfolding pos_def using that sub(2) by (auto simp: nth_eq_iff_index_eq)
  have "edges_of succ \<subseteq> measure pos"
  proof (rule subrelI)
    fix v w assume e: "(v, w) \<in> edges_of succ"
    then have "w \<in> set gone" using edges_inside [OF g] all by auto
    then obtain j where j: "j < length gone" "gone ! j = w" by (auto simp: in_set_conv_nth)
    moreover have "\<forall>j<length gone. \<forall>v. (v, gone ! j) \<in> edges_of succ \<longrightarrow> (\<exists>i<j. gone ! i = v)"
      using ok unfolding peel_ok_def by blast
    ultimately obtain i where "i < j" "gone ! i = v" using e by blast
    then show "(v, w) \<in> measure pos" using pos [of i] pos [of j] j by simp
  qed
  then show "acyclic (edges_of succ)" by (meson wf_acyclic wf_measure wf_subset)
next
  have sub: "set gone \<subseteq> {..<length succ}" "distinct gone" using ok by (auto simp: peel_ok_def)
  assume ac: "acyclic (edges_of succ)"
  have "finite (edges_of succ)" using edges_inside [OF g] by (rule finite_subset) simp
  with ac have wf: "wf (edges_of succ)" by (rule finite_acyclic_wf [rotated])
  have "{..<length succ} \<subseteq> set gone"
  proof (rule ccontr)
    assume "\<not> {..<length succ} \<subseteq> set gone"
    then obtain x where "x \<in> {..<length succ} - set gone" by blast
    from wfE_min [OF wf this] obtain w where w: "w \<in> {..<length succ} - set gone"
      "\<And>v. (v, w) \<in> edges_of succ \<Longrightarrow> v \<notin> {..<length succ} - set gone" by blast
    have "open_in succ (set gone) w \<noteq> 0" using ok w(1) by (auto simp: peel_ok_def)
    then obtain v where "(v, w) \<in> edges_of succ" "v \<notin> set gone" by (auto simp: open_in_zero)
    then show False using w(2) [of v] by (auto simp: edges_of_def)
  qed
  then have "set gone = {..<length succ}" using sub(1) by blast
  then show "length gone = length succ" using distinct_card [OF sub(2)] by simp
qed

lemma has_cycle_exact:
  assumes "succ_ok succ"
  shows "has_cycle succ = Some (\<not> acyclic (edges_of succ))"
proof -
  obtain gone deg where p: "peel succ (in_degrees succ) (filter (\<lambda>v. in_degrees succ ! v = 0) [0..<length succ]) 0
      = Some (length gone)" "peel_ok succ deg [] gone"
    using peel_total [OF assms peel_starts [OF assms]] by auto
  then show ?thesis using all_peeled_iff [OF assms p(2)] by (simp add: has_cycle_def Let_def)
qed

section \<open>The loop feature\<close>

text \<open>The edges between two blocks of a function; of blocks with one address the first counts.\<close>

definition block_edges :: "basic_block list \<Rightarrow> (nat \<times> nat) set" where
  "block_edges bbs =
     {(i, j). i < length bbs \<and> i \<noteq> j \<and> (\<exists>s\<in>set (bb_successors (bbs ! i)). bb_index bbs s = Some j)}"

lemma bb_index_less: "bb_index bbs va = Some j \<Longrightarrow> j < length bbs"
  by (induction bbs arbitrary: j) (auto split: if_split_asm)

lemma edges_of_blocks: "edges_of (block_graph bbs) = block_edges bbs"
proof -
  have "w \<in> set (concat (map (\<lambda>s. case bb_index bbs s of None \<Rightarrow> [] | Some j \<Rightarrow> if j = v then [] else [j]) ss)) \<longleftrightarrow>
      v \<noteq> w \<and> (\<exists>s\<in>set ss. bb_index bbs s = Some w)" for v w ss
    by (induction ss) (auto split: option.split)
  then show ?thesis by (auto simp: edges_of_def block_graph_def block_edges_def)
qed

lemma length_block_graph: "length (concat (block_graph bbs)) \<le> length (concat (map bb_successors bbs))"
proof -
  have "length (concat (map (\<lambda>s. case bb_index bbs s of None \<Rightarrow> [] | Some j \<Rightarrow> if j = i then [] else [j]) ss)) \<le> length ss" for i ss
    by (induction ss) (auto split: option.split)
  then have "sum_list (map length (block_graph bbs)) \<le> sum_list (map (\<lambda>i. length (bb_successors (bbs ! i))) [0..<length bbs])"
    unfolding block_graph_def map_map comp_def by (intro sum_list_mono) simp
  also have "map (\<lambda>i. length (bb_successors (bbs ! i))) [0..<length bbs] = map length (map bb_successors bbs)"
    by (intro nth_equalityI) simp_all
  finally show ?thesis by (simp only: length_concat)
qed

lemma block_graph_ok:
  assumes "length (concat (map bb_successors bbs)) < 2 ^ 64"
  shows "succ_ok (block_graph bbs)"
  using length_block_graph [of bbs] assms bb_index_less [of bbs]
  by (fastforce simp: succ_ok_def block_graph_def split: option.splits if_splits)

lemma extract_loop_total:
  assumes "length (concat (map bb_successors (fn_basic_blocks fn))) < 2 ^ 64"
  shows "extract_loop fn =
     Some (if acyclic (block_edges (fn_basic_blocks fn)) then None else Some (make_characteristic ''loop'' (fn_va fn)))"
proof (cases "length (fn_basic_blocks fn) < 2")
  case True
  have "block_edges (fn_basic_blocks fn) = {}"
  proof (rule equals0I)
    fix e assume "e \<in> block_edges (fn_basic_blocks fn)"
    then obtain i j where "i < length (fn_basic_blocks fn)" "i \<noteq> j" "j < length (fn_basic_blocks fn)"
      by (auto simp: block_edges_def dest: bb_index_less)
    then show False using True by simp
  qed
  then have "acyclic (block_edges (fn_basic_blocks fn))" by (simp add: acyclic_def)
  then show ?thesis using True by (simp add: extract_loop_def)
next
  case False
  then show ?thesis
    using has_cycle_exact [OF block_graph_ok [OF assms]] by (simp add: extract_loop_def edges_of_blocks)
qed

section \<open>Capped reads\<close>

lemma bisect_finds:
  assumes "lo < hi" "\<not> ok hi" "lo = 0 \<or> ok lo"
  shows "bisect ok lo hi < hi \<and> \<not> ok (bisect ok lo hi + 1) \<and> (bisect ok lo hi = 0 \<or> ok (bisect ok lo hi))"
  using assms
proof (induction ok lo hi rule: bisect.induct)
  case (1 ok lo hi)
  show ?case
  proof (cases "hi - lo > 1")
    case True
    define mid where "mid = lo + (hi - lo) div 2"
    have m: "lo < mid" "mid < hi" using True by (auto simp: mid_def)
    have u: "bisect ok lo hi = (if ok mid then bisect ok mid hi else bisect ok lo mid)"
      using True by (subst bisect.simps) (simp add: mid_def)
    show ?thesis
    proof (cases "ok mid")
      case True
      then show ?thesis using "1.IH"(1) [OF \<open>hi - lo > 1\<close> mid_def True] "1.prems" m u by simp
    next
      case False
      then show ?thesis using "1.IH"(2) [OF \<open>hi - lo > 1\<close> mid_def False] "1.prems" m u by auto
    qed
  next
    case False
    then have "hi = lo + 1" using "1.prems"(1) by simp
    then show ?thesis using False "1.prems" by (subst (1 2 3 4) bisect.simps) simp
  qed
qed

lemma read_ok_iff:
  "read_ok img rva n \<longleftrightarrow>
     (\<exists>off. rva_to_file_offset img rva = Some off \<and> off \<le> length (img_buffer img) \<and> n \<le> length (img_buffer img) - off)"
  by (auto simp: read_ok_def read_at_rva_def read_at_file_offset_def split: option.splits sum.splits if_split_asm)

lemma read_at_rva_ok:
  "read_ok img rva n \<Longrightarrow> rva_to_file_offset img rva = Some off \<Longrightarrow> read_at_rva img rva n = Inr (take n (drop off (img_buffer img)))"
  by (auto simp: read_ok_iff read_at_rva_def read_at_file_offset_def)

lemma read_at_rva_not_ok: "\<not> read_ok img rva n \<Longrightarrow> \<exists>e. read_at_rva img rva n = Inl e"
  by (auto simp: read_ok_def split: sum.splits)

text \<open>A read with its halving search: the bytes up to the end of the file, at most the cap.\<close>

definition halving_read :: "pe_image \<Rightarrow> u64 \<Rightarrow> nat \<Rightarrow> u8 list" where
  "halving_read img rva cap =
     (case read_at_rva img rva cap of
        Inr bs \<Rightarrow> bs
      | Inl _ \<Rightarrow>
          let lo = bisect (read_ok img rva) 0 cap in if lo = 0 then [] else bytes_or_nil (read_at_rva img rva lo))"

lemma halving_read_exact:
  assumes "0 < cap"
  shows "halving_read img rva cap =
     (case rva_to_file_offset img rva of None \<Rightarrow> [] | Some off \<Rightarrow> take cap (drop off (img_buffer img)))"
proof (cases "read_ok img rva cap")
  case True
  then obtain off where off: "rva_to_file_offset img rva = Some off" by (auto simp: read_ok_iff)
  then show ?thesis using read_at_rva_ok [OF True off] by (simp add: halving_read_def)
next
  case no: False
  let ?lo = "bisect (read_ok img rva) 0 cap"
  have lo: "?lo < cap" "\<not> read_ok img rva (?lo + 1)" "?lo = 0 \<or> read_ok img rva ?lo"
    using bisect_finds [of 0 cap "read_ok img rva"] assms no by auto
  have r: "halving_read img rva cap = (if ?lo = 0 then [] else bytes_or_nil (read_at_rva img rva ?lo))"
    using read_at_rva_not_ok [OF no] by (auto simp: halving_read_def Let_def)
  show ?thesis
  proof (cases "rva_to_file_offset img rva")
    case None
    then have "?lo = 0" using lo(3) by (auto simp: read_ok_iff)
    then show ?thesis using r None by simp
  next
    case (Some off)
    show ?thesis
    proof (cases "?lo = 0")
      case True
      then have "length (img_buffer img) \<le> off" using lo(2) Some by (auto simp: read_ok_iff)
      then show ?thesis using r True Some by simp
    next
      case False
      then have ok: "read_ok img rva ?lo" using lo(3) by simp
      then have "?lo = length (img_buffer img) - off" using lo(2) Some by (auto simp: read_ok_iff)
      then show ?thesis using r False read_at_rva_ok [OF ok Some] Some lo(1) by (simp add: bytes_or_nil_def)
    qed
  qed
qed

lemma capped_read:
  "read_bytes_capped img va cap =
     (if va = 0 \<or> va < img_image_base img then []
      else case rva_to_file_offset img (va - img_image_base img) of
        None \<Rightarrow> [] | Some off \<Rightarrow> take cap (drop off (img_buffer img)))"
proof (cases "va = 0 \<or> cap = 0 \<or> va < img_image_base img")
  case True
  then show ?thesis by (auto simp: read_bytes_capped_def split: option.split)
next
  case False
  then have "read_bytes_capped img va cap = halving_read img (va - img_image_base img) cap"
    by (simp add: read_bytes_capped_def halving_read_def Let_def)
  then show ?thesis using False halving_read_exact [of cap] by simp
qed

section \<open>Stack strings\<close>

definition store_width :: "decoded_insn \<Rightarrow> nat" where
  "store_width ins = (let src = operand ins 1 in if do_width_bytes src \<noteq> 0 then do_width_bytes src else kDefaultStoreWidth)"

text \<open>A store of printable bytes only.\<close>

definition printable_store :: "zydis \<Rightarrow> bool \<Rightarrow> decoded_insn \<Rightarrow> bool" where
  "printable_store zy is_64bit ins \<longleftrightarrow>
     is_stack_store zy is_64bit ins \<and>
     (\<forall>i < store_width ins. is_ascii_printable (ucast (drop_bit (8 * i) (do_imm (operand ins 1)) AND 0xFF)))"

lemma leading_printable_le: "leading_printable_bytes imm w left \<le> left"
  by (induction left) auto

lemma leading_printable_all:
  "leading_printable_bytes imm w left = left \<longleftrightarrow>
     (\<forall>i. w - left \<le> i \<and> i < w \<longrightarrow> is_ascii_printable (ucast (drop_bit (8 * i) imm AND 0xFF)))" if "left \<le> w"
  using that
proof (induction left)
  case (Suc left)
  let ?p = "\<lambda>i. is_ascii_printable (ucast (drop_bit (8 * i) imm AND 0xFF))"
  have "(\<forall>i. w - Suc left \<le> i \<and> i < w \<longrightarrow> ?p i) \<longleftrightarrow> ?p (w - Suc left) \<and> (\<forall>i. w - left \<le> i \<and> i < w \<longrightarrow> ?p i)"
    using Suc.prems by (auto simp: Suc_le_eq dest!: le_neq_implies_less)
  then show ?case using Suc leading_printable_le [of imm w left] by (simp add: leading_printable_bytes.simps(2))
qed auto

definition run_of_stores :: "zydis \<Rightarrow> bool \<Rightarrow> decoded_insn list \<Rightarrow> bool" where
  "run_of_stores zy is_64bit seg \<longleftrightarrow>
     (\<forall>ins\<in>set seg. printable_store zy is_64bit ins) \<and> kMinStackStringLen \<le> sum_list (map store_width seg)"

text \<open>The list starts with printable stores that bring \<open>run\<close> to a string.\<close>

fun front_run :: "zydis \<Rightarrow> bool \<Rightarrow> nat \<Rightarrow> decoded_insn list \<Rightarrow> bool" where
  "front_run zy b run insns \<longleftrightarrow>
     kMinStackStringLen \<le> run \<or>
     (case insns of [] \<Rightarrow> False | ins # insns' \<Rightarrow> printable_store zy b ins \<and> front_run zy b (run + store_width ins) insns')"

fun some_run :: "zydis \<Rightarrow> bool \<Rightarrow> decoded_insn list \<Rightarrow> bool" where
  "some_run zy b [] \<longleftrightarrow> False"
| "some_run zy b (ins # insns) \<longleftrightarrow> front_run zy b 0 (ins # insns) \<or> some_run zy b insns"

declare front_run.simps [simp del]

lemma front_run_mono: "front_run zy b run insns \<Longrightarrow> run \<le> run' \<Longrightarrow> front_run zy b run' insns"
proof (induction insns arbitrary: run run')
  case Nil
  then show ?case by (auto simp: front_run.simps [of zy b _ "[]"])
next
  case (Cons i insns)
  then show ?case
    using Cons.IH [of "run + store_width i" "run' + store_width i"]
    by (auto simp: front_run.simps [of zy b _ "i # insns"])
qed

lemma front_run_zero: "front_run zy b 0 insns \<Longrightarrow> some_run zy b insns"
  by (cases insns) (simp_all add: front_run.simps [of zy b 0 "[]"] kMinStackStringLen_def)

lemma stack_string_step:
  assumes "store_width ins \<le> 8"
  shows "stack_string_loop zy b (ins # insns) run anchor =
     (if printable_store zy b ins then
        if kMinStackStringLen \<le> run + store_width ins then Some (if run = 0 then di_va ins else anchor)
        else stack_string_loop zy b insns (run + store_width ins) (if run = 0 then di_va ins else anchor)
      else stack_string_loop zy b insns 0 (if is_stack_store zy b ins then di_va ins else next_va ins))"
proof -
  let ?w = "store_width ins" and ?imm = "do_imm (operand ins 1)"
  have p: "printable_store zy b ins \<longleftrightarrow> is_stack_store zy b ins \<and> leading_printable_bytes ?imm ?w ?w = ?w"
    using leading_printable_all [of ?w ?w ?imm] by (auto simp: printable_store_def)
  have l: "stack_string_loop zy b (ins # insns) run anchor =
      (if \<not> is_stack_store zy b ins then stack_string_loop zy b insns 0 (next_va ins)
       else if leading_printable_bytes ?imm ?w ?w < ?w then
         if kMinStackStringLen \<le> leading_printable_bytes ?imm ?w ?w then Some (di_va ins)
         else stack_string_loop zy b insns 0 (di_va ins)
       else if kMinStackStringLen \<le> run + leading_printable_bytes ?imm ?w ?w then Some (if run = 0 then di_va ins else anchor)
       else stack_string_loop zy b insns (run + leading_printable_bytes ?imm ?w ?w) (if run = 0 then di_va ins else anchor))"
    by (simp add: store_width_def Let_def)
  have "leading_printable_bytes ?imm ?w ?w \<noteq> ?w \<Longrightarrow> leading_printable_bytes ?imm ?w ?w < ?w"
    using leading_printable_le [of ?imm ?w ?w] by simp
  then have small: "leading_printable_bytes ?imm ?w ?w \<noteq> ?w \<Longrightarrow> \<not> kMinStackStringLen \<le> leading_printable_bytes ?imm ?w ?w"
    using assms by (simp add: kMinStackStringLen_def)
  show ?thesis
  proof (cases "leading_printable_bytes ?imm ?w ?w = ?w")
    case True
    then show ?thesis unfolding l p by simp
  next
    case False
    then show ?thesis unfolding l p using small leading_printable_le [of ?imm ?w ?w] by simp
  qed
qed

declare stack_string_loop.simps(2) [simp del]

lemma stack_string_loop_iff:
  assumes "\<forall>ins\<in>set insns. store_width ins \<le> 8" "run < kMinStackStringLen"
  shows "stack_string_loop zy b insns run anchor \<noteq> None \<longleftrightarrow> front_run zy b run insns \<or> some_run zy b insns"
  using assms
proof (induction insns arbitrary: run anchor)
  case Nil
  then show ?case by (simp add: front_run.simps)
next
  case (Cons ins insns)
  have w: "store_width ins \<le> 8" using Cons.prems(1) by simp
  have f: "front_run zy b r (ins # insns) \<longleftrightarrow> kMinStackStringLen \<le> r \<or> printable_store zy b ins \<and> front_run zy b (r + store_width ins) insns" for r
    by (simp add: front_run.simps [of zy b r "ins # insns"])
  have k0: "0 < kMinStackStringLen" by (simp add: kMinStackStringLen_def)
  have ih: "r < kMinStackStringLen \<Longrightarrow> stack_string_loop zy b insns r a \<noteq> None \<longleftrightarrow> front_run zy b r insns \<or> some_run zy b insns" for r a
    using Cons.IH Cons.prems(1) by simp
  show ?case
  proof (cases "printable_store zy b ins")
    case False
    then show ?thesis
      using ih [OF k0] front_run_zero Cons.prems(2) f by (auto simp: stack_string_step [OF w])
  next
    case True
    show ?thesis
    proof (cases "kMinStackStringLen \<le> run + store_width ins")
      case True
      then have "front_run zy b (run + store_width ins) insns" by (simp add: front_run.simps)
      then show ?thesis using True \<open>printable_store zy b ins\<close> f [of run] by (simp add: stack_string_step [OF w])
    next
      case False
      have "front_run zy b (0 + store_width ins) insns \<Longrightarrow> front_run zy b (run + store_width ins) insns"
        using front_run_mono [of zy b "0 + store_width ins" insns "run + store_width ins"] by simp
      then show ?thesis
        using False \<open>printable_store zy b ins\<close> ih [of "run + store_width ins"] f [of run] f [of 0] k0 Cons.prems(2)
        by (auto simp: stack_string_step [OF w])
    qed
  qed
qed

lemma front_run_iff:
  "front_run zy b run insns \<longleftrightarrow>
     (\<exists>seg post. insns = seg @ post \<and> (\<forall>ins\<in>set seg. printable_store zy b ins) \<and>
        kMinStackStringLen \<le> run + sum_list (map store_width seg))"
proof (induction insns arbitrary: run)
  case Nil
  then show ?case by (auto simp: front_run.simps)
next
  case (Cons i insns)
  show ?case (is "_ \<longleftrightarrow> ?rhs")
  proof
    assume "front_run zy b run (i # insns)"
    then consider "kMinStackStringLen \<le> run" | "printable_store zy b i" "front_run zy b (run + store_width i) insns"
      by (auto simp: front_run.simps [of zy b run "i # insns"])
    then show ?rhs
    proof cases
      case 1
      then show ?thesis by (intro exI [of _ "[]"] exI [of _ "i # insns"]) simp
    next
      case 2
      then obtain seg post where "insns = seg @ post" "\<forall>ins\<in>set seg. printable_store zy b ins"
        "kMinStackStringLen \<le> run + store_width i + sum_list (map store_width seg)" using Cons.IH by blast
      then show ?thesis using 2 by (intro exI [of _ "i # seg"] exI [of _ post]) (simp add: add.assoc)
    qed
  next
    assume ?rhs
    then obtain seg post where s: "i # insns = seg @ post" "\<forall>ins\<in>set seg. printable_store zy b ins"
      "kMinStackStringLen \<le> run + sum_list (map store_width seg)" by blast
    show "front_run zy b run (i # insns)"
    proof (cases seg)
      case Nil
      then have "kMinStackStringLen \<le> run" using s(3) by simp
      then show ?thesis by (simp add: front_run.simps [of zy b run "i # insns"])
    next
      case seg: (Cons j seg')
      then have "insns = seg' @ post \<and> (\<forall>ins\<in>set seg'. printable_store zy b ins) \<and>
          kMinStackStringLen \<le> run + store_width i + sum_list (map store_width seg')"
        using s by (simp add: add.assoc)
      then have "front_run zy b (run + store_width i) insns" using Cons.IH by blast
      moreover have "printable_store zy b i" using s seg by simp
      ultimately show ?thesis by (simp add: front_run.simps [of zy b run "i # insns"])
    qed
  qed
qed

lemma some_run_iff: "some_run zy b insns \<longleftrightarrow> (\<exists>pre seg post. insns = pre @ seg @ post \<and> run_of_stores zy b seg)"
proof (induction insns)
  case Nil
  then show ?case by (simp add: run_of_stores_def kMinStackStringLen_def)
next
  case (Cons i insns)
  show ?case (is "_ \<longleftrightarrow> ?rhs")
  proof
    assume "some_run zy b (i # insns)"
    then show ?rhs
      unfolding some_run.simps front_run_iff Cons.IH
      by (metis append_Cons append_Nil run_of_stores_def add_0)
  next
    assume ?rhs
    then obtain pre seg post where s: "i # insns = pre @ seg @ post" "run_of_stores zy b seg" by blast
    show "some_run zy b (i # insns)"
    proof (cases pre)
      case Nil
      then show ?thesis using s unfolding some_run.simps front_run_iff by (auto simp: run_of_stores_def)
    next
      case (Cons p pre')
      then show ?thesis using s Cons.IH by auto
    qed
  qed
qed

lemma stack_string_found:
  assumes "\<forall>ins\<in>set (bb_instructions bb). store_width ins \<le> 8"
  shows "extract_stack_string zy bb b \<noteq> None \<longleftrightarrow>
     (\<exists>pre seg post. bb_instructions bb = pre @ seg @ post \<and> run_of_stores zy b seg)"
proof -
  have "extract_stack_string zy bb b \<noteq> None \<longleftrightarrow> front_run zy b 0 (bb_instructions bb) \<or> some_run zy b (bb_instructions bb)"
    using stack_string_loop_iff [OF assms, of 0 zy b "bb_va bb"] by (simp add: extract_stack_string_def kMinStackStringLen_def)
  then show ?thesis using front_run_zero [of zy b "bb_instructions bb"] some_run_iff [of zy b "bb_instructions bb"] by blast
qed

section \<open>Properties\<close>

text \<open>
  C30: A function has the loop feature exactly when the edges between its blocks have a cycle,
  a block's edges to itself aside; the peeling that decides it ends, though its counters are of 64 bits.
\<close>

theorem loop_feature_exact:
  assumes "length (concat (map bb_successors (fn_basic_blocks fn))) < 2 ^ 64"
  shows "extract_loop fn =
     Some (if acyclic (block_edges (fn_basic_blocks fn)) then None else Some (make_characteristic ''loop'' (fn_va fn)))"
  using assms by (rule extract_loop_total)

definition two_blocks :: cfg_function where
  "two_blocks =
     \<lparr>fn_va = 0x1000, fn_basic_blocks =
        [\<lparr>bb_va = 0x1000, bb_instructions = [], bb_successors = [0x1010], bb_predecessors = [0x1010]\<rparr>,
         \<lparr>bb_va = 0x1010, bb_instructions = [], bb_successors = [0x1000], bb_predecessors = [0x1000]\<rparr>],
      fn_callers = [], fn_callees = []\<rparr>"

lemma loop_feature_exact_witness: "extract_loop two_blocks = Some (Some (make_characteristic ''loop'' 0x1000))"
proof -
  have "(0, Suc 0) \<in> block_edges (fn_basic_blocks two_blocks)" "(Suc 0, 0) \<in> block_edges (fn_basic_blocks two_blocks)"
    by (simp_all add: block_edges_def two_blocks_def)
  then have "(0, 0) \<in> (block_edges (fn_basic_blocks two_blocks))\<^sup>+" by (meson trancl.intros)
  then have c: "\<not> acyclic (block_edges (fn_basic_blocks two_blocks))" by (auto simp: acyclic_def)
  have "length (concat (map bb_successors (fn_basic_blocks two_blocks))) < 2 ^ 64" by (simp add: two_blocks_def)
  from loop_feature_exact [OF this] c have "extract_loop two_blocks = Some (Some (make_characteristic ''loop'' (fn_va two_blocks)))"
    by simp
  then show ?thesis by (simp add: two_blocks_def)
qed

text \<open>
  A capped read, with its halving search, gives the bytes from the address to the end of the
  file, at most as many as the cap, and none for an address outside of the image.
\<close>

theorem capped_read_exact:
  "read_bytes_capped img va cap =
     (if va = 0 \<or> va < img_image_base img then []
      else case rva_to_file_offset img (va - img_image_base img) of
        None \<Rightarrow> [] | Some off \<Rightarrow> take cap (drop off (img_buffer img)))"
  by (rule capped_read)

text \<open>A decoder that knows no instruction, and gives each register as its own enclosing one.\<close>

definition blank_zydis :: zydis where
  "blank_zydis = \<lparr>zy_enclosing = (\<lambda>_ r. r), zy_width = (\<lambda>_ _. 0), zy_decode = (\<lambda>_ _. None)\<rparr>"

text \<open>
  C31: A block has a stack string exactly when consecutive stores of immediates to the stack, each
  of printable bytes only, bring at least the minimum number of bytes.
\<close>

theorem stack_string_exact:
  assumes "\<forall>ins\<in>set (bb_instructions bb). store_width ins \<le> 8"
  shows "extract_stack_string zy bb b \<noteq> None \<longleftrightarrow>
     (\<exists>pre seg post. bb_instructions bb = pre @ seg @ post \<and> run_of_stores zy b seg)"
  using assms by (rule stack_string_found)

definition stack_store :: "u64 \<Rightarrow> u64 \<Rightarrow> decoded_insn" where
  "stack_store va imm = plain_insn va 7 (ZM_Data MOV)
     [default_operand\<lparr>do_kind := kRegMem, do_base_reg := ZR_32 RBP, do_width_bytes := 4\<rparr>,
      default_operand\<lparr>do_kind := kImm, do_imm := imm, do_width_bytes := 4\<rparr>]"

definition spelled_block :: basic_block where
  "spelled_block = \<lparr>bb_va = 0x1000, bb_instructions = [int3_insn, stack_store 0x1001 0x64636261, stack_store 0x1008 0x68676665],
     bb_successors = [], bb_predecessors = []\<rparr>"

lemma stack_string_exact_witness: "extract_stack_string blank_zydis spelled_block False \<noteq> None"
proof -
  have w: "\<forall>ins\<in>set (bb_instructions spelled_block). store_width ins \<le> 8"
    by (simp add: spelled_block_def stack_store_def store_width_def plain_insn_def operand_def int3_insn_def
        default_operand_def kDefaultStoreWidth_def)
  have four: "(\<forall>i < 4. P i) \<longleftrightarrow> P 0 \<and> P 1 \<and> P 2 \<and> P (3 :: nat)" for P
    by (auto simp: numeral_eq_Suc less_Suc_eq)
  have p: "printable_store blank_zydis False (stack_store va imm)" if "imm = 0x64636261 \<or> imm = 0x68676665" for va imm
    using that
    by (auto simp: printable_store_def stack_store_def store_width_def plain_insn_def operand_def default_operand_def
        is_stack_store_def is_stack_reg_def blank_zydis_def four is_ascii_printable_def drop_bit_eq_div)
  have "run_of_stores blank_zydis False [stack_store 0x1001 0x64636261, stack_store 0x1008 0x68676665]"
    using p by (simp add: run_of_stores_def kMinStackStringLen_def) (simp add: store_width_def stack_store_def plain_insn_def operand_def)
  then show ?thesis
    using stack_string_exact [OF w, of blank_zydis False]
    by (metis append_Cons append_Nil append_Nil2 spelled_block_def basic_block.select_convs(2))
qed

end
