(* ===== verification/Api_Correct.thy ===== *)
theory Api_Correct
  imports Native_Correct File_Correct
begin

text \<open>
  What the API features of an instruction are: the spellings of the import that it calls, through a
  slot of the import table, a chain of thunks or a register, each said without the searches of
  imports.cpp and indirect_calls.cpp.
\<close>

section \<open>The import of a slot\<close>






section \<open>Thunks\<close>












section \<open>Writes to a register\<close>

text \<open>An instruction that writes all of the register.\<close>

definition writes :: "zydis \<Rightarrow> bool \<Rightarrow> zydis_register \<Rightarrow> decoded_insn \<Rightarrow> bool" where
  "writes zy b r ins \<longleftrightarrow>
     di_operand_count ins \<noteq> 0 \<and> do_kind (operand ins 0) = kReg \<and>
     di_zyd_mnem ins \<in> {ZM_Data MOV, ZM_Data LEA, ZM_Data POP, ZM_Arith LXOR} \<and>
     r \<noteq> ZR_NONE \<and> do_base_reg (operand ins 0) \<noteq> ZR_NONE \<and>
     zy_enclosing zy b (do_base_reg (operand ins 0)) = zy_enclosing zy b r \<and>
     zy_width zy b r \<le> zy_width zy b (do_base_reg (operand ins 0))"




text \<open>The last write of a stretch of instructions.\<close>

definition last_write :: "zydis \<Rightarrow> bool \<Rightarrow> zydis_register \<Rightarrow> decoded_insn list \<Rightarrow> decoded_insn \<Rightarrow> bool" where
  "last_write zy b r insns ins \<longleftrightarrow>
     (\<exists>pre post. insns = pre @ ins # post \<and> writes zy b r ins \<and> (\<forall>j\<in>set post. \<not> writes zy b r j))"

lemma last_write_snoc:
  "last_write zy b r (insns @ [j]) ins \<longleftrightarrow> writes zy b r j \<and> ins = j \<or> \<not> writes zy b r j \<and> last_write zy b r insns ins"
proof
  assume "last_write zy b r (insns @ [j]) ins"
  then obtain pre post where "insns @ [j] = pre @ ins # post" "writes zy b r ins" "\<forall>j\<in>set post. \<not> writes zy b r j"
    by (auto simp: last_write_def)
  then show "writes zy b r j \<and> ins = j \<or> \<not> writes zy b r j \<and> last_write zy b r insns ins"
    by (cases post rule: rev_cases) (auto simp: last_write_def)
next
  assume "writes zy b r j \<and> ins = j \<or> \<not> writes zy b r j \<and> last_write zy b r insns ins"
  then show "last_write zy b r (insns @ [j]) ins"
  proof
    assume "writes zy b r j \<and> ins = j"
    then show ?thesis unfolding last_write_def by (intro exI [of _ insns] exI [of _ "[]"]) simp
  next
    assume "\<not> writes zy b r j \<and> last_write zy b r insns ins"
    then obtain pre post where "insns = pre @ ins # post" "writes zy b r ins" "\<forall>j\<in>set (post @ [j]). \<not> writes zy b r j"
      by (auto simp: last_write_def)
    then show ?thesis unfolding last_write_def by (intro exI [of _ pre] exI [of _ "post @ [j]"]) simp
  qed
qed


definition clear :: "zydis \<Rightarrow> bool \<Rightarrow> zydis_register \<Rightarrow> decoded_insn list \<Rightarrow> bool" where
  "clear zy b r insns \<longleftrightarrow> (\<forall>j\<in>set insns. \<not> writes zy b r j)"

lemma clear_snoc: "clear zy b r (insns @ [j]) \<longleftrightarrow> clear zy b r insns \<and> \<not> writes zy b r j"
  by (auto simp: clear_def)


lemma not_clear_last: "\<not> clear zy b r insns \<Longrightarrow> \<exists>ins. last_write zy b r insns ins"
proof (induction insns rule: rev_induct)
  case (snoc j insns)
  then show ?case by (cases "writes zy b r j") (auto simp: last_write_snoc clear_snoc)
qed (simp add: clear_def)


section \<open>The writes that reach a call\<close>




section \<open>The search over the predecessors\<close>



















section \<open>The register of a call\<close>










section \<open>API features\<close>





























end
