(* ===== verification/Code_Flow.thy ===== *)
theory Code_Flow
  imports Codeblocks Native_Cfg
begin

text \<open>
  The code flow of the discovery engine (cf_context.cpp) and its driver (discovery.cpp), under
  src/features/extractors/papa_native/viv/.  The two share one state, since the callbacks of the
  flow are the operations of the driver.
\<close>

section \<open>Branches\<close>

record cf_branch =
  cfb_target :: "u64 option"
  cfb_flags :: u16

definition code_branches :: "decoded_insn \<Rightarrow> cf_branch list" where
  "code_branches op =
     (if di_is_return op then []
      else
        let flags = (if di_is_conditional op then kCfCond else 0) in
        (if di_is_fallthrough op then [\<lparr>cfb_target = Some (next_va op), cfb_flags = flags OR kCfFall\<rparr>] else []) @
        (if di_is_call op \<and> di_branch_target op \<noteq> None
         then [\<lparr>cfb_target = di_branch_target op, cfb_flags = flags OR kCfProc\<rparr>]
         else if di_is_jump op \<and> di_branch_target op \<noteq> None
         then [\<lparr>cfb_target = di_branch_target op, cfb_flags = flags\<rparr>]
         else if di_is_jump op \<and> di_branch_target op = None
         then [\<lparr>cfb_target = None, cfb_flags = flags OR kCfDeref\<rparr>]
         else []))"

definition is_jump_table_candidate :: "decoded_insn \<Rightarrow> bool" where
  "is_jump_table_candidate op \<longleftrightarrow>
     di_is_jump op \<and> \<not> di_is_conditional op \<and> di_branch_target op = None \<and> di_operand_count op > 0 \<and>
     (do_kind (operand op 0) = kReg \<or> do_kind (operand op 0) = kSib)"

definition push_unique :: "u64 list \<Rightarrow> u64 \<Rightarrow> u64 list" where
  "push_unique xs v = (if v \<in> set xs then xs else xs @ [v])"

definition kMaxDescentDepth :: nat where "kMaxDescentDepth = 512"
definition kMaxInsnsPerFunction :: nat where "kMaxInsnsPerFunction = 2 ^ 20"
definition kMaxFunctionsPerImage :: nat where "kMaxFunctionsPerImage = 2 ^ 18"
definition kMaxWindow :: nat where "kMaxWindow = 4096"

section \<open>The state\<close>

text \<open>
  The members of the driver (\<open>dv_\<close>) and of its flow context (\<open>cf_\<close>), with the state \<open>'f\<close> of the
  FLIRT analyzer.
\<close>

record 'f discovery =
  dv_locations :: location_db
  dv_xrefs :: xref_db
  dv_blocks :: block_store
  dv_no_fall :: "u64 set"
  dv_analyzed :: "u64 set"
  dv_no_return :: "u64 set"
  dv_entries :: "u64 list"
  cf_noflow :: "(u64 \<times> u64) set"
  cf_functions :: "u64 set"
  cf_reported :: "u64 set"
  cf_path :: "u64 list"
  cf_waits :: "u64 \<rightharpoonup> u64 set"
  cf_awaited :: "u64 \<rightharpoonup> u64 set"
  cf_held :: "u64 set"
  cf_blocked :: "u64 list"
  dv_flirt :: 'f

definition new_discovery :: "'f \<Rightarrow> 'f discovery" where
  "new_discovery f =
     \<lparr>dv_locations = [], dv_xrefs = empty_xrefs, dv_blocks = empty_store, dv_no_fall = {}, dv_analyzed = {},
      dv_no_return = {}, dv_entries = [], cf_noflow = {}, cf_functions = {}, cf_reported = {}, cf_path = [],
      cf_waits = Map.empty, cf_awaited = Map.empty, cf_held = {}, cf_blocked = [], dv_flirt = f\<rparr>"

text \<open>
  The FLIRT analyzer runs as the last step of the analysis of a function and may make functions
  itself: what it does is a script, each step of which gives its state and the function to make,
  and goes on from the state after that.
\<close>

datatype 'f script = F_Done 'f | F_Make u64 'f "'f discovery \<Rightarrow> 'f script"

text \<open>The callbacks of the driver, and the order in which an unordered set is gone through.\<close>

record 'f cf_env =
  ce_read :: "u64 \<Rightarrow> decoded_insn option"
  ce_exec :: "u64 \<Rightarrow> bool"
  ce_jump_table :: "decoded_insn list \<Rightarrow> jump_table_targets option"
  ce_probably_code :: "u64 \<Rightarrow> bool"
  ce_read_ptr :: "u64 \<Rightarrow> u64 option"
  ce_ptr_size :: u64
  ce_api_no_return :: "decoded_insn \<Rightarrow> bool"
  ce_fmod :: "'f discovery \<Rightarrow> u64 \<Rightarrow> 'f script"
  ce_order :: "u64 set \<Rightarrow> u64 list"

section \<open>The operations of the driver\<close>

definition is_defined :: "'f discovery \<Rightarrow> u64 \<Rightarrow> bool" where
  "is_defined st va \<longleftrightarrow> get_location (dv_locations st) va \<noteq> None"

definition is_function :: "'f discovery \<Rightarrow> u64 \<Rightarrow> bool" where
  "is_function st va \<longleftrightarrow> va \<in> dv_analyzed st"

definition is_no_return_call :: "'f cf_env \<Rightarrow> 'f discovery \<Rightarrow> decoded_insn \<Rightarrow> bool" where
  "is_no_return_call e st op \<longleftrightarrow>
     ce_api_no_return e op \<or>
     di_is_call op \<and> (case di_branch_target op of None \<Rightarrow> False | Some t \<Rightarrow> t \<in> dv_no_return st)"

definition add_branch_xref :: "u64 \<Rightarrow> cf_branch \<Rightarrow> xref_db \<Rightarrow> xref_db" where
  "add_branch_xref va br db =
     (case cfb_target br of
        None \<Rightarrow> db
      | Some t \<Rightarrow> if cfb_flags br AND kCfFall = 0 then add_code_xref va t (cfb_flags br) db else db)"

definition on_opcode :: "u64 \<Rightarrow> decoded_insn \<Rightarrow> cf_branch list \<Rightarrow> 'f discovery \<Rightarrow> 'f discovery" where
  "on_opcode va op branches st =
     st\<lparr>dv_locations := add_location va (of_nat (di_length op)) LOC_Op (dv_locations st),
        dv_no_fall := (if di_is_fallthrough op then dv_no_fall st else insert va (dv_no_fall st)),
        dv_xrefs := fold (add_branch_xref va) branches (dv_xrefs st)\<rparr>"

definition on_branch_table :: "u64 \<Rightarrow> u64 \<Rightarrow> 'f discovery \<Rightarrow> 'f discovery" where
  "on_branch_table from_va case_va st = st\<lparr>dv_xrefs := add_code_xref from_va case_va kCfCond (dv_xrefs st)\<rparr>"

text \<open>The instructions of a block, decoded from its range; \<open>None\<close> is a walk that does not end.\<close>

partial_function (option) block_insns ::
    "(u64 \<Rightarrow> decoded_insn option) \<Rightarrow> u64 \<Rightarrow> u64 \<Rightarrow> decoded_insn list \<Rightarrow> decoded_insn list option" where
  "block_insns read va stop acc =
     (if \<not> va < stop then Some acc
      else case read va of
        None \<Rightarrow> Some acc
      | Some op \<Rightarrow>
          if di_length op = 0 then Some (acc @ [op])
          else block_insns read (va + of_nat (di_length op)) stop (acc @ [op]))"

definition block_successors :: "xref_db \<Rightarrow> u64 set \<Rightarrow> decoded_insn list \<Rightarrow> u64 list" where
  "block_successors db starts insns =
     (if insns = [] then []
      else
        let term = last insns in
        filter (\<lambda>t. t \<in> starts)
          (map cx_to (filter (\<lambda>x. cx_flags x AND (kCfProc OR kCfDeref) = 0) (code_xrefs_from db (di_va term)))) @
        (if di_is_fallthrough term \<and> next_va term \<in> starts then [next_va term] else []))"

fun materialize_blocks ::
    "(u64 \<Rightarrow> decoded_insn option) \<Rightarrow> xref_db \<Rightarrow> u64 set \<Rightarrow> code_block list \<Rightarrow> basic_block list option" where
  "materialize_blocks read db starts [] = Some []"
| "materialize_blocks read db starts (b # bs) =
     (case block_insns read (cb_va b) (cb_va b + cb_size b) [] of
        None \<Rightarrow> None
      | Some insns \<Rightarrow>
          map_option (\<lambda>bbs. \<lparr>bb_va = cb_va b, bb_instructions = insns,
              bb_successors = block_successors db starts insns, bb_predecessors = []\<rparr> # bbs)
            (materialize_blocks read db starts bs))"

definition materialize_function :: "'f cf_env \<Rightarrow> 'f discovery \<Rightarrow> u64 \<Rightarrow> cfg_function option" where
  "materialize_function e st fva =
     (let blocks = function_blocks (dv_blocks st) fva in
      map_option (\<lambda>bbs. \<lparr>fn_va = fva, fn_basic_blocks = bbs, fn_callers = [], fn_callees = []\<rparr>)
        (materialize_blocks (ce_read e) (dv_xrefs st) (cb_va ` set blocks) blocks))"

definition view_of :: "'f cf_env \<Rightarrow> 'f discovery \<Rightarrow> flow_view" where
  "view_of e st =
     \<lparr>fv_locations = dv_locations st, fv_xrefs = dv_xrefs st, fv_no_fall = (\<lambda>va. va \<in> dv_no_fall st),
      fv_can_parse = (\<lambda>va. ce_read e va \<noteq> None)\<rparr>"

definition begin_analysis :: "u64 \<Rightarrow> 'f discovery \<Rightarrow> 'f discovery" where
  "begin_analysis va st = st\<lparr>dv_analyzed := insert va (dv_analyzed st), dv_entries := dv_entries st @ [va]\<rparr>"

definition mark_no_return :: "u64 \<Rightarrow> bool \<Rightarrow> 'f discovery \<Rightarrow> 'f discovery" where
  "mark_no_return va b st = (if b then st\<lparr>dv_no_return := insert va (dv_no_return st)\<rparr> else st)"

text \<open>The analysis of a function that was not analyzed: its blocks, then whether it returns.\<close>

definition run_fmods :: "'f cf_env \<Rightarrow> u64 \<Rightarrow> 'f discovery \<Rightarrow> 'f discovery option" where
  "run_fmods e va st =
     (let st1 = begin_analysis va st in
      case analyze_function (view_of e st1) va (dv_blocks st1) of
        None \<Rightarrow> None
      | Some blocks \<Rightarrow>
          let st2 = st1\<lparr>dv_blocks := blocks\<rparr> in
          map_option (\<lambda>fn. mark_no_return va (function_is_noreturn fn (is_no_return_call e st2)) st2)
            (materialize_function e st2 va))"

section \<open>The flow\<close>

record flow_frame =
  ff_start :: u64
  ff_todo :: "u64 list"
  ff_visited :: "u64 set"
  ff_insns :: "(u64 \<times> decoded_insn) list"
  ff_data :: "(u64 \<times> u64) list"
  ff_targets :: "u64 list"

definition new_frame :: "u64 \<Rightarrow> flow_frame" where
  "new_frame va = \<lparr>ff_start = va, ff_todo = [va], ff_visited = {}, ff_insns = [], ff_data = [], ff_targets = []\<rparr>"

definition in_jt_data :: "flow_frame \<Rightarrow> u64 \<Rightarrow> bool" where
  "in_jt_data fr a \<longleftrightarrow> list_ex (\<lambda>(lo, hi). a \<ge> lo \<and> a < hi) (ff_data fr)"

definition window_ending_at :: "flow_frame \<Rightarrow> decoded_insn \<Rightarrow> decoded_insn list" where
  "window_ending_at fr op =
     (let before = sort_key (\<lambda>i. unat (di_va i)) (map snd (filter (\<lambda>(k, _). k < di_va op) (ff_insns fr)))
      in drop (length before - kMaxWindow) before @ [op])"

definition note_table :: "jump_table_targets \<Rightarrow> flow_frame \<Rightarrow> flow_frame" where
  "note_table jt fr =
     (if jt_table_size jt = 0 then fr
      else fr\<lparr>ff_data := ff_data fr @ [(jt_table_va jt, jt_table_va jt + jt_table_size jt)]\<rparr>)"

definition case_branch :: "u64 \<Rightarrow> cf_branch" where
  "case_branch va = \<lparr>cfb_target = Some va, cfb_flags = kCfCond\<rparr>"

text \<open>The changes of the flow to the shared state.\<close>

definition enter :: "u64 \<Rightarrow> 'f discovery \<Rightarrow> 'f discovery" where
  "enter va st = st\<lparr>cf_functions := insert va (cf_functions st), cf_path := cf_path st @ [va]\<rparr>"

definition leave :: "'f discovery \<Rightarrow> 'f discovery" where
  "leave st = st\<lparr>cf_path := butlast (cf_path st)\<rparr>"

definition hold :: "u64 \<Rightarrow> 'f discovery \<Rightarrow> 'f discovery" where
  "hold va st = st\<lparr>cf_held := insert va (cf_held st)\<rparr>"

definition suppress :: "u64 \<Rightarrow> u64 \<Rightarrow> 'f discovery \<Rightarrow> 'f discovery" where
  "suppress from_va to_va st = st\<lparr>cf_noflow := insert (from_va, to_va) (cf_noflow st)\<rparr>"

definition insert_at :: "u64 \<Rightarrow> u64 \<Rightarrow> (u64 \<rightharpoonup> u64 set) \<Rightarrow> (u64 \<rightharpoonup> u64 set)" where
  "insert_at k v m = m(k \<mapsto> insert v (case m k of None \<Rightarrow> {} | Some s \<Rightarrow> s))"

definition note_wait :: "u64 \<Rightarrow> u64 \<Rightarrow> 'f discovery \<Rightarrow> 'f discovery" where
  "note_wait waiter target st =
     st\<lparr>cf_waits := insert_at waiter target (cf_waits st), cf_awaited := insert_at target waiter (cf_awaited st)\<rparr>"

definition block_recursion :: "u64 \<Rightarrow> 'f discovery \<Rightarrow> 'f discovery" where
  "block_recursion va st = st\<lparr>cf_blocked := push_unique (cf_blocked st) va\<rparr>"

definition reopen :: "u64 \<Rightarrow> 'f discovery \<Rightarrow> 'f discovery" where
  "reopen va st = st\<lparr>cf_functions := cf_functions st - {va}, cf_blocked := remove1 va (cf_blocked st)\<rparr>"

definition mark_reported :: "u64 \<Rightarrow> 'f discovery \<Rightarrow> 'f discovery" where
  "mark_reported va st = st\<lparr>cf_reported := insert va (cf_reported st)\<rparr>"

text \<open>The waits on a function that is done: what is left of them, and the waiters that are freed.\<close>

fun release_waits :: "u64 \<Rightarrow> u64 list \<Rightarrow> (u64 \<rightharpoonup> u64 set) \<Rightarrow> (u64 \<rightharpoonup> u64 set) \<times> u64 list" where
  "release_waits va [] m = (m, [])"
| "release_waits va (w # ws) m =
     (case m w of
        None \<Rightarrow> release_waits va ws m
      | Some held \<Rightarrow>
          let (m', freed) = release_waits va ws (m(w \<mapsto> held - {va}))
          in (m', if held - {va} = {} then w # freed else freed))"

definition drop_waits :: "u64 \<Rightarrow> (u64 \<rightharpoonup> u64 set) \<Rightarrow> 'f discovery \<Rightarrow> 'f discovery" where
  "drop_waits va m st = st\<lparr>cf_waits := m, cf_awaited := (cf_awaited st)(va := None)\<rparr>"

definition free_waiter :: "u64 \<Rightarrow> 'f discovery \<Rightarrow> 'f discovery" where
  "free_waiter w st =
     st\<lparr>cf_waits := (cf_waits st)(w := None), cf_held := cf_held st - {w}, cf_reported := insert w (cf_reported st)\<rparr>"

text \<open>What is done with one branch: \<open>Ascend\<close> and \<open>Descend\<close> are a call to an active function and to any other.\<close>

datatype branch_act =
  Skip | Table jump_table_targets | Ascend u64 | Descend u64 | Abandon | Wait u64 | Follow u64

definition branch_action :: "'f cf_env \<Rightarrow> flow_frame \<Rightarrow> u64 \<Rightarrow> decoded_insn \<Rightarrow> 'f discovery \<Rightarrow> cf_branch \<Rightarrow> branch_act" where
  "branch_action e fr cur op st br =
     (case cfb_target br of
        None \<Rightarrow>
          if is_jump_table_candidate op then
            (case ce_jump_table e (window_ending_at fr op) of None \<Rightarrow> Skip | Some jt \<Rightarrow> Table jt)
          else Skip
      | Some bva \<Rightarrow>
          if \<not> ce_exec e bva then Skip
          else if (cur, bva) \<in> cf_noflow st then Skip
          else if cfb_flags br AND kCfProc \<noteq> 0 then
            (if bva = cur + of_nat (di_length op) then Skip
             else if bva \<in> set (cf_path st) then Ascend bva
             else if length (cf_path st) < kMaxDescentDepth then Descend bva
             else Abandon)
          else if bva \<in> set (cf_path st) \<and> di_is_jump op \<and> ff_start fr \<noteq> bva then Wait bva
          else Follow bva)"

text \<open>What follows a call, descended into or not.\<close>

definition after_call :: "'f cf_env \<Rightarrow> u64 \<Rightarrow> decoded_insn \<Rightarrow> 'f discovery \<Rightarrow> 'f discovery" where
  "after_call e cur op st =
     (if is_no_return_call e st op then suppress cur (cur + of_nat (di_length op)) st else st)"

text \<open>
  The functions call one another, so they are one function of a task: \<open>Entry\<close> and \<open>Flow\<close> are
  \<open>add_entry_point\<close> and the work list of \<open>add_code_flow\<close>, \<open>Branches\<close> the loop over the branches of one
  instruction, \<open>Drain\<close> and \<open>Unblock\<close> the two loops at its end, \<open>Report\<close> and \<open>Freed\<close> are
  \<open>report_function\<close>, \<open>Analyze\<close> is \<open>Discovery::on_function\<close> and \<open>Script\<close> the rest of an analyzer's run.
\<close>

datatype 'f task =
    Entry u64
  | Flow flow_frame
  | Branches flow_frame u64 decoded_insn "cf_branch list"
  | Drain "u64 list"
  | Unblock "u64 list" "u64 list"
  | Report u64
  | Freed "u64 list"
  | Analyze u64
  | Script "'f script"

text \<open>
  A task ends with a state, goes on as another task, or calls one and goes on with a task that
  depends on the state after the call.  \<open>Diverge\<close> is an analysis that does not end.
\<close>

datatype 'f task_outcome =
    Finish "'f discovery"
  | Jump "'f task" "'f discovery"
  | Call "'f task" "'f discovery" "'f discovery \<Rightarrow> 'f task \<times> 'f discovery"
  | Diverge

definition entry_step :: "u64 \<Rightarrow> 'f discovery \<Rightarrow> 'f task_outcome" where
  "entry_step va st =
     (if card (cf_functions st) \<ge> kMaxFunctionsPerImage then Finish st
      else if va \<in> cf_functions st then Finish st
      else Call (Flow (new_frame va)) (enter va st)
        (\<lambda>st'. if cf_waits st' va = None then (Report va, st') else (Freed [], hold va st')))"

definition flow_step :: "'f cf_env \<Rightarrow> flow_frame \<Rightarrow> 'f discovery \<Rightarrow> 'f task_outcome" where
  "flow_step e fr st =
     (if ff_todo fr = [] \<or> length (ff_insns fr) \<ge> kMaxInsnsPerFunction then Jump (Drain (ff_targets fr)) (leave st)
      else
        let cur = last (ff_todo fr); fr1 = fr\<lparr>ff_todo := butlast (ff_todo fr)\<rparr> in
        if cur \<in> ff_visited fr then Jump (Flow fr1) st
        else
          let fr2 = fr1\<lparr>ff_visited := insert cur (ff_visited fr)\<rparr> in
          if is_defined st cur \<or> in_jt_data fr cur then Jump (Flow fr2) st
          else case ce_read e cur of
            None \<Rightarrow> Jump (Flow fr2) st
          | Some op \<Rightarrow>
              Jump (Branches (fr2\<lparr>ff_insns := ff_insns fr @ [(cur, op)]\<rparr>) cur op (code_branches op))
                (on_opcode cur op (code_branches op) st))"

definition branch_step ::
    "'f cf_env \<Rightarrow> flow_frame \<Rightarrow> u64 \<Rightarrow> decoded_insn \<Rightarrow> cf_branch list \<Rightarrow> 'f discovery \<Rightarrow> branch_act \<Rightarrow> 'f task_outcome" where
  "branch_step e fr cur op rest st act =
     (case act of
        Skip \<Rightarrow> Jump (Branches fr cur op rest) st
      | Table jt \<Rightarrow>
          Jump (Branches (note_table jt fr) cur op (rest @ map case_branch (jt_targets jt)))
            (fold (on_branch_table (di_va op)) (jt_targets jt) st)
      | Ascend bva \<Rightarrow>
          Jump (Branches (fr\<lparr>ff_targets := push_unique (ff_targets fr) bva\<rparr>) cur op rest) (after_call e cur op st)
      | Descend bva \<Rightarrow> Call (Entry bva) st (\<lambda>st'. (Branches fr cur op rest, after_call e cur op st'))
      | Abandon \<Rightarrow> Jump (Branches fr cur op rest) (after_call e cur op st)
      | Wait bva \<Rightarrow> Jump (Branches fr cur op rest) (note_wait (ff_start fr) bva st)
      | Follow bva \<Rightarrow>
          Jump (Branches (if bva \<in> ff_visited fr then fr else fr\<lparr>ff_todo := ff_todo fr @ [bva]\<rparr>) cur op rest) st)"

fun drain_step :: "u64 list \<Rightarrow> 'f discovery \<Rightarrow> 'f task_outcome" where
  "drain_step [] st = Jump (Unblock (cf_blocked st) []) st"
| "drain_step (f # fs) st =
     (if f \<in> set (cf_path st) then Jump (Drain fs) (block_recursion f st)
      else if f \<notin> cf_reported st then Call (Entry f) st (\<lambda>st'. (Drain fs, st'))
      else Jump (Drain fs) st)"

fun unblock_step :: "u64 list \<Rightarrow> u64 list \<Rightarrow> 'f discovery \<Rightarrow> 'f task_outcome" where
  "unblock_step [] still st = Finish (st\<lparr>cf_blocked := still\<rparr>)"
| "unblock_step (f # fs) still st =
     (if f \<notin> set (cf_path st) \<and> f \<notin> cf_reported st
      then Call (Entry f) (reopen f st) (\<lambda>st'. (Unblock fs still, st'))
      else Jump (Unblock fs (still @ [f])) st)"

definition report_step :: "'f cf_env \<Rightarrow> u64 \<Rightarrow> 'f discovery \<Rightarrow> 'f task_outcome" where
  "report_step e va st =
     Call (Analyze va) (mark_reported va st)
       (\<lambda>st'. case cf_awaited st' va of
          None \<Rightarrow> (Freed [], st')
        | Some ws \<Rightarrow>
            (case release_waits va (ce_order e ws) (cf_waits st') of (m, freed) \<Rightarrow> (Freed freed, drop_waits va m st')))"

fun freed_step :: "u64 list \<Rightarrow> 'f discovery \<Rightarrow> 'f task_outcome" where
  "freed_step [] st = Finish st"
| "freed_step (w # ws) st = Call (Analyze w) (free_waiter w st) (\<lambda>st'. (Freed ws, st'))"

definition analyze_step :: "'f cf_env \<Rightarrow> u64 \<Rightarrow> 'f discovery \<Rightarrow> 'f task_outcome" where
  "analyze_step e va st =
     (if va \<in> dv_analyzed st then Finish st
      else case run_fmods e va st of
        None \<Rightarrow> Diverge
      | Some st' \<Rightarrow> Jump (Script (ce_fmod e st' va)) st')"

fun script_step :: "'f script \<Rightarrow> 'f discovery \<Rightarrow> 'f task_outcome" where
  "script_step (F_Done f) st = Finish (st\<lparr>dv_flirt := f\<rparr>)"
| "script_step (F_Make va f k) st = Call (Entry va) (st\<lparr>dv_flirt := f\<rparr>) (\<lambda>st'. (Script (k st'), st'))"

fun task_step :: "'f cf_env \<Rightarrow> 'f task \<Rightarrow> 'f discovery \<Rightarrow> 'f task_outcome" where
  "task_step e (Entry va) st = entry_step va st"
| "task_step e (Flow fr) st = flow_step e fr st"
| "task_step e (Branches fr cur op bs) st =
     (if bs = [] then Jump (Flow fr) st
      else branch_step e fr cur op (butlast bs) st (branch_action e fr cur op st (last bs)))"
| "task_step e (Drain fs) st = drain_step fs st"
| "task_step e (Unblock fs still) st = unblock_step fs still st"
| "task_step e (Report va) st = report_step e va st"
| "task_step e (Freed ws) st = freed_step ws st"
| "task_step e (Analyze va) st = analyze_step e va st"
| "task_step e (Script s) st = script_step s st"

text \<open>\<open>None\<close> is a run that does not end.\<close>

partial_function (option) cf_run :: "'f cf_env \<Rightarrow> 'f task \<Rightarrow> 'f discovery \<Rightarrow> 'f discovery option" where
  "cf_run e t st =
     (case task_step e t st of
        Finish st' \<Rightarrow> Some st'
      | Jump t' st' \<Rightarrow> cf_run e t' st'
      | Call t' st' k \<Rightarrow> Option.bind (cf_run e t' st') (\<lambda>s. cf_run e (fst (k s)) (snd (k s)))
      | Diverge \<Rightarrow> None)"

definition make_function :: "'f cf_env \<Rightarrow> u64 \<Rightarrow> 'f discovery \<Rightarrow> 'f discovery option" where
  "make_function e va st = cf_run e (Entry va) st"

section \<open>Pointers\<close>

definition analyze_pointer :: "'f cf_env \<Rightarrow> 'f discovery \<Rightarrow> u64 \<Rightarrow> loc_type option" where
  "analyze_pointer e st va =
     (if is_defined st va then None else if ce_probably_code e va then Some LOC_Op else None)"

definition follow_pointer :: "'f cf_env \<Rightarrow> u64 \<Rightarrow> 'f discovery \<Rightarrow> 'f discovery option" where
  "follow_pointer e target st =
     (if analyze_pointer e st target = Some LOC_Op then make_function e target st else Some st)"

definition make_pointer :: "'f cf_env \<Rightarrow> u64 \<Rightarrow> bool \<Rightarrow> 'f discovery \<Rightarrow> 'f discovery option" where
  "make_pointer e site follow st =
     (if is_defined st site then Some st
      else case ce_read_ptr e site of
        None \<Rightarrow> Some st
      | Some target \<Rightarrow>
          let st1 = st\<lparr>dv_locations := add_location site (ce_ptr_size e) LOC_Pointer (dv_locations st)\<rparr>
          in if follow then follow_pointer e target st1 else Some st1)"

section \<open>The recovered functions\<close>

text \<open>The predecessors of a block, in the order of the blocks and of their successors.\<close>

definition predecessors_of :: "basic_block list \<Rightarrow> u64 \<Rightarrow> u64 list" where
  "predecessors_of bbs va =
     concat (map (\<lambda>bb. map (\<lambda>_. bb_va bb) (filter (\<lambda>s. s = va) (bb_successors bb))) bbs)"

definition sorted_distinct :: "u64 list \<Rightarrow> u64 list" where
  "sorted_distinct xs = remdups_adj (sort xs)"

definition callees_of :: "basic_block list \<Rightarrow> u64 list" where
  "callees_of bbs =
     sorted_distinct (concat (map (\<lambda>op. if di_is_call op then (case di_branch_target op of None \<Rightarrow> [] | Some t \<Rightarrow> [t]) else [])
       (concat (map bb_instructions bbs))))"

definition link_function :: "cfg_function \<Rightarrow> cfg_function" where
  "link_function fn =
     (let bbs = fn_basic_blocks fn in
      fn\<lparr>fn_basic_blocks := map (\<lambda>bb. bb\<lparr>bb_predecessors := predecessors_of bbs (bb_va bb)\<rparr>) bbs,
         fn_callees := callees_of bbs\<rparr>)"

fun materialize_all :: "'f cf_env \<Rightarrow> 'f discovery \<Rightarrow> u64 list \<Rightarrow> cfg_function list option" where
  "materialize_all e st [] = Some []"
| "materialize_all e st (va # vas) =
     (case materialize_function e st va of
        None \<Rightarrow> None
      | Some fn \<Rightarrow> map_option (\<lambda>fns. link_function fn # fns) (materialize_all e st vas))"

definition materialize_functions :: "'f cf_env \<Rightarrow> 'f discovery \<Rightarrow> cfg_function list option" where
  "materialize_functions e st = materialize_all e st (dv_entries st)"

end
