(* ===== verification/Code_Flow_Invariant.thy ===== *)
theory Code_Flow_Invariant
  imports Code_Flow Codeblocks_Correct
begin

text \<open>
  The code flow as a step relation: each change of the state is one of a few steps, an invariant
  that the steps keep, and that every run is made of steps.
\<close>

section \<open>Steps\<close>

text \<open>Bookkeeping leaves what was discovered and the active path as they are.\<close>

definition same_findings :: "'f discovery \<Rightarrow> 'f discovery \<Rightarrow> bool" where
  "same_findings st st' \<longleftrightarrow>
     dv_locations st' = dv_locations st \<and> dv_xrefs st' = dv_xrefs st \<and> dv_blocks st' = dv_blocks st \<and>
     dv_no_fall st' = dv_no_fall st \<and> dv_analyzed st' = dv_analyzed st \<and> dv_no_return st' = dv_no_return st \<and>
     dv_entries st' = dv_entries st \<and> cf_path st' = cf_path st"

definition book :: "'f discovery \<Rightarrow> 'f discovery \<Rightarrow> bool" where
  "book st st' \<longleftrightarrow>
     same_findings st st' \<and> cf_functions st' \<subseteq> cf_functions st \<and>
     (\<forall>f. f \<in> set (cf_path st) \<and> f \<in> cf_functions st \<longrightarrow> f \<in> cf_functions st') \<and>
     cf_reported st \<subseteq> cf_reported st'"

text \<open>An instruction that was recorded.\<close>

definition decoded :: "'f discovery \<Rightarrow> u64 \<Rightarrow> bool" where
  "decoded st va \<longleftrightarrow> (\<exists>l\<in>set (dv_locations st). loc_va l = va \<and> loc_type_of l = LOC_Op)"

inductive cf_step :: "'f cf_env \<Rightarrow> 'f discovery \<Rightarrow> 'f discovery \<Rightarrow> bool" for e where
  enter: "cf_step e st (enter va st)"
    if "va \<notin> cf_functions st" "length (cf_path st) < kMaxDescentDepth"
       "card (cf_functions st) < kMaxFunctionsPerImage"
| leave: "cf_step e st (leave st)" if "cf_path st \<noteq> []"
| opcode: "cf_step e st (on_opcode va op (code_branches op) st)" if "\<not> is_defined st va" "ce_read e va = Some op"
| table_case: "cf_step e st (on_branch_table va t st)"
    if "decoded st va" "ce_read e va = Some op" "is_jump_table_candidate op"
| book: "cf_step e st st'" if "book st st'"
| analyze: "cf_step e st st'" if "va \<notin> dv_analyzed st" "va \<in> cf_reported st" "run_fmods e va st = Some st'"

inductive_cases cf_stepE: "cf_step e st st'"

text \<open>The same runs as a relation.\<close>

inductive cf_runs :: "'f cf_env \<Rightarrow> 'f task \<Rightarrow> 'f discovery \<Rightarrow> 'f discovery \<Rightarrow> bool" for e where
  finish: "cf_runs e t st y" if "task_step e t st = Finish y"
| jump: "cf_runs e t st y" if "task_step e t st = Jump t' st'" "cf_runs e t' st' y"
| call: "cf_runs e t st y"
    if "task_step e t st = Call t' st' k" "cf_runs e t' st' s" "cf_runs e (fst (k s)) (snd (k s)) y"

lemma cf_run_runs:
  assumes "cf_run e t st = Some y"
  shows "cf_runs e t st y"
proof (rule cf_run.raw_induct [where P = cf_runs, OF _ assms])
  fix f e t st y
  assume ih: "\<And>e t st y. f e t st = Some y \<Longrightarrow> cf_runs e t st y"
    and b: "(case task_step e t st of
        Finish st' \<Rightarrow> Some st'
      | Jump t' st' \<Rightarrow> f e t' st'
      | Call t' st' k \<Rightarrow> Option.bind (f e t' st') (\<lambda>s. f e (fst (k s)) (snd (k s)))
      | Diverge \<Rightarrow> None) = Some y"
  show "cf_runs e t st y"
    using b by (cases "task_step e t st") (auto intro: cf_runs.intros ih simp: bind_eq_Some_conv)
qed

lemma cf_runs_run: "cf_runs e t st y \<Longrightarrow> cf_run e t st = Some y"
  by (induction rule: cf_runs.induct) (subst cf_run.simps; simp)+

lemma cf_run_iff: "cf_run e t st = Some y \<longleftrightarrow> cf_runs e t st y"
  using cf_run_runs cf_runs_run by blast

section \<open>The invariant\<close>

text \<open>
  What is relied on of the callbacks: an instruction is decoded at the address asked for, is not
  empty, and it and a pointer end well before the end of the address space.
\<close>

definition env_ok :: "'f cf_env \<Rightarrow> bool" where
  "env_ok e \<longleftrightarrow>
     (\<forall>va op. ce_read e va = Some op \<longrightarrow>
        di_va op = va \<and> 0 < di_length op \<and> unat va + 2 * di_length op < 2 ^ 64) \<and>
     (\<forall>va t. ce_read_ptr e va = Some t \<longrightarrow> 0 < ce_ptr_size e \<and> unat va + 2 * unat (ce_ptr_size e) < 2 ^ 64)"

lemma env_read:
  assumes "env_ok e" "ce_read e va = Some op"
  shows "di_va op = va" "0 < di_length op" "unat va + 2 * di_length op < 2 ^ 64"
    "unat (of_nat (di_length op) :: u64) = di_length op" "va < va + of_nat (di_length op)"
proof -
  show r: "di_va op = va" "0 < di_length op" "unat va + 2 * di_length op < 2 ^ 64"
    using assms by (auto simp: env_ok_def)
  then show u: "unat (of_nat (di_length op) :: u64) = di_length op" by (simp add: unat_of_nat)
  have "unat (va + of_nat (di_length op)) = unat va + di_length op"
    using r u by (simp add: unat_word_ariths)
  then show "va < va + of_nat (di_length op)" using r(2) by (simp add: word_less_nat_alt)
qed

text \<open>The locations: code locations are what decodes there, and exactly those that do not fall are marked.\<close>

definition locations_ok :: "'f cf_env \<Rightarrow> 'f discovery \<Rightarrow> bool" where
  "locations_ok e st \<longleftrightarrow>
     db_ok (dv_locations st) \<and> fits (dv_locations st) \<and>
     (\<forall>l\<in>set (dv_locations st). 0 < loc_size l \<and>
        (loc_type_of l = LOC_Op \<longrightarrow> (\<exists>op. ce_read e (loc_va l) = Some op \<and> loc_size l = of_nat (di_length op)))) \<and>
     dv_no_fall st = {va. decoded st va \<and> (\<exists>op. ce_read e va = Some op \<and> \<not> di_is_fallthrough op)}"

text \<open>
  An edge leaves a recorded instruction, and is one of its branches or a case of its table; and
  every branch of a recorded instruction is an edge.
\<close>

definition branches_to :: "decoded_insn \<Rightarrow> u64 \<Rightarrow> bool" where
  "branches_to op t \<longleftrightarrow> (\<exists>br\<in>set (code_branches op). cfb_target br = Some t \<and> cfb_flags br AND kCfFall = 0)"

definition edge_justified :: "'f cf_env \<Rightarrow> u64 \<Rightarrow> u64 \<Rightarrow> bool" where
  "edge_justified e va t \<longleftrightarrow> (\<exists>op. ce_read e va = Some op \<and> (is_jump_table_candidate op \<or> branches_to op t))"

definition xrefs_justified :: "'f cf_env \<Rightarrow> 'f discovery \<Rightarrow> bool" where
  "xrefs_justified e st \<longleftrightarrow>
     xrefs_ok (dv_xrefs st) \<and>
     (\<forall>va t. edge_flags (dv_xrefs st) va t \<noteq> None \<longrightarrow> decoded st va \<and> edge_justified e va t) \<and>
     (\<forall>va op t. decoded st va \<and> ce_read e va = Some op \<and> branches_to op t \<longrightarrow> edge_flags (dv_xrefs st) va t \<noteq> None)"

definition functions_ok :: "'f discovery \<Rightarrow> bool" where
  "functions_ok st \<longleftrightarrow>
     distinct (dv_entries st) \<and> set (dv_entries st) = dv_analyzed st \<and> dv_analyzed st \<subseteq> cf_reported st \<and>
     dv_no_return st \<subseteq> dv_analyzed st \<and> (\<forall>f. function_blocks (dv_blocks st) f \<noteq> [] \<longrightarrow> f \<in> dv_analyzed st) \<and>
     card (cf_functions st) \<le> kMaxFunctionsPerImage \<and> distinct (cf_path st) \<and>
     set (cf_path st) \<subseteq> cf_functions st \<and> length (cf_path st) \<le> kMaxDescentDepth"

definition flow_ok :: "'f cf_env \<Rightarrow> 'f discovery \<Rightarrow> bool" where
  "flow_ok e st \<longleftrightarrow> locations_ok e st \<and> xrefs_justified e st \<and> functions_ok st"

lemma decoded_locations: "dv_locations st' = dv_locations st \<Longrightarrow> decoded st' = decoded st"
  by (auto simp: decoded_def fun_eq_iff)

lemma same_flow_parts:
  assumes "dv_locations st' = dv_locations st" "dv_xrefs st' = dv_xrefs st" "dv_no_fall st' = dv_no_fall st"
  shows "locations_ok e st' = locations_ok e st" "xrefs_justified e st' = xrefs_justified e st"
  unfolding locations_ok_def xrefs_justified_def decoded_locations [OF assms(1)] assms by (rule refl)+

lemma new_flow_ok: "flow_ok e (new_discovery f)"
  using empty_xrefs_ok
  by (simp add: flow_ok_def locations_ok_def xrefs_justified_def functions_ok_def new_discovery_def decoded_def
      db_ok_def fits_def edge_flags_def code_xrefs_from_def empty_xrefs_def function_blocks_def empty_store_def)

section \<open>Recording an instruction\<close>

lemma location_defines:
  assumes "locations_ok e st" "l \<in> set (dv_locations st)"
  shows "is_defined st (loc_va l)"
proof -
  have ok: "db_ok (dv_locations st)" "fits (dv_locations st)" "0 < loc_size l" using assms by (auto simp: locations_ok_def)
  then have "unat (loc_va l) + 2 * unat (loc_size l) < 2 ^ 64" using assms(2) by (simp add: fits_def)
  then have "unat (loc_va l + loc_size l) = unat (loc_va l) + unat (loc_size l)" by (simp add: unat_word_ariths)
  moreover have "0 < unat (loc_size l)" using ok(3) by (simp add: word_less_nat_alt)
  ultimately have "loc_va l < loc_va l + loc_size l" by (simp add: word_less_nat_alt)
  then have "get_location (dv_locations st) (loc_va l) = Some l"
    using get_location_iff [OF ok(1)] assms(2) by auto
  then show ?thesis by (simp add: is_defined_def)
qed

text \<open>A location of any kind put at an address that has none.\<close>

definition put_location :: "u64 \<Rightarrow> u64 \<Rightarrow> loc_type \<Rightarrow> 'f discovery \<Rightarrow> 'f discovery" where
  "put_location va n ty st = st\<lparr>dv_locations := add_location va n ty (dv_locations st)\<rparr>"

lemma set_put_location:
  assumes "locations_ok e st" "\<not> is_defined st va"
  shows "set (dv_locations (put_location va n ty st)) =
     insert \<lparr>loc_va = va, loc_size = n, loc_type_of = ty\<rparr> (set (dv_locations st))"
proof -
  have "{m \<in> set (dv_locations st). loc_va m \<noteq> va} = set (dv_locations st)"
    using location_defines [OF assms(1)] assms(2) by auto
  then show ?thesis
    using set_add_location [of "dv_locations st" va n ty] assms(1) by (simp add: put_location_def locations_ok_def)
qed

lemma put_location_keeps:
  assumes "locations_ok e st" "\<not> is_defined st va" "is_defined st x"
  shows "is_defined (put_location va n ty st) x"
  using assms add_location_keeps [of "dv_locations st" va x]
  by (auto simp: is_defined_def put_location_def locations_ok_def)

lemma put_location_defines:
  assumes "locations_ok e st" "va < va + n"
  shows "is_defined (put_location va n ty st) va"
  using assms add_location_at [of "dv_locations st" va n ty]
  by (simp add: is_defined_def put_location_def locations_ok_def)

lemma put_location_fits:
  assumes "locations_ok e st" "\<not> is_defined st va" "unat va + 2 * unat n < 2 ^ 64"
  shows "db_ok (dv_locations (put_location va n ty st)) \<and> fits (dv_locations (put_location va n ty st))"
proof
  show "db_ok (dv_locations (put_location va n ty st))"
    using assms(1) by (auto simp: put_location_def locations_ok_def)
  show "fits (dv_locations (put_location va n ty st))"
    unfolding fits_def set_put_location [OF assms(1,2)]
    using assms(1,3) by (auto simp: fits_def locations_ok_def)
qed

lemma decoded_put:
  assumes "locations_ok e st" "\<not> is_defined st va"
  shows "decoded (put_location va n ty st) x \<longleftrightarrow> decoded st x \<or> x = va \<and> ty = LOC_Op"
  unfolding decoded_def set_put_location [OF assms] by auto

text \<open>The edges of the branches of one instruction.\<close>

lemma branch_edges:
  "edge_flags (fold (add_branch_xref va) brs db) a b \<noteq> None \<longleftrightarrow>
     edge_flags db a b \<noteq> None \<or>
     a = va \<and> (\<exists>br\<in>set brs. cfb_target br = Some b \<and> cfb_flags br AND kCfFall = 0)"
proof (induction brs arbitrary: db)
  case (Cons br brs)
  have "edge_flags (add_branch_xref va br db) a b \<noteq> None \<longleftrightarrow>
      edge_flags db a b \<noteq> None \<or> a = va \<and> cfb_target br = Some b \<and> cfb_flags br AND kCfFall = 0"
    by (auto simp: add_branch_xref_def edge_flags_add split: option.split)
  then show ?case using Cons.IH [of "add_branch_xref va br db"] by auto
qed simp

lemma branch_xrefs_ok: "xrefs_ok db \<Longrightarrow> xrefs_ok (fold (add_branch_xref va) brs db)"
  by (induction brs arbitrary: db) (auto simp: add_branch_xref_def add_code_xref_ok split: option.split)

lemma on_opcode_locations: "dv_locations (on_opcode va op brs st) = dv_locations (put_location va (of_nat (di_length op)) LOC_Op st)"
  by (simp add: on_opcode_def put_location_def)

lemma on_opcode_decoded:
  assumes "locations_ok e st" "\<not> is_defined st va"
  shows "decoded (on_opcode va op brs st) x \<longleftrightarrow> decoded st x \<or> x = va"
  using decoded_put [OF assms, of _ LOC_Op x] decoded_locations [OF on_opcode_locations, of va op brs st] by simp

lemma on_opcode_ok:
  assumes "env_ok e" "flow_ok e st" "\<not> is_defined st va" "ce_read e va = Some op"
  shows "flow_ok e (on_opcode va op (code_branches op) st)"
proof -
  let ?st = "on_opcode va op (code_branches op) st"
  have l: "locations_ok e st" "xrefs_justified e st" "functions_ok st" using assms(2) by (simp_all add: flow_ok_def)
  note r = env_read [OF assms(1,4)]
  have nd: "\<not> decoded st va" using location_defines [OF l(1)] assms(3) by (auto simp: decoded_def)
  have fit: "db_ok (dv_locations ?st) \<and> fits (dv_locations ?st)"
    unfolding on_opcode_locations using put_location_fits [OF l(1) assms(3), of "of_nat (di_length op)" LOC_Op] r(3,4) by simp
  have locs: "set (dv_locations ?st) =
      insert \<lparr>loc_va = va, loc_size = of_nat (di_length op), loc_type_of = LOC_Op\<rparr> (set (dv_locations st))"
    unfolding on_opcode_locations by (rule set_put_location [OF l(1) assms(3)])
  have pos: "(0 :: u64) < of_nat (di_length op)" using r(2,4) by (metis word_less_nat_alt unat_0)
  have nf: "dv_no_fall ?st = {x. decoded ?st x \<and> (\<exists>op. ce_read e x = Some op \<and> \<not> di_is_fallthrough op)}"
    using l(1) assms(4) nd unfolding on_opcode_decoded [OF l(1) assms(3)]
    by (auto simp: locations_ok_def on_opcode_def)
  have "locations_ok e ?st"
    using fit nf l(1) pos assms(4) unfolding locations_ok_def locs by auto
  moreover have "xrefs_justified e ?st"
    unfolding xrefs_justified_def on_opcode_decoded [OF l(1) assms(3)]
  proof (intro conjI allI impI)
    show "xrefs_ok (dv_xrefs ?st)" using l(2) by (simp add: on_opcode_def branch_xrefs_ok xrefs_justified_def)
    have edges: "edge_flags (dv_xrefs ?st) a t \<noteq> None \<longleftrightarrow>
        edge_flags (dv_xrefs st) a t \<noteq> None \<or> a = va \<and> branches_to op t" for a t
      by (simp add: on_opcode_def branches_to_def branch_edges [simplified])
    fix a t
    show "decoded st a \<or> a = va" "edge_justified e a t" if "edge_flags (dv_xrefs ?st) a t \<noteq> None"
      using that l(2) assms(4) unfolding edges by (auto simp: xrefs_justified_def edge_justified_def)
    fix op' assume "(decoded st a \<or> a = va) \<and> ce_read e a = Some op' \<and> branches_to op' t"
    then show "edge_flags (dv_xrefs ?st) a t \<noteq> None"
      using l(2) assms(4) unfolding edges by (auto simp: xrefs_justified_def)
  qed
  moreover have "functions_ok ?st" using l(3) by (simp add: functions_ok_def on_opcode_def)
  ultimately show ?thesis by (simp add: flow_ok_def)
qed

lemma on_branch_table_ok:
  assumes "flow_ok e st" "decoded st va" "ce_read e va = Some op" "is_jump_table_candidate op"
  shows "flow_ok e (on_branch_table va t st)"
proof -
  have d: "decoded (on_branch_table va t st) = decoded st" by (auto simp: decoded_def on_branch_table_def fun_eq_iff)
  have "xrefs_justified e (on_branch_table va t st)"
    unfolding xrefs_justified_def d
    using assms by (auto simp: flow_ok_def xrefs_justified_def on_branch_table_def add_code_xref_ok edge_flags_add
        edge_justified_def split: if_split_asm)
  then show ?thesis
    using assms(1) d by (simp add: flow_ok_def locations_ok_def functions_ok_def on_branch_table_def)
qed

section \<open>Analyzing a function\<close>

lemma block_insns_total:
  assumes "env_ok e"
  shows "\<exists>insns. block_insns (ce_read e) va stop acc = Some insns"
proof (induction "2 ^ 64 - unat va" arbitrary: va acc rule: less_induct)
  case less
  show ?case
  proof (cases "ce_read e va")
    case None
    then show ?thesis by (subst block_insns.simps) simp
  next
    case (Some op)
    have "va < va + of_nat (di_length op)" using env_read(5) [OF assms Some] .
    then have "2 ^ 64 - unat (va + of_nat (di_length op)) < 2 ^ 64 - unat va"
      using unsigned_less [of "va + of_nat (di_length op)", where 'a = nat] by (simp add: word_less_nat_alt)
    from less [OF this] show ?thesis using Some by (subst block_insns.simps) simp
  qed
qed

lemma materialize_total:
  assumes "env_ok e"
  shows "\<exists>fn. materialize_function e st va = Some fn"
proof -
  have "\<exists>bbs. materialize_blocks (ce_read e) db starts bs = Some bbs" for db starts bs
  proof (induction bs)
    case (Cons b bs)
    then show ?case using block_insns_total [OF assms, of "cb_va b" "cb_va b + cb_size b" "[]"] by auto
  qed simp
  then show ?thesis by (simp add: materialize_function_def Let_def)
qed

text \<open>The blocks of the function are those of the pass over its flow; nothing else of it changes.\<close>

lemma run_fmods_total:
  assumes "env_ok e" "locations_ok e st"
  shows "\<exists>st'. run_fmods e va st = Some st'"
proof -
  have "fits (fv_locations (view_of e (begin_analysis va st)))"
    using assms(2) by (simp add: view_of_def begin_analysis_def locations_ok_def)
  then obtain bs where "analyze_function (view_of e (begin_analysis va st)) va (dv_blocks st) = Some bs"
    using codeblocks_registered by blast
  then show ?thesis
    using materialize_total [OF assms(1)] by (fastforce simp: run_fmods_def Let_def begin_analysis_def)
qed

lemma run_fmods_effect:
  assumes "locations_ok e st" "run_fmods e va st = Some st'"
  shows "dv_locations st' = dv_locations st \<and> dv_xrefs st' = dv_xrefs st \<and> dv_no_fall st' = dv_no_fall st \<and>
     dv_analyzed st' = insert va (dv_analyzed st) \<and> dv_entries st' = dv_entries st @ [va] \<and>
     dv_no_return st \<subseteq> dv_no_return st' \<and> dv_no_return st' \<subseteq> insert va (dv_no_return st) \<and>
     cf_functions st' = cf_functions st \<and> cf_reported st' = cf_reported st \<and> cf_path st' = cf_path st \<and>
     cf_blocked st' = cf_blocked st \<and>
     (\<forall>g. g \<noteq> va \<longrightarrow> function_blocks (dv_blocks st') g = function_blocks (dv_blocks st) g)"
proof -
  let ?st = "begin_analysis va st"
  have "fits (fv_locations (view_of e ?st))"
    using assms(1) by (simp add: view_of_def begin_analysis_def locations_ok_def)
  from codeblocks_registered [OF this, of va "dv_blocks st"]
  obtain bs where bs: "analyze_function (view_of e ?st) va (dv_blocks st) = Some bs"
    "\<forall>g. g \<noteq> va \<longrightarrow> function_blocks bs g = function_blocks (dv_blocks st) g" by auto
  have "dv_blocks ?st = dv_blocks st" by (simp add: begin_analysis_def)
  then obtain fn where
    "st' = mark_no_return va (function_is_noreturn fn (is_no_return_call e (?st\<lparr>dv_blocks := bs\<rparr>))) (?st\<lparr>dv_blocks := bs\<rparr>)"
    using assms(2) bs(1) by (auto simp: run_fmods_def Let_def)
  then show ?thesis using bs(2) by (auto simp: mark_no_return_def begin_analysis_def)
qed

lemma run_fmods_ok:
  assumes "flow_ok e st" "va \<notin> dv_analyzed st" "va \<in> cf_reported st" "run_fmods e va st = Some st'"
  shows "flow_ok e st'"
proof -
  have l: "locations_ok e st" using assms(1) by (simp add: flow_ok_def)
  note r = run_fmods_effect [OF l assms(4)]
  have "locations_ok e st'" "xrefs_justified e st'"
    using same_flow_parts [of st' st e] r assms(1) by (simp_all add: flow_ok_def)
  moreover have "functions_ok st'"
  proof -
    have f: "functions_ok st" using assms(1) by (simp add: flow_ok_def)
    have "\<forall>g. function_blocks (dv_blocks st') g \<noteq> [] \<longrightarrow> g \<in> insert va (dv_analyzed st)"
      using r f by (metis functions_ok_def insert_iff)
    then show ?thesis using f r assms(2,3) unfolding functions_ok_def by auto
  qed
  ultimately show ?thesis by (simp add: flow_ok_def)
qed

section \<open>The steps keep the invariant\<close>

lemma book_ok:
  assumes "flow_ok e st" "book st st'"
  shows "flow_ok e st'"
proof -
  have s: "same_findings st st'" "cf_functions st' \<subseteq> cf_functions st"
    "\<forall>f. f \<in> set (cf_path st) \<and> f \<in> cf_functions st \<longrightarrow> f \<in> cf_functions st'" "cf_reported st \<subseteq> cf_reported st'"
    using assms(2) by (simp_all add: book_def)
  have "card (cf_functions st') \<le> card (cf_functions st)" using s(2) by (intro card_mono) auto
  then have "functions_ok st'"
    using assms(1) s unfolding flow_ok_def functions_ok_def same_findings_def by auto
  then show ?thesis
    using assms(1) s(1) same_flow_parts [of st' st e] by (simp add: flow_ok_def same_findings_def)
qed

lemma enter_ok:
  assumes "flow_ok e st" "va \<notin> cf_functions st" "length (cf_path st) < kMaxDescentDepth"
    "card (cf_functions st) < kMaxFunctionsPerImage"
  shows "flow_ok e (enter va st)"
proof -
  have f: "functions_ok st" using assms(1) by (simp add: flow_ok_def)
  have "functions_ok (enter va st)" using f assms(2-4) by (auto simp: functions_ok_def enter_def)
  then show ?thesis
    using assms(1) same_flow_parts [of "enter va st" st e] by (simp add: flow_ok_def enter_def)
qed

lemma leave_ok:
  assumes "flow_ok e st"
  shows "flow_ok e (leave st)"
proof -
  have "functions_ok (leave st)"
    using assms by (auto simp: flow_ok_def functions_ok_def leave_def distinct_butlast dest: in_set_butlastD)
  then show ?thesis
    using assms same_flow_parts [of "leave st" st e] by (simp add: flow_ok_def leave_def)
qed

lemma cf_step_ok:
  assumes "env_ok e" "cf_step e st st'" "flow_ok e st"
  shows "flow_ok e st'"
  using assms(2)
proof cases
  case (enter va)
  then show ?thesis using enter_ok [OF assms(3)] by simp
next
  case leave
  then show ?thesis using leave_ok [OF assms(3)] by simp
next
  case (opcode va op)
  then show ?thesis using on_opcode_ok [OF assms(1,3)] by simp
next
  case (table_case va op t)
  then show ?thesis using on_branch_table_ok [OF assms(3)] by simp
next
  case book
  then show ?thesis by (rule book_ok [OF assms(3)])
next
  case (analyze va)
  then show ?thesis using run_fmods_ok [OF assms(3)] by simp
qed

text \<open>What was found stays.\<close>

definition grows :: "'f discovery \<Rightarrow> 'f discovery \<Rightarrow> bool" where
  "grows st st' \<longleftrightarrow>
     (\<forall>x. is_defined st x \<longrightarrow> is_defined st' x) \<and> (\<forall>x. decoded st x \<longrightarrow> decoded st' x) \<and>
     dv_analyzed st \<subseteq> dv_analyzed st' \<and> cf_reported st \<subseteq> cf_reported st'"

lemma flow_grows_refl [simp]: "grows st st"
  by (simp add: grows_def)

lemma flow_grows_trans: "grows a b \<Longrightarrow> grows b c \<Longrightarrow> grows a c"
  by (auto simp: grows_def)

lemma same_locations_defined: "dv_locations st' = dv_locations st \<Longrightarrow> is_defined st' = is_defined st"
  by (simp add: is_defined_def fun_eq_iff)

lemma on_opcode_grows:
  assumes "locations_ok e st" "\<not> is_defined st va"
  shows "grows st (on_opcode va op brs st)"
proof -
  have "is_defined st x \<Longrightarrow> is_defined (on_opcode va op brs st) x" for x
    using put_location_keeps [OF assms] same_locations_defined [OF on_opcode_locations] by metis
  then show ?thesis using on_opcode_decoded [OF assms] by (auto simp: grows_def on_opcode_def)
qed

lemma cf_step_grows:
  assumes "flow_ok e st" "cf_step e st st'"
  shows "grows st st'"
proof -
  have l: "locations_ok e st" using assms(1) by (simp add: flow_ok_def)
  show ?thesis
    using assms(2)
  proof cases
    case (opcode va op)
    then show ?thesis using on_opcode_grows [OF l] by simp
  next
    case (analyze va)
    then show ?thesis using run_fmods_effect [OF l analyze(3)] by (auto simp: grows_def is_defined_def decoded_def)
  qed (auto simp: grows_def is_defined_def decoded_def enter_def leave_def on_branch_table_def book_def same_findings_def)
qed

lemma cf_steps_ok:
  assumes "env_ok e" "(cf_step e)\<^sup>*\<^sup>* st st'" "flow_ok e st"
  shows "flow_ok e st' \<and> grows st st'"
  using assms(2)
proof (induction rule: rtranclp_induct)
  case base
  then show ?case using assms(3) by simp
next
  case (step a b)
  then show ?case using cf_step_ok [OF assms(1)] cf_step_grows flow_grows_trans by blast
qed

section \<open>Every run is made of steps\<close>

text \<open>What a task may start with, and the active path after it.\<close>

fun task_ready :: "'f cf_env \<Rightarrow> 'f task \<Rightarrow> 'f discovery \<Rightarrow> bool" where
  "task_ready e (Flow fr) st \<longleftrightarrow> flow_ok e st \<and> cf_path st \<noteq> []"
| "task_ready e (Branches fr cur op bs) st \<longleftrightarrow> flow_ok e st \<and> cf_path st \<noteq> [] \<and> decoded st cur \<and> ce_read e cur = Some op"
| "task_ready e (Analyze va) st \<longleftrightarrow> flow_ok e st \<and> length (cf_path st) < kMaxDescentDepth \<and> va \<in> cf_reported st"
| "task_ready e t st \<longleftrightarrow> flow_ok e st \<and> length (cf_path st) < kMaxDescentDepth"

fun path_after :: "'f task \<Rightarrow> 'f discovery \<Rightarrow> u64 list" where
  "path_after (Flow fr) st = butlast (cf_path st)"
| "path_after (Branches fr cur op bs) st = butlast (cf_path st)"
| "path_after t st = cf_path st"

lemma task_ready_ok: "task_ready e t st \<Longrightarrow> flow_ok e st"
  by (cases t) auto

lemma steps_book: "book st st' \<Longrightarrow> (cf_step e)\<^sup>*\<^sup>* st st'"
  by (blast intro: cf_step.book)

named_theorems booking

lemmas book_defs = book_def same_findings_def

lemma book_after_call [booking]: "book st (after_call e cur op st)"
  by (simp add: book_defs after_call_def suppress_def)

lemma book_hold [booking]: "book st (hold va st)"
  by (simp add: book_defs hold_def)

lemma book_note_wait [booking]: "book st (note_wait a b st)"
  by (simp add: book_defs note_wait_def)

lemma book_block [booking]: "book st (block_recursion f st)"
  by (simp add: book_defs block_recursion_def)

lemma book_reopen [booking]: "f \<notin> set (cf_path st) \<Longrightarrow> book st (reopen f st)"
  by (auto simp: book_defs reopen_def)

lemma book_reported [booking]: "book st (mark_reported va st)"
  by (auto simp: book_defs mark_reported_def)

lemma book_drop_waits [booking]: "book st (drop_waits va m st)"
  by (simp add: book_defs drop_waits_def)

lemma book_free [booking]: "book st (free_waiter w st)"
  by (auto simp: book_defs free_waiter_def)

lemma book_blocked [booking]: "book st (st\<lparr>cf_blocked := bs\<rparr>)" "book st (st\<lparr>dv_flirt := f\<rparr>)"
  by (simp_all add: book_defs)

lemma book_path: "book st st' \<Longrightarrow> cf_path st' = cf_path st"
  by (simp add: book_defs)

lemma book_decoded: "book st st' \<Longrightarrow> decoded st va \<Longrightarrow> decoded st' va"
  by (simp add: book_defs decoded_def)

text \<open>A step of bookkeeping, and the facts the tasks need of it.\<close>

lemma booked:
  assumes "book st st'" "flow_ok e st"
  shows "(cf_step e)\<^sup>*\<^sup>* st st'" "flow_ok e st'" "cf_path st' = cf_path st" "decoded st va \<Longrightarrow> decoded st' va"
  using steps_book [OF assms(1)] book_ok [OF assms(2,1)] book_path [OF assms(1)] book_decoded [OF assms(1)] by auto

lemma path_room: "flow_ok e st \<Longrightarrow> cf_path st \<noteq> [] \<Longrightarrow> length (butlast (cf_path st)) < kMaxDescentDepth"
  by (auto simp: flow_ok_def functions_ok_def kMaxDescentDepth_def)

lemma fold_table_steps:
  assumes "ce_read e va = Some op" "is_jump_table_candidate op"
  shows "flow_ok e st \<Longrightarrow> decoded st va \<Longrightarrow>
     (cf_step e)\<^sup>*\<^sup>* st (fold (on_branch_table va) ts st) \<and> flow_ok e (fold (on_branch_table va) ts st) \<and>
     cf_path (fold (on_branch_table va) ts st) = cf_path st \<and> decoded (fold (on_branch_table va) ts st) = decoded st"
proof (induction ts arbitrary: st)
  case (Cons t ts)
  have s: "cf_step e st (on_branch_table va t st)" using cf_step.table_case [OF Cons.prems(2) assms] .
  have d: "decoded (on_branch_table va t st) = decoded st" by (simp add: decoded_def on_branch_table_def fun_eq_iff)
  have ok: "flow_ok e (on_branch_table va t st)" using on_branch_table_ok [OF Cons.prems assms] .
  have p: "cf_path (on_branch_table va t st) = cf_path st" by (simp add: on_branch_table_def)
  have "decoded (on_branch_table va t st) va" using Cons.prems(2) d by simp
  from Cons.IH [OF ok this] show ?case
    using s d p by (simp add: converse_rtranclp_into_rtranclp)
qed simp

text \<open>A task that goes on from one state to another, by steps.\<close>

definition leads :: "'f cf_env \<Rightarrow> u64 list \<Rightarrow> 'f discovery \<Rightarrow> 'f task \<Rightarrow> 'f discovery \<Rightarrow> bool" where
  "leads e p st t' st' \<longleftrightarrow> (cf_step e)\<^sup>*\<^sup>* st st' \<and> task_ready e t' st' \<and> path_after t' st' = p"

lemma finish_trace:
  "task_step e t st = Finish y \<Longrightarrow> task_ready e t st \<Longrightarrow> (cf_step e)\<^sup>*\<^sup>* st y \<and> cf_path y = path_after t st"
proof (cases t)
  case (Unblock fs still)
  assume "task_step e t st = Finish y" "task_ready e t st"
  then show ?thesis
    using Unblock booked [OF book_blocked(1), of e st] by (cases fs) (auto split: if_split_asm)
next
  case (Script s)
  assume "task_step e t st = Finish y" "task_ready e t st"
  then show ?thesis using Script booked [OF book_blocked(2), of e st] by (cases s) auto
next
  case (Drain fs)
  assume "task_step e t st = Finish y"
  then show ?thesis using Drain by (cases fs) (auto split: if_split_asm)
next
  case (Freed fs)
  assume "task_step e t st = Finish y"
  then show ?thesis using Freed by (cases fs) auto
qed (auto simp: entry_step_def flow_step_def branch_step_def report_step_def analyze_step_def Let_def
      split: if_split_asm option.split_asm branch_act.split_asm)

lemma flow_leads:
  assumes "env_ok e" "task_ready e (Flow fr) st" "flow_step e fr st = Jump t' st'"
  shows "leads e (butlast (cf_path st)) st t' st'"
proof -
  have ok: "flow_ok e st" "cf_path st \<noteq> []" "locations_ok e st" using assms(2) by (auto simp: flow_ok_def)
  have l: "leads e (butlast (cf_path st)) st (Drain ts) (leave st)" for ts
    using cf_step.leave [of st e] ok leave_ok [OF ok(1)] path_room [OF ok(1,2)] by (auto simp: leads_def leave_def)
  have b: "leads e (butlast (cf_path st)) st (Branches fr' cur op bs) (on_opcode cur op (code_branches op) st)"
    if "\<not> is_defined st cur" "ce_read e cur = Some op" for fr' cur op bs
    using cf_step.opcode [OF that] on_opcode_ok [OF assms(1) ok(1) that] on_opcode_decoded [OF ok(3) that(1)] that ok(2)
    by (auto simp: leads_def on_opcode_def)
  have s: "leads e (butlast (cf_path st)) st (Flow fr') st" for fr' using ok by (simp add: leads_def)
  show ?thesis
    using assms(3) l b s by (auto simp: flow_step_def Let_def split: if_split_asm option.split_asm)
qed

lemma branch_leads:
  assumes "env_ok e" "task_ready e (Branches fr cur op bs) st" "act = branch_action e fr cur op st br"
    "branch_step e fr cur op rest st act = Jump t' st'"
  shows "leads e (butlast (cf_path st)) st t' st'"
proof -
  have ok: "flow_ok e st" "cf_path st \<noteq> []" "decoded st cur" "ce_read e cur = Some op" using assms(2) by auto
  have s: "leads e (butlast (cf_path st)) st (Branches fr' cur op bs') st''" if "book st st''" for fr' bs' st''
    using booked [OF that ok(1)] ok by (auto simp: leads_def)
  have r: "leads e (butlast (cf_path st)) st (Branches fr' cur op bs') st" for fr' bs' using ok by (simp add: leads_def)
  show ?thesis
  proof (cases act)
    case (Table jt)
    then have c: "is_jump_table_candidate op"
      using assms(3) by (auto simp: branch_action_def split: option.split_asm if_split_asm)
    have v: "di_va op = cur" using env_read(1) [OF assms(1) ok(4)] .
    show ?thesis
      using assms(4) Table fold_table_steps [OF ok(4) c ok(1,3), of "jt_targets jt"] ok
      by (auto simp: branch_step_def leads_def v)
  qed (use assms(4) s [OF book_after_call] s [OF book_note_wait] r in \<open>auto simp: branch_step_def\<close>)
qed

lemma jump_trace:
  assumes "env_ok e" "task_step e t st = Jump t' st'" "task_ready e t st"
  shows "leads e (path_after t st) st t' st'"
proof (cases t)
  case (Flow fr)
  then show ?thesis using flow_leads [OF assms(1)] assms(2,3) by simp
next
  case (Branches fr cur op bs)
  show ?thesis
  proof (cases "bs = []")
    case True
    then show ?thesis using Branches assms(2,3) by (auto simp: leads_def)
  next
    case False
    then show ?thesis using Branches branch_leads [OF assms(1) _ refl] assms(2,3) by (metis path_after.simps(2) task_step.simps(3))
  qed
next
  case (Drain fs)
  have "flow_ok e st" "length (cf_path st) < kMaxDescentDepth" using assms(3) Drain by auto
  then show ?thesis
    using Drain assms(2) booked [OF book_block, of e st] by (cases fs) (auto simp: leads_def split: if_split_asm)
next
  case (Unblock fs still)
  then show ?thesis using assms(2,3) by (cases fs) (auto simp: leads_def split: if_split_asm)
next
  case (Analyze va)
  have ok: "flow_ok e st" "length (cf_path st) < kMaxDescentDepth" "va \<in> cf_reported st" using assms(3) Analyze by auto
  from assms(2) Analyze have n: "va \<notin> dv_analyzed st" "run_fmods e va st = Some st'" "t' = Script (ce_fmod e st' va)"
    by (auto simp: analyze_step_def split: if_split_asm option.split_asm)
  have "cf_path st' = cf_path st" using run_fmods_effect [OF _ n(2)] ok(1) by (simp add: flow_ok_def)
  then show ?thesis
    using cf_step.analyze [OF n(1) ok(3) n(2)] run_fmods_ok [OF ok(1) n(1) ok(3) n(2)] ok(2) n(3) Analyze
    by (auto simp: leads_def)
next
  case (Freed fs)
  then show ?thesis using assms(2) by (cases fs) auto
next
  case (Script s)
  then show ?thesis using assms(2) by (cases s) auto
qed (use assms(2) in \<open>auto simp: entry_step_def report_step_def split: if_split_asm\<close>)

text \<open>After a call: what it found is kept, and the path is as the task says.\<close>

definition returns_to :: "'f cf_env \<Rightarrow> 'f task \<Rightarrow> 'f discovery \<Rightarrow> 'f discovery \<Rightarrow> bool" where
  "returns_to e t st s \<longleftrightarrow> flow_ok e s \<and> grows st s \<and> cf_path s = path_after t st"

lemma call_trace:
  assumes "env_ok e" "task_step e t st = Call t' st' k" "task_ready e t st"
  shows "(cf_step e)\<^sup>*\<^sup>* st st' \<and> task_ready e t' st' \<and>
     (\<forall>s. returns_to e t' st' s \<longrightarrow> leads e (path_after t st) s (fst (k s)) (snd (k s)))"
proof (cases t)
  case (Entry va)
  have ok: "flow_ok e st" "length (cf_path st) < kMaxDescentDepth" using assms(3) Entry by auto
  from assms(2) Entry have n: "va \<notin> cf_functions st" "card (cf_functions st) < kMaxFunctionsPerImage"
    "t' = Flow (new_frame va)" "st' = enter va st"
    "k = (\<lambda>s. if cf_waits s va = None then (Report va, s) else (Freed [], hold va s))"
    by (auto simp: entry_step_def split: if_split_asm)
  have "leads e (cf_path st) s (fst (k s)) (snd (k s))" if "returns_to e t' st' s" for s
    using that ok(2) n(3-5) booked [OF book_hold [of s va], of e]
    by (auto simp: returns_to_def leads_def enter_def)
  then show ?thesis
    using cf_step.enter [OF n(1) ok(2) n(2), of e] enter_ok [OF ok(1) n(1) ok(2) n(2)] n(3,4) Entry
    by (auto simp: enter_def)
next
  case (Branches fr cur op bs)
  have ok: "flow_ok e st" "cf_path st \<noteq> []" "decoded st cur" "ce_read e cur = Some op" using assms(3) Branches by auto
  let ?act = "branch_action e fr cur op st (last bs)"
  from assms(2) Branches have b: "branch_step e fr cur op (butlast bs) st ?act = Call t' st' k"
    by (auto split: if_split_asm)
  then obtain bva where d: "?act = Descend bva" by (auto simp: branch_step_def split: branch_act.split_asm)
  then have "length (cf_path st) < kMaxDescentDepth"
    by (auto simp: branch_action_def split: option.split_asm if_split_asm)
  moreover from b d have n: "t' = Entry bva" "st' = st" "k = (\<lambda>s. (Branches fr cur op (butlast bs), after_call e cur op s))"
    by (auto simp: branch_step_def)
  moreover have "leads e (butlast (cf_path st)) s (fst (k s)) (snd (k s))" if "returns_to e t' st' s" for s
    using that ok n booked [OF book_after_call [of s e cur op], of e] by (auto simp: returns_to_def leads_def grows_def)
  ultimately show ?thesis using ok(1) Branches by auto
next
  case (Drain fs)
  have ok: "flow_ok e st" "length (cf_path st) < kMaxDescentDepth" using assms(3) Drain by auto
  then show ?thesis using Drain assms(2) by (cases fs) (auto simp: leads_def returns_to_def split: if_split_asm)
next
  case (Unblock fs still)
  have ok: "flow_ok e st" "length (cf_path st) < kMaxDescentDepth" using assms(3) Unblock by auto
  obtain f fs' where f: "fs = f # fs'" using assms(2) Unblock by (cases fs) auto
  then have n: "f \<notin> set (cf_path st)" "t' = Entry f" "st' = reopen f st" "k = (\<lambda>s. (Unblock fs' still, s))"
    using assms(2) Unblock by (auto split: if_split_asm)
  show ?thesis
    using booked [OF book_reopen [OF n(1)] ok(1)] ok(2) n(2-4) Unblock by (auto simp: leads_def returns_to_def)
next
  case (Report va)
  have ok: "flow_ok e st" "length (cf_path st) < kMaxDescentDepth" using assms(3) Report by auto
  from assms(2) Report have n: "t' = Analyze va" "st' = mark_reported va st"
    and k: "k = (\<lambda>st'. case cf_awaited st' va of None \<Rightarrow> (Freed [], st')
        | Some ws \<Rightarrow>
            (case release_waits va (ce_order e ws) (cf_waits st') of (m, freed) \<Rightarrow> (Freed freed, drop_waits va m st')))"
    by (auto simp: report_step_def)
  have "leads e (cf_path st) s (fst (k s)) (snd (k s))" if "returns_to e t' st' s" for s
  proof -
    have s: "flow_ok e s" "cf_path s = cf_path st" using that n by (auto simp: returns_to_def mark_reported_def)
    show ?thesis
      using booked [OF book_drop_waits s(1)] s ok(2) unfolding k by (auto simp: leads_def split: option.split prod.split)
  qed
  then show ?thesis
    using booked [OF book_reported ok(1), of va] ok(2) n Report by (auto simp: mark_reported_def)
next
  case (Freed fs)
  have ok: "flow_ok e st" "length (cf_path st) < kMaxDescentDepth" using assms(3) Freed by auto
  obtain w ws where w: "fs = w # ws" using assms(2) Freed by (cases fs) auto
  then have n: "t' = Analyze w" "st' = free_waiter w st" "k = (\<lambda>s. (Freed ws, s))" using assms(2) Freed by auto
  show ?thesis
    using booked [OF book_free ok(1), of w] ok(2) n Freed by (auto simp: leads_def returns_to_def free_waiter_def)
next
  case (Script s)
  have ok: "flow_ok e st" "length (cf_path st) < kMaxDescentDepth" using assms(3) Script by auto
  then show ?thesis
    using assms(2) Script booked [OF book_blocked(2) ok(1)] by (cases s) (auto simp: leads_def returns_to_def)
qed (use assms(2) in \<open>auto simp: flow_step_def analyze_step_def Let_def split: if_split_asm option.split_asm\<close>)

lemma runs_trace:
  assumes "env_ok e" "cf_runs e t st y" "task_ready e t st"
  shows "(cf_step e)\<^sup>*\<^sup>* st y \<and> cf_path y = path_after t st"
  using assms(2,3)
proof (induction rule: cf_runs.induct)
  case (finish t st y)
  then show ?case using finish_trace by blast
next
  case (jump t st t' st' y)
  then show ?case using jump_trace [OF assms(1) jump(1)] by (auto simp: leads_def)
next
  case (call t st t' st' k s y)
  note c = call_trace [OF assms(1) call(1) call(6)]
  have s: "(cf_step e)\<^sup>*\<^sup>* st' s" "cf_path s = path_after t' st'" using call(4) c by auto
  then have "returns_to e t' st' s"
    using cf_steps_ok [OF assms(1) s(1)] c task_ready_ok by (auto simp: returns_to_def)
  then have l: "leads e (path_after t st) s (fst (k s)) (snd (k s))" using c by blast
  then have "(cf_step e)\<^sup>*\<^sup>* (snd (k s)) y" "cf_path y = path_after (fst (k s)) (snd (k s))"
    using call(5) by (auto simp: leads_def)
  moreover have "(cf_step e)\<^sup>*\<^sup>* st (snd (k s))" using c s(1) l by (auto simp: leads_def intro: rtranclp_trans)
  ultimately show ?case using l by (auto simp: leads_def intro: rtranclp_trans)
qed

end
