(* ===== verification/Code_Flow_Correct.thy ===== *)
theory Code_Flow_Correct
  imports Code_Flow_Invariant Emu_Keeps
begin

text \<open>
  Every run of the code flow ends, and what making a function or a pointer does to the state.
\<close>

section \<open>Every run ends\<close>

text \<open>What is left to find: addresses without a location, and functions that were not analyzed.\<close>

definition unfound :: "'f discovery \<Rightarrow> nat" where
  "unfound st = card {x. \<not> is_defined st x} + card (- dv_analyzed st)"

lemma unfound_grows:
  assumes "grows st st'"
  shows "unfound st' \<le> unfound st"
proof -
  have "{x. \<not> is_defined st' x} \<subseteq> {x. \<not> is_defined st x}" "- dv_analyzed st' \<subseteq> - dv_analyzed st"
    using assms by (auto simp: grows_def)
  then show ?thesis unfolding unfound_def by (intro add_mono card_mono) auto
qed

lemma unfound_opcode:
  assumes "env_ok e" "locations_ok e st" "\<not> is_defined st va" "ce_read e va = Some op"
  shows "unfound (on_opcode va op brs st) < unfound st"
proof -
  have "is_defined (on_opcode va op brs st) va"
    using put_location_defines [OF assms(2) env_read(5) [OF assms(1,4)]] same_locations_defined [OF on_opcode_locations] by metis
  then have "{x. \<not> is_defined (on_opcode va op brs st) x} \<subset> {x. \<not> is_defined st x}"
    using on_opcode_grows [OF assms(2,3)] assms(3) by (auto simp: grows_def)
  then have "card {x. \<not> is_defined (on_opcode va op brs st) x} < card {x. \<not> is_defined st x}"
    by (intro psubset_card_mono) auto
  then show ?thesis by (simp add: unfound_def on_opcode_def)
qed

lemma unfound_analyzed:
  assumes "locations_ok e st" "va \<notin> dv_analyzed st" "run_fmods e va st = Some st'"
  shows "unfound st' < unfound st"
proof -
  note r = run_fmods_effect [OF assms(1,3)]
  have "- dv_analyzed st' \<subset> - dv_analyzed st" using r assms(2) by auto
  then have "card (- dv_analyzed st') < card (- dv_analyzed st)" by (intro psubset_card_mono) auto
  moreover have "is_defined st' = is_defined st" using r same_locations_defined by blast
  ultimately show ?thesis by (simp add: unfound_def)
qed

lemma unfound_book: "book st st' \<Longrightarrow> unfound st' = unfound st"
  by (simp add: unfound_def is_defined_def book_defs)

lemma unfound_enter [simp]: "unfound (enter va st) = unfound st"
  by (simp add: unfound_def is_defined_def enter_def)

lemma unfound_leave [simp]: "unfound (leave st) = unfound st"
  by (simp add: unfound_def is_defined_def leave_def)

lemma unfound_table: "unfound (fold (on_branch_table va) ts st) = unfound st"
  by (induction ts arbitrary: st) (simp_all add: unfound_def is_defined_def on_branch_table_def)

lemmas unfound_booking [simp] =
  unfound_book [OF book_after_call] unfound_book [OF book_hold] unfound_book [OF book_note_wait]
  unfound_book [OF book_block] unfound_book [OF book_reported] unfound_book [OF book_drop_waits]
  unfound_book [OF book_free] unfound_book [OF book_blocked(1)] unfound_book [OF book_blocked(2)]

lemma unfound_reopen [simp]: "unfound (reopen f st) = unfound st"
  by (simp add: unfound_def is_defined_def reopen_def)

lemma leads_unfound:
  "env_ok e \<Longrightarrow> flow_ok e st \<Longrightarrow> leads e p st t' st' \<Longrightarrow> unfound st' \<le> unfound st"
  using cf_steps_ok unfound_grows by (fastforce simp: leads_def)

text \<open>
  As long as nothing is found, the functions deferred for recursion do not become more: but for the
  loops over those, and for the targets of a flow under way.
\<close>

fun blocked_bound :: "'f task \<Rightarrow> 'f discovery \<Rightarrow> nat option" where
  "blocked_bound (Flow fr) st = (if ff_targets fr = [] then Some (length (cf_blocked st)) else None)"
| "blocked_bound (Branches fr cur op bs) st = None"
| "blocked_bound (Drain fs) st = (if fs = [] then Some (length (cf_blocked st)) else None)"
| "blocked_bound (Unblock fs still) st = Some (length fs + length still)"
| "blocked_bound t st = Some (length (cf_blocked st))"

definition within :: "nat option \<Rightarrow> nat \<Rightarrow> bool" where
  "within b n \<longleftrightarrow> (case b of None \<Rightarrow> True | Some m \<Rightarrow> n \<le> m)"

lemma after_call_blocked [simp]: "cf_blocked (after_call e cur op st) = cf_blocked st"
  by (simp add: after_call_def suppress_def)

lemma finish_bound: "task_step e t st = Finish y \<Longrightarrow> within (blocked_bound t st) (length (cf_blocked y))"
proof (cases t)
  case (Unblock fs still)
  assume "task_step e t st = Finish y"
  then show ?thesis using Unblock by (cases fs) (auto simp: within_def split: if_split_asm)
next
  case (Script s)
  assume "task_step e t st = Finish y"
  then show ?thesis using Script by (cases s) (auto simp: within_def)
next
  case (Freed fs)
  assume "task_step e t st = Finish y"
  then show ?thesis using Freed by (cases fs) (auto simp: within_def)
next
  case (Drain fs)
  assume "task_step e t st = Finish y"
  then show ?thesis using Drain by (cases fs) (auto simp: within_def split: if_split_asm)
qed (auto simp: entry_step_def flow_step_def report_step_def analyze_step_def Let_def within_def
      split: if_split_asm option.split_asm)

lemma jump_bound:
  assumes "env_ok e" "task_step e t st = Jump t' st'" "task_ready e t st" "unfound st' = unfound st"
    "within (blocked_bound t' st') n"
  shows "within (blocked_bound t st) n"
proof (cases t)
  case (Flow fr)
  have l: "locations_ok e st" using assms(3) Flow by (simp add: flow_ok_def)
  have "unfound (on_opcode cur op brs st) \<noteq> unfound st" if "\<not> is_defined st cur" "ce_read e cur = Some op" for cur op brs
    using unfound_opcode [OF assms(1) l that, of brs] by simp
  then show ?thesis
    using assms(2,4,5) Flow
    by (auto simp: flow_step_def Let_def within_def leave_def split: if_split_asm option.split_asm)
next
  case (Drain fs)
  then show ?thesis using assms(2,5) by (cases fs) (auto simp: within_def split: if_split_asm)
next
  case (Unblock fs still)
  then show ?thesis using assms(2,5) by (cases fs) (auto simp: within_def split: if_split_asm)
next
  case (Analyze va)
  have l: "locations_ok e st" using assms(3) Analyze by (simp add: flow_ok_def)
  show ?thesis
    using assms(2,4) Analyze unfound_analyzed [OF l, of va st']
    by (auto simp: analyze_step_def split: if_split_asm option.split_asm)
next
  case (Freed fs)
  then show ?thesis using assms(2) by (cases fs) auto
next
  case (Script s)
  then show ?thesis using assms(2) by (cases s) auto
qed (use assms(2) in \<open>auto simp: entry_step_def report_step_def within_def split: if_split_asm\<close>)

lemma call_bound:
  assumes "task_step e t st = Call t' st' k" "within (blocked_bound t' st') (length (cf_blocked s))"
    "within (blocked_bound (fst (k s)) (snd (k s))) n"
  shows "within (blocked_bound t st) n"
proof (cases t)
  case (Entry va)
  then show ?thesis
    using assms
    by (auto simp: entry_step_def within_def new_frame_def enter_def hold_def split: if_split_asm)
next
  case (Drain fs)
  then show ?thesis using assms by (cases fs) (auto simp: within_def split: if_split_asm)
next
  case (Unblock fs still)
  then show ?thesis using assms by (cases fs) (auto simp: within_def split: if_split_asm)
next
  case (Report va)
  then show ?thesis
    using assms
    by (auto simp: report_step_def within_def mark_reported_def drop_waits_def split: option.split_asm prod.split_asm)
next
  case (Freed fs)
  then show ?thesis using assms by (cases fs) (auto simp: within_def free_waiter_def)
next
  case (Script s)
  then show ?thesis using assms by (cases s) (auto simp: within_def)
qed (use assms(1) in \<open>auto simp: flow_step_def analyze_step_def Let_def within_def split: if_split_asm option.split_asm\<close>)

lemma runs_bound:
  assumes "env_ok e" "cf_runs e t st y" "task_ready e t st" "unfound y = unfound st"
  shows "within (blocked_bound t st) (length (cf_blocked y))"
  using assms(2-4)
proof (induction rule: cf_runs.induct)
  case (finish t st y)
  then show ?case using finish_bound by blast
next
  case (jump t st t' st' y)
  have l: "leads e (path_after t st) st t' st'" using jump_trace [OF assms(1) jump(1,4)] .
  then have r: "task_ready e t' st'" by (simp add: leads_def)
  have "unfound st' \<le> unfound st" using leads_unfound [OF assms(1) task_ready_ok [OF jump(4)] l] .
  moreover have "unfound y \<le> unfound st'"
    using runs_trace [OF assms(1) jump(2) r] cf_steps_ok [OF assms(1) _ task_ready_ok [OF r]] unfound_grows by blast
  ultimately have "unfound st' = unfound st" using jump(5) by simp
  then show ?case using jump_bound [OF assms(1) jump(1,4)] jump(3) [OF r] jump(5) by simp
next
  case (call t st t' st' k s y)
  note c = call_trace [OF assms(1) call(1) call(6)]
  have r: "task_ready e t' st'" using c by blast
  have s: "(cf_step e)\<^sup>*\<^sup>* st' s" "cf_path s = path_after t' st'" using runs_trace [OF assms(1) call(2) r] by auto
  have os: "flow_ok e s" "grows st' s" using cf_steps_ok [OF assms(1) s(1) task_ready_ok [OF r]] by auto
  then have l: "leads e (path_after t st) s (fst (k s)) (snd (k s))" using c s(2) by (auto simp: returns_to_def)
  then have r2: "task_ready e (fst (k s)) (snd (k s))" by (simp add: leads_def)
  have "unfound st' \<le> unfound st" using c cf_steps_ok [OF assms(1) _ task_ready_ok [OF call(6)]] unfound_grows by blast
  moreover have "unfound s \<le> unfound st'" using os(2) by (rule unfound_grows)
  moreover have "unfound (snd (k s)) \<le> unfound s" using leads_unfound [OF assms(1) os(1) l] .
  moreover have "unfound y \<le> unfound (snd (k s))"
    using runs_trace [OF assms(1) call(3) r2] cf_steps_ok [OF assms(1) _ task_ready_ok [OF r2]] unfound_grows by blast
  ultimately have "unfound s = unfound st'" "unfound y = unfound (snd (k s))" using call(7) by simp_all
  then show ?case using call_bound [OF call(1)] call(4) [OF r] call(5) [OF r2] by blast
qed

definition ends :: "'f cf_env \<Rightarrow> 'f task \<Rightarrow> 'f discovery \<Rightarrow> bool" where
  "ends e t st \<longleftrightarrow> (\<exists>y. cf_runs e t st y)"

lemma ends_finish: "task_step e t st = Finish y \<Longrightarrow> ends e t st"
  by (auto simp: ends_def intro: cf_runs.finish)

lemma ends_jump: "task_step e t st = Jump t' st' \<Longrightarrow> ends e t' st' \<Longrightarrow> ends e t st"
  by (auto simp: ends_def intro: cf_runs.jump)

lemma ends_call:
  assumes "task_step e t st = Call t' st' k" "ends e t' st'"
    "\<And>s. cf_runs e t' st' s \<Longrightarrow> ends e (fst (k s)) (snd (k s))"
  shows "ends e t st"
proof -
  obtain s where s: "cf_runs e t' st' s" using assms(2) by (auto simp: ends_def)
  obtain y where "cf_runs e (fst (k s)) (snd (k s)) y" using assms(3) [OF s] by (auto simp: ends_def)
  then show ?thesis using cf_runs.call [OF assms(1) s] by (auto simp: ends_def)
qed

text \<open>What is known after a call that could be made.\<close>

lemma call_known:
  assumes "env_ok e" "task_step e t st = Call t' st' k" "task_ready e t st" "cf_runs e t' st' s"
  shows "task_ready e (fst (k s)) (snd (k s))" "unfound (snd (k s)) \<le> unfound s" "unfound s \<le> unfound st'"
    "unfound st' \<le> unfound st" "unfound s = unfound st' \<Longrightarrow> within (blocked_bound t' st') (length (cf_blocked s))"
proof -
  note c = call_trace [OF assms(1-3)]
  have r: "task_ready e t' st'" using c by blast
  have s: "(cf_step e)\<^sup>*\<^sup>* st' s" "cf_path s = path_after t' st'" using runs_trace [OF assms(1,4) r] by auto
  have os: "flow_ok e s" "grows st' s" using cf_steps_ok [OF assms(1) s(1) task_ready_ok [OF r]] by auto
  then have l: "leads e (path_after t st) s (fst (k s)) (snd (k s))" using c s(2) by (auto simp: returns_to_def)
  show "task_ready e (fst (k s)) (snd (k s))" using l by (simp add: leads_def)
  show "unfound (snd (k s)) \<le> unfound s" using leads_unfound [OF assms(1) os(1) l] .
  show "unfound s \<le> unfound st'" using os(2) by (rule unfound_grows)
  show "unfound st' \<le> unfound st" using c cf_steps_ok [OF assms(1) _ task_ready_ok [OF assms(3)]] unfound_grows by blast
  show "unfound s = unfound st' \<Longrightarrow> within (blocked_bound t' st') (length (cf_blocked s))"
    using runs_bound [OF assms(1,4) r] by simp
qed

text \<open>The tasks that start with less left to find end.\<close>

definition tasks_end_below :: "'f cf_env \<Rightarrow> nat \<Rightarrow> bool" where
  "tasks_end_below e L \<longleftrightarrow> (\<forall>t st. unfound st < L \<longrightarrow> task_ready e t st \<longrightarrow> ends e t st)"

text \<open>The tasks that satisfy \<open>P\<close> and start with at most that much.\<close>

definition ends_upto :: "'f cf_env \<Rightarrow> nat \<Rightarrow> 'f task \<Rightarrow> bool" where
  "ends_upto e L t \<longleftrightarrow> (\<forall>st. unfound st \<le> L \<longrightarrow> task_ready e t st \<longrightarrow> ends e t st)"

lemma ends_uptoI:
  assumes "tasks_end_below e L" "\<And>st. unfound st = L \<Longrightarrow> task_ready e t st \<Longrightarrow> ends e t st"
  shows "ends_upto e L t"
  using assms by (metis tasks_end_below_def ends_upto_def nat_less_le)

lemma ends_uptoD: "ends_upto e L t \<Longrightarrow> unfound st \<le> L \<Longrightarrow> task_ready e t st \<Longrightarrow> ends e t st"
  by (simp add: ends_upto_def)

text \<open>A call ends when the called task does, and what it goes on with.\<close>

lemma ends_call_upto:
  assumes "env_ok e" "task_step e t st = Call t' st' k" "task_ready e t st" "unfound st \<le> L"
    "ends_upto e L t'" "\<And>s. ends_upto e L (fst (k s))"
  shows "ends e t st"
proof (rule ends_call [OF assms(2)])
  have c: "(cf_step e)\<^sup>*\<^sup>* st st'" "task_ready e t' st'" using call_trace [OF assms(1-3)] by auto
  have "unfound st' \<le> unfound st"
    using cf_steps_ok [OF assms(1) c(1) task_ready_ok [OF assms(3)]] unfound_grows by blast
  then show "ends e t' st'" using ends_uptoD [OF assms(5) _ c(2)] assms(4) by simp
  fix s assume "cf_runs e t' st' s"
  note k = call_known [OF assms(1-3) this]
  have "unfound (snd (k s)) \<le> L" using k(2-4) assms(4) by simp
  then show "ends e (fst (k s)) (snd (k s))" using ends_uptoD [OF assms(6) _ k(1)] by simp
qed

lemma ends_jump_upto:
  assumes "env_ok e" "task_step e t st = Jump t' st'" "task_ready e t st" "unfound st \<le> L" "ends_upto e L t'"
  shows "ends e t st"
proof (rule ends_jump [OF assms(2)])
  have l: "leads e (path_after t st) st t' st'" using jump_trace [OF assms(1-3)] .
  then have "task_ready e t' st'" "unfound st' \<le> unfound st"
    using leads_unfound [OF assms(1) task_ready_ok [OF assms(3)] l] by (simp_all add: leads_def)
  then show "ends e t' st'" using ends_uptoD [OF assms(5)] assms(4) by simp
qed

lemma analyze_ends:
  assumes "env_ok e" "tasks_end_below e L"
  shows "ends_upto e L (Analyze va)"
proof (rule ends_uptoI [OF assms(2)])
  fix st assume st: "unfound st = L" "task_ready e (Analyze va) st"
  have l: "locations_ok e st" using st(2) by (simp add: flow_ok_def)
  show "ends e (Analyze va) st"
  proof (cases "va \<in> dv_analyzed st")
    case True
    then show ?thesis by (intro ends_finish) (simp add: analyze_step_def)
  next
    case False
    obtain st' where r: "run_fmods e va st = Some st'" using run_fmods_total [OF assms(1) l] by blast
    then have t: "task_step e (Analyze va) st = Jump (Script (ce_fmod e st' va)) st'"
      using False by (simp add: analyze_step_def)
    have "task_ready e (Script (ce_fmod e st' va)) st'" using jump_trace [OF assms(1) t st(2)] unfolding leads_def by blast
    then show ?thesis
      using ends_jump [OF t] unfound_analyzed [OF l False r] st(1) assms(2) by (simp add: tasks_end_below_def)
  qed
qed

lemma freed_ends:
  assumes "env_ok e" "tasks_end_below e L"
  shows "ends_upto e L (Freed ws)"
proof (induction ws)
  case Nil
  show ?case by (auto simp: ends_upto_def intro: ends_finish)
next
  case (Cons w ws)
  show ?case
  proof (rule ends_uptoI [OF assms(2)])
    fix st assume st: "unfound st = L" "task_ready e (Freed (w # ws)) st"
    have t: "task_step e (Freed (w # ws)) st = Call (Analyze w) (free_waiter w st) (\<lambda>s. (Freed ws, s))" by simp
    show "ends e (Freed (w # ws)) st"
      using ends_call_upto [OF assms(1) t st(2) _ analyze_ends [OF assms]] st(1) Cons by simp
  qed
qed

lemma report_ends:
  assumes "env_ok e" "tasks_end_below e L"
  shows "ends_upto e L (Report va)"
proof (rule ends_uptoI [OF assms(2)])
  fix st assume st: "unfound st = L" "task_ready e (Report va) st"
  obtain k where t: "task_step e (Report va) st = Call (Analyze va) (mark_reported va st) k" and "\<And>s. \<exists>ws. fst (k s) = Freed ws"
    by (simp add: report_step_def split: option.split prod.split)
  then have "ends_upto e L (fst (k s))" for s using freed_ends [OF assms] by metis
  then show "ends e (Report va) st"
    using ends_call_upto [OF assms(1) t st(2) _ analyze_ends [OF assms]] st(1) by simp
qed

text \<open>A round of the work list: the end of it, an address that is dropped, or one that is decoded.\<close>

lemma flow_cases:
  assumes "env_ok e" "locations_ok e st"
  obtains (out) "flow_step e fr st = Jump (Drain (ff_targets fr)) (leave st)"
  | (pop) fr' where "flow_step e fr st = Jump (Flow fr') st" "length (ff_todo fr') < length (ff_todo fr)"
      "ff_targets fr' = ff_targets fr"
  | (op) t' st' where "flow_step e fr st = Jump t' st'" "unfound st' < unfound st"
proof (cases "ff_todo fr = [] \<or> length (ff_insns fr) \<ge> kMaxInsnsPerFunction")
  case True
  then show ?thesis using out by (simp add: flow_step_def)
next
  case False
  let ?cur = "last (ff_todo fr)" and ?fr1 = "fr\<lparr>ff_todo := butlast (ff_todo fr)\<rparr>"
  let ?fr2 = "?fr1\<lparr>ff_visited := insert ?cur (ff_visited fr)\<rparr>"
  have shorter: "length (butlast (ff_todo fr)) < length (ff_todo fr)" using False by simp
  show ?thesis
  proof (cases "?cur \<in> ff_visited fr")
    case True
    then show ?thesis using pop [of ?fr1] False shorter by (simp add: flow_step_def Let_def)
  next
    case new: False
    show ?thesis
    proof (cases "is_defined st ?cur \<or> in_jt_data fr ?cur \<or> ce_read e ?cur = None")
      case True
      then show ?thesis using pop [of ?fr2] False new shorter by (auto simp: flow_step_def Let_def)
    next
      case un: False
      then obtain op where r: "ce_read e ?cur = Some op" by auto
      then show ?thesis
        using that(3) [OF _ unfound_opcode [OF assms _ r, of "code_branches op"]] False new un
        by (simp add: flow_step_def Let_def)
    qed
  qed
qed

text \<open>With at most so many functions deferred for recursion, an entry ends.\<close>

definition entries_end :: "'f cf_env \<Rightarrow> nat \<Rightarrow> nat \<Rightarrow> bool" where
  "entries_end e L n \<longleftrightarrow>
     (\<forall>va st. unfound st \<le> L \<longrightarrow> length (cf_blocked st) < n \<longrightarrow> task_ready e (Entry va) st \<longrightarrow> ends e (Entry va) st)"

lemma unblock_ends:
  assumes "env_ok e" "tasks_end_below e L" "entries_end e L n"
  shows "unfound st \<le> L \<Longrightarrow> task_ready e (Unblock fs still) st \<Longrightarrow>
     length (cf_blocked st) < n \<or> length (cf_blocked st) \<le> n \<and> set fs \<subseteq> set (cf_blocked st) \<Longrightarrow>
     ends e (Unblock fs still) st"
proof (induction fs arbitrary: still st)
  case Nil
  show ?case by (rule ends_finish) simp
next
  case (Cons f fs)
  show ?case
  proof (cases "f \<notin> set (cf_path st) \<and> f \<notin> cf_reported st")
    case True
    then have t: "task_step e (Unblock (f # fs) still) st = Call (Entry f) (reopen f st) (\<lambda>s. (Unblock fs still, s))"
      by simp
    have less: "length (cf_blocked (reopen f st)) < n"
    proof (cases "f \<in> set (cf_blocked st)")
      case True
      then have "length (remove1 f (cf_blocked st)) < length (cf_blocked st)"
        using length_pos_if_in_set [OF True] by (simp add: length_remove1)
      moreover have "length (cf_blocked st) \<le> n" using Cons.prems(3) by auto
      ultimately show ?thesis by (simp add: reopen_def)
    next
      case False
      then show ?thesis using Cons.prems(3) by (auto simp: reopen_def remove1_idem)
    qed
    show ?thesis
    proof (rule ends_call [OF t])
      have "task_ready e (Entry f) (reopen f st)" using call_trace [OF assms(1) t Cons.prems(2)] by blast
      then show "ends e (Entry f) (reopen f st)" using assms(3) less Cons.prems(1) by (simp add: entries_end_def)
      fix s assume s: "cf_runs e (Entry f) (reopen f st) s"
      note k = call_known [OF assms(1) t Cons.prems(2) s]
      have r: "task_ready e (Unblock fs still) s" using k(1) by simp
      have "ends e (Unblock fs still) s"
      proof (cases "unfound s < L")
        case True
        then show ?thesis using assms(2) r by (simp add: tasks_end_below_def)
      next
        case False
        then have "unfound s = unfound (reopen f st)" using k(3,4) Cons.prems(1) by simp
        then have "length (cf_blocked s) < n" using k(5) less by (simp add: within_def)
        then show ?thesis using Cons.IH [OF _ r] k(3,4) Cons.prems(1) by simp
      qed
      then show "ends e (fst ((\<lambda>s. (Unblock fs still, s)) s)) (snd ((\<lambda>s. (Unblock fs still, s)) s))" by simp
    qed
  next
    case False
    then have t: "task_step e (Unblock (f # fs) still) st = Jump (Unblock fs (still @ [f])) st" by auto
    have "task_ready e (Unblock fs (still @ [f])) st" using Cons.prems(2) by simp
    then show ?thesis using ends_jump [OF t] Cons.IH Cons.prems by auto
  qed
qed

lemma entries_ends:
  assumes "env_ok e" "tasks_end_below e L"
  shows "entries_end e L n"
proof (induction n)
  case 0
  show ?case by (simp add: entries_end_def)
next
  case (Suc n)
  have d: "ends e (Drain []) st" if "unfound st \<le> L" "task_ready e (Drain []) st" "length (cf_blocked st) \<le> n" for st
  proof (rule ends_jump)
    show "task_step e (Drain []) st = Jump (Unblock (cf_blocked st) []) st" by simp
    show "ends e (Unblock (cf_blocked st) []) st"
      using unblock_ends [OF assms Suc.IH that(1), of "cf_blocked st" "[]"] that by simp
  qed
  have f: "ends e (Flow fr) st"
    if "unfound st \<le> L" "task_ready e (Flow fr) st" "ff_targets fr = []" "length (cf_blocked st) \<le> n" for fr st
    using that
  proof (induction "length (ff_todo fr)" arbitrary: fr st rule: less_induct)
    case less
    have l: "locations_ok e st" using less.prems(2) by (simp add: flow_ok_def)
    show ?case
    proof (cases rule: flow_cases [OF assms(1) l, of fr, case_names out pop op])
      case out
      then have t: "task_step e (Flow fr) st = Jump (Drain []) (leave st)" using less.prems(3) by simp
      have "task_ready e (Drain []) (leave st)" using jump_trace [OF assms(1) t less.prems(2)] unfolding leads_def by blast
      then show ?thesis using ends_jump [OF t] d less.prems by (simp add: leave_def unfound_def is_defined_def)
    next
      case (pop fr')
      then have t: "task_step e (Flow fr) st = Jump (Flow fr') st" by simp
      have "task_ready e (Flow fr') st" using less.prems(2) by simp
      then show ?thesis using ends_jump [OF t] less.hyps [OF pop(2) less.prems(1) _ _ less.prems(4)] pop(3) less.prems(3) by simp
    next
      case (op t' st')
      then have t: "task_step e (Flow fr) st = Jump t' st'" by simp
      have "task_ready e t' st'" using jump_trace [OF assms(1) t less.prems(2)] unfolding leads_def by blast
      then show ?thesis using ends_jump [OF t] op(2) less.prems(1) assms(2) by (simp add: tasks_end_below_def)
    qed
  qed
  show ?case
    unfolding entries_end_def
  proof (intro allI impI)
    fix va and st :: "'a discovery"
    assume st: "unfound st \<le> L" "length (cf_blocked st) < Suc n" "task_ready e (Entry va) st"
    show "ends e (Entry va) st"
    proof (cases "card (cf_functions st) \<ge> kMaxFunctionsPerImage \<or> va \<in> cf_functions st")
      case True
      then show ?thesis by (intro ends_finish [where y = st]) (auto simp: entry_step_def)
    next
      case False
      let ?k = "\<lambda>s :: 'a discovery. if cf_waits s va = None then (Report va :: 'a task, s) else (Freed [], hold va s)"
      have t: "task_step e (Entry va) st = Call (Flow (new_frame va)) (enter va st) ?k"
        using False by (simp add: entry_step_def)
      show ?thesis
      proof (rule ends_call [OF t])
        have "task_ready e (Flow (new_frame va)) (enter va st)" using call_trace [OF assms(1) t st(3)] by blast
        then show "ends e (Flow (new_frame va)) (enter va st)"
          using f [of "enter va st" "new_frame va"] st(1,2) by (simp add: new_frame_def enter_def unfound_def is_defined_def)
        fix s assume s: "cf_runs e (Flow (new_frame va)) (enter va st) s"
        note k = call_known [OF assms(1) t st(3) s]
        have "ends_upto e L (fst (?k s))" using report_ends [OF assms] freed_ends [OF assms] by simp
        moreover have "unfound (snd (?k s)) \<le> L"
          by (rule le_trans [OF k(2) le_trans [OF k(3) le_trans [OF k(4) st(1)]]])
        ultimately show "ends e (fst (?k s)) (snd (?k s))" using ends_uptoD k(1) by blast
      qed
    qed
  qed
qed

lemma entry_ends:
  assumes "env_ok e" "tasks_end_below e L"
  shows "ends_upto e L (Entry va)"
  unfolding ends_upto_def
proof (intro allI impI)
  fix st assume "unfound st \<le> L" "task_ready e (Entry va) st"
  then show "ends e (Entry va) st"
    using entries_ends [OF assms, of "Suc (length (cf_blocked st))"] by (simp add: entries_end_def)
qed

lemma unblock_all_ends:
  assumes "env_ok e" "tasks_end_below e L"
  shows "ends_upto e L (Unblock fs still)"
proof (induction fs arbitrary: still)
  case Nil
  show ?case by (auto simp: ends_upto_def intro: ends_finish)
next
  case (Cons f fs)
  show ?case
  proof (rule ends_uptoI [OF assms(2)])
    fix st assume st: "unfound st = L" "task_ready e (Unblock (f # fs) still) st"
    show "ends e (Unblock (f # fs) still) st"
    proof (cases "f \<notin> set (cf_path st) \<and> f \<notin> cf_reported st")
      case True
      then have t: "task_step e (Unblock (f # fs) still) st = Call (Entry f) (reopen f st) (\<lambda>s. (Unblock fs still, s))"
        by simp
      show ?thesis using ends_call_upto [OF assms(1) t st(2) _ entry_ends [OF assms]] st(1) Cons by simp
    next
      case False
      then show ?thesis
        using st Cons by (intro ends_jump_upto [OF assms(1), where L = L]) auto
    qed
  qed
qed

lemma drain_ends:
  assumes "env_ok e" "tasks_end_below e L"
  shows "ends_upto e L (Drain fs)"
proof (induction fs)
  case Nil
  show ?case
  proof (rule ends_uptoI [OF assms(2)])
    fix st assume "unfound st = L" "task_ready e (Drain []) st"
    then show "ends e (Drain []) st"
      using unblock_all_ends [OF assms] by (intro ends_jump_upto [OF assms(1), where L = L]) auto
  qed
next
  case (Cons f fs)
  show ?case
  proof (rule ends_uptoI [OF assms(2)])
    fix st assume st: "unfound st = L" "task_ready e (Drain (f # fs)) st"
    consider "f \<in> set (cf_path st)" | "f \<notin> set (cf_path st)" "f \<notin> cf_reported st" | "f \<notin> set (cf_path st)" "f \<in> cf_reported st"
      by blast
    then show "ends e (Drain (f # fs)) st"
    proof cases
      case 1
      then show ?thesis using st Cons by (intro ends_jump_upto [OF assms(1), where L = L]) auto
    next
      case 2
      then have t: "task_step e (Drain (f # fs)) st = Call (Entry f) st (\<lambda>s. (Drain fs, s))" by simp
      show ?thesis using ends_call_upto [OF assms(1) t st(2) _ entry_ends [OF assms]] st(1) Cons by simp
    next
      case 3
      then show ?thesis using st Cons by (intro ends_jump_upto [OF assms(1), where L = L]) auto
    qed
  qed
qed

lemma flow_ends:
  assumes "env_ok e" "tasks_end_below e L"
  shows "ends_upto e L (Flow fr)"
proof (induction "length (ff_todo fr)" arbitrary: fr rule: less_induct)
  case less
  show ?case
  proof (rule ends_uptoI [OF assms(2)])
    fix st assume st: "unfound st = L" "task_ready e (Flow fr) st"
    have l: "locations_ok e st" using st(2) by (simp add: flow_ok_def)
    show "ends e (Flow fr) st"
    proof (cases rule: flow_cases [OF assms(1) l, of fr, case_names out pop op])
      case out
      then show ?thesis using st drain_ends [OF assms] by (intro ends_jump_upto [OF assms(1), where L = L]) auto
    next
      case (pop fr')
      then show ?thesis using st less by (intro ends_jump_upto [OF assms(1), where L = L]) auto
    next
      case (op t' st')
      then have t: "task_step e (Flow fr) st = Jump t' st'" by simp
      have "task_ready e t' st'" using jump_trace [OF assms(1) t st(2)] unfolding leads_def by blast
      then show ?thesis using ends_jump [OF t] op(2) st(1) assms(2) by (simp add: tasks_end_below_def)
    qed
  qed
qed

lemma branches_end:
  assumes "env_ok e" "tasks_end_below e L"
  shows "ends_upto e L (Branches fr cur op bs)"
proof (induction "(length (filter (\<lambda>br. cfb_target br = None) bs), length bs)" arbitrary: fr bs
    rule: wf_induct_rule [OF wf_lex_prod [OF wf_less_than wf_less_than]])
  case less: (1 bs)
  show ?case
  proof (rule ends_uptoI [OF assms(2)])
    fix st assume st: "unfound st = L" "task_ready e (Branches fr cur op bs) st"
    show "ends e (Branches fr cur op bs) st"
    proof (cases "bs = []")
      case True
      then show ?thesis using st flow_ends [OF assms] by (intro ends_jump_upto [OF assms(1), where L = L]) auto
    next
      case False
      then obtain bs' br where bs: "bs = bs' @ [br]" by (metis append_butlast_last_id)
      let ?act = "branch_action e fr cur op st br"
      have t: "task_step e (Branches fr cur op bs) st = branch_step e fr cur op bs' st ?act" using bs by simp
      have ih: "ends_upto e L (Branches fr' cur op bs')" for fr'
        using less [of bs' fr'] bs by auto
      show ?thesis
      proof (cases ?act)
        case (Table jt)
        then have n: "cfb_target br = None" by (auto simp: branch_action_def split: option.split_asm if_split_asm)
        have "filter (\<lambda>br. cfb_target br = None) (map case_branch ts) = []" for ts
          by (induction ts) (simp_all add: case_branch_def)
        then have "ends_upto e L (Branches fr' cur op (bs' @ map case_branch ts))" for fr' ts
          using less [of "bs' @ map case_branch ts" fr'] bs n by simp
        then show ?thesis
          using st t Table by (intro ends_jump_upto [OF assms(1), where L = L]) (auto simp: branch_step_def)
      next
        case (Descend bva)
        then have t': "task_step e (Branches fr cur op bs) st =
            Call (Entry bva) st (\<lambda>s. (Branches fr cur op bs', after_call e cur op s))"
          using t by (simp add: branch_step_def)
        show ?thesis using ends_call_upto [OF assms(1) t' st(2) _ entry_ends [OF assms]] st(1) ih by simp
      qed (use st t ih in \<open>auto simp: branch_step_def intro!: ends_jump_upto [OF assms(1), where L = L]\<close>)
    qed
  qed
qed

lemma script_ends:
  assumes "env_ok e" "tasks_end_below e L"
  shows "ends_upto e L (Script s)"
proof (induction s)
  case (F_Done f)
  show ?case by (auto simp: ends_upto_def intro: ends_finish)
next
  case (F_Make va f k)
  show ?case
  proof (rule ends_uptoI [OF assms(2)])
    fix st assume st: "unfound st = L" "task_ready e (Script (F_Make va f k)) st"
    have t: "task_step e (Script (F_Make va f k)) st = Call (Entry va) (st\<lparr>dv_flirt := f\<rparr>) (\<lambda>s. (Script (k s), s))" by simp
    show "ends e (Script (F_Make va f k)) st"
      using ends_call_upto [OF assms(1) t st(2) _ entry_ends [OF assms]] st(1) F_Make by simp
  qed
qed

lemma tasks_end:
  assumes "env_ok e"
  shows "tasks_end_below e L"
proof (induction L)
  case 0
  show ?case by (simp add: tasks_end_below_def)
next
  case (Suc L)
  have "ends_upto e L t" for t
    using entry_ends [OF assms Suc] flow_ends [OF assms Suc] branches_end [OF assms Suc] drain_ends [OF assms Suc]
      unblock_all_ends [OF assms Suc] report_ends [OF assms Suc] freed_ends [OF assms Suc] analyze_ends [OF assms Suc]
      script_ends [OF assms Suc] by (cases t) auto
  then show ?case by (simp add: tasks_end_below_def ends_upto_def less_Suc_eq_le)
qed

text \<open>A function is made by a run that ends, takes steps only and leaves the active path as it was.\<close>

lemma make_function_steps:
  assumes "env_ok e" "flow_ok e st" "length (cf_path st) < kMaxDescentDepth"
  shows "\<exists>st'. make_function e va st = Some st' \<and> (cf_step e)\<^sup>*\<^sup>* st st' \<and> flow_ok e st' \<and> grows st st' \<and>
     cf_path st' = cf_path st"
proof -
  have r: "task_ready e (Entry va) st" using assms by simp
  have "ends e (Entry va) st" using tasks_end [OF assms(1), of "Suc (unfound st)"] r unfolding tasks_end_below_def by blast
  then obtain st' where st': "cf_runs e (Entry va) st st'" unfolding ends_def by blast
  have s: "(cf_step e)\<^sup>*\<^sup>* st st'" "cf_path st' = cf_path st" using runs_trace [OF assms(1) st' r] by auto
  show ?thesis
    using st' s cf_steps_ok [OF assms(1) s(1) assms(2)] by (auto simp: make_function_def cf_run_iff)
qed

section \<open>Making a function\<close>

text \<open>The instruction at the entry is recorded, and the function is reported or held.\<close>

lemma entry_recorded:
  fixes e :: "'f cf_env"
  assumes e: "env_ok e" and ok: "flow_ok e st" and room: "length (cf_path st) < kMaxDescentDepth"
    "card (cf_functions st) < kMaxFunctionsPerImage" and new: "va \<notin> cf_functions st" "\<not> is_defined st va"
    and read: "ce_read e va = Some op" and run: "make_function e va st = Some st'"
  shows "decoded st' va \<and> (va \<in> cf_reported st' \<or> va \<in> cf_held st')"
proof -
  let ?k = "\<lambda>st' :: 'f discovery. if cf_waits st' va = None then (Report va :: 'f task, st') else (Freed [], hold va st')"
  have "cf_runs e (Entry va) st st'" using run by (simp add: make_function_def cf_run_iff)
  then obtain s where s: "cf_runs e (Flow (new_frame va)) (enter va st) s" "cf_runs e (fst (?k s)) (snd (?k s)) st'"
  proof cases
    case (call t' m k y)
    then have eq: "t' = Flow (new_frame va)" "m = enter va st" "k = ?k" using room(2) new(1) by (auto simp: entry_step_def)
    have "cf_runs e (fst (?k y)) (snd (?k y)) st'" using call(3) unfolding eq(3) .
    with call(2) show ?thesis unfolding eq(1,2) by (rule that)
  qed (use room(2) new(1) in \<open>auto simp: entry_step_def\<close>)
  let ?fr = "(new_frame va)\<lparr>ff_todo := [], ff_visited := {va}, ff_insns := [(va, op)]\<rparr>"
  let ?st = "on_opcode va op (code_branches op) (enter va st)"
  have u: "\<not> is_defined (enter va st) va" using new(2) by (simp add: is_defined_def enter_def)
  have step: "flow_step e (new_frame va) (enter va st) = Jump (Branches ?fr va op (code_branches op)) ?st"
    using u read by (simp add: flow_step_def new_frame_def kMaxInsnsPerFunction_def in_jt_data_def Let_def)
  have f: "flow_ok e (enter va st)" using enter_ok [OF ok new(1) room] .
  then have l: "locations_ok e (enter va st)" by (simp add: flow_ok_def)
  have d: "decoded ?st va" using on_opcode_decoded [OF l u] by simp
  have "task_ready e (Branches ?fr va op (code_branches op)) ?st"
    using on_opcode_ok [OF e f u read] d read by (simp add: on_opcode_def enter_def)
  moreover have "cf_runs e (Branches ?fr va op (code_branches op)) ?st s"
    using s(1) step by cases auto
  ultimately have t: "(cf_step e)\<^sup>*\<^sup>* ?st s" "cf_path s = cf_path st"
    using runs_trace [OF e, of "Branches ?fr va op (code_branches op)" ?st s] by (auto simp: on_opcode_def enter_def)
  then have so: "flow_ok e s" "decoded s va"
    using cf_steps_ok [OF e t(1)] on_opcode_ok [OF e f u read] d by (auto simp: grows_def)
  show ?thesis
  proof (cases "cf_waits s va")
    case None
    then have r: "cf_runs e (Report va) s st'" using s(2) by simp
    have k: "task_ready e (Report va) s" using so t(2) room(1) by simp
    have steps: "(cf_step e)\<^sup>*\<^sup>* s st'" using runs_trace [OF e r k] by blast
    have "(cf_step e)\<^sup>*\<^sup>* s st' \<and> va \<in> cf_reported st'"
      using r
    proof cases
      case (call t' m k' y)
      then have m: "t' = Analyze va" "m = mark_reported va s" by (auto simp: report_step_def)
      note c = call_trace [OF e call(1) k]
      have a: "(cf_step e)\<^sup>*\<^sup>* m y" "cf_path y = path_after t' m"
        using runs_trace [OF e call(2)] c by auto
      then have g: "flow_ok e y" "grows m y" using cf_steps_ok [OF e a(1)] c task_ready_ok by auto
      then have lead: "leads e (path_after (Report va) s) y (fst (k' y)) (snd (k' y))"
        using c a(2) by (simp add: returns_to_def)
      then have "(cf_step e)\<^sup>*\<^sup>* y st'"
        using runs_trace [OF e call(3)] by (auto simp: leads_def intro: rtranclp_trans)
      then have "grows y st'" using cf_steps_ok [OF e _ g(1)] by blast
      moreover have "va \<in> cf_reported m" using m by (simp add: mark_reported_def)
      ultimately show ?thesis using g(2) steps by (auto simp: grows_def)
    qed (auto simp: report_step_def)
    then show ?thesis using cf_steps_ok [OF e _ so(1)] so(2) by (auto simp: grows_def)
  next
    case (Some ws)
    then have "cf_runs e (Freed []) (hold va s) st'" using s(2) by simp
    then have "st' = hold va s" by cases auto
    then show ?thesis using so(2) by (simp add: hold_def decoded_def)
  qed
qed

lemma put_pointer_ok:
  assumes "env_ok e" "flow_ok e st" "\<not> is_defined st site" "ce_read_ptr e site = Some t"
  shows "flow_ok e (put_location site (ce_ptr_size e) LOC_Pointer st)"
proof -
  let ?st = "put_location site (ce_ptr_size e) LOC_Pointer st"
  have l: "locations_ok e st" using assms(2) by (simp add: flow_ok_def)
  have r: "0 < ce_ptr_size e" "unat site + 2 * unat (ce_ptr_size e) < 2 ^ 64"
    using assms(1,4) by (auto simp: env_ok_def)
  have d: "decoded ?st = decoded st" using decoded_put [OF l assms(3)] by (auto simp: fun_eq_iff)
  have "locations_ok e ?st"
    unfolding locations_ok_def d set_put_location [OF l assms(3)]
    using put_location_fits [OF l assms(3) r(2)] r(1) l by (auto simp: locations_ok_def put_location_def)
  moreover have "xrefs_justified e ?st"
  proof -
    have x: "dv_xrefs ?st = dv_xrefs st" by (simp add: put_location_def)
    show ?thesis using assms(2) unfolding xrefs_justified_def flow_ok_def d x by blast
  qed
  moreover have "functions_ok ?st" using assms(2) by (simp add: flow_ok_def functions_ok_def put_location_def)
  ultimately show ?thesis by (simp add: flow_ok_def)
qed

lemma make_pointer_keeps:
  assumes "env_ok e" "flow_ok e st" "length (cf_path st) < kMaxDescentDepth"
  shows "\<exists>st'. make_pointer e site follow st = Some st' \<and> flow_ok e st' \<and> cf_path st' = cf_path st"
proof (cases "is_defined st site \<or> ce_read_ptr e site = None")
  case True
  then show ?thesis using assms(2) by (auto simp: make_pointer_def)
next
  case False
  then obtain t where t: "\<not> is_defined st site" "ce_read_ptr e site = Some t" by auto
  let ?st = "put_location site (ce_ptr_size e) LOC_Pointer st"
  have ok: "flow_ok e ?st" "cf_path ?st = cf_path st"
    using put_pointer_ok [OF assms(1,2) t] by (simp_all add: put_location_def)
  have "make_pointer e site follow st = (if follow then follow_pointer e t ?st else Some ?st)"
    using t by (simp add: make_pointer_def put_location_def Let_def)
  then show ?thesis
    using ok make_function_steps [OF assms(1) ok(1), of t] assms(3) by (auto simp: follow_pointer_def)
qed

text \<open>
  C40: Making a function ends, whatever code it meets and however its callees, its jumps into
  functions that are being followed and the signature analyzer call for further functions.  The
  instruction at a new entry is recorded, and the function is reported or held; what was recorded
  stays; the path of active functions, of distinct functions and at most 512, is as before; and the
  invariant holds again: what is marked as code is what decodes there, the edges are the branches of
  recorded instructions and the cases of their tables, exactly the instructions without a
  fall-through are marked so, and each function is entered in the list once.
\<close>

theorem make_function_ends:
  assumes "env_ok e" "flow_ok e st" "length (cf_path st) < kMaxDescentDepth"
  shows "\<exists>st'. make_function e va st = Some st' \<and> flow_ok e st' \<and> cf_path st' = cf_path st \<and>
     (\<forall>a. decoded st a \<longrightarrow> decoded st' a) \<and> dv_analyzed st \<subseteq> dv_analyzed st' \<and>
     (va \<notin> cf_functions st \<and> card (cf_functions st) < kMaxFunctionsPerImage \<and> \<not> is_defined st va \<and> ce_read e va \<noteq> None \<longrightarrow>
        decoded st' va \<and> (va \<in> cf_reported st' \<or> va \<in> cf_held st'))"
proof -
  obtain st' where st': "make_function e va st = Some st'" "flow_ok e st'" "grows st st'" "cf_path st' = cf_path st"
    using make_function_steps [OF assms] by blast
  then show ?thesis using entry_recorded [OF assms _ _ _ _ st'(1)] by (auto simp: grows_def)
qed

text \<open>A function that calls another, which returns, and then returns itself.\<close>

definition ret_at :: "u64 \<Rightarrow> decoded_insn" where
  "ret_at va = (plain_insn va 1 (ZM_Flow RET) [])\<lparr>di_is_return := True, di_is_fallthrough := False\<rparr>"

definition call_at :: "u64 \<Rightarrow> u64 \<Rightarrow> decoded_insn" where
  "call_at va t = (plain_insn va 5 (ZM_Flow CALL) [])\<lparr>di_is_call := True, di_branch_target := Some t\<rparr>"

definition flow_env :: "unit cf_env" where
  "flow_env =
     \<lparr>ce_read = (\<lambda>va. if va = 0x1000 then Some (call_at 0x1000 0x2000) else if va = 0x1005 \<or> va = 0x2000 then Some (ret_at va) else None),
      ce_exec = (\<lambda>_. True), ce_jump_table = (\<lambda>_. None), ce_probably_code = (\<lambda>_. False), ce_read_ptr = (\<lambda>_. None),
      ce_ptr_size = 8, ce_api_no_return = (\<lambda>_. False), ce_fmod = (\<lambda>_ _. F_Done ()), ce_order = sorted_list_of_set\<rparr>"

lemma make_function_ends_witness:
  "\<exists>st'. make_function flow_env 0x1000 (new_discovery ()) = Some st' \<and> flow_ok flow_env st' \<and> decoded st' 0x1000"
proof -
  have "env_ok flow_env" by (simp add: env_ok_def flow_env_def call_at_def ret_at_def plain_insn_def)
  moreover have "length (cf_path (new_discovery ())) < kMaxDescentDepth"
    by (simp add: new_discovery_def kMaxDescentDepth_def)
  ultimately obtain st' where "make_function flow_env 0x1000 (new_discovery ()) = Some st'" "flow_ok flow_env st'"
    "0x1000 \<notin> cf_functions (new_discovery ()) \<and> card (cf_functions (new_discovery ())) < kMaxFunctionsPerImage \<and>
      \<not> is_defined (new_discovery ()) 0x1000 \<and> ce_read flow_env 0x1000 \<noteq> None \<longrightarrow> decoded st' 0x1000"
    using make_function_ends [OF _ new_flow_ok [of flow_env "()"], of "0x1000"] by blast
  then show ?thesis
    by (auto simp: new_discovery_def kMaxFunctionsPerImage_def is_defined_def get_location_def flow_env_def)
qed

end
