(* ===== verification/Spec2Isabelle.thy ===== *)
theory Spec2Isabelle
  imports Papa_Prelude Ruleset Digests Json_Writer Flirt_Reader Flirt_Classifier Emu_Correct
    Rule_Roundtrip Pe_Correct Gate_Correct File_Correct Codeblocks_Correct Jump_Correct
    Native_Correct Api_Correct Code_Flow_Correct
begin

text \<open>
  PAPA decides what a Windows program can do.  It parses the PE file, recovers its functions,
  extracts features from them (imports, strings, numbers, mnemonics, ...), and matches a set of
  rules, boolean trees over features, against the features of each scope.  This development
  models the parts of the program that carry its own logic and proves them correct against the
  code, line by line where the code is.  Paths are relative to the root of the repository.

  \<^bold>\<open>The parts and how they meet\<close>

  \<^item> Features (src/features/, include/papa/features/): \<open>Features\<close> has addresses, feature values,
    equality, hashing and the feature set with its indices by kind; \<open>Feature_Eval\<close> has the
    evaluators that scan them (substring, regex, bytes, operating system).  The hash map of the
    code is an association list in insertion order; its bucket order is never observed.
  \<^item> Engine (src/engine.cpp): \<open>Engine\<close> has the statement tree, its full evaluation with the
    matched locations and its quick evaluation; \<open>Rules\<close> has rules, namespaces and the match loop
    that feeds the name of a matched rule back into the feature set.
  \<^item> Rule set (src/rules/): \<open>Feature_Index\<close> (feature_index.cpp) selects the rules that can match;
    \<open>Optimizer\<close> (optimizer.cpp) orders children by cost; \<open>Kahn\<close> is the topological sort inside
    ruleset.cpp over an arbitrary ordered type, and \<open>Ruleset\<close> builds a rule set: subscope
    extraction, indexing, validation, sorting, optimization, matching.
  \<^item> Utilities (src/util/): \<open>Regex_Prefilter\<close> (regex_prefilter.cpp), \<open>Digests\<close> (hash.cpp),
    \<open>Json_Writer\<close> (json_writer.cpp), and the YAML subset of the rules (yaml.cpp): \<open>Yaml_Scan\<close> has
    lines and scalars, \<open>Yaml_Parser\<close> blocks and documents, \<open>Yaml_Roundtrip\<close> what they show.
  \<^item> FLIRT (src/features/extractors/papa_native/flirt/): \<open>Byte_Cursor\<close> and \<open>Flirt_Reader\<close> parse
    IDA signature files, \<open>Flirt_Tree\<close> matches a pattern tree against the bytes of a function, and
    \<open>Flirt_Classifier\<close> turns matches into a name, asking the program for its cross references.
  \<^item> Emulator (src/features/extractors/papa_native/emu/): \<open>Emu_Bits\<close> (bits.h and the 128-bit
    helpers), \<open>Emu_Registers\<close> (registers.cpp), \<open>Emu_Memory\<close> (memory.cpp, taints.cpp),
    \<open>Emu_Operands\<close> and \<open>Emu_Intel\<close> (the two halves of intel_emulator.cpp).  A decoded instruction
    is a record; the decoder that fills it is a third-party library.
  \<^item> PE files (src/pe/): \<open>Pe_Image\<close> has the image and its reads, \<open>Ordinal_Names\<close> the tables of
    ordinal_names.cpp, \<open>Pe_Parser\<close> the parser; \<open>Pe_Correct\<close> what they promise.
  \<^item> Rule parser (src/rules/parser.cpp, com_lookup.cpp): \<open>Rule_Literals\<close> has numbers, byte strings
    and ranges, \<open>Com_Lookup\<close> the COM identifiers, \<open>Rule_Parser\<close> statements and metadata;
    \<open>Parsed_Rules\<close> and \<open>Rule_Roundtrip\<close> what they promise.
  \<^item> Capabilities (src/capabilities/): \<open>Capabilities\<close> has the limitation gate, the passes by scope
    and the worker pool; \<open>Capabilities_Correct\<close> and \<open>Gate_Correct\<close> what they promise.
  \<^item> File features (src/features/extractors/): \<open>String_Utils\<close> and \<open>File_Features\<close> have the string
    passes, symbol names, embedded files and the extractor of a PE file; \<open>File_Correct\<close> the claims.
  \<^item> Code recovery (src/features/extractors/papa_native/): \<open>Codeblocks\<close> has the location and
    cross-reference databases and the pass that cuts functions into blocks (under viv/),
    \<open>Jump_Tables\<close> the resolvers of switch dispatches, \<open>Native_Cfg\<close> functions, imports, calls that
    do not return and register definitions, \<open>Native_Features\<close> the features of instructions, blocks
    and functions and the extractor; \<open>Codeblocks_Correct\<close>, \<open>Jump_Correct\<close>, \<open>Native_Correct\<close> and
    \<open>Api_Correct\<close> the claims.
  \<^item> Code flow (viv/cf_context.cpp, viv/discovery.cpp): \<open>Code_Flow\<close> has the work list of a function,
    the descent into its callees, the functions deferred, held and waited for, the analysis of a
    completed function and the functions read out at the end.  The mutually recursive operations
    are one step function of a task; \<open>Code_Flow_Invariant\<close> has their effects as a step relation
    and its invariant, \<open>Code_Flow_Correct\<close> the end of every run.

  \<open>Papa_Prelude\<close> has the error type and the lemmas the others share.

  \<^bold>\<open>Conventions\<close>

  Machine integers are words of their width, so that \<open>+\<close> wraps as in the code; \<open>std::size_t\<close>
  counters that the code only compares with lengths are natural numbers.  A \<open>Result\<close> of the code
  is the sum type \<open>failure + 'a\<close>; in the emulator, and where a pointer may be null, undefined
  behaviour of the language (a shift by 64 or more, signed overflow, a span past its array) is
  the value \<open>None\<close>, so that a theorem that says \<open>Some\<close> excludes it.  What the program calls and
  does not define is an argument: the regular expression engine, the hash of the standard
  library, the text of a finite double and its reading (\<open>floats\<close>, std::from_chars), the inflate
  routine, the program view the classifier asks, the iteration order of an unordered map (\<open>ord\<close>),
  the schedule of the worker threads, and what is asked of Zydis (the record \<open>zydis\<close>), and what the code flow asks of the image, the
  emulator and the signature analyzer (the record \<open>cf_env\<close>).  Their laws, where a theorem needs
  one, are hypotheses of that theorem.

  Every recursion is total, but for a few loops whose end is a theorem: they are partial
  functions with the value \<open>None\<close> for not returning, and the theorem says \<open>Some\<close> (the closure of
  the limitation gate, the flow walk of \<open>Codeblocks\<close>, the peeling of a block graph, the code flow).  Bounds that the code states appear as such: a pattern tree is
  parsed with one level of recursion more than \<open>kMaxTreeDepth\<close>, so that the depth check of the
  code always comes first; the classifier recurses at most \<open>kMaxClassifyDepth\<close> levels; a jump
  table is walked for at most 4096 entries; the 128-bit division takes 128 rounds.  The only
  fuel that is not the code's own is that of the topological sort, the number of nodes, which
  \<open>Kahn\<close> proves to be enough.

  \<^bold>\<open>What the lemmas show\<close>

  \<^item> Meaning: the two evaluations agree (\<open>quick_agrees_with_evaluate\<close>), the optimizer keeps the
    outcome, the index selects every rule that can match, so that the match through the index is
    the match of all rules (\<open>ruleset_match_complete\<close>).
  \<^item> Construction: a rule set lists every rule once, after the rules it refers to, and a cycle is
    reported exactly when there is one; its tables are exact.
  \<^item> Scanners and writers: the prefilter never rejects a match; digests in chunks are digests of
    the whole; the JSON writer accepts exactly the call sequences that spell a document.
  \<^item> YAML: a document written as text is parsed back to the same structure
    (\<open>yaml_roundtrip\<close>), and no text makes the parser recurse deeper than its bound.
  \<^item> FLIRT: a parsed tree is well-formed, matching prunes nothing, a name is backed by a module
    and by the references of the program.
  \<^item> Emulator: an invariant that every instruction keeps (collection \<open>keeps\<close> in \<open>Emu_Keeps\<close>), the
    snapshots undo any run, lanes and memory read back what was written, arithmetic against
    integers, conditions after a comparison, calls and returns, jump tables (\<open>Emu_Correct\<close>);
    and the inputs on which the code is undefined or departs from the processor.

  \<^item> PE: headers and relocations written as bytes are parsed back, the import table is exact,
    every part of an image is within the caps, mapped ranges read the bytes of the file.
  \<^item> Rules as text: a rule written as a YAML file is parsed back, what the parser accepts fits
    its scope, and a rule set of parsed rules never fails while it matches.
  \<^item> Capabilities: the result does not depend on the schedule, matches are located in their
    scope, the gate decides limitations like the whole file scope.
  \<^item> Features: string passes are exact, import features are the imports, the carver finds exactly
    the embedded headers; the API features from the imports are the imports that a call reaches by
    a slot, thunks or a register, the loop feature is a cycle of blocks, a
    stack string a run of printable stores; a capped read gives all that can be read.
  \<^item> Code recovery: the pass over the blocks ends and registers exactly the reached blocks, the
    dispatch of a switch is resolved to all of its cases, no answer exceeds its bounds; making a
    function ends and keeps the invariant of the discovery (\<open>make_function_ends\<close>).

  Interfaces are locales: what a snapshot undoes (\<open>restorable\<close>, interpreted on registers and on
  memory), and those named in the theories of the feature set, the rule index and the hashers.

  \<^bold>\<open>Not modelled\<close>

  The file system, the start of threads, the command line and the renderers; the embedded rules
  and signatures, generated data; the Zydis decoder.  Of the discovery engine the passes that
  seed the code flow (viv/engine.cpp, viv/discovery_passes.cpp, viv/entrypoints.cpp,
  viv/flirt_analysis.cpp) and the emulation of whole functions (emu/workspace_emulator.cpp,
  emu/emu_discovery.cpp, emu/watcher.cpp), for time; the code flow has them as arguments.
\<close>

end
